(* ===== verification/Aufs_Prelude.thy ===== *)
theory Aufs_Prelude
  imports Main "HOL-Library.Word" "HOL-Library.Monad_Syntax"
begin

unbundle bit_operations_syntax

text \<open>
  What every component of the development shares: the error numbers, the
  convention for code that crashes the kernel, checked array access and the
  array shifts done with \<open>memmove\<close>, and the store of kernel objects (reference
  counts, attributes of hidden dentries and inodes, the allocator).

  A result of type \<open>'a option\<close> of a translated function is \<open>None\<close> exactly when
  the C code runs into \<open>BUG()\<close>, a failing \<open>DEBUG_ON\<close> (the default build sets
  \<open>CONFIG_AUFS_DEBUG\<close>, see local.mk), a null pointer or an access outside an
  array. Errors the code handles are values: a negative \<open>int\<close>, or the left side
  of a sum where the code returns \<open>ERR_PTR\<close>.
\<close>

named_theorems kern_simps \<open>how the reference-count operations act on the store\<close>
named_theorems run_simps \<open>unfolding rules for the crash convention\<close>

section \<open>Error numbers\<close>

abbreviation (input) "EPERM \<equiv> (1::int)"
abbreviation (input) "ENOENT \<equiv> (2::int)"
abbreviation (input) "EINTR \<equiv> (4::int)"
abbreviation (input) "EIO \<equiv> (5::int)"
abbreviation (input) "E2BIG \<equiv> (7::int)"
abbreviation (input) "EAGAIN \<equiv> (11::int)"
abbreviation (input) "ENOMEM \<equiv> (12::int)"
abbreviation (input) "EACCES \<equiv> (13::int)"
abbreviation (input) "EBUSY \<equiv> (16::int)"
abbreviation (input) "EEXIST \<equiv> (17::int)"
abbreviation (input) "EXDEV \<equiv> (18::int)"
abbreviation (input) "ENOTDIR \<equiv> (20::int)"
abbreviation (input) "EISDIR \<equiv> (21::int)"
abbreviation (input) "EINVAL \<equiv> (22::int)"
abbreviation (input) "ENOSPC \<equiv> (28::int)"
abbreviation (input) "EROFS \<equiv> (30::int)"
abbreviation (input) "EMLINK \<equiv> (31::int)"
abbreviation (input) "EDOM \<equiv> (33::int)"
abbreviation (input) "ENAMETOOLONG \<equiv> (36::int)"
abbreviation (input) "EOPNOTSUPP \<equiv> (95::int)"
abbreviation (input) "ENOSYS \<equiv> (38::int)"
abbreviation (input) "ENOTEMPTY \<equiv> (39::int)"
abbreviation (input) "ESTALE \<equiv> (116::int)"

section \<open>The crash convention\<close>

definition debug_on :: "bool \<Rightarrow> unit option" where
  "debug_on c = (if c then None else Some ())"

lemma debug_on_simps [simp]:
  "debug_on False = Some ()"
  "debug_on True = None"
  "(debug_on c = Some u) = (\<not> c)"
  "(debug_on c = None) = c"
  by (simp_all add: debug_on_def)

lemma debug_on_bind [simp]:
  "Option.bind (debug_on c) f = (if c then None else f ())"
  by (simp add: debug_on_def)

lemma bind_Some_iff [run_simps]:
  "(Option.bind m f = Some y) = (\<exists>x. m = Some x \<and> f x = Some y)"
  by (cases m) auto

lemma bind_Some_map: "Option.bind m (\<lambda>x. Some (f x)) = map_option f m"
  by (cases m) auto

section \<open>Arrays\<close>

text \<open>
  C arrays are lists whose length is the number of allocated elements; an index
  outside of it is a crash.
\<close>

definition aget :: "'a list \<Rightarrow> int \<Rightarrow> 'a option" where
  "aget xs i = (if 0 \<le> i \<and> i < int (length xs) then Some (xs ! nat i) else None)"

definition aset :: "'a list \<Rightarrow> int \<Rightarrow> 'a \<Rightarrow> 'a list option" where
  "aset xs i x =
     (if 0 \<le> i \<and> i < int (length xs) then Some (xs[nat i := x]) else None)"

lemma aget_Some_iff:
  "(aget xs i = Some x) = (0 \<le> i \<and> i < int (length xs) \<and> xs ! nat i = x)"
  by (auto simp: aget_def)

lemma aget_in_range [simp]: "0 \<le> i \<Longrightarrow> i < int (length xs) \<Longrightarrow> aget xs i = Some (xs ! nat i)"
  by (simp add: aget_def)

lemma aset_in_range [simp]: "0 \<le> i \<Longrightarrow> i < int (length xs) \<Longrightarrow> aset xs i x = Some (xs[nat i := x])"
  by (simp add: aset_def)

lemma aset_Some_iff:
  "(aset xs i x = Some ys) = (0 \<le> i \<and> i < int (length xs) \<and> ys = xs[nat i := x])"
  by (auto simp: aset_def)

lemma aset_length: "aset xs i x = Some ys \<Longrightarrow> length ys = length xs"
  by (auto simp: aset_Some_iff)

lemma aget_aset:
  "aset xs i x = Some ys \<Longrightarrow> 0 \<le> j \<Longrightarrow> aget ys j = (if i = j then Some x else aget xs j)"
  by (auto simp: aset_def aget_def nth_list_update split: if_splits)

text \<open>
  \<open>memmove(a + i + 1, a + i, n * size); a[i] = x\<close> on an array in use up to \<open>i + n\<close>,
  and \<open>memmove(a + i, a + i + 1, n * size); a[i + n] = x\<close>.
\<close>

definition amove_up :: "'a list \<Rightarrow> nat \<Rightarrow> nat \<Rightarrow> 'a \<Rightarrow> 'a list option" where
  "amove_up xs i n x =
     (if i + n < length xs
      then Some (take i xs @ x # take n (drop i xs) @ drop (Suc (i + n)) xs)
      else None)"

definition amove_down :: "'a list \<Rightarrow> nat \<Rightarrow> nat \<Rightarrow> 'a \<Rightarrow> 'a list option" where
  "amove_down xs i n x =
     (if i + n < length xs
      then Some (take i xs @ take n (drop (Suc i) xs) @ x # drop (Suc (i + n)) xs)
      else None)"

lemma amove_up_length: "amove_up xs i n x = Some ys \<Longrightarrow> length ys = length xs"
  by (auto simp: amove_up_def split: if_splits)

lemma amove_down_length: "amove_down xs i n x = Some ys \<Longrightarrow> length ys = length xs"
  by (auto simp: amove_down_def split: if_splits)

lemma amove_up_nth:
  assumes "amove_up xs i n x = Some ys" and "j < length xs"
  shows "ys ! j = (if j = i then x else if i < j \<and> j \<le> i + n then xs ! (j - 1) else xs ! j)"
proof -
  from assms(1) have l: "i + n < length xs"
    and ys: "ys = take i xs @ x # take n (drop i xs) @ drop (Suc (i + n)) xs"
    by (auto simp: amove_up_def split: if_splits)
  show ?thesis
    using l assms(2) unfolding ys
    by (auto simp: nth_append nth_Cons' min_def)
qed

lemma amove_down_nth:
  assumes "amove_down xs i n x = Some ys" and "j < length xs"
  shows "ys ! j = (if j = i + n then x else if i \<le> j \<and> j < i + n then xs ! Suc j else xs ! j)"
proof -
  from assms(1) have l: "i + n < length xs"
    and ys: "ys = take i xs @ take n (drop (Suc i) xs) @ x # drop (Suc (i + n)) xs"
    by (auto simp: amove_down_def split: if_splits)
  show ?thesis
    using l assms(2) unfolding ys
    by (auto simp: nth_append nth_Cons' min_def)
qed

text \<open>On the used prefix the two shifts are insertion and deletion.\<close>

lemma amove_up_take:
  assumes "amove_up xs i n x = Some ys"
  shows "take (Suc (i + n)) ys = take i xs @ x # drop i (take (i + n) xs)"
  using assms by (auto simp: amove_up_def min_def drop_take split: if_splits)

lemma amove_down_take:
  assumes "amove_down xs i n x = Some ys"
  shows "take (i + n) ys = take i xs @ drop (Suc i) (take (Suc (i + n)) xs)"
  using assms by (auto simp: amove_down_def min_def drop_take split: if_splits)

section \<open>Counting loops\<close>

text \<open>
  \<open>for (i = lo; i <= hi; i++) if (p(i)) return i; return d;\<close> and its downward
  form; the test itself may crash.
\<close>

function scan_up :: "(int \<Rightarrow> bool option) \<Rightarrow> int \<Rightarrow> int \<Rightarrow> int \<Rightarrow> int option" where
  "scan_up p i e d =
     (if i \<le> e
      then case p i of None \<Rightarrow> None
           | Some True \<Rightarrow> Some i
           | Some False \<Rightarrow> scan_up p (i + 1) e d
      else Some d)"
  by pat_completeness auto
termination
  by (relation "measure (\<lambda>(p, i, e, d). nat (e + 1 - i))") auto

function scan_down :: "(int \<Rightarrow> bool option) \<Rightarrow> int \<Rightarrow> int \<Rightarrow> int \<Rightarrow> int option" where
  "scan_down p i e d =
     (if e \<le> i
      then case p i of None \<Rightarrow> None
           | Some True \<Rightarrow> Some i
           | Some False \<Rightarrow> scan_down p (i - 1) e d
      else Some d)"
  by pat_completeness auto
termination
  by (relation "measure (\<lambda>(p, i, e, d). nat (i + 1 - e))") auto

declare scan_up.simps [simp del] and scan_down.simps [simp del]

lemma scan_up_spec:
  assumes "\<And>j. i \<le> j \<Longrightarrow> j \<le> e \<Longrightarrow> p j = Some (q j)"
  shows "\<exists>r. scan_up p i e d = Some r \<and>
     ((i \<le> r \<and> r \<le> e \<and> q r \<and> (\<forall>j. i \<le> j \<longrightarrow> j < r \<longrightarrow> \<not> q j)) \<or>
      (r = d \<and> (\<forall>j. i \<le> j \<longrightarrow> j \<le> e \<longrightarrow> \<not> q j)))"
  using assms
proof (induction p i e d rule: scan_up.induct)
  case (1 p i e d)
  show ?case
  proof (cases "i \<le> e \<and> \<not> q i")
    case True
    then have pi: "p i = Some False" using "1.prems" by simp
    with True "1.IH" [OF _ pi] "1.prems" obtain r where
      r: "scan_up p (i + 1) e d = Some r" and
      c: "(i + 1 \<le> r \<and> r \<le> e \<and> q r \<and> (\<forall>j. i + 1 \<le> j \<longrightarrow> j < r \<longrightarrow> \<not> q j)) \<or>
          (r = d \<and> (\<forall>j. i + 1 \<le> j \<longrightarrow> j \<le> e \<longrightarrow> \<not> q j))"
      by fastforce
    have "scan_up p i e d = Some r"
      using True pi r by (subst scan_up.simps) simp
    moreover have ext: "\<forall>j. i \<le> j \<longrightarrow> P j \<longrightarrow> \<not> q j"
      if "\<forall>j. i + 1 \<le> j \<longrightarrow> P j \<longrightarrow> \<not> q j" for P
    proof (intro allI impI)
      fix j assume "i \<le> j" "P j"
      with True that show "\<not> q j" by (cases "j = i") auto
    qed
    moreover have "i \<le> r" if "i + 1 \<le> r" using that by simp
    ultimately show ?thesis
      using c ext [of "\<lambda>j. j < r"] ext [of "\<lambda>j. j \<le> e"] by blast
  next
    case False
    then show ?thesis using "1.prems" [of i]
      by (subst scan_up.simps) auto
  qed
qed

lemma scan_down_spec:
  assumes "\<And>j. e \<le> j \<Longrightarrow> j \<le> i \<Longrightarrow> p j = Some (q j)"
  shows "\<exists>r. scan_down p i e d = Some r \<and>
     ((e \<le> r \<and> r \<le> i \<and> q r \<and> (\<forall>j. r < j \<longrightarrow> j \<le> i \<longrightarrow> \<not> q j)) \<or>
      (r = d \<and> (\<forall>j. e \<le> j \<longrightarrow> j \<le> i \<longrightarrow> \<not> q j)))"
  using assms
proof (induction p i e d rule: scan_down.induct)
  case (1 p i e d)
  show ?case
  proof (cases "e \<le> i \<and> \<not> q i")
    case True
    then have pi: "p i = Some False" using "1.prems" by simp
    with True "1.IH" [OF _ pi] "1.prems" obtain r where
      r: "scan_down p (i - 1) e d = Some r" and
      c: "(e \<le> r \<and> r \<le> i - 1 \<and> q r \<and> (\<forall>j. r < j \<longrightarrow> j \<le> i - 1 \<longrightarrow> \<not> q j)) \<or>
          (r = d \<and> (\<forall>j. e \<le> j \<longrightarrow> j \<le> i - 1 \<longrightarrow> \<not> q j))"
      by fastforce
    have "scan_down p i e d = Some r"
      using True pi r by (subst scan_down.simps) simp
    moreover have ext: "\<forall>j. P j \<longrightarrow> j \<le> i \<longrightarrow> \<not> q j"
      if "\<forall>j. P j \<longrightarrow> j \<le> i - 1 \<longrightarrow> \<not> q j" for P
    proof (intro allI impI)
      fix j assume "j \<le> i" "P j"
      with True that show "\<not> q j" by (cases "j = i") auto
    qed
    moreover have "r \<le> i" if "r \<le> i - 1" using that by simp
    ultimately show ?thesis
      using c ext [of "\<lambda>j. r < j"] ext [of "\<lambda>j. e \<le> j"] by blast
  next
    case False
    then show ?thesis using "1.prems" [of i]
      by (subst scan_down.simps) auto
  qed
qed

text \<open>
  A counting loop with a body that updates a state and says whether to go on:
  \<open>Some (False, s)\<close> is a \<open>break\<close>, \<open>None\<close> a crash.
\<close>

function for_up :: "(int \<Rightarrow> 's \<Rightarrow> (bool \<times> 's) option) \<Rightarrow> int \<Rightarrow> int \<Rightarrow> 's \<Rightarrow> 's option" where
  "for_up f i e s =
     (if i \<le> e
      then case f i s of None \<Rightarrow> None
           | Some (True, s') \<Rightarrow> for_up f (i + 1) e s'
           | Some (False, s') \<Rightarrow> Some s'
      else Some s)"
  by pat_completeness auto
termination
  by (relation "measure (\<lambda>(f, i, e, s). nat (e + 1 - i))") auto

declare for_up.simps [simp del]

lemma for_up_done [simp]: "e < i \<Longrightarrow> for_up f i e s = Some s"
  by (subst for_up.simps) simp

lemma for_up_step:
  "i \<le> e \<Longrightarrow> for_up f i e s =
     (case f i s of None \<Rightarrow> None
      | Some (True, s') \<Rightarrow> for_up f (i + 1) e s'
      | Some (False, s') \<Rightarrow> Some s')"
  by (subst for_up.simps) simp

text \<open>The invariant rule: \<open>I i\<close> at the head of the loop, \<open>Q\<close> at its end.\<close>

lemma for_up_rule:
  assumes "I i s" and "i \<le> e + 1"
    and "\<And>j t. i \<le> j \<Longrightarrow> j \<le> e \<Longrightarrow> I j t \<Longrightarrow>
           \<exists>c u. f j t = Some (c, u) \<and> (if c then I (j + 1) u else Q u)"
    and "\<And>t. I (e + 1) t \<Longrightarrow> Q t"
  shows "\<exists>t. for_up f i e s = Some t \<and> Q t"
  using assms
proof (induction f i e s rule: for_up.induct)
  case (1 f i e s)
  show ?case
  proof (cases "i \<le> e")
    case True
    with "1.prems" obtain c u where
      fu: "f i s = Some (c, u)" and cu: "if c then I (i + 1) u else Q u"
      by blast
    show ?thesis
    proof (cases c)
      case c: True
      have "\<exists>t. for_up f (i + 1) e u = Some t \<and> Q t"
        using True c cu fu "1.prems" by (intro "1.IH" [of "(c, u)" c u]) auto
      then show ?thesis using True fu c by (simp add: for_up_step)
    next
      case False
      with cu fu True show ?thesis by (simp add: for_up_step)
    qed
  next
    case False
    with "1.prems"(1,2,4) have "i = e + 1" by simp
    with "1.prems" show ?thesis by simp
  qed
qed

lemma for_up_prefix:
  assumes "I i s" and "i \<le> m" and "m \<le> e + 1"
    and "\<And>j t. i \<le> j \<Longrightarrow> j < m \<Longrightarrow> I j t \<Longrightarrow> \<exists>u. f j t = Some (True, u) \<and> I (j + 1) u"
  shows "\<exists>t. for_up f i e s = for_up f m e t \<and> I m t"
  using assms
proof (induction "nat (m - i)" arbitrary: i s)
  case 0
  then have "i = m" by simp
  with 0 show ?case by blast
next
  case (Suc n)
  then have "i < m" by simp
  with Suc.prems obtain u where u: "f i s = Some (True, u)" "I (i + 1) u" by blast
  have "\<exists>t. for_up f (i + 1) e u = for_up f m e t \<and> I m t"
    using Suc.hyps(2) Suc.prems \<open>i < m\<close> u(2) by (intro Suc.hyps(1)) auto
  with u \<open>i < m\<close> Suc.prems(3) show ?case by (simp add: for_up_step)
qed

lemma for_up_total:
  assumes "I i s" and "i \<le> e + 1"
    and "\<And>j t. i \<le> j \<Longrightarrow> j \<le> e \<Longrightarrow> I j t \<Longrightarrow> \<exists>u. f j t = Some (True, u) \<and> I (j + 1) u"
  shows "\<exists>t. for_up f i e s = Some t \<and> I (e + 1) t"
  using for_up_prefix [of I i s "e + 1" e f] assms by force

text \<open>What holds after a loop that ended, with \<open>Q\<close> for the states it was left in early.\<close>

lemma for_up_inv:
  assumes "for_up f i e s = Some t" and "I i s" and "i \<le> e + 1"
    and "\<And>j s c u. i \<le> j \<Longrightarrow> j \<le> e \<Longrightarrow> I j s \<Longrightarrow> f j s = Some (c, u) \<Longrightarrow> if c then I (j + 1) u else Q u"
  shows "Q t \<or> I (e + 1) t"
  using assms
proof (induction "nat (e + 1 - i)" arbitrary: i s)
  case 0
  then show ?case by simp
next
  case (Suc n)
  then have le: "i \<le> e" by simp
  with Suc.prems(1) obtain c u where f: "f i s = Some (c, u)" and r: "if c then for_up f (i + 1) e u = Some t else t = u"
    by (auto simp: for_up_step split: option.splits bool.splits)
  have cu: "if c then I (i + 1) u else Q u" using Suc.prems(4) [OF order_refl le Suc.prems(2) f] .
  show ?case
  proof (cases c)
    case True
    show ?thesis
    proof (rule Suc.hyps(1))
      show "for_up f (i + 1) e u = Some t" "I (i + 1) u" "n = nat (e + 1 - (i + 1))" "i + 1 \<le> e + 1"
        using True r cu Suc.hyps(2) le by simp_all
      show "if c then I (j + 1) u else Q u" if "i + 1 \<le> j" "j \<le> e" "I j s" "f j s = Some (c, u)" for j s c u
        using Suc.prems(4) [OF _ that(2-4)] that(1) by simp
    qed
  qed (use r cu in simp)
qed

section \<open>What a loop keeps\<close>

text \<open>
  A relation between the states before and after, kept by every round, is kept by the
  loop: the frame lemmas of the components are instances.
\<close>

locale frame_rel =
  fixes R :: "'s \<Rightarrow> 's \<Rightarrow> bool"
  assumes frame_refl: "R s s"
    and frame_trans: "R s t \<Longrightarrow> R t u \<Longrightarrow> R s u"
begin

lemma for_up_frame:
  assumes "for_up f i e s = Some t" and "\<And>j s c u. f j s = Some (c, u) \<Longrightarrow> R s u"
  shows "R s t"
proof (cases "i \<le> e + 1")
  case True
  have "R s t \<or> R s t"
    by (rule for_up_inv [where I = "\<lambda>_. R s" and Q = "R s", OF assms(1) frame_refl True])
      (use assms(2) frame_trans in \<open>auto split: if_splits\<close>)
  then show ?thesis by simp
next
  case False
  with assms(1) show ?thesis by (simp add: frame_refl)
qed

end

end
