(* ===== verification/Aufs_Types.thy ===== *)
theory Aufs_Types
  imports Aufs_Prelude
begin

text \<open>
  The structures of aufs as records, and the store of the kernel objects they
  point to. Pointers are addresses (\<open>nat\<close>), a pointer that may be null is an
  \<open>option\<close>. The configuration is the default one of local.mk: at most 127
  branches (\<open>aufs_bindex_t\<close> is a signed 8-bit \<open>char\<close>), debugging on, no
  hinotify, no delegation, 64-bit \<open>ino_t\<close> and \<open>long\<close>.
\<close>

section \<open>The store of kernel objects\<close>

text \<open>
  Reference counts of dentries, inodes, files and mounts; the attributes of
  hidden dentries, inodes, mounts and superblocks the code reads; and the
  allocator: the \<open>n\<close>-th \<open>kmalloc\<close> succeeds if \<open>k_ok n\<close>.
\<close>

text \<open>
  A directory listing cache (\<open>struct aufs_vdir\<close>, dir.h): an array of pointers to
  512-byte blocks, and the place of the last access as the index of a block and a
  pointer into one. Pointers into the blocks of a listing are pairs of a block
  number and an offset.
\<close>

record aufs_vdir =
  vd_deblk :: "8 word list option list"
  vd_nblk :: nat
  vd_last_i :: nat
  vd_last_p :: "nat \<times> nat"
  vd_version :: nat
  vd_jiffy :: nat

text \<open>
  The attributes of an inode beside its mode and link count, and the operations of an
  open file: the addresses of \<open>read\<close> and \<open>write\<close>, and whether the asynchronous ones exist.
\<close>

record inode_attr =
  ia_uid :: nat
  ia_gid :: nat
  ia_atime :: int
  ia_mtime :: int
  ia_ctime :: int
  ia_size :: nat
  ia_blocks :: nat
  ia_flags :: nat
  ia_rdev :: nat
  ia_blkbits :: nat
  ia_generation :: nat

record file_ops =
  fop_read :: "nat option"
  fop_aio_read :: bool
  fop_write :: "nat option"
  fop_aio_write :: bool

text \<open>
  \<open>k_live\<close> is the number of allocations not yet freed, \<open>k_junk\<close> the content of
  fresh memory, \<open>k_vdir\<close> the heap of listing caches.
\<close>

record kern =
  k_ok :: "nat \<Rightarrow> bool"
  k_alloc :: nat
  k_live :: int
  k_junk :: "nat \<Rightarrow> nat \<Rightarrow> 8 word"
  k_vdir :: "nat \<Rightarrow> aufs_vdir"
  k_jiffies :: nat
  k_dcount :: "nat \<Rightarrow> int"
  k_icount :: "nat \<Rightarrow> int"
  k_fcount :: "nat \<Rightarrow> int"
  k_mcount :: "nat \<Rightarrow> int"
  k_dinode :: "nat \<Rightarrow> nat option"
  k_dparent :: "nat \<Rightarrow> nat"
  k_dname :: "nat \<Rightarrow> 8 word list"
  k_dsb :: "nat \<Rightarrow> nat"
  k_imode :: "nat \<Rightarrow> 32 word"
  k_inlink :: "nat \<Rightarrow> nat"
  k_iimmutable :: "nat \<Rightarrow> bool"
  k_iino :: "nat \<Rightarrow> 64 word"
  k_isb :: "nat \<Rightarrow> nat"
  k_msb :: "nat \<Rightarrow> nat"
  k_srdonly :: "nat \<Rightarrow> bool"
  k_smaxbytes :: "nat \<Rightarrow> nat"
  k_stype :: "nat \<Rightarrow> string"
  k_fdentry :: "nat \<Rightarrow> nat"
  k_fdata :: "nat \<Rightarrow> 8 word list"
  k_fpos :: "nat \<Rightarrow> 64 word"
  k_fwritable :: "nat \<Rightarrow> bool"
  k_fflags :: "nat \<Rightarrow> 32 word"
  k_sblocksize :: "nat \<Rightarrow> nat"
  k_fmnt :: "nat \<Rightarrow> nat"
  k_fop :: "nat \<Rightarrow> file_ops option"
  k_iattr :: "nat \<Rightarrow> inode_attr"

definition kmalloc :: "kern \<Rightarrow> bool \<times> kern" where
  "kmalloc k = (k_ok k (k_alloc k),
     k\<lparr>k_alloc := Suc (k_alloc k), k_live := k_live k + (if k_ok k (k_alloc k) then 1 else 0)\<rparr>)"

definition kfree :: "kern \<Rightarrow> kern" where
  "kfree k = k\<lparr>k_live := k_live k - 1\<rparr>"

definition dget :: "nat \<Rightarrow> kern \<Rightarrow> kern" where
  "dget d k = k\<lparr>k_dcount := (k_dcount k)(d := k_dcount k d + 1)\<rparr>"

definition dput :: "nat option \<Rightarrow> kern \<Rightarrow> kern" where
  "dput p k = (case p of None \<Rightarrow> k
     | Some d \<Rightarrow> k\<lparr>k_dcount := (k_dcount k)(d := k_dcount k d - 1)\<rparr>)"

definition igrab :: "nat \<Rightarrow> kern \<Rightarrow> kern" where
  "igrab i k = k\<lparr>k_icount := (k_icount k)(i := k_icount k i + 1)\<rparr>"

definition iput :: "nat option \<Rightarrow> kern \<Rightarrow> kern" where
  "iput p k = (case p of None \<Rightarrow> k
     | Some i \<Rightarrow> k\<lparr>k_icount := (k_icount k)(i := k_icount k i - 1)\<rparr>)"

definition get_file :: "nat \<Rightarrow> kern \<Rightarrow> kern" where
  "get_file f k = k\<lparr>k_fcount := (k_fcount k)(f := k_fcount k f + 1)\<rparr>"

definition fput :: "nat \<Rightarrow> kern \<Rightarrow> kern" where
  "fput f k = k\<lparr>k_fcount := (k_fcount k)(f := k_fcount k f - 1)\<rparr>"

definition mntget :: "nat \<Rightarrow> kern \<Rightarrow> kern" where
  "mntget m k = k\<lparr>k_mcount := (k_mcount k)(m := k_mcount k m + 1)\<rparr>"

definition mntput :: "nat option \<Rightarrow> kern \<Rightarrow> kern" where
  "mntput p k = (case p of None \<Rightarrow> k
     | Some m \<Rightarrow> k\<lparr>k_mcount := (k_mcount k)(m := k_mcount k m - 1)\<rparr>)"

lemmas ref_defs [kern_simps] =
  dget_def dput_def igrab_def iput_def get_file_def fput_def mntget_def mntput_def

lemma dput_frame [simp]:
  "k_icount (dput p k) = k_icount k" "k_fcount (dput p k) = k_fcount k"
  "k_mcount (dput p k) = k_mcount k" "k_dinode (dput p k) = k_dinode k"
  "k_dparent (dput p k) = k_dparent k" "k_dname (dput p k) = k_dname k"
  "k_imode (dput p k) = k_imode k" "k_inlink (dput p k) = k_inlink k"
  "k_alloc (dput p k) = k_alloc k" "k_ok (dput p k) = k_ok k"
  "k_live (dput p k) = k_live k" "k_junk (dput p k) = k_junk k" "k_vdir (dput p k) = k_vdir k"
  by (simp_all add: dput_def split: option.split)

lemma iput_frame [simp]:
  "k_dcount (iput p k) = k_dcount k" "k_fcount (iput p k) = k_fcount k"
  "k_mcount (iput p k) = k_mcount k" "k_dinode (iput p k) = k_dinode k"
  "k_dparent (iput p k) = k_dparent k" "k_dname (iput p k) = k_dname k"
  "k_imode (iput p k) = k_imode k" "k_inlink (iput p k) = k_inlink k"
  "k_alloc (iput p k) = k_alloc k" "k_ok (iput p k) = k_ok k"
  "k_live (iput p k) = k_live k" "k_junk (iput p k) = k_junk k" "k_vdir (iput p k) = k_vdir k"
  by (simp_all add: iput_def split: option.split)

lemma dput_dcount: "k_dcount (dput p k) d = k_dcount k d - (if p = Some d then 1 else 0)"
  by (auto simp: dput_def split: option.split)

lemma iput_icount: "k_icount (iput p k) i = k_icount k i - (if p = Some i then 1 else 0)"
  by (auto simp: iput_def split: option.split)

lemma dput_None [simp]: "dput None k = k" and iput_None [simp]: "iput None k = k"
  and mntput_None [simp]: "mntput None k = k"
  by (simp_all add: ref_defs)

text \<open>A store for concrete inputs: every allocation succeeds, every object is referenced once.\<close>

definition attr0 :: inode_attr where
  "attr0 = \<lparr>ia_uid = 0, ia_gid = 0, ia_atime = 0, ia_mtime = 0, ia_ctime = 0, ia_size = 0, ia_blocks = 0,
     ia_flags = 0, ia_rdev = 0, ia_blkbits = 12, ia_generation = 0\<rparr>"

definition kern0 :: kern where
  "kern0 = \<lparr>k_ok = (\<lambda>_. True), k_alloc = 0, k_live = 0, k_junk = (\<lambda>_ _. 0),
     k_vdir = (\<lambda>_. \<lparr>vd_deblk = [], vd_nblk = 0, vd_last_i = 0, vd_last_p = (0, 0), vd_version = 0,
       vd_jiffy = 0\<rparr>), k_jiffies = 0, k_dcount = (\<lambda>_. 1), k_icount = (\<lambda>_. 1),
     k_fcount = (\<lambda>_. 1), k_mcount = (\<lambda>_. 1), k_dinode = Some, k_dparent = (\<lambda>d. d),
     k_dname = (\<lambda>_. []), k_dsb = (\<lambda>_. 0), k_imode = (\<lambda>_. 0x4000), k_inlink = (\<lambda>_. 1), k_iimmutable = (\<lambda>_. False),
     k_iino = of_nat, k_isb = (\<lambda>_. 0), k_msb = (\<lambda>_. 0), k_srdonly = (\<lambda>_. False),
     k_smaxbytes = (\<lambda>_. 0), k_stype = (\<lambda>_. []), k_fdentry = (\<lambda>f. f), k_fdata = (\<lambda>_. []),
     k_fpos = (\<lambda>_. 0), k_fwritable = (\<lambda>_. True), k_fflags = (\<lambda>_. 2), k_sblocksize = (\<lambda>_. 4096), k_fmnt = (\<lambda>_. 0),
     k_fop = (\<lambda>_. Some \<lparr>fop_read = Some 1, fop_aio_read = True, fop_write = Some 1, fop_aio_write = True\<rparr>),
     k_iattr = (\<lambda>_. attr0)\<rparr>"

lemma kern0_fields:
  "k_ok kern0 = (\<lambda>_. True)" "k_alloc kern0 = 0" "k_live kern0 = 0" "k_dcount kern0 = (\<lambda>_. 1)" "k_icount kern0 = (\<lambda>_. 1)"
  "k_fcount kern0 = (\<lambda>_. 1)" "k_mcount kern0 = (\<lambda>_. 1)" "k_dinode kern0 = Some" "k_dparent kern0 = (\<lambda>d. d)"
  "k_dname kern0 = (\<lambda>_. [])" "k_dsb kern0 = (\<lambda>_. 0)" "k_imode kern0 = (\<lambda>_. 0x4000)" "k_inlink kern0 = (\<lambda>_. 1)"
  "k_isb kern0 = (\<lambda>_. 0)" "k_msb kern0 = (\<lambda>_. 0)" "k_srdonly kern0 = (\<lambda>_. False)" "k_smaxbytes kern0 = (\<lambda>_. 0)"
  "k_stype kern0 = (\<lambda>_. [])" "k_iattr kern0 = (\<lambda>_. attr0)"
  by (simp_all add: kern0_def)

text \<open>File types of \<open>i_mode\<close>.\<close>

definition S_ISDIR :: "32 word \<Rightarrow> bool" where
  "S_ISDIR m \<longleftrightarrow> m AND 0xF000 = 0x4000"

definition S_ISREG :: "32 word \<Rightarrow> bool" where
  "S_ISREG m \<longleftrightarrow> m AND 0xF000 = 0x8000"

section \<open>Branches and the superblock\<close>

datatype br_perm =
  AuBr_RW | AuBr_RO | AuBr_RR | AuBr_RWNoLinkWH | AuBr_ROWH | AuBr_RRWH | AuBr_Last

record aufs_branch =
  br_xino :: "nat option"
  br_xino_read :: nat
  br_xino_write :: nat
  br_id :: int
  br_perm :: br_perm
  br_mnt :: nat
  br_count :: int
  br_wh :: "nat option"
  br_wh_running :: int
  br_plink :: "nat option"

text \<open>
  \<open>struct super_block\<close> with its \<open>struct aufs_sbinfo\<close>; the branches are objects
  in \<open>s_br\<close>, the array \<open>si_branch\<close> holds their addresses.
\<close>

record aufs_sb =
  s_rdonly :: bool
  s_maxbytes :: nat
  si_generation :: int
  si_bend :: int
  si_last_br_id :: int
  si_branch :: "nat option list"
  si_flags :: "32 word"
  si_xino :: "64 word"
  si_rdcache :: int
  si_dirwh :: int
  si_plink :: "nat list"
  s_br :: "nat \<Rightarrow> aufs_branch"

section \<open>Info structures of dentries, inodes and files\<close>

record aufs_dinfo =
  di_generation :: int
  di_bstart :: int
  di_bend :: int
  di_bwh :: int
  di_bdiropq :: int
  di_hdentry :: "nat option list"
  di_reval :: int

text \<open>An aufs dentry: \<open>d_fsdata\<close>, and the \<open>i_mode\<close> of \<open>d_inode\<close> when it is positive.\<close>

record aufs_dentry =
  d_fsdata :: "aufs_dinfo option"
  d_imode :: "32 word option"

record aufs_hinode =
  hi_inode :: "nat option"
  hi_id :: int
  hi_notify :: "nat option"

record aufs_iinfo =
  ii_generation :: int
  ii_bstart :: int
  ii_bend :: int
  ii_hinode :: "aufs_hinode list option"
  ii_vdir :: "nat option"

record aufs_inode =
  i_ino :: "64 word"
  i_mode :: "32 word"
  i_nlink :: int
  i_version :: nat
  i_attr :: inode_attr
  i_iinfo :: aufs_iinfo

record aufs_hfile =
  hf_file :: "nat option"
  hf_br :: "nat option"

datatype fi_union = Fi_h_vm_ops "nat option" | Fi_vdir_cache "nat option"

record aufs_finfo =
  fi_generation :: int
  fi_hfile :: "aufs_hfile list"
  fi_bstart :: int
  fi_bend :: int
  fi_u :: fi_union

section \<open>Branch indexes\<close>

text \<open>Storing an \<open>int\<close> in an \<open>aufs_bindex_t\<close> (signed 8 bits) keeps the low byte.\<close>

definition to_bindex :: "int \<Rightarrow> int" where
  "to_bindex n = sint (word_of_int n :: 8 word)"

definition AUFS_BRANCH_MAX :: int where
  "AUFS_BRANCH_MAX = 127"

lemma to_bindex_range: "- 128 \<le> to_bindex n \<and> to_bindex n < 128"
  using sint_range_size [of "word_of_int n :: 8 word"]
  by (simp add: to_bindex_def word_size)

lemma to_bindex_eq: "to_bindex n = (n + 128) mod 256 - 128"
  by (simp add: to_bindex_def signed_take_bit_eq_take_bit_shift sint_uint
      signed_of_int take_bit_eq_mod uint_word_of_int mod_add_left_eq)

lemma to_bindex_id [simp]: "- 128 \<le> n \<Longrightarrow> n < 128 \<Longrightarrow> to_bindex n = n"
  by (simp add: to_bindex_eq)

end
