(* ===== verification/Aufs_Super.thy ===== *)
theory Aufs_Super
  imports Aufs_Types
begin

text \<open>
  The superblock information and the branch table: sbinfo.c, the inline functions
  of branch.h and super.h, and the searches of branch.c over the table. Shown: the
  searches return the first branch with the property, a new branch id is found
  and is fresh and non-zero, and the flag operations touch their own bits only.
\<close>

section \<open>Branch permissions\<close>

definition br_writable :: "br_perm \<Rightarrow> bool" where
  "br_writable brperm \<longleftrightarrow> brperm = AuBr_RW \<or> brperm = AuBr_RWNoLinkWH"

definition br_whable :: "br_perm \<Rightarrow> bool" where
  "br_whable brperm \<longleftrightarrow> brperm = AuBr_RW \<or> brperm = AuBr_ROWH \<or> brperm = AuBr_RRWH"

definition br_linkable_wh :: "br_perm \<Rightarrow> bool" where
  "br_linkable_wh brperm \<longleftrightarrow> brperm = AuBr_RW"

section \<open>Mount flags\<close>

definition AuFlag_XINO :: "32 word" where "AuFlag_XINO = 1"
definition AuFlag_PLINK :: "32 word" where "AuFlag_PLINK = push_bit 2 1"
definition AuFlag_UDBA_NONE :: "32 word" where "AuFlag_UDBA_NONE = push_bit 3 1"
definition AuFlag_UDBA_REVAL :: "32 word" where "AuFlag_UDBA_REVAL = push_bit 4 1"
definition AuFlag_UDBA_INOTIFY :: "32 word" where "AuFlag_UDBA_INOTIFY = push_bit 5 1"
definition AuFlag_WARN_PERM :: "32 word" where "AuFlag_WARN_PERM = push_bit 6 1"
definition AuFlag_COO_NONE :: "32 word" where "AuFlag_COO_NONE = push_bit 7 1"
definition AuFlag_COO_LEAF :: "32 word" where "AuFlag_COO_LEAF = push_bit 8 1"
definition AuFlag_COO_ALL :: "32 word" where "AuFlag_COO_ALL = push_bit 9 1"
definition AuFlag_ALWAYS_DIROPQ :: "32 word" where "AuFlag_ALWAYS_DIROPQ = push_bit 10 1"
definition AuFlag_DLGT :: "32 word" where "AuFlag_DLGT = push_bit 11 1"

definition AuMask_UDBA :: "32 word" where
  "AuMask_UDBA = AuFlag_UDBA_NONE OR AuFlag_UDBA_REVAL OR AuFlag_UDBA_INOTIFY"

definition AuMask_COO :: "32 word" where
  "AuMask_COO = AuFlag_COO_NONE OR AuFlag_COO_LEAF OR AuFlag_COO_ALL"

definition AuDefFlags :: "32 word" where
  "AuDefFlags = AuFlag_XINO OR AuFlag_UDBA_REVAL OR AuFlag_WARN_PERM OR AuFlag_COO_NONE
     OR AuFlag_PLINK"

lemmas flag_defs =
  AuFlag_XINO_def AuFlag_PLINK_def AuFlag_UDBA_NONE_def AuFlag_UDBA_REVAL_def
  AuFlag_UDBA_INOTIFY_def AuFlag_WARN_PERM_def AuFlag_COO_NONE_def AuFlag_COO_LEAF_def
  AuFlag_COO_ALL_def AuFlag_ALWAYS_DIROPQ_def AuFlag_DLGT_def AuMask_UDBA_def
  AuMask_COO_def AuDefFlags_def

definition au_flag_set :: "32 word \<Rightarrow> aufs_sb \<Rightarrow> aufs_sb" where
  "au_flag_set flag sb = sb\<lparr>si_flags := si_flags sb OR flag\<rparr>"

definition au_flag_clr :: "32 word \<Rightarrow> aufs_sb \<Rightarrow> aufs_sb" where
  "au_flag_clr flag sb = sb\<lparr>si_flags := si_flags sb AND NOT flag\<rparr>"

definition au_flag_test :: "aufs_sb \<Rightarrow> 32 word \<Rightarrow> 32 word" where
  "au_flag_test sb flag = si_flags sb AND flag"

lemma flag_test_set_same [simp]: "au_flag_test (au_flag_set f sb) f = f"
  by (simp add: au_flag_test_def au_flag_set_def bit_eq_iff bit_and_iff bit_or_iff)

lemma flag_test_clr_same [simp]: "au_flag_test (au_flag_clr f sb) f = 0"
  by (simp add: au_flag_test_def au_flag_clr_def bit_eq_iff bit_and_iff bit_not_iff)

lemma flag_test_other:
  assumes "f AND g = 0"
  shows "au_flag_test (au_flag_set f sb) g = au_flag_test sb g"
    and "au_flag_test (au_flag_clr f sb) g = au_flag_test sb g"
  using assms
  by (simp_all add: au_flag_test_def au_flag_clr_def au_flag_set_def bit_eq_iff
      bit_and_iff bit_or_iff bit_not_iff) blast+

section \<open>The branch table\<close>

definition sbend :: "aufs_sb \<Rightarrow> int" where
  "sbend sb = si_bend sb"

definition stobr :: "aufs_sb \<Rightarrow> int \<Rightarrow> nat option" where
  "stobr sb bindex =
     do { _ \<leftarrow> debug_on (bindex < 0 \<or> sbend sb < bindex);
          p \<leftarrow> aget (si_branch sb) bindex;
          p }"

text \<open>The branch object at an index, and its fields.\<close>

definition sbr :: "aufs_sb \<Rightarrow> int \<Rightarrow> aufs_branch option" where
  "sbr sb bindex = map_option (s_br sb) (stobr sb bindex)"

definition sbr_id :: "aufs_sb \<Rightarrow> int \<Rightarrow> int option" where
  "sbr_id sb bindex = map_option br_id (sbr sb bindex)"

definition sbr_mnt :: "aufs_sb \<Rightarrow> int \<Rightarrow> nat option" where
  "sbr_mnt sb bindex = map_option br_mnt (sbr sb bindex)"

definition sbr_sb :: "kern \<Rightarrow> aufs_sb \<Rightarrow> int \<Rightarrow> nat option" where
  "sbr_sb k sb bindex = map_option (k_msb k) (sbr_mnt sb bindex)"

definition sbr_perm :: "aufs_sb \<Rightarrow> int \<Rightarrow> br_perm option" where
  "sbr_perm sb bindex = map_option br_perm (sbr sb bindex)"

definition sbr_is_whable :: "aufs_sb \<Rightarrow> int \<Rightarrow> bool option" where
  "sbr_is_whable sb bindex = map_option br_whable (sbr_perm sb bindex)"

definition upd_br :: "nat \<Rightarrow> (aufs_branch \<Rightarrow> aufs_branch) \<Rightarrow> aufs_sb \<Rightarrow> aufs_sb" where
  "upd_br a f sb = sb\<lparr>s_br := (s_br sb)(a := f (s_br sb a))\<rparr>"

definition br_get :: "nat \<Rightarrow> aufs_sb \<Rightarrow> aufs_sb" where
  "br_get a = upd_br a (\<lambda>br. br\<lparr>br_count := br_count br + 1\<rparr>)"

definition br_put :: "nat \<Rightarrow> aufs_sb \<Rightarrow> aufs_sb" where
  "br_put a = upd_br a (\<lambda>br. br\<lparr>br_count := br_count br - 1\<rparr>)"

definition find_brindex :: "aufs_sb \<Rightarrow> int \<Rightarrow> int option" where
  "find_brindex sb bid = scan_up (\<lambda>i. map_option (\<lambda>j. j = bid) (sbr_id sb i)) 0 (sbend sb) (- 1)"

definition find_bindex :: "aufs_sb \<Rightarrow> nat \<Rightarrow> int option" where
  "find_bindex sb br = scan_up (\<lambda>i. map_option (\<lambda>p. p = br) (stobr sb i)) 0 (sbend sb) (- 1)"

definition br_rdonly :: "kern \<Rightarrow> aufs_branch \<Rightarrow> int" where
  "br_rdonly k br =
     (if k_srdonly k (k_msb k (br_mnt br)) \<or> \<not> br_writable (br_perm br) then - EROFS else 0)"

definition find_rw_br :: "kern \<Rightarrow> aufs_sb \<Rightarrow> int \<Rightarrow> int option" where
  "find_rw_br k sb bend =
     scan_down (\<lambda>i. map_option (\<lambda>br. br_rdonly k br = 0) (sbr sb i)) bend 0 (- EROFS)"

partial_function (option) new_br_id :: "aufs_sb \<Rightarrow> (int \<times> aufs_sb) option" where
  "new_br_id sb =
     (let br_id = to_bindex (si_last_br_id sb + 1);
          sb' = sb\<lparr>si_last_br_id := br_id\<rparr>
      in if br_id = 0 then new_br_id sb'
         else do { i \<leftarrow> find_brindex sb' br_id;
                   if i < 0 then Some (br_id, sb') else new_br_id sb' })"

declare new_br_id.simps [code]

text \<open>
  A superblock for concrete inputs: writable branches with the ids 1, 2, \<open>\<dots>\<close> at the
  addresses 0, 1, \<open>\<dots>\<close>, mounted from the mounts of the same numbers.
\<close>

definition sb0 :: "nat \<Rightarrow> aufs_sb" where
  "sb0 n = \<lparr>s_rdonly = False, s_maxbytes = 0, si_generation = 0, si_bend = int n - 1,
     si_last_br_id = int n, si_branch = map Some [0..<n], si_flags = AuDefFlags, si_xino = 10,
     si_rdcache = 10, si_dirwh = 3, si_plink = [],
     s_br = (\<lambda>a. \<lparr>br_xino = None, br_xino_read = 0, br_xino_write = 0, br_id = int a + 1,
        br_perm = AuBr_RW, br_mnt = a, br_count = 0, br_wh = None, br_wh_running = 0,
        br_plink = None\<rparr>)\<rparr>"

section \<open>The table is well formed\<close>

definition sb_ok :: "aufs_sb \<Rightarrow> bool" where
  "sb_ok sb \<longleftrightarrow> - 1 \<le> si_bend sb \<and> si_bend sb < AUFS_BRANCH_MAX
     \<and> si_bend sb < int (length (si_branch sb))
     \<and> (\<forall>i. 0 \<le> i \<longrightarrow> i \<le> si_bend sb \<longrightarrow> si_branch sb ! nat i \<noteq> None)"

definition br_at :: "aufs_sb \<Rightarrow> int \<Rightarrow> aufs_branch" where
  "br_at sb i = s_br sb (the (si_branch sb ! nat i))"

lemma sb0_ok: "n < 128 \<Longrightarrow> sb_ok (sb0 n)"
  by (auto simp: sb_ok_def sb0_def AUFS_BRANCH_MAX_def)

lemma sbend_sb0 [simp]: "sbend (sb0 n) = int n - 1" "si_bend (sb0 n) = int n - 1"
  by (simp_all add: sb0_def sbend_def)

lemma stobr_ok [simp]:
  "sb_ok sb \<Longrightarrow> 0 \<le> i \<Longrightarrow> i \<le> si_bend sb \<Longrightarrow> stobr sb i = Some (the (si_branch sb ! nat i))"
  by (auto simp: stobr_def sbend_def sb_ok_def)

lemma sbr_ok [simp]:
  "sb_ok sb \<Longrightarrow> 0 \<le> i \<Longrightarrow> i \<le> si_bend sb \<Longrightarrow> sbr sb i = Some (br_at sb i)"
  by (simp add: sbr_def br_at_def)

lemma sbr_fields_ok [simp]:
  assumes "sb_ok sb" "0 \<le> i" "i \<le> si_bend sb"
  shows "sbr_id sb i = Some (br_id (br_at sb i))"
    and "sbr_mnt sb i = Some (br_mnt (br_at sb i))"
    and "sbr_perm sb i = Some (br_perm (br_at sb i))"
  using assms by (simp_all add: sbr_id_def sbr_mnt_def sbr_perm_def)

lemma sbr_crash: "i < 0 \<or> si_bend sb < i \<Longrightarrow> sbr sb i = None"
  by (auto simp: sbr_def stobr_def sbend_def)

lemma find_brindex_spec:
  assumes "sb_ok sb"
  shows "\<exists>r. find_brindex sb bid = Some r \<and>
     ((0 \<le> r \<and> r \<le> si_bend sb \<and> br_id (br_at sb r) = bid
        \<and> (\<forall>j. 0 \<le> j \<longrightarrow> j < r \<longrightarrow> br_id (br_at sb j) \<noteq> bid))
      \<or> (r = - 1 \<and> (\<forall>j. 0 \<le> j \<longrightarrow> j \<le> si_bend sb \<longrightarrow> br_id (br_at sb j) \<noteq> bid)))"
  unfolding find_brindex_def sbend_def
  by (rule scan_up_spec) (simp add: assms)

lemma find_rw_br_spec_aux:
  assumes "sb_ok sb" and "b \<le> si_bend sb"
  shows "\<exists>r. find_rw_br k sb b = Some r \<and>
     ((0 \<le> r \<and> r \<le> b \<and> br_rdonly k (br_at sb r) = 0
        \<and> (\<forall>j. r < j \<longrightarrow> j \<le> b \<longrightarrow> br_rdonly k (br_at sb j) \<noteq> 0))
      \<or> (r = - EROFS \<and> (\<forall>j. 0 \<le> j \<longrightarrow> j \<le> b \<longrightarrow> br_rdonly k (br_at sb j) \<noteq> 0)))"
  unfolding find_rw_br_def
  by (rule scan_down_spec) (use assms in simp)

text \<open>
  \<open>new_br_id\<close> counts a signed 8-bit id up until it is non-zero and unused. At most
  127 of the 255 non-zero ids are in use, so the loop ends.
\<close>

definition used_ids :: "aufs_sb \<Rightarrow> int set" where
  "used_ids sb = insert 0 ((\<lambda>i. br_id (br_at sb i)) ` {0..si_bend sb})"

lemma card_used_ids: "sb_ok sb \<Longrightarrow> card (used_ids sb) \<le> 128"
proof -
  assume "sb_ok sb"
  then have "card {0..si_bend sb} \<le> 127" by (auto simp: sb_ok_def AUFS_BRANCH_MAX_def)
  then have "card ((\<lambda>i. br_id (br_at sb i)) ` {0..si_bend sb}) \<le> 127"
    using card_image_le [of "{0..si_bend sb}" "\<lambda>i. br_id (br_at sb i)"] by simp
  then show ?thesis by (simp add: used_ids_def card_insert_if)
qed

lemma free_id_ahead:
  fixes U :: "int set"
  assumes "finite U" and "card U \<le> 128"
  shows "\<exists>k::nat. 0 < k \<and> to_bindex (l + int k) \<notin> U"
proof (rule ccontr)
  assume "\<not> ?thesis"
  then have "\<And>k::nat. 0 < k \<Longrightarrow> to_bindex (l + int k) \<in> U" by blast
  then have sub: "(\<lambda>k::nat. to_bindex (l + int k)) ` {1..256} \<subseteq> U"
    by (intro image_subsetI) simp
  have "inj_on (\<lambda>k::nat. to_bindex (l + int k)) {1..256}"
  proof (rule inj_onI)
    fix x y :: nat
    assume x: "x \<in> {1..256}" and y: "y \<in> {1..256}"
      and "to_bindex (l + int x) = to_bindex (l + int y)"
    then have "(l + int x + 128) mod 256 = (l + int y + 128) mod 256"
      by (simp add: to_bindex_eq)
    then have "256 dvd int x - int y"
      unfolding mod_eq_dvd_iff by (simp add: algebra_simps)
    moreover have "int x - int y < 256" "- 256 < int x - int y"
      using x y by simp_all
    ultimately have "int x - int y = 0"
      using dvd_imp_le_int [of "int x - int y" 256] by linarith
    then show "x = y" by simp
  qed
  then have "256 \<le> card U"
    using card_mono [OF assms(1) sub] card_image [of "\<lambda>k::nat. to_bindex (l + int k)" "{1..256}"]
    by simp
  with assms(2) show False by simp
qed

lemma br_at_last_id [simp]: "br_at (sb\<lparr>si_last_br_id := l\<rparr>) i = br_at sb i"
  by (simp add: br_at_def)

lemma sb_ok_last_id [simp]: "sb_ok (sb\<lparr>si_last_br_id := l\<rparr>) = sb_ok sb"
  by (simp add: sb_ok_def)

lemma used_ids_last_id [simp]: "used_ids (sb\<lparr>si_last_br_id := l\<rparr>) = used_ids sb"
  by (simp add: used_ids_def)

lemma new_br_id_from:
  assumes "sb_ok sb" and "to_bindex (si_last_br_id sb + int k) \<notin> used_ids sb" and "0 < k"
  shows "\<exists>i. new_br_id sb = Some (i, sb\<lparr>si_last_br_id := i\<rparr>) \<and> i \<notin> used_ids sb
           \<and> - 128 \<le> i \<and> i < 128"
  using assms
proof (induction k arbitrary: sb)
  case 0
  then show ?case by simp
next
  case (Suc k)
  define i where "i = to_bindex (si_last_br_id sb + 1)"
  define sb' where "sb' = sb\<lparr>si_last_br_id := i\<rparr>"
  have ok: "sb_ok sb'" and used: "used_ids sb' = used_ids sb"
    using Suc.prems(1) by (simp_all add: sb'_def used_ids_def)
  have range: "- 128 \<le> i \<and> i < 128" by (simp add: i_def to_bindex_range)
  obtain r where r: "find_brindex sb' i = Some r" and
    c: "(0 \<le> r \<and> r \<le> si_bend sb' \<and> br_id (br_at sb' r) = i)
      \<or> (r = - 1 \<and> (\<forall>j. 0 \<le> j \<longrightarrow> j \<le> si_bend sb' \<longrightarrow> br_id (br_at sb' j) \<noteq> i))"
    using find_brindex_spec [OF ok, of i] by blast
  show ?case
  proof (cases "i \<in> used_ids sb")
    case False
    then have "i \<noteq> 0" and "r = - 1"
      using c by (auto simp: used_ids_def sb'_def)
    then have "new_br_id sb = Some (i, sb')"
      using r by (subst new_br_id.simps) (simp add: Let_def i_def [symmetric] sb'_def [symmetric])
    with False range show ?thesis by (auto simp: sb'_def)
  next
    case True
    then have "k \<noteq> 0" using Suc.prems(2) by (cases k) (auto simp: i_def)
    have "i = 0 \<or> 0 \<le> r"
    proof (rule ccontr)
      assume "\<not> ?thesis"
      then have "i \<noteq> 0" and "\<forall>j. 0 \<le> j \<longrightarrow> j \<le> si_bend sb' \<longrightarrow> br_id (br_at sb' j) \<noteq> i"
        using c by auto
      with True used show False unfolding used_ids_def [of sb', symmetric] used [symmetric]
        by (force simp: used_ids_def)
    qed
    moreover have "new_br_id sb = (if i = 0 then new_br_id sb'
        else do { j \<leftarrow> find_brindex sb' i; if j < 0 then Some (i, sb') else new_br_id sb' })"
      by (subst new_br_id.simps) (simp only: Let_def i_def sb'_def)
    ultimately have step: "new_br_id sb = new_br_id sb'"
      using r by (cases "i = 0") auto
    have "to_bindex (si_last_br_id sb' + int k) = to_bindex (si_last_br_id sb + int (Suc k))"
      by (simp add: sb'_def i_def to_bindex_eq mod_simps algebra_simps)
    then have "\<exists>j. new_br_id sb' = Some (j, sb'\<lparr>si_last_br_id := j\<rparr>) \<and> j \<notin> used_ids sb'
           \<and> - 128 \<le> j \<and> j < 128"
      using Suc.prems(2) \<open>k \<noteq> 0\<close> by (intro Suc.IH) (auto simp: ok used)
    then show ?thesis by (auto simp: step used sb'_def)
  qed
qed

lemma new_br_id_total:
  assumes "sb_ok sb"
  shows "\<exists>i. new_br_id sb = Some (i, sb\<lparr>si_last_br_id := i\<rparr>) \<and> i \<notin> used_ids sb
           \<and> - 128 \<le> i \<and> i < 128"
proof -
  have "finite (used_ids sb)" by (simp add: used_ids_def)
  then show ?thesis
    using free_id_ahead [OF _ card_used_ids [OF assms]] new_br_id_from [OF assms] by blast
qed

section \<open>Properties\<close>

text \<open>C36.
  A new branch id always exists and is found: however far the signed 8-bit
  counter has wrapped, \<open>new_br_id\<close> returns (the \<open>while (1)\<close> loop ends), the id is
  non-zero, in the range of \<open>aufs_bindex_t\<close>, different from the id of every branch
  in the table, and only the counter changes.
\<close>

theorem new_br_id_fresh:
  assumes "sb_ok sb"
  shows "\<exists>i. new_br_id sb = Some (i, sb\<lparr>si_last_br_id := i\<rparr>) \<and> i \<noteq> 0
     \<and> - 128 \<le> i \<and> i < 128
     \<and> (\<forall>j. 0 \<le> j \<longrightarrow> j \<le> si_bend sb \<longrightarrow> sbr_id sb j \<noteq> Some i)"
  using new_br_id_total [OF assms] assms by (auto simp: used_ids_def)

theorem new_br_id_fresh_witness:
  "\<exists>i. new_br_id (sb0 3) = Some (i, (sb0 3)\<lparr>si_last_br_id := i\<rparr>) \<and> i \<noteq> 0"
  using new_br_id_fresh [OF sb0_ok [of 3]] by auto

text \<open>
  The writable branch search goes upwards from \<open>bend\<close>: it returns the nearest
  branch at or above \<open>bend\<close> (no greater index is writable) whose mount and
  permission both allow writing, and \<open>-EROFS\<close> exactly when there is none.
\<close>

theorem find_rw_br_nearest:
  assumes "sb_ok sb" and "bend \<le> si_bend sb"
  shows "\<exists>r. find_rw_br k sb bend = Some r
     \<and> (0 \<le> r \<longrightarrow> r \<le> bend \<and> br_rdonly k (br_at sb r) = 0
          \<and> (\<forall>j. r < j \<longrightarrow> j \<le> bend \<longrightarrow> br_rdonly k (br_at sb j) = - EROFS))
     \<and> (r < 0 \<longrightarrow> r = - EROFS
          \<and> (\<forall>j. 0 \<le> j \<longrightarrow> j \<le> bend \<longrightarrow> br_rdonly k (br_at sb j) = - EROFS))"
proof -
  have "br_rdonly k b \<noteq> 0 \<longleftrightarrow> br_rdonly k b = - EROFS" for b by (simp add: br_rdonly_def)
  then show ?thesis using find_rw_br_spec_aux [OF assms, of k] by fastforce
qed

theorem find_rw_br_nearest_witness: "find_rw_br kern0 (sb0 2) 1 = Some 1"
proof -
  have w: "br_rdonly kern0 (br_at (sb0 2) 1) = 0"
    by (simp add: br_rdonly_def br_at_def sb0_def kern0_def br_writable_def)
  from find_rw_br_nearest [OF sb0_ok [of 2], of 1 kern0] obtain r where
    r: "find_rw_br kern0 (sb0 2) 1 = Some r" and
    a: "0 \<le> r \<longrightarrow> r \<le> 1 \<and> (\<forall>j. r < j \<longrightarrow> j \<le> 1 \<longrightarrow> br_rdonly kern0 (br_at (sb0 2) j) = - EROFS)"
    and b: "r < 0 \<longrightarrow> (\<forall>j. 0 \<le> j \<longrightarrow> j \<le> 1 \<longrightarrow> br_rdonly kern0 (br_at (sb0 2) j) = - EROFS)"
    by auto
  have "0 \<le> r" using b w by (metis less_le_not_le linorder_not_le neg_equal_0_iff_equal zero_neq_numeral zero_le_one)
  with a have "r \<le> 1" "\<not> r < 1" using w by auto
  with r show ?thesis by simp
qed

end
