(* ===== verification/Aufs_Bytes.thy ===== *)
theory Aufs_Bytes
  imports Aufs_Types
begin

text \<open>
  Memory as bytes: a 64-bit value stored and loaded in little-endian order, and
  writes into a buffer of fixed size. Shown: load after store gives the value, and
  a write changes the bytes it covers and no others.
\<close>

type_synonym byte = "8 word"

section \<open>64-bit values\<close>

definition le_store :: "64 word \<Rightarrow> byte list" where
  "le_store x = map (\<lambda>i. ucast (drop_bit (8 * i) x)) [0..<8]"

fun le_load :: "byte list \<Rightarrow> 64 word" where
  "le_load [] = 0"
| "le_load (b # bs) = ucast b OR push_bit 8 (le_load bs)"

lemma length_le_store [simp]: "length (le_store x) = 8"
  by (simp add: le_store_def)

lemma bit_le_load:
  "bit (le_load bs) n = (n < 64 \<and> n div 8 < length bs \<and> bit (bs ! (n div 8)) (n mod 8))"
proof (induction bs arbitrary: n)
  case Nil
  then show ?case by simp
next
  case (Cons b bs)
  show ?case
  proof (cases "n < 8")
    case True
    then show ?thesis by (simp add: bit_or_iff bit_ucast_iff bit_push_bit_iff)
  next
    case False
    then have "n div 8 = Suc ((n - 8) div 8)" "n mod 8 = (n - 8) mod 8"
      by (simp_all add: div_if mod_if [of n])
    moreover have "\<not> bit b n"
      using False bit_imp_le_length [of b n] by auto
    ultimately show ?thesis
      using False Cons.IH [of "n - 8"]
      by (auto simp: bit_or_iff bit_ucast_iff bit_push_bit_iff)
  qed
qed

lemma le_load_store [simp]: "le_load (le_store x) = x"
proof (rule bit_word_eqI)
  fix n assume n: "n < LENGTH(64)"
  then have "n div 8 < 8" by simp
  then have "le_store x ! (n div 8) = ucast (drop_bit (8 * (n div 8)) x)"
    by (simp add: le_store_def)
  then have "bit (le_load (le_store x)) n = bit (ucast (drop_bit (8 * (n div 8)) x) :: byte) (n mod 8)"
    using n \<open>n div 8 < 8\<close> by (simp add: bit_le_load)
  also have "\<dots> = bit x (8 * (n div 8) + n mod 8)"
    by (simp add: bit_ucast_iff bit_drop_bit_eq)
  finally show "bit (le_load (le_store x)) n = bit x n" by simp
qed

section \<open>Buffers\<close>

definition buf_read :: "byte list \<Rightarrow> nat \<Rightarrow> nat \<Rightarrow> byte list option" where
  "buf_read buf off n = (if off + n \<le> length buf then Some (take n (drop off buf)) else None)"

definition buf_write :: "byte list \<Rightarrow> nat \<Rightarrow> byte list \<Rightarrow> byte list option" where
  "buf_write buf off bs =
     (if off + length bs \<le> length buf
      then Some (take off buf @ bs @ drop (off + length bs) buf) else None)"

lemma buf_write_length: "buf_write buf off bs = Some buf' \<Longrightarrow> length buf' = length buf"
  by (auto simp: buf_write_def split: if_splits)

lemma buf_write_ok [simp]:
  "off + length bs \<le> length buf \<Longrightarrow>
     buf_write buf off bs = Some (take off buf @ bs @ drop (off + length bs) buf)"
  by (simp add: buf_write_def)

lemma buf_write_nth:
  assumes "buf_write buf off bs = Some buf'" and "i < length buf"
  shows "buf' ! i = (if off \<le> i \<and> i < off + length bs then bs ! (i - off) else buf ! i)"
  using assms by (auto simp: buf_write_def nth_append min_def split: if_splits)

lemma buf_write_same:
  assumes "buf_write buf off bs = Some buf'"
  shows "take (length bs) (drop off buf') = bs"
  using assms by (auto simp: buf_write_def split: if_splits)

lemma buf_write_take:
  assumes "buf_write buf off bs = Some buf'" and "n \<le> off"
  shows "take n buf' = take n buf"
  using assms by (auto simp: buf_write_def min_def split: if_splits)

end
