(* ===== verification/Aufs_Xino.thy ===== *)
theory Aufs_Xino
  imports Aufs_Super Aufs_Bytes
begin

text \<open>
  The external inode number table (first half of xino.c): each branch has a file
  in which the aufs inode number of a hidden inode is stored at the position given
  by the hidden inode number. The \<open>read\<close> and \<open>write\<close> operations of the hidden
  filesystem are parameters: \<open>rdf\<close> and \<open>wrf\<close> turn a function pointer into the
  operation. A reading that keeps answering \<open>-EAGAIN\<close> or \<open>-EINTR\<close> makes the code
  loop, which is \<open>None\<close>.
\<close>

type_synonym rw_pos = "64 word"
type_synonym readf = "nat \<Rightarrow> nat \<Rightarrow> rw_pos \<Rightarrow> kern \<Rightarrow> int \<times> byte list \<times> rw_pos \<times> kern"
type_synonym writef = "nat \<Rightarrow> byte list \<Rightarrow> rw_pos \<Rightarrow> kern \<Rightarrow> int \<times> rw_pos \<times> kern"

section \<open>Reading and writing the file\<close>

text \<open>
  The buffer comes back with the bytes that were read at its front; \<open>*pos\<close> and the
  store are carried through the retries.
\<close>

partial_function (option) xino_fread ::
    "readf \<Rightarrow> nat \<Rightarrow> byte list \<Rightarrow> rw_pos \<Rightarrow> kern \<Rightarrow> (int \<times> byte list \<times> rw_pos \<times> kern) option" where
  "xino_fread func file buf pos k =
     (let (err, bs, pos, k) = func file (length buf) pos k;
          buf = bs @ drop (length bs) buf
      in if err = - EAGAIN \<or> err = - EINTR then xino_fread func file buf pos k
         else Some (err, buf, pos, k))"

declare xino_fread.simps [code]

partial_function (option) do_xino_fwrite ::
    "writef \<Rightarrow> nat \<Rightarrow> byte list \<Rightarrow> rw_pos \<Rightarrow> kern \<Rightarrow> (int \<times> rw_pos \<times> kern) option" where
  "do_xino_fwrite func file buf pos k =
     (let (err, pos, k) = func file buf pos k
      in if err = - EAGAIN \<or> err = - EINTR then do_xino_fwrite func file buf pos k
         else Some (err, pos, k))"

declare do_xino_fwrite.simps [code]

text \<open>
  A task that is not the aufs daemon hands the write to the work queue and waits
  for it; the queue runs the same function.
\<close>

definition au_wkq_wait :: "(unit \<Rightarrow> 'a) \<Rightarrow> 'a" where
  "au_wkq_wait f = f ()"

definition xino_fwrite ::
    "bool \<Rightarrow> writef \<Rightarrow> nat \<Rightarrow> byte list \<Rightarrow> rw_pos \<Rightarrow> kern \<Rightarrow> (int \<times> rw_pos \<times> kern) option" where
  "xino_fwrite is_aufsd func file buf pos k =
     (if \<not> is_aufsd then au_wkq_wait (\<lambda>_. do_xino_fwrite func file buf pos k)
      else do_xino_fwrite func file buf pos k)"

section \<open>Table entries\<close>

definition xino_size :: nat where
  "xino_size = 8"

text \<open>\<open>h_ino * sizeof(struct xino)\<close> in 64 bits.\<close>

definition xino_pos :: "64 word \<Rightarrow> rw_pos" where
  "xino_pos h_ino = h_ino * of_nat xino_size"

definition xino_write ::
    "bool \<Rightarrow> (nat \<Rightarrow> writef) \<Rightarrow> aufs_sb \<Rightarrow> int \<Rightarrow> 64 word \<Rightarrow> 64 word \<Rightarrow> kern \<Rightarrow> (int \<times> kern) option" where
  "xino_write is_aufsd wrf sb bindex h_ino ino k =
     (if au_flag_test sb AuFlag_XINO = 0 then Some (0, k)
      else do { br \<leftarrow> sbr sb bindex;
                file \<leftarrow> br_xino br;
                (sz, _, k) \<leftarrow> xino_fwrite is_aufsd (wrf (br_xino_write br)) file (le_store ino)
                               (xino_pos h_ino) k;
                if sz = int xino_size then Some (0, k) else Some (- EIO, k) })"

definition i_size_read :: "kern \<Rightarrow> nat \<Rightarrow> 64 word" where
  "i_size_read k file = of_nat (length (k_fdata k file))"

definition xino_read ::
    "(nat \<Rightarrow> readf) \<Rightarrow> aufs_sb \<Rightarrow> int \<Rightarrow> 64 word \<Rightarrow> kern \<Rightarrow> (int \<times> 64 word \<times> kern) option" where
  "xino_read rdf sb bindex h_ino k =
     (if au_flag_test sb AuFlag_XINO = 0 then Some (0, 0, k)
      else do { br \<leftarrow> sbr sb bindex;
                file \<leftarrow> br_xino br;
                let pos = xino_pos h_ino
                in if i_size_read k file < pos + of_nat xino_size then Some (0, 0, k)
                   else do { (sz, buf, _, k) \<leftarrow>
                               xino_fread (rdf (br_xino_read br)) file (le_store 0) pos k;
                             if sz = int xino_size then Some (0, le_load buf, k)
                             else Some (if 0 \<le> sz then - EIO else sz, le_load buf, k) } })"

definition xino_new_ino :: "aufs_sb \<Rightarrow> 64 word \<times> aufs_sb" where
  "xino_new_ino sb =
     (let sb = sb\<lparr>si_xino := si_xino sb + 1\<rparr>;
          ino = si_xino sb
      in if 2 \<le> ino then (ino, sb) else (0, sb\<lparr>si_xino := si_xino sb - 1\<rparr>))"

section \<open>What the code relies on of the hidden filesystem\<close>

text \<open>
  The documented behaviour of \<open>pread\<close> and \<open>pwrite\<close> on a regular file with room
  left: a read of bytes that are all there returns them, a write replaces the bytes
  it covers, fills a hole before it with zeros, and leaves the rest.
\<close>

definition file_write :: "byte list \<Rightarrow> nat \<Rightarrow> byte list \<Rightarrow> byte list" where
  "file_write old pos bs =
     take pos (old @ replicate (pos - length old) 0) @ bs @ drop (pos + length bs) old"

definition reads_ok :: "readf \<Rightarrow> bool" where
  "reads_ok func \<longleftrightarrow> (\<forall>f n pos k. unat pos + n < 2 ^ 63 \<longrightarrow> unat pos + n \<le> length (k_fdata k f) \<longrightarrow>
     func f n pos k = (int n, take n (drop (unat pos) (k_fdata k f)), pos + of_nat n, k))"

definition writes_ok :: "writef \<Rightarrow> bool" where
  "writes_ok func \<longleftrightarrow> (\<forall>f bs pos k. unat pos + length bs < 2 ^ 63 \<longrightarrow> func f bs pos k =
     (int (length bs), pos + of_nat (length bs),
      k\<lparr>k_fdata := (k_fdata k)(f := file_write (k_fdata k f) (unat pos) bs)\<rparr>))"

lemma file_write_length: "length (file_write old pos bs) = max (length old) (pos + length bs)"
  by (simp add: file_write_def min_def max_def)

lemma file_write_same: "take (length bs) (drop pos (file_write old pos bs)) = bs"
  by (simp add: file_write_def)

lemma file_write_nth:
  assumes "i < length (file_write old pos bs)"
  shows "file_write old pos bs ! i =
     (if pos \<le> i \<and> i < pos + length bs then bs ! (i - pos)
      else if i < length old then old ! i else 0)"
  using assms
  by (auto simp: file_write_def nth_append min_def nth_replicate)

text \<open>The entry of a hidden inode in the file, 0 beyond the end of the file.\<close>

definition xino_entry :: "byte list \<Rightarrow> 64 word \<Rightarrow> 64 word" where
  "xino_entry data h_ino =
     (if unat (xino_pos h_ino) + 8 \<le> length data
      then le_load (take 8 (drop (unat (xino_pos h_ino)) data)) else 0)"

lemma xino_entry_cong: "xino_pos h = xino_pos h' \<Longrightarrow> xino_entry data h = xino_entry data h'"
  by (simp add: xino_entry_def)

lemma le_load_zeros: "le_load (replicate n 0) = 0"
  by (induction n) simp_all

text \<open>An entry after a write: the written value there, any other slot as before.\<close>

lemma xino_entry_write_same:
  "unat (xino_pos h) + 8 < 2 ^ 63 \<Longrightarrow>
     xino_entry (file_write data (unat (xino_pos h)) (le_store ino)) h = ino"
  using file_write_same [of "le_store ino" "unat (xino_pos h)" data]
  by (simp add: xino_entry_def file_write_length)

lemma take8_nth: "i < 8 \<Longrightarrow> p + 8 \<le> length xs \<Longrightarrow> take 8 (drop p xs) ! i = xs ! (p + i)"
  by simp

lemma xino_entry_write_other:
  assumes "p' + 8 \<le> p \<or> p + 8 \<le> p'" and "p = unat (xino_pos h)" and "p' = unat (xino_pos h')"
    and "p' mod 8 = 0" and "length data mod 8 = 0"
  shows "xino_entry (file_write data p (le_store ino)) h' = xino_entry data h'"
proof (cases "p' + 8 \<le> length data")
  case True
  let ?w = "file_write data p (le_store ino)"
  have len: "p' + 8 \<le> length ?w" using True by (simp add: file_write_length)
  have "take 8 (drop p' ?w) = take 8 (drop p' data)"
  proof (rule nth_equalityI)
    show "length (take 8 (drop p' ?w)) = length (take 8 (drop p' data))"
      using True len by simp
    fix i assume "i < length (take 8 (drop p' ?w))"
    then have i: "i < 8" by simp
    then have "?w ! (p' + i) = data ! (p' + i)"
      using len True assms(1) by (subst file_write_nth) auto
    then show "take 8 (drop p' ?w) ! i = take 8 (drop p' data) ! i"
      using True i len by (simp add: take8_nth)
  qed
  then show ?thesis using True len assms(3) by (simp add: xino_entry_def)
next
  case False
  then have beyond: "length data \<le> p'" using assms(4,5) by presburger
  let ?w = "file_write data p (le_store ino)"
  have "xino_entry ?w h' = 0"
  proof (cases "p' + 8 \<le> length ?w")
    case len: True
    have "take 8 (drop p' ?w) = replicate 8 0"
    proof (rule nth_equalityI)
      show "length (take 8 (drop p' ?w)) = length (replicate 8 (0::byte))"
        using len by simp
      fix i assume "i < length (take 8 (drop p' ?w))"
      then have i: "i < 8" by simp
      then have "?w ! (p' + i) = 0"
        using len beyond assms(1) by (subst file_write_nth) auto
      then show "take 8 (drop p' ?w) ! i = replicate 8 0 ! i"
        using i len by (simp add: take8_nth)
    qed
    then show ?thesis using len assms(3) by (simp add: xino_entry_def le_load_zeros)
  next
    case False
    then show ?thesis using assms(3) by (simp add: xino_entry_def)
  qed
  with False assms(3) show ?thesis by (simp add: xino_entry_def)
qed

text \<open>
  A branch whose table is in use: xino is on, the branch has a xino file of less
  than 2^62 bytes (a whole number of entries), and its operations behave.
\<close>

definition xino_ready ::
    "(nat \<Rightarrow> readf) \<Rightarrow> (nat \<Rightarrow> writef) \<Rightarrow> aufs_sb \<Rightarrow> int \<Rightarrow> nat \<Rightarrow> kern \<Rightarrow> bool" where
  "xino_ready rdf wrf sb bindex file k \<longleftrightarrow> au_flag_test sb AuFlag_XINO \<noteq> 0
     \<and> (\<exists>br. sbr sb bindex = Some br \<and> br_xino br = Some file
          \<and> reads_ok (rdf (br_xino_read br)) \<and> writes_ok (wrf (br_xino_write br)))
     \<and> length (k_fdata k file) < 2 ^ 62 \<and> length (k_fdata k file) mod 8 = 0"

lemma xino_pos_unat: "unat h < 2 ^ 60 \<Longrightarrow> unat (xino_pos h) = 8 * unat h"
proof -
  assume h: "unat h < 2 ^ 60"
  have "unat (xino_pos h) = unat h * 8 mod 2 ^ 64"
    by (simp add: xino_pos_def xino_size_def unat_word_ariths)
  with h show ?thesis by simp
qed

lemma do_xino_fwrite_ok:
  "writes_ok func \<Longrightarrow> unat pos + length buf < 2 ^ 63 \<Longrightarrow> do_xino_fwrite func file buf pos k =
     Some (int (length buf), pos + of_nat (length buf),
       k\<lparr>k_fdata := (k_fdata k)(file := file_write (k_fdata k file) (unat pos) buf)\<rparr>)"
  by (subst do_xino_fwrite.simps) (simp add: writes_ok_def)

lemma xino_fread_ok:
  "reads_ok func \<Longrightarrow> unat pos + length buf < 2 ^ 63 \<Longrightarrow> unat pos + length buf \<le> length (k_fdata k file)
     \<Longrightarrow> xino_fread func file buf pos k =
     Some (int (length buf), take (length buf) (drop (unat pos) (k_fdata k file)),
       pos + of_nat (length buf), k)"
  by (subst xino_fread.simps) (simp add: reads_ok_def)

lemma xino_write_ready:
  assumes "xino_ready rdf wrf sb b f k" and "unat h < 2 ^ 58"
  shows "xino_write d wrf sb b h ino k = Some (0,
     k\<lparr>k_fdata := (k_fdata k)(f := file_write (k_fdata k f) (8 * unat h) (le_store ino))\<rparr>)"
  using assms xino_pos_unat [of h]
  by (auto simp: xino_write_def xino_ready_def xino_fwrite_def au_wkq_wait_def
      do_xino_fwrite_ok xino_size_def)

lemma xino_read_ready:
  assumes "xino_ready rdf wrf sb b f k" and "unat (xino_pos h) + 8 < 2 ^ 63"
  shows "xino_read rdf sb b h k = Some (0, xino_entry (k_fdata k f) h, k)"
proof -
  from assms(1) obtain br where br: "sbr sb b = Some br" "br_xino br = Some f"
    "reads_ok (rdf (br_xino_read br))" and on: "au_flag_test sb AuFlag_XINO \<noteq> 0"
    and len: "length (k_fdata k f) < 2 ^ 62"
    by (auto simp: xino_ready_def)
  have pos8: "unat (xino_pos h + 8) = unat (xino_pos h) + 8"
    using assms(2) by (simp add: unat_word_ariths)
  have "unat (i_size_read k f) = length (k_fdata k f)"
    using len by (simp add: i_size_read_def unat_of_nat)
  then have "(i_size_read k f < xino_pos h + 8) = (length (k_fdata k f) < unat (xino_pos h) + 8)"
    by (simp add: word_less_nat_alt pos8)
  then show ?thesis
    using br on assms(2)
    by (auto simp: xino_read_def xino_size_def xino_entry_def xino_fread_ok)
qed

lemma xino_ready_write:
  assumes "xino_ready rdf wrf sb b f k" and "unat h < 2 ^ 58"
  shows "xino_ready rdf wrf sb b f
     (k\<lparr>k_fdata := (k_fdata k)(f := file_write (k_fdata k f) (8 * unat h) (le_store ino))\<rparr>)"
  using assms by (auto simp: xino_ready_def file_write_length max_def)

section \<open>Properties\<close>

text \<open>
  Concrete operations with the documented behaviour, for concrete inputs.
\<close>

definition page_read :: readf where
  "page_read f n pos k =
     (let bs = take n (drop (unat pos) (k_fdata k f)) in (int (length bs), bs, pos + of_nat (length bs), k))"

definition page_write :: writef where
  "page_write f bs pos k = (int (length bs), pos + of_nat (length bs),
     k\<lparr>k_fdata := (k_fdata k)(f := file_write (k_fdata k f) (unat pos) bs)\<rparr>)"

lemma page_ops_ok: "reads_ok page_read" "writes_ok page_write"
  by (auto simp: reads_ok_def writes_ok_def page_read_def page_write_def Let_def min_absorb2)

definition sbx :: "nat \<Rightarrow> aufs_sb" where
  "sbx n = (sb0 n)\<lparr>s_br := (\<lambda>a. (s_br (sb0 n) a)\<lparr>br_xino := Some 9\<rparr>)\<rparr>"

lemma sbx_ok: "n < 128 \<Longrightarrow> sb_ok (sbx n)"
  using sb0_ok [of n] by (simp add: sb_ok_def sbx_def sb0_def)

lemma sbx_ready: "n < 128 \<Longrightarrow> 0 \<le> b \<Longrightarrow> b < int n
    \<Longrightarrow> xino_ready (\<lambda>_. page_read) (\<lambda>_. page_write) (sbx n) b 9 kern0"
  using sbr_ok [OF sbx_ok, of n b]
  by (simp add: xino_ready_def page_ops_ok kern0_def br_at_def)
    (simp add: sbx_def sb0_def au_flag_test_def flag_defs)

text \<open>C39.
  The inode number written for a hidden inode is the one read back, and no other
  entry of the table changes: what is read for every other hidden inode number
  below 2^58 is what was read before, including the zero of entries never written.
\<close>

theorem xino_write_read:
  assumes "xino_ready rdf wrf sb b f k" and "unat h < 2 ^ 58" and "unat h' < 2 ^ 58"
  shows "\<exists>k'. xino_write d wrf sb b h ino k = Some (0, k')
     \<and> xino_read rdf sb b h' k' =
         (if h' = h then Some (0, ino, k')
          else map_option (\<lambda>(err, i, _). (err, i, k')) (xino_read rdf sb b h' k))"
proof -
  let ?k = "k\<lparr>k_fdata := (k_fdata k)(f := file_write (k_fdata k f) (8 * unat h) (le_store ino))\<rparr>"
  have p: "unat (xino_pos h) = 8 * unat h" "unat (xino_pos h') = 8 * unat h'"
    using assms by (auto intro: xino_pos_unat)
  have rd: "xino_read rdf sb b h' ?k = Some (0, xino_entry (k_fdata ?k f) h', ?k)"
    using assms p by (intro xino_read_ready [OF xino_ready_write]) auto
  have rd0: "xino_read rdf sb b h' k = Some (0, xino_entry (k_fdata k f) h', k)"
    using assms p by (intro xino_read_ready) auto
  have "xino_entry (k_fdata ?k f) h' = (if h' = h then ino else xino_entry (k_fdata k f) h')"
  proof (cases "h' = h")
    case True
    then show ?thesis using xino_entry_write_same [of h "k_fdata k f" ino] p assms by simp
  next
    case False
    then have "unat h' < unat h \<or> unat h < unat h'" by (metis linorder_neqE_nat word_unat_eq_iff)
    then have "8 * unat h' + 8 \<le> 8 * unat h \<or> 8 * unat h + 8 \<le> 8 * unat h'" by auto
    then have "xino_entry (file_write (k_fdata k f) (8 * unat h) (le_store ino)) h'
        = xino_entry (k_fdata k f) h'"
      by (rule xino_entry_write_other [OF _ p(1) [symmetric] p(2) [symmetric]])
        (use assms in \<open>auto simp: xino_ready_def\<close>)
    with False show ?thesis by simp
  qed
  moreover have "xino_write d wrf sb b h ino k = Some (0, ?k)"
    using assms by (intro xino_write_ready) auto
  ultimately show ?thesis using rd rd0 by simp
qed

theorem xino_write_read_witness:
  "\<exists>k'. xino_write False (\<lambda>_. page_write) (sbx 2) 1 7 42 kern0 = Some (0, k')
     \<and> xino_read (\<lambda>_. page_read) (sbx 2) 1 7 k' = Some (0, 42, k')"
  using xino_write_read [OF sbx_ready [of 2 1], of 7 7 False 42] by simp

text \<open>C40.
  The position of an entry is computed in 64 bits without a check: hidden inode
  numbers that differ by 2^61 share one entry, so after a write for the one the
  table answers with the same aufs inode number for the other.
\<close>

theorem xino_pos_collision:
  assumes "xino_ready rdf wrf sb b f k" and "unat h < 2 ^ 58"
  shows "h + 2 ^ 61 \<noteq> h \<and> (\<exists>k'. xino_write d wrf sb b h ino k = Some (0, k')
     \<and> xino_read rdf sb b (h + 2 ^ 61) k' = Some (0, ino, k'))"
proof -
  let ?k = "k\<lparr>k_fdata := (k_fdata k)(f := file_write (k_fdata k f) (8 * unat h) (le_store ino))\<rparr>"
  have p: "xino_pos (h + 2 ^ 61) = xino_pos h"
    by (simp add: xino_pos_def xino_size_def distrib_right)
  have u: "unat (xino_pos h) = 8 * unat h" using assms by (intro xino_pos_unat) simp
  have "xino_read rdf sb b (h + 2 ^ 61) ?k = Some (0, xino_entry (k_fdata ?k f) (h + 2 ^ 61), ?k)"
    using assms u p by (intro xino_read_ready [OF xino_ready_write]) auto
  moreover have "xino_entry (k_fdata ?k f) (h + 2 ^ 61) = ino"
    using xino_entry_write_same [of h "k_fdata k f" ino] u assms(2) xino_entry_cong [OF p] by simp
  moreover have "xino_write d wrf sb b h ino k = Some (0, ?k)"
    using assms by (intro xino_write_ready) auto
  ultimately show ?thesis by simp
qed

theorem xino_pos_collision_witness:
  "\<exists>k'. xino_write False (\<lambda>_. page_write) (sbx 2) 1 7 42 kern0 = Some (0, k')
     \<and> xino_read (\<lambda>_. page_read) (sbx 2) 1 (7 + 2 ^ 61) k' = Some (0, 42, k')"
  using xino_pos_collision [OF sbx_ready [of 2 1], of 7 False 42] by simp

text \<open>
  A new aufs inode number is larger than every number given out before, and it is
  never 0 or the number below the root's; once the 64-bit counter is used up the
  answer is 0 (no number) and the counter stays where it is.
\<close>

theorem xino_new_ino_fresh:
  assumes "xino_new_ino sb = (ino, sb')" and "1 \<le> si_xino sb"
  shows "(ino \<noteq> 0 \<longrightarrow> si_xino sb < ino \<and> 2 \<le> ino \<and> sb' = sb\<lparr>si_xino := ino\<rparr>)
     \<and> (ino = 0 \<longrightarrow> si_xino sb = - 1 \<and> sb' = sb)"
proof -
  have "si_xino sb < si_xino sb + 1" if "si_xino sb \<noteq> - 1"
    using that unatSuc [of "si_xino sb"]
    by (simp add: word_less_nat_alt add.commute [of _ 1] eq_neg_iff_add_eq_0)
  then have "si_xino sb = - 1 \<or> si_xino sb < si_xino sb + 1" by blast
  moreover have "2 \<le> si_xino sb + 1" if "si_xino sb < si_xino sb + 1"
    using that assms(2) by (simp add: word_le_nat_alt word_less_nat_alt unat_word_ariths)
  ultimately show ?thesis
    using assms by (auto simp: xino_new_ino_def Let_def split: if_splits)
qed

theorem xino_new_ino_fresh_witness:
  "\<exists>sb'. xino_new_ino (sb0 1) = (11, sb') \<and> si_xino (sb0 1) < 11"
proof -
  have "xino_new_ino (sb0 1) = (11, (sb0 1)\<lparr>si_xino := 11\<rparr>)"
    by (simp add: xino_new_ino_def sb0_def)
  moreover from this have "si_xino (sb0 1) < 11"
    using xino_new_ino_fresh [of "sb0 1" 11] by (simp add: sb0_def)
  ultimately show ?thesis by simp
qed

end
