(* ===== verification/Aufs_Misc.thy ===== *)
theory Aufs_Misc
  imports Aufs_Xino
begin

text \<open>
  misc.c: the reallocation of an array, and the copy of a file's data during
  copy-up. The hidden filesystem's read, write, seek and truncate are parameters;
  the loops repeat as the code does, so a copy that never ends has no result.
  Shown: what the destination holds after the copy, including the byte the code
  adds when the file ends in a hole, and that an error of the write is lost.
\<close>

section \<open>Reallocation\<close>

text \<open>
  Sizes are counted in elements, \<open>zero\<close> is the element of zero bytes. For a module
  \<open>ksize\<close> is defined as -1 (aufs.h), so a larger array is always a new one.
\<close>

definition au_kzrealloc ::
    "'a \<Rightarrow> 'a list \<Rightarrow> nat \<Rightarrow> nat \<Rightarrow> kern \<Rightarrow> ('a list option \<times> kern) option" where
  "au_kzrealloc zero p nused new_sz k =
     do { _ \<leftarrow> debug_on (new_sz = 0);
          if new_sz \<le> nused then Some (Some p, k)
          else (let (ok, k) = kmalloc k
                in if \<not> ok then Some (None, k)
                   else if length p < nused then None
                   else Some (Some (take nused p @ replicate (new_sz - nused) zero), kfree k)) }"

lemma au_kzrealloc_Some:
  assumes "au_kzrealloc z p n m k = Some (Some q, k')" and "n < m"
  shows "length q = m" and "take n q = take n p" and "n \<le> length p"
    and "\<And>i. n \<le> i \<Longrightarrow> i < m \<Longrightarrow> q ! i = z"
  using assms by (auto simp: au_kzrealloc_def nth_append kmalloc_def split: if_splits)

section \<open>Copying a file\<close>

type_synonym seekf = "nat \<Rightarrow> nat \<Rightarrow> kern \<Rightarrow> int \<times> kern"
type_synonym truncf = "nat \<Rightarrow> 64 word \<Rightarrow> kern \<Rightarrow> int \<times> kern"

definition PAGE_SIZE :: nat where "PAGE_SIZE = 4096"

definition set_fpos :: "nat \<Rightarrow> 64 word \<Rightarrow> kern \<Rightarrow> kern" where
  "set_fpos f pos k = k\<lparr>k_fpos := (k_fpos k)(f := pos)\<rparr>"

text \<open>\<open>while (!rbytes || err == -EAGAIN || err == -EINTR)\<close>\<close>

partial_function (option) copy_read ::
    "readf \<Rightarrow> nat \<Rightarrow> nat \<Rightarrow> byte list \<Rightarrow> kern \<Rightarrow> (int \<times> byte list \<times> kern) option" where
  "copy_read rdf src sz buf k =
     (let (err, bs, pos, k) = rdf src sz (k_fpos k src) k;
          buf = bs @ drop (length bs) buf;
          k = set_fpos src pos k
      in if err = 0 \<or> err = - EAGAIN \<or> err = - EINTR then copy_read rdf src sz buf k
         else Some (err, buf, k))"

declare copy_read.simps [code]

text \<open>
  \<open>while (wbytes)\<close>: an error ends the loop and is forgotten, for the caller sets
  \<open>err = 0\<close> behind it. A count above the request is outside of the contract.
\<close>

partial_function (option) copy_write ::
    "writef \<Rightarrow> nat \<Rightarrow> byte list \<Rightarrow> kern \<Rightarrow> kern option" where
  "copy_write wrf dst p k =
     (if p = [] then Some k
      else let (err, pos, k) = wrf dst p (k_fpos k dst) k;
               k = set_fpos dst pos k
           in if err = - EAGAIN \<or> err = - EINTR then copy_write wrf dst p k
              else if err < 0 then Some k
              else if int (length p) < err then None
              else copy_write wrf dst (drop (nat err) p) k)"

declare copy_write.simps [code]

text \<open>The loop over the blocks; it gives \<open>err\<close>, \<open>all_zero\<close> and \<open>*sparse\<close>.\<close>

partial_function (option) copy_loop ::
    "nat \<Rightarrow> readf \<Rightarrow> writef \<Rightarrow> seekf \<Rightarrow> nat \<Rightarrow> nat \<Rightarrow> 64 word \<Rightarrow> byte list \<Rightarrow> bool \<Rightarrow> bool \<Rightarrow> kern
       \<Rightarrow> (int \<times> bool \<times> bool \<times> kern) option" where
  "copy_loop blksize rdf wrf lsk dst src len buf all_zero sparse k =
     (if len = 0 then Some (0, all_zero, sparse, k)
      else let sz = (if len < of_nat blksize then unat len else blksize)
           in do { (rbytes, buf, k) \<leftarrow> copy_read rdf src sz buf k;
                   if rbytes < 0 then Some (rbytes, all_zero, sparse, k)
                   else let all_zero = (of_int rbytes \<le> len \<and> rbytes = int blksize
                              \<and> (\<forall>b \<in> set (take (nat rbytes) buf). b = 0))
                        in if \<not> all_zero
                           then do { k \<leftarrow> copy_write wrf dst (take (nat rbytes) buf) k;
                                     copy_loop blksize rdf wrf lsk dst src (len - of_int rbytes)
                                       buf all_zero sparse k }
                           else let (res, k) = lsk dst (nat rbytes) k
                                in if res < 0 then Some (res, all_zero, True, k)
                                   else copy_loop blksize rdf wrf lsk dst src
                                          (len - of_int rbytes) buf all_zero True k })"

declare copy_loop.simps [code]

partial_function (option) copy_write1 ::
    "writef \<Rightarrow> nat \<Rightarrow> kern \<Rightarrow> (int \<times> kern) option" where
  "copy_write1 wrf dst k =
     (let (err, pos, k) = wrf dst [0] (k_fpos k dst) k;
          k = set_fpos dst pos k
      in if err = - EAGAIN \<or> err = - EINTR then copy_write1 wrf dst k else Some (err, k))"

declare copy_write1.simps [code]

definition copy_blksize :: "kern \<Rightarrow> nat \<Rightarrow> nat" where
  "copy_blksize k dst =
     (let blksize = k_sblocksize k (k_dsb k (k_fdentry k dst))
      in if blksize = 0 \<or> PAGE_SIZE < blksize then PAGE_SIZE else blksize)"

definition au_copy_file ::
    "readf \<Rightarrow> writef \<Rightarrow> seekf \<Rightarrow> truncf \<Rightarrow> nat \<Rightarrow> nat \<Rightarrow> 64 word \<Rightarrow> bool \<Rightarrow> kern
       \<Rightarrow> (int \<times> bool \<times> kern) option" where
  "au_copy_file rdf wrf lsk ntc dst src len sparse k =
     do { _ \<leftarrow> debug_on (\<not> k_fwritable k dst);
          let blksize = copy_blksize k dst;
              (ok, k') = kmalloc k;
              buf = map (k_junk k (k_alloc k)) [0..<blksize]
          in if \<not> ok then Some (- ENOMEM, sparse, k')
             else let (ok, k') = kmalloc k'
                  in if \<not> ok then Some (- ENOMEM, sparse, kfree k')
                     else do { (err, all_zero, sparse, k) \<leftarrow>
                                 copy_loop blksize rdf wrf lsk dst src len buf False sparse
                                   (set_fpos dst 0 (set_fpos src 0 k'));
                               (err, k) \<leftarrow>
                                 (if err = 0 \<and> all_zero
                                  then do { (err, k) \<leftarrow> copy_write1 wrf dst k;
                                            Some (if err = 1 then ntc dst (k_fpos k dst) k
                                                  else (err, k)) }
                                  else Some (err, k));
                               Some (err, sparse, kfree (kfree k)) } }"

section \<open>Documented behaviour of seeking and truncating\<close>

definition seeks_ok :: "seekf \<Rightarrow> bool" where
  "seeks_ok lsk \<longleftrightarrow> (\<forall>f n k. unat (k_fpos k f) + n < 2 ^ 63 \<longrightarrow>
     lsk f n k = (int (unat (k_fpos k f) + n), set_fpos f (k_fpos k f + of_nat n) k))"

definition truncs_ok :: "truncf \<Rightarrow> bool" where
  "truncs_ok ntc \<longleftrightarrow> (\<forall>f sz k. ntc f sz k = (0, k\<lparr>k_fdata := (k_fdata k)(f :=
     take (unat sz) (k_fdata k f) @ replicate (unat sz - length (k_fdata k f)) 0)\<rparr>))"

text \<open>
  \<open>off\<close> bytes of the source \<open>S\<close> have been copied: the destination holds them up to
  zeros at the end that are still a hole.
\<close>

definition copied :: "byte list \<Rightarrow> nat \<Rightarrow> nat \<Rightarrow> nat \<Rightarrow> bool \<Rightarrow> int \<Rightarrow> kern \<Rightarrow> bool" where
  "copied S dst src off hole live k \<longleftrightarrow> k_fdata k src = S \<and> k_fpos k src = of_nat off
     \<and> k_fpos k dst = of_nat off \<and> length (k_fdata k dst) \<le> off \<and> off \<le> length S
     \<and> k_fdata k dst @ replicate (off - length (k_fdata k dst)) 0 = take off S
     \<and> (hole \<or> length (k_fdata k dst) = off) \<and> k_live k = live"

lemma set_fpos_fields [simp]:
  "k_fdata (set_fpos f p k) = k_fdata k" "k_live (set_fpos f p k) = k_live k"
  "k_fpos (set_fpos f p k) g = (if g = f then p else k_fpos k g)"
  by (simp_all add: set_fpos_def)

lemma file_write_end:
  "length old \<le> pos \<Longrightarrow> file_write old pos bs = old @ replicate (pos - length old) 0 @ bs"
  by (simp add: file_write_def)

text \<open>One block, whose bytes are all there.\<close>

lemma copy_read_ok:
  assumes "reads_ok rdf" and "0 < sz" and "unat (k_fpos k src) + sz \<le> length (k_fdata k src)"
    and "length (k_fdata k src) < 2 ^ 62" and "sz \<le> length buf"
  shows "copy_read rdf src sz buf k = Some (int sz,
     take sz (drop (unat (k_fpos k src)) (k_fdata k src)) @ drop sz buf,
     set_fpos src (k_fpos k src + of_nat sz) k)"
  using assms by (subst copy_read.simps) (simp add: reads_ok_def)

lemma copy_write_ok:
  assumes "writes_ok wrf" and "unat (k_fpos k dst) + length p < 2 ^ 63"
  shows "copy_write wrf dst p k = Some (if p = [] then k else
     set_fpos dst (k_fpos k dst + of_nat (length p))
       (k\<lparr>k_fdata := (k_fdata k)(dst := file_write (k_fdata k dst) (unat (k_fpos k dst)) p)\<rparr>))"
proof -
  have nil: "copy_write wrf dst [] k' = Some k'" for k'
    by (subst copy_write.simps) simp
  show ?thesis using assms
    by (cases "p = []") (simp add: nil, subst copy_write.simps, simp add: writes_ok_def nil)
qed

lemma copied_block:
  assumes "copied S dst src off hole live k" and "dst \<noteq> src" and "off + n \<le> length S" and "0 < n"
    and "length S < 2 ^ 62"
  defines "bs \<equiv> take n (drop off S)"
  shows "copied S dst src (off + n) False live
     (set_fpos dst (of_nat (off + n)) ((set_fpos src (of_nat (off + n)) k)\<lparr>k_fdata :=
        (k_fdata k)(dst := file_write (k_fdata k dst) off bs)\<rparr>))"
    and "(\<forall>b \<in> set bs. b = 0) \<Longrightarrow> copied S dst src (off + n) True live
     (set_fpos dst (of_nat (off + n)) (set_fpos src (of_nat (off + n)) k))"
proof -
  let ?D = "k_fdata k dst"
  have c: "k_fdata k src = S" "length ?D \<le> off" "?D @ replicate (off - length ?D) 0 = take off S"
    "k_live k = live"
    using assms(1) by (auto simp: copied_def)
  have tk: "take (off + n) S = take off S @ bs" by (simp add: bs_def take_add)
  have len: "length bs = n" using assms(3) by (simp add: bs_def)
  have "file_write ?D off bs = take (off + n) S"
    using c(2,3) tk by (simp add: file_write_end flip: append_assoc)
  then show "copied S dst src (off + n) False live
     (set_fpos dst (of_nat (off + n)) ((set_fpos src (of_nat (off + n)) k)\<lparr>k_fdata :=
        (k_fdata k)(dst := file_write (k_fdata k dst) off bs)\<rparr>))"
    using c assms(2,3) by (simp add: copied_def)
  assume "\<forall>b \<in> set bs. b = 0"
  then have "bs = replicate n 0" using len by (auto intro: replicate_eqI)
  then have "?D @ replicate (off + n - length ?D) 0 = take off S @ bs"
    using c(2) by (simp add: replicate_add [symmetric] flip: c(3))
  then show "copied S dst src (off + n) True live
     (set_fpos dst (of_nat (off + n)) (set_fpos src (of_nat (off + n)) k))"
    using c tk assms(2,3) by (simp add: copied_def)
qed


text \<open>The last block of \<open>L\<close> bytes is a full block of zeros.\<close>

definition last_hole :: "nat \<Rightarrow> byte list \<Rightarrow> nat \<Rightarrow> bool" where
  "last_hole b S L \<longleftrightarrow> 0 < L \<and> b dvd L \<and> (\<forall>x \<in> set (take b (drop (L - b) S)). x = 0)"

lemma last_hole_step:
  assumes "b dvd off" and "0 < n" and "n \<le> b"
  shows "last_hole b S (off + n) = (n = b \<and> (\<forall>x \<in> set (take n (drop off S)). x = 0))"
proof -
  have "b dvd off + n \<longleftrightarrow> n = b"
    using assms by (metis dvd_add_right_iff dvd_imp_le dvd_refl le_antisym)
  then show ?thesis using assms(2) by (auto simp: last_hole_def)
qed

definition copy_env :: "readf \<Rightarrow> writef \<Rightarrow> seekf \<Rightarrow> truncf \<Rightarrow> bool" where
  "copy_env rdf wrf lsk ntc \<longleftrightarrow> reads_ok rdf \<and> writes_ok wrf \<and> seeks_ok lsk \<and> truncs_ok ntc"

lemma copy_loop_step:
  assumes "len \<noteq> 0" and "(if len < of_nat b then unat len else b) = n"
    and "copy_read rdf src n buf k = Some (int n, bs @ rest, k1)"
    and "length bs = n" and "of_nat n \<le> len"
  shows "copy_loop b rdf wrf lsk dst src len buf hole sp k =
    (if n = b \<and> (\<forall>x \<in> set bs. x = 0)
     then let (res, k) = lsk dst n k1
          in if res < 0 then Some (res, True, True, k)
             else copy_loop b rdf wrf lsk dst src (len - of_nat n) (bs @ rest) True True k
     else do { k \<leftarrow> copy_write wrf dst bs k1;
               copy_loop b rdf wrf lsk dst src (len - of_nat n) (bs @ rest) False sp k })"
proof -
  have az: "(of_int (int n) \<le> len \<and> int n = int b
      \<and> (\<forall>x \<in> set (take (nat (int n)) (bs @ rest)). x = 0))
    = (n = b \<and> (\<forall>x \<in> set bs. x = 0))"
    using assms(4,5) by auto
  have n: "\<not> int n < 0" "take n (bs @ rest) = bs" "of_int (int n) = (of_nat n :: 64 word)"
    using assms(4) by auto
  define z where "z = (n = b \<and> (\<forall>x \<in> set bs. x = 0))"
  show ?thesis
    unfolding copy_loop.simps [of b rdf wrf lsk dst src len] Let_def assms(2,3) bind.simps split az
      z_def [symmetric]
    by (cases z) (simp_all only: assms(1) if_False if_True n nat_int not_False_eq_True not_True_eq_False)
qed

text \<open>One round of the loop copies the next block or makes a hole of it.\<close>

lemma copy_loop_round:
  assumes env: "copy_env rdf wrf lsk ntc" and neq: "dst \<noteq> src"
    and c: "copied S dst src off hole live k" and "off < L" "L \<le> length S"
    and S: "length S < 2 ^ 62" and b: "0 < b" "b \<le> PAGE_SIZE" "length buf = b"
    and n: "n = min b (L - off)"
  defines "z \<equiv> n = b \<and> (\<forall>x \<in> set (take n (drop off S)). x = 0)"
  shows "\<exists>k' buf'. copied S dst src (off + n) z live k' \<and> length buf' = b
     \<and> copy_loop b rdf wrf lsk dst src (of_nat (L - off)) buf hole sp k
       = copy_loop b rdf wrf lsk dst src (of_nat (L - (off + n))) buf' z (sp \<or> z) k'"
proof -
  have rd: "reads_ok rdf" and wr: "writes_ok wrf" and sk: "seeks_ok lsk"
    using env by (auto simp: copy_env_def)
  let ?len = "of_nat (L - off) :: 64 word" and ?bs = "take n (drop off S)"
  let ?buf = "?bs @ drop n buf"
  have offL: "off < L" using assms by simp
  have L: "L - off < 2 ^ 64" and off: "off < 2 ^ 62" and n0: "0 < n" "n \<le> b" "off + n \<le> length S"
    using assms by auto
  have ulen: "unat ?len = L - off" using L by (simp add: unat_of_nat)
  have ub: "unat (of_nat b :: 64 word) = b" using b by (simp add: unat_of_nat PAGE_SIZE_def)
  have un: "unat (of_nat n :: 64 word) = n" using n0 b by (simp add: unat_of_nat PAGE_SIZE_def)
  have uoff: "unat (of_nat off :: 64 word) = off" using off by (simp add: unat_of_nat)
  have ioff: "uint (of_nat off :: 64 word) = int off" using uoff by (metis uint_nat)
  have len0: "?len \<noteq> 0" using ulen offL by (metis unat_0 zero_less_diff less_not_refl)
  have sz: "(if ?len < of_nat b then unat ?len else b) = n"
    by (simp add: word_less_nat_alt ulen ub n min_def)
  have le: "of_nat n \<le> ?len"
    using n ulen un by (simp only: word_le_nat_alt) simp
  have lbs: "length ?bs = n" using n0 by simp
  have blen: "length ?buf = b" using lbs n0(2) b(3) by simp
  have pos: "k_fpos k src = of_nat off" "k_fpos k dst = of_nat off" "k_fdata k src = S"
    using c by (auto simp: copied_def)
  let ?k1 = "set_fpos src (of_nat (off + n)) k"
  have r: "copy_read rdf src n buf k = Some (int n, ?buf, ?k1)"
    using copy_read_ok [OF rd n0(1), of k src buf] pos uoff n0 S b(3) by simp
  have rest: "?len - of_nat n = of_nat (L - (off + n))"
    using n0 offL n by (simp add: of_nat_diff flip: diff_diff_left)
  show ?thesis
  proof (cases z)
    case True
    let ?k2 = "set_fpos dst (of_nat (off + n)) ?k1"
    have "lsk dst n ?k1 = (int (off + n), ?k2)"
      using sk pos uoff ioff off n0 b neq by (simp add: seeks_ok_def PAGE_SIZE_def)
    then have "copy_loop b rdf wrf lsk dst src ?len buf hole sp k
       = copy_loop b rdf wrf lsk dst src (of_nat (L - (off + n))) ?buf z (sp \<or> z) ?k2"
      unfolding copy_loop_step [OF len0 sz r lbs le] z_def [symmetric] using True rest by simp
    moreover have "copied S dst src (off + n) z live ?k2"
      using copied_block(2) [OF c neq n0(3,1) S] True by (simp add: z_def)
    ultimately show ?thesis using blen by blast
  next
    case False
    let ?k2 = "set_fpos dst (of_nat (off + n))
      (?k1\<lparr>k_fdata := (k_fdata k)(dst := file_write (k_fdata k dst) off ?bs)\<rparr>)"
    have "copy_write wrf dst ?bs ?k1 = Some ?k2"
      using copy_write_ok [OF wr, of ?k1 dst ?bs] pos uoff off n0 b neq lbs
      by (auto simp: PAGE_SIZE_def)
    then have "copy_loop b rdf wrf lsk dst src ?len buf hole sp k
       = copy_loop b rdf wrf lsk dst src (of_nat (L - (off + n))) ?buf z (sp \<or> z) ?k2"
      unfolding copy_loop_step [OF len0 sz r lbs le] z_def [symmetric] using False rest by simp
    moreover have "copied S dst src (off + n) z live ?k2"
      using copied_block(1) [OF c neq n0(3,1) S] False by simp
    ultimately show ?thesis using blen by blast
  qed
qed

lemma copy_loop_ok:
  assumes env: "copy_env rdf wrf lsk ntc" and neq: "dst \<noteq> src"
    and "copied S dst src off hole live k" and "off \<le> L" "L \<le> length S"
    and S: "length S < 2 ^ 62" and b: "0 < b" "b \<le> PAGE_SIZE" "length buf = b"
    and "off = L \<or> b dvd off"
  shows "\<exists>sp' k'. copy_loop b rdf wrf lsk dst src (of_nat (L - off)) buf hole sp k
       = Some (0, if off = L then hole else last_hole b S L, sp', k')
     \<and> copied S dst src L (if off = L then hole else last_hole b S L) live k'"
  using assms(3-)
proof (induction "L - off" arbitrary: off hole buf sp k rule: less_induct)
  case less
  show ?case
  proof (cases "off = L")
    case True
    with less.prems show ?thesis by (subst copy_loop.simps) simp
  next
    case False
    define n where "n = min b (L - off)"
    define z where "z = (n = b \<and> (\<forall>x \<in> set (take n (drop off S)). x = 0))"
    have off: "off < L" "b dvd off" using False less.prems by auto
    from copy_loop_round [OF env neq less.prems(1) off(1) less.prems(3) S b(1,2) less.prems(7) n_def]
    obtain k' buf' where k': "copied S dst src (off + n) z live k'" "length buf' = b"
      and eq: "copy_loop b rdf wrf lsk dst src (of_nat (L - off)) buf hole sp k
        = copy_loop b rdf wrf lsk dst src (of_nat (L - (off + n))) buf' z (sp \<or> z) k'"
      unfolding z_def by blast
    have n: "0 < n" "off + n \<le> L" "n \<le> b" using off b by (auto simp: n_def)
    have dvd: "off + n = L \<or> b dvd off + n" using off by (auto simp: n_def min_def)
    have "\<exists>sp'' k''. copy_loop b rdf wrf lsk dst src (of_nat (L - (off + n))) buf' z (sp \<or> z) k'
       = Some (0, if off + n = L then z else last_hole b S L, sp'', k'')
     \<and> copied S dst src L (if off + n = L then z else last_hole b S L) live k''"
      using n off by (intro less.hyps [OF _ k'(1) n(2) less.prems(3) S b(1,2) k'(2) dvd]) auto
    moreover have "(if off + n = L then z else last_hole b S L) = last_hole b S L"
      using last_hole_step [OF off(2) n(1,3), of S] by (auto simp: z_def)
    ultimately show ?thesis using eq False by simp
  qed
qed

section \<open>Properties\<close>

definition page_seek :: seekf where
  "page_seek f n k = (int (unat (k_fpos k f) + n), set_fpos f (k_fpos k f + of_nat n) k)"

definition page_trunc :: truncf where
  "page_trunc f sz k = (0, k\<lparr>k_fdata := (k_fdata k)(f :=
     take (unat sz) (k_fdata k f) @ replicate (unat sz - length (k_fdata k f)) 0)\<rparr>)"

lemma page_env: "copy_env page_read page_write page_seek page_trunc"
  by (simp add: copy_env_def page_ops_ok seeks_ok_def truncs_ok_def page_seek_def page_trunc_def)

lemma copy_blksize_range: "0 < copy_blksize k dst \<and> copy_blksize k dst \<le> PAGE_SIZE"
  by (simp add: copy_blksize_def Let_def PAGE_SIZE_def)

lemma kmalloc_ok_iff: "kmalloc k = (ok, k') \<longleftrightarrow> ok = k_ok k (k_alloc k)
    \<and> k' = k\<lparr>k_alloc := Suc (k_alloc k), k_live := k_live k + (if ok then 1 else 0)\<rparr>"
  by (auto simp: kmalloc_def)

text \<open>C37.
  Copying the first \<open>L\<close> bytes of a hidden file to an empty one succeeds when memory
  and the two filesystems do: the copy ends, the destination holds exactly those
  bytes and both work buffers are freed. There is one exception, which the code
  does not intend: if the last block copied is a full block of zeros, the
  destination gets one more zero byte than the source has.
\<close>

theorem au_copy_file_content:
  assumes "copy_env rdf wrf lsk ntc" and "dst \<noteq> src" and "k_fwritable k dst"
    and "k_ok k (k_alloc k)" and "k_ok k (Suc (k_alloc k))"
    and "k_fdata k dst = []" and "L \<le> length (k_fdata k src)" and "length (k_fdata k src) < 2 ^ 62"
  shows "\<exists>sparse' k'. au_copy_file rdf wrf lsk ntc dst src (of_nat L) sparse k = Some (0, sparse', k')
     \<and> k_fdata k' dst = take L (k_fdata k src)
         @ (if last_hole (copy_blksize k dst) (k_fdata k src) L then [0] else [])
     \<and> k_fdata k' src = k_fdata k src \<and> k_live k' = k_live k"
proof -
  let ?S = "k_fdata k src" and ?b = "copy_blksize k dst"
  let ?buf = "map (k_junk k (k_alloc k)) [0..<?b]"
  define k1 where "k1 = set_fpos dst 0 (set_fpos src 0
    (k\<lparr>k_alloc := Suc (Suc (k_alloc k)), k_live := k_live k + 2\<rparr>))"
  have c: "copied ?S dst src 0 False (k_live k + 2) k1"
    using assms by (simp add: copied_def k1_def)
  from copy_loop_ok [OF assms(1,2) c le0 assms(7,8), of ?b ?buf sparse] copy_blksize_range [of k dst]
  obtain sp k2 where k2:
    "copy_loop ?b rdf wrf lsk dst src (of_nat L) ?buf False sparse k1
      = Some (0, last_hole ?b ?S L, sp, k2)"
    "copied ?S dst src L (last_hole ?b ?S L) (k_live k + 2) k2"
    by (auto simp: last_hole_def split: if_splits)
  have eq: "au_copy_file rdf wrf lsk ntc dst src (of_nat L) sparse k =
     do { (err, k) \<leftarrow> (if last_hole ?b ?S L
                         then do { (err, k) \<leftarrow> copy_write1 wrf dst k2;
                                   Some (if err = 1 then ntc dst (k_fpos k dst) k else (err, k)) }
                         else Some (0, k2));
          Some (err, sp, kfree (kfree k)) }"
    using assms(3-5) k2(1) by (simp add: au_copy_file_def kmalloc_def k1_def Let_def add.commute)
  show ?thesis
  proof (cases "last_hole ?b ?S L")
    case False
    then have "k_fdata k2 dst = take L ?S" "k_fdata k2 src = ?S" "k_live k2 = k_live k + 2"
      using k2(2) by (auto simp: copied_def)
    then show ?thesis using False eq by (simp add: kfree_def)
  next
    case True
    have D: "k_fdata k2 dst @ replicate (L - length (k_fdata k2 dst)) 0 = take L ?S"
      "length (k_fdata k2 dst) \<le> L" "k_fpos k2 dst = of_nat L" "k_fdata k2 src = ?S"
      "k_live k2 = k_live k + 2"
      using k2(2) by (auto simp: copied_def)
    have uL: "unat (of_nat L :: 64 word) = L" "unat (of_nat L + 1 :: 64 word) = L + 1"
      using assms(7,8) by (simp_all add: unat_of_nat unat_word_ariths)
    let ?k3 = "set_fpos dst (of_nat L + 1) (k2\<lparr>k_fdata := (k_fdata k2)(dst := take L ?S @ [0])\<rparr>)"
    have "file_write (k_fdata k2 dst) L [0] = take L ?S @ [0]"
      using D(2) by (simp add: file_write_end flip: D(1))
    then have w: "copy_write1 wrf dst k2 = Some (1, ?k3)"
      using assms(1,7,8) D uL
      by (subst copy_write1.simps) (simp add: copy_env_def writes_ok_def)
    have "ntc dst (of_nat L + 1) ?k3 = (0, ?k3\<lparr>k_fdata := (k_fdata k2)(dst := take L ?S @ [0])\<rparr>)"
      using assms(1,7) uL by (simp add: copy_env_def truncs_ok_def)
    then show ?thesis using eq True w D assms(2) by (simp add: kfree_def)
  qed
qed

definition kcopy :: "byte list \<Rightarrow> kern" where
  "kcopy bs = kern0\<lparr>k_fdata := (\<lambda>f. if f = 1 then bs else []), k_sblocksize := (\<lambda>_. 2)\<rparr>"

theorem au_copy_file_content_witness:
  "(\<exists>s k'. au_copy_file page_read page_write page_seek page_trunc 0 1 3 False (kcopy [7, 0, 5])
       = Some (0, s, k') \<and> k_fdata k' 0 = [7, 0, 5])
   \<and> (\<exists>s k'. au_copy_file page_read page_write page_seek page_trunc 0 1 4 False (kcopy [7, 8, 0, 0])
       = Some (0, s, k') \<and> k_fdata k' 0 = [7, 8, 0, 0, 0])"
  using au_copy_file_content [OF page_env, of 0 1 "kcopy [7, 0, 5]" 3 False]
    au_copy_file_content [OF page_env, of 0 1 "kcopy [7, 8, 0, 0]" 4 False]
  by (force simp: kcopy_def kern0_def copy_blksize_def PAGE_SIZE_def last_hole_def)

text \<open>C38.
  An error of the destination's write is not reported: a copy whose every write
  fails with the same error (other than a retry) returns 0 and has copied nothing,
  as long as no block is a hole.
\<close>

theorem au_copy_file_write_error_lost:
  assumes "reads_ok rdf" and "dst \<noteq> src" and "k_fwritable k dst"
    and "k_ok k (k_alloc k)" and "k_ok k (Suc (k_alloc k))"
    and "\<forall>bs pos k. wrf dst bs pos k = (- e, pos, k)" and "0 < e" "e \<noteq> EAGAIN" "e \<noteq> EINTR"
    and "0 < L" and "L < copy_blksize k dst" and "L \<le> length (k_fdata k src)"
    and "length (k_fdata k src) < 2 ^ 62"
  shows "\<exists>sparse' k'. au_copy_file rdf wrf lsk ntc dst src (of_nat L) sparse k = Some (0, sparse', k')
     \<and> k_fdata k' dst = k_fdata k dst"
proof -
  let ?b = "copy_blksize k dst"
  let ?buf = "map (k_junk k (k_alloc k)) [0..<?b]"
  define k1 where "k1 = set_fpos dst 0 (set_fpos src 0
    (k\<lparr>k_alloc := Suc (Suc (k_alloc k)), k_live := k_live k + 2\<rparr>))"
  let ?bs = "take L (k_fdata k src)" and ?k2 = "set_fpos src (of_nat L) k1"
  have b: "?b \<le> 4096" using copy_blksize_range [of k dst] by (simp add: PAGE_SIZE_def)
  have u: "unat (of_nat L :: 64 word) = L" "unat (of_nat ?b :: 64 word) = ?b"
    using assms(11) b by (simp_all add: unat_of_nat)
  have lt: "(of_nat L :: 64 word) < of_nat ?b" "of_nat L \<noteq> (0 :: 64 word)"
    using u assms(10,11) by (auto simp: word_less_nat_alt)
  have r: "copy_read rdf src L ?buf k1 = Some (int L, ?bs @ drop L ?buf, ?k2)"
    using assms by (subst copy_read_ok) (auto simp: k1_def)
  have "length ?bs = L" using assms(12) by simp
  then have w: "copy_write wrf dst ?bs ?k2 = Some (set_fpos dst (k_fpos ?k2 dst) ?k2)"
    using assms(6-10) by (subst copy_write.simps) auto
  have nil: "copy_loop ?b rdf wrf lsk dst src 0 bf h s k' = Some (0, h, s, k')" for bf h s k'
    by (subst copy_loop.simps) simp
  have "copy_loop ?b rdf wrf lsk dst src (of_nat L) ?buf False sparse k1
      = Some (0, False, sparse, set_fpos dst (k_fpos ?k2 dst) ?k2)"
    using lt u r w nil assms(11) \<open>length ?bs = L\<close> by (subst copy_loop.simps) simp
  then show ?thesis
    using assms(3-5) by (simp add: au_copy_file_def kmalloc_def k1_def kfree_def Let_def add.commute)
qed

theorem au_copy_file_write_error_lost_witness:
  "\<exists>s k'. au_copy_file page_read (\<lambda>_ _ pos k. (- ENOSPC, pos, k)) page_seek page_trunc 0 1 1 False
       (kcopy [7]) = Some (0, s, k') \<and> k_fdata k' 0 = []"
  using au_copy_file_write_error_lost [OF page_ops_ok(1), of 0 1 "kcopy [7]"
      "\<lambda>_ _ pos k. (- ENOSPC, pos, k)" ENOSPC 1 page_seek page_trunc False]
  by (simp add: kcopy_def kern0_def copy_blksize_def PAGE_SIZE_def)

end
