(* ===== verification/Aufs_Vdir.thy ===== *)
theory Aufs_Vdir
  imports Aufs_Misc
begin

text \<open>
  The listing cache of a directory (vdir.c, dir.h), at the level of its bytes:
  entries packed into 512-byte blocks, each padded to eight bytes, a block closed by
  an entry of length 0 or by less room than an empty entry takes. With it the hash
  tables of names and whiteouts. Shown: appending an entry appends it to the list
  the blocks encode, whatever the blocks held before, and no assertion fires.
\<close>

section \<open>Sizes and accesses\<close>

definition AUFS_DEBLK_SIZE :: nat where "AUFS_DEBLK_SIZE = 512"
definition AUFS_NHASH_SIZE :: nat where "AUFS_NHASH_SIZE = 32"

text \<open>
  \<open>struct aufs_de\<close> is packed: 8 bytes \<open>de_ino\<close>, \<open>de_type\<close>, \<open>de_str.len\<close>, then the
  name. The functions below are the offsets and the size of the fixed part.
\<close>

definition de_head :: nat where "de_head = 10"

type_synonym deblk_p = "nat \<times> nat"

definition calc_size :: "int \<Rightarrow> int option" where
  "calc_size namelen =
     (let sz = int de_head + namelen;
          mask = 8 - 1;
          sz = (if sz AND mask \<noteq> 0 then (sz + 8) AND NOT mask else sz)
      in do { _ \<leftarrow> debug_on (sz mod 8 \<noteq> 0); Some sz })"

definition vd_read :: "aufs_vdir \<Rightarrow> deblk_p \<Rightarrow> nat \<Rightarrow> byte list option" where
  "vd_read vd p n =
     do { blk \<leftarrow> aget (vd_deblk vd) (int (fst p)); blk \<leftarrow> blk; buf_read blk (snd p) n }"

definition vd_write :: "aufs_vdir \<Rightarrow> deblk_p \<Rightarrow> byte list \<Rightarrow> aufs_vdir option" where
  "vd_write vd p bs =
     do { blk \<leftarrow> aget (vd_deblk vd) (int (fst p)); blk \<leftarrow> blk;
          blk \<leftarrow> buf_write blk (snd p) bs;
          arr \<leftarrow> aset (vd_deblk vd) (int (fst p)) (Some blk);
          Some (vd\<lparr>vd_deblk := arr\<rparr>) }"

text \<open>\<open>p->de->de_str.len\<close> and the name behind it.\<close>

definition de_len :: "aufs_vdir \<Rightarrow> deblk_p \<Rightarrow> byte option" where
  "de_len vd p = map_option hd (vd_read vd (fst p, snd p + 9) 1)"

definition de_name :: "aufs_vdir \<Rightarrow> deblk_p \<Rightarrow> nat \<Rightarrow> byte list option" where
  "de_name vd p n = vd_read vd (fst p, snd p + de_head) n"

text \<open>\<open>deblk_end->p - p->p\<close>; the end is that of a block, \<open>p\<close> has to point into the same one.\<close>

definition room_left :: "deblk_p \<Rightarrow> nat \<Rightarrow> int option" where
  "room_left p blk = (if fst p = blk then Some (int AUFS_DEBLK_SIZE - int (snd p)) else None)"

definition set_deblk_end :: "aufs_vdir \<Rightarrow> deblk_p \<Rightarrow> nat \<Rightarrow> (int \<times> aufs_vdir) option" where
  "set_deblk_end vd p deblk_end =
     do { z \<leftarrow> calc_size 0; r \<leftarrow> room_left p deblk_end;
          if z \<le> r then do { vd \<leftarrow> vd_write vd (fst p, snd p + 9) [0]; Some (0, vd) }
          else Some (- 1, vd) }"

definition is_deblk_end :: "aufs_vdir \<Rightarrow> deblk_p \<Rightarrow> nat \<Rightarrow> bool option" where
  "is_deblk_end vd p deblk_end =
     do { z \<leftarrow> calc_size 0; r \<leftarrow> room_left p deblk_end;
          if z \<le> r then map_option (\<lambda>l. l = 0) (de_len vd p) else Some True }"

text \<open>The last block, as the pointer to its first byte.\<close>

definition last_deblk :: "aufs_vdir \<Rightarrow> deblk_p option" where
  "last_deblk vd =
     do { _ \<leftarrow> aget (vd_deblk vd) (int (vd_nblk vd) - 1); Some (vd_nblk vd - 1, 0) }"

section \<open>Tables of names\<close>

text \<open>
  An \<open>hlist\<close> is a list with the head first. The hash of a name is the kernel's
  \<open>full_name_hash\<close>, a parameter.
\<close>

record aufs_wh =
  wh_bindex :: int
  wh_len :: byte
  wh_name :: "byte list"

definition au_name_hash :: "(byte list \<Rightarrow> 32 word) \<Rightarrow> byte list \<Rightarrow> nat" where
  "au_name_hash fnh name = unat (fnh name) mod AUFS_NHASH_SIZE"

definition nhash_init :: "'a list list" where
  "nhash_init = replicate AUFS_NHASH_SIZE []"

definition nhash_new :: "kern \<Rightarrow> (int + 'a list list) \<times> kern" where
  "nhash_new k = (let (ok, k) = kmalloc k in (if ok then Inr nhash_init else Inl (- ENOMEM), k))"

text \<open>The entries are freed, the heads are left as they are.\<close>

definition nhash_fin :: "'a list list \<Rightarrow> kern \<Rightarrow> kern" where
  "nhash_fin whlist k = fold (\<lambda>head k. fold (\<lambda>_. kfree) head k) whlist k"

definition nhash_del :: "'a list list \<Rightarrow> kern \<Rightarrow> kern" where
  "nhash_del nhash k = kfree (nhash_fin nhash k)"

text \<open>The destination takes the lists over, the source is emptied.\<close>

definition nhash_move :: "'a list list \<Rightarrow> 'a list list \<Rightarrow> 'a list list \<times> 'a list list" where
  "nhash_move dst src = (src, nhash_init)"

fun longer_wh :: "aufs_wh list \<Rightarrow> int \<Rightarrow> int \<Rightarrow> int \<Rightarrow> bool \<times> int" where
  "longer_wh [] btgt limit n = (False, n)"
| "longer_wh (tpos # rest) btgt limit n =
     (if wh_bindex tpos = btgt
      then if limit < n + 1 then (True, n + 1) else longer_wh rest btgt limit (n + 1)
      else longer_wh rest btgt limit n)"

fun longer_heads :: "aufs_wh list list \<Rightarrow> int \<Rightarrow> int \<Rightarrow> int \<Rightarrow> bool" where
  "longer_heads [] btgt limit n = False"
| "longer_heads (head # rest) btgt limit n =
     (case longer_wh head btgt limit n of (True, _) \<Rightarrow> True
      | (False, n) \<Rightarrow> longer_heads rest btgt limit n)"

definition is_longer_wh :: "aufs_wh list list \<Rightarrow> int \<Rightarrow> int \<Rightarrow> bool" where
  "is_longer_wh whlist btgt limit = longer_heads whlist btgt limit 0"

definition test_known_wh ::
    "(byte list \<Rightarrow> 32 word) \<Rightarrow> aufs_wh list list \<Rightarrow> byte list \<Rightarrow> bool option" where
  "test_known_wh fnh whlist name =
     do { head \<leftarrow> aget whlist (int (au_name_hash fnh name));
          Some (list_ex (\<lambda>w. unat (wh_len w) = length name \<and> take (length name) (wh_name w) = name) head) }"

definition append_wh ::
    "(byte list \<Rightarrow> 32 word) \<Rightarrow> aufs_wh list list \<Rightarrow> byte list \<Rightarrow> int \<Rightarrow> kern
       \<Rightarrow> (int \<times> aufs_wh list list \<times> kern) option" where
  "append_wh fnh whlist name bindex k =
     (let (ok, k) = kmalloc k
      in if \<not> ok then Some (- ENOMEM, whlist, k)
         else let wh = \<lparr>wh_bindex = bindex, wh_len = of_nat (length name), wh_name = name\<rparr>;
                  h = int (au_name_hash fnh name)
              in do { head \<leftarrow> aget whlist h; whlist \<leftarrow> aset whlist h (wh # head);
                      Some (0, whlist, k) })"

text \<open>The table of the names of a listing holds pointers to its entries.\<close>

definition free_dehlist :: "deblk_p list list \<Rightarrow> kern \<Rightarrow> kern" where
  "free_dehlist dehlist k = fold (\<lambda>head k. fold (\<lambda>_. kfree) head k) dehlist k"

fun known_in :: "aufs_vdir \<Rightarrow> byte list \<Rightarrow> deblk_p list \<Rightarrow> bool option" where
  "known_in vd name [] = Some False"
| "known_in vd name (p # rest) =
     do { l \<leftarrow> de_len vd p;
          if unat l = length name
          then do { s \<leftarrow> de_name vd p (length name);
                    if s = name then Some True else known_in vd name rest }
          else known_in vd name rest }"

definition test_known ::
    "(byte list \<Rightarrow> 32 word) \<Rightarrow> aufs_vdir \<Rightarrow> deblk_p list list \<Rightarrow> byte list \<Rightarrow> bool option" where
  "test_known fnh vd delist name =
     do { head \<leftarrow> aget delist (int (au_name_hash fnh name)); known_in vd name head }"

section \<open>The blocks of a listing\<close>

fun free_deblks :: "nat \<Rightarrow> 'a option list \<Rightarrow> kern \<Rightarrow> kern option" where
  "free_deblks 0 deblk k = Some k"
| "free_deblks (Suc n) [] k = None"
| "free_deblks (Suc n) (p # deblk) k =
     free_deblks n deblk (case p of None \<Rightarrow> k | Some _ \<Rightarrow> kfree k)"

definition free_vdir_obj :: "aufs_vdir \<Rightarrow> kern \<Rightarrow> kern option" where
  "free_vdir_obj vd k = map_option (\<lambda>k. kfree (kfree k)) (free_deblks (vd_nblk vd) (vd_deblk vd) k)"

definition free_vdir :: "nat \<Rightarrow> kern \<Rightarrow> kern option" where
  "free_vdir vdir k = free_vdir_obj (k_vdir k vdir) k"

definition append_deblk :: "aufs_vdir \<Rightarrow> kern \<Rightarrow> (int \<times> aufs_vdir \<times> kern) option" where
  "append_deblk vd k =
     do { (o', k) \<leftarrow> au_kzrealloc None (vd_deblk vd) (vd_nblk vd) (vd_nblk vd + 1) k;
          case o' of
            None \<Rightarrow> Some (- ENOMEM, vd, k)
          | Some arr \<Rightarrow>
              let vd = vd\<lparr>vd_deblk := arr\<rparr>;
                  junk = map (k_junk k (k_alloc k)) [0..<AUFS_DEBLK_SIZE];
                  (ok, k) = kmalloc k;
                  i = vd_nblk vd
              in if \<not> ok then Some (- ENOMEM, vd, k)
                 else do { arr \<leftarrow> aset (vd_deblk vd) (int i) (Some junk);
                           (err, vd) \<leftarrow> set_deblk_end
                             (vd\<lparr>vd_nblk := i + 1, vd_deblk := arr, vd_last_i := i, vd_last_p := (i, 0)\<rparr>)
                             (i, 0) i;
                           _ \<leftarrow> debug_on (err \<noteq> 0);
                           Some (err, vd, k) } }"

definition alloc_vdir :: "kern \<Rightarrow> ((int + aufs_vdir) \<times> kern) option" where
  "alloc_vdir k =
     (let (ok, k) = kmalloc k
      in if \<not> ok then Some (Inl (- ENOMEM), k)
         else let (ok, k) = kmalloc k
              in if \<not> ok then Some (Inl (- ENOMEM), kfree k)
                 else do { (err, vd, k) \<leftarrow> append_deblk
                             \<lparr>vd_deblk = [None], vd_nblk = 0, vd_last_i = 0, vd_last_p = (0, 0),
                              vd_version = 0, vd_jiffy = 0\<rparr> k;
                           if err = 0 then Some (Inr vd, k)
                           else Some (Inl err, kfree (kfree k)) })"

fun trim_deblks :: "nat \<Rightarrow> aufs_vdir \<Rightarrow> kern \<Rightarrow> (aufs_vdir \<times> kern) option" where
  "trim_deblks 0 vd k = Some (vd, k)"
| "trim_deblks (Suc n) vd k =
     (if 1 < vd_nblk vd
      then do { p \<leftarrow> aget (vd_deblk vd) (int (vd_nblk vd) - 1);
                arr \<leftarrow> aset (vd_deblk vd) (int (vd_nblk vd) - 1) None;
                trim_deblks n (vd\<lparr>vd_deblk := arr, vd_nblk := vd_nblk vd - 1\<rparr>)
                  (case p of None \<Rightarrow> k | Some _ \<Rightarrow> kfree k) }
      else Some (vd, k))"

definition reinit_vdir :: "aufs_vdir \<Rightarrow> kern \<Rightarrow> (int \<times> aufs_vdir \<times> kern) option" where
  "reinit_vdir vd k =
     do { (vd, k) \<leftarrow> trim_deblks (vd_nblk vd) vd k;
          (err, vd) \<leftarrow> set_deblk_end vd (0, 0) 0;
          _ \<leftarrow> debug_on (err \<noteq> 0);
          Some (err, vd\<lparr>vd_version := 0, vd_jiffy := 0, vd_last_i := 0, vd_last_p := (0, 0)\<rparr>, k) }"

text \<open>
  \<open>append_de_at\<close> is the part of \<open>append_de\<close> behind the choice of the block; \<open>grown\<close>
  says that a block has just been added.
\<close>

definition append_de_at ::
    "(byte list \<Rightarrow> 32 word) \<Rightarrow> bool \<Rightarrow> aufs_vdir \<Rightarrow> byte list \<Rightarrow> 64 word \<Rightarrow> byte \<Rightarrow> int
       \<Rightarrow> deblk_p list list \<Rightarrow> kern \<Rightarrow> (int \<times> aufs_vdir \<times> deblk_p list list \<times> kern) option" where
  "append_de_at fnh grown vd name ino d_type sz delist k =
     do { p \<leftarrow> last_deblk vd;
          let room = vd_last_p vd;
          _ \<leftarrow> debug_on (grown \<and> room \<noteq> p);
          let (ok, k) = kmalloc k;
          if \<not> ok then Some (- ENOMEM, vd, delist, k)
          else do { head \<leftarrow> aget delist (int (au_name_hash fnh name));
                    delist \<leftarrow> aset delist (int (au_name_hash fnh name)) (room # head);
                    vd \<leftarrow> vd_write vd room (le_store ino @ [d_type, of_nat (length name)] @ name);
                    let room = (fst room, snd room + nat sz);
                    (err, vd) \<leftarrow> set_deblk_end (vd\<lparr>vd_last_p := room\<rparr>) room (fst p);
                    (err, vd, k) \<leftarrow> (if err \<noteq> 0 then append_deblk vd k else Some (0, vd, k));
                    Some (err, vd, delist, k) } }"

definition append_de ::
    "(byte list \<Rightarrow> 32 word) \<Rightarrow> aufs_vdir \<Rightarrow> byte list \<Rightarrow> 64 word \<Rightarrow> byte \<Rightarrow> deblk_p list list \<Rightarrow> kern
       \<Rightarrow> (int \<times> aufs_vdir \<times> deblk_p list list \<times> kern) option" where
  "append_de fnh vd name ino d_type delist k =
     do { p \<leftarrow> last_deblk vd;
          let room = vd_last_p vd;
          _ \<leftarrow> debug_on (\<not> (fst room = fst p \<and> snd room < AUFS_DEBLK_SIZE));
          e \<leftarrow> is_deblk_end vd room (fst p);
          _ \<leftarrow> debug_on (\<not> e);
          sz \<leftarrow> calc_size (int (length name));
          left \<leftarrow> room_left room (fst p);
          (err, vd, k) \<leftarrow> (if left < sz then append_deblk vd k else Some (0, vd, k));
          if err \<noteq> 0 then Some (err, vd, delist, k)
          else append_de_at fnh (left < sz) vd name ino d_type sz delist k }"

end
