(* ===== verification/Aufs_Vdir_Append.thy ===== *)
theory Aufs_Vdir_Append
  imports Aufs_Vdir
begin

text \<open>
  What the blocks of a listing cache encode, and the proof that \<open>append_de\<close> refines
  appending to a list of entries. \<open>blk_ents\<close> decodes a block, \<open>vd_ents\<close> a cache.
\<close>

section \<open>Sizes\<close>

lemma and_mask3: "(x::int) AND 7 = x mod 8"
  using take_bit_eq_mask [of 3 x] by (simp add: take_bit_eq_mod mask_eq_exp_minus_1)

lemma and_not3: "(x::int) AND - 8 = 8 * (x div 8)"
proof -
  have "x AND NOT (mask 3) = push_bit 3 (drop_bit 3 x)"
    by (rule bit_eqI)
      (auto simp: bit_and_iff bit_not_iff bit_mask_iff bit_push_bit_iff bit_drop_bit_eq possible_bit_def)
  then show ?thesis by (simp add: mask_eq_exp_minus_1 push_bit_eq_mult drop_bit_eq_div)
qed

definition esize :: "nat \<Rightarrow> nat" where
  "esize n = 8 * ((n + 17) div 8)"

lemma round8:
  "(x::int) mod 8 \<noteq> 0 \<Longrightarrow> (x + 8) div 8 = (x + 7) div 8"
  "(x::int) mod 8 = 0 \<Longrightarrow> 8 * ((x + 7) div 8) = x"
proof -
  define p r q s where "p = x div 8" and "r = x mod 8" and "q = (x + 7) div 8" and "s = (x + 7) mod 8"
  have x: "x = 8 * p + r" "0 \<le> r" "r < 8" by (simp_all add: p_def r_def)
  have y: "x + 7 = 8 * q + s" "0 \<le> s" "s < 8" by (simp_all add: q_def s_def)
  have q: "r \<noteq> 0 \<Longrightarrow> q = p + 1" "r = 0 \<Longrightarrow> q = p" using x y by linarith+
  have p: "(x + 8) div 8 = p + 1" unfolding p_def by (rule div_add_self2) simp
  show "x mod 8 \<noteq> 0 \<Longrightarrow> (x + 8) div 8 = (x + 7) div 8"
    unfolding p by (fold r_def q_def) (rule q(1) [symmetric])
  show "x mod 8 = 0 \<Longrightarrow> 8 * ((x + 7) div 8) = x"
    by (fold r_def q_def) (simp add: q x(1))
qed

lemma calc_size_nat [simp]: "calc_size (int n) = Some (int (esize n))"
proof -
  let ?sz = "int de_head + int n"
  have z: "int (esize n) = 8 * ((?sz + 7) div 8)"
    by (simp add: esize_def zdiv_int de_head_def algebra_simps)
  have up: "8 * ((?sz + 8) div 8) = int (esize n)" if "?sz mod 8 \<noteq> 0"
    unfolding z round8(1) [OF that] ..
  have eq: "?sz = int (esize n)" if "?sz mod 8 = 0"
    unfolding z round8(2) [OF that] ..
  have m: "8 - 1 = (7::int)" "NOT (7::int) = - 8" by simp_all
  have "(if ?sz mod 8 \<noteq> 0 then 8 * ((?sz + 8) div 8) else ?sz) = int (esize n)"
    using up eq by metis
  moreover have "int (esize n) mod 8 = 0" by (simp add: esize_def)
  ultimately show ?thesis
    by (simp only: calc_size_def Let_def m and_mask3 and_not3 debug_on_bind simp_thms if_False)
qed

lemma calc_size_0 [simp]: "calc_size 0 = Some 16"
  using calc_size_nat [of 0] by (simp add: esize_def)

lemma esize_bounds: "n + 10 \<le> esize n" "esize n \<le> n + 17" "16 \<le> esize n"
  unfolding esize_def by presburger+

section \<open>Decoding\<close>

type_synonym entry = "64 word \<times> byte \<times> byte list"

definition good_name :: "byte list \<Rightarrow> bool" where
  "good_name n \<longleftrightarrow> n \<noteq> [] \<and> length n \<le> 255"

fun enc :: "entry \<Rightarrow> byte list" where
  "enc (ino, ty, n) = le_store ino @ [ty, of_nat (length n)] @ n"

fun esz :: "entry \<Rightarrow> nat" where "esz (ino, ty, n) = esize (length n)"

fun ename :: "entry \<Rightarrow> byte list" where "ename (ino, ty, n) = n"

function blk_ents :: "byte list \<Rightarrow> nat \<Rightarrow> entry list" where
  "blk_ents b off =
     (if off + 16 \<le> length b \<and> b ! (off + 9) \<noteq> 0
      then (le_load (take 8 (drop off b)), b ! (off + 8),
            take (unat (b ! (off + 9))) (drop (off + 10) b))
           # blk_ents b (off + esize (unat (b ! (off + 9))))
      else [])"
  by pat_completeness auto
termination
  by (relation "measure (\<lambda>(b, off). length b - off)") (auto simp: esize_def)

declare blk_ents.simps [simp del]

definition vd_ents :: "aufs_vdir \<Rightarrow> entry list" where
  "vd_ents vd = concat (map (\<lambda>p. case p of None \<Rightarrow> [] | Some b \<Rightarrow> blk_ents b 0)
     (take (vd_nblk vd) (vd_deblk vd)))"

text \<open>\<open>chain b o es o'\<close>: the entries \<open>es\<close> lie in the block from \<open>o\<close> to \<open>o'\<close>.\<close>

fun chain :: "byte list \<Rightarrow> nat \<Rightarrow> entry list \<Rightarrow> nat \<Rightarrow> bool" where
  "chain b off [] off' = (off = off')"
| "chain b off (e # es) off' =
     (good_name (ename e) \<and> off + esz e \<le> AUFS_DEBLK_SIZE
      \<and> take (10 + length (ename e)) (drop off b) = enc e \<and> chain b (off + esz e) es off')"

definition blk_end :: "byte list \<Rightarrow> nat \<Rightarrow> bool" where
  "blk_end b off \<longleftrightarrow> AUFS_DEBLK_SIZE < off + 16 \<or> b ! (off + 9) = 0"

definition holds :: "byte list \<Rightarrow> entry list \<Rightarrow> nat \<Rightarrow> bool" where
  "holds b es off \<longleftrightarrow> length b = AUFS_DEBLK_SIZE \<and> chain b 0 es off \<and> blk_end b off"

lemma enc_length [simp]: "length (enc e) = 10 + length (ename e)"
  by (cases e) simp

lemma esz_ename: "esz e = esize (length (ename e))"
  by (cases e) simp

lemma chain_le: "chain b off es off' \<Longrightarrow> off \<le> off'"
proof (induction es arbitrary: off)
  case (Cons e es)
  then have "off + esz e \<le> off'" by auto
  then show ?case by simp
qed simp

lemma chain_append:
  "chain b off (es @ es') off' = (\<exists>m. chain b off es m \<and> chain b m es' off')"
  by (induction es arbitrary: off) auto

lemma take_drop_cong:
  assumes "take m b' = take m b" and "off + n \<le> m"
  shows "take n (drop off b') = take n (drop off b)"
proof -
  have "take n (drop off b) = take n (drop off (take m b))" for b :: "'a list"
    using assms(2) by (simp add: drop_take min_def)
  with assms(1) show ?thesis by metis
qed

lemma take_nth_cong: "take m b' = take m b \<Longrightarrow> i < m \<Longrightarrow> b' ! i = b ! i"
  by (metis nth_take)

lemma chain_cong:
  "chain b off es off' \<Longrightarrow> take off' b' = take off' b \<Longrightarrow> chain b' off es off'"
proof (induction es arbitrary: off)
  case Nil
  then show ?case by simp
next
  case (Cons e es)
  then have c: "chain b (off + esz e) es off'" by simp
  have "off + (10 + length (ename e)) \<le> off'"
    using chain_le [OF c] esize_bounds(1) [of "length (ename e)"] by (simp add: esz_ename)
  then have "take (10 + length (ename e)) (drop off b') = take (10 + length (ename e)) (drop off b)"
    by (rule take_drop_cong [OF Cons.prems(2)])
  with Cons show ?case by auto
qed

text \<open>What the bytes of an entry decode to.\<close>

lemma enc_decode:
  assumes "take (10 + length n) (drop off b) = enc (ino, ty, n)"
  shows "le_load (take 8 (drop off b)) = ino" and "b ! (off + 8) = ty"
    and "b ! (off + 9) = of_nat (length n)" and "take (length n) (drop (off + 10) b) = n"
    and "off + 10 + length n \<le> length b"
proof -
  let ?t = "take (10 + length n) (drop off b)"
  have len: "length ?t = 10 + length n" by (simp only: assms enc_length ename.simps)
  then show l: "off + 10 + length n \<le> length b" by simp
  have "take 8 ?t = le_store ino" by (simp only: assms enc.simps) simp
  then show "le_load (take 8 (drop off b)) = ino" by (simp add: min_def)
  have "?t ! 8 = ty" "?t ! 9 = of_nat (length n)"
    by (simp_all only: assms enc.simps) (simp_all add: nth_append)
  then show "b ! (off + 8) = ty" "b ! (off + 9) = of_nat (length n)" using l by simp_all
  have "drop 10 ?t = n" by (simp only: assms enc.simps) simp
  then show "take (length n) (drop (off + 10) b) = n"
    by (simp add: drop_take add.commute)
qed

lemma good_name_len: "good_name n \<Longrightarrow> unat (of_nat (length n) :: byte) = length n"
  by (simp add: good_name_def unat_of_nat)

lemma good_name_len0: "good_name n \<Longrightarrow> (of_nat (length n) :: byte) \<noteq> 0"
  by (metis good_name_def good_name_len length_0_conv unat_0)

lemma chain_ents:
  assumes "chain b off es off'" and "length b = AUFS_DEBLK_SIZE" and "blk_end b off'"
  shows "blk_ents b off = es"
  using assms
proof (induction es arbitrary: off)
  case Nil
  then show ?case by (subst blk_ents.simps) (auto simp: blk_end_def)
next
  case (Cons e es)
  obtain ino ty n where e: "e = (ino, ty, n)" by (cases e)
  with Cons.prems have g: "good_name n" and sz: "off + esize (length n) \<le> AUFS_DEBLK_SIZE"
    and t: "take (10 + length n) (drop off b) = enc (ino, ty, n)"
    and c: "chain b (off + esize (length n)) es off'" by auto
  note d = enc_decode [OF t]
  have "off + 16 \<le> length b" using sz Cons.prems(2) esize_bounds(3) [of "length n"] by simp
  then show ?case
    using d g Cons.IH [OF c Cons.prems(2,3)] e
    by (subst blk_ents.simps) (simp add: good_name_len good_name_len0)
qed

lemma holds_ents: "holds b es off \<Longrightarrow> blk_ents b 0 = es"
  by (auto simp: holds_def intro: chain_ents)

section \<open>Caches under construction\<close>

text \<open>
  \<open>built vd ess off\<close>: block \<open>i\<close> holds the entries \<open>ess ! i\<close>, and the place of the next
  entry is \<open>off\<close> in the last block, with room for the closing entry at least.
\<close>

definition vd_holds :: "aufs_vdir \<Rightarrow> entry list list \<Rightarrow> bool" where
  "vd_holds vd ess \<longleftrightarrow> length ess = vd_nblk vd \<and> vd_nblk vd \<le> length (vd_deblk vd)
     \<and> (\<forall>i < vd_nblk vd. \<exists>b off. vd_deblk vd ! i = Some b \<and> holds b (ess ! i) off)"

definition built :: "aufs_vdir \<Rightarrow> entry list list \<Rightarrow> nat \<Rightarrow> bool" where
  "built vd ess off \<longleftrightarrow> vd_holds vd ess \<and> 0 < vd_nblk vd \<and> vd_last_p vd = (vd_nblk vd - 1, off)
     \<and> off + 16 \<le> AUFS_DEBLK_SIZE
     \<and> (\<exists>b. vd_deblk vd ! (vd_nblk vd - 1) = Some b \<and> holds b (last ess) off)"

lemma vd_holds_ents: "vd_holds vd ess \<Longrightarrow> vd_ents vd = concat ess"
proof -
  assume a: "vd_holds vd ess"
  have "map (\<lambda>p. case p of None \<Rightarrow> [] | Some b \<Rightarrow> blk_ents b 0) (take (vd_nblk vd) (vd_deblk vd)) = ess"
  proof (rule nth_equalityI)
    show len: "length (map (\<lambda>p. case p of None \<Rightarrow> [] | Some b \<Rightarrow> blk_ents b 0)
        (take (vd_nblk vd) (vd_deblk vd))) = length ess"
      using a by (auto simp: vd_holds_def)
    fix i assume "i < length (map (\<lambda>p. case p of None \<Rightarrow> [] | Some b \<Rightarrow> blk_ents b 0)
        (take (vd_nblk vd) (vd_deblk vd)))"
    then have i: "i < vd_nblk vd" using len a by (simp add: vd_holds_def)
    with a obtain b off where "vd_deblk vd ! i = Some b" "holds b (ess ! i) off"
      by (auto simp: vd_holds_def)
    with i a show "map (\<lambda>p. case p of None \<Rightarrow> [] | Some b \<Rightarrow> blk_ents b 0)
        (take (vd_nblk vd) (vd_deblk vd)) ! i = ess ! i"
      by (auto simp: vd_holds_def holds_ents)
  qed
  then show ?thesis by (simp add: vd_ents_def)
qed

lemma built_ents: "built vd ess off \<Longrightarrow> vd_ents vd = concat ess"
  by (simp add: built_def vd_holds_ents)

text \<open>
  \<open>vd_ext\<close>: later stages of a cache keep the bytes of all entries written so far, so
  the pointers the name tables hold stay valid.
\<close>

definition vlimit :: "aufs_vdir \<Rightarrow> nat \<Rightarrow> nat" where
  "vlimit vd i = (if i = fst (vd_last_p vd) then snd (vd_last_p vd) else AUFS_DEBLK_SIZE)"

definition vd_ext :: "aufs_vdir \<Rightarrow> aufs_vdir \<Rightarrow> bool" where
  "vd_ext vd vd' \<longleftrightarrow> vd_nblk vd \<le> vd_nblk vd'
     \<and> (\<forall>i < vd_nblk vd. vlimit vd i \<le> vlimit vd' i
          \<and> (\<forall>b. vd_deblk vd ! i = Some b \<longrightarrow>
               (\<exists>b'. vd_deblk vd' ! i = Some b' \<and> length b' = length b
                  \<and> take (vlimit vd i) b' = take (vlimit vd i) b)))"

definition ptr_ok :: "aufs_vdir \<Rightarrow> deblk_p \<Rightarrow> byte list \<Rightarrow> bool" where
  "ptr_ok vd p n \<longleftrightarrow> fst p < vd_nblk vd \<and> fst p < length (vd_deblk vd) \<and> good_name n
     \<and> snd p + 10 + length n \<le> vlimit vd (fst p)
     \<and> (\<exists>b. vd_deblk vd ! fst p = Some b \<and> length b = AUFS_DEBLK_SIZE
          \<and> vlimit vd (fst p) \<le> AUFS_DEBLK_SIZE
          \<and> b ! (snd p + 9) = of_nat (length n) \<and> take (length n) (drop (snd p + 10) b) = n)"

lemma ptr_ok_ext:
  assumes p: "ptr_ok vd p n" and e: "vd_ext vd vd'" and "vd_nblk vd' \<le> length (vd_deblk vd')"
    and "vlimit vd' (fst p) \<le> AUFS_DEBLK_SIZE"
  shows "ptr_ok vd' p n"
proof -
  from p obtain b where b: "vd_deblk vd ! fst p = Some b" "length b = AUFS_DEBLK_SIZE"
    "b ! (snd p + 9) = of_nat (length n)" "take (length n) (drop (snd p + 10) b) = n"
    and lim: "snd p + 10 + length n \<le> vlimit vd (fst p)" "vlimit vd (fst p) \<le> AUFS_DEBLK_SIZE"
    and fp: "fst p < vd_nblk vd" "good_name n"
    by (auto simp: ptr_ok_def)
  from e fp(1) have lim': "vlimit vd (fst p) \<le> vlimit vd' (fst p)" "vd_nblk vd \<le> vd_nblk vd'"
    by (auto simp: vd_ext_def)
  from e fp(1) b(1) obtain b' where b': "vd_deblk vd' ! fst p = Some b'" "length b' = length b"
    and t: "take (vlimit vd (fst p)) b' = take (vlimit vd (fst p)) b"
    unfolding vd_ext_def by blast
  have "b' ! (snd p + 9) = b ! (snd p + 9)"
    using take_nth_cong [OF t] lim by simp
  moreover have "take (length n) (drop (snd p + 10) b') = n"
    using take_drop_cong [OF t] b(4) lim by simp
  ultimately show ?thesis
    using b b' lim lim' fp assms(3,4) by (auto simp: ptr_ok_def)
qed

section \<open>Appending a block\<close>

definition add_blk :: "aufs_vdir \<Rightarrow> byte list \<Rightarrow> aufs_vdir" where
  "add_blk vd b = vd\<lparr>vd_deblk := take (vd_nblk vd) (vd_deblk vd) @ [Some b],
     vd_nblk := vd_nblk vd + 1, vd_last_i := vd_nblk vd, vd_last_p := (vd_nblk vd, 0)\<rparr>"

lemma append_deblk_ok:
  assumes "vd_nblk vd \<le> length (vd_deblk vd)"
    and "k_ok k (k_alloc k)" and "k_ok k (Suc (k_alloc k))"
  shows "\<exists>b. append_deblk vd k = Some (0, add_blk vd b,
       k\<lparr>k_alloc := k_alloc k + 2, k_live := k_live k + 1\<rparr>)
     \<and> length b = AUFS_DEBLK_SIZE \<and> b ! 9 = 0"
proof -
  let ?n = "vd_nblk vd"
  let ?k1 = "k\<lparr>k_alloc := Suc (k_alloc k), k_live := k_live k\<rparr>"
  let ?junk = "map (k_junk ?k1 (k_alloc ?k1)) [0..<AUFS_DEBLK_SIZE]"
  let ?b = "take 9 ?junk @ [0] @ drop 10 ?junk"
  have r: "au_kzrealloc None (vd_deblk vd) ?n (?n + 1) k
      = Some (Some (take ?n (vd_deblk vd) @ [None]), ?k1)"
    using assms by (simp add: au_kzrealloc_def kmalloc_def kfree_def)
  have len: "length (take ?n (vd_deblk vd)) = ?n" using assms(1) by simp
  have upd: "(take ?n (vd_deblk vd) @ [y])[?n := x] = take ?n (vd_deblk vd) @ [x]" for x y
    using len by (metis list_update_length)
  have "append_deblk vd k = Some (0, add_blk vd ?b,
       k\<lparr>k_alloc := k_alloc k + 2, k_live := k_live k + 1\<rparr>)"
    unfolding append_deblk_def r bind.simps split
    using len assms(3) upd
    by (simp add: kmalloc_def aset_def aget_def nth_append set_deblk_end_def room_left_def
        vd_write_def AUFS_DEBLK_SIZE_def add_blk_def Let_def min_def)
  then show ?thesis by (intro exI [of _ ?b]) (simp add: AUFS_DEBLK_SIZE_def nth_append)
qed

lemma add_blk_nth: "i < vd_nblk vd \<Longrightarrow> vd_nblk vd \<le> length (vd_deblk vd)
    \<Longrightarrow> vd_deblk (add_blk vd b) ! i = vd_deblk vd ! i"
  by (simp add: add_blk_def nth_append)

lemma add_blk_last: "vd_nblk vd \<le> length (vd_deblk vd)
    \<Longrightarrow> vd_deblk (add_blk vd b) ! vd_nblk vd = Some b"
  by (simp add: add_blk_def nth_append)

lemma add_blk_built:
  assumes h: "vd_holds vd ess" and b: "length b = AUFS_DEBLK_SIZE" "b ! 9 = 0"
  shows "built (add_blk vd b) (ess @ [[]]) 0"
proof -
  have len: "length ess = vd_nblk vd" "vd_nblk vd \<le> length (vd_deblk vd)"
    using h by (auto simp: vd_holds_def)
  have e: "holds b [] 0" using b by (simp add: holds_def blk_end_def AUFS_DEBLK_SIZE_def)
  have "\<exists>b' off. vd_deblk (add_blk vd b) ! i = Some b' \<and> holds b' ((ess @ [[]]) ! i) off"
    if "i < vd_nblk vd + 1" for i
  proof (cases "i = vd_nblk vd")
    case True
    then show ?thesis using e len by (auto simp: add_blk_last nth_append)
  next
    case False
    with that have "i < vd_nblk vd" by simp
    with h len show ?thesis by (auto simp: add_blk_nth nth_append vd_holds_def)
  qed
  then show ?thesis
    using e len add_blk_last [OF len(2), of b]
    by (auto simp: built_def vd_holds_def add_blk_def AUFS_DEBLK_SIZE_def)
qed

lemma add_blk_ext:
  assumes "vd_holds vd ess" and "fst (vd_last_p vd) < vd_nblk vd"
    and "snd (vd_last_p vd) \<le> AUFS_DEBLK_SIZE"
  shows "vd_ext vd (add_blk vd b)"
proof -
  have "vd_nblk vd \<le> length (vd_deblk vd)" using assms(1) by (simp add: vd_holds_def)
  then show ?thesis
    using assms(2,3) by (auto simp: vd_ext_def add_blk_nth vlimit_def) (auto simp: add_blk_def)
qed

lemma vd_ext_refl [simp]: "vd_ext vd vd"
  by (auto simp: vd_ext_def)

lemma vd_ext_trans:
  assumes "vd_ext u v" and "vd_ext v w"
  shows "vd_ext u w"
  unfolding vd_ext_def
proof (intro conjI allI impI)
  show "vd_nblk u \<le> vd_nblk w" using assms by (auto simp: vd_ext_def)
  fix i assume i: "i < vd_nblk u"
  then have i': "i < vd_nblk v" using assms(1) by (auto simp: vd_ext_def)
  have l: "vlimit u i \<le> vlimit v i" "vlimit v i \<le> vlimit w i"
    using assms i i' by (auto simp: vd_ext_def)
  then show "vlimit u i \<le> vlimit w i" by simp
  fix b assume "vd_deblk u ! i = Some b"
  with assms(1) i obtain c where c: "vd_deblk v ! i = Some c" "length c = length b"
    "take (vlimit u i) c = take (vlimit u i) b" unfolding vd_ext_def by blast
  with assms(2) i' obtain d where d: "vd_deblk w ! i = Some d" "length d = length c"
    "take (vlimit v i) d = take (vlimit v i) c" unfolding vd_ext_def by blast
  have "take (vlimit u i) d = take (vlimit u i) c"
    using d(3) l(1) by (metis min.absorb1 take_take)
  with c d show "\<exists>b'. vd_deblk w ! i = Some b' \<and> length b' = length b
      \<and> take (vlimit u i) b' = take (vlimit u i) b" by auto
qed

section \<open>Appending an entry\<close>

text \<open>The last block is replaced by one that keeps its first \<open>off\<close> bytes.\<close>

definition set_last :: "aufs_vdir \<Rightarrow> byte list \<Rightarrow> nat \<Rightarrow> aufs_vdir" where
  "set_last vd b off = vd\<lparr>vd_deblk := (vd_deblk vd)[vd_nblk vd - 1 := Some b],
     vd_last_p := (vd_nblk vd - 1, off)\<rparr>"

lemma set_last_holds:
  assumes u: "built vd ess off" and h: "holds b es off'"
  shows "vd_holds (set_last vd b off') (butlast ess @ [es])"
    and "off' + 16 \<le> AUFS_DEBLK_SIZE \<Longrightarrow> built (set_last vd b off') (butlast ess @ [es]) off'"
proof -
  have n: "0 < vd_nblk vd" "vd_nblk vd \<le> length (vd_deblk vd)" "length ess = vd_nblk vd"
    using u by (auto simp: built_def vd_holds_def)
  have old: "\<exists>b off. vd_deblk vd ! i = Some b \<and> holds b (ess ! i) off" if "i < vd_nblk vd" for i
    using u that by (auto simp: built_def vd_holds_def)
  have "\<exists>b' o'. vd_deblk (set_last vd b off') ! i = Some b' \<and> holds b' ((butlast ess @ [es]) ! i) o'"
    if i: "i < vd_nblk vd" for i
  proof (cases "i = vd_nblk vd - 1")
    case True
    then show ?thesis using h n by (auto simp: set_last_def nth_append)
  next
    case False
    with i n have "i < length (butlast ess)" by simp
    with False old [OF i] show ?thesis by (auto simp: set_last_def nth_append nth_butlast)
  qed
  then show *: "vd_holds (set_last vd b off') (butlast ess @ [es])"
    using n by (simp add: vd_holds_def) (simp add: set_last_def)
  assume "off' + 16 \<le> AUFS_DEBLK_SIZE"
  with * n h show "built (set_last vd b off') (butlast ess @ [es]) off'"
    by (auto simp: built_def) (auto simp: set_last_def)
qed

lemma set_last_ext:
  assumes "built vd ess off" and "vd_deblk vd ! (vd_nblk vd - 1) = Some b0"
    and "length b = length b0" and "take off b = take off b0" and "off \<le> off'"
  shows "vd_ext vd (set_last vd b off')"
  using assms
  by (auto simp: vd_ext_def vlimit_def built_def vd_holds_def set_last_def nth_list_update)

lemma set_last_ptr:
  assumes "built vd ess off" and "good_name n" and "off + 10 + length n \<le> off'"
    and "take (10 + length n) (drop off b) = enc (ino, ty, n)"
    and "off' \<le> AUFS_DEBLK_SIZE" and "length b = AUFS_DEBLK_SIZE"
  shows "ptr_ok (set_last vd b off') (vd_nblk vd - 1, off) n"
  using assms(1,2,3,5,6) enc_decode [OF assms(4)]
  by (auto simp: ptr_ok_def vlimit_def built_def vd_holds_def set_last_def)

lemma vd_write_last:
  assumes "vd_nblk vd \<le> length (vd_deblk vd)" "0 < vd_nblk vd"
    and "vd_deblk vd ! (vd_nblk vd - 1) = Some b" and "off + length bs \<le> length b"
  shows "vd_write vd (vd_nblk vd - 1, off) bs = Some (vd\<lparr>vd_deblk := (vd_deblk vd)
     [vd_nblk vd - 1 := Some (take off b @ bs @ drop (off + length bs) b)]\<rparr>)"
  using assms by (simp add: vd_write_def aget_def aset_def nat_diff_distrib)

text \<open>The write of an entry, and the closing of the block behind it.\<close>

lemma put_entry:
  fixes ino :: "64 word" and ty :: byte
  assumes u: "built vd ess off" and g: "good_name n" and fits: "off + esize (length n) \<le> AUFS_DEBLK_SIZE"
  defines "e \<equiv> (ino, ty, n)" and "off' \<equiv> off + esize (length n)"
  shows "\<exists>b b0. vd_deblk vd ! (vd_nblk vd - 1) = Some b0 \<and> take off b = take off b0
     \<and> length b = length b0 \<and> length b0 = AUFS_DEBLK_SIZE
     \<and> vd_write vd (vd_nblk vd - 1, off) (le_store ino @ [ty, of_nat (length n)] @ n)
        = Some (vd\<lparr>vd_deblk := (vd_deblk vd)[vd_nblk vd - 1 := Some b]\<rparr>)
     \<and> chain b 0 (last ess @ [e]) off' \<and> take (10 + length n) (drop off b) = enc e"
proof -
  from u obtain b0 where b0: "vd_deblk vd ! (vd_nblk vd - 1) = Some b0" "holds b0 (last ess) off"
    and n: "0 < vd_nblk vd" "vd_nblk vd \<le> length (vd_deblk vd)"
    by (auto simp: built_def vd_holds_def)
  have len: "length b0 = AUFS_DEBLK_SIZE" and c: "chain b0 0 (last ess) off"
    using b0(2) by (auto simp: holds_def)
  let ?b = "take off b0 @ enc e @ drop (off + (10 + length n)) b0"
  have le: "off + (10 + length n) \<le> length b0"
    using fits esize_bounds(1) [of "length n"] len by simp
  have w: "vd_write vd (vd_nblk vd - 1, off) (enc e)
      = Some (vd\<lparr>vd_deblk := (vd_deblk vd)[vd_nblk vd - 1 := Some ?b]\<rparr>)"
    using vd_write_last [OF n(2,1) b0(1), of off "enc e"] le by (simp add: e_def)
  have tk: "take off ?b = take off b0" using le by simp
  have t: "take (10 + length n) (drop off ?b) = enc e" using le by (simp add: e_def)
  have "chain ?b 0 (last ess) off" by (rule chain_cong [OF c tk])
  moreover have "chain ?b off [e] off'"
    using g fits t by (simp only: chain.simps) (simp add: e_def off'_def)
  ultimately have "chain ?b 0 (last ess @ [e]) off'" unfolding chain_append by blast
  moreover have "length ?b = length b0" using le by (simp add: e_def)
  moreover have "enc e = le_store ino @ [ty, of_nat (length n)] @ n" by (simp add: e_def)
  ultimately show ?thesis using b0(1) tk len t w
    by (intro exI [of _ ?b] exI [of _ b0] conjI) (simp_all only:)
qed

lemma close_block:
  assumes "vd_nblk vd \<le> length (vd_deblk vd)" "0 < vd_nblk vd" "length b = AUFS_DEBLK_SIZE"
    and "off \<le> AUFS_DEBLK_SIZE" and c: "chain b 0 es off"
  shows "\<exists>b' r. set_deblk_end (set_last vd b off) (vd_nblk vd - 1, off) (vd_nblk vd - 1)
       = Some (r, set_last vd b' off)
     \<and> (r = 0 \<longleftrightarrow> off + 16 \<le> AUFS_DEBLK_SIZE) \<and> length b' = length b \<and> take off b' = take off b
     \<and> holds b' es off"
proof (cases "off + 16 \<le> AUFS_DEBLK_SIZE")
  case True
  let ?b = "take (off + 9) b @ [0] @ drop (off + 10) b"
  have sl: "vd_nblk (set_last vd b off) = vd_nblk vd"
    "vd_deblk (set_last vd b off) ! (vd_nblk vd - 1) = Some b"
    "length (vd_deblk (set_last vd b off)) = length (vd_deblk vd)"
    using assms by (simp_all add: set_last_def)
  have "vd_write (set_last vd b off) (vd_nblk vd - 1, off + 9) [0] = Some (set_last vd ?b off)"
    using vd_write_last [of "set_last vd b off" b "off + 9" "[0]"] assms True
    by (simp add: sl add.commute) (simp add: set_last_def)
  then have "set_deblk_end (set_last vd b off) (vd_nblk vd - 1, off) (vd_nblk vd - 1)
      = Some (0, set_last vd ?b off)"
    using True by (simp add: set_deblk_end_def room_left_def)
  moreover have tk: "take off ?b = take off b" using assms(3) True by simp
  moreover have "holds ?b es off"
    using chain_cong [OF c tk] assms(3) True by (simp add: holds_def blk_end_def nth_append)
  ultimately show ?thesis using True assms(3) by (intro exI [of _ ?b] exI [of _ 0]) simp
next
  case False
  then have "set_deblk_end (set_last vd b off) (vd_nblk vd - 1, off) (vd_nblk vd - 1)
      = Some (- 1, set_last vd b off)"
    by (simp add: set_deblk_end_def room_left_def)
  moreover have "holds b es off" using False assms by (simp add: holds_def blk_end_def)
  ultimately show ?thesis using False by auto
qed

text \<open>The part of \<open>append_de\<close> after the block has been chosen.\<close>

definition kmem :: "nat \<Rightarrow> int \<Rightarrow> kern \<Rightarrow> kern" where
  "kmem a l k = k\<lparr>k_alloc := k_alloc k + a, k_live := k_live k + l\<rparr>"

lemma kmem_kmem [simp]: "kmem a l (kmem b m k) = kmem (b + a) (m + l) k"
  by (simp add: kmem_def add.assoc)

lemma kmem_0 [simp]: "kmem 0 0 k = k"
  by (simp add: kmem_def)

lemma kmem_ok [simp]: "k_ok (kmem a l k) = k_ok k"
  by (simp add: kmem_def)

definition add_entry :: "aufs_vdir \<Rightarrow> byte list \<Rightarrow> 64 word \<Rightarrow> byte \<Rightarrow> kern \<Rightarrow> (int \<times> aufs_vdir \<times> kern) option" where
  "add_entry vd name ino d_type k =
     (let room = vd_last_p vd
      in do { vd \<leftarrow> vd_write vd room (le_store ino @ [d_type, of_nat (length name)] @ name);
              let room = (fst room, snd room + esize (length name));
              (err, vd) \<leftarrow> set_deblk_end (vd\<lparr>vd_last_p := room\<rparr>) room (fst room);
              (err, vd, k) \<leftarrow> (if err \<noteq> 0 then append_deblk vd k else Some (0, vd, k));
              Some (err, vd, k) })"

lemma add_entry_ok:
  assumes u: "built vd ess off" and g: "good_name n" and fits: "off + esize (length n) \<le> AUFS_DEBLK_SIZE"
    and ok: "\<forall>i. k_ok k i"
  shows "\<exists>vd' ess' off' a. add_entry vd n ino ty k = Some (0, vd', kmem a (int (vd_nblk vd') - int (vd_nblk vd)) k)
     \<and> built vd' ess' off' \<and> concat ess' = concat ess @ [(ino, ty, n)]
     \<and> vd_ext vd vd' \<and> ptr_ok vd' (vd_nblk vd - 1, off) n
     \<and> vd_nblk vd' \<le> (if off + esize (length n) + 16 \<le> AUFS_DEBLK_SIZE then vd_nblk vd else vd_nblk vd + 1)"
proof -
  let ?i = "vd_nblk vd - 1" and ?off = "off + esize (length n)" and ?e = "(ino, ty, n)"
  have n: "0 < vd_nblk vd" "vd_nblk vd \<le> length (vd_deblk vd)" "vd_last_p vd = (?i, off)" "ess \<noteq> []"
    using u by (auto simp: built_def vd_holds_def)
  have sz: "off \<le> ?off" "off + 10 + length n \<le> ?off" using esize_bounds(1) [of "length n"] by auto
  from put_entry [OF u g fits, of ino ty] obtain b b0 where
    b0: "vd_deblk vd ! ?i = Some b0" "take off b = take off b0" "length b = length b0"
      "length b0 = AUFS_DEBLK_SIZE" and
    w: "vd_write vd (?i, off) (le_store ino @ [ty, of_nat (length n)] @ n)
      = Some (vd\<lparr>vd_deblk := (vd_deblk vd)[?i := Some b]\<rparr>)" and
    c: "chain b 0 (last ess @ [?e]) ?off" and t: "take (10 + length n) (drop off b) = enc ?e" by auto
  have lb: "length b = AUFS_DEBLK_SIZE" using b0 by simp
  from close_block [OF n(2,1) lb fits c] obtain b2 r where
    cl: "set_deblk_end (set_last vd b ?off) (?i, ?off) ?i = Some (r, set_last vd b2 ?off)"
      "r = 0 \<longleftrightarrow> ?off + 16 \<le> AUFS_DEBLK_SIZE" "length b2 = length b" "take ?off b2 = take ?off b" and
    h: "holds b2 (last ess @ [?e]) ?off" by auto
  let ?vd2 = "set_last vd b2 ?off" and ?ess = "butlast ess @ [last ess @ [?e]]"
  have "take off b2 = take off b" using cl(4) sz(1) by (metis min.absorb1 take_take)
  then have ext: "vd_ext vd ?vd2" using set_last_ext [OF u b0(1)] cl(3) b0 sz by simp
  have "take (10 + length n) (drop off b2) = enc ?e"
    using take_drop_cong [OF cl(4), of off "10 + length n"] t sz by simp
  then have ptr: "ptr_ok ?vd2 (?i, off) n"
    using set_last_ptr [OF u g sz(2)] fits lb cl(3) by simp
  have "concat ess = concat (butlast ess @ [last ess])" using n(4) by simp
  then have ce: "concat ?ess = concat ess @ [?e]" by (simp only: concat_append concat.simps append_assoc append_Nil2)
  have vd2: "vd_nblk ?vd2 = vd_nblk vd" "vd_last_p ?vd2 = (?i, ?off)" by (simp_all add: set_last_def)
  have step: "add_entry vd n ino ty k =
      (if r \<noteq> 0 then append_deblk ?vd2 k else Some (0, ?vd2, k))"
    using w cl(1) n(3) by (simp add: add_entry_def set_last_def Let_def)
  show ?thesis
  proof (cases "r = 0")
    case True
    then have "built ?vd2 ?ess ?off" using set_last_holds(2) [OF u h] cl(2) by simp
    then show ?thesis using True step ce ext ptr vd2
      by (intro exI [of _ ?vd2] exI [of _ ?ess] exI [of _ ?off] exI [of _ 0]) simp
  next
    case False
    note vh = set_last_holds(1) [OF u h]
    then have "vd_nblk ?vd2 \<le> length (vd_deblk ?vd2)" by (simp add: vd_holds_def)
    from append_deblk_ok [OF this, of k] ok obtain b3 where
      b3: "append_deblk ?vd2 k = Some (0, add_blk ?vd2 b3, kmem 2 1 k)"
        "length b3 = AUFS_DEBLK_SIZE" "b3 ! 9 = 0" by (auto simp: kmem_def)
    note bu = add_blk_built [OF vh b3(2,3)]
    have e2: "vd_ext ?vd2 (add_blk ?vd2 b3)"
      by (rule add_blk_ext [OF vh]) (use vd2 n fits in simp_all)
    have "ptr_ok (add_blk ?vd2 b3) (?i, off) n"
      by (rule ptr_ok_ext [OF ptr e2])
        (use bu vd2 n in \<open>auto simp: built_def vd_holds_def vlimit_def AUFS_DEBLK_SIZE_def\<close>)
    moreover have "vd_nblk (add_blk ?vd2 b3) = vd_nblk vd + 1" by (simp add: add_blk_def vd2)
    moreover have "\<not> ?off + 16 \<le> AUFS_DEBLK_SIZE" using False cl(2) by simp
    ultimately show ?thesis using False step b3(1) bu ce vd_ext_trans [OF ext e2]
      by (intro exI [of _ "add_blk ?vd2 b3"] exI [of _ "?ess @ [[]]"] exI [of _ 0] exI [of _ 2]) simp
  qed
qed

lemma kmem_malloc: "k_ok k (k_alloc k) \<Longrightarrow> kmalloc k = (True, kmem 1 1 k)"
  by (simp add: kmalloc_def kmem_def)

lemma de_len_nth:
  assumes "i < length (vd_deblk vd)" "vd_deblk vd ! i = Some b" "off + 10 \<le> length b"
  shows "de_len vd (i, off) = Some (b ! (off + 9))"
proof -
  have "hd (take 1 (drop (off + 9) b)) = b ! (off + 9)"
    using assms(3) by (simp add: hd_drop_conv_nth)
  then show ?thesis using assms by (simp add: de_len_def vd_read_def buf_read_def)
qed

lemma de_name_take:
  assumes "i < length (vd_deblk vd)" "vd_deblk vd ! i = Some b" "off + 10 + l \<le> length b"
  shows "de_name vd (i, off) l = Some (take l (drop (off + 10) b))"
  using assms by (simp add: de_name_def vd_read_def buf_read_def de_head_def)

lemma append_de_built:
  assumes u: "built vd ess off" and g: "good_name n" and ok: "\<forall>i. k_ok k i"
    and dl: "aget delist (int (au_name_hash fnh n)) = Some head"
  shows "\<exists>vd' ess' off' room a. append_de fnh vd n ino ty delist k
       = Some (0, vd', delist[au_name_hash fnh n := room # head],
           kmem a (1 + (int (vd_nblk vd') - int (vd_nblk vd))) k)
     \<and> built vd' ess' off' \<and> concat ess' = concat ess @ [(ino, ty, n)]
     \<and> vd_ext vd vd' \<and> ptr_ok vd' room n \<and> vd_nblk vd' \<le> vd_nblk vd + 1"
proof -
  let ?i = "vd_nblk vd - 1" and ?sz = "esize (length n)" and ?h = "au_name_hash fnh n"
  have n: "0 < vd_nblk vd" "vd_nblk vd \<le> length (vd_deblk vd)" "vd_last_p vd = (?i, off)"
    "off + 16 \<le> AUFS_DEBLK_SIZE" and vh: "vd_holds vd ess"
    using u by (auto simp: built_def vd_holds_def)
  from u obtain b where b: "vd_deblk vd ! ?i = Some b" "holds b (last ess) off"
    by (auto simp: built_def)
  have "de_len vd (?i, off) = Some (b ! (off + 9))"
    using n b by (intro de_len_nth) (auto simp: holds_def)
  then have e: "is_deblk_end vd (?i, off) ?i = Some True"
    using b(2) n(4) by (auto simp: is_deblk_end_def room_left_def holds_def blk_end_def)
  have l: "last_deblk v = Some (vd_nblk v - 1, 0)"
    if "0 < vd_nblk v" "vd_nblk v \<le> length (vd_deblk v)" for v
    using that by (simp add: last_deblk_def aget_def)
  have hd: "aset delist (int ?h) x = Some (delist[?h := x])" for x
    using dl by (simp add: aget_def aset_def split: if_splits)
  have fit: "esize (length n) \<le> AUFS_DEBLK_SIZE"
    using g esize_bounds(2) [of "length n"] by (simp add: good_name_def AUFS_DEBLK_SIZE_def)
  have tail: "append_de fnh vd n ino ty delist k =
      do { (err, vd', k) \<leftarrow> (if int AUFS_DEBLK_SIZE - int off < int ?sz then append_deblk vd k
                             else Some (0, vd, k));
           if err \<noteq> 0 then Some (err, vd', delist, k)
           else append_de_at fnh (int AUFS_DEBLK_SIZE - int off < int ?sz) vd' n ino ty (int ?sz) delist k }"
    unfolding append_de_def
    by (simp only: n l [OF n(1,2)] bind.simps Let_def fst_conv snd_conv e debug_on_bind calc_size_nat
        room_left_def if_True if_False not_True_eq_False) (use n(4) in simp)
  have fin: "append_de fnh vd n ino ty delist k =
      map_option (\<lambda>(err, v, k'). (err, v, delist[?h := vd_last_p vd' # head], k'))
        (add_entry vd' n ino ty (kmem 1 1 k'))"
    if "(if int AUFS_DEBLK_SIZE - int off < int ?sz then append_deblk vd k else Some (0, vd, k))
        = Some (0, vd', k')" "built vd' es' off'" "\<forall>i. k_ok k' i"
      "int AUFS_DEBLK_SIZE - int off < int ?sz \<Longrightarrow> off' = 0" for vd' es' off' k'
  proof -
    have v: "0 < vd_nblk vd'" "vd_nblk vd' \<le> length (vd_deblk vd')"
      "vd_last_p vd' = (vd_nblk vd' - 1, off')"
      using that(2) by (auto simp: built_def vd_holds_def)
    have km: "kmalloc k' = (True, kmem 1 1 k')" using that(3) by (simp add: kmem_malloc)
    have "append_de_at fnh g vd' n ino ty (int ?sz) delist k' =
      map_option (\<lambda>(err, v, k'). (err, v, delist[?h := vd_last_p vd' # head], k'))
        (add_entry vd' n ino ty (kmem 1 1 k'))" if "g \<Longrightarrow> off' = 0" for g
      unfolding append_de_at_def add_entry_def Let_def km split l [OF v(1,2)] dl bind.simps hd
      using that v(3) by (auto simp: map_option_bind bind_Some_map option.map_ident split_def intro!: bind_option_cong)
    then show ?thesis
      unfolding tail that(1) using that(4) by simp
  qed
  show ?thesis
  proof (cases "off + ?sz \<le> AUFS_DEBLK_SIZE")
    case True
    then have f: "append_de fnh vd n ino ty delist k =
      map_option (\<lambda>(err, v, k'). (err, v, delist[?h := (?i, off) # head], k'))
        (add_entry vd n ino ty (kmem 1 1 k))"
      using fin [of vd k ess off] u ok n(3) by simp
    have "\<forall>i. k_ok (kmem 1 1 k) i" using ok by simp
    from add_entry_ok [OF u g True this, of ino ty] obtain vd' ess' off' a where
      "add_entry vd n ino ty (kmem 1 1 k)
        = Some (0, vd', kmem a (int (vd_nblk vd') - int (vd_nblk vd)) (kmem 1 1 k))"
      "built vd' ess' off'" "concat ess' = concat ess @ [(ino, ty, n)]" "vd_ext vd vd'"
      "ptr_ok vd' (?i, off) n" "vd_nblk vd' \<le> vd_nblk vd + 1" by (auto split: if_splits)
    then show ?thesis unfolding f
      by (intro exI [of _ vd'] exI [of _ ess'] exI [of _ off'] exI [of _ "(?i, off)"] exI [of _ "1 + a"])
        simp
  next
    case False
    from append_deblk_ok [OF n(2), of k] ok obtain b1 where
      b1: "append_deblk vd k = Some (0, add_blk vd b1, kmem 2 1 k)" "length b1 = AUFS_DEBLK_SIZE"
        "b1 ! 9 = 0" by (auto simp: kmem_def)
    let ?v = "add_blk vd b1"
    note bu = add_blk_built [OF vh b1(2,3)]
    have nv: "vd_nblk ?v = vd_nblk vd + 1" "vd_last_p ?v = (vd_nblk vd, 0)" by (simp_all add: add_blk_def)
    have f: "append_de fnh vd n ino ty delist k =
      map_option (\<lambda>(err, v, k'). (err, v, delist[?h := (vd_nblk vd, 0) # head], k'))
        (add_entry ?v n ino ty (kmem 1 1 (kmem 2 1 k)))"
      using fin [of ?v "kmem 2 1 k" "ess @ [[]]" 0] bu ok b1(1) False nv(2) by simp
    have ok': "\<forall>i. k_ok (kmem 1 1 (kmem 2 1 k)) i" using ok by simp
    have fit0: "0 + ?sz \<le> AUFS_DEBLK_SIZE" using fit by simp
    from add_entry_ok [OF bu g fit0 ok', of ino ty] obtain vd' ess' off' a where
      ae: "add_entry ?v n ino ty (kmem 1 1 (kmem 2 1 k))
        = Some (0, vd', kmem a (int (vd_nblk vd') - int (vd_nblk ?v)) (kmem 1 1 (kmem 2 1 k)))"
      "built vd' ess' off'" "concat ess' = concat (ess @ [[]]) @ [(ino, ty, n)]" "vd_ext ?v vd'"
      "ptr_ok vd' (vd_nblk ?v - 1, 0) n" "vd_nblk vd' \<le> vd_nblk ?v"
      using g esize_bounds(2) [of "length n"] by (auto simp: good_name_def AUFS_DEBLK_SIZE_def)
    have "vd_ext vd vd'"
      using vd_ext_trans [OF add_blk_ext [OF vh, of b1] ae(4)] n by simp
    then show ?thesis unfolding f using ae nv
      by (intro exI [of _ vd'] exI [of _ ess'] exI [of _ off'] exI [of _ "(vd_nblk vd, 0)"] exI [of _ "3 + a"])
        simp
  qed
qed

section \<open>The table of the names of a listing\<close>

lemma known_in_names:
  "list_all2 (ptr_ok vd) ps ns \<Longrightarrow> known_in vd name ps = Some (name \<in> set ns)"
proof (induction ps ns rule: list_all2_induct)
  case Nil
  then show ?case by simp
next
  case (Cons p ps n ns)
  then obtain b where b: "vd_deblk vd ! fst p = Some b" "length b = AUFS_DEBLK_SIZE"
      "b ! (snd p + 9) = of_nat (length n)" "take (length n) (drop (snd p + 10) b) = n"
    and p: "fst p < length (vd_deblk vd)" "good_name n" "snd p + 10 + length n \<le> length b"
    by (auto simp: ptr_ok_def)
  have "de_len vd p = Some (of_nat (length n))"
    using de_len_nth [OF p(1) b(1), of "snd p"] p(3) b(3) by simp
  moreover have "de_name vd p (length n) = Some n"
    using de_name_take [OF p(1) b(1), of "snd p" "length n"] p b by simp
  ultimately show ?case using Cons.IH good_name_len [OF p(2)] by auto
qed

definition dl_ok :: "(byte list \<Rightarrow> 32 word) \<Rightarrow> aufs_vdir \<Rightarrow> deblk_p list list \<Rightarrow> byte list set \<Rightarrow> bool" where
  "dl_ok fnh vd dl N \<longleftrightarrow> length dl = AUFS_NHASH_SIZE
     \<and> (\<forall>h < AUFS_NHASH_SIZE. \<exists>ns. list_all2 (ptr_ok vd) (dl ! h) ns
          \<and> set ns = {n \<in> N. au_name_hash fnh n = h})"

lemma au_name_hash_less [simp]: "au_name_hash fnh n < AUFS_NHASH_SIZE"
  by (simp add: au_name_hash_def AUFS_NHASH_SIZE_def)

lemma dl_ok_init: "dl_ok fnh vd nhash_init {}"
  by (simp add: dl_ok_def nhash_init_def)

lemma test_known_ok: "dl_ok fnh vd dl N \<Longrightarrow> test_known fnh vd dl n = Some (n \<in> N)"
proof -
  let ?h = "au_name_hash fnh n"
  assume a: "dl_ok fnh vd dl N"
  then obtain ns where ns: "list_all2 (ptr_ok vd) (dl ! ?h) ns" "set ns = {m \<in> N. au_name_hash fnh m = ?h}"
    using au_name_hash_less [of fnh n] unfolding dl_ok_def by blast
  have "aget dl (int ?h) = Some (dl ! ?h)" using a by (simp add: dl_ok_def)
  then show ?thesis using known_in_names [OF ns(1), of n] ns(2) by (simp add: test_known_def)
qed

lemma dl_ok_ext:
  assumes "dl_ok fnh vd dl N" and "vd_ext vd vd'" and "built vd' ess off"
  shows "dl_ok fnh vd' dl N"
proof -
  have "ptr_ok vd p n \<Longrightarrow> ptr_ok vd' p n" for p n
    using assms(3) by (rule_tac ptr_ok_ext [OF _ assms(2)])
      (auto simp: built_def vd_holds_def vlimit_def AUFS_DEBLK_SIZE_def)
  then have "list_all2 (ptr_ok vd) ps ns \<Longrightarrow> list_all2 (ptr_ok vd') ps ns" for ps ns
    by (auto elim: list_all2_mono)
  with assms(1) show ?thesis unfolding dl_ok_def by blast
qed

lemma dl_ok_add:
  assumes d: "dl_ok fnh vd dl N" and p: "ptr_ok vd room n"
  shows "dl_ok fnh vd (dl[au_name_hash fnh n := room # dl ! au_name_hash fnh n]) (insert n N)"
  unfolding dl_ok_def
proof (intro conjI allI impI)
  let ?h = "au_name_hash fnh n"
  show "length (dl[?h := room # dl ! ?h]) = AUFS_NHASH_SIZE" using d by (simp add: dl_ok_def)
  fix h assume h: "h < AUFS_NHASH_SIZE"
  with d obtain ns where ns: "list_all2 (ptr_ok vd) (dl ! h) ns" "set ns = {m \<in> N. au_name_hash fnh m = h}"
    unfolding dl_ok_def by blast
  have hd: "h < length dl" using d h by (simp add: dl_ok_def)
  show "\<exists>ns. list_all2 (ptr_ok vd) (dl[?h := room # dl ! ?h] ! h) ns
      \<and> set ns = {m \<in> insert n N. au_name_hash fnh m = h}"
  proof (cases "h = ?h")
    case True
    then show ?thesis using ns p hd by (intro exI [of _ "n # ns"]) auto
  next
    case False
    then show ?thesis using ns hd by (intro exI [of _ ns]) auto
  qed
qed

section \<open>Fresh caches\<close>

lemma alloc_vdir_ok:
  assumes "\<forall>i. k_ok k i"
  shows "\<exists>vd. alloc_vdir k = Some (Inr vd, kmem 4 3 k) \<and> built vd [[]] 0
     \<and> vd_version vd = 0 \<and> vd_jiffy vd = 0 \<and> vd_last_i vd = 0"
proof -
  let ?v = "\<lparr>vd_deblk = [None], vd_nblk = 0, vd_last_i = 0, vd_last_p = (0, 0),
    vd_version = 0, vd_jiffy = 0\<rparr>"
  have h: "vd_holds ?v []" by (simp add: vd_holds_def)
  from append_deblk_ok [of ?v "kmem 2 2 k"] assms obtain b where
    b: "append_deblk ?v (kmem 2 2 k) = Some (0, add_blk ?v b, kmem 2 1 (kmem 2 2 k))"
      "length b = AUFS_DEBLK_SIZE" "b ! 9 = 0" by (auto simp: kmem_def)
  have "alloc_vdir k = Some (Inr (add_blk ?v b), kmem 4 3 k)"
    using assms b(1) by (simp add: alloc_vdir_def kmem_malloc numeral_2_eq_2 [symmetric])
  then show ?thesis using add_blk_built [OF h b(2,3)] by (auto simp: add_blk_def)
qed

lemma trim_deblks_ok:
  assumes "vd_nblk vd \<le> length (vd_deblk vd)" and "0 < vd_nblk vd" and "vd_nblk vd \<le> Suc n"
    and "\<forall>i < vd_nblk vd. vd_deblk vd ! i \<noteq> None"
  shows "\<exists>arr. trim_deblks n vd k = Some (vd\<lparr>vd_deblk := arr, vd_nblk := 1\<rparr>,
       kmem 0 (1 - int (vd_nblk vd)) k) \<and> length arr = length (vd_deblk vd) \<and> arr ! 0 = vd_deblk vd ! 0"
  using assms
proof (induction n arbitrary: vd k)
  case 0
  then have "vd_nblk vd = 1" by simp
  then show ?case by (intro exI [of _ "vd_deblk vd"]) simp
next
  case (Suc n)
  show ?case
  proof (cases "1 < vd_nblk vd")
    case False
    with Suc.prems have "vd_nblk vd = 1" by simp
    then show ?thesis by (intro exI [of _ "vd_deblk vd"]) simp
  next
    case True
    let ?l = "vd_nblk vd - 1"
    let ?v = "vd\<lparr>vd_deblk := (vd_deblk vd)[?l := None], vd_nblk := ?l\<rparr>"
    have l: "?l < length (vd_deblk vd)" "nat (int (vd_nblk vd) - 1) = ?l"
      "0 \<le> int (vd_nblk vd) - 1" "int (vd_nblk vd) - 1 < int (length (vd_deblk vd))"
      using True Suc.prems by auto
    obtain x where x: "vd_deblk vd ! ?l = Some x" using Suc.prems True by force
    have step: "trim_deblks (Suc n) vd k = trim_deblks n ?v (kmem 0 (- 1) k)"
      using True l x by (simp add: aget_def aset_def kfree_def kmem_def)
    have pre: "vd_nblk vd - Suc 0 \<le> length (vd_deblk vd)" "vd_nblk vd - Suc 0 \<le> Suc n"
      using Suc.prems by auto
    from Suc.IH [of ?v "kmem 0 (- 1) k"] Suc.prems pre True obtain arr where
      "trim_deblks n ?v (kmem 0 (- 1) k) = Some (?v\<lparr>vd_deblk := arr, vd_nblk := 1\<rparr>,
         kmem 0 (1 - int ?l) (kmem 0 (- 1) k))"
      "length arr = length (vd_deblk vd)" "arr ! 0 = (vd_deblk vd)[?l := None] ! 0"
      by auto
    then show ?thesis using step True by (intro exI [of _ arr]) (simp add: of_nat_diff)
  qed
qed

lemma reinit_vdir_ok:
  assumes h: "vd_holds vd ess" and n: "0 < vd_nblk vd"
  shows "\<exists>vd'. reinit_vdir vd k = Some (0, vd', kmem 0 (1 - int (vd_nblk vd)) k)
     \<and> built vd' [[]] 0 \<and> vd_nblk vd' = 1 \<and> vd_version vd' = 0 \<and> vd_jiffy vd' = 0 \<and> vd_last_i vd' = 0"
proof -
  from h obtain b o0 where b: "vd_deblk vd ! 0 = Some b" "holds b (ess ! 0) o0"
    using n by (auto simp: vd_holds_def)
  from h n trim_deblks_ok [of vd "vd_nblk vd" k] obtain arr where
    t: "trim_deblks (vd_nblk vd) vd k = Some (vd\<lparr>vd_deblk := arr, vd_nblk := 1\<rparr>,
       kmem 0 (1 - int (vd_nblk vd)) k)" and arr: "length arr = length (vd_deblk vd)" "arr ! 0 = Some b"
    using b(1) unfolding vd_holds_def by force
  let ?v = "vd\<lparr>vd_deblk := arr, vd_nblk := 1\<rparr>"
  let ?b = "take 9 b @ [0] @ drop 10 b"
  have len: "length b = 512" "0 < length arr"
    using b(2) arr h n by (auto simp: holds_def vd_holds_def AUFS_DEBLK_SIZE_def)
  have "set_deblk_end ?v (0, 0) 0 = Some (0, ?v\<lparr>vd_deblk := arr[0 := Some ?b]\<rparr>)"
    using arr len by (simp add: set_deblk_end_def room_left_def vd_write_def AUFS_DEBLK_SIZE_def)
  then have "reinit_vdir vd k = Some (0, ?v\<lparr>vd_deblk := arr[0 := Some ?b], vd_version := 0,
      vd_jiffy := 0, vd_last_i := 0, vd_last_p := (0, 0)\<rparr>, kmem 0 (1 - int (vd_nblk vd)) k)"
    using t by (simp add: reinit_vdir_def)
  moreover have "holds ?b [] 0"
    using len by (simp add: holds_def blk_end_def AUFS_DEBLK_SIZE_def nth_append)
  then have "built (?v\<lparr>vd_deblk := arr[0 := Some ?b], vd_version := 0, vd_jiffy := 0,
      vd_last_i := 0, vd_last_p := (0, 0)\<rparr>) [[]] 0"
    using len by (auto simp: built_def vd_holds_def AUFS_DEBLK_SIZE_def Suc_le_eq)
  ultimately show ?thesis by auto
qed

section \<open>Properties\<close>

text \<open>C35.
  Appending an entry with a name of 1 to 255 bytes to a cache under construction
  puts it behind the entries already there, as a list: no entry is lost, changed or
  split over two blocks whatever room the last block has, the new place is valid
  again, the name table gains one pointer, no assertion fires, and the only
  allocations are that pointer's node and the new blocks.
\<close>

theorem append_de_appends:
  assumes "built vd ess off" and "good_name n" and "\<forall>i. k_ok k i" and "dl_ok fnh vd delist N"
  shows "\<exists>vd' delist' k' ess' off'. append_de fnh vd n ino ty delist k = Some (0, vd', delist', k')
     \<and> vd_ents vd' = vd_ents vd @ [(ino, ty, n)] \<and> built vd' ess' off'
     \<and> dl_ok fnh vd' delist' (insert n N)
     \<and> k_live k' = k_live k + 1 + (int (vd_nblk vd') - int (vd_nblk vd))"
proof -
  have hd: "aget delist (int (au_name_hash fnh n)) = Some (delist ! au_name_hash fnh n)"
    using assms(4) by (simp add: dl_ok_def)
  from append_de_built [OF assms(1-3) hd, of ino ty] obtain vd' ess' off' room a where
    "append_de fnh vd n ino ty delist k = Some (0, vd',
       delist[au_name_hash fnh n := room # delist ! au_name_hash fnh n],
       kmem a (1 + (int (vd_nblk vd') - int (vd_nblk vd))) k)"
    "built vd' ess' off'" "concat ess' = concat ess @ [(ino, ty, n)]" "vd_ext vd vd'" "ptr_ok vd' room n"
    by blast
  moreover from this have "dl_ok fnh vd' (delist[au_name_hash fnh n := room # delist ! au_name_hash fnh n])
      (insert n N)"
    using dl_ok_add [OF dl_ok_ext [OF assms(4)]] by blast
  ultimately show ?thesis using assms(1) by (auto simp: built_ents kmem_def)
qed

lemma kern0_ok: "\<forall>i. k_ok kern0 i"
  by (simp add: kern0_def)

theorem append_de_appends_witness:
  "\<exists>vd k vd' dl k'. alloc_vdir kern0 = Some (Inr vd, k)
     \<and> append_de (\<lambda>n. of_nat (length n)) vd [97, 98] 5 8 nhash_init k = Some (0, vd', dl, k')
     \<and> vd_ents vd' = [(5, 8, [97, 98])]"
proof -
  from alloc_vdir_ok [OF kern0_ok] obtain vd where
    vd: "alloc_vdir kern0 = Some (Inr vd, kmem 4 3 kern0)" "built vd [[]] 0" by blast
  have "\<forall>i. k_ok (kmem 4 3 kern0) i" using kern0_ok by simp
  from append_de_appends [OF vd(2) _ this dl_ok_init, of "[97, 98]" "\<lambda>n. of_nat (length n)" 5 8]
  show ?thesis using vd by (fastforce simp: good_name_def built_ents)
qed

end
