(* ===== verification/Aufs_Slots.thy ===== *)
theory Aufs_Slots
  imports Aufs_Types
begin

text \<open>
  The interface the three info structures share: an array of slots of which a
  range is in use, each slot empty or owning a reference, and an operation that
  empties a slot and gives its reference back. dinfo.c, iinfo.c and finfo.c provide
  it; the loops that sweep a range (at file release, at branch removal and when
  the range is narrowed) are its clients.
\<close>

lemma card_range_step:
  fixes l h :: int
  assumes "l \<le> h"
  shows "card {j. l \<le> j \<and> j < h + 1 \<and> Q j} = card {j. l \<le> j \<and> j < h \<and> Q j} + (if Q h then 1 else 0)"
proof -
  have fin: "finite {j. l \<le> j \<and> j < h \<and> Q j}"
    by (rule finite_subset [of _ "{l..<h}"]) auto
  have "{j. l \<le> j \<and> j < h + 1 \<and> Q j}
      = (if Q h then insert h {j. l \<le> j \<and> j < h \<and> Q j} else {j. l \<le> j \<and> j < h \<and> Q j})"
    using assms by (auto simp: order_less_le)
  then show ?thesis using fin by simp
qed

locale info_slots =
  fixes slot :: "'s \<Rightarrow> int \<Rightarrow> 'a option"
    and lo :: "'s \<Rightarrow> int"
    and hi :: "'s \<Rightarrow> int"
    and refs :: "'s \<Rightarrow> 'a \<Rightarrow> int"
    and clear :: "int \<Rightarrow> 's \<Rightarrow> 's option"
    and invar :: "'s \<Rightarrow> bool"
  assumes clear_ok: "invar s \<Longrightarrow> 0 \<le> lo s \<Longrightarrow> lo s \<le> i \<Longrightarrow> i \<le> hi s \<Longrightarrow>
      \<exists>t. clear i s = Some t \<and> invar t \<and> lo t = lo s \<and> hi t = hi s
        \<and> (\<forall>j. slot t j = (if j = i then None else slot s j))
        \<and> (\<forall>a. refs t a = refs s a - (if slot s i = Some a then 1 else 0))"
begin

text \<open>What a sweep with the test \<open>P\<close> over the indexes from \<open>l\<close> to below \<open>h\<close> has done.\<close>

definition swept :: "('a \<Rightarrow> bool) \<Rightarrow> int \<Rightarrow> int \<Rightarrow> 's \<Rightarrow> 's \<Rightarrow> bool" where
  "swept P l h s t \<longleftrightarrow> invar t \<and> lo t = lo s \<and> hi t = hi s
     \<and> (\<forall>j. slot t j =
          (if l \<le> j \<and> j < h \<and> (\<exists>a. slot s j = Some a \<and> P a) then None else slot s j))
     \<and> (\<forall>a. refs t a = refs s a - int (card {j. l \<le> j \<and> j < h \<and> slot s j = Some a \<and> P a}))"

lemma swept_refl: "invar s \<Longrightarrow> swept P l l s s"
proof -
  have "{j. l \<le> j \<and> j < l \<and> slot s j = Some a \<and> P a} = {}" for a by auto
  then show "invar s \<Longrightarrow> swept P l l s s" by (simp only: swept_def) auto
qed

lemma swept_skip:
  assumes "swept P l h s t" and "l \<le> h" and "\<not> (\<exists>a. slot s h = Some a \<and> P a)"
  shows "swept P l (h + 1) s t"
proof -
  have e: "(l \<le> j \<and> j < h + 1 \<and> (\<exists>a. slot s j = Some a \<and> P a))
      = (l \<le> j \<and> j < h \<and> (\<exists>a. slot s j = Some a \<and> P a))" for j
    using assms(3) by (cases "j = h") auto
  have c: "card {j. l \<le> j \<and> j < h + 1 \<and> slot s j = Some a \<and> P a}
      = card {j. l \<le> j \<and> j < h \<and> slot s j = Some a \<and> P a}" for a
    using card_range_step [OF assms(2), of "\<lambda>j. slot s j = Some a \<and> P a"] assms(3) by auto
  from assms(1) show ?thesis unfolding swept_def e c .
qed

lemma swept_clear:
  assumes sw: "swept P l h s t" and "0 \<le> lo s" "lo s \<le> l" "l \<le> h" "h \<le> hi s"
    and pa: "slot s h = Some a" "P a"
  shows "\<exists>u. clear h t = Some u \<and> swept P l (h + 1) s u"
proof -
  from sw have t: "invar t" "lo t = lo s" "hi t = hi s"
    and sl: "\<And>j. slot t j =
      (if l \<le> j \<and> j < h \<and> (\<exists>a. slot s j = Some a \<and> P a) then None else slot s j)"
    and rf: "\<And>a. refs t a = refs s a - int (card {j. l \<le> j \<and> j < h \<and> slot s j = Some a \<and> P a})"
    by (auto simp: swept_def)
  obtain u where u: "clear h t = Some u" "invar u" "lo u = lo t" "hi u = hi t"
    and su: "\<And>j. slot u j = (if j = h then None else slot t j)"
    and ru: "\<And>b. refs u b = refs t b - (if slot t h = Some b then 1 else 0)"
    using clear_ok [of t h] t assms by auto
  have th: "slot t h = Some a" using pa by (simp add: sl)
  have "slot u j = (if l \<le> j \<and> j < h + 1 \<and> (\<exists>a. slot s j = Some a \<and> P a) then None else slot s j)" for j
    using pa assms(4) by (cases "j = h") (auto simp: su sl)
  moreover have "refs u b
      = refs s b - int (card {j. l \<le> j \<and> j < h + 1 \<and> slot s j = Some b \<and> P b})" for b
    using pa card_range_step [OF assms(4), of "\<lambda>j. slot s j = Some b \<and> P b"]
    by (auto simp: ru rf th)
  ultimately show ?thesis using u t by (auto simp: swept_def)
qed

text \<open>
  The sweep as the code writes it: a loop that empties the slots whose content
  passes a test. Each reference of the range that passes is given back once.
\<close>

lemma sweep_prefix:
  assumes "invar s" "0 \<le> lo s" "lo s \<le> m" "m \<le> hi s + 1"
    and body: "\<And>i t. lo s \<le> i \<Longrightarrow> i < m \<Longrightarrow> swept P (lo s) i s t \<Longrightarrow>
       f i t = (if \<exists>a. slot s i = Some a \<and> P a then map_option (Pair True) (clear i t)
                else Some (True, t))"
  shows "\<exists>t. for_up f (lo s) (hi s) s = for_up f m (hi s) t \<and> swept P (lo s) m s t"
proof (rule for_up_prefix [of "\<lambda>i. swept P (lo s) i s"])
  show "swept P (lo s) (lo s) s s" by (rule swept_refl) (fact assms)
  show "lo s \<le> m" "m \<le> hi s + 1" by (fact assms)+
  fix i t assume i: "lo s \<le> i" "i < m" and sw: "swept P (lo s) i s t"
  show "\<exists>u. f i t = Some (True, u) \<and> swept P (lo s) (i + 1) s u"
  proof (cases "\<exists>a. slot s i = Some a \<and> P a")
    case True
    then obtain a where a: "slot s i = Some a" "P a" by auto
    have "i \<le> hi s" using i assms(4) by simp
    from swept_clear [OF sw assms(2) order_refl i(1) this a] obtain u where
      "clear i t = Some u" "swept P (lo s) (i + 1) s u" by auto
    with True show ?thesis by (simp add: body [OF i sw])
  next
    case False
    then have "f i t = Some (True, t)" by (simp only: body [OF i sw] if_False)
    with swept_skip [OF sw i(1) False] show ?thesis by simp
  qed
qed

lemma sweep_loop:
  assumes "invar s" "0 \<le> lo s" "lo s \<le> hi s"
    and "\<And>i t. lo s \<le> i \<Longrightarrow> i \<le> hi s \<Longrightarrow> swept P (lo s) i s t \<Longrightarrow>
       f i t = (if \<exists>a. slot s i = Some a \<and> P a then map_option (Pair True) (clear i t)
                else Some (True, t))"
  shows "\<exists>t. for_up f (lo s) (hi s) s = Some t \<and> swept P (lo s) (hi s + 1) s t"
  using sweep_prefix [of s "hi s + 1" P f] assms by force

end

end
