(* ===== verification/Aufs_Dinfo.thy ===== *)
theory Aufs_Dinfo
  imports Aufs_Super Aufs_Slots
begin

text \<open>
  The info structure of a dentry (dinfo.c): the array of hidden dentries, the
  range \<open>di_bstart..di_bend\<close> of branches in use, the branch of the whiteout and of
  the opaque mark. Every accessor goes through \<open>dtodi\<close>, whose assertion is part of
  the model. The setters return the changed dentry, the ones that release a
  hidden dentry also the changed store.
\<close>

definition au_alloc_dinfo ::
    "aufs_sb \<Rightarrow> aufs_dentry \<Rightarrow> kern \<Rightarrow> (int \<times> aufs_dentry \<times> kern) option" where
  "au_alloc_dinfo sb dentry k =
     do { _ \<leftarrow> debug_on (d_fsdata dentry \<noteq> None);
          (let (ok, k) = kmalloc k
           in if ok
              then let nbr = sbend sb + 1;
                       nbr = (if nbr = 0 then nbr + 1 else nbr);
                       (ok, k) = kmalloc k
                   in if ok
                      then Some (0, dentry\<lparr>d_fsdata := Some
                             \<lparr>di_generation = si_generation sb, di_bstart = - 1, di_bend = - 1,
                              di_bwh = - 1, di_bdiropq = - 1,
                              di_hdentry = replicate (nat nbr) None, di_reval = 0\<rparr>\<rparr>, k)
                      else Some (- ENOMEM, dentry, kfree k)
              else Some (- ENOMEM, dentry, k)) }"

definition dtodi :: "aufs_dentry \<Rightarrow> aufs_dinfo option" where
  "dtodi dentry =
     do { dinfo \<leftarrow> d_fsdata dentry;
          _ \<leftarrow> debug_on (di_bend dinfo < di_bstart dinfo
                 \<or> (0 \<le> di_bdiropq dinfo \<and> di_bdiropq dinfo < di_bstart dinfo));
          Some dinfo }"

definition upd_di :: "(aufs_dinfo \<Rightarrow> aufs_dinfo) \<Rightarrow> aufs_dentry \<Rightarrow> aufs_dentry option" where
  "upd_di f dentry = do { di \<leftarrow> dtodi dentry; Some (dentry\<lparr>d_fsdata := Some (f di)\<rparr>) }"

text \<open>\<open>d_inode && d_inode->i_mode && !S_ISDIR(d_inode->i_mode)\<close>\<close>

definition not_dir :: "aufs_dentry \<Rightarrow> bool" where
  "not_dir dentry = (case d_imode dentry of None \<Rightarrow> False | Some m \<Rightarrow> m \<noteq> 0 \<and> \<not> S_ISDIR m)"

definition dbstart :: "aufs_dentry \<Rightarrow> int option" where
  "dbstart dentry = map_option di_bstart (dtodi dentry)"

definition dbend :: "aufs_dentry \<Rightarrow> int option" where
  "dbend dentry = map_option di_bend (dtodi dentry)"

definition dbwh :: "aufs_dentry \<Rightarrow> int option" where
  "dbwh dentry = map_option di_bwh (dtodi dentry)"

definition dbdiropq :: "aufs_dentry \<Rightarrow> int option" where
  "dbdiropq dentry =
     do { _ \<leftarrow> debug_on (not_dir dentry); di \<leftarrow> dtodi dentry; Some (di_bdiropq di) }"

text \<open>
  \<open>au_h_dptr_i\<close> gives a null pointer below the start of the range. The outer
  option is the crash convention, the inner one the pointer.
\<close>

definition au_h_dptr_i :: "kern \<Rightarrow> aufs_dentry \<Rightarrow> int \<Rightarrow> nat option option" where
  "au_h_dptr_i k dentry bindex =
     do { di \<leftarrow> dtodi dentry;
          if di_bstart di < 0 \<or> bindex < di_bstart di then Some None
          else do { _ \<leftarrow> debug_on (bindex < 0);
                    d \<leftarrow> aget (di_hdentry di) bindex;
                    _ \<leftarrow> debug_on (case d of None \<Rightarrow> False | Some p \<Rightarrow> k_dcount k p \<le> 0);
                    Some d } }"

definition au_h_dptr :: "kern \<Rightarrow> aufs_dentry \<Rightarrow> nat option option" where
  "au_h_dptr k dentry = do { b \<leftarrow> dbstart dentry; au_h_dptr_i k dentry b }"

definition dbtail :: "aufs_dentry \<Rightarrow> int option" where
  "dbtail dentry =
     do { bend \<leftarrow> dbend dentry;
          if 0 \<le> bend
          then do { bwh \<leftarrow> dbwh dentry;
                    if bwh = 0 then Some bwh
                    else if 0 < bwh \<and> bwh < bend then Some (bwh - 1)
                    else Some bend }
          else Some bend }"

definition dbtaildir :: "aufs_dentry \<Rightarrow> int option" where
  "dbtaildir dentry =
     do { _ \<leftarrow> debug_on (not_dir dentry);
          bend \<leftarrow> dbtail dentry;
          if 0 \<le> bend
          then do { bopq \<leftarrow> dbdiropq dentry;
                    _ \<leftarrow> debug_on (bend < bopq);
                    if 0 \<le> bopq \<and> bopq < bend then Some bopq else Some bend }
          else Some bend }"

definition dbtail_generic :: "aufs_dentry \<Rightarrow> int option" where
  "dbtail_generic dentry =
     (case d_imode dentry of
        None \<Rightarrow> dbtail dentry
      | Some m \<Rightarrow> if S_ISDIR m then dbtaildir dentry else dbtail dentry)"

definition set_dbstart :: "aufs_sb \<Rightarrow> aufs_dentry \<Rightarrow> int \<Rightarrow> aufs_dentry option" where
  "set_dbstart sb dentry bindex =
     do { _ \<leftarrow> debug_on (sbend sb < bindex); upd_di (di_bstart_update (\<lambda>_. bindex)) dentry }"

definition set_dbend :: "aufs_sb \<Rightarrow> aufs_dentry \<Rightarrow> int \<Rightarrow> aufs_dentry option" where
  "set_dbend sb dentry bindex =
     do { bstart \<leftarrow> dbstart dentry;
          _ \<leftarrow> debug_on (sbend sb < bindex \<or> bindex < bstart);
          upd_di (di_bend_update (\<lambda>_. bindex)) dentry }"

definition set_dbwh :: "aufs_sb \<Rightarrow> aufs_dentry \<Rightarrow> int \<Rightarrow> aufs_dentry option" where
  "set_dbwh sb dentry bindex =
     do { _ \<leftarrow> debug_on (sbend sb < bindex); upd_di (di_bwh_update (\<lambda>_. bindex)) dentry }"

definition set_dbdiropq :: "aufs_sb \<Rightarrow> aufs_dentry \<Rightarrow> int \<Rightarrow> aufs_dentry option" where
  "set_dbdiropq sb dentry bindex =
     do { _ \<leftarrow> debug_on (sbend sb < bindex);
          bstart \<leftarrow> dbstart dentry;
          bend \<leftarrow> dbend dentry;
          _ \<leftarrow> debug_on ((bindex \<noteq> - 1 \<and> (bindex < bstart \<or> bend < bindex)) \<or> not_dir dentry);
          upd_di (di_bdiropq_update (\<lambda>_. bindex)) dentry }"

definition set_h_dptr ::
    "aufs_dentry \<Rightarrow> int \<Rightarrow> nat option \<Rightarrow> kern \<Rightarrow> (aufs_dentry \<times> kern) option" where
  "set_h_dptr dentry bindex h_dentry k =
     do { di \<leftarrow> dtodi dentry;
          hd \<leftarrow> aget (di_hdentry di) bindex;
          _ \<leftarrow> debug_on (bindex < di_bstart di \<or> di_bend di < bindex
                 \<or> (case h_dentry of None \<Rightarrow> False | Some p \<Rightarrow> k_dcount k p \<le> 0)
                 \<or> (h_dentry \<noteq> None \<and> hd \<noteq> None));
          arr \<leftarrow> aset (di_hdentry di) bindex h_dentry;
          Some (dentry\<lparr>d_fsdata := Some (di\<lparr>di_hdentry := arr\<rparr>)\<rparr>, dput hd k) }"

definition au_update_digen :: "aufs_sb \<Rightarrow> aufs_dentry \<Rightarrow> aufs_dentry option" where
  "au_update_digen sb dentry = upd_di (di_generation_update (\<lambda>_. si_generation sb)) dentry"

text \<open>One round of the loop of \<open>au_update_dbstart\<close>.\<close>

definition dbstart_body ::
    "aufs_sb \<Rightarrow> int \<Rightarrow> aufs_dentry \<times> kern \<Rightarrow> (bool \<times> (aufs_dentry \<times> kern)) option" where
  "dbstart_body sb bindex = (\<lambda>(dentry, k).
     do { hd \<leftarrow> au_h_dptr_i k dentry bindex;
          case hd of
            None \<Rightarrow> Some (True, (dentry, k))
          | Some p \<Rightarrow>
              if k_dinode k p \<noteq> None
              then do { dentry \<leftarrow> set_dbstart sb dentry bindex; Some (False, (dentry, k)) }
              else do { (dentry, k) \<leftarrow> set_h_dptr dentry bindex None k;
                        Some (True, (dentry, k)) } })"

definition au_update_dbstart ::
    "aufs_sb \<Rightarrow> aufs_dentry \<Rightarrow> kern \<Rightarrow> (aufs_dentry \<times> kern) option" where
  "au_update_dbstart sb dentry k =
     do { bstart \<leftarrow> dbstart dentry;
          bend \<leftarrow> dbend dentry;
          for_up (dbstart_body sb) bstart bend (dentry, k) }"

definition au_find_dbindex :: "kern \<Rightarrow> aufs_dentry \<Rightarrow> nat \<Rightarrow> int option" where
  "au_find_dbindex k dentry hidden_dentry =
     do { bend \<leftarrow> dbend dentry;
          bstart \<leftarrow> dbstart dentry;
          scan_up (\<lambda>i. map_option (\<lambda>h. h = Some hidden_dentry) (au_h_dptr_i k dentry i))
            bstart bend (- 1) }"

section \<open>Well-formed dentry infos\<close>

text \<open>
  The range is inside the array and inside the branch table, the opaque mark is
  not above the range, and the store counts a reference for every slot that holds
  a dentry (so no slot dangles).
\<close>

definition di_ok :: "aufs_sb \<Rightarrow> aufs_dentry \<Rightarrow> kern \<Rightarrow> bool" where
  "di_ok sb dentry k \<longleftrightarrow> (\<exists>di. d_fsdata dentry = Some di
     \<and> di_bstart di \<le> di_bend di \<and> di_bend di \<le> sbend sb
     \<and> di_bend di < int (length (di_hdentry di))
     \<and> (di_bstart di < 0 \<longrightarrow> di_bend di < 0)
     \<and> (di_bdiropq di < 0 \<or> di_bstart di \<le> di_bdiropq di)
     \<and> (\<forall>p. int (count_list (di_hdentry di) (Some p)) \<le> k_dcount k p))"

definition the_di :: "aufs_dentry \<Rightarrow> aufs_dinfo" where
  "the_di dentry = the (d_fsdata dentry)"

definition hslot :: "aufs_dentry \<Rightarrow> int \<Rightarrow> nat option" where
  "hslot dentry i =
     (if 0 \<le> i \<and> i < int (length (di_hdentry (the_di dentry)))
      then di_hdentry (the_di dentry) ! nat i else None)"

lemma the_di_update [simp]: "the_di (d\<lparr>d_fsdata := Some di\<rparr>) = di"
  by (simp add: the_di_def)

lemma hslot_cong: "di_hdentry (the_di d') = di_hdentry (the_di d) \<Longrightarrow> hslot d' i = hslot d i"
  by (simp add: hslot_def)

lemma dtodi_ok [simp]: "di_ok sb d k \<Longrightarrow> dtodi d = Some (the_di d)"
  by (auto simp: di_ok_def dtodi_def the_di_def)

lemma di_ok_ranges:
  assumes "di_ok sb d k"
  shows "d_fsdata d = Some (the_di d)" and "di_bstart (the_di d) \<le> di_bend (the_di d)"
    and "di_bend (the_di d) \<le> sbend sb"
    and "di_bend (the_di d) < int (length (di_hdentry (the_di d)))"
    and "di_bstart (the_di d) < 0 \<longrightarrow> di_bend (the_di d) < 0"
    and "di_bdiropq (the_di d) < 0 \<or> di_bstart (the_di d) \<le> di_bdiropq (the_di d)"
    and "int (count_list (di_hdentry (the_di d)) (Some p)) \<le> k_dcount k p"
  using assms by (auto simp: di_ok_def the_di_def)

lemma count_list_pos: "i < length xs \<Longrightarrow> xs ! i = x \<Longrightarrow> 0 < count_list xs x"
  by (metis count_list_0_iff gr0I nth_mem)

lemma count_list_update:
  "i < length xs \<Longrightarrow> count_list (xs[i := y]) x
     = count_list xs x - (if xs ! i = x then 1 else 0) + (if y = x then 1 else 0)"
proof (induction xs arbitrary: i)
  case Nil
  then show ?case by simp
next
  case (Cons z zs)
  show ?case
  proof (cases i)
    case 0
    then show ?thesis by simp
  next
    case (Suc j)
    with Cons.prems have j: "j < length zs" by simp
    have "zs ! j = x \<Longrightarrow> 0 < count_list zs x" by (rule count_list_pos [OF j])
    with Suc Cons.IH [OF j] show ?thesis by auto
  qed
qed

lemma hslot_count:
  assumes "hslot d i = Some p"
  shows "0 < count_list (di_hdentry (the_di d)) (Some p)"
  using assms count_list_pos [of "nat i" "di_hdentry (the_di d)" "Some p"]
  by (auto simp: hslot_def split: if_splits)

lemma hslot_dcount: "di_ok sb d k \<Longrightarrow> hslot d i = Some p \<Longrightarrow> 0 < k_dcount k p"
  using hslot_count di_ok_ranges(7) [of sb d k p] by fastforce

lemma au_h_dptr_i_ok:
  assumes ok: "di_ok sb d k" and "i \<le> di_bend (the_di d)" and "di_bstart (the_di d) \<le> i"
  shows "au_h_dptr_i k d i = Some (hslot d i)"
proof (cases "di_bstart (the_di d) < 0")
  case True
  with assms di_ok_ranges(5) [OF ok] show ?thesis by (simp add: au_h_dptr_i_def hslot_def)
next
  case False
  then have len: "0 \<le> i" "i < int (length (di_hdentry (the_di d)))"
    using assms di_ok_ranges(4) [OF ok] by auto
  then have "\<not> (case hslot d i of None \<Rightarrow> False | Some p \<Rightarrow> k_dcount k p \<le> 0)"
    using hslot_dcount [OF ok, of i] by (auto split: option.split)
  with False assms len ok show ?thesis by (simp add: au_h_dptr_i_def hslot_def)
qed

lemma set_h_dptr_ok:
  assumes ok: "di_ok sb d k" and i: "0 \<le> i" "di_bstart (the_di d) \<le> i" "i \<le> di_bend (the_di d)"
  shows "\<exists>d' k'. set_h_dptr d i None k = Some (d', k') \<and> di_ok sb d' k'
     \<and> the_di d' = (the_di d)\<lparr>di_hdentry := (di_hdentry (the_di d))[nat i := None]\<rparr>
     \<and> d_imode d' = d_imode d \<and> k' = dput (hslot d i) k"
proof -
  let ?di = "the_di d" and ?h = "di_hdentry (the_di d)"
  note r = di_ok_ranges [OF ok]
  have len: "i < int (length ?h)" using r(4) i(3) by simp
  define d' where "d' = d\<lparr>d_fsdata := Some (?di\<lparr>di_hdentry := ?h[nat i := None]\<rparr>)\<rparr>"
  have eq: "set_h_dptr d i None k = Some (d', dput (hslot d i) k)"
    using ok i len by (simp add: set_h_dptr_def d'_def hslot_def)
  have "int (count_list (?h[nat i := None]) (Some p)) \<le> k_dcount (dput (hslot d i) k) p" for p
    using r(7) [of p] i(1) len hslot_count [of d i p]
    by (auto simp: dput_dcount hslot_def count_list_update)
  then have "di_ok sb d' (dput (hslot d i) k)"
    using r(2-6) by (auto simp: di_ok_def d'_def)
  with eq show ?thesis by (auto simp: d'_def the_di_def)
qed

text \<open>What the dentry operations below leave alone in the store.\<close>

definition same_objs :: "kern \<Rightarrow> kern \<Rightarrow> bool" where
  "same_objs k k' \<longleftrightarrow> k_dinode k' = k_dinode k \<and> k_inlink k' = k_inlink k
     \<and> k_icount k' = k_icount k \<and> k_fcount k' = k_fcount k \<and> k_mcount k' = k_mcount k"

lemma same_objs_refl [simp]: "same_objs k k"
  by (simp add: same_objs_def)

lemma same_objs_dput [simp]: "same_objs k (dput p k') = same_objs k k'"
  by (simp add: same_objs_def)

definition same_but_slots :: "aufs_dentry \<Rightarrow> aufs_dentry \<Rightarrow> bool" where
  "same_but_slots d d' \<longleftrightarrow> d_imode d' = d_imode d
     \<and> (\<exists>h. the_di d' = (the_di d)\<lparr>di_hdentry := h\<rparr>)"

lemma same_but_slots_refl [simp]: "same_but_slots d d"
  unfolding same_but_slots_def by (rule conjI, simp, rule exI [of _ "di_hdentry (the_di d)"]) simp

lemma same_but_slots_update:
  "same_but_slots d0 d \<Longrightarrow> the_di d' = (the_di d)\<lparr>di_hdentry := h\<rparr> \<Longrightarrow> d_imode d' = d_imode d
     \<Longrightarrow> same_but_slots d0 d'"
  by (auto simp: same_but_slots_def)

lemma same_but_slots_fields:
  assumes "same_but_slots d d'"
  shows "d_imode d' = d_imode d" "di_bstart (the_di d') = di_bstart (the_di d)"
    "di_bend (the_di d') = di_bend (the_di d)" "di_bwh (the_di d') = di_bwh (the_di d)"
    "di_bdiropq (the_di d') = di_bdiropq (the_di d)"
    "di_generation (the_di d') = di_generation (the_di d)"
  using assms by (auto simp: same_but_slots_def)

interpretation dslots: info_slots
  "\<lambda>(d, k). hslot d" "\<lambda>(d, k). di_bstart (the_di d)" "\<lambda>(d, k). di_bend (the_di d)"
  "\<lambda>(d, k). k_dcount k" "\<lambda>i (d, k). set_h_dptr d i None k"
  "\<lambda>(d, k). di_ok sb d k \<and> same_objs k0 k \<and> same_but_slots d0 d" for sb k0 d0
proof (unfold_locales, clarsimp)
  fix d k i
  assume ok: "di_ok sb d k" and so: "same_objs k0 k" and sd: "same_but_slots d0 d"
    and i: "di_bstart (the_di d) \<le> i" "i \<le> di_bend (the_di d)"
    and "0 \<le> di_bstart (the_di d)"
  then have 0: "0 \<le> i" by simp
  have len: "i < int (length (di_hdentry (the_di d)))" using di_ok_ranges(4) [OF ok] i by simp
  from set_h_dptr_ok [OF ok 0 i] obtain d' k' where
    d': "set_h_dptr d i None k = Some (d', k')" "di_ok sb d' k'" "d_imode d' = d_imode d"
    and di: "the_di d' = (the_di d)\<lparr>di_hdentry := (di_hdentry (the_di d))[nat i := None]\<rparr>"
    and k': "k' = dput (hslot d i) k" by blast
  have "\<And>j. hslot d' j = (if j = i then None else hslot d j)"
    using 0 len by (auto simp: hslot_def di nth_list_update)
  moreover have "\<And>a. k_dcount k' a = k_dcount k a - (if hslot d i = Some a then 1 else 0)"
    by (simp add: k' dput_dcount)
  moreover have "same_but_slots d0 d'" by (rule same_but_slots_update [OF sd di d'(3)])
  ultimately show "\<exists>a b. set_h_dptr d i None k = Some (a, b) \<and> di_ok sb a b
      \<and> same_objs k0 b \<and> same_but_slots d0 a
      \<and> di_bstart (the_di a) = di_bstart (the_di d) \<and> di_bend (the_di a) = di_bend (the_di d)
      \<and> (\<forall>j. (j = i \<longrightarrow> hslot a i = None) \<and> (j \<noteq> i \<longrightarrow> hslot a j = hslot d j))
      \<and> (\<forall>aa. (hslot d i = Some aa \<longrightarrow> k_dcount b aa = k_dcount k aa - 1)
         \<and> (hslot d i \<noteq> Some aa \<longrightarrow> k_dcount b aa = k_dcount k aa))"
    using d'(1,2) di so k' by (intro exI [of _ d'] exI [of _ k']) (auto simp: dput_dcount)
qed

section \<open>The operations\<close>

lemma au_update_dbstart_loop:
  "di_ok sb d k \<Longrightarrow> au_update_dbstart sb d k
     = for_up (dbstart_body sb) (di_bstart (the_di d)) (di_bend (the_di d)) (d, k)"
  by (simp add: au_update_dbstart_def dbstart_def dbend_def)

text \<open>Below the first positive hidden dentry the rounds empty every slot.\<close>

lemma au_update_dbstart_sweep:
  assumes ok: "di_ok sb d k" and lo: "0 \<le> di_bstart (the_di d)"
    and m: "di_bstart (the_di d) \<le> m" "m \<le> di_bend (the_di d) + 1"
    and neg: "\<forall>i p. di_bstart (the_di d) \<le> i \<longrightarrow> i < m \<longrightarrow> hslot d i = Some p \<longrightarrow> k_dinode k p = None"
  shows "\<exists>d' k'. au_update_dbstart sb d k = for_up (dbstart_body sb) m (di_bend (the_di d)) (d', k')
     \<and> di_ok sb d' k' \<and> same_objs k k' \<and> same_but_slots d d'
     \<and> (\<forall>i. hslot d' i = (if di_bstart (the_di d) \<le> i \<and> i < m then None else hslot d i))
     \<and> (\<forall>p. k_dcount k' p = k_dcount k p
            - int (card {i. di_bstart (the_di d) \<le> i \<and> i < m \<and> hslot d i = Some p}))"
proof -
  have "\<exists>t. for_up (dbstart_body sb) (di_bstart (the_di d)) (di_bend (the_di d)) (d, k)
      = for_up (dbstart_body sb) m (di_bend (the_di d)) t
     \<and> dslots.swept sb k d (\<lambda>_. True) (di_bstart (the_di d)) m (d, k) t"
    (is "\<exists>t. _ \<and> ?S m t")
  proof (rule dslots.sweep_prefix [where s = "(d, k)", unfolded split])
    show "di_ok sb d k \<and> same_objs k k \<and> same_but_slots d d" using ok by simp
    show "0 \<le> di_bstart (the_di d)" "di_bstart (the_di d) \<le> m" "m \<le> di_bend (the_di d) + 1"
      by (fact lo m)+
    fix i t assume i: "di_bstart (the_di d) \<le> i" "i < m" and "?S i t"
    then obtain d' k' where t: "t = (d', k')" "di_ok sb d' k'" "same_objs k k'"
        "same_but_slots d d'" "hslot d' i = hslot d i"
      by (cases t) (auto simp: dslots.swept_def)
    have "au_h_dptr_i k' d' i = Some (hslot d i)"
      using au_h_dptr_i_ok [OF t(2), of i] same_but_slots_fields [OF t(4)] i m t(5) by auto
    moreover have "k_dinode k' p = None" if "hslot d i = Some p" for p
      using neg i that t(3) by (simp add: same_objs_def)
    ultimately show "dbstart_body sb i t = (if \<exists>a. hslot d i = Some a \<and> True
        then map_option (Pair True) (case t of (d, k) \<Rightarrow> set_h_dptr d i None k)
        else Some (True, t))"
      by (cases "hslot d i") (auto simp: dbstart_body_def t(1) map_option_case split: option.split)
  qed
  then obtain d' k' where
    eq: "for_up (dbstart_body sb) (di_bstart (the_di d)) (di_bend (the_di d)) (d, k)
      = for_up (dbstart_body sb) m (di_bend (the_di d)) (d', k')" and sw: "?S m (d', k')"
    by auto
  show ?thesis
    unfolding au_update_dbstart_loop [OF ok] eq
    using sw by (intro exI [of _ d'] exI [of _ k']) (auto simp: dslots.swept_def)
qed

lemma au_update_dbstart_stop:
  assumes ok: "di_ok sb d k" and m: "di_bstart (the_di d) \<le> m" "m \<le> di_bend (the_di d)"
    and pos: "hslot d m = Some p" "k_dinode k p \<noteq> None"
  shows "for_up (dbstart_body sb) m (di_bend (the_di d)) (d, k)
     = Some (d\<lparr>d_fsdata := Some ((the_di d)\<lparr>di_bstart := m\<rparr>)\<rparr>, k)"
proof -
  have "set_dbstart sb d m = Some (d\<lparr>d_fsdata := Some ((the_di d)\<lparr>di_bstart := m\<rparr>)\<rparr>)"
    using ok m di_ok_ranges(3) [OF ok] by (simp add: set_dbstart_def upd_di_def)
  then show ?thesis
    using m pos au_h_dptr_i_ok [OF ok m(2,1)] by (simp add: for_up_step dbstart_body_def)
qed

section \<open>Properties\<close>

text \<open>
  When the range of a dentry is narrowed, every hidden dentry above the first
  positive one is negative, so it is dropped: its slot becomes empty and its
  reference is given back exactly once per slot; \<open>di_bstart\<close> moves to the first
  positive hidden dentry, nothing else changes, and no assertion fires.
\<close>

theorem au_update_dbstart_first:
  assumes ok: "di_ok sb d k" and lo: "0 \<le> di_bstart (the_di d)"
    and m: "di_bstart (the_di d) \<le> m" "m \<le> di_bend (the_di d)"
    and pos: "hslot d m = Some p" "k_dinode k p \<noteq> None"
    and neg: "\<forall>i q. di_bstart (the_di d) \<le> i \<longrightarrow> i < m \<longrightarrow> hslot d i = Some q \<longrightarrow> k_dinode k q = None"
  shows "\<exists>d' k'. au_update_dbstart sb d k = Some (d', k')
     \<and> di_bstart (the_di d') = m \<and> di_bend (the_di d') = di_bend (the_di d)
     \<and> (\<forall>i. hslot d' i = (if di_bstart (the_di d) \<le> i \<and> i < m then None else hslot d i))
     \<and> (\<forall>q. k_dcount k' q = k_dcount k q
            - int (card {i. di_bstart (the_di d) \<le> i \<and> i < m \<and> hslot d i = Some q}))"
proof -
  have "m \<le> di_bend (the_di d) + 1" using m by simp
  from au_update_dbstart_sweep [OF ok lo m(1) this neg] obtain d1 k1 where
    eq: "au_update_dbstart sb d k = for_up (dbstart_body sb) m (di_bend (the_di d)) (d1, k1)"
    and d1: "di_ok sb d1 k1" "same_objs k k1" "same_but_slots d d1"
    and sl: "\<forall>i. hslot d1 i = (if di_bstart (the_di d) \<le> i \<and> i < m then None else hslot d i)"
    and cnt: "\<forall>q. k_dcount k1 q = k_dcount k q
            - int (card {i. di_bstart (the_di d) \<le> i \<and> i < m \<and> hslot d i = Some q})"
    by blast
  have "for_up (dbstart_body sb) m (di_bend (the_di d1)) (d1, k1)
     = Some (d1\<lparr>d_fsdata := Some ((the_di d1)\<lparr>di_bstart := m\<rparr>)\<rparr>, k1)"
    using d1 m pos sl same_but_slots_fields [OF d1(3)]
    by (intro au_update_dbstart_stop [OF d1(1)]) (auto simp: same_objs_def)
  moreover have "hslot (d1\<lparr>d_fsdata := Some ((the_di d1)\<lparr>di_bstart := m\<rparr>)\<rparr>) i = hslot d1 i" for i
    by (rule hslot_cong) simp
  ultimately show ?thesis
    using eq sl cnt same_but_slots_fields [OF d1(3)]
    by (intro exI [of _ "d1\<lparr>d_fsdata := Some ((the_di d1)\<lparr>di_bstart := m\<rparr>)\<rparr>"] exI [of _ k1]) simp
qed

definition dentry0 :: aufs_dentry where
  "dentry0 = \<lparr>d_fsdata = Some \<lparr>di_generation = 0, di_bstart = 0, di_bend = 2, di_bwh = - 1,
     di_bdiropq = - 1, di_hdentry = [Some 5, None, Some 7], di_reval = 0\<rparr>, d_imode = Some 0x4000\<rparr>"

lemma dentry0_ok: "di_ok (sb0 3) dentry0 kern0"
  by (simp add: di_ok_def dentry0_def kern0_def)

lemma dentry0_di [simp]:
  "di_bstart (the_di dentry0) = 0" "di_bend (the_di dentry0) = 2" "di_bwh (the_di dentry0) = - 1"
  "di_bdiropq (the_di dentry0) = - 1" "di_hdentry (the_di dentry0) = [Some 5, None, Some 7]"
  by (simp_all add: dentry0_def the_di_def)

lemma dentry0_slots [simp]:
  "hslot dentry0 0 = Some 5" "hslot dentry0 1 = None" "hslot dentry0 2 = Some 7"
  by (simp_all add: hslot_def)

theorem au_update_dbstart_first_witness:
  "\<exists>d' k'. au_update_dbstart (sb0 3) dentry0 (kern0\<lparr>k_dinode := (\<lambda>_. None)(7 := Some 1)\<rparr>) = Some (d', k')
     \<and> di_bstart (the_di d') = 2 \<and> hslot d' 0 = None \<and> hslot d' 2 = Some 7"
proof -
  let ?k = "kern0\<lparr>k_dinode := (\<lambda>_. None)(7 := Some 1)\<rparr>"
  have ok: "di_ok (sb0 3) dentry0 ?k" using dentry0_ok by (simp add: di_ok_def)
  have "\<forall>i q. 0 \<le> i \<longrightarrow> i < 2 \<longrightarrow> hslot dentry0 i = Some q \<longrightarrow> k_dinode ?k q = None"
    by (auto simp: hslot_def nth_Cons' split: if_splits)
  then obtain d' k' where "au_update_dbstart (sb0 3) dentry0 ?k = Some (d', k')"
    "di_bstart (the_di d') = 2" "\<forall>i. hslot d' i = (if 0 \<le> i \<and> i < 2 then None else hslot dentry0 i)"
    using au_update_dbstart_first [OF ok, of 2 7] by auto
  then show ?thesis by (intro exI [of _ d'] exI [of _ k']) simp
qed

text \<open>
  When every hidden dentry of the range is negative, all slots are emptied and
  all their references given back, and \<open>di_bstart\<close> and \<open>di_bend\<close> stay.
\<close>

theorem au_update_dbstart_all_negative:
  assumes ok: "di_ok sb d k" and lo: "0 \<le> di_bstart (the_di d)"
    and neg: "\<forall>i q. di_bstart (the_di d) \<le> i \<longrightarrow> i \<le> di_bend (the_di d) \<longrightarrow> hslot d i = Some q \<longrightarrow> k_dinode k q = None"
  shows "\<exists>d' k'. au_update_dbstart sb d k = Some (d', k')
     \<and> di_bstart (the_di d') = di_bstart (the_di d) \<and> di_bend (the_di d') = di_bend (the_di d)
     \<and> (\<forall>i. di_bstart (the_di d) \<le> i \<longrightarrow> i \<le> di_bend (the_di d) \<longrightarrow> hslot d' i = None)
     \<and> (\<forall>q. k_dcount k' q = k_dcount k q
            - int (card {i. di_bstart (the_di d) \<le> i \<and> i \<le> di_bend (the_di d) \<and> hslot d i = Some q}))"
proof -
  have le: "di_bstart (the_di d) \<le> di_bend (the_di d) + 1" using di_ok_ranges(2) [OF ok] by simp
  have neg': "\<forall>i q. di_bstart (the_di d) \<le> i \<longrightarrow> i < di_bend (the_di d) + 1 \<longrightarrow> hslot d i = Some q \<longrightarrow> k_dinode k q = None"
    using neg by simp
  obtain d' k' where
    "au_update_dbstart sb d k = for_up (dbstart_body sb) (di_bend (the_di d) + 1) (di_bend (the_di d)) (d', k')"
    "same_but_slots d d'"
    "\<forall>i. hslot d' i = (if di_bstart (the_di d) \<le> i \<and> i < di_bend (the_di d) + 1 then None else hslot d i)"
    "\<forall>q. k_dcount k' q = k_dcount k q
            - int (card {i. di_bstart (the_di d) \<le> i \<and> i < di_bend (the_di d) + 1 \<and> hslot d i = Some q})"
    using au_update_dbstart_sweep [OF ok lo le order_refl neg'] by blast
  then show ?thesis
    by (intro exI [of _ d'] exI [of _ k']) (simp add: zle_add1_eq_le same_but_slots_fields)
qed

theorem au_update_dbstart_all_negative_witness:
  "\<exists>d' k'. au_update_dbstart (sb0 3) dentry0 (kern0\<lparr>k_dinode := (\<lambda>_. None)\<rparr>) = Some (d', k')
     \<and> hslot d' 0 = None \<and> hslot d' 2 = None"
proof -
  have ok: "di_ok (sb0 3) dentry0 (kern0\<lparr>k_dinode := (\<lambda>_. None)\<rparr>)"
    using dentry0_ok by (simp add: di_ok_def)
  obtain d' k' where "au_update_dbstart (sb0 3) dentry0 (kern0\<lparr>k_dinode := (\<lambda>_. None)\<rparr>) = Some (d', k')"
    "\<forall>i. 0 \<le> i \<longrightarrow> i \<le> 2 \<longrightarrow> hslot d' i = None"
    using au_update_dbstart_all_negative [OF ok] by auto
  then show ?thesis by (intro exI [of _ d'] exI [of _ k']) simp
qed

text \<open>
  The visible tail of a directory: \<open>dbtaildir\<close> stops at the branch above the
  whiteout and at the opaque branch, whichever comes first, and at the end of the
  range when neither cuts it; it never exceeds the range.
\<close>

theorem dbtaildir_cut:
  assumes ok: "di_ok sb d k" and dir: "\<not> not_dir d" and "0 \<le> di_bend (the_di d)"
    and "dbtail d = Some b" and "di_bdiropq (the_di d) \<le> b"
  shows "\<exists>r. dbtaildir d = Some r \<and> r \<le> di_bend (the_di d)
     \<and> (0 < di_bwh (the_di d) \<and> di_bwh (the_di d) < di_bend (the_di d) \<longrightarrow> r < di_bwh (the_di d))
     \<and> (di_bwh (the_di d) = 0 \<longrightarrow> r = 0)
     \<and> (0 \<le> di_bdiropq (the_di d) \<longrightarrow> r \<le> di_bdiropq (the_di d))
     \<and> (r < di_bend (the_di d) \<longrightarrow> r = di_bdiropq (the_di d) \<or> r + 1 = di_bwh (the_di d)
          \<or> (r = 0 \<and> di_bwh (the_di d) = 0))"
  using assms
  by (auto simp: dbtaildir_def dbtail_def dbend_def dbwh_def dbdiropq_def split: if_splits)

theorem dbtaildir_cut_witness:
  "\<exists>r. dbtaildir dentry0 = Some r \<and> r \<le> 2"
proof -
  have "\<not> not_dir dentry0" by (simp add: not_dir_def dentry0_def S_ISDIR_def)
  moreover have "dbtail dentry0 = Some 2"
    using dentry0_ok by (simp add: dbtail_def dbend_def dbwh_def)
  ultimately show ?thesis using dbtaildir_cut [OF dentry0_ok, of 2] by auto
qed

text \<open>
  The branch of a hidden dentry is the first index of the range that holds it,
  and -1 exactly when no slot of the range does.
\<close>

theorem au_find_dbindex_first:
  assumes ok: "di_ok sb d k"
  shows "\<exists>r. au_find_dbindex k d h = Some r
     \<and> ((di_bstart (the_di d) \<le> r \<and> r \<le> di_bend (the_di d) \<and> hslot d r = Some h
          \<and> (\<forall>j. di_bstart (the_di d) \<le> j \<longrightarrow> j < r \<longrightarrow> hslot d j \<noteq> Some h))
        \<or> (r = - 1 \<and> (\<forall>j. di_bstart (the_di d) \<le> j \<longrightarrow> j \<le> di_bend (the_di d) \<longrightarrow> hslot d j \<noteq> Some h)))"
proof -
  have "au_find_dbindex k d h = scan_up (\<lambda>i. map_option (\<lambda>x. x = Some h) (au_h_dptr_i k d i))
      (di_bstart (the_di d)) (di_bend (the_di d)) (- 1)"
    using ok by (simp add: au_find_dbindex_def dbstart_def dbend_def)
  moreover have "\<exists>r. scan_up (\<lambda>i. map_option (\<lambda>x. x = Some h) (au_h_dptr_i k d i))
      (di_bstart (the_di d)) (di_bend (the_di d)) (- 1) = Some r \<and>
     ((di_bstart (the_di d) \<le> r \<and> r \<le> di_bend (the_di d) \<and> hslot d r = Some h
       \<and> (\<forall>j. di_bstart (the_di d) \<le> j \<longrightarrow> j < r \<longrightarrow> hslot d j \<noteq> Some h))
     \<or> (r = - 1 \<and> (\<forall>j. di_bstart (the_di d) \<le> j \<longrightarrow> j \<le> di_bend (the_di d) \<longrightarrow> hslot d j \<noteq> Some h)))"
    by (rule scan_up_spec) (simp add: au_h_dptr_i_ok [OF ok])
  ultimately show ?thesis by simp
qed

theorem au_find_dbindex_first_witness:
  "\<exists>r. au_find_dbindex kern0 dentry0 7 = Some r \<and> r \<le> 2"
  using au_find_dbindex_first [OF dentry0_ok, of 7] by auto

end
