(* ===== verification/Aufs_Iinfo.thy ===== *)
theory Aufs_Iinfo
  imports Aufs_Slots Aufs_Vdir
begin

text \<open>
  The info structure of an inode (iinfo.c): the array of hidden inodes with the
  range in use, the setter that records the inode number in the external table, and
  the narrowing of the range. A bad inode has no array; \<open>itoii\<close> is null then, and
  every caller that does not expect it crashes. Shown: the range is narrowed to
  exactly the first and the last hidden inode, unlinked ones are dropped once, and
  the release of an inode gives every reference back.
\<close>

definition AUFS_HI_XINO :: "32 word" where "AUFS_HI_XINO = 1"
definition AUFS_HI_NOTIFY :: "32 word" where "AUFS_HI_NOTIFY = 2"

definition itoii :: "aufs_inode \<Rightarrow> aufs_iinfo option option" where
  "itoii inode =
     (let iinfo = i_iinfo inode
      in if ii_hinode iinfo = None then Some None
         else do { _ \<leftarrow> debug_on (ii_bend iinfo < ii_bstart iinfo); Some (Some iinfo) })"

text \<open>\<open>itoii(inode)->\<close> with the null pointer as a crash.\<close>

definition ii_of :: "aufs_inode \<Rightarrow> aufs_iinfo option" where
  "ii_of inode = do { p \<leftarrow> itoii inode; p }"

definition upd_ii :: "(aufs_iinfo \<Rightarrow> aufs_iinfo) \<Rightarrow> aufs_inode \<Rightarrow> aufs_inode option" where
  "upd_ii f inode = do { ii \<leftarrow> ii_of inode; Some (inode\<lparr>i_iinfo := f ii\<rparr>) }"

definition hinode_at :: "aufs_inode \<Rightarrow> int \<Rightarrow> aufs_hinode option" where
  "hinode_at inode bindex = do { ii \<leftarrow> ii_of inode; a \<leftarrow> ii_hinode ii; aget a bindex }"

definition set_hinode_at :: "aufs_inode \<Rightarrow> int \<Rightarrow> aufs_hinode \<Rightarrow> aufs_inode option" where
  "set_hinode_at inode bindex hi =
     do { ii \<leftarrow> ii_of inode; a \<leftarrow> ii_hinode ii; a \<leftarrow> aset a bindex hi;
          Some (inode\<lparr>i_iinfo := ii\<lparr>ii_hinode := Some a\<rparr>\<rparr>) }"

definition ibstart :: "aufs_inode \<Rightarrow> int option" where
  "ibstart inode = map_option ii_bstart (ii_of inode)"

definition ibend :: "aufs_inode \<Rightarrow> int option" where
  "ibend inode = map_option ii_bend (ii_of inode)"

definition ivdir :: "aufs_inode \<Rightarrow> nat option option" where
  "ivdir inode =
     do { _ \<leftarrow> debug_on (\<not> S_ISDIR (i_mode inode)); ii \<leftarrow> ii_of inode; Some (ii_vdir ii) }"

definition au_h_iptr_i :: "kern \<Rightarrow> aufs_inode \<Rightarrow> int \<Rightarrow> nat option option" where
  "au_h_iptr_i k inode bindex =
     do { bend \<leftarrow> ibend inode;
          _ \<leftarrow> debug_on (bindex < 0 \<or> bend < bindex);
          hi \<leftarrow> hinode_at inode bindex;
          _ \<leftarrow> debug_on (case hi_inode hi of None \<Rightarrow> False | Some h \<Rightarrow> k_icount k h \<le> 0);
          Some (hi_inode hi) }"

definition au_h_iptr :: "kern \<Rightarrow> aufs_inode \<Rightarrow> nat option option" where
  "au_h_iptr k inode = do { bstart \<leftarrow> ibstart inode; au_h_iptr_i k inode bstart }"

definition itoid_index :: "aufs_inode \<Rightarrow> int \<Rightarrow> int option" where
  "itoid_index inode bindex =
     do { bend \<leftarrow> ibend inode;
          _ \<leftarrow> debug_on (bindex < 0 \<or> bend < bindex);
          hi \<leftarrow> hinode_at inode bindex;
          _ \<leftarrow> debug_on (hi_inode hi = None);
          Some (hi_id hi) }"

definition set_ibstart :: "aufs_sb \<Rightarrow> aufs_inode \<Rightarrow> int \<Rightarrow> aufs_inode option" where
  "set_ibstart sb inode bindex =
     do { _ \<leftarrow> debug_on (sbend sb < bindex); upd_ii (ii_bstart_update (\<lambda>_. bindex)) inode }"

definition set_ibend :: "aufs_sb \<Rightarrow> aufs_inode \<Rightarrow> int \<Rightarrow> aufs_inode option" where
  "set_ibend sb inode bindex =
     do { _ \<leftarrow> debug_on (sbend sb < bindex);
          bstart \<leftarrow> ibstart inode;
          _ \<leftarrow> debug_on (bindex < bstart);
          upd_ii (ii_bend_update (\<lambda>_. bindex)) inode }"

definition set_ivdir :: "aufs_inode \<Rightarrow> nat option \<Rightarrow> aufs_inode option" where
  "set_ivdir inode vdir =
     do { _ \<leftarrow> debug_on (\<not> S_ISDIR (i_mode inode));
          ii \<leftarrow> ii_of inode;
          _ \<leftarrow> debug_on (ii_vdir ii \<noteq> None \<and> vdir \<noteq> None);
          upd_ii (ii_vdir_update (\<lambda>_. vdir)) inode }"

text \<open>Without hinotify \<open>do_free_hinotify\<close> does nothing.\<close>

definition do_free_hinotify :: "aufs_hinode \<Rightarrow> kern \<Rightarrow> kern" where
  "do_free_hinotify hinode k = k"

definition alloc_hinotify :: "aufs_hinode \<Rightarrow> kern \<Rightarrow> int \<times> aufs_hinode \<times> kern" where
  "alloc_hinotify hinode k = (- EOPNOTSUPP, hinode, k)"

definition aufs_hiput :: "aufs_hinode \<Rightarrow> kern \<Rightarrow> kern" where
  "aufs_hiput hinode k =
     (let k = (if hi_notify hinode \<noteq> None then do_free_hinotify hinode k else k)
      in if hi_inode hinode \<noteq> None then iput (hi_inode hinode) k else k)"

definition au_hi_flags :: "aufs_sb \<Rightarrow> bool \<Rightarrow> 32 word" where
  "au_hi_flags sb isdir =
     (let flags = (if au_flag_test sb AuFlag_XINO \<noteq> 0 then AUFS_HI_XINO else 0)
      in if isdir \<and> au_flag_test sb AuFlag_UDBA_INOTIFY \<noteq> 0 then flags OR AUFS_HI_NOTIFY else flags)"

definition set_h_iptr ::
    "bool \<Rightarrow> (nat \<Rightarrow> writef) \<Rightarrow> aufs_inode \<Rightarrow> int \<Rightarrow> nat option \<Rightarrow> 32 word \<Rightarrow> aufs_sb \<Rightarrow> kern
       \<Rightarrow> (aufs_inode \<times> aufs_sb \<times> kern) option" where
  "set_h_iptr is_aufsd wrf inode bindex h_inode flags sb k =
     do { hinode \<leftarrow> hinode_at inode bindex;
          bstart \<leftarrow> ibstart inode;
          bend \<leftarrow> ibend inode;
          _ \<leftarrow> debug_on (bindex < bstart \<or> bend < bindex
                 \<or> (case h_inode of None \<Rightarrow> False | Some h \<Rightarrow> k_icount k h \<le> 0)
                 \<or> (h_inode \<noteq> None \<and> hi_inode hinode \<noteq> None));
          let k = (if hi_inode hinode \<noteq> None then aufs_hiput hinode k else k);
          let hinode = hinode\<lparr>hi_inode := h_inode\<rparr>;
          case h_inode of
            None \<Rightarrow> do { inode \<leftarrow> set_hinode_at inode bindex hinode; Some (inode, sb, k) }
          | Some h \<Rightarrow>
              do { br_id \<leftarrow> sbr_id sb bindex;
                   let hinode = hinode\<lparr>hi_id := br_id\<rparr>;
                   (sb, k) \<leftarrow>
                     (if flags AND AUFS_HI_XINO \<noteq> 0
                      then do { (err, k) \<leftarrow> xino_write is_aufsd wrf sb bindex (k_iino k h) (i_ino inode) k;
                                Some (if err \<noteq> 0 then au_flag_clr AuFlag_XINO sb else sb, k) }
                      else Some (sb, k));
                   (hinode, k) \<leftarrow>
                     (if flags AND AUFS_HI_NOTIFY \<noteq> 0
                      then let (err, hinode, k) = alloc_hinotify hinode k
                           in do { _ \<leftarrow> debug_on (err = 0 \<and> hi_notify hinode = None); Some (hinode, k) }
                      else Some (hinode, k));
                   inode \<leftarrow> set_hinode_at inode bindex hinode;
                   Some (inode, sb, k) } }"

definition au_update_iigen :: "aufs_sb \<Rightarrow> aufs_inode \<Rightarrow> aufs_inode option" where
  "au_update_iigen sb inode = upd_ii (ii_generation_update (\<lambda>_. si_generation sb)) inode"

text \<open>One round of the loop that drops the unlinked hidden inodes.\<close>

definition put_zero ::
    "bool \<Rightarrow> (nat \<Rightarrow> writef) \<Rightarrow> aufs_sb \<Rightarrow> int \<Rightarrow> aufs_inode \<times> kern \<Rightarrow> (bool \<times> (aufs_inode \<times> kern)) option" where
  "put_zero is_aufsd wrf sb bindex = (\<lambda>(inode, k).
     do { hi \<leftarrow> hinode_at inode bindex;
          if (case hi_inode hi of None \<Rightarrow> False | Some h_i \<Rightarrow> k_inlink k h_i = 0)
          then do { (inode, _, k) \<leftarrow> set_h_iptr is_aufsd wrf inode bindex None 0 sb k;
                    Some (True, (inode, k)) }
          else Some (True, (inode, k)) })"

text \<open>
  The two scans read the array directly. The 8-bit counters do not wrap, for a
  range ends below 127.
\<close>

definition au_update_brange ::
    "bool \<Rightarrow> (nat \<Rightarrow> writef) \<Rightarrow> aufs_sb \<Rightarrow> aufs_inode \<Rightarrow> bool \<Rightarrow> kern \<Rightarrow> (aufs_inode \<times> kern) option" where
  "au_update_brange is_aufsd wrf sb inode do_put_zero k =
     do { p \<leftarrow> itoii inode;
          case p of
            None \<Rightarrow> Some (inode, k)
          | Some iinfo \<Rightarrow>
              if ii_bstart iinfo < 0 then Some (inode, k)
              else do { (inode, k) \<leftarrow>
                          (if do_put_zero
                           then for_up (put_zero is_aufsd wrf sb) (ii_bstart iinfo) (ii_bend iinfo) (inode, k)
                           else Some (inode, k));
                        let ii = i_iinfo inode;
                        let used = (\<lambda>i. do { a \<leftarrow> ii_hinode ii; hi \<leftarrow> aget a i; Some (hi_inode hi \<noteq> None) });
                        bstart \<leftarrow> scan_up used 0 (ii_bend ii) (ii_bend ii + 1);
                        if ii_bend ii < bstart
                        then Some (inode\<lparr>i_iinfo := ii\<lparr>ii_bstart := - 1, ii_bend := - 1\<rparr>\<rparr>, k)
                        else do { bend \<leftarrow> scan_down used (ii_bend ii) 0 (- 1);
                                  Some (inode\<lparr>i_iinfo := ii\<lparr>ii_bstart := bstart, ii_bend := bend\<rparr>\<rparr>, k) } } }"

definition au_iinfo_init :: "aufs_sb \<Rightarrow> aufs_inode \<Rightarrow> kern \<Rightarrow> (int \<times> aufs_inode \<times> kern) option" where
  "au_iinfo_init sb inode k =
     do { _ \<leftarrow> debug_on (ii_hinode (i_iinfo inode) \<noteq> None);
          let nbr = sbend sb + 1;
          let nbr = (if nbr = 0 then nbr + 1 else nbr);
          let (ok, k) = kmalloc k;
          if ok
          then Some (0, inode\<lparr>i_iinfo :=
                 \<lparr>ii_generation = si_generation sb, ii_bstart = - 1, ii_bend = - 1,
                  ii_hinode = Some (replicate (nat nbr) \<lparr>hi_inode = None, hi_id = - 1, hi_notify = None\<rparr>),
                  ii_vdir = None\<rparr>\<rparr>, k)
          else Some (- ENOMEM, inode, k) }"

text \<open>The release walks a pointer over the array; its slots are not cleared.\<close>

definition fin_round :: "aufs_hinode list \<Rightarrow> int \<Rightarrow> kern \<Rightarrow> (bool \<times> kern) option" where
  "fin_round a i k =
     do { hi \<leftarrow> aget a i;
          Some (True, if hi_inode hi \<noteq> None then aufs_hiput hi k else k) }"

definition au_iinfo_fin :: "aufs_inode \<Rightarrow> kern \<Rightarrow> (aufs_inode \<times> kern) option" where
  "au_iinfo_fin inode k =
     do { p \<leftarrow> itoii inode;
          case p of
            None \<Rightarrow> Some (inode, k)
          | Some iinfo \<Rightarrow>
              do { k \<leftarrow> (case ii_vdir iinfo of None \<Rightarrow> Some k | Some v \<Rightarrow> free_vdir v k);
                   (inode, k) \<leftarrow>
                     (if 0 \<le> ii_bstart iinfo
                      then do { a \<leftarrow> ii_hinode iinfo;
                                k \<leftarrow> for_up (fin_round a) (ii_bstart iinfo) (ii_bend iinfo) k;
                                Some (inode\<lparr>i_iinfo := iinfo\<lparr>ii_bstart := ii_bend iinfo + 2\<rparr>\<rparr>, k) }
                      else Some (inode, k));
                   Some (inode, kfree k) } }"

text \<open>misc.c: the tests of a branch for writing, and the permission test with its NFS case.\<close>

definition test_ro :: "kern \<Rightarrow> aufs_sb \<Rightarrow> int \<Rightarrow> aufs_inode option \<Rightarrow> int option" where
  "test_ro k sb bindex inode =
     do { br \<leftarrow> sbr sb bindex;
          let err = br_rdonly k br;
          case inode of
            None \<Rightarrow> Some err
          | Some i \<Rightarrow>
              if err \<noteq> 0 then Some err
              else do { hi \<leftarrow> au_h_iptr_i k i bindex;
                        Some (case hi of None \<Rightarrow> err
                              | Some h \<Rightarrow> if k_iimmutable k h then - EROFS else 0) } }"

definition MAY_WRITE :: "32 word" where "MAY_WRITE = 2"
definition MAY_READ :: "32 word" where "MAY_READ = 4"

definition au_is_nfs :: "kern \<Rightarrow> nat \<Rightarrow> bool" where
  "au_is_nfs k sb \<longleftrightarrow> k_stype k sb = ''nfs''"

definition au_test_perm :: "(nat \<Rightarrow> 32 word \<Rightarrow> int) \<Rightarrow> nat \<Rightarrow> kern \<Rightarrow> nat \<Rightarrow> 32 word \<Rightarrow> int" where
  "au_test_perm permission fsuid k h_inode msk =
     (if fsuid = 0 then 0
      else let msk = (if au_is_nfs k (k_isb k h_inode) \<and> msk AND MAY_WRITE \<noteq> 0
                          \<and> S_ISDIR (k_imode k h_inode) then msk OR MAY_READ else msk)
           in permission h_inode msk)"

section \<open>Well-formed inode infos\<close>

text \<open>
  The range is inside of the array and of the branch table, slots outside of it
  are empty, and every slot in use holds a reference of its own.
\<close>

definition the_hi :: "aufs_inode \<Rightarrow> aufs_hinode list" where
  "the_hi inode = the (ii_hinode (i_iinfo inode))"

definition islot :: "aufs_inode \<Rightarrow> int \<Rightarrow> nat option" where
  "islot inode i = (if 0 \<le> i \<and> i < int (length (the_hi inode)) then hi_inode (the_hi inode ! nat i) else None)"

definition ii_ok :: "aufs_inode \<Rightarrow> bool" where
  "ii_ok inode \<longleftrightarrow> ii_hinode (i_iinfo inode) \<noteq> None
     \<and> ii_bstart (i_iinfo inode) \<le> ii_bend (i_iinfo inode)
     \<and> ii_bend (i_iinfo inode) < int (length (the_hi inode))
     \<and> - 1 \<le> ii_bstart (i_iinfo inode)
     \<and> (ii_bstart (i_iinfo inode) = - 1 \<longrightarrow> ii_bend (i_iinfo inode) = - 1)
     \<and> (\<forall>i. islot inode i \<noteq> None \<longrightarrow> ii_bstart (i_iinfo inode) \<le> i \<and> i \<le> ii_bend (i_iinfo inode))"

lemma itoii_ok: "ii_ok inode \<Longrightarrow> itoii inode = Some (Some (i_iinfo inode))"
  by (auto simp: ii_ok_def itoii_def)

lemma ii_of_ok [simp]: "ii_ok inode \<Longrightarrow> ii_of inode = Some (i_iinfo inode)"
  by (simp add: itoii_ok ii_of_def)

lemma hinode_at_ok:
  "ii_ok inode \<Longrightarrow> 0 \<le> i \<Longrightarrow> i < int (length (the_hi inode)) \<Longrightarrow> hinode_at inode i = Some (the_hi inode ! nat i)"
  by (auto simp: hinode_at_def the_hi_def ii_ok_def)

text \<open>Emptying a slot.\<close>

definition clear_slot :: "int \<Rightarrow> aufs_inode \<Rightarrow> aufs_inode" where
  "clear_slot i inode = inode\<lparr>i_iinfo := (i_iinfo inode)\<lparr>ii_hinode :=
     Some ((the_hi inode)[nat i := (the_hi inode ! nat i)\<lparr>hi_inode := None\<rparr>])\<rparr>\<rparr>"

lemma clear_slot_fields [simp]:
  "ii_bstart (i_iinfo (clear_slot i inode)) = ii_bstart (i_iinfo inode)"
  "ii_bend (i_iinfo (clear_slot i inode)) = ii_bend (i_iinfo inode)"
  "length (the_hi (clear_slot i inode)) = length (the_hi inode)"
  by (simp_all add: clear_slot_def the_hi_def)

lemma islot_clear:
  "0 \<le> i \<Longrightarrow> i < int (length (the_hi inode)) \<Longrightarrow>
     islot (clear_slot i inode) j = (if j = i then None else islot inode j)"
  by (auto simp: islot_def clear_slot_def the_hi_def nth_list_update)

lemma ii_ok_clear:
  "ii_ok inode \<Longrightarrow> 0 \<le> i \<Longrightarrow> i < int (length (the_hi inode)) \<Longrightarrow> ii_ok (clear_slot i inode)"
  by (simp add: ii_ok_def islot_clear) (simp add: clear_slot_def)

lemma set_h_iptr_clear:
  assumes ok: "ii_ok inode" and i: "0 \<le> i" "ii_bstart (i_iinfo inode) \<le> i" "i \<le> ii_bend (i_iinfo inode)"
  shows "set_h_iptr d wrf inode i None 0 sb k = Some (clear_slot i inode, sb, iput (islot inode i) k)"
proof -
  have len: "i < int (length (the_hi inode))" using ok i by (auto simp: ii_ok_def)
  have a: "ii_hinode (i_iinfo inode) = Some (the_hi inode)" using ok by (auto simp: ii_ok_def the_hi_def)
  show ?thesis
    using ok i len
    by (simp add: set_h_iptr_def hinode_at_ok ibstart_def ibend_def set_hinode_at_def a clear_slot_def
        islot_def aufs_hiput_def do_free_hinotify_def)
qed

interpretation islots: info_slots
  "\<lambda>(inode, k). islot inode" "\<lambda>(inode, k). ii_bstart (i_iinfo inode)"
  "\<lambda>(inode, k). ii_bend (i_iinfo inode)" "\<lambda>(inode, k). k_icount k"
  "\<lambda>i (inode, k). map_option (\<lambda>(inode, _, k). (inode, k)) (set_h_iptr d wrf inode i None 0 sb k)"
  "\<lambda>(inode, k). ii_ok inode \<and> k_inlink k = nl" for d wrf sb nl
proof (unfold_locales, clarsimp)
  fix inode k i
  assume ok: "ii_ok inode" and i: "ii_bstart (i_iinfo inode) \<le> i" "i \<le> ii_bend (i_iinfo inode)"
    and "0 \<le> ii_bstart (i_iinfo inode)"
  then have 0: "0 \<le> i" "i < int (length (the_hi inode))" by (auto simp: ii_ok_def)
  have nl: "k_inlink (iput (islot inode i) k) = k_inlink k"
    by (simp add: iput_def split: option.split)
  show "\<exists>a b. (\<exists>sb'. set_h_iptr d wrf inode i None 0 sb k = Some (a, sb', b)) \<and> ii_ok a
      \<and> k_inlink b = k_inlink k \<and> ii_bstart (i_iinfo a) = ii_bstart (i_iinfo inode)
      \<and> ii_bend (i_iinfo a) = ii_bend (i_iinfo inode)
      \<and> (\<forall>j. (j = i \<longrightarrow> islot a i = None) \<and> (j \<noteq> i \<longrightarrow> islot a j = islot inode j))
      \<and> (\<forall>aa. (islot inode i = Some aa \<longrightarrow> k_icount b aa = k_icount k aa - 1)
         \<and> (islot inode i \<noteq> Some aa \<longrightarrow> k_icount b aa = k_icount k aa))"
    unfolding set_h_iptr_clear [OF ok 0(1) i]
    using 0 ok nl by (auto simp: islot_clear ii_ok_clear iput_icount)
qed

section \<open>Properties\<close>

lemma scan_up_least:
  assumes "\<And>j. i \<le> j \<Longrightarrow> j \<le> e \<Longrightarrow> p j = Some (q j)"
  shows "\<exists>r. scan_up p i e d = Some r \<and>
     (if \<exists>j. i \<le> j \<and> j \<le> e \<and> q j then i \<le> r \<and> r \<le> e \<and> q r \<and> (\<forall>j. i \<le> j \<longrightarrow> j < r \<longrightarrow> \<not> q j)
      else r = d)"
  using scan_up_spec [of i e p q d] assms by (metis order_less_imp_le)

lemma scan_down_greatest:
  assumes "\<And>j. e \<le> j \<Longrightarrow> j \<le> i \<Longrightarrow> p j = Some (q j)"
  shows "\<exists>r. scan_down p i e d = Some r \<and>
     (if \<exists>j. e \<le> j \<and> j \<le> i \<and> q j then e \<le> r \<and> r \<le> i \<and> q r \<and> (\<forall>j. r < j \<longrightarrow> j \<le> i \<longrightarrow> \<not> q j)
      else r = d)"
  using scan_down_spec [of e i p q d] assms by (metis order_less_imp_le)

lemma put_zero_sweep:
  assumes ok: "ii_ok inode" and lo: "0 \<le> ii_bstart (i_iinfo inode)"
  shows "\<exists>inode' k'. for_up (put_zero d wrf sb) (ii_bstart (i_iinfo inode)) (ii_bend (i_iinfo inode)) (inode, k)
       = Some (inode', k')
     \<and> ii_ok inode' \<and> ii_bstart (i_iinfo inode') = ii_bstart (i_iinfo inode)
     \<and> ii_bend (i_iinfo inode') = ii_bend (i_iinfo inode)
     \<and> (\<forall>i. islot inode' i = (if \<exists>h. islot inode i = Some h \<and> k_inlink k h = 0 then None else islot inode i))
     \<and> (\<forall>h. k_icount k' h = k_icount k h
          - int (card {i. islot inode i = Some h \<and> k_inlink k h = 0}))"
proof -
  let ?l = "ii_bstart (i_iinfo inode)" and ?h = "ii_bend (i_iinfo inode)" and ?P = "\<lambda>a. k_inlink k a = 0"
  have le: "?l \<le> ?h" using ok by (simp add: ii_ok_def)
  have "\<exists>t. for_up (put_zero d wrf sb) ?l ?h (inode, k) = Some t
      \<and> islots.swept (k_inlink k) ?P ?l (?h + 1) (inode, k) t"
  proof (rule islots.sweep_loop [where s = "(inode, k)" and d = d and wrf = wrf and sb = sb
        and nl = "k_inlink k", unfolded split])
    show "ii_ok inode \<and> k_inlink k = k_inlink k" using ok by simp
    show "0 \<le> ?l" "?l \<le> ?h" by (fact lo le)+
    fix i t assume i: "?l \<le> i" "i \<le> ?h" and sw: "islots.swept (k_inlink k) ?P ?l i (inode, k) t"
    then obtain inode' k' where t: "t = (inode', k')" "ii_ok inode'" "k_inlink k' = k_inlink k"
        "islot inode' i = islot inode i" "ii_bend (i_iinfo inode') = ?h"
      by (cases t) (auto simp: islots.swept_def)
    have len: "0 \<le> i" "i < int (length (the_hi inode'))" using t(2,5) i lo by (auto simp: ii_ok_def)
    have "hi_inode (the_hi inode' ! nat i) = islot inode i"
      using t(4) len by (simp add: islot_def)
    then show "put_zero d wrf sb i t = (if \<exists>a. islot inode i = Some a \<and> ?P a
        then map_option (Pair True) (case t of (inode, k) \<Rightarrow> map_option (\<lambda>(inode, _, k). (inode, k))
               (set_h_iptr d wrf inode i None 0 sb k))
        else Some (True, t))"
      using hinode_at_ok [OF t(2) len] t(3)
      by (auto simp: put_zero_def t(1) option.map_comp comp_def split_def map_option_bind bind_Some_map
          split: option.splits)
  qed
  then obtain inode' k' where f: "for_up (put_zero d wrf sb) ?l ?h (inode, k) = Some (inode', k')"
    and sw: "islots.swept (k_inlink k) ?P ?l (?h + 1) (inode, k) (inode', k')" by auto
  have r: "(?l \<le> i \<and> i < ?h + 1 \<and> islot inode i = Some h \<and> ?P h) = (islot inode i = Some h \<and> ?P h)" for i h
    using ok by (force simp: ii_ok_def)
  have r2: "(?l \<le> i \<and> i < ?h + 1 \<and> (\<exists>h. islot inode i = Some h \<and> ?P h))
      = (\<exists>h. islot inode i = Some h \<and> ?P h)" for i
    using r by blast
  show ?thesis
    using f sw unfolding islots.swept_def split r r2 by blast
qed

lemma brange_scan:
  assumes ok: "ii_ok inode" and lo: "0 \<le> ii_bstart (i_iinfo inode)"
  defines "ii \<equiv> i_iinfo inode"
  defines "used \<equiv> \<lambda>i. do { a \<leftarrow> ii_hinode ii; hi \<leftarrow> aget a i; Some (hi_inode hi \<noteq> None) }"
  shows "\<exists>inode' bstart. scan_up used 0 (ii_bend ii) (ii_bend ii + 1) = Some bstart
     \<and> (if ii_bend ii < bstart then Some (inode\<lparr>i_iinfo := ii\<lparr>ii_bstart := - 1, ii_bend := - 1\<rparr>\<rparr>, k)
        else do { bend \<leftarrow> scan_down used (ii_bend ii) 0 (- 1);
                  Some (inode\<lparr>i_iinfo := ii\<lparr>ii_bstart := bstart, ii_bend := bend\<rparr>\<rparr>, k) }) = Some (inode', k)
     \<and> ii_ok inode' \<and> islot inode' = islot inode
     \<and> (if \<exists>i. islot inode i \<noteq> None
        then islot inode (ii_bstart (i_iinfo inode')) \<noteq> None \<and> islot inode (ii_bend (i_iinfo inode')) \<noteq> None
        else ii_bstart (i_iinfo inode') = - 1 \<and> ii_bend (i_iinfo inode') = - 1)"
proof -
  let ?q = "\<lambda>i. islot inode i \<noteq> None" and ?e = "ii_bend ii"
  have len: "?e < int (length (the_hi inode))" and a: "ii_hinode ii = Some (the_hi inode)"
    using ok by (auto simp: ii_ok_def ii_def the_hi_def)
  have used: "used j = Some (?q j)" if "0 \<le> j" "j \<le> ?e" for j
    using that len by (simp add: used_def a islot_def)
  have range: "0 \<le> j \<and> j \<le> ?e" if "?q j" for j
  proof -
    have "ii_bstart ii \<le> j \<and> j \<le> ?e" using ok that by (auto simp: ii_ok_def ii_def)
    with lo show ?thesis by (simp add: ii_def)
  qed
  have ex: "(\<exists>j. 0 \<le> j \<and> j \<le> ?e \<and> ?q j) = (\<exists>j. ?q j)" using range by blast
  have same: "islot (inode\<lparr>i_iinfo := ii\<lparr>ii_bstart := b, ii_bend := e\<rparr>\<rparr>) = islot inode" for b e
    by (rule ext) (simp add: islot_def the_hi_def ii_def)
  have upd: "the_hi (inode\<lparr>i_iinfo := ii\<lparr>ii_bstart := b, ii_bend := e\<rparr>\<rparr>) = the_hi inode" for b e
    by (simp add: the_hi_def ii_def)
  obtain b where b: "scan_up used 0 ?e (?e + 1) = Some b"
    "if \<exists>j. ?q j then 0 \<le> b \<and> b \<le> ?e \<and> ?q b \<and> (\<forall>j. 0 \<le> j \<longrightarrow> j < b \<longrightarrow> \<not> ?q j) else b = ?e + 1"
    using scan_up_least [of 0 ?e used ?q "?e + 1"] used unfolding ex by blast
  obtain e where e: "scan_down used ?e 0 (- 1) = Some e"
    "if \<exists>j. ?q j then 0 \<le> e \<and> e \<le> ?e \<and> ?q e \<and> (\<forall>j. e < j \<longrightarrow> j \<le> ?e \<longrightarrow> \<not> ?q j) else e = - 1"
    using scan_down_greatest [of 0 ?e used ?q "- 1"] used unfolding ex by blast
  show ?thesis
  proof (cases "\<exists>j. ?q j")
    case False
    then have bb: "b = ?e + 1" using b(2) by simp
    have "ii_ok (inode\<lparr>i_iinfo := ii\<lparr>ii_bstart := - 1, ii_bend := - 1\<rparr>\<rparr>)"
      using False by (simp add: ii_ok_def same upd) (simp add: a)
    then show ?thesis using False b(1) bb by (simp add: same)
  next
    case True
    then have bq: "0 \<le> b" "b \<le> ?e" "?q b" "\<forall>j. 0 \<le> j \<longrightarrow> j < b \<longrightarrow> \<not> ?q j"
      and eq: "0 \<le> e" "e \<le> ?e" "?q e" "\<forall>j. e < j \<longrightarrow> j \<le> ?e \<longrightarrow> \<not> ?q j"
      using b(2) e(2) by auto
    have be: "b \<le> e" using bq(2,3) eq(4) by (meson not_le)
    have "b \<le> j \<and> j \<le> e" if "?q j" for j
      using range [OF that] that bq(4) eq(4) by (meson not_le)
    then have "ii_ok (inode\<lparr>i_iinfo := ii\<lparr>ii_bstart := b, ii_bend := e\<rparr>\<rparr>)"
      using bq(1,2) eq(1,2) be len by (simp add: ii_ok_def same upd) (simp add: a)
    then show ?thesis using True b(1) e(1) bq eq by (simp add: same)
  qed
qed

text \<open>
  Narrowing the range of an inode leaves \<open>ii_bstart\<close> and \<open>ii_bend\<close> at the first and
  the last hidden inode that remain, or both at -1 if none does; with \<open>do_put_zero\<close>
  exactly the hidden inodes without links are dropped, each slot giving one
  reference back, and no assertion fires.
\<close>

theorem au_update_brange_exact:
  assumes ok: "ii_ok inode" and lo: "0 \<le> ii_bstart (i_iinfo inode)"
  shows "\<exists>inode' k'. au_update_brange d wrf sb inode do_put_zero k = Some (inode', k') \<and> ii_ok inode'
     \<and> (\<forall>i. islot inode' i = (if do_put_zero \<and> (\<exists>h. islot inode i = Some h \<and> k_inlink k h = 0)
          then None else islot inode i))
     \<and> (if \<exists>i. islot inode' i \<noteq> None
        then islot inode' (ii_bstart (i_iinfo inode')) \<noteq> None
           \<and> islot inode' (ii_bend (i_iinfo inode')) \<noteq> None
        else ii_bstart (i_iinfo inode') = - 1 \<and> ii_bend (i_iinfo inode') = - 1)
     \<and> (\<forall>h. k_icount k' h = k_icount k h
          - (if do_put_zero then int (card {i. islot inode i = Some h \<and> k_inlink k h = 0}) else 0))"
proof -
  obtain i1 k1 where p: "(if do_put_zero
        then for_up (put_zero d wrf sb) (ii_bstart (i_iinfo inode)) (ii_bend (i_iinfo inode)) (inode, k)
        else Some (inode, k)) = Some (i1, k1)"
    and i1: "ii_ok i1" "ii_bstart (i_iinfo i1) = ii_bstart (i_iinfo inode)"
      "\<forall>i. islot i1 i = (if do_put_zero \<and> (\<exists>h. islot inode i = Some h \<and> k_inlink k h = 0)
          then None else islot inode i)"
      "\<forall>h. k_icount k1 h = k_icount k h
          - (if do_put_zero then int (card {i. islot inode i = Some h \<and> k_inlink k h = 0}) else 0)"
    using put_zero_sweep [OF ok lo, of d wrf sb k] ok by (cases do_put_zero) auto
  have lo1: "0 \<le> ii_bstart (i_iinfo i1)" and nlo: "(ii_bstart (i_iinfo inode) < 0) = False"
    using lo i1(2) by simp_all
  from brange_scan [OF i1(1) lo1, of k1] obtain i2 b where
    b: "scan_up (\<lambda>i. do { a \<leftarrow> ii_hinode (i_iinfo i1); hi \<leftarrow> aget a i; Some (hi_inode hi \<noteq> None) })
       0 (ii_bend (i_iinfo i1)) (ii_bend (i_iinfo i1) + 1) = Some b" and
    r: "(if ii_bend (i_iinfo i1) < b
        then Some (i1\<lparr>i_iinfo := (i_iinfo i1)\<lparr>ii_bstart := - 1, ii_bend := - 1\<rparr>\<rparr>, k1)
        else do { bend \<leftarrow> scan_down (\<lambda>i. do { a \<leftarrow> ii_hinode (i_iinfo i1); hi \<leftarrow> aget a i;
                              Some (hi_inode hi \<noteq> None) }) (ii_bend (i_iinfo i1)) 0 (- 1);
                  Some (i1\<lparr>i_iinfo := (i_iinfo i1)\<lparr>ii_bstart := b, ii_bend := bend\<rparr>\<rparr>, k1) })
       = Some (i2, k1)" and
    i2: "ii_ok i2" "islot i2 = islot i1" "if \<exists>i. islot i1 i \<noteq> None
        then islot i1 (ii_bstart (i_iinfo i2)) \<noteq> None \<and> islot i1 (ii_bend (i_iinfo i2)) \<noteq> None
        else ii_bstart (i_iinfo i2) = - 1 \<and> ii_bend (i_iinfo i2) = - 1" by blast
  have "au_update_brange d wrf sb inode do_put_zero k = Some (i2, k1)"
    unfolding au_update_brange_def itoii_ok [OF ok] bind.simps option.case nlo if_False p split Let_def
      b by (rule r)
  then show ?thesis
    using i1(3,4) i2(1,3) unfolding i2(2) [symmetric] by blast
qed

text \<open>A directory inode over three branches, whose first hidden inode is unlinked.\<close>

definition inode0 :: aufs_inode where
  "inode0 = \<lparr>i_ino = 12, i_mode = 0x4000, i_nlink = 2, i_version = 0, i_attr = attr0, i_iinfo =
     \<lparr>ii_generation = 0, ii_bstart = 0, ii_bend = 2,
      ii_hinode = Some (map (\<lambda>h. \<lparr>hi_inode = h, hi_id = 0, hi_notify = None\<rparr>) [Some 5, Some 6, None]),
      ii_vdir = None\<rparr>\<rparr>"

lemma inode0_slots: "islot inode0 i = (if i = 0 then Some 5 else if i = 1 then Some 6 else None)"
  by (auto simp: islot_def inode0_def the_hi_def nth_Cons' split: if_splits)

lemma inode0_ok: "ii_ok inode0"
  by (simp add: ii_ok_def inode0_slots) (simp add: inode0_def the_hi_def)

definition kern_z :: kern where
  "kern_z = kern0\<lparr>k_inlink := (\<lambda>h. if h = 5 then 0 else 1)\<rparr>"

lemma kern_z_fields: "(k_inlink kern_z h = 0) = (h = 5)" "k_icount kern_z h = 1"
  by (simp_all add: kern_z_def kern0_def)

theorem au_update_brange_exact_witness:
  "\<exists>inode' k'. au_update_brange False (\<lambda>_. page_write) (sb0 3) inode0 True kern_z = Some (inode', k')
     \<and> islot inode' 0 = None \<and> islot inode' 1 = Some 6 \<and> k_icount k' 5 = 0 \<and> k_icount k' 6 = 1"
proof -
  have c: "{i. islot inode0 i = Some h \<and> h = 5} = (if h = 5 then {0} else {})" for h
    by (auto simp: inode0_slots split: if_splits)
  have "0 \<le> ii_bstart (i_iinfo inode0)" by (simp add: inode0_def)
  from au_update_brange_exact [OF inode0_ok this, of False "\<lambda>_. page_write" "sb0 3" True kern_z]
  show ?thesis
    unfolding kern_z_fields c simp_thms if_True by (elim exE conjE) (auto simp: inode0_slots)
qed

text \<open>
  When an inode without a listing cache is released, every hidden inode in its
  range loses exactly as many references as it has slots, and the array of slots is
  freed once; the bad inode, which has no array, is left alone.
\<close>

theorem au_iinfo_fin_balanced:
  assumes ok: "ii_ok inode" and lo: "0 \<le> ii_bstart (i_iinfo inode)" and nv: "ii_vdir (i_iinfo inode) = None"
  shows "\<exists>inode' k'. au_iinfo_fin inode k = Some (inode', k') \<and> k_live k' = k_live k - 1
     \<and> (\<forall>h. k_icount k' h = k_icount k h - int (card {i. islot inode i = Some h}))"
proof -
  let ?l = "ii_bstart (i_iinfo inode)" and ?e = "ii_bend (i_iinfo inode)" and ?a = "the_hi inode"
  let ?I = "\<lambda>m t :: kern. k_live t = k_live k
    \<and> (\<forall>h. k_icount t h = k_icount k h - int (card {i. ?l \<le> i \<and> i < m \<and> islot inode i = Some h}))"
  have le: "?l \<le> ?e" "?e < int (length ?a)" "ii_hinode (i_iinfo inode) = Some ?a"
    using ok by (auto simp: ii_ok_def the_hi_def)
  have "\<exists>t. for_up (fin_round ?a) ?l ?e k = Some t \<and> ?I (?e + 1) t"
  proof (rule for_up_total)
    have "{i. ?l \<le> i \<and> i < ?l \<and> islot inode i = Some h} = {}" for h by auto
    then show "?I ?l k" by (simp only:) simp
    show "?l \<le> ?e + 1" using le by simp
    fix j t assume j: "?l \<le> j" "j \<le> ?e" and I: "?I j t"
    have sl: "islot inode j = hi_inode (?a ! nat j)" "aget ?a j = Some (?a ! nat j)"
      using j lo le(2) by (simp_all add: islot_def)
    have "fin_round ?a j t = Some (True, iput (islot inode j) t)"
      using sl by (auto simp: fin_round_def aufs_hiput_def do_free_hinotify_def)
    moreover have "?I (j + 1) (iput (islot inode j) t)"
      using I card_range_step [OF j(1), of "\<lambda>i. islot inode i = Some h" for h] by (simp add: iput_icount)
    ultimately show "\<exists>u. fin_round ?a j t = Some (True, u) \<and> ?I (j + 1) u" by blast
  qed
  then obtain t where t: "for_up (fin_round ?a) ?l ?e k = Some t" "?I (?e + 1) t" by blast
  have "{i. ?l \<le> i \<and> i < ?e + 1 \<and> islot inode i = Some h} = {i. islot inode i = Some h}" for h
    using ok by (force simp: ii_ok_def)
  with t(2) have I: "k_live t = k_live k"
    "\<forall>h. k_icount t h = k_icount k h - int (card {i. islot inode i = Some h})" by simp_all
  have "au_iinfo_fin inode k
      = Some (inode\<lparr>i_iinfo := (i_iinfo inode)\<lparr>ii_bstart := ?e + 2\<rparr>\<rparr>, kfree t)"
    using ok lo nv le t(1) by (simp add: au_iinfo_fin_def itoii_ok)
  then show ?thesis using I by (simp add: kfree_def)
qed

theorem au_iinfo_fin_balanced_witness:
  "\<exists>inode' k'. au_iinfo_fin inode0 kern0 = Some (inode', k') \<and> k_icount k' 6 = 0 \<and> k_icount k' 7 = 1"
proof -
  have "{i. islot inode0 i = Some 6} = {1}" "{i. islot inode0 i = Some 7} = {}"
    by (auto simp: inode0_slots split: if_splits)
  moreover have "0 \<le> ii_bstart (i_iinfo inode0)" "ii_vdir (i_iinfo inode0) = None"
    by (simp_all add: inode0_def)
  ultimately show ?thesis
    using au_iinfo_fin_balanced [OF inode0_ok, of kern0] by (fastforce simp: kern0_def)
qed

end
