(* ===== verification/Aufs_Finfo.thy ===== *)
theory Aufs_Finfo
  imports Aufs_Slots Aufs_Dinfo Aufs_Iinfo
begin

text \<open>
  The info structure of an open file (finfo.c): the array of hidden files, each with
  a reference on its branch, and the range in use. Shown: closing a file gives the
  reference of every hidden file and of every branch back exactly once.
\<close>

record aufs_file =
  private_data :: "aufs_finfo option"
  f_pos :: int
  f_version :: nat

definition ftofi :: "aufs_file \<Rightarrow> aufs_finfo option" where
  "ftofi file =
     do { fi \<leftarrow> private_data file;
          _ \<leftarrow> debug_on (0 < fi_bend fi \<and> fi_bend fi < fi_bstart fi);
          Some fi }"

definition upd_fi :: "(aufs_finfo \<Rightarrow> aufs_finfo) \<Rightarrow> aufs_file \<Rightarrow> aufs_file option" where
  "upd_fi f file = do { fi \<leftarrow> ftofi file; Some (file\<lparr>private_data := Some (f fi)\<rparr>) }"

definition fbstart :: "aufs_file \<Rightarrow> int option" where
  "fbstart file = map_option fi_bstart (ftofi file)"

definition fbend :: "aufs_file \<Rightarrow> int option" where
  "fbend file = map_option fi_bend (ftofi file)"

text \<open>The union is read as the member it holds.\<close>

definition fvdir_cache :: "aufs_file \<Rightarrow> nat option option" where
  "fvdir_cache file =
     do { fi \<leftarrow> ftofi file;
          case fi_u fi of Fi_vdir_cache p \<Rightarrow> Some p | Fi_h_vm_ops _ \<Rightarrow> None }"

definition au_figen :: "aufs_file \<Rightarrow> int option" where
  "au_figen file = map_option fi_generation (ftofi file)"

definition au_digen :: "aufs_dentry \<Rightarrow> int option" where
  "au_digen dentry = map_option di_generation (dtodi dentry)"

definition au_iigen :: "aufs_inode \<Rightarrow> int option" where
  "au_iigen inode = map_option ii_generation (ii_of inode)"

text \<open>The range check of the accessors, and the slot.\<close>

definition hfile_at :: "aufs_finfo \<Rightarrow> int \<Rightarrow> aufs_hfile option" where
  "hfile_at fi bindex =
     do { _ \<leftarrow> debug_on (fi_bstart fi < 0 \<or> bindex < fi_bstart fi \<or> fi_bend fi < bindex);
          aget (fi_hfile fi) bindex }"

definition ftobr :: "aufs_sb \<Rightarrow> aufs_file \<Rightarrow> int \<Rightarrow> nat option option" where
  "ftobr sb file bindex =
     do { fi \<leftarrow> ftofi file; hf \<leftarrow> hfile_at fi bindex;
          _ \<leftarrow> debug_on (case hf_br hf of None \<Rightarrow> False | Some b \<Rightarrow> br_count (s_br sb b) \<le> 0);
          Some (hf_br hf) }"

text \<open>The second assertion reads the branch only when the file has no reference.\<close>

definition au_h_fptr_i :: "aufs_sb \<Rightarrow> kern \<Rightarrow> aufs_file \<Rightarrow> int \<Rightarrow> nat option option" where
  "au_h_fptr_i sb k file bindex =
     do { fi \<leftarrow> ftofi file; hf \<leftarrow> hfile_at fi bindex;
          case hf_file hf of
            None \<Rightarrow> Some None
          | Some f \<Rightarrow> if k_fcount k f \<le> 0
                      then do { b \<leftarrow> hf_br hf; _ \<leftarrow> debug_on (br_count (s_br sb b) \<le> 0); Some (Some f) }
                      else Some (Some f) }"

definition au_h_fptr :: "aufs_sb \<Rightarrow> kern \<Rightarrow> aufs_file \<Rightarrow> nat option option" where
  "au_h_fptr sb k file = do { bstart \<leftarrow> fbstart file; au_h_fptr_i sb k file bstart }"

definition set_fbstart :: "aufs_sb \<Rightarrow> aufs_file \<Rightarrow> int \<Rightarrow> aufs_file option" where
  "set_fbstart sb file bindex =
     do { _ \<leftarrow> debug_on (sbend sb < bindex); upd_fi (fi_bstart_update (\<lambda>_. bindex)) file }"

definition set_fbend :: "aufs_sb \<Rightarrow> aufs_file \<Rightarrow> int \<Rightarrow> aufs_file option" where
  "set_fbend sb file bindex =
     do { _ \<leftarrow> debug_on (sbend sb < bindex);
          bstart \<leftarrow> fbstart file;
          _ \<leftarrow> debug_on (bindex < bstart);
          upd_fi (fi_bend_update (\<lambda>_. bindex)) file }"

definition set_fvdir_cache :: "aufs_inode \<Rightarrow> aufs_file \<Rightarrow> nat option \<Rightarrow> aufs_file option" where
  "set_fvdir_cache inode file vdir_cache =
     do { _ \<leftarrow> debug_on (\<not> S_ISDIR (i_mode inode));
          old \<leftarrow> fvdir_cache file;
          _ \<leftarrow> debug_on (old \<noteq> None \<and> vdir_cache \<noteq> None);
          upd_fi (fi_u_update (\<lambda>_. Fi_vdir_cache vdir_cache)) file }"

definition au_hfput :: "aufs_hfile \<Rightarrow> aufs_sb \<Rightarrow> kern \<Rightarrow> (aufs_hfile \<times> aufs_sb \<times> kern) option" where
  "au_hfput hf sb k =
     do { f \<leftarrow> hf_file hf;
          let k = fput f k;
          _ \<leftarrow> debug_on (hf_br hf = None);
          b \<leftarrow> hf_br hf;
          Some (hf\<lparr>hf_file := None, hf_br := None\<rparr>, br_put b sb, k) }"

definition set_h_fptr ::
    "aufs_file \<Rightarrow> int \<Rightarrow> nat option \<Rightarrow> aufs_sb \<Rightarrow> kern \<Rightarrow> (aufs_file \<times> aufs_sb \<times> kern) option" where
  "set_h_fptr file bindex val sb k =
     do { fi \<leftarrow> ftofi file;
          hf \<leftarrow> hfile_at fi bindex;
          _ \<leftarrow> debug_on (case val of None \<Rightarrow> False | Some f \<Rightarrow> k_fcount k f \<le> 0);
          _ \<leftarrow> debug_on (val \<noteq> None \<and> hf_file hf \<noteq> None);
          (hf, sb, k) \<leftarrow> (if hf_file hf \<noteq> None then au_hfput hf sb k else Some (hf, sb, k));
          hf \<leftarrow> (if val \<noteq> None
                 then do { b \<leftarrow> stobr sb bindex; Some (hf\<lparr>hf_file := val, hf_br := Some b\<rparr>) }
                 else Some hf);
          arr \<leftarrow> aset (fi_hfile fi) bindex hf;
          Some (file\<lparr>private_data := Some (fi\<lparr>fi_hfile := arr\<rparr>)\<rparr>, sb, k) }"

definition au_update_figen :: "aufs_dentry \<Rightarrow> aufs_file \<Rightarrow> aufs_file option" where
  "au_update_figen dentry file = do { g \<leftarrow> au_digen dentry; upd_fi (fi_generation_update (\<lambda>_. g)) file }"

definition fin_put :: "int \<Rightarrow> aufs_file \<times> aufs_sb \<times> kern \<Rightarrow> (bool \<times> aufs_file \<times> aufs_sb \<times> kern) option" where
  "fin_put bindex = (\<lambda>(file, sb, k). map_option (Pair True) (set_h_fptr file bindex None sb k))"

text \<open>The check the debugging build makes before the array is freed.\<close>

definition fin_check :: "aufs_finfo \<Rightarrow> int \<Rightarrow> unit \<Rightarrow> (bool \<times> unit) option" where
  "fin_check fi bindex u =
     do { hf \<leftarrow> aget (fi_hfile fi) bindex;
          _ \<leftarrow> debug_on (hf_file hf \<noteq> None \<or> hf_br hf \<noteq> None);
          Some (True, ()) }"

definition au_fin_finfo :: "aufs_file \<Rightarrow> aufs_sb \<Rightarrow> kern \<Rightarrow> (aufs_file \<times> aufs_sb \<times> kern) option" where
  "au_fin_finfo file sb k =
     do { bend \<leftarrow> fbend file;
          bindex \<leftarrow> fbstart file;
          (file, sb, k) \<leftarrow> (if 0 \<le> bindex then for_up fin_put bindex bend (file, sb, k)
                             else Some (file, sb, k));
          finfo \<leftarrow> ftofi file;
          _ \<leftarrow> (if 0 \<le> fi_bstart finfo
                 then do { bend \<leftarrow> fbend file; for_up (fin_check finfo) (fi_bstart finfo) bend () }
                 else Some ());
          Some (file, sb, kfree (kfree k)) }"

text \<open>\<open>u\<close> is what the recycled object holds in its union.\<close>

definition au_init_finfo ::
    "aufs_sb \<Rightarrow> aufs_dentry \<Rightarrow> fi_union \<Rightarrow> aufs_file \<Rightarrow> kern \<Rightarrow> (int \<times> aufs_file \<times> kern) option" where
  "au_init_finfo sb dentry u file k =
     do { _ \<leftarrow> debug_on (d_imode dentry = None);
          let (ok, k) = kmalloc k;
          if \<not> ok then Some (- ENOMEM, file, k)
          else let (ok, k) = kmalloc k
               in if ok
                  then do { g \<leftarrow> au_digen dentry;
                            Some (0, file\<lparr>private_data := Some
                              \<lparr>fi_generation = g,
                               fi_hfile = replicate (nat (sbend sb + 1)) \<lparr>hf_file = None, hf_br = None\<rparr>,
                               fi_bstart = - 1, fi_bend = - 1, fi_u = u\<rparr>\<rparr>, k) }
                  else Some (- ENOMEM, file, kfree k) }"

text \<open>sbinfo.c: a new generation of the superblock reaches the root's dentry and inode.\<close>

definition au_sigen_inc ::
    "aufs_sb \<Rightarrow> aufs_dentry \<Rightarrow> aufs_inode \<Rightarrow> (int \<times> aufs_sb \<times> aufs_dentry \<times> aufs_inode) option" where
  "au_sigen_inc sb s_root s_root_inode =
     (let sb = sb\<lparr>si_generation := si_generation sb + 1\<rparr>
      in do { d \<leftarrow> au_update_digen sb s_root;
              i \<leftarrow> au_update_iigen sb s_root_inode;
              Some (si_generation sb, sb, d, i\<lparr>i_version := i_version i + 1\<rparr>) })"

section \<open>Well-formed file infos\<close>

definition the_hf :: "aufs_file \<Rightarrow> aufs_hfile list" where
  "the_hf file = fi_hfile (the (private_data file))"

definition fstart :: "aufs_file \<Rightarrow> int" where "fstart file = fi_bstart (the (private_data file))"
definition fend :: "aufs_file \<Rightarrow> int" where "fend file = fi_bend (the (private_data file))"

definition fslot :: "aufs_file \<Rightarrow> int \<Rightarrow> nat option" where
  "fslot file i = (if 0 \<le> i \<and> i < int (length (the_hf file)) then hf_file (the_hf file ! nat i) else None)"

definition bslot :: "aufs_file \<Rightarrow> int \<Rightarrow> nat option" where
  "bslot file i = (if 0 \<le> i \<and> i < int (length (the_hf file)) then hf_br (the_hf file ! nat i) else None)"

text \<open>A slot holds a file and its branch, or neither; slots outside of the range are empty.\<close>

definition fi_ok :: "aufs_file \<Rightarrow> bool" where
  "fi_ok file \<longleftrightarrow> private_data file \<noteq> None \<and> fstart file \<le> fend file
     \<and> fend file < int (length (the_hf file))
     \<and> (\<forall>i. (fslot file i = None) = (bslot file i = None))
     \<and> (\<forall>i. fslot file i \<noteq> None \<longrightarrow> fstart file \<le> i \<and> i \<le> fend file)"

lemma ftofi_ok [simp]: "fi_ok file \<Longrightarrow> ftofi file = Some (the (private_data file))"
  by (auto simp: fi_ok_def ftofi_def fstart_def fend_def)

definition clear_hf :: "int \<Rightarrow> aufs_file \<Rightarrow> aufs_file" where
  "clear_hf i file = file\<lparr>private_data := Some ((the (private_data file))\<lparr>fi_hfile :=
     (the_hf file)[nat i := (the_hf file ! nat i)\<lparr>hf_file := None, hf_br := None\<rparr>]\<rparr>)\<rparr>"

lemma clear_hf_fields [simp]:
  "fstart (clear_hf i file) = fstart file" "fend (clear_hf i file) = fend file"
  "length (the_hf (clear_hf i file)) = length (the_hf file)"
  by (simp_all add: clear_hf_def fstart_def fend_def the_hf_def)

lemma slots_clear:
  assumes "0 \<le> i" "i < int (length (the_hf file))"
  shows "fslot (clear_hf i file) j = (if j = i then None else fslot file j)"
    and "bslot (clear_hf i file) j = (if j = i then None else bslot file j)"
  using assms by (auto simp: fslot_def bslot_def clear_hf_def the_hf_def nth_list_update)

lemma fi_ok_clear:
  "fi_ok file \<Longrightarrow> 0 \<le> i \<Longrightarrow> i < int (length (the_hf file)) \<Longrightarrow> fi_ok (clear_hf i file)"
  by (simp add: fi_ok_def slots_clear) (simp add: clear_hf_def)

definition drop_br :: "nat option \<Rightarrow> aufs_sb \<Rightarrow> aufs_sb" where
  "drop_br p sb = (case p of None \<Rightarrow> sb | Some b \<Rightarrow> br_put b sb)"

definition drop_file :: "nat option \<Rightarrow> kern \<Rightarrow> kern" where
  "drop_file p k = (case p of None \<Rightarrow> k | Some f \<Rightarrow> fput f k)"

lemma drop_counts:
  "br_count (s_br (drop_br p sb) a) = br_count (s_br sb a) - (if p = Some a then 1 else 0)"
  "k_fcount (drop_file q k) f = k_fcount k f - (if q = Some f then 1 else 0)"
  by (auto simp: drop_br_def br_put_def upd_br_def drop_file_def fput_def split: option.split)

lemma clear_none: "hf_file h = None \<Longrightarrow> hf_br h = None \<Longrightarrow> h\<lparr>hf_file := None, hf_br := None\<rparr> = h"
  by (cases h) simp

lemma set_h_fptr_clear:
  assumes ok: "fi_ok file" and i: "0 \<le> fstart file" "fstart file \<le> i" "i \<le> fend file"
  shows "set_h_fptr file i None sb k
     = Some (clear_hf i file, drop_br (bslot file i) sb, drop_file (fslot file i) k)"
proof -
  let ?fi = "the (private_data file)" and ?hf = "the_hf file ! nat i"
  have len: "0 \<le> i" "i < int (length (the_hf file))" using ok i by (auto simp: fi_ok_def)
  have at: "hfile_at ?fi i = Some ?hf"
    using i len by (simp add: hfile_at_def fstart_def fend_def the_hf_def)
  have sl: "fslot file i = hf_file ?hf" "bslot file i = hf_br ?hf"
    using len by (simp_all add: fslot_def bslot_def)
  have eq: "(hf_file ?hf = None) = (hf_br ?hf = None)"
    using ok sl by (metis fi_ok_def)
  have set: "aset (fi_hfile ?fi) i x = Some ((the_hf file)[nat i := x])" for x
    using len by (simp add: the_hf_def)
  show ?thesis
  proof (cases "hf_file ?hf")
    case None
    then have b: "hf_br ?hf = None" using eq by simp
    show ?thesis using ok None b at sl set
      by (simp add: set_h_fptr_def clear_hf_def drop_br_def drop_file_def clear_none)
  next
    case (Some f)
    then obtain b where "hf_br ?hf = Some b" using eq by auto
    then show ?thesis using ok Some at sl set
      by (simp add: set_h_fptr_def au_hfput_def clear_hf_def drop_br_def drop_file_def)
  qed
qed

text \<open>The state of the loop is the file, the superblock and the store.\<close>

definition put_hf :: "int \<Rightarrow> aufs_file \<times> aufs_sb \<times> kern \<Rightarrow> (aufs_file \<times> aufs_sb \<times> kern) option" where
  "put_hf i s = set_h_fptr (fst s) i None (fst (snd s)) (snd (snd s))"

interpretation fslots: info_slots
  "\<lambda>s. fslot (fst s)" "\<lambda>s. fstart (fst s)" "\<lambda>s. fend (fst s)"
  "\<lambda>s. k_fcount (snd (snd s))" put_hf
  "\<lambda>s. fi_ok (fst s) \<and> k_live (snd (snd s)) = l" for l
proof (unfold_locales, clarsimp simp: put_hf_def)
  fix "file" sb k i
  assume ok: "fi_ok file" and i: "0 \<le> fstart file" "fstart file \<le> i" "i \<le> fend file"
  then have len: "0 \<le> i" "i < int (length (the_hf file))" by (auto simp: fi_ok_def)
  have "k_live (drop_file p k) = k_live k" for p
    by (simp add: drop_file_def fput_def split: option.split)
  then show "\<exists>a aa b. set_h_fptr file i None sb k = Some (a, aa, b) \<and> fi_ok a \<and> k_live b = k_live k
      \<and> fstart a = fstart file \<and> fend a = fend file
      \<and> (\<forall>j. (j = i \<longrightarrow> fslot a i = None) \<and> (j \<noteq> i \<longrightarrow> fslot a j = fslot file j))
      \<and> (\<forall>aa. (fslot file i = Some aa \<longrightarrow> k_fcount b aa = k_fcount k aa - 1)
          \<and> (fslot file i \<noteq> Some aa \<longrightarrow> k_fcount b aa = k_fcount k aa))"
    unfolding set_h_fptr_clear [OF ok i] using ok len
    by (auto simp: slots_clear fi_ok_clear drop_counts)
qed

interpretation bslots: info_slots
  "\<lambda>s. bslot (fst s)" "\<lambda>s. fstart (fst s)" "\<lambda>s. fend (fst s)"
  "\<lambda>s a. br_count (s_br (fst (snd s)) a)" put_hf "\<lambda>s. fi_ok (fst s)"
proof (unfold_locales, clarsimp simp: put_hf_def)
  fix "file" sb k i
  assume ok: "fi_ok file" and i: "0 \<le> fstart file" "fstart file \<le> i" "i \<le> fend file"
  then have len: "0 \<le> i" "i < int (length (the_hf file))" by (auto simp: fi_ok_def)
  show "\<exists>a aa. (\<exists>b. set_h_fptr file i None sb k = Some (a, aa, b)) \<and> fi_ok a
      \<and> fstart a = fstart file \<and> fend a = fend file
      \<and> (\<forall>j. (j = i \<longrightarrow> bslot a i = None) \<and> (j \<noteq> i \<longrightarrow> bslot a j = bslot file j))
      \<and> (\<forall>a. (bslot file i = Some a \<longrightarrow> br_count (s_br aa a) = br_count (s_br sb a) - 1)
          \<and> (bslot file i \<noteq> Some a \<longrightarrow> br_count (s_br aa a) = br_count (s_br sb a)))"
    unfolding set_h_fptr_clear [OF ok i] using ok len
    by (auto simp: slots_clear fi_ok_clear drop_counts)
qed

section \<open>Properties\<close>

lemma fin_check_ok:
  assumes ok: "fi_ok file" and lo: "0 \<le> fstart file" and empty: "\<forall>i. fslot file i = None"
  shows "for_up (fin_check (the (private_data file))) (fstart file) (fend file) () = Some ()"
proof -
  have b: "bslot file i = None" for i using ok empty by (simp add: fi_ok_def)
  have "\<exists>t. for_up (fin_check (the (private_data file))) (fstart file) (fend file) () = Some t \<and> True"
  proof (rule for_up_total [of "\<lambda>_ _. True"])
    show "fstart file \<le> fend file + 1" using ok by (simp add: fi_ok_def)
    fix j u assume j: "fstart file \<le> j" "j \<le> fend file"
    then have len: "0 \<le> j" "j < int (length (the_hf file))" using ok lo by (auto simp: fi_ok_def)
    then have "hf_file (the_hf file ! nat j) = None" "hf_br (the_hf file ! nat j) = None"
      using empty b [of j] by (auto simp: fslot_def bslot_def split: if_splits dest: spec [of _ j])
    then show "\<exists>u'. fin_check (the (private_data file)) j u = Some (True, u') \<and> True"
      using len by (simp add: fin_check_def the_hf_def)
  qed simp
  then show ?thesis by simp
qed

text \<open>
  Closing a file gives back exactly one reference for every slot of its range that
  holds a hidden file, on that file and on the branch it was opened on, passes the
  checks of the debugging build and frees the two allocations of the info.
\<close>

theorem au_fin_finfo_balanced:
  assumes ok: "fi_ok file" and lo: "0 \<le> fstart file"
  shows "\<exists>file' sb' k'. au_fin_finfo file sb k = Some (file', sb', k') \<and> k_live k' = k_live k - 2
     \<and> (\<forall>f. k_fcount k' f = k_fcount k f - int (card {i. fslot file i = Some f}))
     \<and> (\<forall>b. br_count (s_br sb' b) = br_count (s_br sb b) - int (card {i. bslot file i = Some b}))"
proof -
  let ?l = "fstart file" and ?e = "fend file" and ?s = "(file, sb, k)"
  have le: "?l \<le> ?e" using ok by (simp add: fi_ok_def)
  have body: "fin_put i t = map_option (Pair True) (put_hf i t)" for i t
    by (simp add: fin_put_def put_hf_def split_def)
  have skip: "set_h_fptr f i None b c = Some (f, b, c)"
    if "fi_ok f" "0 \<le> fstart f" "fstart f \<le> i" "i \<le> fend f" "fslot f i = None" for f i b c
  proof -
    have len: "0 \<le> i" "i < int (length (the_hf f))" "bslot f i = None"
      using that by (auto simp: fi_ok_def)
    have "hf_file (the_hf f ! nat i) = None" "hf_br (the_hf f ! nat i) = None"
      using len that(5) by (simp_all add: fslot_def bslot_def)
    then have "(the_hf f)[nat i := (the_hf f ! nat i)\<lparr>hf_file := None, hf_br := None\<rparr>] = the_hf f"
      by (simp add: clear_none)
    then have "clear_hf i f = f"
      using that(1) by (auto simp: clear_hf_def the_hf_def fi_ok_def)
    then show ?thesis
      using set_h_fptr_clear [OF that(1-4)] that(5) len(3) by (simp add: drop_br_def drop_file_def)
  qed
  have "\<exists>t. for_up fin_put ?l ?e ?s = Some t \<and> fslots.swept (k_live k) (\<lambda>_. True) ?l (?e + 1) ?s t"
    (is "\<exists>t. _ \<and> ?F (?e + 1) t")
  proof (rule fslots.sweep_loop [where s = ?s and l = "k_live k", unfolded fst_conv snd_conv])
    show "fi_ok file \<and> k_live k = k_live k" using ok by simp
    show "0 \<le> ?l" "?l \<le> ?e" by (fact lo le)+
    fix i t assume i: "?l \<le> i" "i \<le> ?e" and sw: "?F i t"
    then obtain f b c where t: "t = (f, b, c)" "fi_ok f" "fstart f = ?l" "fend f = ?e"
        "fslot f i = fslot file i" by (cases t) (auto simp: fslots.swept_def)
    then show "fin_put i t = (if \<exists>a. fslot file i = Some a \<and> True
        then map_option (Pair True) (put_hf i t)
        else Some (True, t))"
      using skip [of f i b c] i lo by (cases "fslot file i") (auto simp: body put_hf_def)
  qed
  then obtain f1 b1 k1 where run: "for_up fin_put ?l ?e ?s = Some (f1, b1, k1)"
    and F: "?F (?e + 1) (f1, b1, k1)" by auto
  have "\<exists>t. for_up fin_put ?l ?e ?s = Some t \<and> bslots.swept (\<lambda>_. True) ?l (?e + 1) ?s t"
    (is "\<exists>t. _ \<and> ?B (?e + 1) t")
  proof (rule bslots.sweep_loop [where s = ?s, unfolded fst_conv snd_conv])
    show "fi_ok file" "0 \<le> ?l" "?l \<le> ?e" by (fact ok lo le)+
    fix i t assume i: "?l \<le> i" "i \<le> ?e" and sw: "?B i t"
    then obtain f b c where t: "t = (f, b, c)" "fi_ok f" "fstart f = ?l" "fend f = ?e"
        "bslot f i = bslot file i" by (cases t) (auto simp: bslots.swept_def)
    moreover have "(fslot f i = None) = (bslot file i = None)" using t by (simp add: fi_ok_def)
    ultimately show "fin_put i t = (if \<exists>a. bslot file i = Some a \<and> True
        then map_option (Pair True) (put_hf i t)
        else Some (True, t))"
      using skip [of f i b c] i lo by (cases "bslot file i") (auto simp: body put_hf_def)
  qed
  then have B: "?B (?e + 1) (f1, b1, k1)" using run by simp
  have r: "(?l \<le> i \<and> i < ?e + 1 \<and> fslot file i = Some a) = (fslot file i = Some a)"
    "(?l \<le> i \<and> i < ?e + 1 \<and> bslot file i = Some a) = (bslot file i = Some a)" for i a
    using ok by (force simp: fi_ok_def)+
  have f1: "fi_ok f1" "fstart f1 = ?l" "fend f1 = ?e" "k_live k1 = k_live k"
    and sl: "\<forall>i. fslot f1 i = (if \<exists>a. ?l \<le> i \<and> i < ?e + 1 \<and> fslot file i = Some a
        then None else fslot file i)"
    using F by (auto simp: fslots.swept_def)
  have none: "\<forall>i. fslot f1 i = None" using sl unfolding r(1) by (metis not_None_eq)
  have "au_fin_finfo file sb k = Some (f1, b1, kfree (kfree k1))"
    using ok lo run f1 none fin_check_ok [OF f1(1)]
    by (simp add: au_fin_finfo_def fbend_def fbstart_def flip: fstart_def fend_def)
  moreover have "\<forall>f. k_fcount k1 f = k_fcount k f - int (card {i. fslot file i = Some f})"
    "\<forall>b. br_count (s_br b1 b) = br_count (s_br sb b) - int (card {i. bslot file i = Some b})"
    using F B r unfolding fslots.swept_def bslots.swept_def by simp_all
  ultimately show ?thesis using f1(4) by (simp add: kfree_def)
qed

text \<open>A file over three branches, open on the first and the last.\<close>

definition file0 :: aufs_file where
  "file0 = \<lparr>private_data = Some \<lparr>fi_generation = 0,
     fi_hfile = [\<lparr>hf_file = Some 8, hf_br = Some 0\<rparr>, \<lparr>hf_file = None, hf_br = None\<rparr>,
       \<lparr>hf_file = Some 9, hf_br = Some 2\<rparr>],
     fi_bstart = 0, fi_bend = 2, fi_u = Fi_vdir_cache None\<rparr>, f_pos = 0, f_version = 0\<rparr>"

lemma file0_slots:
  "fslot file0 i = (if i = 0 then Some 8 else if i = 2 then Some 9 else None)"
  "bslot file0 i = (if i = 0 then Some 0 else if i = 2 then Some 2 else None)"
  by (auto simp: fslot_def bslot_def file0_def the_hf_def nth_Cons' split: if_splits)

lemma file0_ok: "fi_ok file0"
  by (simp add: fi_ok_def file0_slots) (simp add: file0_def fstart_def fend_def the_hf_def)

theorem au_fin_finfo_balanced_witness:
  "\<exists>file' sb' k'. au_fin_finfo file0 (sb0 3) kern0 = Some (file', sb', k')
     \<and> k_fcount k' 9 = 0 \<and> k_fcount k' 7 = 1"
proof -
  have "{i. fslot file0 i = Some 9} = {2}" "{i. fslot file0 i = Some 7} = {}"
    by (auto simp: file0_slots split: if_splits)
  moreover have "0 \<le> fstart file0" by (simp add: file0_def fstart_def)
  ultimately show ?thesis
    using au_fin_finfo_balanced [OF file0_ok, of "sb0 3" kern0] by (fastforce simp: kern0_def)
qed

end
