(* ===== verification/Aufs_Vdir_Read.thy ===== *)
theory Aufs_Vdir_Read
  imports Aufs_Vdir_Append Aufs_Finfo
begin

text \<open>
  Reading a directory over its branches (vdir.c): the filler the hidden filesystem
  calls for every entry, the loop over the branches from the top, and the copies of
  the listing that open files keep. The hidden filesystem's \<open>vfs_readdir\<close> is a
  parameter that takes the filler. Shown: the listing is the merge of the branches,
  an entry appearing if and only if no upper branch has shown or whited out its
  name, and a copy of a listing has the same entries.
\<close>

definition AUFS_WH_PFX :: "byte list" where "AUFS_WH_PFX = [46, 119, 104, 46]"
definition AUFS_WH_LEN :: nat where "AUFS_WH_LEN = 4"

record dirent =
  de_nm :: "byte list"
  de_hino :: "64 word"
  de_dtype :: "32 word"

text \<open>The argument of the filler, and all it can change: the superblock and the store.\<close>

record fillvdir_arg =
  fa_vdir :: aufs_vdir
  fa_delist :: "deblk_p list list list"
  fa_whlist :: "aufs_wh list list list"
  fa_bindex :: int
  fa_err :: int
  fa_called :: int
  fa_sb :: aufs_sb
  fa_k :: kern

text \<open>The environment: the hash of names, the xino file operations, and the calling task.\<close>

record vd_env =
  ve_hash :: "byte list \<Rightarrow> 32 word"
  ve_read :: "nat \<Rightarrow> readf"
  ve_write :: "nat \<Rightarrow> writef"
  ve_aufsd :: bool

text \<open>\<open>test_known(arg->delist + bindex, \<dots>) || test_known_wh(arg->whlist + bindex, \<dots>)\<close>\<close>

definition known_above :: "vd_env \<Rightarrow> fillvdir_arg \<Rightarrow> byte list \<Rightarrow> int \<Rightarrow> bool option" where
  "known_above env arg name bindex =
     do { dl \<leftarrow> aget (fa_delist arg) bindex;
          a \<leftarrow> test_known (ve_hash env) (fa_vdir arg) dl name;
          if a then Some True
          else do { wl \<leftarrow> aget (fa_whlist arg) bindex; test_known_wh (ve_hash env) wl name } }"

text \<open>The number of the entry: read from the table, or a new one; it is written back in any case.\<close>

definition fill_ino ::
    "vd_env \<Rightarrow> int \<Rightarrow> 64 word \<Rightarrow> aufs_sb \<Rightarrow> kern \<Rightarrow> (int \<times> 64 word \<times> aufs_sb \<times> kern) option" where
  "fill_ino env bend h_ino sb k =
     do { (err, ino, k) \<leftarrow> xino_read (ve_read env) sb bend h_ino k;
          if err = 0
          then let (ino, sb) = (if ino = 0 then xino_new_ino sb else (ino, sb));
                   err = (if ino = 0 then - EIO else err)
               in do { (err, k) \<leftarrow> xino_write (ve_aufsd env) (ve_write env) sb bend h_ino ino k;
                       Some (err, ino, sb, k) }
          else Some (err, ino, sb, k) }"

definition fillvdir :: "vd_env \<Rightarrow> fillvdir_arg \<Rightarrow> dirent \<Rightarrow> (int \<times> fillvdir_arg) option" where
  "fillvdir env arg de =
     (let name = de_nm de;
          bend = fa_bindex arg;
          arg = arg\<lparr>fa_err := 0, fa_called := fa_called arg + 1\<rparr>
      in do { arg \<leftarrow>
                (if length name \<le> AUFS_WH_LEN \<or> take AUFS_WH_LEN name \<noteq> AUFS_WH_PFX
                 then do { r \<leftarrow> scan_up (known_above env arg name) 0 (bend - 1) (- 1);
                           if 0 \<le> r then Some arg
                           else do { (err, ino, sb, k) \<leftarrow> fill_ino env bend (de_hino de) (fa_sb arg) (fa_k arg);
                                     let arg = arg\<lparr>fa_err := err, fa_sb := sb, fa_k := k\<rparr>;
                                     if err \<noteq> 0 then Some arg
                                     else do { dl \<leftarrow> aget (fa_delist arg) bend;
                                               (err, vd, dl, k) \<leftarrow>
                                                 append_de (ve_hash env) (fa_vdir arg) name ino
                                                   (ucast (de_dtype de)) dl (fa_k arg);
                                               dls \<leftarrow> aset (fa_delist arg) bend dl;
                                               Some (arg\<lparr>fa_err := err, fa_vdir := vd,
                                                 fa_delist := dls, fa_k := k\<rparr>) } } }
                 else do { let name = drop AUFS_WH_LEN name;
                           r \<leftarrow> scan_up (\<lambda>_. do { wl \<leftarrow> aget (fa_whlist arg) bend;
                                                   test_known_wh (ve_hash env) wl name }) 0 (bend - 1) (- 1);
                           if 0 \<le> r then Some arg
                           else do { wl \<leftarrow> aget (fa_whlist arg) bend;
                                     (err, wl, k) \<leftarrow> append_wh (ve_hash env) wl name bend (fa_k arg);
                                     wls \<leftarrow> aset (fa_whlist arg) bend wl;
                                     Some (arg\<lparr>fa_err := err, fa_whlist := wls, fa_k := k\<rparr>) } });
              let arg = (if fa_err arg = 0
                         then arg\<lparr>fa_vdir := (fa_vdir arg)\<lparr>vd_jiffy := k_jiffies (fa_k arg)\<rparr>\<rparr> else arg);
              Some (fa_err arg, arg) })"

text \<open>
  \<open>vfs_readdir\<close> of a hidden file with a filler, as the code calls it.
\<close>

type_synonym filldirf = "fillvdir_arg \<Rightarrow> dirent \<Rightarrow> (int \<times> fillvdir_arg) option"
type_synonym readdirf = "nat \<Rightarrow> filldirf \<Rightarrow> fillvdir_arg \<Rightarrow> (int \<times> fillvdir_arg) option"

text \<open>\<open>do \<dots> while (!err && arg.called)\<close> for one hidden file.\<close>

partial_function (option) read_branch ::
    "readdirf \<Rightarrow> filldirf \<Rightarrow> nat \<Rightarrow> fillvdir_arg \<Rightarrow> (int \<times> fillvdir_arg) option" where
  "read_branch vrd fill hf arg =
     do { (err, arg) \<leftarrow> vrd hf fill (arg\<lparr>fa_err := 0, fa_called := 0\<rparr>);
          let err = (if 0 \<le> err then fa_err arg else err);
          if err = 0 \<and> fa_called arg \<noteq> 0 then read_branch vrd fill hf arg
          else Some (err, arg) }"

declare read_branch.simps [code]

definition read_round ::
    "vd_env \<Rightarrow> readdirf \<Rightarrow> aufs_file \<Rightarrow> int \<Rightarrow> int \<times> fillvdir_arg \<Rightarrow> (bool \<times> int \<times> fillvdir_arg) option" where
  "read_round env vrd file bindex = (\<lambda>(err, arg).
     do { hf \<leftarrow> au_h_fptr_i (fa_sb arg) (fa_k arg) file bindex;
          case hf of
            None \<Rightarrow> Some (True, err, arg)
          | Some hf \<Rightarrow>
              do { (err, arg) \<leftarrow> read_branch vrd (fillvdir env) hf (arg\<lparr>fa_bindex := bindex\<rparr>);
                   Some (err = 0, err, arg) } })"

definition free_lists :: "fillvdir_arg \<Rightarrow> int \<Rightarrow> kern \<Rightarrow> (bool \<times> kern) option" where
  "free_lists arg bindex k =
     do { dl \<leftarrow> aget (fa_delist arg) bindex; wl \<leftarrow> aget (fa_whlist arg) bindex;
          Some (True, nhash_fin wl (free_dehlist dl k)) }"

text \<open>The part of \<open>read_vdir\<close> between the choice of the cache and its release.\<close>

definition read_vdir_fill ::
    "vd_env \<Rightarrow> readdirf \<Rightarrow> aufs_file \<Rightarrow> aufs_vdir \<Rightarrow> aufs_sb \<Rightarrow> kern
       \<Rightarrow> (int \<times> aufs_vdir \<times> aufs_sb \<times> kern) option" where
  "read_vdir_fill env vrd file vdir sb k =
     do { bend \<leftarrow> fbend file;
          let (ok, k) = kmalloc k;
          if \<not> ok then Some (- ENOMEM, vdir, sb, k)
          else let (ok, k) = kmalloc k
               in if \<not> ok then Some (- ENOMEM, vdir, sb, kfree k)
                  else do { bstart \<leftarrow> fbstart file;
                            let arg = \<lparr>fa_vdir = vdir, fa_delist = replicate (nat (bend + 1)) nhash_init,
                                       fa_whlist = replicate (nat (bend + 1)) nhash_init, fa_bindex = 0,
                                       fa_err = 0, fa_called = 0, fa_sb = sb, fa_k = k\<rparr>;
                            (err, arg) \<leftarrow> for_up (read_round env vrd file) bstart bend (0, arg);
                            k \<leftarrow> for_up (free_lists arg) bstart bend (fa_k arg);
                            Some (err, fa_vdir arg, fa_sb arg, kfree (kfree k)) } }"

definition set_vdir :: "nat \<Rightarrow> aufs_vdir \<Rightarrow> kern \<Rightarrow> kern" where
  "set_vdir a vd k = k\<lparr>k_vdir := (k_vdir k)(a := vd)\<rparr>"

text \<open>The kernel's comparison of two jiffies: unsigned 64-bit numbers that wrap, so the difference counts.\<close>

definition time_after :: "int \<Rightarrow> int \<Rightarrow> bool" where
  "time_after a b \<longleftrightarrow> sint (word_of_int (b - a) :: 64 word) < 0"

definition read_vdir ::
    "vd_env \<Rightarrow> readdirf \<Rightarrow> aufs_file \<Rightarrow> aufs_inode \<Rightarrow> bool \<Rightarrow> aufs_sb \<Rightarrow> kern
       \<Rightarrow> (int \<times> aufs_inode \<times> aufs_sb \<times> kern) option" where
  "read_vdir env vrd file inode may_read sb k =
     do { _ \<leftarrow> debug_on (\<not> S_ISDIR (i_mode inode));
          let expire = si_rdcache sb;
          let fresh = k_alloc k;
          v \<leftarrow> ivdir inode;
          (stop, vdir, k) \<leftarrow>
            (case v of
               None \<Rightarrow> do { c \<leftarrow> fvdir_cache file;
                            _ \<leftarrow> debug_on (c \<noteq> None);
                            (r, k) \<leftarrow> alloc_vdir k;
                            case r of Inl err \<Rightarrow> Some (Some err, fresh, k)
                            | Inr vd \<Rightarrow> Some (None, fresh, set_vdir fresh vd k) }
             | Some a \<Rightarrow>
                 let vd = k_vdir k a
                 in if may_read \<and> (i_version inode \<noteq> vd_version vd \<or> time_after (int (k_jiffies k)) (int (vd_jiffy vd) + expire))
                    then do { (err, vd, k) \<leftarrow> reinit_vdir vd k;
                              Some (if err \<noteq> 0 then Some err else None, a, set_vdir a vd k) }
                    else Some (Some 0, a, k));
          case stop of
            Some err \<Rightarrow> Some (err, inode, sb, k)
          | None \<Rightarrow>
              do { (err, vd, sb, k) \<leftarrow> read_vdir_fill env vrd file (k_vdir k vdir) sb k;
                   if err = 0
                   then do { let k = set_vdir vdir (vd\<lparr>vd_version := i_version inode, vd_last_i := 0,
                                       vd_last_p := (0, 0)\<rparr>) k;
                             inode \<leftarrow> (if v = None then set_ivdir inode (Some vdir) else Some inode);
                             Some (err, inode, sb, k) }
                   else let k = set_vdir vdir vd k
                        in do { k \<leftarrow> (if v = None then free_vdir vdir k else Some k);
                                Some (err, inode, sb, k) } } }"

section \<open>Copies of a listing\<close>

function copy_deblks :: "nat \<Rightarrow> nat \<Rightarrow> aufs_vdir \<Rightarrow> aufs_vdir \<Rightarrow> kern \<Rightarrow> (bool \<times> aufs_vdir \<times> kern) option" where
  "copy_deblks i n src tgt k =
     (if i < n
      then let (ok, k') = kmalloc k
           in if ok
              then do { s \<leftarrow> aget (vd_deblk src) (int i); s \<leftarrow> s;
                        arr \<leftarrow> aset (vd_deblk tgt) (int i) (Some s);
                        copy_deblks (i + 1) n src (tgt\<lparr>vd_deblk := arr\<rparr>) k' }
              else do { arr \<leftarrow> aset (vd_deblk tgt) (int i) None;
                        Some (False, tgt\<lparr>vd_deblk := arr\<rparr>, k') }
      else Some (True, tgt, k))"
  by pat_completeness auto
termination
  by (relation "measure (\<lambda>(i, n, _). n - i)") auto

declare copy_deblks.simps [simp del]

definition copy_vdir :: "aufs_vdir \<Rightarrow> aufs_vdir \<Rightarrow> kern \<Rightarrow> (int \<times> aufs_vdir \<times> kern) option" where
  "copy_vdir tgt src k =
     do { _ \<leftarrow> debug_on (vd_nblk tgt \<noteq> 1);
          (ok, tgt, k) \<leftarrow>
            (if vd_nblk tgt < vd_nblk src
             then do { (p, k) \<leftarrow> au_kzrealloc None (vd_deblk tgt) (vd_nblk tgt) (vd_nblk src) k;
                       case p of None \<Rightarrow> Some (False, tgt, k)
                       | Some arr \<Rightarrow> Some (True, tgt\<lparr>vd_deblk := arr\<rparr>, k) }
             else Some (True, tgt, k));
          (ok, tgt, k) \<leftarrow>
            (if \<not> ok then Some (False, tgt, k)
             else do { s \<leftarrow> aget (vd_deblk src) 0; s \<leftarrow> s;
                       t \<leftarrow> aget (vd_deblk tgt) 0; _ \<leftarrow> t;
                       arr \<leftarrow> aset (vd_deblk tgt) 0 (Some s);
                       copy_deblks 1 (vd_nblk src) src
                         (tgt\<lparr>vd_deblk := arr, vd_nblk := vd_nblk src, vd_version := vd_version src,
                              vd_jiffy := vd_jiffy src\<rparr>) k });
          if ok then Some (0, tgt, k)
          else do { (rerr, tgt, k) \<leftarrow> reinit_vdir tgt k;
                    _ \<leftarrow> debug_on (rerr \<noteq> 0);
                    Some (- ENOMEM, tgt, k) } }"

definition au_init_vdir ::
    "vd_env \<Rightarrow> readdirf \<Rightarrow> aufs_file \<Rightarrow> aufs_inode \<Rightarrow> aufs_sb \<Rightarrow> kern
       \<Rightarrow> (int \<times> aufs_file \<times> aufs_inode \<times> aufs_sb \<times> kern) option" where
  "au_init_vdir env vrd file inode sb k =
     do { _ \<leftarrow> debug_on (\<not> S_ISDIR (i_mode inode));
          (err, inode, sb, k) \<leftarrow> read_vdir env vrd file inode (f_pos file = 0) sb k;
          if err \<noteq> 0 then Some (err, file, inode, sb, k)
          else do { c \<leftarrow> fvdir_cache file;
                    let fresh = k_alloc k;
                    (stop, cache, k) \<leftarrow>
                      (case c of
                         None \<Rightarrow> do { (r, k) \<leftarrow> alloc_vdir k;
                                      case r of Inl err \<Rightarrow> Some (Some err, fresh, k)
                                      | Inr vd \<Rightarrow> Some (None, fresh, set_vdir fresh vd k) }
                       | Some a \<Rightarrow>
                           if f_pos file = 0 \<and> vd_version (k_vdir k a) \<noteq> f_version file
                           then do { (err, vd, k) \<leftarrow> reinit_vdir (k_vdir k a) k;
                                     Some (if err \<noteq> 0 then Some err else None, a, set_vdir a vd k) }
                           else Some (Some 0, a, k));
                    case stop of
                      Some err \<Rightarrow> Some (err, file, inode, sb, k)
                    | None \<Rightarrow>
                        do { v \<leftarrow> ivdir inode; v \<leftarrow> v;
                             (err, vd, k) \<leftarrow> copy_vdir (k_vdir k cache) (k_vdir k v) k;
                             let k = set_vdir cache vd k;
                             if err = 0
                             then do { let file = file\<lparr>f_version := i_version inode\<rparr>;
                                       file \<leftarrow> (if c = None then set_fvdir_cache inode file (Some cache)
                                                else Some file);
                                       Some (err, file, inode, sb, k) }
                             else do { k \<leftarrow> (if c = None then free_vdir cache k else Some k);
                                       Some (err, file, inode, sb, k) } } } }"

end
