(* ===== verification/Aufs_Vdir_Merge.thy ===== *)
theory Aufs_Vdir_Merge
  imports Aufs_Vdir_Read
begin

text \<open>
  The specification of a merged directory, and the proof that \<open>read_vdir\<close> builds it.
  \<open>merged K bs\<close> is the listing of the branches \<open>bs\<close>, from the top, when the names in
  \<open>K\<close> are hidden; \<open>readdir_ok\<close> is the documented behaviour of \<open>vfs_readdir\<close>.
\<close>

section \<open>The specification\<close>

definition is_whname :: "byte list \<Rightarrow> bool" where
  "is_whname n \<longleftrightarrow> AUFS_WH_LEN < length n \<and> take AUFS_WH_LEN n = AUFS_WH_PFX"

definition shown :: "byte list set \<Rightarrow> dirent list \<Rightarrow> dirent list" where
  "shown K es = filter (\<lambda>e. \<not> is_whname (de_nm e) \<and> de_nm e \<notin> K) es"

definition whited :: "dirent list \<Rightarrow> byte list set" where
  "whited es = (\<lambda>e. drop AUFS_WH_LEN (de_nm e)) ` {e \<in> set es. is_whname (de_nm e)}"

fun hidden :: "byte list set \<Rightarrow> dirent list list \<Rightarrow> byte list set" where
  "hidden K [] = K"
| "hidden K (b # bs) = hidden (K \<union> de_nm ` set (shown K b) \<union> whited b) bs"

fun merged :: "byte list set \<Rightarrow> dirent list list \<Rightarrow> dirent list" where
  "merged K [] = []"
| "merged K (b # bs) = shown K b @ merged (K \<union> de_nm ` set (shown K b) \<union> whited b) bs"

lemma whited_Nil: "whited [] = {}" by (simp add: whited_def)

lemma whited_Cons1:
  "whited (e # es) = (if is_whname (de_nm e) then {drop AUFS_WH_LEN (de_nm e)} else {}) \<union> whited es"
  by (auto simp: whited_def)

lemma hidden_snoc:
  "hidden K (bs @ [b]) = hidden K bs \<union> de_nm ` set (shown (hidden K bs) b) \<union> whited b"
  by (induction bs arbitrary: K) auto

lemma merged_snoc: "merged K (bs @ [b]) = merged K bs @ shown (hidden K bs) b"
  by (induction bs arbitrary: K) auto

text \<open>A name is in the listing at most as often as one branch has it.\<close>

definition nt :: "dirent \<Rightarrow> byte list \<times> byte" where
  "nt e = (de_nm e, ucast (de_dtype e))"

definition vnt :: "entry \<Rightarrow> byte list \<times> byte" where
  "vnt = (\<lambda>(ino, ty, n). (n, ty))"

section \<open>The documented behaviour of the hidden filesystem\<close>

definition adv :: "nat \<Rightarrow> fillvdir_arg \<Rightarrow> fillvdir_arg" where
  "adv hf s = s\<lparr>fa_k := set_fpos hf (k_fpos (fa_k s) hf + 1) (fa_k s)\<rparr>"

fun feed :: "nat \<Rightarrow> filldirf \<Rightarrow> dirent list \<Rightarrow> fillvdir_arg \<Rightarrow> (int \<times> fillvdir_arg) option" where
  "feed hf fill [] s = Some (0, s)"
| "feed hf fill (e # es) s =
     do { (r, s) \<leftarrow> fill s e; if r \<noteq> 0 then Some (0, s) else feed hf fill es (adv hf s) }"

definition readdir_ok :: "readdirf \<Rightarrow> (nat \<Rightarrow> dirent list) \<Rightarrow> bool" where
  "readdir_ok vrd C \<longleftrightarrow> (\<forall>hf fill s.
     vrd hf fill s = feed hf fill (drop (unat (k_fpos (fa_k s) hf)) (C hf)) s)"

section \<open>Tables of whiteouts\<close>

definition wl_ok :: "(byte list \<Rightarrow> 32 word) \<Rightarrow> aufs_wh list list \<Rightarrow> byte list set \<Rightarrow> bool" where
  "wl_ok fnh wl W \<longleftrightarrow> length wl = AUFS_NHASH_SIZE
     \<and> (\<forall>h < AUFS_NHASH_SIZE. (\<forall>w \<in> set (wl ! h). unat (wh_len w) = length (wh_name w))
          \<and> wh_name ` set (wl ! h) = {n \<in> W. au_name_hash fnh n = h})"

lemma wl_ok_init: "wl_ok fnh nhash_init {}"
  by (simp add: wl_ok_def nhash_init_def)

lemma test_known_wh_ok:
  assumes "wl_ok fnh wl W"
  shows "test_known_wh fnh wl n = Some (n \<in> W)"
proof -
  let ?h = "au_name_hash fnh n"
  have a: "aget wl (int ?h) = Some (wl ! ?h)" using assms by (simp add: wl_ok_def)
  have w: "\<forall>w \<in> set (wl ! ?h). unat (wh_len w) = length (wh_name w)"
    "wh_name ` set (wl ! ?h) = {m \<in> W. au_name_hash fnh m = ?h}"
    using assms au_name_hash_less [of fnh n] unfolding wl_ok_def by blast+
  have "list_ex (\<lambda>w. unat (wh_len w) = length n \<and> take (length n) (wh_name w) = n) (wl ! ?h)
      = (n \<in> wh_name ` set (wl ! ?h))"
    using w(1) by (auto simp: list_ex_iff)
  also have "\<dots> = (n \<in> W)" unfolding w(2) by simp
  finally show ?thesis using a by (simp add: test_known_wh_def)
qed

lemma append_wh_ok:
  assumes "wl_ok fnh wl W" and "length n \<le> 255" and "\<forall>i. k_ok k i"
  shows "\<exists>w. append_wh fnh wl n b k
       = Some (0, wl[au_name_hash fnh n := w # wl ! au_name_hash fnh n], kmem 1 1 k)
     \<and> wl_ok fnh (wl[au_name_hash fnh n := w # wl ! au_name_hash fnh n]) (insert n W)"
proof -
  let ?h = "au_name_hash fnh n" and ?w = "\<lparr>wh_bindex = b, wh_len = of_nat (length n), wh_name = n\<rparr>"
  have len: "length wl = AUFS_NHASH_SIZE" using assms(1) by (simp add: wl_ok_def)
  have "unat (of_nat (length n) :: byte) = length n" using assms(2) by (simp add: unat_of_nat)
  then have "wl_ok fnh (wl[?h := ?w # wl ! ?h]) (insert n W)"
    using assms(1) by (auto simp: wl_ok_def nth_list_update)
  moreover have "append_wh fnh wl n b k = Some (0, wl[?h := ?w # wl ! ?h], kmem 1 1 k)"
    using assms(3) len by (simp add: append_wh_def kmem_malloc Let_def)
  ultimately show ?thesis by blast
qed

section \<open>The number of an entry\<close>

definition xino_all :: "vd_env \<Rightarrow> aufs_sb \<Rightarrow> kern \<Rightarrow> int \<Rightarrow> bool" where
  "xino_all env sb k bend \<longleftrightarrow>
     (\<forall>b. 0 \<le> b \<longrightarrow> b \<le> bend \<longrightarrow> (\<exists>f. xino_ready (ve_read env) (ve_write env) sb b f k))"

text \<open>What the filler leaves alone in the store.\<close>

definition kframe :: "kern \<Rightarrow> kern \<Rightarrow> bool" where
  "kframe k k' \<longleftrightarrow> k_ok k' = k_ok k \<and> k_fcount k' = k_fcount k \<and> k_fpos k' = k_fpos k
     \<and> k_alloc k \<le> k_alloc k' \<and> k_vdir k' = k_vdir k"

lemma kframe_refl [simp]: "kframe k k" and kframe_kmem [simp]: "kframe k k' \<Longrightarrow> kframe k (kmem a l k')"
  and kframe_trans: "kframe k k' \<Longrightarrow> kframe k' k'' \<Longrightarrow> kframe k k''"
  by (simp_all add: kframe_def kmem_def)

lemma xino_all_kmem [simp]: "xino_all env sb (kmem a l k) = xino_all env sb k"
  by (rule ext) (simp add: xino_all_def xino_ready_def kmem_def)

lemma xino_all_xino [simp]: "xino_all env (sb\<lparr>si_xino := x\<rparr>) k = xino_all env sb k"
  by (rule ext) (simp add: xino_all_def xino_ready_def sbr_def stobr_def sbend_def au_flag_test_def)

lemma xino_all_write:
  assumes "xino_all env sb k bend" and "xino_ready (ve_read env) (ve_write env) sb b f k"
    and "unat h < 2 ^ 58"
  shows "xino_all env sb
     (k\<lparr>k_fdata := (k_fdata k)(f := file_write (k_fdata k f) (8 * unat h) (le_store ino))\<rparr>) bend"
  unfolding xino_all_def
proof (intro allI impI)
  let ?k = "k\<lparr>k_fdata := (k_fdata k)(f := file_write (k_fdata k f) (8 * unat h) (le_store ino))\<rparr>"
  fix b' assume "0 \<le> b'" "b' \<le> bend"
  with assms(1) obtain f' where f': "xino_ready (ve_read env) (ve_write env) sb b' f' k"
    unfolding xino_all_def by blast
  have "xino_ready (ve_read env) (ve_write env) sb b' f' ?k"
  proof (cases "f' = f")
    case True
    then show ?thesis using xino_ready_write [OF f' assms(3)] by simp
  next
    case False
    then show ?thesis using f' by (simp add: xino_ready_def)
  qed
  then show "\<exists>f. xino_ready (ve_read env) (ve_write env) sb b' f ?k" by blast
qed

lemma xino_new_ino_form: "\<exists>ino x. xino_new_ino sb = (ino, sb\<lparr>si_xino := x\<rparr>)"
proof (cases "2 \<le> si_xino sb + 1")
  case True
  then show ?thesis by (auto simp: xino_new_ino_def Let_def)
next
  case False
  then have "xino_new_ino sb = (0, sb\<lparr>si_xino := si_xino sb\<rparr>)" by (simp add: xino_new_ino_def Let_def)
  then show ?thesis by blast
qed

lemma fill_ino_ok:
  assumes x: "xino_all env sb k bend" and b: "0 \<le> b" "b \<le> bend" and h: "unat h < 2 ^ 58"
  shows "\<exists>ino sb' k' x. fill_ino env b h sb k = Some (0, ino, sb', k') \<and> sb' = sb\<lparr>si_xino := x\<rparr>
     \<and> kframe k k' \<and> k_live k' = k_live k \<and> xino_all env sb' k' bend"
proof -
  from x b obtain f where f: "xino_ready (ve_read env) (ve_write env) sb b f k"
    unfolding xino_all_def by blast
  have pos: "unat (xino_pos h) + 8 < 2 ^ 63" using h by (simp add: xino_pos_unat)
  obtain ino x where ni: "(if xino_entry (k_fdata k f) h = 0 then xino_new_ino sb
      else (xino_entry (k_fdata k f) h, sb)) = (ino, sb\<lparr>si_xino := x\<rparr>)"
  proof (cases "xino_entry (k_fdata k f) h = 0")
    case True
    then show ?thesis using xino_new_ino_form [of sb] that by auto
  next
    case False
    then show ?thesis using that [of "xino_entry (k_fdata k f) h" "si_xino sb"] by simp
  qed
  let ?sb = "sb\<lparr>si_xino := x\<rparr>"
  let ?k = "k\<lparr>k_fdata := (k_fdata k)(f := file_write (k_fdata k f) (8 * unat h) (le_store ino))\<rparr>"
  have f2: "xino_ready (ve_read env) (ve_write env) ?sb b f k"
    using f by (simp add: xino_ready_def sbr_def stobr_def sbend_def au_flag_test_def)
  have "fill_ino env b h sb k = Some (0, ino, ?sb, ?k)"
    unfolding fill_ino_def xino_read_ready [OF f pos] bind.simps split
    by (simp add: ni xino_write_ready [OF f2 h])
  moreover have "xino_all env ?sb ?k bend" using xino_all_write [OF _ f2 h] x by simp
  ultimately show ?thesis
    by (intro exI [of _ ino] exI [of _ ?sb] exI [of _ ?k] exI [of _ x]) (simp add: kframe_def)
qed

section \<open>One entry\<close>

lemma ptr_ok_jiffy: "ptr_ok (vd\<lparr>vd_jiffy := j\<rparr>) = ptr_ok vd"
  by (intro ext) (simp add: ptr_ok_def vlimit_def)

lemma jiffy_simps [simp]:
  "built (vd\<lparr>vd_jiffy := j\<rparr>) ess off = built vd ess off"
  "vd_ents (vd\<lparr>vd_jiffy := j\<rparr>) = vd_ents vd"
  "dl_ok fnh (vd\<lparr>vd_jiffy := j\<rparr>) dl N = dl_ok fnh vd dl N"
  by (simp_all add: built_def vd_holds_def vd_ents_def dl_ok_def ptr_ok_jiffy)

text \<open>
  The state of the filler: \<open>D j\<close> and \<open>W j\<close> are the names shown and whited out by
  branch \<open>j\<close>, \<open>es\<close> the listing so far.
\<close>

definition nodes :: "'a list list list \<Rightarrow> int" where
  "nodes xss = (\<Sum>xs \<leftarrow> xss. int (length (concat xs)))"

lemma length_concat_cons:
  "h < length xs \<Longrightarrow> length (concat (xs[h := x # xs ! h])) = Suc (length (concat xs))"
  by (induction xs arbitrary: h) (auto split: nat.split)

lemma nodes_cons:
  assumes "b < length xss" and "h < length (xss ! b)"
  shows "nodes (xss[b := (xss ! b)[h := x # xss ! b ! h]]) = nodes xss + 1"
  using assms
proof (induction xss arbitrary: b)
  case (Cons ys xss)
  then show ?case by (cases b) (auto simp: nodes_def length_concat_cons)
qed simp

definition fv_live :: "int \<Rightarrow> fillvdir_arg \<Rightarrow> bool" where
  "fv_live l arg \<longleftrightarrow> k_live (fa_k arg)
     = l + int (vd_nblk (fa_vdir arg)) + nodes (fa_delist arg) + nodes (fa_whlist arg)"

definition fv_inv :: "vd_env \<Rightarrow> int \<Rightarrow> (int \<Rightarrow> byte list set) \<Rightarrow> (int \<Rightarrow> byte list set)
    \<Rightarrow> (byte list \<times> byte) list \<Rightarrow> fillvdir_arg \<Rightarrow> bool" where
  "fv_inv env bend D W es arg \<longleftrightarrow>
     length (fa_delist arg) = nat (bend + 1) \<and> length (fa_whlist arg) = nat (bend + 1)
     \<and> (\<exists>ess off. built (fa_vdir arg) ess off) \<and> map vnt (vd_ents (fa_vdir arg)) = es
     \<and> vd_nblk (fa_vdir arg) \<le> Suc (length es)
     \<and> (\<forall>j. 0 \<le> j \<longrightarrow> j \<le> bend \<longrightarrow> dl_ok (ve_hash env) (fa_vdir arg) (fa_delist arg ! nat j) (D j)
          \<and> wl_ok (ve_hash env) (fa_whlist arg ! nat j) (W j))
     \<and> (\<forall>i. k_ok (fa_k arg) i) \<and> xino_all env (fa_sb arg) (fa_k arg) bend"

definition above :: "(int \<Rightarrow> byte list set) \<Rightarrow> (int \<Rightarrow> byte list set) \<Rightarrow> int \<Rightarrow> byte list set" where
  "above D W b = (\<Union>j \<in> {0..<b}. D j \<union> W j)"

lemma known_above_ok:
  assumes "fv_inv env bend D W es arg" and "0 \<le> j" and "j \<le> bend"
  shows "known_above env arg n j = Some (n \<in> D j \<union> W j)"
  using assms
  by (auto simp: known_above_def fv_inv_def test_known_ok test_known_wh_ok)

lemma scan_known:
  assumes inv: "fv_inv env bend D W es arg" and b: "b \<le> bend"
  shows "\<exists>r. scan_up (known_above env arg n) 0 (b - 1) (- 1) = Some r
     \<and> (0 \<le> r \<longleftrightarrow> n \<in> above D W b)"
proof -
  have k: "known_above env arg n j = Some (n \<in> D j \<union> W j)" if "0 \<le> j" "j \<le> b - 1" for j
    using known_above_ok [OF inv that(1)] that(2) b by simp
  from scan_up_spec [of 0 "b - 1" "known_above env arg n" "\<lambda>j. n \<in> D j \<union> W j" "- 1", OF k]
  obtain r where r: "scan_up (known_above env arg n) 0 (b - 1) (- 1) = Some r"
    "(0 \<le> r \<and> r \<le> b - 1 \<and> n \<in> D r \<union> W r) \<or> (r = - 1 \<and> (\<forall>j. 0 \<le> j \<longrightarrow> j \<le> b - 1 \<longrightarrow> n \<notin> D j \<union> W j))"
    by blast
  have "0 \<le> r \<longleftrightarrow> n \<in> above D W b"
    using r(2) by (fastforce simp: above_def)
  with r(1) show ?thesis by blast
qed

lemma fillvdir_hidden:
  assumes inv: "fv_inv env bend D W es arg" and b: "fa_bindex arg \<le> bend"
    and n: "\<not> is_whname (de_nm e)" "de_nm e \<in> above D W (fa_bindex arg)"
  shows "\<exists>arg'. fillvdir env arg e = Some (0, arg') \<and> fa_err arg' = 0
     \<and> fa_bindex arg' = fa_bindex arg \<and> fa_called arg' = fa_called arg + 1
     \<and> kframe (fa_k arg) (fa_k arg') \<and> s_br (fa_sb arg') = s_br (fa_sb arg) \<and> fv_inv env bend D W es arg'
     \<and> (fv_live l arg \<longrightarrow> fv_live l arg')"
proof -
  let ?arg = "arg\<lparr>fa_err := 0, fa_called := fa_called arg + 1\<rparr>"
  have inv': "fv_inv env bend D W es ?arg" using inv by (simp add: fv_inv_def)
  from scan_known [OF inv' b, of "de_nm e"] n(2) obtain r where
    r: "scan_up (known_above env ?arg (de_nm e)) 0 (fa_bindex arg - 1) (- 1) = Some r" "0 \<le> r" by auto
  let ?arg' = "?arg\<lparr>fa_vdir := (fa_vdir arg)\<lparr>vd_jiffy := k_jiffies (fa_k arg)\<rparr>\<rparr>"
  have "fillvdir env arg e = Some (0, ?arg')"
    using n(1) r by (auto simp: fillvdir_def Let_def is_whname_def not_less)
  moreover have "fv_inv env bend D W es ?arg'" using inv by (simp add: fv_inv_def)
  ultimately show ?thesis by (intro exI [of _ ?arg']) (simp add: fv_live_def)
qed

lemma fillvdir_shown:
  assumes inv: "fv_inv env bend D W es arg" and b: "0 \<le> fa_bindex arg" "fa_bindex arg \<le> bend"
    and n: "\<not> is_whname (de_nm e)" "de_nm e \<notin> above D W (fa_bindex arg)"
    and g: "good_name (de_nm e)" "unat (de_hino e) < 2 ^ 58"
  shows "\<exists>arg'. fillvdir env arg e = Some (0, arg') \<and> fa_err arg' = 0
     \<and> fa_bindex arg' = fa_bindex arg \<and> fa_called arg' = fa_called arg + 1
     \<and> kframe (fa_k arg) (fa_k arg') \<and> s_br (fa_sb arg') = s_br (fa_sb arg)
     \<and> fv_inv env bend (D(fa_bindex arg := insert (de_nm e) (D (fa_bindex arg)))) W (es @ [nt e]) arg'
     \<and> (fv_live l arg \<longrightarrow> fv_live l arg')"
proof -
  let ?b = "fa_bindex arg" and ?n = "de_nm e"
  let ?arg = "arg\<lparr>fa_err := 0, fa_called := fa_called arg + 1\<rparr>"
  have inv': "fv_inv env bend D W es ?arg" using inv by (simp add: fv_inv_def)
  from scan_known [OF inv' b(2), of ?n] n(2) obtain r where
    r: "scan_up (known_above env ?arg ?n) 0 (?b - 1) (- 1) = Some r" "\<not> 0 \<le> r" by auto
  have x: "xino_all env (fa_sb arg) (fa_k arg) bend" and ok: "\<forall>i. k_ok (fa_k arg) i"
    and len: "length (fa_delist arg) = nat (bend + 1)"
    and dl: "\<And>j. 0 \<le> j \<Longrightarrow> j \<le> bend \<Longrightarrow> dl_ok (ve_hash env) (fa_vdir arg) (fa_delist arg ! nat j) (D j)"
    using inv by (auto simp: fv_inv_def)
  from fill_ino_ok [OF x b g(2)] obtain ino sb' k' xi where
    fi: "fill_ino env ?b (de_hino e) (fa_sb arg) (fa_k arg) = Some (0, ino, sb', k')"
      "sb' = fa_sb arg\<lparr>si_xino := xi\<rparr>" "kframe (fa_k arg) k'" "xino_all env sb' k' bend"
      "k_live k' = k_live (fa_k arg)" by blast
  have ok': "\<forall>i. k_ok k' i" using ok fi(3) by (simp add: kframe_def)
  from inv obtain ess off where bu: "built (fa_vdir arg) ess off" by (auto simp: fv_inv_def)
  have hd: "aget (fa_delist arg ! nat ?b) (int (au_name_hash (ve_hash env) ?n))
      = Some (fa_delist arg ! nat ?b ! au_name_hash (ve_hash env) ?n)"
    using dl [OF b] by (simp add: dl_ok_def)
  from append_de_built [OF bu g(1) ok' hd, of ino "ucast (de_dtype e)"]
  obtain vd' ess' off' room a where
    ae: "append_de (ve_hash env) (fa_vdir arg) ?n ino (ucast (de_dtype e)) (fa_delist arg ! nat ?b) k'
      = Some (0, vd', (fa_delist arg ! nat ?b)[au_name_hash (ve_hash env) ?n := room #
           fa_delist arg ! nat ?b ! au_name_hash (ve_hash env) ?n],
         kmem a (1 + (int (vd_nblk vd') - int (vd_nblk (fa_vdir arg)))) k')" and
    v': "built vd' ess' off'" "concat ess' = concat ess @ [(ino, ucast (de_dtype e), ?n)]"
      "vd_ext (fa_vdir arg) vd'" "ptr_ok vd' room ?n" "vd_nblk vd' \<le> vd_nblk (fa_vdir arg) + 1" by blast
  let ?dl = "(fa_delist arg ! nat ?b)[au_name_hash (ve_hash env) ?n := room #
           fa_delist arg ! nat ?b ! au_name_hash (ve_hash env) ?n]"
  let ?k = "kmem a (1 + (int (vd_nblk vd') - int (vd_nblk (fa_vdir arg)))) k'"
  let ?arg' = "?arg\<lparr>fa_sb := sb', fa_vdir := vd'\<lparr>vd_jiffy := k_jiffies ?k\<rparr>,
    fa_delist := (fa_delist arg)[nat ?b := ?dl], fa_k := ?k\<rparr>"
  have lb: "?b < int (length (fa_delist arg))" using len b by simp
  have "fillvdir env arg e = Some (0, ?arg')"
    using n(1) r fi(1) ae b(1) lb by (auto simp: fillvdir_def Let_def is_whname_def not_less)
  moreover have "dl_ok (ve_hash env) vd' ((fa_delist arg)[nat ?b := ?dl] ! nat j)
      ((D(?b := insert ?n (D ?b))) j)" if "0 \<le> j" "j \<le> bend" for j
  proof -
    have e: "dl_ok (ve_hash env) vd' (fa_delist arg ! nat j) (D j)"
      by (rule dl_ok_ext [OF dl [OF that] v'(3,1)])
    show ?thesis
    proof (cases "j = ?b")
      case True
      then show ?thesis using dl_ok_add [OF e [unfolded True] v'(4)] lb b by simp
    next
      case False
      then have "nat j \<noteq> nat ?b" using that b by simp
      then show ?thesis using e False by simp
    qed
  qed
  then have "fv_inv env bend (D(?b := insert ?n (D ?b))) W (es @ [nt e]) ?arg'"
    using inv ok' fi(4) v'(1,2,5) bu by (auto simp: fv_inv_def built_ents vnt_def nt_def)
  moreover have "nodes ((fa_delist arg)[nat ?b := ?dl]) = nodes (fa_delist arg) + 1"
    using lb b dl [OF b] by (intro nodes_cons) (auto simp: dl_ok_def)
  then have "fv_live l arg \<longrightarrow> fv_live l ?arg'" using fi(5) by (simp add: fv_live_def kmem_def)
  ultimately show ?thesis using fi(2,3)
    by (intro exI [of _ ?arg']) simp
qed

lemma fillvdir_white:
  assumes inv: "fv_inv env bend D W es arg" and b: "0 \<le> fa_bindex arg" "fa_bindex arg \<le> bend"
    and n: "is_whname (de_nm e)" and g: "good_name (de_nm e)"
  shows "\<exists>arg'. fillvdir env arg e = Some (0, arg') \<and> fa_err arg' = 0
     \<and> fa_bindex arg' = fa_bindex arg \<and> fa_called arg' = fa_called arg + 1
     \<and> kframe (fa_k arg) (fa_k arg') \<and> s_br (fa_sb arg') = s_br (fa_sb arg)
     \<and> fv_inv env bend D (W(fa_bindex arg := insert (drop AUFS_WH_LEN (de_nm e)) (W (fa_bindex arg)))) es arg'
     \<and> (fv_live l arg \<longrightarrow> fv_live l arg')"
proof -
  let ?b = "fa_bindex arg" and ?n = "drop AUFS_WH_LEN (de_nm e)"
  let ?arg = "arg\<lparr>fa_err := 0, fa_called := fa_called arg + 1\<rparr>"
  let ?test = "\<lambda>_. do { wl \<leftarrow> aget (fa_whlist ?arg) ?b; test_known_wh (ve_hash env) wl ?n }"
  have len: "length (fa_whlist arg) = nat (bend + 1)" and ok: "\<forall>i. k_ok (fa_k arg) i"
    and wl: "wl_ok (ve_hash env) (fa_whlist arg ! nat ?b) (W ?b)"
    using inv b by (auto simp: fv_inv_def)
  have lb: "aget (fa_whlist arg) ?b = Some (fa_whlist arg ! nat ?b)" using len b by simp
  have t: "?test j = Some (?n \<in> W ?b)" for j :: int using lb test_known_wh_ok [OF wl] by simp
  obtain r where r: "scan_up ?test 0 (?b - 1) (- 1) = Some r"
    "(0 \<le> r \<and> ?n \<in> W ?b) \<or> r = - 1"
    using scan_up_spec [of 0 "?b - 1" ?test "\<lambda>_. ?n \<in> W ?b" "- 1", OF t] by blast
  show ?thesis
  proof (cases "0 \<le> r")
    case True
    then have "?n \<in> W ?b" using r(2) by auto
    then have W: "W(?b := insert ?n (W ?b)) = W" by (simp add: insert_absorb fun_upd_idem)
    let ?arg' = "?arg\<lparr>fa_vdir := (fa_vdir arg)\<lparr>vd_jiffy := k_jiffies (fa_k arg)\<rparr>\<rparr>"
    have "fillvdir env arg e = Some (0, ?arg')"
      using n r(1) True by (auto simp: fillvdir_def Let_def is_whname_def)
    moreover have "fv_inv env bend D W es ?arg'" using inv by (simp add: fv_inv_def)
    ultimately show ?thesis unfolding W by (intro exI [of _ ?arg']) (simp add: fv_live_def)
  next
    case False
    have "length ?n \<le> 255" using g by (auto simp: good_name_def intro: le_trans [OF diff_le_self])
    from append_wh_ok [OF wl this ok, of ?b] obtain wl' w where
      wl': "wl' = (fa_whlist arg ! nat ?b)[au_name_hash (ve_hash env) ?n := w #
        fa_whlist arg ! nat ?b ! au_name_hash (ve_hash env) ?n]" and
      w: "append_wh (ve_hash env) (fa_whlist arg ! nat ?b) ?n ?b (fa_k arg) = Some (0, wl', kmem 1 1 (fa_k arg))"
      "wl_ok (ve_hash env) wl' (insert ?n (W ?b))" by blast
    let ?arg' = "?arg\<lparr>fa_whlist := (fa_whlist arg)[nat ?b := wl'], fa_k := kmem 1 1 (fa_k arg),
      fa_vdir := (fa_vdir arg)\<lparr>vd_jiffy := k_jiffies (kmem 1 1 (fa_k arg))\<rparr>\<rparr>"
    have "fillvdir env arg e = Some (0, ?arg')"
      using n r(1) False lb w(1) len b by (auto simp: fillvdir_def Let_def is_whname_def)
    moreover have "nat j \<noteq> nat ?b" if "j \<noteq> ?b" "0 \<le> j" for j using that b by simp
    then have "fv_inv env bend D (W(?b := insert ?n (W ?b))) es ?arg'"
      using inv w(2) len b by (auto simp: fv_inv_def nth_list_update)
    moreover have "nodes ((fa_whlist arg)[nat ?b := wl']) = nodes (fa_whlist arg) + 1"
      unfolding wl' using len b wl by (intro nodes_cons) (auto simp: wl_ok_def)
    then have "fv_live l arg \<longrightarrow> fv_live l ?arg'" by (simp add: fv_live_def kmem_def)
    ultimately show ?thesis by (intro exI [of _ ?arg']) simp
  qed
qed

section \<open>One branch\<close>

definition good_ent :: "dirent \<Rightarrow> bool" where
  "good_ent e \<longleftrightarrow> good_name (de_nm e) \<and> unat (de_hino e) < 2 ^ 58"

text \<open>What the filler and the moves of the file position leave alone.\<close>

definition fa_frame :: "fillvdir_arg \<Rightarrow> fillvdir_arg \<Rightarrow> bool" where
  "fa_frame s t \<longleftrightarrow> fa_bindex t = fa_bindex s \<and> k_fcount (fa_k t) = k_fcount (fa_k s)
     \<and> s_br (fa_sb t) = s_br (fa_sb s) \<and> k_alloc (fa_k s) \<le> k_alloc (fa_k t)
     \<and> k_vdir (fa_k t) = k_vdir (fa_k s)"

lemma fa_frame_trans: "fa_frame s t \<Longrightarrow> fa_frame t u \<Longrightarrow> fa_frame s u"
  by (simp add: fa_frame_def)

lemma fillvdir_step:
  assumes inv: "fv_inv env bend D W es arg" and b: "fa_bindex arg = b" "0 \<le> b" "b \<le> bend"
    and g: "good_ent e" and K: "above D W b = K"
  shows "\<exists>arg'. fillvdir env arg e = Some (0, arg') \<and> fa_err arg' = 0 \<and> fa_frame arg arg'
     \<and> fa_called arg' = fa_called arg + 1 \<and> k_fpos (fa_k arg') = k_fpos (fa_k arg)
     \<and> fv_inv env bend (D(b := D b \<union> de_nm ` set (shown K [e]))) (W(b := W b \<union> whited [e]))
         (es @ map nt (shown K [e])) arg' \<and> (fv_live l arg \<longrightarrow> fv_live l arg')"
proof -
  have gn: "good_name (de_nm e)" "unat (de_hino e) < 2 ^ 58" using g by (auto simp: good_ent_def)
  have b': "0 \<le> fa_bindex arg" "fa_bindex arg \<le> bend" using b by simp_all
  note out = fa_frame_def kframe_def
  show ?thesis
  proof (cases "is_whname (de_nm e)")
    case True
    then have "shown K [e] = []" "whited [e] = {drop AUFS_WH_LEN (de_nm e)}"
      by (auto simp: shown_def whited_def)
    then show ?thesis using fillvdir_white [OF inv b' True gn(1), of l] b(1) by (auto simp: out)
  next
    case False
    then have w: "whited [e] = {}" by (simp add: whited_def)
    show ?thesis
    proof (cases "de_nm e \<in> K")
      case True
      then have "shown K [e] = []" by (simp add: shown_def)
      then show ?thesis
        using fillvdir_hidden [OF inv b'(2) False, of l] True K b(1) w by (auto simp: out)
    next
      case nk: False
      then have "shown K [e] = [e]" using False by (simp add: shown_def)
      then show ?thesis
        using fillvdir_shown [OF inv b' False _ gn, of l] nk K b(1) w by (auto simp: out)
    qed
  qed
qed

lemma fv_adv [simp]:
  "fv_inv env bend D W es (adv hf s) = fv_inv env bend D W es s" "fv_live l (adv hf s) = fv_live l s"
  "fa_frame t (adv hf s) = fa_frame t s" "fa_err (adv hf s) = fa_err s" "fa_called (adv hf s) = fa_called s"
  "fa_bindex (adv hf s) = fa_bindex s"
  by (simp_all add: fv_inv_def adv_def xino_all_def xino_ready_def fv_live_def fa_frame_def)
    (simp_all add: set_fpos_def)

lemma shown_Cons: "shown K (e # L) = shown K [e] @ shown K L"
  and whited_Cons: "whited (e # L) = whited [e] \<union> whited L"
  by (auto simp: shown_def whited_def)

lemma feed_ok:
  assumes "fv_inv env bend D W es arg" and "fa_bindex arg = b" "0 \<le> b" "b \<le> bend"
    and "\<forall>e \<in> set L. good_ent e" and "above D W b = K"
  shows "\<exists>arg'. feed hf (fillvdir env) L arg = Some (0, arg') \<and> fa_frame arg arg'
     \<and> (L = [] \<longrightarrow> arg' = arg) \<and> (L \<noteq> [] \<longrightarrow> fa_err arg' = 0)
     \<and> fa_called arg' = fa_called arg + int (length L)
     \<and> k_fpos (fa_k arg') = (k_fpos (fa_k arg))(hf := k_fpos (fa_k arg) hf + of_nat (length L))
     \<and> fv_inv env bend (D(b := D b \<union> de_nm ` set (shown K L))) (W(b := W b \<union> whited L))
         (es @ map nt (shown K L)) arg' \<and> (fv_live l arg \<longrightarrow> fv_live l arg')"
  using assms
proof (induction L arbitrary: D W es arg)
  case Nil
  then show ?case by (simp add: shown_def whited_def fa_frame_def)
next
  case (Cons e L)
  have g: "good_ent e" using Cons.prems(5) by simp
  from fillvdir_step [OF Cons.prems(1-4) g Cons.prems(6), of l] obtain a1 where
    a1: "fillvdir env arg e = Some (0, a1)" "fa_err a1 = 0" "fa_frame arg a1"
      "fa_called a1 = fa_called arg + 1" "k_fpos (fa_k a1) = k_fpos (fa_k arg)"
      "fv_inv env bend (D(b := D b \<union> de_nm ` set (shown K [e]))) (W(b := W b \<union> whited [e]))
         (es @ map nt (shown K [e])) a1" "fv_live l arg \<longrightarrow> fv_live l a1" by blast
  let ?D = "D(b := D b \<union> de_nm ` set (shown K [e]))" and ?W = "W(b := W b \<union> whited [e])"
  have K: "above ?D ?W b = K" using Cons.prems(6) by (auto simp: above_def)
  have "fv_inv env bend ?D ?W (es @ map nt (shown K [e])) (adv hf a1)" using a1(6) by simp
  moreover have "fa_bindex (adv hf a1) = b" "\<forall>e \<in> set L. good_ent e"
    using Cons.prems(2,5) a1(3) by (simp_all add: fa_frame_def)
  ultimately obtain a2 where
    a2: "feed hf (fillvdir env) L (adv hf a1) = Some (0, a2)" "fa_frame (adv hf a1) a2"
      "L = [] \<longrightarrow> a2 = adv hf a1" "L \<noteq> [] \<longrightarrow> fa_err a2 = 0"
      "fa_called a2 = fa_called (adv hf a1) + int (length L)"
      "k_fpos (fa_k a2) = (k_fpos (fa_k (adv hf a1)))(hf := k_fpos (fa_k (adv hf a1)) hf + of_nat (length L))"
      "fv_inv env bend (?D(b := ?D b \<union> de_nm ` set (shown K L))) (?W(b := ?W b \<union> whited L))
         ((es @ map nt (shown K [e])) @ map nt (shown K L)) a2"
      "fv_live l (adv hf a1) \<longrightarrow> fv_live l a2"
    using Cons.IH [OF _ _ Cons.prems(3,4) _ K] by blast
  have D: "?D(b := ?D b \<union> de_nm ` set (shown K L)) = D(b := D b \<union> de_nm ` set (shown K (e # L)))"
    "?W(b := ?W b \<union> whited L) = W(b := W b \<union> whited (e # L))"
    "(es @ map nt (shown K [e])) @ map nt (shown K L) = es @ map nt (shown K (e # L))"
    by (simp_all add: shown_Cons [of K e L] whited_Cons [of e L] image_Un Un_assoc)
  have pos: "k_fpos (fa_k a2) = (k_fpos (fa_k arg))(hf := k_fpos (fa_k arg) hf + of_nat (length (e # L)))"
    using a2(6) a1(5) by (auto simp: adv_def fun_eq_iff)
  have "fa_frame arg (adv hf a1)" using a1(3) by simp
  then have "fa_frame arg a2" using a2(2) by (rule fa_frame_trans)
  moreover have "feed hf (fillvdir env) (e # L) arg = Some (0, a2)" using a1(1) a2(1) by simp
  moreover have "fa_err a2 = 0" using a1(2) a2(3,4) by (cases "L = []") simp_all
  moreover have "fa_called a2 = fa_called arg + int (length (e # L))" using a1(4) a2(5) by simp
  moreover have "fv_live l arg \<longrightarrow> fv_live l a2" using a1(7) a2(8) by simp
  ultimately show ?case
    using a2(7) [unfolded D] pos by blast
qed

lemma read_branch_ok:
  assumes inv: "fv_inv env bend D W es arg" and b: "fa_bindex arg = b" "0 \<le> b" "b \<le> bend"
    and vrd: "readdir_ok vrd C" and g: "\<forall>e \<in> set (C hf). good_ent e" and K: "above D W b = K"
    and pos: "k_fpos (fa_k arg) hf = 0" and len: "length (C hf) < 2 ^ 63"
  shows "\<exists>arg'. read_branch vrd (fillvdir env) hf arg = Some (0, arg') \<and> fa_frame arg arg'
     \<and> (\<forall>g. g \<noteq> hf \<longrightarrow> k_fpos (fa_k arg') g = k_fpos (fa_k arg) g)
     \<and> fv_inv env bend (D(b := D b \<union> de_nm ` set (shown K (C hf)))) (W(b := W b \<union> whited (C hf)))
         (es @ map nt (shown K (C hf))) arg' \<and> (fv_live l arg \<longrightarrow> fv_live l arg')"
proof -
  let ?s = "\<lambda>a. a\<lparr>fa_err := 0, fa_called := 0\<rparr>"
  have inv': "fv_inv env bend D W es (?s arg)" using inv by (simp add: fv_inv_def)
  from feed_ok [OF inv' _ b(2,3) g K, of hf l] b(1) obtain a1 where
    a1: "feed hf (fillvdir env) (C hf) (?s arg) = Some (0, a1)" "fa_frame (?s arg) a1"
      "C hf = [] \<longrightarrow> a1 = ?s arg" "C hf \<noteq> [] \<longrightarrow> fa_err a1 = 0" "fa_called a1 = int (length (C hf))"
      "k_fpos (fa_k a1) = (k_fpos (fa_k arg))(hf := of_nat (length (C hf)))"
      "fv_inv env bend (D(b := D b \<union> de_nm ` set (shown K (C hf)))) (W(b := W b \<union> whited (C hf)))
         (es @ map nt (shown K (C hf))) a1" "fv_live l (?s arg) \<longrightarrow> fv_live l a1"
    using pos by auto
  have v1: "vrd hf (fillvdir env) (?s arg) = Some (0, a1)"
    using vrd a1(1) pos by (simp add: readdir_ok_def)
  have fr: "fa_frame arg a1" using a1(2) by (simp add: fa_frame_def)
  have lv: "fv_live l arg \<longrightarrow> fv_live l a1" using a1(8) by (simp add: fv_live_def)
  show ?thesis
  proof (cases "C hf = []")
    case True
    then have "read_branch vrd (fillvdir env) hf arg = Some (0, a1)"
      using v1 a1(3,5) by (subst read_branch.simps) simp
    then show ?thesis using a1(6,7) fr lv by (intro exI [of _ a1]) auto
  next
    case False
    have "unat (of_nat (length (C hf)) :: 64 word) = length (C hf)" using len by (simp add: unat_of_nat)
    then have "vrd hf (fillvdir env) (?s a1) = Some (0, ?s a1)"
      using vrd a1(6) by (simp add: readdir_ok_def)
    then have "read_branch vrd (fillvdir env) hf a1 = Some (0, ?s a1)"
      by (subst read_branch.simps) simp
    then have "read_branch vrd (fillvdir env) hf arg = Some (0, ?s a1)"
      using v1 a1(4,5) False by (subst read_branch.simps) simp
    moreover have "fa_frame arg (?s a1)" using fr by (simp add: fa_frame_def)
    moreover have "fv_inv env bend D' W' es' (?s a1) = fv_inv env bend D' W' es' a1" for D' W' es'
      by (simp add: fv_inv_def)
    moreover have "fv_live l (?s a1) = fv_live l a1" by (simp add: fv_live_def)
    ultimately show ?thesis using a1(6,7) lv by (intro exI [of _ "?s a1"]) auto
  qed
qed

section \<open>All branches\<close>

definition contents :: "aufs_file \<Rightarrow> (nat \<Rightarrow> dirent list) \<Rightarrow> int \<Rightarrow> dirent list" where
  "contents file C b = (case fslot file b of None \<Rightarrow> [] | Some hf \<Rightarrow> C hf)"

text \<open>The hidden directories are open at their start, referenced, distinct and of a sane size.\<close>

definition hidden_dirs :: "aufs_file \<Rightarrow> (nat \<Rightarrow> dirent list) \<Rightarrow> kern \<Rightarrow> bool" where
  "hidden_dirs file C k \<longleftrightarrow> (\<forall>i hf. fslot file i = Some hf \<longrightarrow> 0 < k_fcount k hf \<and> k_fpos k hf = 0
     \<and> length (C hf) < 2 ^ 63 \<and> (\<forall>e \<in> set (C hf). good_ent e)
     \<and> (\<forall>j. fslot file j = Some hf \<longrightarrow> j = i))"

definition round_inv :: "vd_env \<Rightarrow> aufs_file \<Rightarrow> (nat \<Rightarrow> dirent list) \<Rightarrow> kern \<Rightarrow> int \<Rightarrow> int
    \<Rightarrow> int \<times> fillvdir_arg \<Rightarrow> bool" where
  "round_inv env file C k0 l b = (\<lambda>(err, arg). err = 0
     \<and> k_fcount (fa_k arg) = k_fcount k0 \<and> fv_live l arg
     \<and> k_alloc k0 \<le> k_alloc (fa_k arg) \<and> k_vdir (fa_k arg) = k_vdir k0
     \<and> (\<forall>j hf. b \<le> j \<longrightarrow> fslot file j = Some hf \<longrightarrow> k_fpos (fa_k arg) hf = 0)
     \<and> (\<exists>D W. fv_inv env (fend file) D W (map nt (merged {} (map (contents file C) [fstart file..b - 1]))) arg
          \<and> above D W b = hidden {} (map (contents file C) [fstart file..b - 1])
          \<and> (\<forall>j. j < fstart file \<or> b \<le> j \<longrightarrow> D j = {} \<and> W j = {})))"

lemma au_h_fptr_i_ok:
  assumes "fi_ok file" "0 \<le> fstart file" "fstart file \<le> b" "b \<le> fend file"
    and "\<forall>hf. fslot file b = Some hf \<longrightarrow> 0 < k_fcount k hf"
  shows "au_h_fptr_i sb k file b = Some (fslot file b)"
proof -
  have len: "0 \<le> b" "b < int (length (the_hf file))" using assms by (auto simp: fi_ok_def)
  have "hfile_at (the (private_data file)) b = Some (the_hf file ! nat b)"
    using assms(2-4) len by (simp add: hfile_at_def fstart_def fend_def the_hf_def)
  moreover have "hf_file (the_hf file ! nat b) = fslot file b" using len by (simp add: fslot_def)
  ultimately show ?thesis using assms(1,5)
    by (auto simp: au_h_fptr_i_def split: option.split)
qed

lemma above_step:
  assumes "0 \<le> b" and "D b = {}" "W b = {}"
  shows "above (D(b := D b \<union> A)) (W(b := W b \<union> B)) (b + 1) = above D W b \<union> A \<union> B"
proof -
  have "{0..<b + 1} = insert b {0..<b}" using assms(1) by auto
  then show ?thesis using assms by (auto simp: above_def)
qed

lemma upto_snoc: "l \<le> b \<Longrightarrow> [l..b] = [l..b - 1] @ [b :: int]"
  by (rule upto_rec2)

lemma read_round_ok:
  assumes fi: "fi_ok file" "0 \<le> fstart file" and vrd: "readdir_ok vrd C" and hd: "hidden_dirs file C k0"
    and b: "fstart file \<le> b" "b \<le> fend file" and I: "round_inv env file C k0 l b (err, arg)"
  shows "\<exists>s. read_round env vrd file b (err, arg) = Some (True, s) \<and> round_inv env file C k0 l (b + 1) s"
proof -
  let ?bs = "map (contents file C) [fstart file..b - 1]" and ?K = "hidden {} (map (contents file C) [fstart file..b - 1])"
  from I obtain D W where e: "err = 0" and fc: "k_fcount (fa_k arg) = k_fcount k0" and lv: "fv_live l arg"
    and ka: "k_alloc k0 \<le> k_alloc (fa_k arg)" "k_vdir (fa_k arg) = k_vdir k0"
    and pos: "\<forall>j hf. b \<le> j \<longrightarrow> fslot file j = Some hf \<longrightarrow> k_fpos (fa_k arg) hf = 0"
    and inv: "fv_inv env (fend file) D W (map nt (merged {} ?bs)) arg" and K: "above D W b = ?K"
    and empty: "\<forall>j. j < fstart file \<or> b \<le> j \<longrightarrow> D j = {} \<and> W j = {}"
    unfolding round_inv_def split by blast
  have b0: "0 \<le> b" "D b = {}" "W b = {}" using fi b empty by auto
  have bs: "map (contents file C) [fstart file..b + 1 - 1] = ?bs @ [contents file C b]"
    using upto_snoc [OF b(1)] by simp
  have h: "au_h_fptr_i (fa_sb arg) (fa_k arg) file b = Some (fslot file b)"
    using hd fc by (intro au_h_fptr_i_ok fi b) (auto simp: hidden_dirs_def)
  show ?thesis
  proof (cases "fslot file b")
    case None
    then have c: "contents file C b = []" by (simp add: contents_def)
    have "above D W (b + 1) = ?K"
      using above_step [of b D W "{}" "{}"] K b0 by (simp add: fun_upd_idem)
    moreover have "shown K [] = []" "whited [] = {}" for K by (simp_all add: shown_def whited_def)
    moreover have le: "b \<le> j" if "b + 1 \<le> j" for j :: int using that by simp
    have "\<forall>j. j < fstart file \<or> b + 1 \<le> j \<longrightarrow> D j = {} \<and> W j = {}"
      "\<forall>j hf. b + 1 \<le> j \<longrightarrow> fslot file j = Some hf \<longrightarrow> k_fpos (fa_k arg) hf = 0"
      using empty pos le by blast+
    ultimately have "round_inv env file C k0 l (b + 1) (err, arg)"
      unfolding round_inv_def split bs c hidden_snoc merged_snoc
      using e fc ka lv inv by (intro conjI exI [of _ D] exI [of _ W]) simp_all
    then show ?thesis using None h by (simp add: read_round_def)
  next
    case (Some hf)
    let ?C = "C hf" and ?arg = "arg\<lparr>fa_bindex := b\<rparr>"
    have c: "contents file C b = ?C" using Some by (simp add: contents_def)
    have good: "\<forall>e \<in> set ?C. good_ent e" "length ?C < 2 ^ 63" "\<And>j. fslot file j = Some hf \<Longrightarrow> j = b"
      using hd Some by (auto simp: hidden_dirs_def)
    have inv': "fv_inv env (fend file) D W (map nt (merged {} ?bs)) ?arg" using inv by (simp add: fv_inv_def)
    have lv': "fv_live l ?arg" using lv by (simp add: fv_live_def)
    have p0: "k_fpos (fa_k ?arg) hf = 0" using pos [rule_format, of b hf] Some by simp
    from read_branch_ok [OF inv' _ b0(1) b(2) vrd good(1) K p0 good(2), of l] obtain a where
      a: "read_branch vrd (fillvdir env) hf ?arg = Some (0, a)" "fa_frame ?arg a"
        "\<forall>g. g \<noteq> hf \<longrightarrow> k_fpos (fa_k a) g = k_fpos (fa_k arg) g"
        "fv_inv env (fend file) (D(b := D b \<union> de_nm ` set (shown ?K ?C))) (W(b := W b \<union> whited ?C))
           (map nt (merged {} ?bs) @ map nt (shown ?K ?C)) a" "fv_live l a"
      using lv' by auto
    let ?D = "D(b := D b \<union> de_nm ` set (shown ?K ?C))" and ?W = "W(b := W b \<union> whited ?C)"
    have ab: "above ?D ?W (b + 1) = ?K \<union> de_nm ` set (shown ?K ?C) \<union> whited ?C"
      using above_step [of b D W "de_nm ` set (shown ?K ?C)" "whited ?C"] b0 K by simp
    have em: "\<forall>j. j < fstart file \<or> b + 1 \<le> j \<longrightarrow> ?D j = {} \<and> ?W j = {}"
      using empty b(1) by auto
    have po: "k_fpos (fa_k a) g = 0" if "b + 1 \<le> j" "fslot file j = Some g" for j g
    proof -
      have "g \<noteq> hf" using good(3) [of j] that by auto
      then show ?thesis using a(3) pos [rule_format, of j g] that by simp
    qed
    have "round_inv env file C k0 l (b + 1) (0, a)"
      unfolding round_inv_def split bs c hidden_snoc merged_snoc map_append
    proof (intro conjI)
      show "(0::int) = 0" ..
      show "k_fcount (fa_k a) = k_fcount k0" using a(2) fc by (simp add: fa_frame_def)
      show "k_alloc k0 \<le> k_alloc (fa_k a)" "k_vdir (fa_k a) = k_vdir k0"
        using a(2) ka by (simp_all add: fa_frame_def)
      show "\<forall>j hf. b + 1 \<le> j \<longrightarrow> fslot file j = Some hf \<longrightarrow> k_fpos (fa_k a) hf = 0"
        using po by blast
      show "fv_live l a" by (fact a(5))
      show "\<exists>D W. fv_inv env (fend file) D W (map nt (merged {} ?bs) @ map nt (shown ?K ?C)) a
          \<and> above D W (b + 1) = ?K \<union> de_nm ` set (shown ?K ?C) \<union> whited ?C
          \<and> (\<forall>j. j < fstart file \<or> b + 1 \<le> j \<longrightarrow> D j = {} \<and> W j = {})"
        using a(4) ab em by (rule_tac exI [of _ ?D], rule_tac exI [of _ ?W], intro conjI)
    qed
    moreover have "read_round env vrd file b (err, arg) = Some (True, 0, a)"
      using Some h a(1) by (simp add: read_round_def)
    ultimately show ?thesis by blast
  qed
qed

section \<open>The release of the tables\<close>

lemma fold_kfree: "fold (\<lambda>_. kfree) xs k = kmem 0 (- int (length xs)) k"
proof (induction xs arbitrary: k)
  case (Cons x xs)
  have "kfree k = kmem 0 (- 1) k" by (simp add: kfree_def kmem_def)
  then show ?case by (simp add: Cons)
qed simp

lemma fold_fold_kfree:
  "fold (\<lambda>head k. fold (\<lambda>_. kfree) head k) xs k = kmem 0 (- int (length (concat xs))) k"
  by (induction xs arbitrary: k) (simp_all add: fold_kfree)

definition cnt :: "fillvdir_arg \<Rightarrow> int \<Rightarrow> int" where
  "cnt arg j = int (length (concat (fa_delist arg ! nat j))) + int (length (concat (fa_whlist arg ! nat j)))"

lemma nodes_sum:
  assumes "length xss = nat e" and "0 \<le> e"
  shows "nodes xss = (\<Sum>j \<in> {0..<e}. int (length (concat (xss ! nat j))))"
proof -
  have "nodes xss = (\<Sum>i = 0..<nat e. int (length (concat (xss ! i))))"
    using assms(1) by (simp add: nodes_def sum_list_sum_nth)
  also have "\<dots> = (\<Sum>j \<in> {0..<e}. int (length (concat (xss ! nat j))))"
    by (rule sum.reindex_bij_witness [of _ nat int]) auto
  finally show ?thesis .
qed

lemma free_lists_step:
  assumes "length (fa_delist arg) = nat (e + 1)" "length (fa_whlist arg) = nat (e + 1)" "0 \<le> j" "j \<le> e"
  shows "free_lists arg j t = Some (True, kmem 0 (- cnt arg j) t)"
  using assms by (simp add: free_lists_def nhash_fin_def free_dehlist_def fold_fold_kfree cnt_def)

lemma free_lists_ok:
  assumes "length (fa_delist arg) = nat (e + 1)" "length (fa_whlist arg) = nat (e + 1)"
    and "0 \<le> l" "l \<le> e + 1" and "\<And>j. 0 \<le> j \<Longrightarrow> j < l \<Longrightarrow> cnt arg j = 0"
  shows "for_up (free_lists arg) l e k = Some (kmem 0 (- nodes (fa_delist arg) - nodes (fa_whlist arg)) k)"
proof -
  let ?I = "\<lambda>b t. t = kmem 0 (- (\<Sum>j \<in> {l..<b}. cnt arg j)) k"
  have "\<exists>t. for_up (free_lists arg) l e k = Some t \<and> ?I (e + 1) t"
  proof (rule for_up_total)
    show "?I l k" by simp
    show "l \<le> e + 1" by (fact assms(4))
    fix j t assume j: "l \<le> j" "j \<le> e" and t: "?I j t"
    have "{l..<j + 1} = insert j {l..<j}" using j by auto
    then have "(\<Sum>i \<in> {l..<j + 1}. cnt arg i) = (\<Sum>i \<in> {l..<j}. cnt arg i) + cnt arg j" by simp
    then show "\<exists>u. free_lists arg j t = Some (True, u) \<and> ?I (j + 1) u"
      using free_lists_step [OF assms(1,2), of j t] assms(3) j t by (simp add: algebra_simps)
  qed
  moreover have "(\<Sum>j \<in> {l..<e + 1}. cnt arg j) = (\<Sum>j \<in> {0..<e + 1}. cnt arg j)"
    using assms(3,5) by (intro sum.mono_neutral_left) auto
  moreover have "(\<Sum>j \<in> {0..<e + 1}. cnt arg j) = nodes (fa_delist arg) + nodes (fa_whlist arg)"
    using nodes_sum [OF assms(1)] nodes_sum [OF assms(2)] assms(3,4) by (simp add: cnt_def sum.distrib)
  ultimately show ?thesis by simp
qed

lemma dl_ok_empty:
  assumes "dl_ok fnh vd dl {}"
  shows "concat dl = []"
proof -
  have "dl ! h = []" if "h < length dl" for h
    using assms that by (auto simp: dl_ok_def)
  then show ?thesis by (auto simp: in_set_conv_nth)
qed

lemma wl_ok_empty:
  assumes "wl_ok fnh wl {}"
  shows "concat wl = []"
proof -
  have "wl ! h = []" if "h < length wl" for h
    using assms that by (auto simp: wl_ok_def)
  then show ?thesis by (auto simp: in_set_conv_nth)
qed

lemma nodes_init: "nodes (replicate n nhash_init) = 0"
  by (simp add: nodes_def nhash_init_def sum_list_replicate)

lemma read_vdir_fill_ok:
  assumes fi: "fi_ok file" "0 \<le> fstart file" and vrd: "readdir_ok vrd C" and hd: "hidden_dirs file C k"
    and bu: "built vd ess off" "vd_nblk vd = 1" and e: "vd_ents vd = []" and ok: "\<forall>i. k_ok k i"
    and x: "xino_all env sb k (fend file)"
  shows "\<exists>vd' sb' k' ess' off'. read_vdir_fill env vrd file vd sb k = Some (0, vd', sb', k')
     \<and> built vd' ess' off'
     \<and> map vnt (vd_ents vd') = map nt (merged {} (map (contents file C) [fstart file..fend file]))
     \<and> k_live k' = k_live k + int (vd_nblk vd') - int (vd_nblk vd)
     \<and> (\<forall>i. k_ok k' i) \<and> k_alloc k \<le> k_alloc k' \<and> k_vdir k' = k_vdir k
     \<and> vd_nblk vd' \<le> Suc (length (merged {} (map (contents file C) [fstart file..fend file])))"
proof -
  let ?e = "fend file" and ?l = "fstart file"
  let ?a = "\<lparr>fa_vdir = vd, fa_delist = replicate (nat (?e + 1)) nhash_init,
     fa_whlist = replicate (nat (?e + 1)) nhash_init, fa_bindex = 0, fa_err = 0, fa_called = 0,
     fa_sb = sb, fa_k = kmem 2 2 k\<rparr>"
  let ?L = "k_live k + 2 - int (vd_nblk vd)"
  have le: "?l \<le> ?e" using fi by (simp add: fi_ok_def)
  have "fv_inv env ?e (\<lambda>_. {}) (\<lambda>_. {}) [] ?a"
    using bu e ok x by (auto simp: fv_inv_def dl_ok_init wl_ok_init nth_replicate)
  moreover have "fv_live ?L ?a" by (simp add: fv_live_def kmem_def nodes_init)
  moreover have "above (\<lambda>_. {}) (\<lambda>_. {}) ?l = {}" by (simp add: above_def)
  ultimately have I0: "round_inv env file C k ?L ?l (0, ?a)"
    using hd by (auto simp: round_inv_def hidden_dirs_def kmem_def)
  have "\<exists>s. for_up (read_round env vrd file) ?l ?e (0, ?a) = Some s \<and> round_inv env file C k ?L (?e + 1) s"
  proof (rule for_up_total [of "round_inv env file C k ?L"])
    show "round_inv env file C k ?L ?l (0, ?a)" by (rule I0)
    show "?l \<le> ?e + 1" using le by simp
    fix j t assume "?l \<le> j" "j \<le> ?e" "round_inv env file C k ?L j t"
    then show "\<exists>u. read_round env vrd file j t = Some (True, u) \<and> round_inv env file C k ?L (j + 1) u"
      using read_round_ok [OF fi vrd hd] by (cases t) blast
  qed
  then obtain err arg where run: "for_up (read_round env vrd file) ?l ?e (0, ?a) = Some (err, arg)"
    and I: "round_inv env file C k ?L (?e + 1) (err, arg)" by auto
  from I obtain D W where err: "err = 0" and lv: "fv_live ?L arg"
    and ka: "k_alloc k \<le> k_alloc (fa_k arg)" "k_vdir (fa_k arg) = k_vdir k"
    and inv: "fv_inv env ?e D W (map nt (merged {} (map (contents file C) [?l..?e]))) arg"
    and empty: "\<forall>j. j < ?l \<or> ?e + 1 \<le> j \<longrightarrow> D j = {} \<and> W j = {}"
    unfolding round_inv_def split add_diff_cancel_right' by (auto simp: kmem_def)
  have c0: "cnt arg j = 0" if "0 \<le> j" "j < ?l" for j
  proof -
    have "D j = {}" "W j = {}" using empty that by auto
    moreover have "dl_ok (ve_hash env) (fa_vdir arg) (fa_delist arg ! nat j) (D j)"
      "wl_ok (ve_hash env) (fa_whlist arg ! nat j) (W j)"
      using inv that le by (auto simp: fv_inv_def)
    ultimately show ?thesis by (simp add: cnt_def dl_ok_empty wl_ok_empty)
  qed
  have len: "length (fa_delist arg) = nat (?e + 1)" "length (fa_whlist arg) = nat (?e + 1)"
    using inv by (auto simp: fv_inv_def)
  have l1: "?l \<le> ?e + 1" using le by simp
  note fr = free_lists_ok [OF len fi(2) l1 c0, of "fa_k arg"]
  have "read_vdir_fill env vrd file vd sb k = Some (0, fa_vdir arg, fa_sb arg,
      kmem 0 (- 2 - nodes (fa_delist arg) - nodes (fa_whlist arg)) (fa_k arg))"
    using fi ok run fr err
    by (simp add: read_vdir_fill_def fbend_def fbstart_def kmem_malloc numeral_2_eq_2 flip: fstart_def fend_def)
      (simp add: kfree_def kmem_def)
  moreover obtain ess' off' where "built (fa_vdir arg) ess' off'"
    using inv by (auto simp: fv_inv_def)
  moreover have "map vnt (vd_ents (fa_vdir arg)) = map nt (merged {} (map (contents file C) [?l..?e]))"
    "\<forall>i. k_ok (fa_k arg) i" "vd_nblk (fa_vdir arg) \<le> Suc (length (merged {} (map (contents file C) [?l..?e])))"
    using inv by (simp_all add: fv_inv_def)
  ultimately show ?thesis using lv ka by (auto simp: fv_live_def kmem_def)
qed

lemma read_vdir_ok:
  assumes "fi_ok file" and "0 \<le> fstart file" and "fvdir_cache file = Some None"
    and "readdir_ok vrd C" and "hidden_dirs file C k" and "\<forall>i. k_ok k i"
    and "xino_all env sb k (fend file)"
    and "ii_ok inode" and "S_ISDIR (i_mode inode)" and "ii_vdir (i_iinfo inode) = None"
  shows "\<exists>inode' sb' k' a. read_vdir env vrd file inode may_read sb k = Some (0, inode', sb', k')
     \<and> ivdir inode' = Some (Some a)
     \<and> map vnt (vd_ents (k_vdir k' a)) = map nt (merged {} (map (contents file C) [fstart file..fend file]))
     \<and> vd_version (k_vdir k' a) = i_version inode
     \<and> k_live k' = k_live k + 2 + int (vd_nblk (k_vdir k' a))
     \<and> (\<forall>i. k_ok k' i) \<and> a < k_alloc k' \<and> ii_ok inode' \<and> i_mode inode' = i_mode inode
     \<and> (\<exists>ess. vd_holds (k_vdir k' a) ess \<and> ess \<noteq> [])
     \<and> vd_nblk (k_vdir k' a) \<le> Suc (length (merged {} (map (contents file C) [fstart file..fend file])))"
proof -
  let ?f = "k_alloc k"
  from alloc_vdir_ok [OF assms(6)] obtain vd where
    vd: "alloc_vdir k = Some (Inr vd, kmem 4 3 k)" "built vd [[]] 0" by blast
  have one: "vd_nblk vd = 1" using vd(2) by (simp add: built_def vd_holds_def)
  let ?k = "set_vdir ?f vd (kmem 4 3 k)"
  have hd: "hidden_dirs file C ?k" using assms(5) by (simp add: hidden_dirs_def set_vdir_def kmem_def)
  have ok: "\<forall>i. k_ok ?k i" using assms(6) by (simp add: set_vdir_def kmem_def)
  have x: "xino_all env sb ?k (fend file)"
    using assms(7) by (simp add: xino_all_def xino_ready_def set_vdir_def kmem_def)
  have "vd_ents vd = []" using built_ents [OF vd(2)] by simp
  from read_vdir_fill_ok [OF assms(1,2,4) hd vd(2) one this ok x] obtain vd' sb' k' ess' off' where
    rf: "read_vdir_fill env vrd file vd sb ?k = Some (0, vd', sb', k')"
      "map vnt (vd_ents vd') = map nt (merged {} (map (contents file C) [fstart file..fend file]))"
      "k_live k' = k_live ?k + int (vd_nblk vd') - int (vd_nblk vd)" and
    rk: "built vd' ess' off'" "\<forall>i. k_ok k' i" "k_alloc ?k \<le> k_alloc k'"
      "vd_nblk vd' \<le> Suc (length (merged {} (map (contents file C) [fstart file..fend file])))" by blast
  let ?vd = "vd'\<lparr>vd_version := i_version inode, vd_last_i := 0, vd_last_p := (0, 0)\<rparr>"
  let ?inode = "inode\<lparr>i_iinfo := (i_iinfo inode)\<lparr>ii_vdir := Some ?f\<rparr>\<rparr>"
  have kv: "k_vdir ?k ?f = vd" by (simp add: set_vdir_def)
  have iv: "ivdir inode = Some None" using assms(8-10) by (simp add: ivdir_def)
  have "set_ivdir inode (Some ?f) = Some ?inode"
    using assms(8-10) by (simp add: set_ivdir_def upd_ii_def)
  then have "read_vdir env vrd file inode may_read sb k = Some (0, ?inode, sb', set_vdir ?f ?vd k')"
    using assms(3,9) vd(1) rf(1) kv iv by (simp add: read_vdir_def Let_def)
  moreover have "ivdir ?inode = Some (Some ?f)"
    using assms(8,9) by (auto simp: ivdir_def ii_of_def itoii_def ii_ok_def)
  moreover have "vd_ents ?vd = vd_ents vd'" by (simp add: vd_ents_def)
  moreover have "vd_holds ?vd ess' \<and> ess' \<noteq> []" using rk(1) by (auto simp: built_def vd_holds_def)
  moreover have "ii_ok ?inode" using assms(8) by (simp add: ii_ok_def islot_def the_hi_def)
  ultimately show ?thesis using rf(2,3) rk(2-4) one
    by (intro exI [of _ ?inode] exI [of _ sb'] exI [of _ "set_vdir ?f ?vd k'"] exI [of _ ?f])
      (auto simp: set_vdir_def kmem_def)
qed

section \<open>Properties\<close>

text \<open>C5.
  Reading a directory whose inode has no listing yet, when memory and the hidden
  filesystems do not fail, ends and gives the inode a listing that is the merge of
  the branches: the entries of each branch from the top, in its order and with its
  types, without whiteouts, without names an upper branch has shown, and without
  names an upper branch has whited out. Everything allocated on the way is freed.
\<close>

theorem read_vdir_merges:
  assumes "fi_ok file" and "0 \<le> fstart file" and "fvdir_cache file = Some None"
    and "readdir_ok vrd C" and "hidden_dirs file C k" and "\<forall>i. k_ok k i"
    and "xino_all env sb k (fend file)"
    and "ii_ok inode" and "S_ISDIR (i_mode inode)" and "ii_vdir (i_iinfo inode) = None"
  shows "\<exists>inode' sb' k' a. read_vdir env vrd file inode may_read sb k = Some (0, inode', sb', k')
     \<and> ivdir inode' = Some (Some a)
     \<and> map vnt (vd_ents (k_vdir k' a)) = map nt (merged {} (map (contents file C) [fstart file..fend file]))
     \<and> vd_version (k_vdir k' a) = i_version inode
     \<and> k_live k' = k_live k + 2 + int (vd_nblk (k_vdir k' a))"
  using read_vdir_ok [OF assms] by blast

text \<open>
  Two branches: the upper one has the file a and a whiteout of b, the lower one a
  and b and c.
\<close>

definition ls_up :: "dirent list" where
  "ls_up = [\<lparr>de_nm = [97], de_hino = 5, de_dtype = 8\<rparr>, \<lparr>de_nm = [46, 119, 104, 46, 98], de_hino = 6, de_dtype = 8\<rparr>]"

definition ls_low :: "dirent list" where
  "ls_low = [\<lparr>de_nm = [97], de_hino = 5, de_dtype = 8\<rparr>, \<lparr>de_nm = [98], de_hino = 6, de_dtype = 8\<rparr>,
     \<lparr>de_nm = [99], de_hino = 7, de_dtype = 4\<rparr>]"

definition dir_of :: "nat \<Rightarrow> dirent list" where
  "dir_of hf = (if hf = 8 then ls_up else if hf = 9 then ls_low else [])"

definition plain_readdir :: readdirf where
  "plain_readdir hf fill s = feed hf fill (drop (unat (k_fpos (fa_k s) hf)) (dir_of hf)) s"

definition env0 :: vd_env where
  "env0 = \<lparr>ve_hash = (\<lambda>n. of_nat (length n)), ve_read = (\<lambda>_. page_read), ve_write = (\<lambda>_. page_write),
     ve_aufsd = False\<rparr>"

definition inode1 :: aufs_inode where
  "inode1 = inode0\<lparr>i_iinfo := (i_iinfo inode0)\<lparr>ii_vdir := None\<rparr>\<rparr>"

lemma example_dirs:
  shows "readdir_ok plain_readdir dir_of" "fvdir_cache file0 = Some None"
    and "0 \<le> fstart file0" "fstart file0 = 0" "fend file0 = 2"
    and "hidden_dirs file0 dir_of kern0" "S_ISDIR (i_mode inode0)" "ii_vdir (i_iinfo inode0) = None"
proof -
  show s: "0 \<le> fstart file0" "fstart file0 = 0" "fend file0 = 2"
    by (simp_all add: fstart_def fend_def file0_def)
  show "readdir_ok plain_readdir dir_of" by (simp add: readdir_ok_def plain_readdir_def)
  show "fvdir_cache file0 = Some None" by (simp add: fvdir_cache_def ftofi_def file0_def)
  show "hidden_dirs file0 dir_of kern0"
    by (auto simp: hidden_dirs_def file0_slots kern0_def dir_of_def ls_up_def ls_low_def good_ent_def
        good_name_def split: if_splits)
  show "S_ISDIR (i_mode inode0)" "ii_vdir (i_iinfo inode0) = None"
    by (simp_all add: inode0_def S_ISDIR_def)
qed

lemma example_xino: "xino_all env0 (sbx 3) kern0 (fend file0)"
  unfolding xino_all_def example_dirs env0_def vd_env.simps
  using sbx_ready [of 3] by fastforce

lemma example_merged:
  "map nt (merged {} (map (contents file0 dir_of) [fstart file0..fend file0])) = [([97], 8), ([99], 4)]"
proof -
  have w: "whited ls_up = {[98]}" "whited ls_low = {}" "whited [] = {}"
    by (simp_all add: whited_Cons1 whited_Nil ls_up_def ls_low_def is_whname_def AUFS_WH_LEN_def AUFS_WH_PFX_def)
  show ?thesis
    by (simp add: example_dirs(4,5) upto.simps contents_def file0_slots dir_of_def w)
      (simp add: ls_up_def ls_low_def shown_def is_whname_def AUFS_WH_LEN_def AUFS_WH_PFX_def nt_def)
qed

theorem read_vdir_merges_witness:
  "\<exists>inode' sb' k' a. read_vdir env0 plain_readdir file0 inode0 True (sbx 3) kern0 = Some (0, inode', sb', k')
     \<and> map vnt (vd_ents (k_vdir k' a)) = [([97], 8), ([99], 4)]"
  using read_vdir_merges [OF file0_ok example_dirs(3,2,1,6) kern0_ok example_xino inode0_ok example_dirs(7,8), of True]
  unfolding example_merged by metis

end
