(* ===== verification/Aufs_Readdir.thy ===== *)
theory Aufs_Readdir
  imports Aufs_Vdir_Merge "HOL-Library.Signed_Division"
begin

text \<open>
  Handing a listing out (vdir.c, \<open>calc_offset\<close>, \<open>seek_vdir\<close>, \<open>au_fill_de\<close>): the
  position of an open directory is the byte offset in its listing, the filler of the
  caller may refuse an entry at any point, and the next call goes on from there. The
  filler is a parameter with a state of its own. Shown: a call delivers the entries
  behind the position, in order, until the filler refuses one, and leaves the position
  in front of that one, so a sequence of calls delivers every entry once.
\<close>

section \<open>The operations\<close>

definition de_ino :: "aufs_vdir \<Rightarrow> deblk_p \<Rightarrow> 64 word option" where
  "de_ino vd p = map_option le_load (vd_read vd p 8)"

definition de_type :: "aufs_vdir \<Rightarrow> deblk_p \<Rightarrow> byte option" where
  "de_type vd p = map_option hd (vd_read vd (fst p, snd p + 8) 1)"

definition calc_offset :: "aufs_vdir \<Rightarrow> int option" where
  "calc_offset vdir =
     do { _ \<leftarrow> aget (vd_deblk vdir) (int (vd_last_i vdir));
          if fst (vd_last_p vdir) = vd_last_i vdir
          then Some (int (snd (vd_last_p vdir)) + int AUFS_DEBLK_SIZE * int (vd_last_i vdir))
          else None }"

lemma is_deblk_end_room: "is_deblk_end vd p i = Some False \<Longrightarrow> snd p + 16 \<le> AUFS_DEBLK_SIZE"
  by (auto simp: is_deblk_end_def room_left_def run_simps split: if_splits)

lemma calc_size_uint: "calc_size (uint (n :: byte)) = Some (int (esize (unat n)))"
  using calc_size_nat [of "unat n"] by (simp del: calc_size_nat)

lemma calc_size_pos: "calc_size (uint (n :: byte)) = Some l \<Longrightarrow> 0 < l"
  using esize_bounds(3) [of "unat n"] by (auto simp: calc_size_uint)

text \<open>The inner loop of the search in a block; the first result says that its end was met.\<close>

function seek_walk :: "aufs_vdir \<Rightarrow> nat \<Rightarrow> int \<Rightarrow> deblk_p \<Rightarrow> int \<Rightarrow> (bool \<times> deblk_p) option" where
  "seek_walk vd i pos p offset =
     do { e \<leftarrow> is_deblk_end vd p i;
          if \<not> e \<and> offset < pos
          then do { n \<leftarrow> de_len vd p; l \<leftarrow> calc_size (int (unat n));
                    seek_walk vd i pos (fst p, snd p + nat l) (offset + l) }
          else Some (e, p) }"
  by pat_completeness auto
termination
  by (relation "measure (\<lambda>(vd, i, pos, p, offset). AUFS_DEBLK_SIZE - snd p)")
    (auto dest!: is_deblk_end_room calc_size_pos intro!: diff_less_mono2)

declare seek_walk.simps [simp del]

text \<open>The offset of a block is a product of two numbers of type \<open>int\<close>, and wraps at 32 bits.\<close>

definition seek_blk :: "int \<Rightarrow> int \<Rightarrow> bool \<times> aufs_vdir \<Rightarrow> (bool \<times> bool \<times> aufs_vdir) option" where
  "seek_blk pos i = (\<lambda>(valid, vd).
     do { b \<leftarrow> aget (vd_deblk vd) i; _ \<leftarrow> b;
          (e, p) \<leftarrow> seek_walk vd (nat i) pos (nat i, 0)
                      (signed_take_bit 31 (i * int AUFS_DEBLK_SIZE));
          if \<not> e then Some (False, True, vd\<lparr>vd_last_i := nat i, vd_last_p := p\<rparr>)
          else Some (True, valid, vd) })"

definition seek_vdir :: "aufs_file \<Rightarrow> aufs_vdir \<Rightarrow> (bool \<times> aufs_vdir) option" where
  "seek_vdir file vdir =
     do { offset \<leftarrow> calc_offset vdir;
          if f_pos file = offset then Some (True, vdir)
          else let vdir = vdir\<lparr>vd_last_i := 0, vd_last_p := (0, 0)\<rparr>
               in if f_pos file = 0 then Some (True, vdir)
                  else let i = signed_take_bit 31 (f_pos file sdiv int AUFS_DEBLK_SIZE)
                       in if int (vd_nblk vdir) \<le> i then Some (False, vdir)
                          else for_up (seek_blk (f_pos file)) i (int (vd_nblk vdir) - 1) (False, vdir) }"

text \<open>The caller's filler: its buffer, the name, the offset, the number and the type.\<close>

type_synonym 'd filldir = "'d \<Rightarrow> byte list \<Rightarrow> int \<Rightarrow> 64 word \<Rightarrow> byte \<Rightarrow> int \<times> 'd"

text \<open>The inner loop of \<open>au_fill_de\<close>; the first result is false when the filler refused.\<close>

function fill_blk ::
    "'d filldir \<Rightarrow> aufs_vdir \<Rightarrow> int \<Rightarrow> 'd \<Rightarrow> (bool \<times> aufs_vdir \<times> int \<times> 'd) option" where
  "fill_blk fd vd pos d =
     do { e \<leftarrow> is_deblk_end vd (vd_last_p vd) (vd_last_i vd);
          if e then Some (True, vd, pos, d)
          else do { n \<leftarrow> de_len vd (vd_last_p vd);
                    name \<leftarrow> de_name vd (vd_last_p vd) (unat n);
                    ino \<leftarrow> de_ino vd (vd_last_p vd);
                    ty \<leftarrow> de_type vd (vd_last_p vd);
                    let (err, d') = fd d name pos ino ty;
                    if err \<noteq> 0 then Some (False, vd, pos, d')
                    else do { l \<leftarrow> calc_size (int (unat n));
                              fill_blk fd (vd\<lparr>vd_last_p := (fst (vd_last_p vd), snd (vd_last_p vd) + nat l)\<rparr>)
                                (pos + l) d' } } }"
  by pat_completeness auto
termination
  by (relation "measure (\<lambda>(fd, vd, pos, d). AUFS_DEBLK_SIZE - snd (vd_last_p vd))")
    (auto dest!: is_deblk_end_room calc_size_pos intro!: diff_less_mono2)

declare fill_blk.simps [simp del]

lemma fill_blk_frame:
  "fill_blk fd vd pos d = Some (b, vd', pos', d') \<Longrightarrow> vd_nblk vd' = vd_nblk vd \<and> vd_last_i vd' = vd_last_i vd"
proof (induction fd vd pos d rule: fill_blk.induct)
  case (1 fd vd pos d)
  from "1.prems" obtain e where e: "is_deblk_end vd (vd_last_p vd) (vd_last_i vd) = Some e"
    by (subst (asm) fill_blk.simps) (auto simp: run_simps)
  show ?case
  proof (cases e)
    case True
    with e "1.prems" show ?thesis by (subst (asm) fill_blk.simps) simp
  next
    case False
    with e "1.prems" obtain n name ino ty where
      r: "de_len vd (vd_last_p vd) = Some n" "de_name vd (vd_last_p vd) (unat n) = Some name"
        "de_ino vd (vd_last_p vd) = Some ino" "de_type vd (vd_last_p vd) = Some ty"
      by (subst (asm) fill_blk.simps) (auto simp: run_simps)
    obtain err d1 where f: "fd d name pos ino ty = (err, d1)" by (cases "fd d name pos ino ty")
    show ?thesis
    proof (cases "err = 0")
      case False
      with e \<open>\<not> e\<close> r f "1.prems" show ?thesis by (subst (asm) fill_blk.simps) simp
    next
      case True
      from "1.IH" [OF e False r refl f [symmetric] _ calc_size_nat] e False r f True "1.prems"
      show ?thesis by (subst (asm) fill_blk.simps) (simp add: calc_size_uint)
    qed
  qed
qed

function fill_blks ::
    "'d filldir \<Rightarrow> aufs_vdir \<Rightarrow> int \<Rightarrow> 'd \<Rightarrow> (aufs_vdir \<times> int \<times> 'd) option" where
  "fill_blks fd vd pos d =
     do { _ \<leftarrow> aget (vd_deblk vd) (int (vd_last_i vd));
          (all, vd, pos, d) \<leftarrow> fill_blk fd vd pos d;
          if \<not> all then Some (vd, pos, d)
          else if int (vd_last_i vd) < int (vd_nblk vd) - 1
          then let i = vd_last_i vd + 1
               in fill_blks fd (vd\<lparr>vd_last_i := i, vd_last_p := (i, 0)\<rparr>) (int AUFS_DEBLK_SIZE * int i) d
          else Some (vd, pos, d) }"
  by pat_completeness auto
termination
  by (relation "measure (\<lambda>(fd, vd, pos, d). vd_nblk vd - vd_last_i vd)")
    (auto dest!: fill_blk_frame)

declare fill_blks.simps [simp del]

definition au_fill_de ::
    "'d filldir \<Rightarrow> 'd \<Rightarrow> aufs_file \<Rightarrow> kern \<Rightarrow> (int \<times> aufs_file \<times> 'd \<times> kern) option" where
  "au_fill_de fd d file k =
     do { c \<leftarrow> fvdir_cache file;
          _ \<leftarrow> debug_on (c = None);
          c \<leftarrow> c;
          (valid, vd) \<leftarrow> seek_vdir file (k_vdir k c);
          if \<not> valid then Some (0, file, d, set_vdir c vd k)
          else do { (vd, pos, d) \<leftarrow> fill_blks fd vd (f_pos file) d;
                    Some (0, file\<lparr>f_pos := pos\<rparr>, d, set_vdir c vd k) } }"

section \<open>The entries with their positions\<close>

primrec with_pos :: "int \<Rightarrow> entry list \<Rightarrow> (int \<times> entry) list" where
  "with_pos pos [] = []"
| "with_pos pos (e # es) = (pos, e) # with_pos (pos + int (esz e)) es"

primrec dirpos :: "nat \<Rightarrow> entry list list \<Rightarrow> (int \<times> entry) list" where
  "dirpos i [] = []"
| "dirpos i (es # ess) = with_pos (int AUFS_DEBLK_SIZE * int i) es @ dirpos (Suc i) ess"

text \<open>What a filler makes of a list of entries: its state, and the entries it has not taken.\<close>

fun deliver :: "'d filldir \<Rightarrow> 'd \<Rightarrow> (int \<times> entry) list \<Rightarrow> 'd \<times> (int \<times> entry) list" where
  "deliver fd d [] = (d, [])"
| "deliver fd d ((pos, ino, ty, n) # es) =
     (let (err, d') = fd d n pos ino ty
      in if err \<noteq> 0 then (d', (pos, ino, ty, n) # es) else deliver fd d' es)"

lemma deliver_append:
  "deliver fd d (es @ es') =
     (case deliver fd d es of (d', r) \<Rightarrow> if r = [] then deliver fd d' es' else (d', r @ es'))"
  by (induction fd d es rule: deliver.induct) (auto split: prod.split)

lemma map_snd_with_pos [simp]: "map snd (with_pos pos es) = es"
  by (induction es arbitrary: pos) auto

lemma map_snd_dirpos [simp]: "map snd (dirpos i ess) = concat ess"
  by (induction ess arbitrary: i) auto

lemma with_pos_Nil [simp]: "(with_pos pos es = []) = (es = [])"
  by (cases es) auto

text \<open>The run of a chain that starts at an inner offset, and its offsets.\<close>

primrec run_len :: "entry list \<Rightarrow> nat" where
  "run_len [] = 0"
| "run_len (e # es) = esz e + run_len es"

lemma run_len_append: "run_len (es @ es') = run_len es + run_len es'"
  by (induction es) auto

lemma chain_run: "chain b o1 es o2 \<Longrightarrow> o2 = o1 + run_len es"
  by (induction es arbitrary: o1) (fastforce simp del: enc.simps)+

lemma esz_pos: "0 < esz e"
  using esize_bounds(3) [of "length (ename e)"] by (simp add: esz_ename)

lemma run_len_0: "(run_len es = 0) = (es = [])"
  using esz_pos by (cases es) (auto simp: less_not_refl2)

lemma run_len_inj:
  "es1 @ es2 = es1' @ es2' \<Longrightarrow> run_len es1 = run_len es1' \<Longrightarrow> es1 = es1'"
proof (induction es1 arbitrary: es1')
  case Nil
  then show ?case using run_len_0 by (metis run_len.simps(1))
next
  case (Cons e es1)
  from Cons.prems(2) have "es1' \<noteq> []" using esz_pos [of e] by auto
  with Cons.prems Cons.IH show ?case by (cases es1') auto
qed

lemma chain_end:
  assumes "chain b off es off'" "blk_end b off'" "length b = AUFS_DEBLK_SIZE"
    and "i < length (vd_deblk vd)" "vd_deblk vd ! i = Some b"
  shows "is_deblk_end vd (i, off) i = Some (es = [])"
proof (cases es)
  case Nil
  with assms show ?thesis
    by (auto simp: is_deblk_end_def room_left_def blk_end_def AUFS_DEBLK_SIZE_def de_len_nth)
next
  case (Cons e es')
  obtain ino ty n where e: "e = (ino, ty, n)" by (cases e)
  with assms(1) Cons have g: "good_name n" and sz: "off + esize (length n) \<le> AUFS_DEBLK_SIZE"
    and t: "take (10 + length n) (drop off b) = enc (ino, ty, n)" by auto
  have "off + 16 \<le> AUFS_DEBLK_SIZE" using sz esize_bounds(3) [of "length n"] by simp
  then show ?thesis
    using assms(3-5) Cons enc_decode(3) [OF t] good_name_len0 [OF g]
    by (simp add: is_deblk_end_def room_left_def de_len_nth)
qed

lemma chain_fields:
  assumes "chain b off ((ino, ty, n) # es) off'" "length b = AUFS_DEBLK_SIZE"
    and "i < length (vd_deblk vd)" "vd_deblk vd ! i = Some b"
  shows "de_len vd (i, off) = Some (of_nat (length n))" "de_name vd (i, off) (length n) = Some n"
    and "de_ino vd (i, off) = Some ino" "de_type vd (i, off) = Some ty"
    and "unat (of_nat (length n) :: byte) = length n"
proof -
  from assms(1) have g: "good_name n" and t: "take (10 + length n) (drop off b) = enc (ino, ty, n)"
    by auto
  note d = enc_decode [OF t]
  show "unat (of_nat (length n) :: byte) = length n" using g by (rule good_name_len)
  show "de_len vd (i, off) = Some (of_nat (length n))" "de_name vd (i, off) (length n) = Some n"
    using assms d by (simp_all add: de_len_nth de_name_take)
  have "hd (take 1 (drop (off + 8) b)) = b ! (off + 8)" using d(5) by (simp add: hd_drop_conv_nth)
  then show "de_ino vd (i, off) = Some ino" "de_type vd (i, off) = Some ty"
    using assms d(1,2,5) by (simp_all add: de_ino_def de_type_def vd_read_def buf_read_def)
qed

section \<open>One block\<close>

lemma fill_blk_ok:
  assumes "chain b off es off'" "blk_end b off'" "length b = AUFS_DEBLK_SIZE"
    and "i < length (vd_deblk vd)" "vd_deblk vd ! i = Some b" "vd_last_i vd = i" "vd_last_p vd = (i, off)"
    and "deliver fd d (with_pos pos es) = (d', r)"
  shows "\<exists>es1 es2. es = es1 @ es2 \<and> r = with_pos (pos + int (run_len es1)) es2
    \<and> fill_blk fd vd pos d = Some (es2 = [], vd\<lparr>vd_last_p := (i, off + run_len es1)\<rparr>, pos + int (run_len es1), d')"
  using assms
proof (induction es arbitrary: off vd pos d)
  case Nil
  then show ?case using chain_end [OF Nil.prems(1-5)]
    by (intro exI [of _ "[]"]) (simp add: fill_blk.simps)
next
  case (Cons e es)
  obtain ino ty n where e: "e = (ino, ty, n)" by (cases e)
  have c: "chain b off ((ino, ty, n) # es) off'" using Cons.prems(1) e by simp
  note f = chain_fields [OF c Cons.prems(3-5)]
  have ne: "is_deblk_end vd (i, off) i = Some False" using chain_end [OF Cons.prems(1-5)] by simp
  obtain err d1 where fd: "fd d n pos ino ty = (err, d1)" by (cases "fd d n pos ino ty")
  show ?case
  proof (cases "err = 0")
    case False
    with Cons.prems(6,7) f ne fd have "fill_blk fd vd pos d = Some (False, vd, pos, d1)"
      by (subst fill_blk.simps) simp
    moreover have "d' = d1" "r = with_pos pos (e # es)" using Cons.prems(8) e fd False by auto
    moreover have "vd\<lparr>vd_last_p := (i, off)\<rparr> = vd" using Cons.prems(7) by simp
    ultimately show ?thesis by (intro exI [of _ "[]"] exI [of _ "e # es"]) simp
  next
    case True
    let ?v = "vd\<lparr>vd_last_p := (i, off + esize (length n))\<rparr>"
    have step: "fill_blk fd vd pos d = fill_blk fd ?v (pos + int (esize (length n))) d1"
      using Cons.prems(6,7) f ne fd True by (subst fill_blk.simps) (simp add: calc_size_uint)
    have ch: "chain b (off + esize (length n)) es off'" using c by simp
    have dl: "deliver fd d1 (with_pos (pos + int (esize (length n))) es) = (d', r)"
      using Cons.prems(8) e fd True by simp
    from Cons.IH [OF ch Cons.prems(2,3) _ _ _ _ dl, of ?v] Cons.prems(4-7) obtain es1 es2 where
      r: "es = es1 @ es2" "r = with_pos (pos + int (esize (length n)) + int (run_len es1)) es2"
        "fill_blk fd ?v (pos + int (esize (length n))) d1 = Some (es2 = [],
           ?v\<lparr>vd_last_p := (i, off + esize (length n) + run_len es1)\<rparr>,
           pos + int (esize (length n)) + int (run_len es1), d')" by auto
    then show ?thesis using step e
      by (intro exI [of _ "e # es1"] exI [of _ es2]) (simp add: algebra_simps)
  qed
qed

lemma seek_walk_ok:
  assumes "chain b off (es1 @ es2) off'" "blk_end b off'" "length b = AUFS_DEBLK_SIZE"
    and "i < length (vd_deblk vd)" "vd_deblk vd ! i = Some b"
  shows "seek_walk vd i (pos + int (run_len es1)) (i, off) pos = Some (es2 = [], (i, off + run_len es1))"
  using assms
proof (induction es1 arbitrary: off pos)
  case Nil
  then show ?case using chain_end [of b off es2 off'] by (subst seek_walk.simps) simp
next
  case (Cons e es1)
  obtain ino ty n where e: "e = (ino, ty, n)" by (cases e)
  have c: "chain b off ((ino, ty, n) # es1 @ es2) off'" using Cons.prems(1) e by simp
  note f = chain_fields [OF c Cons.prems(3-5)]
  have ne: "is_deblk_end vd (i, off) i = Some False" using chain_end [OF Cons.prems(1-5)] by simp
  have "0 < esize (length n)" using esize_bounds(3) [of "length n"] by simp
  then have "seek_walk vd i (pos + int (run_len (e # es1))) (i, off) pos
      = seek_walk vd i (pos + int (run_len (e # es1))) (i, off + esize (length n)) (pos + int (esize (length n)))"
    using f ne e by (subst seek_walk.simps) (simp add: calc_size_uint)
  also have "pos + int (run_len (e # es1)) = (pos + int (esize (length n))) + int (run_len es1)"
    using e by simp
  finally show ?case
    using Cons.IH [of "off + esize (length n)" "pos + int (esize (length n))"] Cons.prems c e
    by (simp add: algebra_simps)
qed

section \<open>The whole listing\<close>

text \<open>
  \<open>at_place ess i off r\<close>: the place \<open>off\<close> of block \<open>i\<close> is between two entries and \<open>r\<close> is
  what follows. The end of a block that is not the last one is no place of its own: the
  code goes on to the next block before it stops.
\<close>

definition at_place :: "entry list list \<Rightarrow> nat \<Rightarrow> nat \<Rightarrow> (int \<times> entry) list \<Rightarrow> bool" where
  "at_place ess i off r \<longleftrightarrow> i < length ess \<and> (\<exists>es1 es2. ess ! i = es1 @ es2 \<and> off = run_len es1
     \<and> r = with_pos (512 * int i + int off) es2 @ dirpos (Suc i) (drop (Suc i) ess)
     \<and> (es2 \<noteq> [] \<or> Suc i = length ess \<or> i = 0 \<and> off = 0))"

definition place_pos :: "nat \<Rightarrow> nat \<Rightarrow> int" where
  "place_pos i off = 512 * int i + int off"

definition to_place :: "nat \<Rightarrow> nat \<Rightarrow> aufs_vdir \<Rightarrow> aufs_vdir" where
  "to_place i off vd = vd\<lparr>vd_last_i := i, vd_last_p := (i, off)\<rparr>"

lemma to_place_sel [simp]:
  "vd_last_i (to_place i off vd) = i" "vd_last_p (to_place i off vd) = (i, off)"
  "vd_deblk (to_place i off vd) = vd_deblk vd" "vd_nblk (to_place i off vd) = vd_nblk vd"
  "to_place i off (to_place i' off' vd) = to_place i off vd"
  "vd_holds (to_place i off vd) ess = vd_holds vd ess"
  by (simp_all add: to_place_def vd_holds_def)

lemma to_place_upd:
  "to_place i off vd\<lparr>vd_last_p := (i, off')\<rparr> = to_place i off' vd"
  "to_place i off vd\<lparr>vd_last_i := i', vd_last_p := (i', off')\<rparr> = to_place i' off' vd"
  "vd\<lparr>vd_last_i := i, vd_last_p := (i, off)\<rparr> = to_place i off vd"
  by (simp_all add: to_place_def)

lemma dirpos_split:
  "i < length ess \<Longrightarrow> dirpos i (drop i ess) = with_pos (512 * int i) (ess ! i) @ dirpos (Suc i) (drop (Suc i) ess)"
  by (simp add: Cons_nth_drop_Suc [symmetric] AUFS_DEBLK_SIZE_def)

lemma at_placeI:
  assumes "i < length ess" "ess ! i = es1 @ es2" "off = run_len es1"
    and "r = with_pos (place_pos i off) es2 @ dirpos (Suc i) (drop (Suc i) ess)"
    and "es2 \<noteq> [] \<or> Suc i = length ess \<or> i = 0 \<and> off = 0"
  shows "at_place ess i off r"
  using assms unfolding at_place_def place_pos_def by blast

lemma at_start: "ess \<noteq> [] \<Longrightarrow> at_place ess 0 0 (dirpos 0 ess)"
  using dirpos_split [of 0 ess] by (intro at_placeI [of 0 ess "[]" "ess ! 0"]) (auto simp: place_pos_def)

lemma holds_blk:
  assumes "vd_holds vd ess" "i < length ess"
  obtains b off where "vd_deblk vd ! i = Some b" "chain b 0 (ess ! i) off" "blk_end b off"
    "length b = AUFS_DEBLK_SIZE" "i < length (vd_deblk vd)"
  using assms unfolding vd_holds_def holds_def by force

lemma chain_suffix:
  assumes "chain b 0 (es1 @ es2) off"
  shows "chain b (run_len es1) es2 off"
  using assms chain_run [of b 0 es1] by (auto simp: chain_append)

lemma chain_bound: "chain b o1 es o2 \<Longrightarrow> o1 \<le> 512 \<Longrightarrow> o2 \<le> 512"
  by (induction es arbitrary: o1) (auto simp: AUFS_DEBLK_SIZE_def)

lemma place_bound:
  assumes "vd_holds vd ess" "i < length ess" "ess ! i = es1 @ es2"
  shows "run_len es1 \<le> 512" "es2 \<noteq> [] \<Longrightarrow> run_len es1 < 512"
proof -
  from holds_blk [OF assms(1,2)] obtain b off where c: "chain b 0 (es1 @ es2) off"
    using assms(3) by metis
  then obtain m where "chain b 0 es1 m" by (auto simp: chain_append)
  then show "run_len es1 \<le> 512" using chain_run chain_bound by fastforce
  assume "es2 \<noteq> []"
  then obtain e es where "es2 = e # es" by (cases es2) auto
  with chain_suffix [OF c] have "run_len es1 + esz e \<le> 512" by (auto simp: AUFS_DEBLK_SIZE_def)
  with esz_pos [of e] show "run_len es1 < 512" by linarith
qed

lemma fill_blks_ok:
  assumes "vd_holds vd ess" "i < length ess" "ess ! i = es1 @ es2"
    and "deliver fd d (with_pos (place_pos i (run_len es1)) es2 @ dirpos (Suc i) (drop (Suc i) ess)) = (d', r')"
  shows "\<exists>i' o'. fill_blks fd (to_place i (run_len es1) vd) (place_pos i (run_len es1)) d
      = Some (to_place i' o' vd, place_pos i' o', d') \<and> at_place ess i' o' r'"
  using assms
proof (induction "length ess - i" arbitrary: i es1 es2 d rule: less_induct)
  case less
  let ?v = "to_place i (run_len es1) vd" and ?p = "place_pos i (run_len es1)"
  from holds_blk [OF less.prems(1,2)] obtain b off where
    b: "vd_deblk ?v ! i = Some b" "i < length (vd_deblk ?v)" "length b = AUFS_DEBLK_SIZE" "blk_end b off"
    and c0: "chain b 0 (es1 @ es2) off" unfolding less.prems(3) to_place_sel by blast
  obtain d1 r1 where d1: "deliver fd d (with_pos ?p es2) = (d1, r1)" by (cases "deliver fd d (with_pos ?p es2)")
  from fill_blk_ok [OF chain_suffix [OF c0] b(4,3,2,1) _ _ d1] obtain a1 a2 where
    r: "es2 = a1 @ a2" "r1 = with_pos (?p + int (run_len a1)) a2"
      "fill_blk fd ?v ?p d = Some (a2 = [], to_place i (run_len es1 + run_len a1) vd, ?p + int (run_len a1), d1)"
    by (auto simp: to_place_upd)
  have pp: "?p + int (run_len a1) = place_pos i (run_len (es1 @ a1))"
    by (simp add: place_pos_def run_len_append)
  have n: "length ess = vd_nblk vd" using less.prems(1) by (simp add: vd_holds_def)
  have here: "at_place ess i (run_len (es1 @ a1)) (with_pos (place_pos i (run_len (es1 @ a1))) a2
      @ dirpos (Suc i) (drop (Suc i) ess))" if "a2 \<noteq> [] \<or> Suc i = length ess"
    using that less.prems(2,3) r(1) by (intro at_placeI [of i ess "es1 @ a1" a2]) auto
  show ?case
  proof (cases "a2 = []")
    case False
    then have "fill_blks fd ?v ?p d = Some (to_place i (run_len (es1 @ a1)) vd, place_pos i (run_len (es1 @ a1)), d1)"
      using r(3) b(2) pp by (subst fill_blks.simps) (simp add: run_len_append)
    moreover have "d' = d1" "r' = with_pos (place_pos i (run_len (es1 @ a1))) a2 @ dirpos (Suc i) (drop (Suc i) ess)"
      using less.prems(4) d1 r(2) False pp by (auto simp: deliver_append)
    ultimately show ?thesis using here False by blast
  next
    case True
    show ?thesis
    proof (cases "Suc i = length ess")
      case last: True
      have "fill_blks fd ?v ?p d = Some (to_place i (run_len (es1 @ a1)) vd, place_pos i (run_len (es1 @ a1)), d1)"
        using r(3) b(2) pp last True n by (subst fill_blks.simps) (simp add: run_len_append)
      moreover have "d' = d1" "r' = with_pos (place_pos i (run_len (es1 @ a1))) a2 @ dirpos (Suc i) (drop (Suc i) ess)"
        using less.prems(4) d1 r(2) True pp last by (auto simp: deliver_append)
      ultimately show ?thesis using here last by blast
    next
      case more: False
      then have i: "Suc i < length ess" using less.prems(2) by simp
      have step: "fill_blks fd ?v ?p d = fill_blks fd (to_place (Suc i) (run_len []) vd) (place_pos (Suc i) (run_len [])) d1"
        using r(3) b(2) True i n
        by (subst fill_blks.simps) (simp add: to_place_upd place_pos_def AUFS_DEBLK_SIZE_def)
      have "deliver fd d1 (dirpos (Suc i) (drop (Suc i) ess)) = (d', r')"
        using less.prems(4) d1 r(2) True by (simp add: deliver_append)
      then have "deliver fd d1 (with_pos (place_pos (Suc i) (run_len [])) (ess ! Suc i)
          @ dirpos (Suc (Suc i)) (drop (Suc (Suc i)) ess)) = (d', r')"
        using dirpos_split [OF i] by (simp add: place_pos_def)
      from less.hyps [OF _ less.prems(1) i _ this] i step show ?thesis by auto
    qed
  qed
qed

lemma place_unique:
  assumes "vd_holds vd ess" "at_place ess i o1 r" "at_place ess i' o2 r'" "place_pos i o1 = place_pos i' o2"
  shows "i = i' \<and> o1 = o2 \<and> r = r'"
proof -
  from assms(2) obtain e1 e2 where 1: "i < length ess" "ess ! i = e1 @ e2" "o1 = run_len e1"
      "r = with_pos (512 * int i + int o1) e2 @ dirpos (Suc i) (drop (Suc i) ess)"
      "e2 \<noteq> [] \<or> Suc i = length ess \<or> i = 0 \<and> o1 = 0" unfolding at_place_def by blast
  from assms(3) obtain f1 f2 where 2: "i' < length ess" "ess ! i' = f1 @ f2" "o2 = run_len f1"
      "r' = with_pos (512 * int i' + int o2) f2 @ dirpos (Suc i') (drop (Suc i') ess)"
      "f2 \<noteq> [] \<or> Suc i' = length ess \<or> i' = 0 \<and> o2 = 0" unfolding at_place_def by blast
  have b1: "o1 \<le> 512" "o1 < 512 \<or> Suc i = length ess" using place_bound [OF assms(1) 1(1,2)] 1(3,5) by auto
  have b2: "o2 \<le> 512" "o2 < 512 \<or> Suc i' = length ess" using place_bound [OF assms(1) 2(1,2)] 2(3,5) by auto
  have e: "512 * i + o1 = 512 * i' + o2" using assms(4) unfolding place_pos_def by linarith
  have i: "i = i'" using e b1 b2 1(1) 2(1) by linarith
  then have o: "o1 = o2" using e by simp
  have "e1 = f1" using run_len_inj [of e1 e2 f1 f2] 1(2,3) 2(2,3) i o by simp
  then have "e2 = f2" using 1(2) 2(2) i by simp
  then show ?thesis using i o 1(4) 2(4) by simp
qed

lemma calc_offset_place:
  assumes "vd_holds vd ess" "at_place ess i off r"
  shows "calc_offset (to_place i off vd) = Some (place_pos i off)"
  using assms by (auto simp: calc_offset_def at_place_def vd_holds_def place_pos_def AUFS_DEBLK_SIZE_def)

lemma seek_index:
  assumes "i < 2 ^ 31" "off < 512"
  shows "signed_take_bit 31 (place_pos i off sdiv 512) = int i"
proof -
  have "place_pos i off sdiv 512 = int i"
    using assms(2) by (simp add: place_pos_def signed_divide_int_def sgn_if)
  then show ?thesis using assms(1) by (simp add: signed_take_bit_int_eq_self)
qed

lemma seek_vdir_ok:
  assumes h: "vd_holds vd ess" and n: "vd_nblk vd \<le> 2 ^ 22"
    and cur: "at_place ess i o0 r0" "vd = to_place i o0 vd"
    and pos: "at_place ess j o1 r" "f_pos file = place_pos j o1"
  shows "seek_vdir file vd = Some (True, to_place j o1 vd)
    \<or> seek_vdir file vd = Some (False, to_place 0 0 vd) \<and> r = []"
proof -
  have co: "calc_offset vd = Some (place_pos i o0)"
    using calc_offset_place [OF h cur(1)] cur(2) by simp
  have len: "length ess = vd_nblk vd" using h by (simp add: vd_holds_def)
  from pos(1) obtain es1 es2 where p: "j < length ess" "ess ! j = es1 @ es2" "o1 = run_len es1"
      "r = with_pos (512 * int j + int o1) es2 @ dirpos (Suc j) (drop (Suc j) ess)"
      "es2 \<noteq> [] \<or> Suc j = length ess \<or> j = 0 \<and> o1 = 0" unfolding at_place_def by blast
  note pb = place_bound [OF h p(1,2)]
  show ?thesis
  proof (cases "place_pos j o1 = place_pos i o0")
    case True
    from place_unique [OF h pos(1) cur(1) True] cur(2) co pos(2) True show ?thesis
      by (simp add: seek_vdir_def)
  next
    case far: False
    show ?thesis
    proof (cases "place_pos j o1 = 0")
      case True
      then have "j = 0" "o1 = 0" by (simp_all add: place_pos_def)
      then show ?thesis using far co pos(2) by (simp add: seek_vdir_def to_place_upd place_pos_def)
    next
      case mid: False
      let ?v = "to_place 0 0 vd" and ?q = "place_pos j o1"
      have go: "seek_vdir file vd = (let i = signed_take_bit 31 (?q sdiv 512)
          in if int (vd_nblk vd) \<le> i then Some (False, ?v)
             else for_up (seek_blk ?q) i (int (vd_nblk vd) - 1) (False, ?v))"
        using far co pos(2) mid by (simp add: seek_vdir_def to_place_upd AUFS_DEBLK_SIZE_def Let_def)
      show ?thesis
      proof (cases "o1 < 512")
        case True
        from holds_blk [OF h p(1)] obtain b off where
          b: "vd_deblk ?v ! j = Some b" "j < length (vd_deblk ?v)" "length b = AUFS_DEBLK_SIZE" "blk_end b off"
          and c0: "chain b 0 (es1 @ es2) off" unfolding p(2) to_place_sel by blast
        have ix: "signed_take_bit 31 (?q sdiv 512) = int j"
          using seek_index [OF _ True] p(1) len n by simp
        have w: "seek_walk ?v j ?q (j, 0) (int j * 512) = Some (es2 = [], (j, o1))"
          using seek_walk_ok [OF c0 b(4,3,2,1), of "int j * 512"] p(3) by (simp add: place_pos_def mult.commute)
        have wr: "signed_take_bit 31 (int j * 512) = int j * 512"
          using p(1) len n by (simp add: signed_take_bit_int_eq_self)
        have sb: "seek_blk ?q (int j) (False, ?v) =
            Some (if es2 \<noteq> [] then (False, True, to_place j o1 vd) else (True, False, ?v))"
          using b(1,2) w wr by (simp add: seek_blk_def AUFS_DEBLK_SIZE_def to_place_upd)
        have "seek_vdir file vd = for_up (seek_blk ?q) (int j) (int (vd_nblk vd) - 1) (False, ?v)"
          using go ix p(1) len by simp
        also have "\<dots> = (if es2 \<noteq> [] then Some (True, to_place j o1 vd)
            else for_up (seek_blk ?q) (int j + 1) (int (vd_nblk vd) - 1) (False, ?v))"
          using sb p(1) len by (simp add: for_up_step)
        finally have s: "seek_vdir file vd = (if es2 \<noteq> [] then Some (True, to_place j o1 vd)
            else for_up (seek_blk ?q) (int j + 1) (int (vd_nblk vd) - 1) (False, ?v))" .
        show ?thesis
        proof (cases "es2 = []")
          case True
          then have "Suc j = length ess" using p(5) mid by (auto simp: place_pos_def)
          then show ?thesis using s True p(4) len by simp
        qed (use s in simp)
      next
        case False
        then have o: "o1 = 512" "es2 = []" using pb p(3) by force+
        then have j: "Suc j = length ess" using p(5) by auto
        have "?q = place_pos (Suc j) 0" using o by (simp add: place_pos_def)
        then have "?q sdiv 512 = int (Suc j)"
          by (simp add: place_pos_def signed_divide_int_def sgn_if)
        then have "signed_take_bit 31 (?q sdiv 512) = int (vd_nblk vd)"
          using j len n by (simp add: signed_take_bit_int_eq_self)
        then show ?thesis using go p(4) o j by simp
      qed
    qed
  qed
qed

section \<open>Properties\<close>

text \<open>
  \<open>open_at ess file k r\<close>: the open directory has the listing \<open>ess\<close>, its cursor is at some
  place, and the entries \<open>r\<close> follow its position. A listing of more than \<open>2 ^ 22\<close> blocks, two
  gigabytes, is out of reach of the search. \<open>in_step\<close>: the cursor is at the position, and nothing
  is searched for.
\<close>

definition open_at :: "entry list list \<Rightarrow> aufs_file \<Rightarrow> kern \<Rightarrow> (int \<times> entry) list \<Rightarrow> bool" where
  "open_at ess file k r \<longleftrightarrow> (\<exists>c. fvdir_cache file = Some (Some c) \<and> vd_holds (k_vdir k c) ess
     \<and> vd_nblk (k_vdir k c) \<le> 2 ^ 22
     \<and> (\<exists>i o0 r0. at_place ess i o0 r0 \<and> k_vdir k c = to_place i o0 (k_vdir k c))
     \<and> (\<exists>j o1. at_place ess j o1 r \<and> f_pos file = place_pos j o1))"

definition in_step :: "entry list list \<Rightarrow> aufs_file \<Rightarrow> kern \<Rightarrow> (int \<times> entry) list \<Rightarrow> bool" where
  "in_step ess file k r \<longleftrightarrow> (\<exists>c j o1. fvdir_cache file = Some (Some c) \<and> vd_holds (k_vdir k c) ess
     \<and> at_place ess j o1 r \<and> k_vdir k c = to_place j o1 (k_vdir k c) \<and> f_pos file = place_pos j o1)"

lemma fvdir_cache_pos [simp]: "fvdir_cache (file\<lparr>f_pos := p\<rparr>) = fvdir_cache file"
  by (simp add: fvdir_cache_def ftofi_def)

text \<open>A call whose search succeeded.\<close>

lemma fill_found:
  assumes c: "fvdir_cache file = Some (Some c)" and h: "vd_holds (k_vdir k c) ess"
    and pos: "at_place ess j o1 r" "f_pos file = place_pos j o1"
    and s: "seek_vdir file (k_vdir k c) = Some (True, to_place j o1 (k_vdir k c))"
    and d: "deliver fd d r = (d', r')"
  shows "\<exists>i' o'. au_fill_de fd d file k
      = Some (0, file\<lparr>f_pos := place_pos i' o'\<rparr>, d', set_vdir c (to_place i' o' (k_vdir k c)) k)
    \<and> at_place ess i' o' r'"
proof -
  let ?vd = "k_vdir k c"
  from pos(1) obtain es1 es2 where p: "j < length ess" "ess ! j = es1 @ es2" "o1 = run_len es1"
    "r = with_pos (512 * int j + int o1) es2 @ dirpos (Suc j) (drop (Suc j) ess)"
    unfolding at_place_def by blast
  then have "deliver fd d (with_pos (place_pos j (run_len es1)) es2 @ dirpos (Suc j) (drop (Suc j) ess)) = (d', r')"
    using d by (simp add: place_pos_def)
  from fill_blks_ok [OF h p(1,2) this] obtain i' o' where
    f: "fill_blks fd (to_place j o1 ?vd) (place_pos j o1) d = Some (to_place i' o' ?vd, place_pos i' o', d')"
      "at_place ess i' o' r'" using p(3) by auto
  have "au_fill_de fd d file k = Some (0, file\<lparr>f_pos := place_pos i' o'\<rparr>, d', set_vdir c (to_place i' o' ?vd) k)"
    using c s f(1) pos(2) by (simp add: au_fill_de_def)
  then show ?thesis using f(2) by blast
qed

lemma fill_de_ok:
  assumes o: "open_at ess file k r" and d: "deliver fd d r = (d', r')"
  shows "\<exists>file' k'. au_fill_de fd d file k = Some (0, file', d', k') \<and> open_at ess file' k' r'"
proof -
  from o obtain c i o0 r0 j o1 where c: "fvdir_cache file = Some (Some c)" and h: "vd_holds (k_vdir k c) ess"
    and n: "vd_nblk (k_vdir k c) \<le> 2 ^ 22"
    and cur: "at_place ess i o0 r0" "k_vdir k c = to_place i o0 (k_vdir k c)"
    and pos: "at_place ess j o1 r" "f_pos file = place_pos j o1" unfolding open_at_def by blast
  let ?vd = "k_vdir k c"
  have st: "at_place ess 0 0 (dirpos 0 ess)" using cur(1) by (intro at_start) (auto simp: at_place_def)
  have new: "open_at ess (file\<lparr>f_pos := place_pos j' o'\<rparr>) (set_vdir c (to_place i' p' ?vd) k) r'"
    if "at_place ess i' p' r1" "at_place ess j' o' r'" for i' p' r1 j' o'
    unfolding open_at_def using c h n that by (auto simp: set_vdir_def)
  from seek_vdir_ok [OF h n cur pos] show ?thesis
  proof (elim disjE conjE)
    assume "seek_vdir file ?vd = Some (True, to_place j o1 ?vd)"
    from fill_found [OF c h pos this d] new show ?thesis by blast
  next
    assume s: "seek_vdir file ?vd = Some (False, to_place 0 0 ?vd)" and r: "r = []"
    have "au_fill_de fd d file k = Some (0, file, d', set_vdir c (to_place 0 0 ?vd) k)"
      using c s d r by (simp add: au_fill_de_def)
    moreover have "file\<lparr>f_pos := place_pos j o1\<rparr> = file" using pos(2) by simp
    moreover have "r' = r" using d r by simp
    ultimately show ?thesis using new [OF st, of j o1] pos(1) by auto
  qed
qed

lemma fill_in_step:
  assumes o: "in_step ess file k r" and d: "deliver fd d r = (d', r')"
  shows "\<exists>file' k'. au_fill_de fd d file k = Some (0, file', d', k') \<and> in_step ess file' k' r'"
proof -
  from o obtain c j o1 where c: "fvdir_cache file = Some (Some c)" and h: "vd_holds (k_vdir k c) ess"
    and pos: "at_place ess j o1 r" "f_pos file = place_pos j o1" and cur: "k_vdir k c = to_place j o1 (k_vdir k c)"
    unfolding in_step_def by blast
  have "seek_vdir file (k_vdir k c) = Some (True, to_place j o1 (k_vdir k c))"
    using calc_offset_place [OF h pos(1)] cur pos(2) by (simp add: seek_vdir_def)
  from fill_found [OF c h pos this d] obtain i' o' where
    f: "au_fill_de fd d file k = Some (0, file\<lparr>f_pos := place_pos i' o'\<rparr>, d', set_vdir c (to_place i' o' (k_vdir k c)) k)"
      "at_place ess i' o' r'" by blast
  have "in_step ess (file\<lparr>f_pos := place_pos i' o'\<rparr>) (set_vdir c (to_place i' o' (k_vdir k c)) k) r'"
    unfolding in_step_def using c h f(2) by (auto simp: set_vdir_def)
  with f(1) show ?thesis by blast
qed

text \<open>C10.
  Whatever the caller's filler does, one call of \<open>au_fill_de\<close> gives it the entries behind
  the position of the directory, one after the other and with their offsets, up to the
  first one it refuses; then the directory is positioned in front of that entry (behind
  the last one when none is refused), also when the cursor of the listing was elsewhere,
  and the listing is as before. The listing has at most \<open>2 ^ 22\<close> blocks; beyond that the
  search computes a wrong offset.
\<close>

theorem au_fill_de_resumes:
  assumes "open_at ess file k r" and "deliver fd d r = (d', r')"
  shows "\<exists>file' k'. au_fill_de fd d file k = Some (0, file', d', k') \<and> open_at ess file' k' r'"
  using assms by (rule fill_de_ok)

text \<open>A filler with room for so many entries, and a sequence of calls with such fillers.\<close>

definition room_fd :: "(nat \<times> (byte list \<times> byte) list) filldir" where
  "room_fd = (\<lambda>(room, acc) n pos ino ty.
     if room = 0 then (- EINVAL, (0, acc)) else (0, (room - 1, acc @ [(n, ty)])))"

fun list_dir :: "nat list \<Rightarrow> aufs_file \<Rightarrow> kern \<Rightarrow> ((byte list \<times> byte) list \<times> aufs_file \<times> kern) option" where
  "list_dir [] file k = Some ([], file, k)"
| "list_dir (room # rooms) file k =
     do { (err, file, (_, out), k) \<leftarrow> au_fill_de room_fd (room, []) file k;
          (outs, file, k) \<leftarrow> list_dir rooms file k;
          Some (out @ outs, file, k) }"

lemma deliver_room:
  "deliver room_fd (room, acc) r = (let t = take room r in
     (((if length r \<le> room then room - length r else 0), acc @ map (\<lambda>e. vnt (snd e)) t), drop room r))"
proof (induction r arbitrary: room acc)
  case (Cons x r)
  obtain pos ino ty n where x: "x = (pos, ino, ty, n)" by (cases x)
  show ?case by (cases room) (simp_all add: x room_fd_def Cons.IH [unfolded room_fd_def] Let_def vnt_def)
qed simp

lemma list_dir_ok:
  "in_step ess file k r \<Longrightarrow> \<exists>file' k'. list_dir rooms file k
     = Some (map (\<lambda>e. vnt (snd e)) (take (sum_list rooms) r), file', k')"
proof (induction rooms arbitrary: "file" k r)
  case (Cons room rooms)
  from fill_in_step [OF Cons.prems deliver_room [of room "[]" r, unfolded Let_def]] obtain f1 k1 where
    1: "au_fill_de room_fd (room, []) file k = Some (0, f1,
        ((if length r \<le> room then room - length r else 0), [] @ map (\<lambda>e. vnt (snd e)) (take room r)), k1)"
    and o: "in_step ess f1 k1 (drop room r)" by blast
  from Cons.IH [OF o] obtain f2 k2 where
    2: "list_dir rooms f1 k1 = Some (map (\<lambda>e. vnt (snd e)) (take (sum_list rooms) (drop room r)), f2, k2)" by blast
  have "take room r @ take (sum_list rooms) (drop room r) = take (room + sum_list rooms) r"
    by (simp add: take_add)
  then have "map (\<lambda>e. vnt (snd e)) (take room r) @ map (\<lambda>e. vnt (snd e)) (take (sum_list rooms) (drop room r))
      = map (\<lambda>e. vnt (snd e)) (take (room + sum_list rooms) r)"
    by (metis map_append)
  then show ?case using 1 2 by simp
qed simp

text \<open>A listing of two entries in one block, in an open directory.\<close>

definition ents1 :: "entry list" where "ents1 = [(5, 8, [97]), (6, 4, [98])]"

definition blk1 :: "byte list" where
  "blk1 = (enc (5, 8, [97]) @ replicate 5 0) @ enc (6, 4, [98]) @ replicate 485 0"

definition vdir1 :: aufs_vdir where
  "vdir1 = \<lparr>vd_deblk = [Some blk1], vd_nblk = 1, vd_last_i = 0, vd_last_p = (0, 0), vd_version = 0, vd_jiffy = 0\<rparr>"

definition kern1 :: kern where "kern1 = set_vdir 3 vdir1 kern0"

definition file1 :: aufs_file where
  "file1 = file0\<lparr>private_data := map_option (fi_u_update (\<lambda>_. Fi_vdir_cache (Some 3))) (private_data file0)\<rparr>"

lemma vdir1_holds: "vd_holds vdir1 [ents1]"
proof -
  have "holds blk1 ents1 32"
    unfolding holds_def ents1_def
    by (simp add: blk1_def blk_end_def AUFS_DEBLK_SIZE_def esize_def good_name_def nth_append nth_Cons')
  then show ?thesis by (auto simp: vd_holds_def vdir1_def)
qed

lemma file1_cache: "fvdir_cache file1 = Some (Some 3)" "k_vdir kern1 3 = vdir1" "f_pos file1 = 0"
  by (simp_all add: fvdir_cache_def ftofi_def file1_def file0_def kern1_def set_vdir_def)

lemma dirpos1: "dirpos 0 [ents1] = [(0, 5, 8, [97]), (16, 6, 4, [98])]"
  by (simp add: ents1_def esize_def)

lemma open1: "open_at [ents1] file1 kern1 [(0, 5, 8, [97]), (16, 6, 4, [98])]"
proof -
  have "at_place [ents1] 0 0 (dirpos 0 [ents1])" by (rule at_start) simp
  moreover have "vdir1 = to_place 0 0 vdir1" "vd_nblk vdir1 = 1" by (simp_all add: vdir1_def to_place_def)
  ultimately show ?thesis
    unfolding open_at_def dirpos1 using file1_cache vdir1_holds by (fastforce simp: place_pos_def)
qed

theorem au_fill_de_resumes_witness:
  "\<exists>file' k'. au_fill_de room_fd (1, []) file1 kern1 = Some (0, file', (0, [([97], 8)]), k')
     \<and> open_at [ents1] file' k' [(16, 6, 4, [98])]"
proof -
  have "deliver room_fd (1, []) [(0, 5, 8, [97]), (16, 6, 4, [98])] = ((0, [([97], 8)]), [(16, 6, 4, [98])])"
    by (simp add: room_fd_def)
  from au_fill_de_resumes [OF open1 this] show ?thesis .
qed

lemma listing_pieces:
  assumes "fvdir_cache file = Some (Some c)" and "f_pos file = 0" and "vd_nblk (k_vdir k c) < 2 ^ 31"
    and "vd_holds (k_vdir k c) ess" and "ess \<noteq> []"
    and "vd_last_i (k_vdir k c) = 0" and "vd_last_p (k_vdir k c) = (0, 0)"
  shows "\<exists>file' k'. list_dir rooms file k
     = Some (take (sum_list rooms) (map vnt (vd_ents (k_vdir k c))), file', k')"
proof -
  have e: "map (\<lambda>e. vnt (snd e)) (take n (dirpos 0 ess)) = take n (map vnt (concat ess))" for n
    unfolding map_snd_dirpos [of 0 ess, symmetric] map_map take_map comp_def ..
  have "k_vdir k c = to_place 0 0 (k_vdir k c)" using assms(6,7) by (simp add: to_place_def)
  then have "in_step ess file k (dirpos 0 ess)"
    unfolding in_step_def using assms at_start [OF assms(5)] by (fastforce simp: place_pos_def)
  from list_dir_ok [OF this, of rooms] show ?thesis
    unfolding vd_holds_ents [OF assms(4)] e .
qed

text \<open>C11.
  Listing an opened directory by any sequence of calls with buffers of any sizes delivers
  the entries of its listing in order, each of them once: together the calls have
  delivered as many entries from the front of the listing as their buffers have room.
\<close>

theorem list_dir_in_pieces:
  assumes "fvdir_cache file = Some (Some c)" and "f_pos file = 0" and "vd_nblk (k_vdir k c) < 2 ^ 31"
    and "vd_holds (k_vdir k c) ess" and "ess \<noteq> []"
    and "vd_last_i (k_vdir k c) = 0" and "vd_last_p (k_vdir k c) = (0, 0)"
  shows "\<exists>file' k'. list_dir rooms file k
     = Some (take (sum_list rooms) (map vnt (vd_ents (k_vdir k c))), file', k')"
  using assms by (rule listing_pieces)

theorem list_dir_in_pieces_witness:
  "\<exists>file' k'. list_dir [1, 5] file1 kern1 = Some ([([97], 8), ([98], 4)], file', k')"
proof -
  have v: "vd_nblk vdir1 < 2 ^ 31" "vd_last_i vdir1 = 0" "vd_last_p vdir1 = (0, 0)" by (simp_all add: vdir1_def)
  have e: "map vnt (vd_ents vdir1) = [([97], 8), ([98], 4)]"
    by (simp add: vd_holds_ents [OF vdir1_holds] ents1_def vnt_def)
  from list_dir_in_pieces [of file1 3 kern1 "[ents1]" "[1, 5]"] file1_cache v vdir1_holds e
  show ?thesis by simp
qed

section \<open>Behind two gigabytes\<close>

lemma seek_walk_end:
  assumes "chain b off es off'" "blk_end b off'" "length b = AUFS_DEBLK_SIZE"
    and "i < length (vd_deblk vd)" "vd_deblk vd ! i = Some b" "pos + int (run_len es) \<le> q"
  shows "seek_walk vd i q (i, off) pos = Some (True, (i, off + run_len es))"
  using assms
proof (induction es arbitrary: off pos)
  case Nil
  then show ?case using chain_end [of b off "[]" off'] by (subst seek_walk.simps) simp
next
  case (Cons e es)
  obtain ino ty n where e: "e = (ino, ty, n)" by (cases e)
  have c: "chain b off ((ino, ty, n) # es) off'" using Cons.prems(1) e by simp
  note f = chain_fields [OF c Cons.prems(3-5)]
  have ne: "is_deblk_end vd (i, off) i = Some False" using chain_end [OF Cons.prems(1-5)] by simp
  have "pos < q" using Cons.prems(6) esz_pos [of e] by simp
  then have "seek_walk vd i q (i, off) pos = seek_walk vd i q (i, off + esize (length n)) (pos + int (esize (length n)))"
    using f ne e by (subst seek_walk.simps) (simp add: calc_size_uint)
  then show ?case
    using Cons.IH [of "off + esize (length n)" "pos + int (esize (length n))"] Cons.prems c e
    by (simp add: algebra_simps)
qed

lemma wrapped_offset: "2 ^ 22 \<le> i \<Longrightarrow> i < 2 ^ 23 \<Longrightarrow> signed_take_bit 31 (i * 512 :: int) = i * 512 - 2 ^ 32"
proof -
  assume i: "2 ^ 22 \<le> i" "i < 2 ^ 23"
  have "(i * 512 + 2 ^ 31) mod 2 ^ 32 = i * 512 + 2 ^ 31 - 2 ^ 32"
    by (rule int_mod_pos_eq [where q = 1]) (use i in simp_all)
  then show ?thesis by (simp add: signed_take_bit_eq_take_bit_shift take_bit_eq_mod)
qed

text \<open>
  Behind the first \<open>2 ^ 22\<close> blocks the offset of a block wraps to a negative number, the search
  passes every block and the directory seems to end.
\<close>

theorem au_fill_de_far_ends:
  assumes c: "fvdir_cache file = Some (Some c)" and h: "vd_holds (k_vdir k c) ess" and n: "vd_nblk (k_vdir k c) \<le> 2 ^ 23"
    and cur: "at_place ess i o0 r0" "k_vdir k c = to_place i o0 (k_vdir k c)"
    and pos: "at_place ess j o1 r" "f_pos file = place_pos j o1"
    and far: "2 ^ 22 \<le> j" "place_pos i o0 \<noteq> place_pos j o1"
  shows "au_fill_de fd d file k = Some (0, file, d, set_vdir c (to_place 0 0 (k_vdir k c)) k)"
proof -
  let ?vd = "k_vdir k c" and ?q = "place_pos j o1"
  let ?v = "to_place 0 0 ?vd"
  have len: "length ess = vd_nblk ?vd" using h by (simp add: vd_holds_def)
  have j: "j < vd_nblk ?vd" using pos(1) len by (auto simp: at_place_def)
  have q: "0 < ?q" using far(1) by (simp add: place_pos_def)
  have co: "calc_offset ?vd = Some (place_pos i o0)" using calc_offset_place [OF h cur(1)] cur(2) by simp
  have blk: "seek_blk ?q i (False, ?v) = Some (True, False, ?v)" if i: "int j \<le> i" "i \<le> int (vd_nblk ?vd) - 1" for i
  proof -
    have r: "2 ^ 22 \<le> i" "i < 2 ^ 23" "nat i < length ess" "0 \<le> i" using i far(1) n len by simp_all
    from holds_blk [OF h r(3)] obtain b off where
      b: "vd_deblk ?v ! nat i = Some b" "nat i < length (vd_deblk ?v)" "length b = AUFS_DEBLK_SIZE" "blk_end b off"
      and ch: "chain b 0 (ess ! nat i) off" unfolding to_place_sel by blast
    have "run_len (ess ! nat i) \<le> 512" using chain_run [OF ch] chain_bound [OF ch] by simp
    then have "i * 512 - 2 ^ 32 + int (run_len (ess ! nat i)) \<le> ?q" using r(2) q by simp
    from seek_walk_end [OF ch b(4,3,2,1) this] show ?thesis
      using b(1,2) r(4) wrapped_offset [OF r(1,2)] by (simp add: seek_blk_def AUFS_DEBLK_SIZE_def)
  qed
  have o1: "o1 \<le> 512" using place_bound [OF h] pos(1) unfolding at_place_def by blast
  have "?q sdiv 512 = int j \<or> ?q sdiv 512 = int j + 1"
    using o1 by (cases "o1 = 512") (simp_all add: place_pos_def signed_divide_int_def sgn_if)
  moreover have "signed_take_bit 31 x = x" if "x = int j \<or> x = int j + 1" for x
    by (rule signed_take_bit_int_eq_self) (use that j n in auto)
  ultimately obtain x where x: "signed_take_bit 31 (?q sdiv 512) = x" "int j \<le> x" by force
  have loop: "for_up (seek_blk ?q) x (int (vd_nblk ?vd) - 1) (False, ?v) = Some (False, ?v)"
    if "x \<le> int (vd_nblk ?vd) - 1"
  proof -
    have "\<exists>t. for_up (seek_blk ?q) x (int (vd_nblk ?vd) - 1) (False, ?v) = Some t \<and> t = (False, ?v)"
      by (rule for_up_total [where I = "\<lambda>_ t. t = (False, ?v)"]) (use x(2) that blk in auto)
    then show ?thesis by blast
  qed
  have "seek_vdir file ?vd = Some (False, ?v)"
    using far(2) co pos(2) q x(1) loop by (simp add: seek_vdir_def to_place_upd AUFS_DEBLK_SIZE_def Let_def)
  then show ?thesis using c by (simp add: au_fill_de_def)
qed

definition far_ess :: "entry list list" where "far_ess = replicate (2 ^ 22 + 1) ents1"

definition far_vdir :: aufs_vdir where
  "far_vdir = vdir1\<lparr>vd_deblk := replicate (2 ^ 22 + 1) (Some blk1), vd_nblk := 2 ^ 22 + 1\<rparr>"

definition far_kern :: kern where "far_kern = set_vdir 3 far_vdir kern0"

definition far_file :: aufs_file where "far_file = file1\<lparr>f_pos := place_pos (2 ^ 22) 0\<rparr>"

theorem au_fill_de_far_ends_witness:
  "at_place far_ess (2 ^ 22) 0 (with_pos (place_pos (2 ^ 22) 0) ents1)
   \<and> au_fill_de room_fd (1, []) far_file far_kern = Some (0, far_file, (1, []), set_vdir 3 far_vdir far_kern)"
proof -
  have l: "length far_ess = 2 ^ 22 + 1" and at: "\<And>i. i < 2 ^ 22 + 1 \<Longrightarrow> far_ess ! i = ents1"
    unfolding far_ess_def by (rule length_replicate) (rule nth_replicate)
  have k: "k_vdir far_kern 3 = far_vdir" by (simp add: far_kern_def set_vdir_def)
  have r: "vd_deblk far_vdir = replicate (2 ^ 22 + 1) (Some blk1)" and n: "vd_nblk far_vdir = 2 ^ 22 + 1"
    by (simp_all add: far_vdir_def)
  have dl: "length (vd_deblk far_vdir) = 2 ^ 22 + 1" unfolding r by (rule length_replicate)
  have dk: "\<And>i. i < 2 ^ 22 + 1 \<Longrightarrow> vd_deblk far_vdir ! i = Some blk1" unfolding r by (rule nth_replicate)
  note v = n dl
  obtain off where b: "holds blk1 ents1 off" using vdir1_holds by (auto simp: vd_holds_def vdir1_def)
  have h: "vd_holds far_vdir far_ess"
    unfolding vd_holds_def v l using at dk b by (metis order_refl)
  have a1: "at_place far_ess (2 ^ 22) 0 (with_pos (place_pos (2 ^ 22) 0) ents1)"
    by (rule at_placeI [of _ _ "[]" ents1]) (use l at in \<open>simp_all add: ents1_def\<close>)
  have a0: "at_place far_ess 0 0 (dirpos 0 far_ess)" by (rule at_start) (use l in force)
  have "far_vdir = to_place 0 0 far_vdir" by (simp add: far_vdir_def vdir1_def to_place_def)
  moreover have "fvdir_cache far_file = Some (Some 3)" "f_pos far_file = place_pos (2 ^ 22) 0"
    using file1_cache by (simp_all add: far_file_def)
  moreover have "place_pos 0 0 \<noteq> place_pos (2 ^ 22) 0" by (simp add: place_pos_def)
  moreover have "to_place 0 0 far_vdir = far_vdir" using calculation(1) by simp
  ultimately show ?thesis
    using au_fill_de_far_ends [of far_file 3 far_kern far_ess 0 0 _ "2 ^ 22" 0 _ room_fd "(1, [])"] h a0 a1 v k by simp
qed

end
