(* ===== verification/Aufs_Vdir_Copy.thy ===== *)
theory Aufs_Vdir_Copy
  imports Aufs_Readdir
begin

text \<open>
  The copy of a directory's listing that every open file keeps (\<open>copy_vdir\<close>,
  \<open>au_init_vdir\<close> in vdir.c), and what opening and listing a directory gives in the end.
\<close>

lemma copy_deblks_ok:
  assumes "\<forall>j < n. vd_deblk src ! j \<noteq> None" "n \<le> length (vd_deblk src)" "n \<le> length (vd_deblk tgt)"
    and "\<forall>i. k_ok k i" "i \<le> n"
  shows "copy_deblks i n src tgt k = Some (True,
     tgt\<lparr>vd_deblk := take i (vd_deblk tgt) @ take (n - i) (drop i (vd_deblk src)) @ drop n (vd_deblk tgt)\<rparr>,
     kmem (n - i) (int (n - i)) k)"
  using assms
proof (induction i n src tgt k rule: copy_deblks.induct)
  case (1 i n src tgt k)
  show ?case
  proof (cases "i < n")
    case False
    then have "i = n" using "1.prems"(5) by simp
    then show ?thesis by (simp add: copy_deblks.simps)
  next
    case True
    let ?t = "tgt\<lparr>vd_deblk := (vd_deblk tgt)[i := vd_deblk src ! i]\<rparr>"
    obtain s where s: "vd_deblk src ! i = Some s" using True "1.prems"(1) by blast
    have st: "copy_deblks i n src tgt k = copy_deblks (i + 1) n src ?t (kmem 1 1 k)"
      using True s "1.prems" by (subst copy_deblks.simps) (simp add: kmem_malloc)
    have "copy_deblks (i + 1) n src ?t (kmem 1 1 k) = Some (True,
       ?t\<lparr>vd_deblk := take (i + 1) (vd_deblk ?t) @ take (n - (i + 1)) (drop (i + 1) (vd_deblk src)) @ drop n (vd_deblk ?t)\<rparr>,
       kmem (n - (i + 1)) (int (n - (i + 1))) (kmem 1 1 k))"
      using True "1.prems" s by (intro "1.IH") (auto simp: kmem_malloc)
    moreover have "take (n - i) (drop i (vd_deblk src)) = vd_deblk src ! i # take (n - (i + 1)) (drop (i + 1) (vd_deblk src))"
      using True "1.prems"(2) by (simp add: Cons_nth_drop_Suc [symmetric] take_Cons' Suc_diff_Suc)
    moreover have "take (i + 1) ((vd_deblk tgt)[i := vd_deblk src ! i]) = take i (vd_deblk tgt) @ [vd_deblk src ! i]"
      using True "1.prems"(3) by (simp add: take_Suc_conv_app_nth)
    ultimately show ?thesis using st True by (simp add: Suc_diff_Suc)
  qed
qed

lemma vd_holds_pos: "vd_holds vd ess \<Longrightarrow> ess \<noteq> [] \<Longrightarrow> 0 < vd_nblk vd"
  by (metis vd_holds_def length_greater_0_conv)

text \<open>A target of one block, and what the copy leaves in it.\<close>

definition fresh_vdir :: "aufs_vdir \<Rightarrow> bool" where
  "fresh_vdir vd \<longleftrightarrow> vd_nblk vd = 1 \<and> vd_deblk vd \<noteq> [] \<and> vd_deblk vd ! 0 \<noteq> None"

lemma copy_vdir_ok:
  assumes t: "fresh_vdir tgt" and h: "vd_holds src ess" "0 < vd_nblk src" and ok: "\<forall>i. k_ok k i"
  shows "\<exists>tgt' a. copy_vdir tgt src k = Some (0, tgt', kmem a (int (vd_nblk src) - 1) k)
    \<and> vd_holds tgt' ess \<and> vd_nblk tgt' = vd_nblk src \<and> vd_version tgt' = vd_version src
    \<and> vd_jiffy tgt' = vd_jiffy src \<and> vd_last_i tgt' = vd_last_i tgt \<and> vd_last_p tgt' = vd_last_p tgt"
proof -
  let ?n = "vd_nblk src"
  have len: "?n \<le> length (vd_deblk src)" and some: "\<forall>j < ?n. vd_deblk src ! j \<noteq> None"
    using h(1) by (auto simp: vd_holds_def)
  obtain s where s: "vd_deblk src ! 0 = Some s" using some h(2) by blast
  have grow: "\<exists>arr a. (if vd_nblk tgt < ?n then do { (p, k) \<leftarrow> au_kzrealloc None (vd_deblk tgt) (vd_nblk tgt) ?n k;
        case p of None \<Rightarrow> Some (False, tgt, k) | Some arr \<Rightarrow> Some (True, tgt\<lparr>vd_deblk := arr\<rparr>, k) }
      else Some (True, tgt, k)) = Some (True, tgt\<lparr>vd_deblk := arr\<rparr>, kmem a 0 k)
    \<and> ?n \<le> length arr \<and> arr ! 0 = vd_deblk tgt ! 0"
  proof (cases "1 < ?n")
    case True
    then show ?thesis using t ok
      by (intro exI [of _ "take 1 (vd_deblk tgt) @ replicate (?n - 1) None"] exI [of _ 1])
        (auto simp: au_kzrealloc_def kmalloc_def kfree_def kmem_def fresh_vdir_def nth_append Suc_le_eq)
  next
    case False
    then have "?n = 1" using h(2) by simp
    then show ?thesis using t
      by (intro exI [of _ "vd_deblk tgt"] exI [of _ 0]) (simp add: fresh_vdir_def Suc_le_eq)
  qed
  then obtain arr a where g: "(if vd_nblk tgt < ?n then do { (p, k) \<leftarrow> au_kzrealloc None (vd_deblk tgt) (vd_nblk tgt) ?n k;
        case p of None \<Rightarrow> Some (False, tgt, k) | Some arr \<Rightarrow> Some (True, tgt\<lparr>vd_deblk := arr\<rparr>, k) }
      else Some (True, tgt, k)) = Some (True, tgt\<lparr>vd_deblk := arr\<rparr>, kmem a 0 k)"
    "?n \<le> length arr" "arr ! 0 = vd_deblk tgt ! 0" by blast
  have "0 < length arr" using g(2) h(2) by linarith
  then obtain t0 where t0: "arr ! 0 = Some t0" "0 < length arr" using t g(3) by (auto simp: fresh_vdir_def)
  let ?t = "tgt\<lparr>vd_deblk := arr[0 := Some s], vd_nblk := ?n, vd_version := vd_version src, vd_jiffy := vd_jiffy src\<rparr>"
  let ?d = "take 1 (arr[0 := Some s]) @ take (?n - 1) (drop 1 (vd_deblk src)) @ drop ?n arr"
  have cp: "copy_deblks 1 ?n src ?t (kmem a 0 k) = Some (True, ?t\<lparr>vd_deblk := ?d\<rparr>,
      kmem (?n - 1) (int (?n - 1)) (kmem a 0 k))"
    using copy_deblks_ok [of ?n src ?t "kmem a 0 k" 1] some len g(2) ok h(2) by (simp add: Suc_le_eq)
  have "0 < length (vd_deblk src)" using len h(2) by linarith
  then have ag: "aget (vd_deblk src) 0 = Some (Some s)" using s by (simp add: aget_def)
  have "copy_vdir tgt src k = Some (0, ?t\<lparr>vd_deblk := ?d\<rparr>, kmem (?n - 1) (int (?n - 1)) (kmem a 0 k))"
    unfolding copy_vdir_def g(1) using t ag t0 len h(2) cp by (simp add: fresh_vdir_def)
  moreover have "take ?n ?d = take ?n (vd_deblk src)"
    using h(2) len t0(2) s by (cases arr; cases "vd_deblk src"; cases ?n) auto
  then have "?d ! i = vd_deblk src ! i" if "i < ?n" for i by (metis nth_take that)
  then have "vd_holds (?t\<lparr>vd_deblk := ?d\<rparr>) ess"
    using h g(2) len by (auto simp: vd_holds_def)
  ultimately show ?thesis using h(2)
    by (intro exI [of _ "?t\<lparr>vd_deblk := ?d\<rparr>"] exI [of _ "a + (?n - 1)"]) (simp add: of_nat_diff)
qed

text \<open>
  Copying a listing into a fresh cache succeeds when memory does not run out: the copy
  has the same entries, version and time, and exactly the blocks it needs are allocated.
\<close>

theorem copy_vdir_same_entries:
  assumes "alloc_vdir k0 = Some (Inr tgt, k)" and "\<forall>i. k_ok k0 i"
    and "vd_holds src ess" and "ess \<noteq> []"
  shows "\<exists>tgt' k'. copy_vdir tgt src k = Some (0, tgt', k') \<and> vd_ents tgt' = vd_ents src
    \<and> vd_version tgt' = vd_version src \<and> vd_jiffy tgt' = vd_jiffy src
    \<and> k_live k' = k_live k0 + 2 + int (vd_nblk src)"
proof -
  from alloc_vdir_ok [OF assms(2)] assms(1) have a: "k = kmem 4 3 k0" "built tgt [[]] 0" by auto
  have ne: "0 < vd_nblk src" using assms(3,4) by (rule vd_holds_pos)
  have "fresh_vdir tgt" using a(2) by (auto simp: fresh_vdir_def built_def vd_holds_def)
  from copy_vdir_ok [OF this assms(3) ne, of k] a(1) assms(2) obtain tgt' b where
    "copy_vdir tgt src k = Some (0, tgt', kmem b (int (vd_nblk src) - 1) k)" "vd_holds tgt' ess"
    "vd_version tgt' = vd_version src" "vd_jiffy tgt' = vd_jiffy src" by auto
  then show ?thesis using vd_holds_ents [OF assms(3)] a(1) by (simp add: vd_holds_ents kmem_def)
qed

theorem copy_vdir_same_entries_witness:
  "\<exists>tgt k tgt' k'. alloc_vdir kern0 = Some (Inr tgt, k) \<and> copy_vdir tgt vdir1 k = Some (0, tgt', k')
     \<and> vd_ents tgt' = [(5, 8, [97]), (6, 4, [98])]"
proof -
  from alloc_vdir_ok [OF kern0_ok] obtain tgt where t: "alloc_vdir kern0 = Some (Inr tgt, kmem 4 3 kern0)" by blast
  from copy_vdir_same_entries [OF t kern0_ok vdir1_holds] show ?thesis
    using t vd_holds_ents [OF vdir1_holds] by (fastforce simp: ents1_def)
qed

section \<open>Opening and listing a directory\<close>

lemma au_init_vdir_ok:
  assumes fi: "fi_ok file" "fvdir_cache file = Some None"
    and rd: "read_vdir env vrd file inode (f_pos file = 0) sb k = Some (0, inode', sb', k')"
    and iv: "ivdir inode' = Some (Some a)" "a < k_alloc k'" "S_ISDIR (i_mode inode)" "S_ISDIR (i_mode inode')"
    and h: "vd_holds (k_vdir k' a) ess" "ess \<noteq> []" and ok: "\<forall>i. k_ok k' i"
  shows "\<exists>file' k''. au_init_vdir env vrd file inode sb k = Some (0, file', inode', sb', k'')
    \<and> fvdir_cache file' = Some (Some (k_alloc k')) \<and> f_pos file' = f_pos file
    \<and> vd_holds (k_vdir k'' (k_alloc k')) ess \<and> vd_nblk (k_vdir k'' (k_alloc k')) = vd_nblk (k_vdir k' a)
    \<and> vd_last_i (k_vdir k'' (k_alloc k')) = 0 \<and> vd_last_p (k_vdir k'' (k_alloc k')) = (0, 0)"
proof -
  let ?c = "k_alloc k'"
  from alloc_vdir_ok [OF ok] obtain vd where
    vd: "alloc_vdir k' = Some (Inr vd, kmem 4 3 k')" "built vd [[]] 0" "vd_last_i vd = 0" by blast
  let ?k = "set_vdir ?c vd (kmem 4 3 k')"
  have src: "k_vdir ?k a = k_vdir k' a" "k_vdir ?k ?c = vd" using iv(2) by (simp_all add: set_vdir_def kmem_def)
  have ne: "0 < vd_nblk (k_vdir k' a)" using h by (rule vd_holds_pos)
  have fresh: "fresh_vdir vd" "vd_last_p vd = (0, 0)" using vd(2) by (auto simp: fresh_vdir_def built_def vd_holds_def)
  have "\<forall>i. k_ok ?k i" using ok by (simp add: set_vdir_def kmem_def)
  from copy_vdir_ok [OF fresh(1) h(1) ne this] obtain t b where
    t: "copy_vdir vd (k_vdir k' a) ?k = Some (0, t, kmem b (int (vd_nblk (k_vdir k' a)) - 1) ?k)"
    "vd_holds t ess" "vd_nblk t = vd_nblk (k_vdir k' a)" "vd_last_i t = 0" "vd_last_p t = (0, 0)"
    using vd(3) fresh(2) by auto
  let ?fi = "the (private_data file)"
  let ?file = "file\<lparr>f_version := i_version inode', private_data := Some (?fi\<lparr>fi_u := Fi_vdir_cache (Some ?c)\<rparr>)\<rparr>"
  have fo: "ftofi file = Some ?fi" "private_data file = Some ?fi"
    using ftofi_ok [OF fi(1)] fi(1) by (auto simp: fi_ok_def)
  have fo2: "ftofi (file\<lparr>f_version := v\<rparr>) = Some ?fi" for v using fo by (simp add: ftofi_def)
  have fc: "fvdir_cache (file\<lparr>f_version := v\<rparr>) = Some None" for v
    using fi(2) by (simp add: fvdir_cache_def ftofi_def)
  have sf: "set_fvdir_cache inode' (file\<lparr>f_version := v\<rparr>) (Some ?c)
      = Some (file\<lparr>f_version := v, private_data := Some (?fi\<lparr>fi_u := Fi_vdir_cache (Some ?c)\<rparr>)\<rparr>)" for v
    using fc fo2 iv(4) by (simp add: set_fvdir_cache_def upd_fi_def)
  have "au_init_vdir env vrd file inode sb k = Some (0, ?file, inode', sb',
      set_vdir ?c t (kmem b (int (vd_nblk (k_vdir k' a)) - 1) ?k))"
    using rd fi(2) iv vd(1) src t(1) sf by (simp add: au_init_vdir_def Let_def)
  moreover have "ftofi ?file = Some (?fi\<lparr>fi_u := Fi_vdir_cache (Some ?c)\<rparr>)"
    using fo(2) fi(1) by (auto simp: ftofi_def fi_ok_def fstart_def fend_def)
  then have "fvdir_cache ?file = Some (Some ?c)" by (simp add: fvdir_cache_def)
  ultimately show ?thesis using t(2-5)
    by (intro exI [of _ ?file] exI [of _ "set_vdir ?c t (kmem b (int (vd_nblk (k_vdir k' a)) - 1) ?k)"])
      (simp add: set_vdir_def)
qed

text \<open>C4.
  Opening a directory for the first time and listing it from its start, by any sequence
  of calls with buffers of any sizes, delivers the merge of the branches: the entries of
  every branch from the top, without whiteouts, without names an upper branch shows or
  whites out, in order and each of them once.
\<close>

theorem opendir_lists_merge:
  assumes "fi_ok file" and "0 \<le> fstart file" and "fvdir_cache file = Some None" and "f_pos file = 0"
    and "readdir_ok vrd C" and "hidden_dirs file C k" and "\<forall>i. k_ok k i"
    and "xino_all env sb k (fend file)"
    and "ii_ok inode" and "S_ISDIR (i_mode inode)" and "ii_vdir (i_iinfo inode) = None"
    and "length (merged {} (map (contents file C) [fstart file..fend file])) < 2 ^ 31 - 1"
  shows "\<exists>file' inode' sb' k'. au_init_vdir env vrd file inode sb k = Some (0, file', inode', sb', k')
    \<and> (\<forall>rooms. \<exists>file'' k''. list_dir rooms file' k' = Some (take (sum_list rooms)
          (map nt (merged {} (map (contents file C) [fstart file..fend file]))), file'', k''))"
proof -
  let ?m = "map nt (merged {} (map (contents file C) [fstart file..fend file]))"
  from read_vdir_ok [OF assms(1-3,5-11), of "f_pos file = 0"] obtain inode' sb' k' a ess where
    r: "read_vdir env vrd file inode (f_pos file = 0) sb k = Some (0, inode', sb', k')"
      "ivdir inode' = Some (Some a)" "map vnt (vd_ents (k_vdir k' a)) = ?m" "\<forall>i. k_ok k' i"
      "a < k_alloc k'" "i_mode inode' = i_mode inode" "vd_holds (k_vdir k' a) ess" "ess \<noteq> []"
      "vd_nblk (k_vdir k' a) \<le> Suc (length (merged {} (map (contents file C) [fstart file..fend file])))" by blast
  have d: "S_ISDIR (i_mode inode')" using r(6) assms(10) by simp
  from au_init_vdir_ok [OF assms(1,3) r(1,2,5) assms(10) d r(7,8,4)] obtain file' k'' where
    i: "au_init_vdir env vrd file inode sb k = Some (0, file', inode', sb', k'')"
      "fvdir_cache file' = Some (Some (k_alloc k'))" "f_pos file' = f_pos file"
      "vd_holds (k_vdir k'' (k_alloc k')) ess" "vd_last_i (k_vdir k'' (k_alloc k')) = 0"
      "vd_last_p (k_vdir k'' (k_alloc k')) = (0, 0)"
      "vd_nblk (k_vdir k'' (k_alloc k')) = vd_nblk (k_vdir k' a)" by blast
  have e: "map vnt (vd_ents (k_vdir k'' (k_alloc k'))) = ?m"
    using r(3) by (simp add: vd_holds_ents [OF i(4)] vd_holds_ents [OF r(7)])
  have p: "f_pos file' = 0" using i(3) assms(4) by simp
  have n: "vd_nblk (k_vdir k'' (k_alloc k')) < 2 ^ 31" using i(7) r(9) assms(12) by linarith
  show ?thesis
    using i(1) listing_pieces [OF i(2) p n i(4) r(8) i(5,6)] unfolding e by blast
qed

theorem opendir_lists_merge_witness:
  "\<exists>file' inode' sb' k'. au_init_vdir env0 plain_readdir file0 inode0 (sbx 3) kern0 = Some (0, file', inode', sb', k')
    \<and> (\<exists>file'' k''. list_dir [1, 1] file' k' = Some ([([97], 8), ([99], 4)], file'', k''))"
proof -
  have p: "f_pos file0 = 0" by (simp add: file0_def)
  have l: "length (merged {} (map (contents file0 dir_of) [fstart file0..fend file0])) < 2 ^ 31 - 1"
    using arg_cong [OF example_merged, of length] by simp
  from opendir_lists_merge [OF file0_ok example_dirs(3,2) p example_dirs(1,6) kern0_ok example_xino inode0_ok
      example_dirs(7,8) l] obtain file' inode' sb' k' where
    "au_init_vdir env0 plain_readdir file0 inode0 (sbx 3) kern0 = Some (0, file', inode', sb', k')"
    "\<forall>rooms. \<exists>file'' k''. list_dir rooms file' k' = Some (take (sum_list rooms) [([97], 8), ([99], 4)], file'', k'')"
    unfolding example_merged by blast
  moreover from this(2) obtain f2 k2 where
    "list_dir [1, 1] file' k' = Some (take (sum_list [1, 1]) [([97], 8), ([99], 4)], f2, k2)" by blast
  then have "list_dir [1, 1] file' k' = Some ([([97], 8), ([99], 4)], f2, k2)" by simp
  ultimately show ?thesis by blast
qed

end
