(* ===== verification/Aufs_Lookup.thy ===== *)
theory Aufs_Lookup
  imports Aufs_Whout
begin

text \<open>
  Looking a name up in the branches (dentry.c). \<open>do_lookup\<close> searches one branch,
  \<open>lkup_dentry\<close> the branches of the parent directory from \<open>bstart\<close> on. A fresh dentry
  gets the layers the stacking rules give: the first file not hidden by a whiteout,
  and for a directory all directories below it up to an opaque mark. The name of
  an aufs dentry is an argument; the one of a hidden parent is a path in the
  hidden filesystem.
\<close>

section \<open>One branch\<close>

definition S_IFMT :: "32 word" where "S_IFMT = 0xF000"
definition S_IFDIR :: "32 word" where "S_IFDIR = 0x4000"

text \<open>The range is widened and the slot filled.\<close>

definition record_hidden ::
    "aufs_sb \<Rightarrow> aufs_dentry \<Rightarrow> int \<Rightarrow> nat \<Rightarrow> kern \<Rightarrow> (aufs_dentry \<times> kern) option" where
  "record_hidden sb dentry bindex hidden_dentry k =
     do { bend \<leftarrow> dbend dentry;
          dentry \<leftarrow> (if bend \<le> bindex then set_dbend sb dentry bindex else Some dentry);
          bstart \<leftarrow> dbstart dentry;
          dentry \<leftarrow> (if bstart = - 1 \<or> bindex < bstart
                     then set_dbstart sb dentry bindex else Some dentry);
          set_h_dptr dentry bindex (Some hidden_dentry) k }"

text \<open>
  The pointer returned is an error (left) or a hidden dentry, null when the name is
  hidden or missing.
\<close>

definition do_lookup ::
    "vfs \<Rightarrow> aufs_sb \<Rightarrow> nat \<Rightarrow> aufs_dentry \<Rightarrow> byte list \<Rightarrow> int \<Rightarrow> byte list \<Rightarrow> bool \<Rightarrow> 32 word \<Rightarrow> kern
       \<Rightarrow> ((int + nat option) \<times> aufs_dentry \<times> kern) option" where
  "do_lookup vf sb hidden_parent dentry name bindex whname allow_neg type k =
     do { _ \<leftarrow> k_dinode k hidden_parent;
          wh_able \<leftarrow> sbr_is_whable sb bindex;
          (wh_found, k) \<leftarrow> (if wh_able then is_wh vf hidden_parent whname False k else Some (0, k));
          if wh_found < 0 then Some (Inl wh_found, dentry, k)
          else do { dentry \<leftarrow> (if wh_found \<noteq> 0 then set_dbwh sb dentry bindex else Some dentry);
            if wh_found \<noteq> 0 \<and> \<not> allow_neg then Some (Inr None, dentry, k)
            else let (r, k) = lkup_one vf name hidden_parent k in
              case r of
                Inl err \<Rightarrow> Some (Inl err, dentry, k)
              | Inr hidden_dentry \<Rightarrow>
                  if (case k_dinode k hidden_dentry of
                        None \<Rightarrow> \<not> allow_neg
                      | Some hidden_inode \<Rightarrow> wh_found \<noteq> 0
                          \<or> (type \<noteq> 0 \<and> type \<noteq> k_imode k hidden_inode AND S_IFMT))
                  then Some (Inr None, dentry, dput (Some hidden_dentry) k)
                  else do { (dentry, k) \<leftarrow> record_hidden sb dentry bindex hidden_dentry k;
                    if (case k_dinode k hidden_dentry of
                          None \<Rightarrow> True
                        | Some hidden_inode \<Rightarrow> \<not> S_ISDIR (k_imode k hidden_inode)) \<or> \<not> wh_able
                    then Some (Inr (Some hidden_dentry), dentry, k)
                    else do { (opq, k) \<leftarrow> is_diropq vf hidden_dentry k;
                      if 0 < opq
                      then do { dentry \<leftarrow> set_dbdiropq sb dentry bindex;
                                Some (Inr (Some hidden_dentry), dentry, k) }
                      else if opq < 0
                      then do { (dentry, k) \<leftarrow> set_h_dptr dentry bindex None k;
                                Some (Inl opq, dentry, k) }
                      else Some (Inr (Some hidden_dentry), dentry, k) } } } }"

section \<open>All branches\<close>

text \<open>The variables of the loop of \<open>lkup_dentry\<close>; \<open>ll_err\<close> is set by \<open>goto out_wh\<close>.\<close>

record lkup_loop =
  ll_dentry :: aufs_dentry
  ll_kern :: kern
  ll_npos :: int
  ll_neg :: bool
  ll_type :: "32 word"
  ll_err :: "int option"

definition lkup_body ::
    "vfs \<Rightarrow> aufs_sb \<Rightarrow> aufs_dentry \<Rightarrow> byte list \<Rightarrow> byte list \<Rightarrow> int \<Rightarrow> lkup_loop
       \<Rightarrow> (bool \<times> lkup_loop) option" where
  "lkup_body vf sb parent name whname bindex l =
     do { hd \<leftarrow> au_h_dptr_i (ll_kern l) (ll_dentry l) bindex;
          case hd of
            Some h \<Rightarrow>
              Some (ll_type l = S_IFDIR,
                l\<lparr>ll_npos := ll_npos l + (if k_dinode (ll_kern l) h \<noteq> None then 1 else 0)\<rparr>)
          | None \<Rightarrow>
              do { hp \<leftarrow> au_h_dptr_i (ll_kern l) parent bindex;
                   case hp of
                     None \<Rightarrow> Some (True, l)
                   | Some hidden_parent \<Rightarrow>
                       if (case k_dinode (ll_kern l) hidden_parent of
                             None \<Rightarrow> True
                           | Some hidden_dir \<Rightarrow> \<not> S_ISDIR (k_imode (ll_kern l) hidden_dir))
                       then Some (True, l)
                       else do { (r, dentry, k) \<leftarrow> do_lookup vf sb hidden_parent (ll_dentry l) name
                                   bindex whname (ll_neg l) (ll_type l) (ll_kern l);
                         case r of
                           Inl err \<Rightarrow> Some (False, l\<lparr>ll_dentry := dentry, ll_kern := k, ll_err := Some err\<rparr>)
                         | Inr h0 \<Rightarrow>
                             do { let l = l\<lparr>ll_dentry := dentry, ll_kern := k, ll_neg := False\<rparr>;
                                  w \<leftarrow> dbwh dentry;
                                  if w \<noteq> - 1 then Some (False, l)
                                  else case h0 of
                                    None \<Rightarrow> Some (True, l)
                                  | Some h \<Rightarrow>
                                      (case k_dinode k h of
                                         None \<Rightarrow> Some (True, l)
                                       | Some hidden_inode \<Rightarrow>
                                           do { let ty = (if ll_type l = 0 then k_imode k hidden_inode AND S_IFMT
                                                          else ll_type l);
                                                let l = l\<lparr>ll_npos := ll_npos l + 1, ll_type := ty\<rparr>;
                                                if ty \<noteq> S_IFDIR then Some (False, l)
                                                else do { opq \<leftarrow> dbdiropq dentry;
                                                          Some (opq = - 1, l) } }) } } } }"

text \<open>The count of positive hidden dentries, or a negative error.\<close>

definition lkup_dentry ::
    "vfs \<Rightarrow> aufs_sb \<Rightarrow> aufs_dentry \<Rightarrow> aufs_dentry \<Rightarrow> byte list \<Rightarrow> int \<Rightarrow> 32 word \<Rightarrow> kern
       \<Rightarrow> (int \<times> aufs_dentry \<times> kern) option" where
  "lkup_dentry vf sb parent dentry name bstart type k =
     do { _ \<leftarrow> debug_on (bstart < 0);
          if take AUFS_WH_LEN name = AUFS_WH_PFX then Some (- EPERM, dentry, k)
          else do { (w, k) \<leftarrow> au_alloc_whname name k;
            case w of
              Inl err \<Rightarrow> Some (err, dentry, k)
            | Inr whname \<Rightarrow>
                do { btail \<leftarrow> dbtaildir parent;
                     l \<leftarrow> for_up (lkup_body vf sb parent name whname) bstart btail
                            \<lparr>ll_dentry = dentry, ll_kern = k, ll_npos = 0, ll_neg = (type = 0),
                             ll_type = type, ll_err = None\<rparr>;
                     case ll_err l of
                       Some err \<Rightarrow> Some (err, ll_dentry l, au_free_whname (ll_kern l))
                     | None \<Rightarrow>
                         if ll_npos l \<noteq> 0
                         then do { (dentry, k) \<leftarrow> au_update_dbstart sb (ll_dentry l) (ll_kern l);
                                   Some (ll_npos l, dentry, au_free_whname k) }
                         else Some (ll_npos l, ll_dentry l, au_free_whname (ll_kern l)) } } }"

definition lkup_neg ::
    "vfs \<Rightarrow> aufs_sb \<Rightarrow> aufs_dentry \<Rightarrow> aufs_dentry \<Rightarrow> byte list \<Rightarrow> int \<Rightarrow> kern
       \<Rightarrow> (int \<times> aufs_dentry \<times> kern) option" where
  "lkup_neg vf sb parent dentry name bindex k =
     do { _ \<leftarrow> debug_on (case d_imode parent of None \<Rightarrow> True | Some m \<Rightarrow> \<not> S_ISDIR m);
          hp \<leftarrow> au_h_dptr_i k parent bindex;
          hidden_parent \<leftarrow> hp;
          hidden_dir \<leftarrow> k_dinode k hidden_parent;
          _ \<leftarrow> debug_on (\<not> S_ISDIR (k_imode k hidden_dir));
          (r, k) \<leftarrow> sio_lkup_one vf name hidden_parent k;
          case r of
            Inl err \<Rightarrow> Some (err, dentry, k)
          | Inr hidden_dentry \<Rightarrow>
              if k_dinode k hidden_dentry \<noteq> None then Some (- EIO, dentry, dput (Some hidden_dentry) k)
              else do { bstart \<leftarrow> dbstart dentry;
                        dentry \<leftarrow> (if bindex < bstart then set_dbstart sb dentry bindex else Some dentry);
                        bend \<leftarrow> dbend dentry;
                        dentry \<leftarrow> (if bend < bindex then set_dbend sb dentry bindex else Some dentry);
                        (dentry, k) \<leftarrow> set_h_dptr dentry bindex (Some hidden_dentry) k;
                        Some (0, dentry, k) } }"

section \<open>The stacking rules\<close>

text \<open>
  What a branch shows of a name: nothing when the parent directory is not there, else
  whether the name is whited out, and the mode of the file of that name with
  whether it is an opaque directory.
\<close>

type_synonym view = "(bool \<times> (32 word \<times> bool) option) option"

definition branch_view ::
    "(nat \<Rightarrow> byte list \<Rightarrow> nat) \<Rightarrow> kern \<Rightarrow> bool \<Rightarrow> nat option \<Rightarrow> byte list \<Rightarrow> view" where
  "branch_view child k wh_able hp name =
     (case hp of None \<Rightarrow> None
      | Some p \<Rightarrow> (case k_dinode k p of None \<Rightarrow> None
        | Some dir \<Rightarrow> if \<not> S_ISDIR (k_imode k dir) then None
            else Some (wh_able \<and> wh_code k (child p (AUFS_WH_PFX @ name)) = 1,
              map_option (\<lambda>i. (k_imode k i, S_ISDIR (k_imode k i) \<and> wh_able
                  \<and> wh_code k (child (child p name) diropq_name) = 1))
                (k_dinode k (child p name)))))"

text \<open>
  The branches that hold the name, from top to bottom: a whiteout hides all below, a
  file of another type than the one above is passed over, only a directory is
  searched for below, and not below an opaque one.
\<close>

fun layers :: "32 word \<Rightarrow> (int \<times> view) list \<Rightarrow> int list" where
  "layers ty [] = []"
| "layers ty ((j, None) # vs) = layers ty vs"
| "layers ty ((j, Some (True, f)) # vs) = []"
| "layers ty ((j, Some (False, None)) # vs) = layers ty vs"
| "layers ty ((j, Some (False, Some (m, opq))) # vs) =
     (if ty \<noteq> 0 \<and> ty \<noteq> m AND S_IFMT then layers ty vs
      else j # (if m AND S_IFMT = S_IFDIR \<and> \<not> opq then layers S_IFDIR vs else []))"

text \<open>
  The same search with what the code records beside the layers: the slots it fills (the
  first branch searched may leave a negative dentry), the whiteout and the opaque mark.
\<close>

fun scan_views :: "bool \<Rightarrow> 32 word \<Rightarrow> (int \<times> view) list \<Rightarrow> int list \<times> int list \<times> int \<times> int" where
  "scan_views neg ty [] = ([], [], - 1, - 1)"
| "scan_views neg ty ((j, None) # vs) = scan_views neg ty vs"
| "scan_views neg ty ((j, Some (True, f)) # vs) = (if neg \<and> f = None then [j] else [], [], j, - 1)"
| "scan_views neg ty ((j, Some (False, None)) # vs) =
     (let (s, r) = scan_views False ty vs in (if neg then j # s else s, r))"
| "scan_views neg ty ((j, Some (False, Some (m, opq))) # vs) =
     (if ty \<noteq> 0 \<and> ty \<noteq> m AND S_IFMT then scan_views False ty vs
      else if m AND S_IFMT = S_IFDIR \<and> \<not> opq
      then (let (s, l, r) = scan_views False S_IFDIR vs in (j # s, j # l, r))
      else ([j], [j], - 1, if m AND S_IFMT = S_IFDIR then j else - 1))"

lemma scan_views_layers: "scan_views neg ty vs = (s, l, w, opq) \<Longrightarrow> layers ty vs = l"
  by (induction neg ty vs arbitrary: s l w opq rule: scan_views.induct)
    (auto split: if_splits prod.splits)

lemma scan_views_slots:
  "scan_views neg ty vs = (s, l, w, opq) \<Longrightarrow> (\<not> neg \<longrightarrow> s = l) \<and>
     (s = l \<or> (\<exists>x wh. s = x # l \<and> (x, Some (wh, None)) \<in> set vs))
     \<and> (\<forall>x \<in> set l. \<exists>m b. (x, Some (False, Some (m, b))) \<in> set vs)
     \<and> (opq = - 1 \<or> (l \<noteq> [] \<and> opq = last l)) \<and> (w = - 1 \<or> opq = - 1)"
proof (induction neg ty vs arbitrary: s l w opq rule: scan_views.induct)
  case (4 neg ty j vs)
  then show ?case by (auto split: if_splits prod.splits)
next
  case (5 neg ty j m b vs)
  then show ?case by (auto split: if_splits prod.splits; blast)
qed (auto split: if_splits prod.splits)

lemma scan_views_sorted:
  "scan_views neg ty vs = (s, l, w, opq) \<Longrightarrow> sorted_wrt (<) (map fst vs)
     \<Longrightarrow> set s \<subseteq> fst ` set vs \<and> sorted_wrt (<) s"
proof (induction neg ty vs arbitrary: s l w opq rule: scan_views.induct)
  case (2 neg ty j vs)
  from 2(1) [of s l w opq] 2(2,3) show ?case by auto
next
  case (3 neg ty j f vs)
  then show ?case by (auto split: if_splits)
next
  case (4 neg ty j vs)
  then obtain s' where s': "scan_views False ty vs = (s', l, w, opq)" "s = (if neg then j # s' else s')"
    by (auto split: prod.splits)
  with 4(1) [OF s'(1)] 4(3) show ?case by auto
next
  case (5 neg ty j m b vs)
  consider (skip) "ty \<noteq> 0 \<and> ty \<noteq> m AND S_IFMT"
    | (dir) s' l' where "scan_views False S_IFDIR vs = (s', l', w, opq)" "s = j # s'"
        "\<not> (ty \<noteq> 0 \<and> ty \<noteq> m AND S_IFMT)" "m AND S_IFMT = S_IFDIR \<and> \<not> b"
    | (one) "s = [j]"
    using 5(3) by (auto split: if_splits prod.splits)
  then show ?case
  proof cases
    case skip
    then have "scan_views False ty vs = (s, l, w, opq)" using 5(3) by simp
    with 5(1) [OF skip this] 5(4) show ?thesis by auto
  next
    case dir
    from 5(2) [OF dir(3,4,1)] 5(4) dir(2) show ?thesis by auto
  qed simp
qed simp

section \<open>The state of a lookup\<close>

fun dgets :: "nat list \<Rightarrow> kern \<Rightarrow> kern" where
  "dgets [] k = k"
| "dgets (d # ds) k = dgets ds (dget d k)"

lemma dgets_append [simp]: "dgets (ds @ [d]) k = dget d (dgets ds k)"
  by (induction ds arbitrary: k) auto

lemma dgets_frame [simp]:
  "k_dinode (dgets ds k) = k_dinode k" "k_imode (dgets ds k) = k_imode k" "k_isb (dgets ds k) = k_isb k" "k_ok (dgets ds k) = k_ok k"
  "k_alloc (dgets ds k) = k_alloc k" "k_live (dgets ds k) = k_live k"
  by (induction ds arbitrary: k) auto

lemma dgets_dcount: "k_dcount (dgets ds k) p = k_dcount k p + int (count_list ds p)"
  by (induction ds arbitrary: k) (auto simp: dget_dcount)

lemma dput_dgets: "dput (Some d) (dgets (d # ds) k) = dgets ds k"
proof (induction ds arbitrary: k)
  case (Cons e ds)
  have "dget e (dget d k) = dget d (dget e k)" by (auto simp: dget_def fun_eq_iff)
  with Cons [of "dget e k"] show ?case by simp
qed simp

lemma wh_code_dgets [simp]: "wh_code (dgets ds k) d = wh_code k d"
  by (simp add: wh_code_def cong: option.case_cong)

lemma wh_code_dget [simp]: "wh_code (dget d k) x = wh_code k x"
  by (simp add: wh_code_def cong: option.case_cong)

text \<open>
  A dentry whose slots \<open>s\<close> (ascending) are filled with the files of these branches,
  with the whiteout at \<open>w\<close> and the opaque mark at \<open>opq\<close>.
\<close>

definition lk_dinfo :: "aufs_dinfo \<Rightarrow> (int \<Rightarrow> nat) \<Rightarrow> int list \<Rightarrow> int \<Rightarrow> int \<Rightarrow> aufs_dinfo" where
  "lk_dinfo di fl s w opq = di\<lparr>di_bstart := (if s = [] then - 1 else hd s),
     di_bend := (if s = [] then - 1 else last s), di_bwh := w, di_bdiropq := opq,
     di_hdentry := map (\<lambda>i. if int i \<in> set s then Some (fl (int i)) else None) [0..<length (di_hdentry di)]\<rparr>"

definition lk_dentry :: "aufs_dentry \<Rightarrow> (int \<Rightarrow> nat) \<Rightarrow> int list \<Rightarrow> int \<Rightarrow> int \<Rightarrow> aufs_dentry" where
  "lk_dentry d fl s w opq = d\<lparr>d_fsdata := Some (lk_dinfo (the_di d) fl s w opq)\<rparr>"

definition fresh :: "aufs_dentry \<Rightarrow> bool" where
  "fresh d \<longleftrightarrow> d_imode d = None \<and> (\<exists>n g r. d_fsdata d = Some \<lparr>di_generation = g, di_bstart = - 1,
     di_bend = - 1, di_bwh = - 1, di_bdiropq = - 1, di_hdentry = replicate n None, di_reval = r\<rparr>)"

lemma fresh_lk: "fresh d \<Longrightarrow> lk_dentry d fl [] (- 1) (- 1) = d"
  by (auto simp: fresh_def lk_dentry_def lk_dinfo_def the_di_def map_replicate_trivial intro: replicate_eqI
      simp flip: map_replicate_const)

lemma sorted_hd_last:
  assumes "sorted_wrt (<) s" and "x \<in> set s"
  shows "hd s \<le> (x::int)" and "x \<le> last s"
  using assms by (induction s) (auto simp: less_imp_le)

lemma lk_dinfo_fields [simp]:
  "di_bwh (lk_dinfo di fl s w opq) = w" "di_bdiropq (lk_dinfo di fl s w opq) = opq"
  "length (di_hdentry (lk_dinfo di fl s w opq)) = length (di_hdentry di)"
  "the_di (lk_dentry d fl s w opq) = lk_dinfo (the_di d) fl s w opq"
  "d_imode (lk_dentry d fl s w opq) = d_imode d"
  "d_fsdata (lk_dentry d fl s w opq) = Some (lk_dinfo (the_di d) fl s w opq)"
  by (simp_all add: lk_dinfo_def lk_dentry_def)

lemma lk_dtodi:
  assumes "sorted_wrt (<) s" and "opq = - 1 \<or> opq \<in> set s"
  shows "dtodi (lk_dentry d fl s w opq) = Some (lk_dinfo (the_di d) fl s w opq)"
proof (cases s)
  case (Cons x xs)
  then have "hd s \<le> last s" "opq \<noteq> - 1 \<longrightarrow> hd s \<le> opq"
    using assms sorted_hd_last [OF assms(1), of x] sorted_hd_last [OF assms(1), of opq] by auto
  with Cons show ?thesis by (auto simp: dtodi_def lk_dinfo_def)
qed (use assms in \<open>simp add: dtodi_def lk_dinfo_def\<close>)

lemma lk_empty_slot:
  assumes "sorted_wrt (<) s" "opq = - 1 \<or> opq \<in> set s" "i \<notin> set s" "0 \<le> i"
    "i < int (length (di_hdentry (the_di d)))"
  shows "au_h_dptr_i k (lk_dentry d fl s w opq) i = Some None"
  using assms by (simp add: au_h_dptr_i_def lk_dtodi) (simp add: lk_dinfo_def)

text \<open>Filling the next slot.\<close>

lemma lk_record:
  assumes s: "sorted_wrt (<) s" "\<forall>x \<in> set s. 0 \<le> x \<and> x < j" and j: "0 \<le> j" "j \<le> sbend sb"
    "j < int (length (di_hdentry (the_di d)))" and "0 < k_dcount k (fl j)"
  shows "record_hidden sb (lk_dentry d fl s w (- 1)) j (fl j) k = Some (lk_dentry d fl (s @ [j]) w (- 1), k)"
proof -
  let ?d = "the_di d" and ?D = "lk_dentry d fl s w (- 1)"
  define e where "e = (if s = [] then - 1 else last s)"
  define b where "b = (if s = [] then - 1 else hd s)"
  have ends: "s = [] \<or> (0 \<le> hd s \<and> hd s < j \<and> last s < j \<and> hd s \<le> last s)"
    using s(2) sorted_hd_last(1) [OF s(1) last_in_set] hd_in_set [of s] last_in_set [of s] by blast
  have bj: "e < j" "b \<le> e" "b < j" "b = - 1 \<or> 0 \<le> b" "b = - 1 \<longleftrightarrow> s = []"
    using ends j(1) by (auto simp: e_def b_def)
  have t: "dtodi ?D = Some (lk_dinfo ?d fl s w (- 1))" by (rule lk_dtodi) (use s in auto)
  have be: "di_bend (lk_dinfo ?d fl s w (- 1)) = e" "di_bstart (lk_dinfo ?d fl s w (- 1)) = b"
    by (auto simp: lk_dinfo_def e_def b_def)
  define di1 where "di1 = (lk_dinfo ?d fl s w (- 1))\<lparr>di_bend := j\<rparr>"
  define di2 where "di2 = di1\<lparr>di_bstart := hd (s @ [j])\<rparr>"
  have b1: "di_bstart di1 = b" by (simp add: di1_def be)
  have "set_dbend sb ?D j = Some (d\<lparr>d_fsdata := Some di1\<rparr>)"
    using j t be bj by (simp add: set_dbend_def dbstart_def upd_di_def di1_def lk_dentry_def)
  moreover have t1: "dtodi (d\<lparr>d_fsdata := Some di1\<rparr>) = Some di1"
    using be bj by (simp add: dtodi_def di1_def)
  moreover have "(if b = - 1 \<or> j < b then set_dbstart sb (d\<lparr>d_fsdata := Some di1\<rparr>) j
      else Some (d\<lparr>d_fsdata := Some di1\<rparr>)) = Some (d\<lparr>d_fsdata := Some di2\<rparr>)"
  proof (cases "s = []")
    case True
    then show ?thesis using j t1 bj by (simp add: set_dbstart_def upd_di_def di2_def)
  next
    case False
    have "di2 = di1" using False be(2) by (simp add: di2_def di1_def lk_dinfo_def)
    with False bj show ?thesis by simp
  qed
  moreover have h: "hd (s @ [j]) \<le> j" using s j by (cases s) auto
  then have t2: "dtodi (d\<lparr>d_fsdata := Some di2\<rparr>) = Some di2"
    by (simp add: dtodi_def di2_def di1_def)
  have slot: "aget (di_hdentry di2) j = Some None"
    using j s(2) by (auto simp: di2_def di1_def lk_dinfo_def)
  have fill: "(map (\<lambda>i. if int i \<in> set s then Some (fl (int i)) else None) [0..<n])[nat j := Some (fl j)]
      = map (\<lambda>i. if int i = j \<or> int i \<in> set s then Some (fl (int i)) else None) [0..<n]"
    if "j < int n" for n
    using that j(1) by (intro nth_equalityI) (auto simp: nth_list_update)
  have "di2\<lparr>di_hdentry := (di_hdentry di2)[nat j := Some (fl j)]\<rparr> = lk_dinfo ?d fl (s @ [j]) w (- 1)"
    using fill [OF j(3)] by (simp add: di2_def di1_def lk_dinfo_def)
  then have "set_h_dptr (d\<lparr>d_fsdata := Some di2\<rparr>) j (Some (fl j)) k = Some (lk_dentry d fl (s @ [j]) w (- 1), k)"
    using t2 slot h j assms(6) by (simp add: set_h_dptr_def) (simp add: di2_def di1_def lk_dentry_def)
  ultimately show ?thesis
    using t t1 be b1 less_imp_le [OF bj(1)] by (simp add: record_hidden_def dbend_def dbstart_def)
qed

text \<open>What one call of \<open>do_lookup\<close> does to such a dentry, by what the branch shows.\<close>

definition view_step ::
    "aufs_dentry \<Rightarrow> (int \<Rightarrow> nat) \<Rightarrow> int list \<Rightarrow> bool \<Rightarrow> 32 word \<Rightarrow> int
       \<Rightarrow> bool \<times> (32 word \<times> bool) option \<Rightarrow> kern \<Rightarrow> nat option \<times> aufs_dentry \<times> kern" where
  "view_step d fl s neg ty j v k =
     (let keep = (case snd v of None \<Rightarrow> neg
                  | Some (m, opq) \<Rightarrow> \<not> fst v \<and> (ty = 0 \<or> ty = m AND S_IFMT));
          w = (if fst v then j else - 1);
          opq = (case snd v of Some (m, True) \<Rightarrow> if fst v then - 1 else j | _ \<Rightarrow> - 1)
      in if keep then (Some (fl j), lk_dentry d fl (s @ [j]) w opq, dget (fl j) k)
         else (None, lk_dentry d fl s w (- 1), k))"

lemma lk_set_wh:
  assumes "sorted_wrt (<) s" "j \<le> sbend sb"
  shows "set_dbwh sb (lk_dentry d fl s w (- 1)) j = Some (lk_dentry d fl s j (- 1))"
  using assms lk_dtodi [OF assms(1), of "- 1" d fl w]
  by (simp add: set_dbwh_def upd_di_def) (simp add: lk_dentry_def lk_dinfo_def)

text \<open>The dentry of a file that is no directory has no opaque mark.\<close>

definition dir_fits :: "aufs_dentry \<Rightarrow> kern \<Rightarrow> nat \<Rightarrow> bool" where
  "dir_fits d k h \<longleftrightarrow> (not_dir d \<longrightarrow> (\<forall>i. k_dinode k h = Some i \<longrightarrow> \<not> S_ISDIR (k_imode k i)))"

lemma not_dir_lk [simp]: "not_dir (lk_dentry d fl s w opq) = not_dir d"
  by (simp add: not_dir_def)

lemma dir_fits_dgets [simp]: "dir_fits d (dgets ds k) h = dir_fits d k h"
  by (simp add: dir_fits_def)

lemma lk_set_opq:
  assumes "sorted_wrt (<) (s @ [j])" "\<forall>x \<in> set s. x < j" "j \<le> sbend sb" "\<not> not_dir d"
  shows "set_dbdiropq sb (lk_dentry d fl (s @ [j]) w (- 1)) j = Some (lk_dentry d fl (s @ [j]) w j)"
proof -
  have "hd (s @ [j]) \<le> j" using assms(2) by (cases s) auto
  then show ?thesis using assms lk_dtodi [OF assms(1), of "- 1" d fl w]
    by (simp add: set_dbdiropq_def upd_di_def dbstart_def dbend_def)
      (simp add: lk_dentry_def lk_dinfo_def)
qed

lemma do_lookup_view:
  assumes env: "lookup_env vf child" and hp: "k_dinode k p = Some dir" "S_ISDIR (k_imode k dir)"
    and wa: "sbr_is_whable sb j = Some wa"
    and s: "sorted_wrt (<) s" "\<forall>x \<in> set s. 0 \<le> x \<and> x < j" and j: "0 \<le> j" "j \<le> sbend sb"
    "j < int (length (di_hdentry (the_di d)))" and d: "dir_fits d k (fl j)"
    and cnt: "0 \<le> k_dcount k (fl j)" and fl: "fl j = child p name"
    and ok: "0 \<le> wh_code k (child p (AUFS_WH_PFX @ name))"
      "\<And>i. k_dinode k (fl j) = Some i \<Longrightarrow> S_ISDIR (k_imode k i) \<Longrightarrow> 0 \<le> wh_code k (child (fl j) diropq_name)"
    and v: "branch_view child k wa (Some p) name = Some v"
  shows "do_lookup vf sb p (lk_dentry d fl s (- 1) (- 1)) name j (AUFS_WH_PFX @ name) neg ty k
     = (case view_step d fl s neg ty j v k of (r, d', k') \<Rightarrow> Some (Inr r, d', k'))"
proof -
  let ?wn = "AUFS_WH_PFX @ name" and ?D = "lk_dentry d fl s"
  have codes: "wh_code k x = 0 \<or> wh_code k x = 1 \<or> wh_code k x < 0" for x
    by (auto simp: wh_code_def split: option.split)
  have v1: "fst v \<longleftrightarrow> wa \<and> wh_code k (child p ?wn) = 1" and
    v2: "snd v = map_option (\<lambda>i. (k_imode k i, S_ISDIR (k_imode k i) \<and> wa
           \<and> wh_code k (child (fl j) diropq_name) = 1)) (k_dinode k (fl j))"
    using v hp by (auto simp: branch_view_def fl)
  have wh: "wa \<Longrightarrow> is_wh vf p ?wn False k = Some (if fst v then 1 else 0, k)" "\<not> wa \<Longrightarrow> \<not> fst v"
    using is_wh_env [OF env hp] codes [of "child p ?wn"] ok(1) v1 by auto
  have lk: "lkup_one vf name p k = (Inr (fl j), dget (fl j) k)"
    using env by (simp add: lkup_one_def lookup_env_def fl)
  have sw: "set_dbwh sb (?D (- 1) (- 1)) j = Some (?D j (- 1))" by (rule lk_set_wh [OF s(1) j(2)])
  have rec: "record_hidden sb (?D w (- 1)) j (fl j) (dget (fl j) k)
      = Some (lk_dentry d fl (s @ [j]) w (- 1), dget (fl j) k)" for w
    using cnt by (intro lk_record [OF s j]) (simp add: dget_dcount)
  have s': "sorted_wrt (<) (s @ [j])" using s by (simp add: sorted_wrt_append)
  show ?thesis
  proof (cases "k_dinode k (fl j)")
    case None
    then show ?thesis
      by (cases wa; cases "fst v") (simp_all add: do_lookup_def wa wh sw lk rec view_step_def Let_def v2 hp)
  next
    case (Some i)
    have opq: "is_diropq vf (fl j) (dget (fl j) k) = Some (wh_code k (child (fl j) diropq_name), dget (fl j) k)"
      if "S_ISDIR (k_imode k i)"
      using is_diropq_env [OF env, of "dget (fl j) k" "fl j" i] Some that by simp
    show ?thesis
    proof (cases "S_ISDIR (k_imode k i) \<and> wa")
      case True
      then show ?thesis
        using Some ok(2) codes [of "child (fl j) diropq_name"] lk_set_opq [OF s' _ j(2), of d fl "- 1"] s(2) d
        by (cases "fst v") (auto simp: dir_fits_def do_lookup_def wa wh sw lk rec view_step_def Let_def v2 hp opq)
    next
      case False
      then show ?thesis using Some wh(2)
        by (cases wa; cases "fst v") (auto simp: do_lookup_def wa wh sw lk rec view_step_def Let_def v2 hp)
    qed
  qed
qed

section \<open>The loop over the branches\<close>

lemma au_h_dptr_i_mono:
  assumes "au_h_dptr_i k d j = Some h" and "\<And>p. k_dcount k p \<le> k_dcount k' p"
  shows "au_h_dptr_i k' d j = Some h"
  using assms(1) by (auto simp: au_h_dptr_i_def run_simps debug_on_def split: if_splits option.splits)
    (metis assms(2) leD le_less_trans not_le_imp_less)+

text \<open>
  What the lookup relies on at the branch \<open>j\<close>: the table and the parent give its
  hidden directory \<open>hp\<close>, the whiteout and the opaque mark of the name are regular
  files where they exist.
\<close>

definition lkup_at ::
    "(nat \<Rightarrow> byte list \<Rightarrow> nat) \<Rightarrow> aufs_sb \<Rightarrow> aufs_dentry \<Rightarrow> aufs_dentry \<Rightarrow> byte list \<Rightarrow> kern
       \<Rightarrow> nat option \<Rightarrow> int \<Rightarrow> bool" where
  "lkup_at child sb parent d name k hp j \<longleftrightarrow> 0 \<le> j \<and> j \<le> si_bend sb
     \<and> j < int (length (di_hdentry (the_di d))) \<and> au_h_dptr_i k parent j = Some hp
     \<and> (\<forall>p. hp = Some p \<longrightarrow> 0 \<le> k_dcount k (child p name)
          \<and> 0 \<le> wh_code k (child p (AUFS_WH_PFX @ name))
          \<and> (\<forall>i. k_dinode k (child p name) = Some i \<longrightarrow> S_ISDIR (k_imode k i)
               \<longrightarrow> 0 \<le> wh_code k (child (child p name) diropq_name)))"

definition view_at :: "(nat \<Rightarrow> byte list \<Rightarrow> nat) \<Rightarrow> aufs_sb \<Rightarrow> byte list \<Rightarrow> kern \<Rightarrow> (int \<Rightarrow> nat option) \<Rightarrow> int \<Rightarrow> view" where
  "view_at child sb name k hp j = branch_view child k (br_whable (br_perm (br_at sb j))) (hp j) name"

definition file_at :: "(nat \<Rightarrow> byte list \<Rightarrow> nat) \<Rightarrow> byte list \<Rightarrow> (int \<Rightarrow> nat option) \<Rightarrow> int \<Rightarrow> nat" where
  "file_at child name hp j = child (the (hp j)) name"

definition lk_state ::
    "aufs_dentry \<Rightarrow> (int \<Rightarrow> nat) \<Rightarrow> kern \<Rightarrow> int list \<Rightarrow> int \<Rightarrow> int \<Rightarrow> int \<Rightarrow> bool \<Rightarrow> 32 word \<Rightarrow> lkup_loop" where
  "lk_state d fl k s w opq n neg ty =
     \<lparr>ll_dentry = lk_dentry d fl s w opq, ll_kern = dgets (map fl s) k, ll_npos = n, ll_neg = neg,
      ll_type = ty, ll_err = None\<rparr>"

lemma isdir_ifmt: "S_ISDIR m \<longleftrightarrow> m AND S_IFMT = S_IFDIR"
  by (simp add: S_ISDIR_def S_IFMT_def S_IFDIR_def)

lemma view_mono [simp]: "branch_view child (dgets ds k) wa hp name = branch_view child k wa hp name"
  by (simp add: branch_view_def cong: option.case_cong if_cong)

lemma lkup_body_view:
  assumes fl_def: "fl = file_at child name hp"
    and env: "lookup_env vf child" "sb_ok sb" and at: "lkup_at child sb parent d name k (hp j) j"
    and d: "hp j \<noteq> None \<longrightarrow> dir_fits d k (fl j)" and s: "sorted_wrt (<) s" "\<forall>x \<in> set s. 0 \<le> x \<and> x < j"
  shows "lkup_body vf sb parent name (AUFS_WH_PFX @ name) j (lk_state d fl k s (- 1) (- 1) n neg ty)
    = (case view_at child sb name k hp j of
         None \<Rightarrow> Some (True, lk_state d fl k s (- 1) (- 1) n neg ty)
       | Some (True, f) \<Rightarrow>
           if neg \<and> f = None then Some (False, lk_state d fl k (s @ [j]) j (- 1) n False ty)
           else Some (False, lk_state d fl k s j (- 1) n False ty)
       | Some (False, None) \<Rightarrow>
           Some (True, lk_state d fl k (if neg then s @ [j] else s) (- 1) (- 1) n False ty)
       | Some (False, Some (m, opq)) \<Rightarrow>
           if ty \<noteq> 0 \<and> ty \<noteq> m AND S_IFMT then Some (True, lk_state d fl k s (- 1) (- 1) n False ty)
           else Some (m AND S_IFMT = S_IFDIR \<and> \<not> opq,
             lk_state d fl k (s @ [j]) (- 1) (if opq then j else - 1) (n + 1) False (m AND S_IFMT)))"
proof -
  let ?k = "dgets (map fl s) k" and ?D = "lk_dentry d fl s"
  from at have j: "0 \<le> j" "j \<le> si_bend sb" "j < int (length (di_hdentry (the_di d)))"
    and hp: "au_h_dptr_i k parent j = Some (hp j)" by (auto simp: lkup_at_def)
  have hp': "au_h_dptr_i ?k parent j = Some (hp j)"
    by (rule au_h_dptr_i_mono [OF hp]) (simp add: dgets_dcount)
  have nj: "j \<notin> set s" using s(2) by auto
  have own: "au_h_dptr_i ?k (?D (- 1) (- 1)) j = Some None"
    by (rule lk_empty_slot) (use s nj j in auto)
  show ?thesis
  proof (cases "view_at child sb name k hp j")
    case None
    then show ?thesis using own hp'
      by (auto simp: lkup_body_def lk_state_def view_at_def branch_view_def split: option.splits if_splits)
  next
    case (Some v)
    then obtain p dir where p: "hp j = Some p" "k_dinode k p = Some dir" "S_ISDIR (k_imode k dir)"
      by (auto simp: view_at_def branch_view_def split: option.splits if_splits)
    have wa: "sbr_is_whable sb j = Some (br_whable (br_perm (br_at sb j)))"
      using env(2) j by (simp add: sbr_is_whable_def)
    have fl: "fl j = child p name" by (simp add: fl_def file_at_def p)
    have lk: "do_lookup vf sb p (?D (- 1) (- 1)) name j (AUFS_WH_PFX @ name) g ty ?k
        = (case view_step d fl s g ty j v ?k of (r, d', k') \<Rightarrow> Some (Inr r, d', k'))" for g ty
      using at p Some fl j d
      by (intro do_lookup_view [OF env(1) _ _ wa s])
        (auto simp: lkup_at_def sbend_def dgets_dcount view_at_def)
    have w: "dbwh (lk_dentry d fl s' w' o') = Some w'" "\<not> not_dir d \<Longrightarrow> dbdiropq (lk_dentry d fl s' w' o') = Some o'"
      if "sorted_wrt (<) s'" "o' = - 1 \<or> o' \<in> set s'" for s' w' o'
      using lk_dtodi [OF that, of d fl w'] by (simp_all add: dbwh_def dbdiropq_def)
    have w1: "dbwh (?D w' (- 1)) = Some w'" for w' using w s by simp
    have s': "sorted_wrt (<) (s @ [j])" using s by (simp add: sorted_wrt_append)
    have w2: "dbwh (lk_dentry d fl (s @ [j]) w' o') = Some w'"
      "\<not> not_dir d \<Longrightarrow> dbdiropq (lk_dentry d fl (s @ [j]) w' o') = Some o'" if "o' = - 1 \<or> o' = j" for w' o'
      using w [OF s', of o' w'] that by auto
    have nm1: "j \<noteq> - 1" using j by simp
    have sv: "snd v = map_option (\<lambda>i. (k_imode k i, S_ISDIR (k_imode k i) \<and> br_whable (br_perm (br_at sb j))
         \<and> wh_code k (child (fl j) diropq_name) = 1)) (k_dinode k (fl j))"
      using Some p fl by (auto simp: view_at_def branch_view_def)
    obtain wh f where v: "v = (wh, f)" by (cases v)
    show ?thesis
    proof (cases "k_dinode k (fl j)")
      case None
      with sv v have "f = None" by simp
      then show ?thesis using None nm1 w2 w1
        by (cases wh; cases neg) (simp_all add: lkup_body_def own hp' p lk Some v view_step_def Let_def lk_state_def)
    next
      case i: (Some i)
      with sv v have f: "f = Some (k_imode k i, S_ISDIR (k_imode k i) \<and> br_whable (br_perm (br_at sb j))
         \<and> wh_code k (child (fl j) diropq_name) = 1)" by simp
      have nd: "\<not> not_dir d" if "S_ISDIR (k_imode k i)" using d p i that by (auto simp: dir_fits_def)
      show ?thesis using i nm1 w2 w1 j nd
        by (cases wh) (auto simp: lkup_body_def own hp' p lk Some v f view_step_def Let_def lk_state_def
            isdir_ifmt p(3) [unfolded isdir_ifmt] split: if_splits)
    qed
  qed
qed

lemma lk_state_any [simp]: "\<exists>g t. lk_state d fl k s w opq n a b = lk_state d fl k s w opq n g t"
  by blast

lemma lkup_loop_scan:
  assumes fl: "fl = file_at child name hp" and env: "lookup_env vf child" "sb_ok sb" and d: "\<And>j. lo \<le> j \<Longrightarrow> j \<le> e \<Longrightarrow> hp j \<noteq> None \<Longrightarrow> dir_fits d k (fl j)"
    and at: "\<forall>j. lo \<le> j \<longrightarrow> j \<le> e \<longrightarrow> lkup_at child sb parent d name k (hp j) j"
  shows "lo \<le> i \<Longrightarrow> sorted_wrt (<) s \<Longrightarrow> \<forall>x \<in> set s. 0 \<le> x \<and> x < i \<Longrightarrow>
    scan_views neg ty (map (\<lambda>j. (j, view_at child sb name k hp j)) [i..e]) = (s', l, w, opq) \<Longrightarrow>
    \<exists>neg' ty'. for_up (lkup_body vf sb parent name (AUFS_WH_PFX @ name)) i e (lk_state d fl k s (- 1) (- 1) n neg ty)
      = Some (lk_state d fl k (s @ s') w opq (n + int (length l)) neg' ty')"
proof (induction "nat (e + 1 - i)" arbitrary: i s n neg ty s' l w opq)
  case 0
  then show ?case by auto
next
  case (Suc m)
  let ?view = "view_at child sb name k hp" and ?f = "lkup_body vf sb parent name (AUFS_WH_PFX @ name)"
  let ?vs = "map (\<lambda>j. (j, ?view j)) [i + 1..e]"
  from Suc.hyps(2) have ie: "i \<le> e" by simp
  have i0: "0 \<le> i" and vs: "map (\<lambda>j. (j, ?view j)) [i..e] = (i, ?view i) # ?vs"
    using at Suc.prems(1) ie by (auto simp: lkup_at_def upto.simps [of i e])
  note body = lkup_body_view [OF fl env, of parent d k i s n neg ty]
  have b: "?f i (lk_state d fl k s (- 1) (- 1) n neg ty) = X" if "(case ?view i of
         None \<Rightarrow> Some (True, lk_state d fl k s (- 1) (- 1) n neg ty)
       | Some (True, f) \<Rightarrow>
           if neg \<and> f = None then Some (False, lk_state d fl k (s @ [i]) i (- 1) n False ty)
           else Some (False, lk_state d fl k s i (- 1) n False ty)
       | Some (False, None) \<Rightarrow>
           Some (True, lk_state d fl k (if neg then s @ [i] else s) (- 1) (- 1) n False ty)
       | Some (False, Some (m, opq)) \<Rightarrow>
           if ty \<noteq> 0 \<and> ty \<noteq> m AND S_IFMT then Some (True, lk_state d fl k s (- 1) (- 1) n False ty)
           else Some (m AND S_IFMT = S_IFDIR \<and> \<not> opq,
             lk_state d fl k (s @ [i]) (- 1) (if opq then i else - 1) (n + 1) False (m AND S_IFMT))) = X" for X
    using body that at Suc.prems(1,2,3) ie d by simp
  have rest: "\<exists>neg' ty'. for_up ?f (i + 1) e (lk_state d fl k t (- 1) (- 1) n1 g ty1)
      = Some (lk_state d fl k (t @ s1) w1 o1 (n1 + int (length l1)) neg' ty')"
    if "scan_views g ty1 ?vs = (s1, l1, w1, o1)" and "t = s \<or> t = s @ [i]" for t n1 g ty1 s1 l1 w1 o1
    using that i0 Suc.prems(1-3) Suc.hyps(2)
    by (intro Suc.hyps(1)) (fastforce simp: sorted_wrt_append)+
  note sc = Suc.prems(4) [unfolded vs]
  show ?case
  proof (cases "?view i")
    case None
    then show ?thesis using b rest sc ie by (simp add: for_up_step)
  next
    case (Some v)
    obtain wh f where v: "v = (wh, f)" by (cases v)
    consider "wh" | "\<not> wh" "f = None" | mo where "\<not> wh" "f = Some mo" by (cases f) auto
    then show ?thesis
    proof cases
      case 1
      then show ?thesis using b sc ie Some v
        by (cases "neg \<and> f = None") (auto simp: for_up_step)
    next
      case 2
      obtain s1 l1 w1 o1 where r: "scan_views False ty ?vs = (s1, l1, w1, o1)" by (cases "scan_views False ty ?vs")
      from 2 show ?thesis using b sc ie Some v r rest [OF r, of s n] rest [OF r, of "s @ [i]" n]
        by (cases neg) (auto simp: for_up_step)
    next
      case 3
      obtain mm opq1 where mo: "mo = (mm, opq1)" by (cases mo)
      show ?thesis
      proof (cases "ty \<noteq> 0 \<and> ty \<noteq> mm AND S_IFMT")
        case True
        with 3 show ?thesis using b sc ie Some v mo rest [of False ty s' l w opq s n] by (auto simp: for_up_step)
      next
        case False
        obtain s1 l1 w1 o1 where r: "scan_views False S_IFDIR ?vs = (s1, l1, w1, o1)"
          by (cases "scan_views False S_IFDIR ?vs")
        have opqd: "opq1 \<longrightarrow> mm AND S_IFMT = S_IFDIR"
          using Some v 3 mo by (auto simp: view_at_def branch_view_def isdir_ifmt split: option.splits if_splits)
        show ?thesis
        proof (cases "mm AND S_IFMT = S_IFDIR \<and> \<not> opq1")
          case True
          obtain g1 t1 where g: "for_up ?f (i + 1) e (lk_state d fl k (s @ [i]) (- 1) (- 1) (n + 1) False S_IFDIR)
              = Some (lk_state d fl k (s @ [i] @ s1) w1 o1 (n + 1 + int (length l1)) g1 t1)"
            using rest [OF r, of "s @ [i]" "n + 1"] by auto
          from True 3 False show ?thesis using b sc ie Some v mo r g
            by (intro exI [of _ g1] exI [of _ t1]) (auto simp: for_up_step add.assoc)
        next
          case stop: False
          with 3 False show ?thesis using b sc ie Some v mo opqd by (auto simp: for_up_step)
        qed
      qed
    qed
  qed
qed

section \<open>The end of the lookup\<close>

lemma lk_slot:
  assumes "sorted_wrt (<) s" "opq = - 1 \<or> opq \<in> set s" "i \<in> set s" "0 \<le> hd s"
    "i < int (length (di_hdentry (the_di d)))" "0 < k_dcount k (fl i)"
  shows "au_h_dptr_i k (lk_dentry d fl s w opq) i = Some (Some (fl i))"
proof -
  have "hd s \<le> i" using sorted_hd_last [OF assms(1,3)] by simp
  moreover have "s \<noteq> []" using assms(3) by auto
  ultimately show ?thesis using assms by (simp add: au_h_dptr_i_def lk_dtodi) (simp add: lk_dinfo_def)
qed

text \<open>The dentry with the slots \<open>l\<close>, its range still beginning at \<open>x\<close>.\<close>

definition lk_from :: "aufs_dentry \<Rightarrow> (int \<Rightarrow> nat) \<Rightarrow> int \<Rightarrow> int list \<Rightarrow> int \<Rightarrow> int \<Rightarrow> aufs_dentry" where
  "lk_from d fl x l w opq = d\<lparr>d_fsdata := Some ((lk_dinfo (the_di d) fl l w opq)\<lparr>di_bstart := x\<rparr>)\<rparr>"

lemma lk_from_hd: "l \<noteq> [] \<Longrightarrow> lk_from d fl (hd l) l w opq = lk_dentry d fl l w opq"
  by (simp add: lk_from_def lk_dentry_def lk_dinfo_def)

lemma lk_from_dtodi:
  assumes "l \<noteq> []" "x \<le> hd l" "sorted_wrt (<) l" "opq = - 1 \<or> opq = last l"
  shows "dtodi (lk_from d fl x l w opq) = Some ((lk_dinfo (the_di d) fl l w opq)\<lparr>di_bstart := x\<rparr>)"
  using assms sorted_hd_last(1) [OF assms(3) last_in_set [OF assms(1)]]
  by (auto simp: dtodi_def lk_from_def lk_dinfo_def)

lemma lk_from_stop:
  assumes l: "l \<noteq> []" "x \<le> hd l" "sorted_wrt (<) l" and o: "opq = - 1 \<or> opq = last l" and x: "0 \<le> x"
    and b: "\<forall>i \<in> set l. i < int (length (di_hdentry (the_di d)))" "hd l \<le> sbend sb"
    and p: "0 < k_dcount k (fl (hd l))" "k_dinode k (fl (hd l)) \<noteq> None"
  shows "for_up (dbstart_body sb) (hd l) (last l) (lk_from d fl x l w opq, k) = Some (lk_dentry d fl l w opq, k)"
proof -
  have le: "hd l \<le> last l" by (rule sorted_hd_last(1) [OF l(3) last_in_set [OF l(1)]])
  have "hd l < int (length (di_hdentry (the_di d)))" using b(1) l(1) by simp
  then have "aget (di_hdentry (lk_dinfo (the_di d) fl l w opq)) (hd l) = Some (Some (fl (hd l)))"
    using l x by (simp add: lk_dinfo_def)
  then have "au_h_dptr_i k (lk_from d fl x l w opq) (hd l) = Some (Some (fl (hd l)))"
    using l x p(1) o by (simp add: au_h_dptr_i_def lk_from_dtodi del: lk_dinfo_fields)
  moreover have "set_dbstart sb (lk_from d fl x l w opq) (hd l) = Some (lk_dentry d fl l w opq)"
    using l o b(2) by (simp add: set_dbstart_def upd_di_def lk_from_dtodi)
      (simp add: lk_from_def lk_dentry_def lk_dinfo_def)
  ultimately show ?thesis using le p by (auto simp: for_up_step dbstart_body_def)
qed

lemma lk_trim:
  assumes l: "l \<noteq> []" and s: "sorted_wrt (<) s" and o: "opq = - 1 \<or> opq = last l"
    and sl: "s = l \<or> (\<exists>x. s = x # l \<and> k_dinode k (fl x) = None)"
    and b: "\<forall>i \<in> set s. 0 \<le> i \<and> i \<le> sbend sb \<and> i < int (length (di_hdentry (the_di d))) \<and> 0 \<le> k_dcount k (fl i)"
    and pos: "\<forall>i \<in> set l. k_dinode k (fl i) \<noteq> None"
  shows "au_update_dbstart sb (lk_dentry d fl s w opq) (dgets (map fl s) k)
     = Some (lk_dentry d fl l w opq, dgets (map fl l) k)"
proof -
  have sne: "s \<noteq> []" and ls: "set l \<subseteq> set s" "last s = last l" "sorted_wrt (<) l" using sl l s by auto
  have os: "opq = - 1 \<or> opq \<in> set s" using o ls(2) sne by (metis last_in_set)
  have start: "au_update_dbstart sb (lk_dentry d fl s w opq) k1
      = for_up (dbstart_body sb) (hd s) (last l) (lk_dentry d fl s w opq, k1)" for k1
    using sne ls(2) lk_dtodi [OF s os, of d fl w]
    by (simp add: au_update_dbstart_def dbstart_def dbend_def) (simp add: lk_dinfo_def)
  have cnt: "0 < k_dcount (dgets (map fl t) k) (fl i)" if "i \<in> set t" "set t \<subseteq> set s" for i t
  proof -
    have "0 < count_list (map fl t) (fl i)" using that(1) count_list_0_iff [of "map fl t" "fl i"] by force
    then show ?thesis using b that by (auto simp: dgets_dcount add_nonneg_pos subset_iff)
  qed
  have hl: "hd l \<in> set l" using l by simp
  have stop: "for_up (dbstart_body sb) (hd l) (last l) (lk_from d fl x l w opq, dgets (map fl l) k)
      = Some (lk_dentry d fl l w opq, dgets (map fl l) k)" if "x \<le> hd l" "0 \<le> x" for x
    using that l o ls b pos hl cnt [OF hl ls(1)] subsetD [OF ls(1) hl] by (intro lk_from_stop) auto
  show ?thesis
  proof (cases "s = l")
    case True
    then show ?thesis using start stop [of "hd l"] b hl lk_from_hd [OF l, of d fl w opq] by auto
  next
    case False
    with sl obtain x where x: "s = x # l" "k_dinode k (fl x) = None" by auto
    have x0: "0 \<le> x" "x < hd l" "x < int (length (di_hdentry (the_di d)))" "x \<le> last l" "x \<notin> set l"
      using b s hl x(1) last_in_set [OF l] by auto
    let ?K = "dgets (map fl s) k" and ?D = "lk_dentry d fl s w opq" and ?d = "the_di d"
    have t: "dtodi ?D = Some (lk_dinfo ?d fl s w opq)" by (rule lk_dtodi [OF s os])
    have clear: "(map (\<lambda>i. if int i \<in> set s then Some (fl (int i)) else None) [0..<n])[nat x := None]
        = map (\<lambda>i. if int i \<in> set l then Some (fl (int i)) else None) [0..<n]" if "x < int n" for n
      using x0 x(1) that by (intro nth_equalityI) (auto simp: nth_list_update)
    have "set_h_dptr ?D x None ?K = Some (lk_from d fl x l w opq, dput (Some (fl x)) ?K)"
      using t x x0 l clear [of "length (di_hdentry ?d)"]
      by (simp add: set_h_dptr_def) (simp add: lk_dinfo_def lk_dentry_def lk_from_def)
    then have c: "set_h_dptr ?D x None ?K = Some (lk_from d fl x l w opq, dgets (map fl l) k)"
      using x(1) dput_dgets [of "fl x" "map fl l" k] by simp
    have sx: "au_h_dptr_i ?K ?D x = Some (Some (fl x))"
      using lk_slot [OF s os, of x d ?K fl w] x0 x(1) cnt [of x s] by simp
    have step: "for_up (dbstart_body sb) x (last l) (?D, ?K)
        = for_up (dbstart_body sb) (x + 1) (last l) (lk_from d fl x l w opq, dgets (map fl l) k)"
      using c sx x(2) x0 by (simp add: for_up_step dbstart_body_def)
    have mid: "au_h_dptr_i k1 (lk_from d fl x l w opq) j = Some None" if "x + 1 \<le> j" "j < hd l" for j k1
    proof -
      have "j \<notin> set l" using that sorted_hd_last(1) [OF ls(3), of j] by auto
      moreover have "j < int (length (di_hdentry ?d))" using that b ls(1) hl by fastforce
      ultimately show ?thesis using that l x0 o ls(3)
        by (simp add: au_h_dptr_i_def lk_from_dtodi) (simp add: lk_dinfo_def)
    qed
    have "\<exists>t. for_up (dbstart_body sb) (x + 1) (last l) (lk_from d fl x l w opq, dgets (map fl l) k)
        = for_up (dbstart_body sb) (hd l) (last l) t \<and> t = (lk_from d fl x l w opq, dgets (map fl l) k)"
    proof (rule for_up_prefix [where I = "\<lambda>_ t. t = (lk_from d fl x l w opq, dgets (map fl l) k)"])
      show "hd l \<le> last l + 1" using sorted_hd_last(1) [OF ls(3) last_in_set [OF l]] by simp
    qed (use x0 mid in \<open>auto simp: dbstart_body_def\<close>)
    with start [of ?K] step stop [of x] x0 x(1) show ?thesis by auto
  qed
qed

lemma hslot_lk:
  "\<forall>i \<in> set s. 0 \<le> i \<and> i < int (length (di_hdentry (the_di d))) \<Longrightarrow>
   hslot (lk_dentry d fl s w opq) i = (if i \<in> set s then Some (fl i) else None)"
  by (auto simp: hslot_def) (auto simp: lk_dinfo_def)

lemma kmalloc_frame [simp]:
  "k_dcount (snd (kmalloc k)) = k_dcount k" "k_dinode (snd (kmalloc k)) = k_dinode k"
  "k_imode (snd (kmalloc k)) = k_imode k" "k_dparent (snd (kmalloc k)) = k_dparent k"
  by (simp_all add: kmalloc_def)

lemma kmalloc_views [simp]:
  "wh_code (snd (kmalloc k)) p = wh_code k p" "au_h_dptr_i (snd (kmalloc k)) d j = au_h_dptr_i k d j"
  "branch_view child (snd (kmalloc k)) wa hp name = branch_view child k wa hp name"
  by (simp_all add: wh_code_def au_h_dptr_i_def branch_view_def kmalloc_def cong: option.case_cong if_cong)

section \<open>Properties\<close>

text \<open>C2.
  Looking a name up gives a fresh dentry exactly the layers of the stacking rules: the
  first file whose name no branch above or its own whites out, of the type asked for
  when one is; for a directory the directories of the branches below, passing over
  other files, up to a whiteout or an opaque mark. The result is their number, the
  range of the dentry goes from the first to the last, every slot holds the file of
  its branch with one reference, and no other reference is kept. When there is no
  layer only a negative dentry can be left.
\<close>

theorem lkup_dentry_stacks:
  assumes env: "lookup_env vf child" "sb_ok sb" and d: "fresh d"
    and name: "name \<noteq> []" "take AUFS_WH_LEN name \<noteq> AUFS_WH_PFX" "length name \<le> PATH_MAX - AUFS_WH_LEN"
    and mem: "k_ok k (k_alloc k)" and lo: "0 \<le> bstart" and tail: "dbtaildir parent = Some btail"
    and at: "\<forall>j. bstart \<le> j \<longrightarrow> j \<le> btail \<longrightarrow> lkup_at child sb parent d name k (hp j) j"
    and ls: "layers ty (map (\<lambda>j. (j, view_at child sb name k hp j)) [bstart..btail]) = ls"
  shows "\<exists>d' k'. lkup_dentry vf sb parent d name bstart ty k = Some (int (length ls), d', k')
     \<and> (if ls = [] then \<forall>j q. hslot d' j = Some q \<longrightarrow> k_dinode k q = None
        else di_bstart (the_di d') = hd ls \<and> di_bend (the_di d') = last ls
          \<and> (\<forall>j. hslot d' j = (if j \<in> set ls then Some (file_at child name hp j) else None))
          \<and> (\<forall>q. k_dcount k' q = k_dcount k q + int (count_list (map (file_at child name hp) ls) q)))
     \<and> k_live k' = k_live k"
proof -
  let ?k = "snd (kmalloc k)" and ?fl = "file_at child name hp"
  let ?vs = "map (\<lambda>j. (j, view_at child sb name k hp j)) [bstart..btail]"
  obtain s l w opq where sc0: "scan_views (ty = 0) ty ?vs = (s, l, w, opq)" by (rule prod_cases4)
  have "l = ls" using scan_views_layers [OF sc0] ls by simp
  with sc0 have sc: "scan_views (ty = 0) ty ?vs = (s, ls, w, opq)" by simp
  have at': "\<forall>j. bstart \<le> j \<longrightarrow> j \<le> btail \<longrightarrow> lkup_at child sb parent d name ?k (hp j) j"
    using at by (simp add: lkup_at_def)
  have sc': "scan_views (ty = 0) ty (map (\<lambda>j. (j, view_at child sb name ?k hp j)) [bstart..btail]) = (s, ls, w, opq)"
    using sc by (simp add: view_at_def)
  have d0: "lk_dentry d ?fl [] (- 1) (- 1) = d" "d_imode d = None"
    using fresh_lk [OF d] d by (auto simp: fresh_def)
  have nd: "dir_fits d k' h" for k' h using d0(2) by (simp add: dir_fits_def not_dir_def)
  from lkup_loop_scan [OF HOL.refl env nd at' order_refl _ _ sc', of "[]" 0] obtain neg' ty' where
    loop: "for_up (lkup_body vf sb parent name (AUFS_WH_PFX @ name)) bstart btail
        \<lparr>ll_dentry = d, ll_kern = ?k, ll_npos = 0, ll_neg = (ty = 0), ll_type = ty, ll_err = None\<rparr>
      = Some (lk_state d ?fl ?k s w opq (int (length ls)) neg' ty')"
    by (auto simp: lk_state_def d0)
  have wn: "au_alloc_whname name k = Some (Inr (AUFS_WH_PFX @ name), ?k)"
    using name mem by (simp add: au_alloc_whname_def kmalloc_def)
  have "sorted_wrt (<) (map fst ?vs)" by (simp add: comp_def)
  from scan_views_sorted [OF sc this] have so: "set s \<subseteq> {bstart..btail}" "sorted_wrt (<) s" by auto
  have shp: "s = ls \<or> (\<exists>x wh. s = x # ls \<and> (x, Some (wh, None)) \<in> set ?vs)"
    and pos: "\<forall>x \<in> set ls. \<exists>m b. (x, Some (False, Some (m, b))) \<in> set ?vs" and ol: "opq = - 1 \<or> (ls \<noteq> [] \<and> opq = last ls)"
    using scan_views_slots [OF sc] by auto
  have neg: "k_dinode k (?fl x) = None" if "(x, Some (wh, None)) \<in> set ?vs" for x wh
    using that by (auto simp: view_at_def branch_view_def file_at_def split: option.splits if_splits)
  have has: "hp x \<noteq> None \<and> (f \<noteq> None \<longrightarrow> k_dinode k (?fl x) \<noteq> None)" if "(x, Some (wh, f)) \<in> set ?vs" for x wh f
    using that by (cases "k_dinode k (?fl x)")
      (auto simp: view_at_def branch_view_def file_at_def split: option.splits if_splits)
  have pos': "\<forall>x \<in> set ls. k_dinode ?k (?fl x) \<noteq> None"
    using pos has by fastforce
  have par: "hp x \<noteq> None" if "x \<in> set s" for x
    using that shp pos has by fastforce
  have rng: "\<forall>i \<in> set s. 0 \<le> i \<and> i \<le> sbend sb \<and> i < int (length (di_hdentry (the_di d))) \<and> 0 \<le> k_dcount ?k (?fl i)"
  proof
    fix i assume i: "i \<in> set s"
    with so(1) at have "lkup_at child sb parent d name k (hp i) i" by auto
    with par [OF i] show "0 \<le> i \<and> i \<le> sbend sb \<and> i < int (length (di_hdentry (the_di d))) \<and> 0 \<le> k_dcount ?k (?fl i)"
      by (auto simp: lkup_at_def file_at_def sbend_def)
  qed
  show ?thesis
  proof (cases "ls = []")
    case True
    have "lkup_dentry vf sb parent d name bstart ty k
       = Some (0, lk_dentry d ?fl s w opq, au_free_whname (dgets (map ?fl s) ?k))"
      using lo name wn tail loop True by (simp add: lkup_dentry_def lk_state_def)
    moreover have "hslot (lk_dentry d ?fl s w opq) j = (if j \<in> set s then Some (?fl j) else None)" for j
      using rng by (intro hslot_lk) auto
    moreover have "\<forall>j \<in> set s. k_dinode k (?fl j) = None"
    proof
      fix j assume j: "j \<in> set s"
      have "\<exists>wh. (j, Some (wh, None)) \<in> V" if "s = [] \<or> (\<exists>x wh. s = [x] \<and> (x, Some (wh, None)) \<in> V)"
        for V :: "(int \<times> view) set" using that j by auto
      from this [OF shp [unfolded True]] obtain wh where "(j, Some (wh, None)) \<in> set ?vs" by blast
      then show "k_dinode k (?fl j) = None" by (rule neg)
    qed
    ultimately show ?thesis using True mem
      by (simp add: au_free_whname_def kfree_def) (simp add: kmalloc_def)
  next
    case False
    have "au_update_dbstart sb (lk_dentry d ?fl s w opq) (dgets (map ?fl s) ?k)
        = Some (lk_dentry d ?fl ls w opq, dgets (map ?fl ls) ?k)"
      using shp neg ol by (intro lk_trim [OF False so(2) _ _ rng pos']) auto
    then have "lkup_dentry vf sb parent d name bstart ty k
       = Some (int (length ls), lk_dentry d ?fl ls w opq, au_free_whname (dgets (map ?fl ls) ?k))"
      using lo name wn tail loop False by (simp add: lkup_dentry_def lk_state_def)
    moreover have "hslot (lk_dentry d ?fl ls w opq) j = (if j \<in> set ls then Some (?fl j) else None)" for j
      using rng shp by (intro hslot_lk) auto
    moreover have "di_bstart (lk_dinfo (the_di d) ?fl ls w opq) = hd ls" "di_bend (lk_dinfo (the_di d) ?fl ls w opq) = last ls"
      using False by (simp_all add: lk_dinfo_def)
    ultimately show ?thesis using False mem
      by (simp add: au_free_whname_def kfree_def dgets_dcount) (simp add: kmalloc_def)
  qed
qed

text \<open>
  Three branches, whose directories 1, 2 and 3 are the slots of the parent; the name
  \<open>ab\<close> is a directory in the first and the last one.
\<close>

definition kern_ab :: kern where
  "kern_ab = kern0\<lparr>k_dinode := (\<lambda>d. if d \<in> {1, 2, 3, 1002, 3002} then Some d else None)\<rparr>"

definition dentry_at :: "nat option list \<Rightarrow> int \<Rightarrow> int \<Rightarrow> aufs_dentry" where
  "dentry_at h lo hi = \<lparr>d_fsdata = Some \<lparr>di_generation = 0, di_bstart = lo, di_bend = hi, di_bwh = - 1,
     di_bdiropq = - 1, di_hdentry = h, di_reval = 0\<rparr>, d_imode = None\<rparr>"

lemma at_ab:
  assumes "j = 0 \<or> j = 1 \<or> j = 2"
  shows "lkup_at child0 (sb0 3) (dentry_at [Some 1, Some 2, Some 3] 0 2) (dentry_at [None, None, None] (- 1) (- 1))
     [97, 98] kern_ab (Some (nat j + 1)) j"
    and "view_at child0 (sb0 3) [97, 98] kern_ab (\<lambda>j. Some (nat j + 1)) j
      = Some (False, if j = 1 then None else Some (0x4000, False))"
  using assms
  by (auto simp: lkup_at_def view_at_def branch_view_def dentry_at_def the_di_def au_h_dptr_i_def dtodi_def
      kern_ab_def kern0_def wh_code_def child0_def AUFS_WH_PFX_def diropq_name_def S_ISDIR_def aget_def)

theorem lkup_dentry_stacks_witness:
  "\<exists>d' k'. lkup_dentry vfs0 (sb0 3) (dentry_at [Some 1, Some 2, Some 3] 0 2) (dentry_at [None, None, None] (- 1) (- 1))
       [97, 98] 0 0 kern_ab = Some (2, d', k')
     \<and> hslot d' 0 = Some 1002 \<and> hslot d' 1 = None \<and> hslot d' 2 = Some 3002"
proof -
  let ?p = "dentry_at [Some 1, Some 2, Some 3] 0 2" and ?d = "dentry_at [None, None, None] (- 1) (- 1)"
  let ?hp = "\<lambda>j. Some (nat j + 1)"
  have f: "fresh ?d" by (simp add: fresh_def dentry_at_def) (rule exI [of _ 3], simp add: numeral_3_eq_3)
  have n: "[97, 98] \<noteq> ([] :: byte list)" "take AUFS_WH_LEN [97, 98 :: byte] \<noteq> AUFS_WH_PFX"
    "length [97, 98 :: byte] \<le> PATH_MAX - AUFS_WH_LEN"
    by (simp_all add: AUFS_WH_LEN_def AUFS_WH_PFX_def PATH_MAX_def)
  have m: "k_ok kern_ab (k_alloc kern_ab)" by (simp add: kern_ab_def kern0_def)
  have t: "dbtaildir ?p = Some 2"
    by (simp add: dentry_at_def dbtaildir_def dbtail_def dbend_def dbwh_def dbdiropq_def dtodi_def not_dir_def)
  have a: "\<forall>j. 0 \<le> j \<longrightarrow> j \<le> 2 \<longrightarrow> lkup_at child0 (sb0 3) ?p ?d [97, 98] kern_ab (?hp j) j"
  proof (intro allI impI)
    fix j :: int assume "0 \<le> j" "j \<le> 2"
    then have "j = 0 \<or> j = 1 \<or> j = 2" by auto
    then show "lkup_at child0 (sb0 3) ?p ?d [97, 98] kern_ab (?hp j) j" by (rule at_ab(1))
  qed
  have l: "layers 0 (map (\<lambda>j. (j, view_at child0 (sb0 3) [97, 98] kern_ab ?hp j)) [0..2]) = [0, 2]"
    using at_ab(2) [of 0] at_ab(2) [of 1] at_ab(2) [of 2] by (simp add: upto.simps S_IFMT_def S_IFDIR_def)
  have "sb_ok (sb0 3)" by (rule sb0_ok) simp
  from lkup_dentry_stacks [OF vfs0_env(1) this f n m order_refl t a l] show ?thesis
    by (auto simp: file_at_def child0_def)
qed

end
