(* ===== verification/Aufs_Plink.thy ===== *)
theory Aufs_Plink
  imports Aufs_Iinfo Aufs_Whout
begin

text \<open>
  Pseudo links (plink.c): an inode with several names on a read-only branch that is
  copied up gets one hidden inode on the writable branch, and a file in the
  pseudo-link directory of that branch, named after both inode numbers, keeps it
  alive and lets it be found again. The list \<open>si_plink\<close> holds the addresses of the
  aufs inodes concerned, which are objects in a store \<open>inodes\<close>, and a reference of
  each. Shown: names of pseudo links fit the buffer and determine the numbers, a
  link that was appended is found with the hidden inode it was made for, and the
  list gives its references back exactly.
\<close>

section \<open>Names\<close>

text \<open>\<open>%lu\<close>\<close>

fun dec_lu :: "nat \<Rightarrow> byte list" where
  "dec_lu n = (if n < 10 then [48 + of_nat n] else dec_lu (n div 10) @ [48 + of_nat (n mod 10)])"

declare dec_lu.simps [simp del]

definition PLINK_NAME_LEN :: nat where "PLINK_NAME_LEN = (20 + 1) * 2"

text \<open>\<open>snprintf\<close> into a buffer of \<open>len\<close> bytes, with the check that it was large enough.\<close>

definition plink_name :: "kern \<Rightarrow> nat \<Rightarrow> aufs_inode \<Rightarrow> int \<Rightarrow> byte list option" where
  "plink_name k len inode bindex =
     do { _ \<leftarrow> debug_on (len \<noteq> PLINK_NAME_LEN);
          p \<leftarrow> au_h_iptr_i k inode bindex; h_inode \<leftarrow> p;
          let name = dec_lu (unat (i_ino inode)) @ [46] @ dec_lu (unat (k_iino k h_inode));
          _ \<leftarrow> debug_on (len \<le> length name);
          Some name }"

section \<open>The list\<close>

definition au_is_plinked :: "aufs_sb \<Rightarrow> nat \<Rightarrow> bool option" where
  "au_is_plinked sb inode =
     do { _ \<leftarrow> debug_on (au_flag_test sb AuFlag_PLINK = 0); Some (inode \<in> set (si_plink sb)) }"

definition lkup_plink ::
    "vfs \<Rightarrow> aufs_sb \<Rightarrow> int \<Rightarrow> aufs_inode \<Rightarrow> kern \<Rightarrow> ((int + nat) \<times> kern) option" where
  "lkup_plink vf sb bindex inode k =
     do { br \<leftarrow> stobr sb bindex;
          h_parent \<leftarrow> br_plink (s_br sb br);
          h_dir \<leftarrow> k_dinode k h_parent;
          tgtname \<leftarrow> plink_name k PLINK_NAME_LEN inode bindex;
          sio_lkup_one vf tgtname h_parent k }"

definition do_whplink :: "vfs \<Rightarrow> byte list \<Rightarrow> nat \<Rightarrow> nat \<Rightarrow> kern \<Rightarrow> (int \<times> kern) option" where
  "do_whplink vf tgt h_parent h_dentry k =
     (let (r, k) = lkup_one vf tgt h_parent k
      in case r of
           Inl err \<Rightarrow> Some (err, k)
         | Inr h_tgt \<Rightarrow>
             do { h_dir \<leftarrow> k_dinode k h_parent;
                  let (err, k) = (if k_dinode k h_tgt \<noteq> None \<and> k_dinode k h_tgt \<noteq> k_dinode k h_dentry
                                  then vf_unlink vf h_dir h_tgt k else (0, k));
                  let (err, k) = (if err = 0 \<and> k_dinode k h_tgt = None
                                  then vf_link vf h_dentry h_dir h_tgt k else (err, k));
                  Some (err, dput (Some h_tgt) k) })"

definition whplink ::
    "bool \<Rightarrow> vfs \<Rightarrow> nat \<Rightarrow> aufs_inode \<Rightarrow> int \<Rightarrow> aufs_sb \<Rightarrow> kern \<Rightarrow> (int \<times> kern) option" where
  "whplink is_aufsd vf h_dentry inode bindex sb k =
     do { br \<leftarrow> stobr sb bindex;
          h_parent \<leftarrow> br_plink (s_br sb br);
          h_dir \<leftarrow> k_dinode k h_parent;
          tgtname \<leftarrow> plink_name k PLINK_NAME_LEN inode bindex;
          if \<not> is_aufsd then au_wkq_wait (\<lambda>_. do_whplink vf tgtname h_parent h_dentry k)
          else do_whplink vf tgtname h_parent h_dentry k }"

text \<open>An error is only warned about; the model returns it for the reader.\<close>

definition append_plink ::
    "bool \<Rightarrow> vfs \<Rightarrow> (nat \<Rightarrow> aufs_inode) \<Rightarrow> nat \<Rightarrow> nat \<Rightarrow> int \<Rightarrow> aufs_sb \<Rightarrow> kern \<Rightarrow> (int \<times> aufs_sb \<times> kern) option" where
  "append_plink is_aufsd vf inodes inode h_dentry bindex sb k =
     do { _ \<leftarrow> debug_on (au_flag_test sb AuFlag_PLINK = 0);
          let (err, sb, k) =
            (if inode \<in> set (si_plink sb) then (0, sb, k)
             else let (ok, k) = kmalloc k
                  in if ok then (0, sb\<lparr>si_plink := inode # si_plink sb\<rparr>, igrab inode k)
                     else (- ENOMEM, sb, k));
          if err = 0
          then do { (err, k) \<leftarrow> whplink is_aufsd vf h_dentry (inodes inode) bindex sb k; Some (err, sb, k) }
          else Some (err, sb, k) }"

text \<open>With \<open>do_del\<close> the entry is taken out of the list; an inode has one entry.\<close>

definition do_put_plink :: "nat \<Rightarrow> bool \<Rightarrow> aufs_sb \<Rightarrow> kern \<Rightarrow> aufs_sb \<times> kern" where
  "do_put_plink plink do_del sb k =
     (let k = iput (Some plink) k
      in (if do_del then sb\<lparr>si_plink := remove1 plink (si_plink sb)\<rparr> else sb, kfree k))"

definition au_put_plink :: "aufs_sb \<Rightarrow> kern \<Rightarrow> (aufs_sb \<times> kern) option" where
  "au_put_plink sb k =
     do { _ \<leftarrow> debug_on (au_flag_test sb AuFlag_PLINK = 0);
          let (sb, k) = fold (\<lambda>plink (sb, k). do_put_plink plink False sb k) (si_plink sb) (sb, k);
          Some (sb\<lparr>si_plink := []\<rparr>, k) }"

section \<open>Dropping a branch\<close>

text \<open>
  The loop over the hidden inodes of one aufs inode: the first one on the branch is
  dropped. The result says whether there was one.
\<close>

definition drop_round ::
    "bool \<Rightarrow> (nat \<Rightarrow> writef) \<Rightarrow> aufs_sb \<Rightarrow> int \<Rightarrow> int \<Rightarrow> bool \<times> aufs_inode \<times> kern
       \<Rightarrow> (bool \<times> (bool \<times> aufs_inode \<times> kern)) option" where
  "drop_round is_aufsd wrf sb bid bindex = (\<lambda>(do_put, inode, k).
     do { h \<leftarrow> au_h_iptr_i k inode bindex;
          skip \<leftarrow> (if h = None then Some True
                   else map_option (\<lambda>id. id \<noteq> bid) (itoid_index inode bindex));
          if skip then Some (True, (do_put, inode, k))
          else do { (inode, _, k) \<leftarrow> set_h_iptr is_aufsd wrf inode bindex None 0 sb k;
                    Some (False, (True, inode, k)) } })"

text \<open>One element of the list; the inode is held while it is changed.\<close>

definition half_refresh_one ::
    "bool \<Rightarrow> (nat \<Rightarrow> writef) \<Rightarrow> int \<Rightarrow> nat \<Rightarrow> (nat \<Rightarrow> aufs_inode) \<times> aufs_sb \<times> kern
       \<Rightarrow> ((nat \<Rightarrow> aufs_inode) \<times> aufs_sb \<times> kern) option" where
  "half_refresh_one is_aufsd wrf bid plink = (\<lambda>(inodes, sb, k).
     do { let k = igrab plink k;
          let inode = inodes plink;
          bstart \<leftarrow> ibstart inode;
          bend \<leftarrow> ibend inode;
          (sb, do_put, inode, k) \<leftarrow>
            (if 0 \<le> bstart
             then do { (do_put, inode, k) \<leftarrow> for_up (drop_round is_aufsd wrf sb bid) bstart bend (False, inode, k);
                       Some (sb, do_put, inode, k) }
             else let (sb, k) = do_put_plink plink True sb k in Some (sb, False, inode, k));
          (sb, k) \<leftarrow>
            (if do_put
             then do { b \<leftarrow> scan_up (\<lambda>i. map_option (\<lambda>h. h \<noteq> None) (au_h_iptr_i k inode i)) bstart bend (bend + 1);
                       if b \<le> bend then Some (sb, k) else Some (do_put_plink plink True sb k) }
             else Some (sb, k));
          Some (inodes(plink := inode), sb, iput (Some plink) k) })"

fun half_refresh_list ::
    "bool \<Rightarrow> (nat \<Rightarrow> writef) \<Rightarrow> int \<Rightarrow> nat list \<Rightarrow> (nat \<Rightarrow> aufs_inode) \<times> aufs_sb \<times> kern
       \<Rightarrow> ((nat \<Rightarrow> aufs_inode) \<times> aufs_sb \<times> kern) option" where
  "half_refresh_list is_aufsd wrf bid [] s = Some s"
| "half_refresh_list is_aufsd wrf bid (plink # rest) s =
     do { s \<leftarrow> half_refresh_one is_aufsd wrf bid plink s; half_refresh_list is_aufsd wrf bid rest s }"

definition half_refresh_plink ::
    "bool \<Rightarrow> (nat \<Rightarrow> writef) \<Rightarrow> int \<Rightarrow> (nat \<Rightarrow> aufs_inode) \<Rightarrow> aufs_sb \<Rightarrow> kern
       \<Rightarrow> ((nat \<Rightarrow> aufs_inode) \<times> aufs_sb \<times> kern) option" where
  "half_refresh_plink is_aufsd wrf bid inodes sb k =
     do { _ \<leftarrow> debug_on (au_flag_test sb AuFlag_PLINK = 0);
          half_refresh_list is_aufsd wrf bid (si_plink sb) (inodes, sb, k) }"

section \<open>Names are read back\<close>

definition dec_value :: "byte list \<Rightarrow> nat" where
  "dec_value bs = foldl (\<lambda>n b. 10 * n + (unat b - 48)) 0 bs"

definition read_plink_name :: "byte list \<Rightarrow> nat \<times> nat" where
  "read_plink_name bs = (dec_value (takeWhile (\<lambda>b. b \<noteq> 46) bs), dec_value (tl (dropWhile (\<lambda>b. b \<noteq> 46) bs)))"

lemma unat_digit: "d < 10 \<Longrightarrow> unat (48 + of_nat d :: byte) = 48 + d"
  by (simp add: unat_word_ariths(1) unat_of_nat take_bit_eq_mod unsigned_of_nat)

lemma dec_lu_value: "dec_value (dec_lu n) = n"
proof (induction n rule: dec_lu.induct)
  case (1 n)
  then show ?case
    by (subst dec_lu.simps) (auto simp: dec_value_def unat_digit)
qed

lemma dec_lu_digits: "b \<in> set (dec_lu n) \<Longrightarrow> b \<noteq> 46"
proof (induction n rule: dec_lu.induct)
  case (1 n)
  have "48 + of_nat d \<noteq> (46 :: byte)" if "d < 10" for d
  proof
    assume "48 + of_nat d = (46 :: byte)"
    then have "unat (48 + of_nat d :: byte) = unat (46 :: byte)" by (simp only:)
    with unat_digit [OF that] show False by simp
  qed
  moreover have "dec_lu n = (if n < 10 then [48 + of_nat n] else dec_lu (n div 10) @ [48 + of_nat (n mod 10)])"
    by (rule dec_lu.simps)
  ultimately show ?case using 1 by (auto split: if_splits)
qed

lemma dec_lu_length: "n < 10 ^ Suc m \<Longrightarrow> length (dec_lu n) \<le> Suc m"
proof (induction n arbitrary: m rule: dec_lu.induct)
  case (1 n)
  show ?case
  proof (cases "n < 10")
    case True
    then show ?thesis by (subst dec_lu.simps) simp
  next
    case False
    with 1(2) obtain j where "m = Suc j" by (cases m) auto
    with 1 False have "length (dec_lu (n div 10)) \<le> m" by (simp add: less_mult_imp_div_less mult.commute)
    with False show ?thesis by (subst dec_lu.simps) simp
  qed
qed

lemma dec_lu_word: "length (dec_lu (unat (w :: 64 word))) \<le> 20"
proof -
  have "unat w < 2 ^ 64" using unsigned_less [of w, where ?'a = nat] by simp
  then have "unat w < 10 ^ Suc 19" by simp
  from dec_lu_length [OF this] show ?thesis by simp
qed

section \<open>Properties\<close>

text \<open>C23.
  The name of a pseudo link always fits the buffer, and both inode numbers can be read
  back from it; so different pairs of inodes of one branch have different names.
\<close>

theorem plink_name_read_back:
  assumes "au_h_iptr_i k inode bindex = Some (Some h)"
  shows "\<exists>name. plink_name k PLINK_NAME_LEN inode bindex = Some name \<and> length name < PLINK_NAME_LEN
    \<and> read_plink_name name = (unat (i_ino inode), unat (k_iino k h))"
proof -
  let ?a = "dec_lu (unat (i_ino inode))" and ?b = "dec_lu (unat (k_iino k h))"
  have len: "length (?a @ [46] @ ?b) < PLINK_NAME_LEN"
    using dec_lu_word [of "i_ino inode"] dec_lu_word [of "k_iino k h"] by (simp add: PLINK_NAME_LEN_def)
  have t: "takeWhile (\<lambda>b. b \<noteq> 46) (?a @ [46] @ ?b) = ?a" "dropWhile (\<lambda>b. b \<noteq> 46) (?a @ [46] @ ?b) = 46 # ?b"
    using dec_lu_digits by (simp_all add: takeWhile_append2 dropWhile_append2)
  have "read_plink_name (?a @ [46] @ ?b) = (unat (i_ino inode), unat (k_iino k h))"
    unfolding read_plink_name_def t by (simp add: dec_lu_value)
  with len assms show ?thesis by (simp add: plink_name_def)
qed

text \<open>
  Forgetting all pseudo links empties the list, gives one reference back for every
  entry and frees its memory.
\<close>

theorem au_put_plink_balanced:
  assumes "au_flag_test sb AuFlag_PLINK \<noteq> 0"
  shows "\<exists>k'. au_put_plink sb k = Some (sb\<lparr>si_plink := []\<rparr>, k')
    \<and> (\<forall>a. k_icount k' a = k_icount k a - int (count_list (si_plink sb) a))
    \<and> k_live k' = k_live k - int (length (si_plink sb)) \<and> k_dcount k' = k_dcount k"
proof -
  have "\<exists>k'. fold (\<lambda>plink (sb, k). do_put_plink plink False sb k) ps (sb, k) = (sb, k')
      \<and> (\<forall>a. k_icount k' a = k_icount k a - int (count_list ps a))
      \<and> k_live k' = k_live k - int (length ps) \<and> k_dcount k' = k_dcount k" for ps
  proof (induction ps arbitrary: k)
    case (Cons p ps)
    have d: "do_put_plink p False sb k = (sb, kfree (iput (Some p) k))" by (simp add: do_put_plink_def)
    from Cons [of "kfree (iput (Some p) k)"] show ?case
      by (auto simp: d iput_icount kfree_def)
  qed simp
  from this [of "si_plink sb"] assms show ?thesis by (auto simp: au_put_plink_def)
qed

text \<open>An aufs inode with two hidden inodes, in the branches 1 and 2.\<close>

definition inode2 :: aufs_inode where
  "inode2 = \<lparr>i_ino = 11, i_mode = 0x8000, i_nlink = 2, i_version = 0, i_attr = attr0, i_iinfo =
     \<lparr>ii_generation = 0, ii_bstart = 0, ii_bend = 1, ii_hinode =
        Some [\<lparr>hi_inode = Some 21, hi_id = 1, hi_notify = None\<rparr>, \<lparr>hi_inode = Some 22, hi_id = 2, hi_notify = None\<rparr>],
      ii_vdir = None\<rparr>\<rparr>"

lemma inode2_h: "au_h_iptr_i (kern0\<lparr>k_dinode := f\<rparr>) inode2 0 = Some (Some 21)" "au_h_iptr_i kern0 inode2 1 = Some (Some 22)"
  by (simp_all add: au_h_iptr_i_def inode2_def ibend_def hinode_at_def ii_of_def itoii_def kern0_def aget_def)

theorem plink_name_read_back_witness:
  "\<exists>name. plink_name kern0 PLINK_NAME_LEN inode2 1 = Some name \<and> read_plink_name name = (11, 22)"
proof -
  have "i_ino inode2 = 11" "k_iino kern0 22 = 22" by (simp_all add: inode2_def kern0_def)
  with plink_name_read_back [OF inode2_h(2)] show ?thesis by auto
qed

theorem au_put_plink_balanced_witness:
  "\<exists>k'. au_put_plink ((sb0 1)\<lparr>si_plink := [7, 8]\<rparr>) kern0 = Some ((sb0 1)\<lparr>si_plink := []\<rparr>, k')
     \<and> k_icount k' 7 = 0 \<and> k_icount k' 9 = 1"
proof -
  have "au_flag_test ((sb0 1)\<lparr>si_plink := [7, 8]\<rparr>) AuFlag_PLINK \<noteq> 0"
    by (simp add: au_flag_test_def sb0_def flag_defs)
  from au_put_plink_balanced [OF this, of kern0] show ?thesis by (auto simp: kern0_def)
qed

section \<open>A link that was appended is found\<close>

text \<open>Linking makes the new name refer to the same inode.\<close>

definition link_env :: "vfs \<Rightarrow> bool" where
  "link_env vf \<longleftrightarrow> (\<forall>old dir new k. vf_link vf old dir new k
     = (0, k\<lparr>k_dinode := (k_dinode k)(new := k_dinode k old)\<rparr>))"

lemma do_whplink_env:
  assumes "lookup_env vf child" "unlink_env vf" "link_env vf" "k_dinode k p = Some dir" "k_dinode k d = Some h"
  shows "do_whplink vf n p d k = Some (0, k\<lparr>k_dinode := (k_dinode k)(child p n := Some h)\<rparr>)"
proof (cases "d = child p n")
  case True
  then show ?thesis using assms
    by (simp add: do_whplink_def lookup_env_def lkup_one_def fun_upd_idem)
next
  case False
  then show ?thesis using assms
    by (cases "k_dinode k (child p n) = Some h")
      (auto simp: do_whplink_def lookup_env_def unlink_env_def link_env_def lkup_one_def Let_def ref_defs fun_upd_idem)
qed

text \<open>C21.
  After an inode was appended to the pseudo links with a hidden dentry of its hidden
  inode, it is in the list, and looking its link up on that branch finds a dentry of
  the same hidden inode, whatever file had the name before. The list takes one
  reference the first time, and no reference of a dentry is kept.
\<close>

theorem append_plink_found:
  assumes env: "lookup_env vf child" "unlink_env vf" "link_env vf"
    and on: "au_flag_test sb AuFlag_PLINK \<noteq> 0" and br: "stobr sb bindex = Some br" "br_plink (s_br sb br) = Some p"
      "k_dinode k p = Some dir"
    and h: "au_h_iptr_i k (inodes a) bindex = Some (Some h)" "k_dinode k h_dentry = Some h"
    and mem: "a \<in> set (si_plink sb) \<or> k_ok k (k_alloc k)" and own: "a \<noteq> h"
  shows "\<exists>sb' k'. append_plink is_aufsd vf inodes a h_dentry bindex sb k = Some (0, sb', k')
    \<and> au_is_plinked sb' a = Some True
    \<and> (\<exists>t. lkup_plink vf sb' bindex (inodes a) k' = Some (Inr t, dget t k') \<and> k_dinode k' t = Some h)
    \<and> k_dcount k' = k_dcount k
    \<and> k_icount k' = (k_icount k)(a := k_icount k a + (if a \<in> set (si_plink sb) then 0 else 1))"
proof -
  define sb1 where "sb1 = (if a \<in> set (si_plink sb) then sb else sb\<lparr>si_plink := a # si_plink sb\<rparr>)"
  define k1 where "k1 = (if a \<in> set (si_plink sb) then k else igrab a (snd (kmalloc k)))"
  have k1: "k_dinode k1 = k_dinode k" "k_dcount k1 = k_dcount k" "k_iino k1 = k_iino k"
    "k_icount k1 = (k_icount k)(a := k_icount k a + (if a \<in> set (si_plink sb) then 0 else 1))"
    by (auto simp: k1_def igrab_def kmalloc_def)
  have sb1: "stobr sb1 i = stobr sb i" "s_br sb1 = s_br sb" "au_flag_test sb1 f = au_flag_test sb f" for i f
    by (simp_all add: sb1_def stobr_def sbend_def au_flag_test_def)
  obtain name where n: "plink_name k PLINK_NAME_LEN (inodes a) bindex = Some name"
    using h(1) dec_lu_word [of "i_ino (inodes a)"] dec_lu_word [of "k_iino k h"]
    by (simp add: plink_name_def PLINK_NAME_LEN_def)
  have h1: "au_h_iptr_i k1 (inodes a) bindex = Some (Some h)"
    using h(1) own by (cases "ibend (inodes a)"; cases "hinode_at (inodes a) bindex")
      (simp_all add: au_h_iptr_i_def k1 split: if_splits option.splits)
  have n1: "plink_name k1 PLINK_NAME_LEN (inodes a) bindex = Some name"
    using n h(1) h1 by (simp add: plink_name_def k1)
  let ?t = "child p name" and ?k = "k1\<lparr>k_dinode := (k_dinode k1)(child p name := Some h)\<rparr>"
  have w: "whplink is_aufsd vf h_dentry (inodes a) bindex sb1 k1 = Some (0, ?k)"
    using do_whplink_env [OF env, of k1 p dir h_dentry h name] n1 br h(2)
    by (simp add: whplink_def sb1 k1 au_wkq_wait_def)
  have ap: "append_plink is_aufsd vf inodes a h_dentry bindex sb k = Some (0, sb1, ?k)"
    using on mem w by (auto simp: append_plink_def sb1_def k1_def kmalloc_def split: prod.splits)
  have n2: "plink_name ?k PLINK_NAME_LEN (inodes a) bindex = Some name"
    using n1 h1 by (simp add: plink_name_def) (simp add: au_h_iptr_i_def cong: option.case_cong)
  have "\<exists>i. k_dinode ?k p = Some i" using br(3) by (simp add: k1)
  then have "lkup_plink vf sb1 bindex (inodes a) ?k = Some (Inr ?t, dget ?t ?k)"
    using br n2 sio_lkup_env [OF env(1)] by (auto simp: lkup_plink_def sb1)
  moreover have "au_is_plinked sb1 a = Some True" using on by (simp add: au_is_plinked_def sb1) (simp add: sb1_def)
  ultimately show ?thesis using ap
    by (intro exI [of _ sb1] exI [of _ ?k]) (auto simp: k1)
qed

definition vfs_link :: vfs where
  "vfs_link = vfs0\<lparr>vf_link := (\<lambda>old _ new k. (0, k\<lparr>k_dinode := (k_dinode k)(new := k_dinode k old)\<rparr>))\<rparr>"

definition sb_plink :: aufs_sb where "sb_plink = set_br_plink 0 (Some 5) (sb0 1)"

theorem append_plink_found_witness:
  "\<exists>sb' k' t. append_plink False vfs_link (\<lambda>_. inode2) 7 21 0 sb_plink kern0 = Some (0, sb', k')
     \<and> au_is_plinked sb' 7 = Some True \<and> lkup_plink vfs_link sb' 0 inode2 k' = Some (Inr t, dget t k')
     \<and> k_dinode k' t = Some 21 \<and> k_icount k' 7 = 2"
proof -
  have e: "lookup_env vfs_link child0" "unlink_env vfs_link" "link_env vfs_link"
    using vfs0_env by (simp_all add: vfs_link_def lookup_env_def unlink_env_def link_env_def)
  have f: "au_flag_test sb_plink AuFlag_PLINK \<noteq> 0" "stobr sb_plink 0 = Some 0" "br_plink (s_br sb_plink 0) = Some 5"
    by (simp_all add: sb_plink_def set_br_plink_def upd_br_def au_flag_test_def sb0_def flag_defs stobr_def sbend_def aget_def)
  have k: "k_dinode kern0 5 = Some 5" "k_dinode kern0 21 = Some 21" "7 \<in> set (si_plink sb_plink) \<or> k_ok kern0 (k_alloc kern0)"
    "(7::nat) \<noteq> 21" "k_icount kern0 7 = 1" "7 \<notin> set (si_plink sb_plink)"
    by (simp_all add: kern0_def sb_plink_def set_br_plink_def upd_br_def sb0_def)
  have h: "au_h_iptr_i kern0 inode2 0 = Some (Some 21)" using inode2_h(1) [of "k_dinode kern0"] by simp
  from append_plink_found [OF e f k(1) h k(2-4), of False] k(5,6) show ?thesis by auto
qed

section \<open>Dropping the pseudo links of a branch\<close>

text \<open>
  The hidden inode of a branch is the first one in the range with that id; a pseudo
  link is forgotten when its inode has no other hidden inode, or none at all.
\<close>

definition on_branch :: "int \<Rightarrow> aufs_inode \<Rightarrow> int \<Rightarrow> bool" where
  "on_branch bid inode i \<longleftrightarrow> islot inode i \<noteq> None \<and> hi_id (the_hi inode ! nat i) = bid"

definition dropped :: "int \<Rightarrow> aufs_inode \<Rightarrow> aufs_inode" where
  "dropped bid inode =
     (case filter (on_branch bid inode) [ii_bstart (i_iinfo inode)..ii_bend (i_iinfo inode)] of
        [] \<Rightarrow> inode | i # _ \<Rightarrow> clear_slot i inode)"

definition forgotten :: "int \<Rightarrow> aufs_inode \<Rightarrow> bool" where
  "forgotten bid inode \<longleftrightarrow> ii_bstart (i_iinfo inode) < 0
     \<or> ((\<exists>i. on_branch bid inode i) \<and> (\<forall>i. islot (dropped bid inode) i = None))"

definition drop_slot :: "int \<Rightarrow> aufs_inode \<Rightarrow> nat option" where
  "drop_slot bid inode =
     (case filter (on_branch bid inode) [ii_bstart (i_iinfo inode)..ii_bend (i_iinfo inode)] of
        [] \<Rightarrow> None | i # _ \<Rightarrow> islot inode i)"

lemma au_h_iptr_i_ok2:
  assumes "ii_ok inode" "0 \<le> i" "i \<le> ii_bend (i_iinfo inode)"
    and "\<And>h. islot inode i = Some h \<Longrightarrow> 0 < k_icount k h"
  shows "au_h_iptr_i k inode i = Some (islot inode i)"
proof -
  have "i < int (length (the_hi inode))" using assms by (auto simp: ii_ok_def)
  then show ?thesis using assms
    by (auto simp: au_h_iptr_i_def ibend_def hinode_at_ok islot_def split: option.split)
qed

lemma drop_loop:
  assumes ok: "ii_ok inode" and cnt: "\<And>i h. islot inode i = Some h \<Longrightarrow> 0 < k_icount k h"
  shows "0 \<le> b \<Longrightarrow> ii_bstart (i_iinfo inode) \<le> b \<Longrightarrow>
    for_up (drop_round is_aufsd wrf sb bid) b (ii_bend (i_iinfo inode)) (False, inode, k)
     = Some (case filter (on_branch bid inode) [b..ii_bend (i_iinfo inode)] of
         [] \<Rightarrow> (False, inode, k) | i # _ \<Rightarrow> (True, clear_slot i inode, iput (islot inode i) k))"
proof (induction "nat (ii_bend (i_iinfo inode) + 1 - b)" arbitrary: b)
  case 0
  then show ?case by simp
next
  case (Suc n)
  let ?e = "ii_bend (i_iinfo inode)"
  have be: "b \<le> ?e" using Suc.hyps(2) by simp
  have len: "b < int (length (the_hi inode))" using ok be by (auto simp: ii_ok_def)
  have h: "au_h_iptr_i k inode b = Some (islot inode b)" using au_h_iptr_i_ok2 [OF ok Suc.prems(1) be] cnt by blast
  have IH: "for_up (drop_round is_aufsd wrf sb bid) (b + 1) ?e (False, inode, k)
     = Some (case filter (on_branch bid inode) [b + 1..?e] of
         [] \<Rightarrow> (False, inode, k) | i # _ \<Rightarrow> (True, clear_slot i inode, iput (islot inode i) k))"
    using Suc by (intro Suc.hyps(1)) auto
  have id: "itoid_index inode b = Some (hi_id (the_hi inode ! nat b))" if "islot inode b \<noteq> None"
    using that ok Suc.prems(1) be len by (simp add: itoid_index_def ibend_def hinode_at_ok islot_def)
  show ?case
  proof (cases "on_branch bid inode b")
    case True
    then show ?thesis using be h id set_h_iptr_clear [OF ok Suc.prems(1,2) be]
      by (auto simp: for_up_step drop_round_def on_branch_def upto.simps [of b ?e])
  next
    case False
    then show ?thesis using be h id IH
      by (cases "islot inode b") (auto simp: for_up_step drop_round_def on_branch_def upto.simps [of b ?e])
  qed
qed

lemma on_branch_range: "ii_ok inode \<Longrightarrow> on_branch bid inode i \<Longrightarrow>
    ii_bstart (i_iinfo inode) \<le> i \<and> i \<le> ii_bend (i_iinfo inode) \<and> 0 \<le> i"
  by (auto simp: on_branch_def ii_ok_def islot_def split: if_splits)

lemma dropped_none:
  assumes "filter (on_branch bid inode) [ii_bstart (i_iinfo inode)..ii_bend (i_iinfo inode)] = []" "ii_ok inode"
  shows "dropped bid inode = inode" "drop_slot bid inode = None" "forgotten bid inode \<longleftrightarrow> ii_bstart (i_iinfo inode) < 0"
  using assms on_branch_range [OF assms(2)] by (auto simp: dropped_def drop_slot_def forgotten_def filter_empty_conv)

lemma dropped_some:
  assumes "filter (on_branch bid inode) [ii_bstart (i_iinfo inode)..ii_bend (i_iinfo inode)] = i # r"
  shows "dropped bid inode = clear_slot i inode" "drop_slot bid inode = islot inode i" "on_branch bid inode i"
    "ii_bstart (i_iinfo inode) \<le> i" "i \<le> ii_bend (i_iinfo inode)"
proof -
  have "i \<in> set (filter (on_branch bid inode) [ii_bstart (i_iinfo inode)..ii_bend (i_iinfo inode)])"
    unfolding assms by simp
  then show "on_branch bid inode i" "ii_bstart (i_iinfo inode) \<le> i" "i \<le> ii_bend (i_iinfo inode)" by auto
qed (simp_all add: dropped_def drop_slot_def assms)

lemma half_refresh_one_exact:
  assumes ok: "ii_ok (inodes a)" and cnt: "\<And>i h. islot (inodes a) i = Some h \<Longrightarrow> 0 < k_icount k h \<and> h \<noteq> a"
    and inj: "\<And>i j h. islot (inodes a) i = Some h \<Longrightarrow> islot (inodes a) j = Some h \<Longrightarrow> i = j"
  shows "\<exists>k'. half_refresh_one is_aufsd wrf bid a (inodes, sb, k) =
      Some (inodes(a := dropped bid (inodes a)),
        if forgotten bid (inodes a) then sb\<lparr>si_plink := remove1 a (si_plink sb)\<rparr> else sb, k')
    \<and> (\<forall>x. k_icount k' x = k_icount k x - (if drop_slot bid (inodes a) = Some x then 1 else 0)
         - (if forgotten bid (inodes a) \<and> x = a then 1 else 0))"
proof -
  let ?i = "inodes a" and ?k = "igrab a k"
  let ?b = "ii_bstart (i_iinfo ?i)" and ?e = "ii_bend (i_iinfo ?i)"
  let ?f = "filter (on_branch bid ?i) [?b..?e]"
  have k: "k_icount ?k x = k_icount k x + (if x = a then 1 else 0)" for x by (simp add: igrab_def)
  have be: "ibstart ?i = Some ?b" "ibend ?i = Some ?e" using ok by (simp_all add: ibstart_def ibend_def)
  have put: "do_put_plink a True sb k1 = (sb\<lparr>si_plink := remove1 a (si_plink sb)\<rparr>, kfree (iput (Some a) k1))" for k1
    by (simp add: do_put_plink_def)
  have fr: "k_icount (kfree k1) = k_icount k1" for k1 by (simp add: kfree_def)
  show ?thesis
  proof (cases "0 \<le> ?b")
    case False
    then have "?e = - 1" using ok by (auto simp: ii_ok_def)
    then have e: "?f = []" using on_branch_range [OF ok] by (fastforce simp: filter_empty_conv)
    show ?thesis using False dropped_none [OF e ok] be
      by (simp add: half_refresh_one_def Let_def put fr iput_icount k)
  next
    case True
    have loop: "for_up (drop_round is_aufsd wrf sb bid) ?b ?e (False, ?i, ?k)
      = Some (case ?f of [] \<Rightarrow> (False, ?i, ?k) | i # _ \<Rightarrow> (True, clear_slot i ?i, iput (islot ?i i) ?k))"
      using cnt True by (intro drop_loop [OF ok]) (auto simp: k intro: add_pos_nonneg)
    show ?thesis
    proof (cases ?f)
      case Nil
      show ?thesis using True dropped_none [OF Nil ok] be loop Nil
        by (simp add: half_refresh_one_def Let_def iput_icount k)
    next
      case (Cons i r)
      note d = dropped_some [OF Cons]
      let ?k1 = "iput (islot ?i i) ?k" and ?n = "clear_slot i ?i"
      have i: "0 \<le> i" "i < int (length (the_hi ?i))" using True d(4,5) ok by (auto simp: ii_ok_def)
      have okn: "ii_ok ?n" by (rule ii_ok_clear [OF ok i])
      have "au_h_iptr_i ?k1 ?n j = Some (islot ?n j)" if "?b \<le> j" "j \<le> ?e" for j
        using that True cnt inj by (intro au_h_iptr_i_ok2 [OF okn])
          (auto simp: islot_clear [OF i] iput_icount k split: if_splits dest: inj)
      then have "\<exists>q. scan_up (\<lambda>j. map_option (\<lambda>h. h \<noteq> None) (au_h_iptr_i ?k1 ?n j)) ?b ?e (?e + 1) = Some q
          \<and> (if \<exists>j. ?b \<le> j \<and> j \<le> ?e \<and> islot ?n j \<noteq> None
             then ?b \<le> q \<and> q \<le> ?e \<and> islot ?n q \<noteq> None \<and> (\<forall>j. ?b \<le> j \<longrightarrow> j < q \<longrightarrow> \<not> islot ?n j \<noteq> None)
             else q = ?e + 1)"
        by (intro scan_up_least) simp
      then obtain q where q: "scan_up (\<lambda>j. map_option (\<lambda>h. h \<noteq> None) (au_h_iptr_i ?k1 ?n j)) ?b ?e (?e + 1) = Some q"
        "q \<le> ?e \<longleftrightarrow> (\<exists>j. ?b \<le> j \<and> j \<le> ?e \<and> islot ?n j \<noteq> None)" by (auto split: if_splits)
      have all: "(\<exists>j. ?b \<le> j \<and> j \<le> ?e \<and> islot ?n j \<noteq> None) \<longleftrightarrow> \<not> (\<forall>j. islot ?n j = None)"
        using okn by (auto simp: ii_ok_def)
      have fg: "forgotten bid ?i \<longleftrightarrow> \<not> q \<le> ?e"
        using True d(1,3) q(2) all by (auto simp: forgotten_def)
      show ?thesis using True be loop Cons q(1) fg d(1,2)
        by (cases "q \<le> ?e") (simp_all add: half_refresh_one_def Let_def put fr iput_icount k)
    qed
  qed
qed

lemma half_refresh_list_exact:
  assumes "distinct ps" and "distinct (si_plink sb)" and "set ps \<subseteq> P"
    and ok: "\<And>a. a \<in> P \<Longrightarrow> ii_ok (inodes a)"
    and cnt: "\<And>a i h. a \<in> set ps \<Longrightarrow> islot (inodes a) i = Some h \<Longrightarrow> 0 < k_icount k h \<and> h \<notin> P"
    and uni: "\<And>a b i j h. a \<in> P \<Longrightarrow> b \<in> P \<Longrightarrow> islot (inodes a) i = Some h
       \<Longrightarrow> islot (inodes b) j = Some h \<Longrightarrow> a = b \<and> i = j"
  shows "\<exists>k'. half_refresh_list is_aufsd wrf bid ps (inodes, sb, k)
     = Some (\<lambda>a. if a \<in> set ps then dropped bid (inodes a) else inodes a,
         sb\<lparr>si_plink := filter (\<lambda>a. \<not> (a \<in> set ps \<and> forgotten bid (inodes a))) (si_plink sb)\<rparr>, k')
     \<and> (\<forall>x. k_icount k' x = k_icount k x - int (card {a \<in> set ps. drop_slot bid (inodes a) = Some x})
          - (if x \<in> set ps \<and> forgotten bid (inodes x) then 1 else 0))"
  using assms(1-3) cnt
proof (induction ps arbitrary: sb k rule: rev_induct)
  case Nil
  show ?case by simp
next
  case (snoc a ps)
  let ?I = "\<lambda>x. if x \<in> set ps then dropped bid (inodes x) else inodes x"
  let ?sb = "sb\<lparr>si_plink := filter (\<lambda>a. \<not> (a \<in> set ps \<and> forgotten bid (inodes a))) (si_plink sb)\<rparr>"
  have "distinct ps" "set ps \<subseteq> P" using snoc.prems(1,3) by auto
  moreover have "0 < k_icount k h \<and> h \<notin> P" if "b \<in> set ps" "islot (inodes b) i = Some h" for b i h
    using snoc.prems(4) [OF _ that(2)] that(1) by simp
  ultimately obtain k1 where r: "half_refresh_list is_aufsd wrf bid ps (inodes, sb, k) = Some (?I, ?sb, k1)"
    and c: "\<And>x. k_icount k1 x = k_icount k x - int (card {a \<in> set ps. drop_slot bid (inodes a) = Some x})
          - (if x \<in> set ps \<and> forgotten bid (inodes x) then 1 else 0)"
    using snoc.IH [OF _ snoc.prems(2)] by blast
  have na: "a \<notin> set ps" "a \<in> P" using snoc.prems by auto
  have own: "0 < k_icount k1 h \<and> h \<noteq> a" if h: "islot (?I a) i = Some h" for i h
  proof -
    have h': "islot (inodes a) i = Some h" using h na by simp
    have "drop_slot bid (inodes b) \<noteq> Some h" if "b \<in> set ps" for b
    proof
      assume "drop_slot bid (inodes b) = Some h"
      then obtain j where "islot (inodes b) j = Some h" by (auto simp: drop_slot_def split: list.splits)
      with uni [OF na(2) _ h'] that snoc.prems(3) na(1) show False by auto
    qed
    then have "card {b \<in> set ps. drop_slot bid (inodes b) = Some h} = 0" by (simp add: card_eq_0_iff)
    with c [of h] have "k_icount k1 h = k_icount k h - (if h \<in> set ps \<and> forgotten bid (inodes h) then 1 else 0)"
      by simp
    moreover have "h \<notin> P" "0 < k_icount k h" using snoc.prems(4) [OF _ h'] by auto
    ultimately show ?thesis using snoc.prems(3) na(2) by auto
  qed
  have "\<exists>k'. half_refresh_one is_aufsd wrf bid a (?I, ?sb, k1) =
      Some (?I(a := dropped bid (?I a)), if forgotten bid (?I a) then ?sb\<lparr>si_plink := remove1 a (si_plink ?sb)\<rparr> else ?sb, k')
    \<and> (\<forall>x. k_icount k' x = k_icount k1 x - (if drop_slot bid (?I a) = Some x then 1 else 0)
         - (if forgotten bid (?I a) \<and> x = a then 1 else 0))"
  proof (rule half_refresh_one_exact)
    show "ii_ok (?I a)" using na ok by simp
    show "i = j" if "islot (?I a) i = Some h" "islot (?I a) j = Some h" for i j h
      using that na uni [OF na(2) na(2)] by auto
  qed (rule own)
  then obtain k2 where one: "half_refresh_one is_aufsd wrf bid a (?I, ?sb, k1) =
      Some (?I(a := dropped bid (inodes a)),
        if forgotten bid (inodes a) then ?sb\<lparr>si_plink := remove1 a (si_plink ?sb)\<rparr> else ?sb, k2)"
    and c2: "\<And>x. k_icount k2 x = k_icount k1 x - (if drop_slot bid (inodes a) = Some x then 1 else 0)
         - (if forgotten bid (inodes a) \<and> x = a then 1 else 0)"
    using na by auto
  have app: "half_refresh_list is_aufsd wrf bid (ps @ qs) s
      = do { s \<leftarrow> half_refresh_list is_aufsd wrf bid ps s; half_refresh_list is_aufsd wrf bid qs s }" for ps qs s
  proof (induction ps arbitrary: s)
    case (Cons p ps)
    then show ?case by (cases "half_refresh_one is_aufsd wrf bid p s") simp_all
  qed simp
  have I: "?I(a := dropped bid (inodes a)) = (\<lambda>x. if x \<in> set (ps @ [a]) then dropped bid (inodes x) else inodes x)"
    by auto
  have "remove1 a (filter (\<lambda>x. \<not> (x \<in> set ps \<and> forgotten bid (inodes x))) (si_plink sb))
      = filter (\<lambda>x. \<not> (x \<in> set (ps @ [a]) \<and> forgotten bid (inodes x))) (si_plink sb)" if "forgotten bid (inodes a)"
    using snoc.prems(2) that by (auto simp: distinct_remove1_removeAll removeAll_filter_not_eq intro!: filter_cong)
  moreover have "filter (\<lambda>x. \<not> (x \<in> set ps \<and> forgotten bid (inodes x))) (si_plink sb)
      = filter (\<lambda>x. \<not> (x \<in> set (ps @ [a]) \<and> forgotten bid (inodes x))) (si_plink sb)" if "\<not> forgotten bid (inodes a)"
    using that by (intro filter_cong) auto
  ultimately have S: "(if forgotten bid (inodes a) then ?sb\<lparr>si_plink := remove1 a (si_plink ?sb)\<rparr> else ?sb)
      = sb\<lparr>si_plink := filter (\<lambda>x. \<not> (x \<in> set (ps @ [a]) \<and> forgotten bid (inodes x))) (si_plink sb)\<rparr>"
    by simp
  have card: "int (card {b \<in> set (ps @ [a]). drop_slot bid (inodes b) = Some x})
      = int (card {b \<in> set ps. drop_slot bid (inodes b) = Some x}) + (if drop_slot bid (inodes a) = Some x then 1 else 0)" for x
  proof -
    have "{b \<in> set (ps @ [a]). drop_slot bid (inodes b) = Some x}
      = (if drop_slot bid (inodes a) = Some x then insert a {b \<in> set ps. drop_slot bid (inodes b) = Some x}
         else {b \<in> set ps. drop_slot bid (inodes b) = Some x})" by auto
    with na(1) show ?thesis by simp
  qed
  have tot: "k_icount k2 x = k_icount k x - int (card {b \<in> set (ps @ [a]). drop_slot bid (inodes b) = Some x})
      - (if x \<in> set (ps @ [a]) \<and> forgotten bid (inodes x) then 1 else 0)" for x
    unfolding card c2 c using na(1) by auto
  show ?case
    unfolding app r bind.bind_lunit half_refresh_list.simps one I S using tot by blast
qed

text \<open>C22.
  When a branch goes away, every pseudo-linked inode loses its hidden inode on that
  branch, with one reference, and keeps the others; exactly the inodes left without
  any hidden inode are taken out of the list, and only their references are given
  back. The list keeps its order.
\<close>

theorem half_refresh_plink_exact:
  assumes on: "au_flag_test sb AuFlag_PLINK \<noteq> 0" and d: "distinct (si_plink sb)"
    and ok: "\<forall>a \<in> set (si_plink sb). ii_ok (inodes a)"
    and cnt: "\<forall>a \<in> set (si_plink sb). \<forall>i h. islot (inodes a) i = Some h
       \<longrightarrow> 0 < k_icount k h \<and> h \<notin> set (si_plink sb)"
    and uni: "\<forall>a \<in> set (si_plink sb). \<forall>b \<in> set (si_plink sb). \<forall>i j h. islot (inodes a) i = Some h
       \<longrightarrow> islot (inodes b) j = Some h \<longrightarrow> a = b \<and> i = j"
  shows "\<exists>k'. half_refresh_plink is_aufsd wrf bid inodes sb k
     = Some (\<lambda>a. if a \<in> set (si_plink sb) then dropped bid (inodes a) else inodes a,
         sb\<lparr>si_plink := filter (\<lambda>a. \<not> forgotten bid (inodes a)) (si_plink sb)\<rparr>, k')
     \<and> (\<forall>x. k_icount k' x = k_icount k x - int (card {a \<in> set (si_plink sb). drop_slot bid (inodes a) = Some x})
          - (if x \<in> set (si_plink sb) \<and> forgotten bid (inodes x) then 1 else 0))"
proof -
  have "filter (\<lambda>a. \<not> (a \<in> set (si_plink sb) \<and> forgotten bid (inodes a))) (si_plink sb)
      = filter (\<lambda>a. \<not> forgotten bid (inodes a)) (si_plink sb)" by (intro filter_cong) auto
  moreover have "\<exists>k'. half_refresh_list is_aufsd wrf bid (si_plink sb) (inodes, sb, k)
     = Some (\<lambda>a. if a \<in> set (si_plink sb) then dropped bid (inodes a) else inodes a,
         sb\<lparr>si_plink := filter (\<lambda>a. \<not> (a \<in> set (si_plink sb) \<and> forgotten bid (inodes a))) (si_plink sb)\<rparr>, k')
     \<and> (\<forall>x. k_icount k' x = k_icount k x - int (card {a \<in> set (si_plink sb). drop_slot bid (inodes a) = Some x})
          - (if x \<in> set (si_plink sb) \<and> forgotten bid (inodes x) then 1 else 0))"
    by (rule half_refresh_list_exact [OF d d order_refl]) (use ok cnt uni in blast)+
  ultimately show ?thesis using on by (simp only: half_refresh_plink_def debug_on_bind if_False)
qed

text \<open>Two inodes; the second one is on the dropped branch only.\<close>

definition inode1 :: aufs_inode where
  "inode1 = \<lparr>i_ino = 12, i_mode = 0x8000, i_nlink = 2, i_version = 0, i_attr = attr0, i_iinfo =
     \<lparr>ii_generation = 0, ii_bstart = 0, ii_bend = 0,
      ii_hinode = Some [\<lparr>hi_inode = Some 31, hi_id = 1, hi_notify = None\<rparr>], ii_vdir = None\<rparr>\<rparr>"

lemma inode_slots:
  "islot inode2 i = (if i = 0 then Some 21 else if i = 1 then Some 22 else None)"
  "islot inode1 i = (if i = 0 then Some 31 else None)"
  "ii_ok inode2" "ii_ok inode1"
  by (auto simp: islot_def the_hi_def inode2_def inode1_def ii_ok_def nth_Cons' split: if_splits)

theorem half_refresh_plink_exact_witness:
  "\<exists>inodes' sb' k'. half_refresh_plink False (\<lambda>_ _ _ pos k. (0, pos, k)) 1 (\<lambda>a. if a = 7 then inode2 else inode1)
       ((sb0 2)\<lparr>si_plink := [7, 8]\<rparr>) kern0 = Some (inodes', sb', k')
     \<and> si_plink sb' = [7] \<and> islot (inodes' 7) 0 = None \<and> islot (inodes' 7) 1 = Some 22 \<and> k_icount k' 8 = 0"
proof -
  let ?sb = "(sb0 2)\<lparr>si_plink := [7, 8]\<rparr>" and ?I = "\<lambda>a::nat. if a = 7 then inode2 else inode1"
  have f: "au_flag_test ?sb AuFlag_PLINK \<noteq> 0" "distinct (si_plink ?sb)"
    by (simp_all add: au_flag_test_def sb0_def flag_defs)
  have o: "\<forall>a \<in> set (si_plink ?sb). ii_ok (?I a)"
    "\<forall>a \<in> set (si_plink ?sb). \<forall>i h. islot (?I a) i = Some h \<longrightarrow> 0 < k_icount kern0 h \<and> h \<notin> set (si_plink ?sb)"
    "\<forall>a \<in> set (si_plink ?sb). \<forall>b \<in> set (si_plink ?sb). \<forall>i j h. islot (?I a) i = Some h
       \<longrightarrow> islot (?I b) j = Some h \<longrightarrow> a = b \<and> i = j"
    by (auto simp: inode_slots kern0_def split: if_splits)
  have ids: "hi_id (the_hi inode2 ! 0) = 1" "hi_id (the_hi inode2 ! 1) = 2" "hi_id (the_hi inode1 ! 0) = 1"
    "ii_bstart (i_iinfo inode2) = 0" "ii_bend (i_iinfo inode2) = 1" "ii_bstart (i_iinfo inode1) = 0"
    "ii_bend (i_iinfo inode1) = 0" "length (the_hi inode2) = 2" "length (the_hi inode1) = 1"
    by (simp_all add: the_hi_def inode2_def inode1_def)
  have d: "dropped 1 inode2 = clear_slot 0 inode2" "dropped 1 inode1 = clear_slot 0 inode1"
    "drop_slot 1 inode2 = Some 21" "drop_slot 1 inode1 = Some 31"
    by (simp_all add: dropped_def drop_slot_def on_branch_def ids inode_slots upto.simps)
  have s: "islot (clear_slot 0 inode2) j = (if j = 1 then Some 22 else None)" "islot (clear_slot 0 inode1) j = None" for j
    by (auto simp: islot_clear ids inode_slots)
  have g: "\<not> forgotten 1 inode2" "forgotten 1 inode1"
    by (auto simp: forgotten_def d s ids on_branch_def inode_slots intro: exI [of _ 0])
  from half_refresh_plink_exact [OF f o, of False "\<lambda>_ _ _ pos k. (0, pos, k)" 1] show ?thesis
    by (auto simp: d g s kern0_def)
qed

end
