(* ===== verification/Aufs_Xino_Init.thy ===== *)
theory Aufs_Xino_Init
  imports Aufs_Iinfo Aufs_Whout
begin

text \<open>
  Setting up the inode number tables (second half of xino.c): the file of a branch is
  created beside a base file and unlinked at once, or shared with another branch on
  the same filesystem; the mount option replaces the tables of all branches. The
  superblock's root inode is an argument, and \<open>addr\<close> the address of the aufs
  superblock. Shown: a branch has a table exactly when its setup succeeded, no file
  is leaked or released twice on any path, clearing releases every table, and an
  error while the tables are moved can be lost.
\<close>

section \<open>The operations of a file\<close>

text \<open>The address of \<open>do_sync_read\<close> and of \<open>do_sync_write\<close>.\<close>

definition do_sync_rw :: nat where "do_sync_rw = 0"

definition find_readf :: "kern \<Rightarrow> nat \<Rightarrow> int + nat" where
  "find_readf k h_file =
     (case k_fop k h_file of
        None \<Rightarrow> Inl (- ENOSYS)
      | Some fop \<Rightarrow> (case fop_read fop of Some f \<Rightarrow> Inr f
                   | None \<Rightarrow> if fop_aio_read fop then Inr do_sync_rw else Inl (- ENOSYS)))"

definition find_writef :: "kern \<Rightarrow> nat \<Rightarrow> int + nat" where
  "find_writef k h_file =
     (case k_fop k h_file of
        None \<Rightarrow> Inl (- ENOSYS)
      | Some fop \<Rightarrow> (case fop_write fop of Some f \<Rightarrow> Inr f
                   | None \<Rightarrow> if fop_aio_write fop then Inr do_sync_rw else Inl (- ENOSYS)))"

section \<open>Creating the file\<close>

text \<open>\<open>O_RDWR | O_CREAT | O_EXCL | O_LARGEFILE\<close> and \<open>S_IRUGO | S_IWUGO\<close>.\<close>

definition O_XINO :: "32 word" where "O_XINO = 0x80C2"
definition XINO_MODE :: "32 word" where "XINO_MODE = 0x1B6"

definition xino_create :: "vfs \<Rightarrow> nat \<Rightarrow> byte list \<Rightarrow> kern \<Rightarrow> ((int + nat) \<times> kern) option" where
  "xino_create vf addr fname k =
     (let (r, k) = vf_filp_open vf fname O_XINO XINO_MODE k
      in case r of
           Inl err \<Rightarrow> Some (Inl err, k)
         | Inr file \<Rightarrow>
             do { let d = k_fdentry k file;
                  let hidden_parent = k_dparent k d;
                  let k = dget hidden_parent k;
                  hidden_dir \<leftarrow> k_dinode k hidden_parent;
                  let (err, k) = vf_unlink vf hidden_dir d k;
                  let k = dput (Some hidden_parent) k;
                  if err \<noteq> 0 then Some (Inl err, fput file k)
                  else if addr \<noteq> k_dsb k d then Some (Inr file, k)
                  else Some (Inl (- EINVAL), fput file k) })"

definition is_sb_shared :: "kern \<Rightarrow> aufs_sb \<Rightarrow> int \<Rightarrow> int \<Rightarrow> int option" where
  "is_sb_shared k sb btgt bend =
     do { tgt_sb \<leftarrow> sbr_sb k sb btgt;
          scan_up (\<lambda>i. if btgt = i then Some False else map_option (\<lambda>s. tgt_sb = s) (sbr_sb k sb i))
            0 bend (- 1) }"

text \<open>\<open>dentry_open\<close> takes over the references of the dentry and of the mount.\<close>

definition xino_create2 :: "vfs \<Rightarrow> nat \<Rightarrow> kern \<Rightarrow> ((int + nat) \<times> kern) option" where
  "xino_create2 vf bfile k =
     do { let base = k_fdentry k bfile;
          let parent = k_dparent k base;
          let k = dget parent k;
          dir \<leftarrow> k_dinode k parent;
          if au_is_nfs k (k_dsb k parent) then Some (Inl (- EINVAL), dput (Some parent) k)
          else let (r, k) = lkup_one vf (k_dname k base) parent k
               in case r of
                    Inl err \<Rightarrow> Some (Inl err, dput (Some parent) k)
                  | Inr dentry \<Rightarrow>
                      let (err, k) = vf_create vf dir dentry XINO_MODE k
                      in if err \<noteq> 0 then Some (Inl err, dput (Some parent) (dput (Some dentry) k))
                         else let mnt = k_fmnt k bfile;
                                  (r, k) = vf_dentry_open vf dentry mnt O_XINO (mntget mnt (dget dentry k))
                              in case r of
                                   Inl err \<Rightarrow> Some (Inl err, dput (Some parent) (dput (Some dentry) k))
                                 | Inr file \<Rightarrow>
                                     let (err, k) = vf_unlink vf dir dentry k;
                                         (r, k) = (if err = 0 then (Inr file, k) else (Inl err, fput file k))
                                     in Some (r, dput (Some parent) (dput (Some dentry) k)) }"

section \<open>Setting up the table of a branch\<close>

definition set_br_xino :: "nat \<Rightarrow> nat option \<Rightarrow> aufs_sb \<Rightarrow> aufs_sb" where
  "set_br_xino a f = upd_br a (br_xino_update (\<lambda>_. f))"

definition set_br_rw :: "nat \<Rightarrow> nat \<Rightarrow> nat \<Rightarrow> aufs_sb \<Rightarrow> aufs_sb" where
  "set_br_rw a r w = upd_br a (\<lambda>b. b\<lparr>br_xino_read := r, br_xino_write := w\<rparr>)"

text \<open>
  The file operations of the hidden filesystems: those of the table by the address of
  the function, and those \<open>au_copy_file\<close> uses.
\<close>

record xino_env =
  xe_aufsd :: bool
  xe_write :: "nat \<Rightarrow> writef"
  xe_vread :: readf
  xe_vwrite :: writef
  xe_seek :: seekf
  xe_trunc :: truncf

text \<open>The file for the table: the one of a branch on the same filesystem, or a new one.\<close>

definition xino_file ::
    "vfs \<Rightarrow> aufs_sb \<Rightarrow> int \<Rightarrow> nat option \<Rightarrow> bool \<Rightarrow> kern \<Rightarrow> ((int + nat) \<times> kern) option" where
  "xino_file vf sb bindex bfile do_test k =
     do { let bend = sbend sb;
          bshared \<leftarrow> (if do_test then is_sb_shared k sb bindex bend else Some (- 1));
          shared \<leftarrow> (if 0 \<le> bshared then map_option (\<lambda>br. br_xino (s_br sb br)) (stobr sb bshared)
                     else Some None);
          case shared of
            Some file \<Rightarrow> Some (Inr file, get_file file k)
          | None \<Rightarrow>
              do { bfile \<leftarrow> bfile;
                   let parent = k_dparent k (k_fdentry k bfile);
                   let k = dget parent k;
                   _ \<leftarrow> k_dinode k parent;
                   (r, k) \<leftarrow> xino_create2 vf bfile k;
                   Some (r, dput (Some parent) k) } }"

text \<open>
  The code stores an error pointer in \<open>br_xino_read\<close> or \<open>br_xino_write\<close> when the
  operation is missing; the model leaves the fields, which are not used without a table.
\<close>

definition xino_init ::
    "xino_env \<Rightarrow> vfs \<Rightarrow> aufs_inode \<Rightarrow> int \<Rightarrow> nat option \<Rightarrow> bool \<Rightarrow> aufs_sb \<Rightarrow> kern
       \<Rightarrow> (int \<times> aufs_sb \<times> kern) option" where
  "xino_init env vf root_inode bindex bfile do_test sb k =
     do { _ \<leftarrow> debug_on (au_flag_test sb AuFlag_XINO = 0);
          br \<leftarrow> stobr sb bindex;
          _ \<leftarrow> debug_on (br_xino (s_br sb br) \<noteq> None);
          (r, k) \<leftarrow> xino_file vf sb bindex bfile do_test k;
          case r of
            Inl err \<Rightarrow> Some (err, sb, k)
          | Inr file \<Rightarrow>
              (case find_readf k file of
                 Inl err \<Rightarrow> Some (err, sb, fput file k)
               | Inr rd \<Rightarrow>
                   (case find_writef k file of
                      Inl err \<Rightarrow> Some (err, sb, fput file k)
                    | Inr wr \<Rightarrow>
                        do { let sb = set_br_xino br (Some file) (set_br_rw br rd wr sb);
                             h \<leftarrow> au_h_iptr_i k root_inode bindex; hidden_inode \<leftarrow> h;
                             (err, k) \<leftarrow> xino_write (xe_aufsd env) (xe_write env) sb bindex
                               (k_iino k hidden_inode) (i_ino root_inode) k;
                             if err = 0 then Some (0, sb, k)
                             else Some (err, set_br_xino br None sb, fput file k) })) }"

section \<open>The mount option\<close>

text \<open>First the tables that are shared are dropped, from the last branch to the first.\<close>

definition drop_shared :: "int \<Rightarrow> int \<Rightarrow> aufs_sb \<times> kern \<Rightarrow> (bool \<times> aufs_sb \<times> kern) option" where
  "drop_shared bend j = (\<lambda>(sb, k).
     do { br \<leftarrow> stobr sb (bend - j);
          case br_xino (s_br sb br) of
            Some f \<Rightarrow> if 1 < k_fcount k f then Some (True, set_br_xino br None sb, fput f k)
                      else Some (True, sb, k)
          | None \<Rightarrow> Some (True, sb, k) })"

text \<open>Then the remaining ones are copied to the new place; an error ends the loop.\<close>

definition move_xino ::
    "xino_env \<Rightarrow> vfs \<Rightarrow> nat \<Rightarrow> int \<Rightarrow> int \<times> aufs_sb \<times> kern \<Rightarrow> (bool \<times> int \<times> aufs_sb \<times> kern) option" where
  "move_xino env vf xfile bindex = (\<lambda>(err, sb, k).
     do { br \<leftarrow> stobr sb bindex;
          case br_xino (s_br sb br) of
            None \<Rightarrow> Some (True, err, sb, k)
          | Some f \<Rightarrow>
              do { _ \<leftarrow> debug_on (k_fcount k f \<noteq> 1);
                   (r, k) \<leftarrow> xino_create2 vf xfile k;
                   case r of
                     Inl err \<Rightarrow> Some (False, err, sb, k)
                   | Inr file \<Rightarrow>
                       do { (err, _, k) \<leftarrow> au_copy_file (xe_vread env) (xe_vwrite env) (xe_seek env)
                              (xe_trunc env) file f (i_size_read k f) False k;
                            if err \<noteq> 0 then Some (False, err, sb, fput file k)
                            else do { rd \<leftarrow> (case find_readf k file of Inl _ \<Rightarrow> None | Inr a \<Rightarrow> Some a);
                                      wr \<leftarrow> (case find_writef k file of Inl _ \<Rightarrow> None | Inr a \<Rightarrow> Some a);
                                      Some (True, err, set_br_xino br (Some file) (set_br_rw br rd wr sb),
                                        fput f k) } } } })"

text \<open>Last the branches without a table get one.\<close>

definition fill_xino ::
    "xino_env \<Rightarrow> vfs \<Rightarrow> aufs_inode \<Rightarrow> nat \<Rightarrow> int \<Rightarrow> int \<times> aufs_sb \<times> kern
       \<Rightarrow> (bool \<times> int \<times> aufs_sb \<times> kern) option" where
  "fill_xino env vf root_inode xfile bindex = (\<lambda>(err, sb, k).
     do { br \<leftarrow> stobr sb bindex;
          if br_xino (s_br sb br) \<noteq> None then Some (True, err, sb, k)
          else do { (err, sb, k) \<leftarrow> xino_init env vf root_inode bindex (Some xfile) True sb k;
                    if err = 0 then Some (True, err, sb, k) else Some (False, - EIO, sb, k) } })"

text \<open>\<open>xfile\<close> is the new file of the option. Remounting with the file in use changes nothing.\<close>

definition xino_set ::
    "xino_env \<Rightarrow> vfs \<Rightarrow> aufs_inode \<Rightarrow> nat \<Rightarrow> bool \<Rightarrow> aufs_sb \<Rightarrow> kern \<Rightarrow> (int \<times> aufs_sb \<times> kern) option" where
  "xino_set env vf root_inode xfile remount sb k =
     do { let d = k_fdentry k xfile;
          let parent = k_dparent k d;
          let k = dget parent k;
          _ \<leftarrow> k_dinode k parent;
          br0 \<leftarrow> stobr sb 0;
          let same = (case br_xino (s_br sb br0) of None \<Rightarrow> False
                      | Some cur \<Rightarrow> k_dparent k (k_fdentry k cur) = parent
                          \<and> k_dname k d = k_dname k (k_fdentry k cur));
          (err, sb, k) \<leftarrow>
            (if remount \<and> same then Some (0, sb, k)
             else do { let sb = au_flag_set AuFlag_XINO sb;
                       let bend = sbend sb;
                       (sb, k) \<leftarrow> for_up (drop_shared bend) 0 bend (sb, k);
                       (err, sb, k) \<leftarrow> for_up (move_xino env vf xfile) 0 bend (0, sb, k);
                       for_up (fill_xino env vf root_inode xfile) 0 bend (err, sb, k) });
          let k = dput (Some parent) k;
          Some (err, if err = 0 then au_flag_set AuFlag_XINO sb else au_flag_clr AuFlag_XINO sb, k) }"

definition clr_round :: "int \<Rightarrow> aufs_sb \<times> kern \<Rightarrow> (bool \<times> aufs_sb \<times> kern) option" where
  "clr_round bindex = (\<lambda>(sb, k).
     do { br \<leftarrow> stobr sb bindex;
          case br_xino (s_br sb br) of
            None \<Rightarrow> Some (True, sb, k)
          | Some f \<Rightarrow> Some (True, set_br_xino br None sb, fput f k) })"

definition xino_clr :: "aufs_sb \<Rightarrow> kern \<Rightarrow> (int \<times> aufs_sb \<times> kern) option" where
  "xino_clr sb k =
     do { (sb, k) \<leftarrow> for_up clr_round 0 (sbend sb) (sb, k);
          Some (0, au_flag_clr AuFlag_XINO sb, k) }"

text \<open>The name \<open>.aufs.xino\<close>, and the path \<open>/tmp/.aufs.xino\<close> when no branch is fit.\<close>

definition AUFS_XINO_FNAME :: "byte list" where
  "AUFS_XINO_FNAME = [46, 97, 117, 102, 115, 46, 120, 105, 110, 111]"

definition AUFS_XINO_DEFPATH :: "byte list" where
  "AUFS_XINO_DEFPATH = [47, 116, 109, 112, 47] @ AUFS_XINO_FNAME"

definition xino_def :: "vfs \<Rightarrow> nat \<Rightarrow> aufs_dentry \<Rightarrow> aufs_sb \<Rightarrow> kern \<Rightarrow> ((int + nat) \<times> kern) option" where
  "xino_def vf addr root sb k =
     do { bwr \<leftarrow> scan_up (\<lambda>i. do { p \<leftarrow> sbr_perm sb i;
                                  if \<not> br_writable p then Some False
                                  else do { h \<leftarrow> au_h_dptr_i k root i; h \<leftarrow> h;
                                            Some (\<not> au_is_nfs k (k_dsb k h)) } })
                  0 (sbend sb) (- 1);
          if bwr \<noteq> - 1
          then let (ok, k) = kmalloc k
               in if \<not> ok then Some (Inl (- ENOMEM), k)
                  else do { h \<leftarrow> au_h_dptr_i k root bwr; h \<leftarrow> h;
                            mnt \<leftarrow> sbr_mnt sb bwr;
                            (r, k) \<leftarrow>
                              (case vf_d_path vf h mnt (PATH_MAX - (length AUFS_XINO_FNAME + 1)) k of
                                 Inl err \<Rightarrow> Some (Inl err, k)
                               | Inr p \<Rightarrow> xino_create vf addr (p @ [47] @ AUFS_XINO_FNAME) k);
                            Some (r, kfree k) }
          else xino_create vf addr AUFS_XINO_DEFPATH k }"

section \<open>References of files\<close>

text \<open>
  What the bookkeeping relies on: only opening changes the count of a file, by one; an
  error is not zero.
\<close>

definition file_res :: "kern \<Rightarrow> int + nat \<Rightarrow> kern \<Rightarrow> bool" where
  "file_res k r k' \<longleftrightarrow> (case r of Inl e \<Rightarrow> e \<noteq> 0 \<and> k_fcount k' = k_fcount k
     | Inr f \<Rightarrow> k_fcount k' = (k_fcount k)(f := k_fcount k f + 1))"

definition open_env :: "vfs \<Rightarrow> bool" where
  "open_env vf \<longleftrightarrow>
     (\<forall>n d k. k_fcount (snd (vf_lookup vf n d k)) = k_fcount k \<and> fst (vf_lookup vf n d k) \<noteq> Inl 0)
     \<and> (\<forall>dir d m k. k_fcount (snd (vf_create vf dir d m k)) = k_fcount k)
     \<and> (\<forall>dir d k. k_fcount (snd (vf_unlink vf dir d k)) = k_fcount k)
     \<and> (\<forall>d m fl k. file_res k (fst (vf_dentry_open vf d m fl k)) (snd (vf_dentry_open vf d m fl k)))"

definition count_env :: "xino_env \<Rightarrow> bool" where
  "count_env env \<longleftrightarrow> (\<forall>a f bs pos k. k_fcount (snd (snd (xe_write env a f bs pos k))) = k_fcount k)"

lemma open_env_D:
  assumes "open_env vf"
  shows "vf_lookup vf n d k = (r, k') \<Longrightarrow> k_fcount k' = k_fcount k \<and> r \<noteq> Inl 0"
    and "vf_create vf dir d m k = (e, k') \<Longrightarrow> k_fcount k' = k_fcount k"
    and "vf_unlink vf dir d k = (e, k') \<Longrightarrow> k_fcount k' = k_fcount k"
    and "vf_dentry_open vf d mt fl k = (r, k') \<Longrightarrow> file_res k r k'"
  using assms unfolding open_env_def by (metis fst_conv snd_conv)+

lemma fput_fcount: "k_fcount (fput f k) x = k_fcount k x - (if x = f then 1 else 0)"
  and get_file_fcount: "k_fcount (get_file f k) x = k_fcount k x + (if x = f then 1 else 0)"
  and dget_fcount [simp]: "k_fcount (dget d k) = k_fcount k"
  and mntget_fcount [simp]: "k_fcount (mntget m k) = k_fcount k"
  by (simp_all add: ref_defs)

lemma file_res_cong [simp]:
  "file_res (dget d k) r k' = file_res k r k'" "file_res k r (dput p k') = file_res k r k'"
  by (simp_all add: file_res_def split: sum.split)

lemma xino_create2_fcount:
  assumes o: "open_env vf" and r: "xino_create2 vf b k = Some (r, k')"
  shows "file_res k r k'"
proof -
  let ?p = "k_dparent k (k_fdentry k b)"
  let ?k = "dget ?p k"
  from r obtain dir where dir: "k_dinode k ?p = Some dir" by (auto simp: xino_create2_def run_simps Let_def)
  show ?thesis
  proof (cases "au_is_nfs ?k (k_dsb ?k ?p)")
    case True
    with r dir show ?thesis by (auto simp: xino_create2_def file_res_def)
  next
    case nfs: False
    obtain r1 k1 where l: "vf_lookup vf (k_dname ?k (k_fdentry k b)) ?p ?k = (r1, k1)" by fastforce
    note l' = open_env_D(1) [OF o l]
    show ?thesis
    proof (cases r1)
      case (Inl e)
      with r dir nfs l l' show ?thesis by (auto simp: xino_create2_def file_res_def lkup_one_def)
    next
      case (Inr d)
      obtain e2 k2 where c: "vf_create vf dir d XINO_MODE k1 = (e2, k2)" by fastforce
      note c' = open_env_D(2) [OF o c]
      show ?thesis
      proof (cases "e2 = 0")
        case False
        with r dir nfs l l' Inr c c' show ?thesis by (auto simp: xino_create2_def file_res_def lkup_one_def)
      next
        case True
        let ?m = "k_fmnt k2 b"
        let ?k2 = "mntget ?m (dget d k2)"
        obtain r3 k3 where op: "vf_dentry_open vf d ?m O_XINO ?k2 = (r3, k3)" by fastforce
        note op' = open_env_D(4) [OF o op]
        show ?thesis
        proof (cases r3)
          case (Inl e)
          with r dir nfs l l' \<open>r1 = Inr d\<close> c c' True op op' show ?thesis
            by (auto simp: xino_create2_def file_res_def lkup_one_def)
        next
          case (Inr f)
          obtain e4 k4 where u: "vf_unlink vf dir d k3 = (e4, k4)" by fastforce
          note u' = open_env_D(3) [OF o u]
          from r dir nfs l l' \<open>r1 = Inr d\<close> c c' True op op' Inr u u' show ?thesis
            by (cases "e4 = 0") (auto simp: xino_create2_def file_res_def lkup_one_def fput_fcount fun_eq_iff)
        qed
      qed
    qed
  qed
qed

lemma do_xino_fwrite_fcount:
  assumes f: "\<And>f bs pos k. k_fcount (snd (snd (func f bs pos k))) = k_fcount k"
    and r: "do_xino_fwrite func fh buf pos k = Some r"
  shows "k_fcount (snd (snd r)) = k_fcount k"
proof -
  have "(\<forall>f bs pos k. k_fcount (snd (snd (func f bs pos k))) = k_fcount k)
      \<longrightarrow> k_fcount (snd (snd r)) = k_fcount k"
  proof (rule do_xino_fwrite.raw_induct
      [where P = "\<lambda>func fh buf pos k r. (\<forall>f bs pos k. k_fcount (snd (snd (func f bs pos k))) = k_fcount k)
         \<longrightarrow> k_fcount (snd (snd r)) = k_fcount k", OF _ r])
    fix rec func fh buf pos k r
    assume IH: "\<And>func fh buf pos k r. rec func fh buf pos k = Some r \<Longrightarrow>
        (\<forall>f bs pos k. k_fcount (snd (snd (func f bs pos k))) = k_fcount k) \<longrightarrow> k_fcount (snd (snd r)) = k_fcount k"
      and r: "(let (err, pos, k) = func fh buf pos k
         in if err = - EAGAIN \<or> err = - EINTR then rec func fh buf pos k else Some (err, pos, k)) = Some r"
    obtain e p1 k1 where w: "func fh buf pos k = (e, p1, k1)" by (cases "func fh buf pos k")
    show "(\<forall>f bs pos k. k_fcount (snd (snd (func f bs pos k))) = k_fcount k) \<longrightarrow> k_fcount (snd (snd r)) = k_fcount k"
    proof
      assume f: "\<forall>f bs pos k. k_fcount (snd (snd (func f bs pos k))) = k_fcount k"
      then have "k_fcount k1 = k_fcount k" using w by (metis snd_conv)
      with IH [of func fh buf p1 k1 r] f r w show "k_fcount (snd (snd r)) = k_fcount k" by (auto split: if_splits)
    qed
  qed
  with f show ?thesis by blast
qed

lemma xino_write_fcount:
  assumes "count_env env" and "xino_write d (xe_write env) sb b h i k = Some (e, k')"
  shows "k_fcount k' = k_fcount k"
proof (cases "au_flag_test sb AuFlag_XINO = 0")
  case True
  with assms(2) show ?thesis by (simp add: xino_write_def)
next
  case False
  with assms(2) obtain br f where b: "sbr sb b = Some br" "br_xino br = Some f"
    by (auto simp: xino_write_def run_simps)
  then obtain q where q: "do_xino_fwrite (xe_write env (br_xino_write br)) f (le_store i) (xino_pos h) k = Some q"
    using assms(2) False by (auto simp: xino_write_def run_simps xino_fwrite_def au_wkq_wait_def split: if_splits)
  then have "k' = snd (snd q)" using assms(2) False b
    by (cases q) (auto simp: xino_write_def xino_fwrite_def au_wkq_wait_def split: if_splits)
  with do_xino_fwrite_fcount [OF _ q] assms(1) show ?thesis by (simp add: count_env_def)
qed

lemma set_br_xino_simps [simp]:
  "br_xino (s_br (set_br_xino a f sb) b) = (if b = a then f else br_xino (s_br sb b))"
  "br_xino (s_br (set_br_rw a r w sb) b) = br_xino (s_br sb b)"
  "stobr (set_br_xino a f sb) i = stobr sb i" "stobr (set_br_rw a r w sb) i = stobr sb i"
  "sbend (set_br_xino a f sb) = sbend sb" "sbend (set_br_rw a r w sb) = sbend sb"
  "au_flag_test (set_br_xino a f sb) fl = au_flag_test sb fl"
  "au_flag_test (set_br_rw a r w sb) fl = au_flag_test sb fl"
  by (simp_all add: set_br_xino_def set_br_rw_def upd_br_def stobr_def sbend_def au_flag_test_def)

lemma xino_file_fcount:
  assumes o: "open_env vf" and r: "xino_file vf sb bindex b t k = Some (r, k')"
  shows "file_res k r k'"
proof -
  from r obtain bs sh where bs: "(if t then is_sb_shared k sb bindex (sbend sb) else Some (- 1)) = Some bs"
    and sh: "(if 0 \<le> bs then map_option (\<lambda>br. br_xino (s_br sb br)) (stobr sb bs) else Some None) = Some sh"
    by (auto simp: xino_file_def run_simps Let_def)
  show ?thesis
  proof (cases sh)
    case (Some f)
    with r bs sh show ?thesis
      by (auto simp: xino_file_def file_res_def get_file_fcount fun_eq_iff split: if_splits)
  next
    case None
    with r bs sh obtain c where c: "b = Some c"
      by (auto simp: xino_file_def run_simps split: if_splits)
    let ?k = "dget (k_dparent k (k_fdentry k c)) k"
    from None r bs sh c obtain k1 where "xino_create2 vf c ?k = Some (r, k1)"
      "k' = dput (Some (k_dparent k (k_fdentry k c))) k1"
      by (auto simp: xino_file_def run_simps Let_def split: if_splits)
    with xino_create2_fcount [OF o, of c ?k r k1] show ?thesis by simp
  qed
qed

text \<open>C24.
  Setting up the table of a branch gives the branch a table exactly when it succeeds,
  and whether the file is shared, created, refused for missing operations or dropped
  because its first entry cannot be written, no file is leaked or released twice:
  the only reference kept is the one of the branch.
\<close>

theorem xino_init_balanced:
  assumes o: "open_env vf" and c: "count_env env" and b: "stobr sb bindex = Some br"
    and r: "xino_init env vf root_inode bindex bfile do_test sb k = Some (err, sb', k')"
  shows "(err = 0 \<longleftrightarrow> br_xino (s_br sb' br) \<noteq> None)
    \<and> (\<forall>f. k_fcount k' f = k_fcount k f + (if br_xino (s_br sb' br) = Some f then 1 else 0))"
proof -
  from r b obtain res k1 where fl: "au_flag_test sb AuFlag_XINO \<noteq> 0" and n: "br_xino (s_br sb br) = None"
    and f: "xino_file vf sb bindex bfile do_test k = Some (res, k1)"
    by (auto simp: xino_init_def run_simps split: if_splits)
  note f' = xino_file_fcount [OF o f]
  show ?thesis
  proof (cases res)
    case (Inl e)
    with r b fl n f f' show ?thesis by (auto simp: xino_init_def file_res_def)
  next
    case (Inr fh)
    with f' have c1: "k_fcount k1 = (k_fcount k)(fh := k_fcount k fh + 1)" by (simp add: file_res_def)
    show ?thesis
    proof (cases "find_readf k1 fh")
      case (Inl e)
      moreover have "e \<noteq> 0" using Inl by (auto simp: find_readf_def split: option.splits if_splits)
      ultimately show ?thesis using r b fl n f \<open>res = Inr fh\<close> c1 by (auto simp: xino_init_def fput_fcount)
    next
      case rd: (Inr rd)
      show ?thesis
      proof (cases "find_writef k1 fh")
        case (Inl e)
        moreover have "e \<noteq> 0" using Inl by (auto simp: find_writef_def split: option.splits if_splits)
        ultimately show ?thesis using r b fl n f \<open>res = Inr fh\<close> c1 rd by (auto simp: xino_init_def fput_fcount)
      next
        case (Inr wr)
        let ?sb = "set_br_xino br (Some fh) (set_br_rw br rd wr sb)"
        from r b fl n f \<open>res = Inr fh\<close> rd Inr obtain h e k2 where
          w: "xino_write (xe_aufsd env) (xe_write env) ?sb bindex (k_iino k1 h) (i_ino root_inode) k1 = Some (e, k2)"
          and res: "(err, sb', k') = (if e = 0 then (0, ?sb, k2) else (e, set_br_xino br None ?sb, fput fh k2))"
          by (auto simp: xino_init_def run_simps Let_def split: if_splits)
        from xino_write_fcount [OF c w] res c1 show ?thesis
          by (cases "e = 0") (auto simp: fput_fcount)
      qed
    qed
  qed
qed

text \<open>Hidden filesystems whose files take every write, and whose opened files are counted.\<close>

definition env_w :: xino_env where
  "env_w = \<lparr>xe_aufsd = False, xe_write = (\<lambda>_ _ bs pos k. (int (length bs), pos, k)),
     xe_vread = (\<lambda>_ n pos k. (0, [], pos, k)), xe_vwrite = (\<lambda>_ bs pos k. (int (length bs), pos, k)),
     xe_seek = (\<lambda>_ n k. (int n, k)), xe_trunc = (\<lambda>_ _ k. (0, k))\<rparr>"

definition vfs_open :: vfs where
  "vfs_open = vfs0\<lparr>vf_dentry_open := (\<lambda>d _ _ k. (Inr d, k\<lparr>k_fcount := (k_fcount k)(d := k_fcount k d + 1)\<rparr>))\<rparr>"

lemma env_w_ok: "open_env vfs_open" "count_env env_w"
  by (simp_all add: open_env_def count_env_def vfs_open_def vfs0_def env_w_def file_res_def dget_def)

lemma xino_write_env_w:
  "sbr sb b = Some br \<Longrightarrow> br_xino br = Some f \<Longrightarrow> xino_write (xe_aufsd env_w) (xe_write env_w) sb b h i k = Some (0, k)"
  by (simp add: xino_write_def env_w_def xino_fwrite_def au_wkq_wait_def do_xino_fwrite.simps le_store_def xino_size_def)

theorem xino_init_balanced_witness:
  "\<exists>sb' k'. xino_init env_w vfs_open inode0 1 (Some 60) True (sb0 2) kern0 = Some (0, sb', k')
     \<and> br_xino (s_br sb' 1) = Some 60000 \<and> k_fcount k' 60000 = 2 \<and> k_fcount k' 60 = 1"
proof -
  have b: "stobr (sb0 2) 1 = Some 1" "sbr (sb0 2) 0 = Some (s_br (sb0 2) 0)" "sbr (sb0 2) 1 = Some (s_br (sb0 2) 1)"
    by (simp_all add: stobr_def sbr_def sb0_def sbend_def aget_def)
  have k0: "k_fdentry kern0 = (\<lambda>f. f)" "k_dparent kern0 = (\<lambda>d. d)" "k_dinode kern0 = Some" "k_fmnt kern0 = (\<lambda>_. 0)"
    "k_stype kern0 = (\<lambda>_. [])" "k_dsb kern0 = (\<lambda>_. 0)" "k_fcount kern0 = (\<lambda>_. 1)" "k_dname kern0 = (\<lambda>_. [])"
    "k_iino kern0 = of_nat" "k_dcount kern0 = (\<lambda>_. 1)" "k_mcount kern0 = (\<lambda>_. 1)" "k_icount kern0 = (\<lambda>_. 1)"
    "k_fop kern0 = (\<lambda>_. Some \<lparr>fop_read = Some 1, fop_aio_read = True, fop_write = Some 1, fop_aio_write = True\<rparr>)"
    by (simp_all add: kern0_def)
  have sh: "is_sb_shared kern0 (sb0 2) 1 1 = Some 0"
    by (simp add: is_sb_shared_def sbr_sb_def sbr_mnt_def b scan_up.simps kern0_def)
  have b0: "stobr (sb0 2) 0 = Some 0" "br_xino (s_br (sb0 2) i) = None" for i
    by (simp_all add: stobr_def sb0_def sbend_def aget_def)
  have f: "au_flag_test (sb0 2) AuFlag_XINO \<noteq> 0" by (simp add: au_flag_test_def sb0_def flag_defs)
  obtain sb' k' where r: "xino_init env_w vfs_open inode0 1 (Some 60) True (sb0 2) kern0 = Some (0, sb', k')"
    and x: "br_xino (s_br sb' 1) = Some 60000"
  proof -
    let ?sb = "set_br_xino (Suc 0) (Some 60000) (set_br_rw (Suc 0) (Suc 0) (Suc 0) (sb0 2))"
    have "sbr ?sb 1 = Some (s_br ?sb 1)" using b(1) by (simp add: sbr_def)
    then have w: "xino_write (xe_aufsd env_w) (xe_write env_w) ?sb 1 h i k = Some (0, k)" for h i k
      by (rule xino_write_env_w) simp
    show ?thesis
      by (rule that [of ?sb], simp add: xino_init_def xino_file_def f b b0 sh k0 xino_create2_def dget_def
          mntget_def dput_def au_is_nfs_def lkup_one_def vfs_open_def vfs0_def child0_def find_readf_def find_writef_def
          au_h_iptr_i_def inode0_def ibend_def hinode_at_def ii_of_def itoii_def w Let_def) simp
  qed
  from xino_init_balanced [OF env_w_ok b(1) r] x r show ?thesis by (auto simp: kern0_def)
qed

section \<open>Clearing the tables\<close>

lemma au_flag_clr_br: "s_br (au_flag_clr f sb) = s_br sb"
  by (simp add: au_flag_clr_def)

definition br_addrs :: "aufs_sb \<Rightarrow> nat list" where
  "br_addrs sb = map the (take (nat (si_bend sb + 1)) (si_branch sb))"

lemma stobr_addrs:
  assumes "sb_ok sb" "0 \<le> i" "i \<le> si_bend sb"
  shows "stobr sb i = Some (br_addrs sb ! nat i)" and "nat i < length (br_addrs sb)"
  using assms by (auto simp: br_addrs_def sb_ok_def stobr_def sbend_def)

lemma clr_prefix:
  assumes ok: "sb_ok sb" and d: "distinct (br_addrs sb)"
  shows "\<exists>sb' k'. for_up clr_round 0 (sbend sb) (sb, k) = Some (sb', k')
     \<and> (\<forall>a. br_xino (s_br sb' a) = (if a \<in> set (br_addrs sb) then None else br_xino (s_br sb a)))
     \<and> (\<forall>f. k_fcount k' f = k_fcount k f - int (length (filter (\<lambda>a. br_xino (s_br sb a) = Some f) (br_addrs sb))))"
proof -
  let ?A = "br_addrs sb" and ?e = "sbend sb"
  define I where "I = (\<lambda>(i::int) (sb' :: aufs_sb, k' :: kern). stobr sb' = stobr sb
     \<and> (\<forall>a. br_xino (s_br sb' a) = (if a \<in> set (take (nat i) ?A) then None else br_xino (s_br sb a)))
     \<and> (\<forall>f. k_fcount k' f = k_fcount k f - int (length (filter (\<lambda>a. br_xino (s_br sb a) = Some f) (take (nat i) ?A)))))"
  have "\<exists>t. for_up clr_round 0 ?e (sb, k) = Some t \<and> I (?e + 1) t"
  proof (rule for_up_total)
    show "I 0 (sb, k)" by (simp add: I_def)
    show "0 \<le> ?e + 1" using ok by (simp add: sb_ok_def sbend_def)
    fix i t assume i: "0 \<le> i" "i \<le> ?e" and inv: "I i t"
    obtain sb' k' where t: "t = (sb', k')" by (cases t)
    note sa = stobr_addrs [OF ok i(1) i(2) [unfolded sbend_def]]
    have tk: "take (nat (i + 1)) ?A = take (nat i) ?A @ [?A ! nat i]"
      using sa(2) i(1) by (simp add: nat_add_distrib take_Suc_conv_app_nth)
    have nin: "?A ! nat i \<notin> set (take (nat i) ?A)"
      using d sa(2) by (auto simp: in_set_conv_nth nth_eq_iff_index_eq)
    have st: "stobr sb' i = Some (?A ! nat i)" and x: "br_xino (s_br sb' (?A ! nat i)) = br_xino (s_br sb (?A ! nat i))"
      using inv sa(1) nin by (auto simp: I_def t)
    show "\<exists>u. clr_round i t = Some (True, u) \<and> I (i + 1) u"
    proof (cases "br_xino (s_br sb (?A ! nat i))")
      case None
      with inv st x have "clr_round i t = Some (True, t) \<and> I (i + 1) t"
        by (auto simp: clr_round_def t I_def tk)
      then show ?thesis by blast
    next
      case (Some f)
      with inv st x have "clr_round i t = Some (True, set_br_xino (?A ! nat i) None sb', fput f k')
          \<and> I (i + 1) (set_br_xino (?A ! nat i) None sb', fput f k')"
        by (auto simp: clr_round_def t I_def tk fput_fcount fun_eq_iff)
      then show ?thesis by blast
    qed
  qed
  then obtain sb' k' where "for_up clr_round 0 ?e (sb, k) = Some (sb', k')" "I (?e + 1) (sb', k')" by auto
  moreover have "take (nat (?e + 1)) ?A = ?A" by (simp add: br_addrs_def sbend_def)
  ultimately show ?thesis by (auto simp: I_def)
qed

text \<open>
  Turning the inode number tables off leaves no branch with a table and the flag
  cleared, and gives back one reference of a file for every branch that used it.
\<close>

theorem xino_clr_releases_all:
  assumes "sb_ok sb" and "distinct (br_addrs sb)"
  shows "\<exists>sb' k'. xino_clr sb k = Some (0, sb', k') \<and> au_flag_test sb' AuFlag_XINO = 0
    \<and> (\<forall>a \<in> set (br_addrs sb). br_xino (s_br sb' a) = None)
    \<and> (\<forall>f. k_fcount k' f = k_fcount k f - int (length (filter (\<lambda>a. br_xino (s_br sb a) = Some f) (br_addrs sb))))"
  using clr_prefix [OF assms, of k] by (fastforce simp: xino_clr_def au_flag_clr_br)

theorem xino_clr_releases_all_witness:
  "\<exists>sb' k'. xino_clr (set_br_xino 0 (Some 9) (set_br_xino 1 (Some 9) (sb0 2))) kern0 = Some (0, sb', k')
     \<and> br_xino (s_br sb' 1) = None \<and> k_fcount k' 9 = - 1"
proof -
  let ?sb = "set_br_xino 0 (Some 9) (set_br_xino 1 (Some 9) (sb0 2))"
  have a: "br_addrs ?sb = [0, 1]"
    by (simp add: br_addrs_def set_br_xino_def upd_br_def sb0_def numeral_2_eq_2)
  have ok: "sb_ok ?sb" using sb0_ok [of 2] by (simp add: sb_ok_def set_br_xino_def upd_br_def sb0_def)
  have d: "distinct (br_addrs ?sb)" unfolding a by simp
  from xino_clr_releases_all [OF ok d, of kern0] 
  obtain sb' k' where r: "xino_clr ?sb kern0 = Some (0, sb', k')" and x: "\<forall>a \<in> {0, 1}. br_xino (s_br sb' a) = None"
    and f: "k_fcount k' 9 = k_fcount kern0 9 - int (length (filter (\<lambda>a. br_xino (s_br ?sb a) = Some 9) [0, 1]))"
    unfolding a by auto
  have "k_fcount kern0 9 = 1" by (simp add: kern0_def)
  with r x f show ?thesis by auto
qed

section \<open>A lost error\<close>

text \<open>Dropping the shared tables changes counts only, and leaves a file that is not shared.\<close>

lemma drop_shared_inv:
  assumes "for_up (drop_shared bend) 0 bend (sb, k) = Some (sb1, k1)" and "- 1 \<le> bend"
    and "br_xino (s_br sb a) = Some f" "k_fcount k f = 1"
  shows "stobr sb1 = stobr sb \<and> sbend sb1 = sbend sb \<and> (\<exists>fc. k1 = k\<lparr>k_fcount := fc\<rparr>)
     \<and> br_xino (s_br sb1 a) = Some f \<and> k_fcount k1 f = 1
     \<and> (\<forall>c. br_xino (s_br sb c) = None \<longrightarrow> br_xino (s_br sb1 c) = None)"
proof -
  define I where "I = (\<lambda>(sb' :: aufs_sb, k' :: kern). stobr sb' = stobr sb \<and> sbend sb' = sbend sb
     \<and> (\<exists>fc. k' = k\<lparr>k_fcount := fc\<rparr>) \<and> br_xino (s_br sb' a) = Some f \<and> k_fcount k' f = 1
     \<and> (\<forall>c. br_xino (s_br sb c) = None \<longrightarrow> br_xino (s_br sb' c) = None))"
  have "(\<lambda>s. I s) (sb1, k1) \<or> (\<lambda>_. I) (bend + 1) (sb1, k1)"
  proof (rule for_up_inv [OF assms(1)])
    show "I (sb, k)" using assms(3,4) by (auto simp: I_def intro: exI [of _ "k_fcount k"])
    fix j s c u assume s: "I s" "drop_shared bend j s = Some (c, u)"
    obtain sb' k' where p: "s = (sb', k')" by (cases s)
    from s(2) obtain br where br: "stobr sb' (bend - j) = Some br" by (auto simp: drop_shared_def p run_simps)
    have "I u"
    proof (cases "\<exists>g. br_xino (s_br sb' br) = Some g \<and> 1 < k_fcount k' g")
      case True
      then obtain g where g: "br_xino (s_br sb' br) = Some g" "1 < k_fcount k' g" by blast
      then have u: "u = (set_br_xino br None sb', fput g k')" using s(2) br by (simp add: drop_shared_def p)
      from s(1) g show ?thesis unfolding I_def u p by (auto simp: fput_fcount fput_def)
    next
      case False
      then have "u = s" using s(2) br by (auto simp: drop_shared_def p split: option.splits if_splits)
      with s(1) show ?thesis by simp
    qed
    then show "if c then I u else I u" by simp
  qed (use assms(2) in simp)
  then show ?thesis by (auto simp: I_def)
qed

text \<open>When the new file cannot be made, the first table that has to move ends the loop.\<close>

lemma move_xino_fails:
  assumes "for_up (move_xino env vf xfile) i bend (err, sb, k) = Some (err1, sb1, k1)" and "0 \<le> i" "i \<le> bend + 1"
    and "\<exists>k'. xino_create2 vf xfile k = Some (Inl e, k')"
    and b: "i \<le> b" "b \<le> bend" "stobr sb b = Some a" "br_xino (s_br sb a) \<noteq> None"
  shows "err1 = e \<and> sb1 = sb"
proof -
  have "(\<lambda>(err1, sb1, k1). err1 = e \<and> sb1 = sb) (err1, sb1, k1)
      \<or> (\<lambda>j s. s = (err, sb, k) \<and> j \<le> b) (bend + 1) (err1, sb1, k1)"
  proof (rule for_up_inv [OF assms(1)])
    fix j s c u assume j: "j \<le> bend" "s = (err, sb, k) \<and> j \<le> b" "move_xino env vf xfile j s = Some (c, u)"
    then obtain br where br: "stobr sb j = Some br" by (auto simp: move_xino_def run_simps)
    show "if c then u = (err, sb, k) \<and> j + 1 \<le> b else (case u of (err1, sb1, k1) \<Rightarrow> err1 = e \<and> sb1 = sb)"
    proof (cases "br_xino (s_br sb br)")
      case None
      then have "j \<noteq> b" using b br by auto
      with None br j show ?thesis by (auto simp: move_xino_def)
    next
      case (Some f)
      with br j assms(4) show ?thesis by (auto simp: move_xino_def run_simps split: if_splits)
    qed
  qed (use b assms in simp_all)
  with b show ?thesis by auto
qed

text \<open>The last loop forgets the error it starts with at the first branch without a table.\<close>

lemma xino_init_table:
  assumes r: "xino_init env vf ri i bf t sb k = Some (err, sb', k')" and b: "stobr sb i = Some br"
  shows "stobr sb' = stobr sb \<and> (\<forall>a. a \<noteq> br \<longrightarrow> br_xino (s_br sb' a) = br_xino (s_br sb a))"
proof -
  from r b obtain res k1 where f: "xino_file vf sb i bf t k = Some (res, k1)"
    by (auto simp: xino_init_def run_simps split: if_splits)
  show ?thesis
  proof (cases "\<exists>x rd wr. res = Inr x \<and> find_readf k1 x = Inr rd \<and> find_writef k1 x = Inr wr")
    case True
    then obtain x rd wr where "res = Inr x" "find_readf k1 x = Inr rd" "find_writef k1 x = Inr wr" by blast
    with r b f show ?thesis by (auto simp: xino_init_def run_simps Let_def fun_eq_iff split: if_splits)
  next
    case False
    with r b f have "sb' = sb" by (auto simp: xino_init_def run_simps split: sum.splits if_splits)
    then show ?thesis by simp
  qed
qed

lemma fill_xino_forgets:
  assumes "for_up (fill_xino env vf ri x) 0 bend (err, sb, k) = Some (err1, sb1, k1)"
    and j: "0 \<le> j" "j \<le> bend" "stobr sb j = Some c" "br_xino (s_br sb c) = None"
    and a: "br_xino (s_br sb a) = Some f"
  shows "(err1 = 0 \<or> err1 = - EIO) \<and> br_xino (s_br sb1 a) = Some f"
proof -
  define K where "K = (\<lambda>sb'. stobr sb' = stobr sb \<and> br_xino (s_br sb' a) = Some f)"
  have "(\<lambda>(e, sb', k'). e = - EIO \<and> K sb') (err1, sb1, k1)
      \<or> (\<lambda>i (e, sb', k'). K sb' \<and> (e = 0 \<or> i \<le> j \<and> br_xino (s_br sb' c) = None)) (bend + 1) (err1, sb1, k1)"
  proof (rule for_up_inv [OF assms(1)])
    fix i s d u
    assume x: "fill_xino env vf ri x i s = Some (d, u)"
      and inv: "case s of (e, sb', k') \<Rightarrow> K sb' \<and> (e = 0 \<or> i \<le> j \<and> br_xino (s_br sb' c) = None)"
    obtain e sb' k' where s: "s = (e, sb', k')" by (rule prod_cases3)
    from x obtain br where br: "stobr sb' i = Some br" by (auto simp: fill_xino_def s run_simps)
    show "if d then (case u of (e, sb', k') \<Rightarrow> K sb' \<and> (e = 0 \<or> i + 1 \<le> j \<and> br_xino (s_br sb' c) = None))
         else (case u of (e, sb', k') \<Rightarrow> e = - EIO \<and> K sb')"
    proof (cases "br_xino (s_br sb' br) = None")
      case False
      then have u: "u = s" "d" using x br by (auto simp: fill_xino_def s)
      have "br = c" if "i = j" using that br inv j(3) s by (auto simp: K_def)
      with u False inv s show ?thesis by (cases "i = j") auto
    next
      case True
      with x br obtain e2 sb2 k2 where y: "xino_init env vf ri i (Some x) True sb' k' = Some (e2, sb2, k2)"
        and u: "(d, u) = (if e2 = 0 then (True, e2, sb2, k2) else (False, - EIO, sb2, k2))"
        by (auto simp: fill_xino_def s run_simps split: if_splits)
      have "br \<noteq> a" using True inv s by (auto simp: K_def)
      with xino_init_table [OF y br] inv s have "K sb2" by (auto simp: K_def)
      with u show ?thesis by (auto split: if_splits)
    qed
  qed (use j a in \<open>auto simp: K_def\<close>)
  with j show ?thesis by (auto simp: K_def)
qed

text \<open>C25.
  An error of moving the tables is lost. Let the new file be one that no table can be made beside,
  which fails with \<open>e\<close>, let one branch have a table of its own, which has to move, and another one
  none. Whatever \<open>e\<close> is, \<open>xino_set\<close> returns 0 or the \<open>-EIO\<close> of its last loop, and the table is left
  where it was; when it returns 0 the option is on.
\<close>

theorem xino_set_error_lost:
  assumes run: "xino_set env vf ri xfile False sb k = Some (err, sb', k')"
    and fail: "\<forall>fc dc. \<exists>k'. xino_create2 vf xfile (k\<lparr>k_fcount := fc, k_dcount := dc\<rparr>) = Some (Inl e, k')"
    and b: "0 \<le> b" "b \<le> sbend sb" "stobr sb b = Some a" "br_xino (s_br sb a) = Some f" "k_fcount k f = 1"
    and j: "0 \<le> j" "j \<le> sbend sb" "stobr sb j = Some c" "br_xino (s_br sb c) = None"
  shows "(err = 0 \<or> err = - EIO) \<and> br_xino (s_br sb' a) = Some f
     \<and> (err = 0 \<longleftrightarrow> au_flag_test sb' AuFlag_XINO \<noteq> 0)"
proof -
  let ?sb = "au_flag_set AuFlag_XINO sb" and ?k = "dget (k_dparent k (k_fdentry k xfile)) k"
  have st: "stobr ?sb = stobr sb" "sbend ?sb = sbend sb" "s_br ?sb = s_br sb"
    by (simp_all add: stobr_def sbend_def au_flag_set_def fun_eq_iff)
  from run obtain sb1 k1 err2 sb2 k2 sb3 k3 where
    1: "for_up (drop_shared (sbend sb)) 0 (sbend sb) (?sb, ?k) = Some (sb1, k1)" and
    2: "for_up (move_xino env vf xfile) 0 (sbend sb) (0, sb1, k1) = Some (err2, sb2, k2)" and
    3: "for_up (fill_xino env vf ri xfile) 0 (sbend sb) (err2, sb2, k2) = Some (err, sb3, k3)" and
    s: "sb' = (if err = 0 then au_flag_set AuFlag_XINO sb3 else au_flag_clr AuFlag_XINO sb3)"
    by (auto simp: xino_set_def Let_def run_simps st split: prod.splits)
  have f: "k_fcount ?k f = 1" and e: "- 1 \<le> sbend sb" using b by (simp_all add: dget_def)
  note d = drop_shared_inv [OF 1 e b(4) [folded st(3)] f]
  obtain fc where "k1 = ?k\<lparr>k_fcount := fc\<rparr>" using d by blast
  then have "k1 = k\<lparr>k_fcount := fc, k_dcount := k_dcount ?k\<rparr>" by (simp add: dget_def)
  then have "\<exists>k'. xino_create2 vf xfile k1 = Some (Inl e, k')" using fail by simp
  from move_xino_fails [OF 2 _ _ this b(1,2)] d b st have m: "err2 = e" "sb2 = sb1" by auto
  from fill_xino_forgets [OF 3, of j c a f] m d b j st have
    "err = 0 \<or> err = - EIO" "br_xino (s_br sb3 a) = Some f" by auto
  moreover have "s_br sb' = s_br sb3" using s by (simp add: au_flag_set_def au_flag_clr_def)
  moreover have "AuFlag_XINO \<noteq> 0" by (simp add: flag_defs)
  ultimately show ?thesis using s by auto
qed

text \<open>The new file is asked for in a directory of an nfs filesystem, where it cannot be created.\<close>

definition kern_nfs :: kern where
  "kern_nfs = kern0\<lparr>k_dsb := (\<lambda>d. if d = 60 then 1 else 0), k_stype := (\<lambda>s. if s = 1 then ''nfs'' else [])\<rparr>"

definition sb_one_xino :: aufs_sb where
  "sb_one_xino = set_br_xino 0 (Some 50) (sb0 2)"

lemma kern_nfs_simps:
  "k_fdentry kern_nfs = (\<lambda>f. f)" "k_dparent kern_nfs = (\<lambda>d. d)" "k_dinode kern_nfs = Some"
  "k_dname kern_nfs = (\<lambda>_. [])" "k_fcount kern_nfs = (\<lambda>_. 1)" "k_dcount kern_nfs = (\<lambda>_. 1)"
  "k_icount kern_nfs = (\<lambda>_. 1)" "k_iino kern_nfs = of_nat" "k_msb kern_nfs = (\<lambda>_. 0)"
  "k_dsb kern_nfs = (\<lambda>d. if d = 60 then 1 else 0)" "k_stype kern_nfs = (\<lambda>s. if s = 1 then ''nfs'' else [])"
  "k_fop kern_nfs = (\<lambda>_. Some \<lparr>fop_read = Some 1, fop_aio_read = True, fop_write = Some 1, fop_aio_write = True\<rparr>)"
  by (simp_all add: kern_nfs_def kern0_def)

lemma dget_frame_fop:
  "k_fop (dget d k) = k_fop k" "k_icount (dget d k) = k_icount k" "k_iino (dget d k) = k_iino k"
  by (simp_all add: dget_def)

lemma xino_create2_nfs:
  assumes "k_fdentry k = (\<lambda>f. f)" "k_dparent k = (\<lambda>d. d)" "k_dinode k = Some" "k_stype k (k_dsb k b) = ''nfs''"
  shows "xino_create2 vf b k = Some (Inl (- EINVAL), dput (Some b) (dget b k))"
  using assms by (simp add: xino_create2_def au_is_nfs_def dget_def)

lemma nfs_run: "\<exists>sb' k'. xino_set env_w vfs_open inode0 60 False sb_one_xino kern_nfs = Some (0, sb', k')"
proof -
  let ?k = "dget 60 kern_nfs" and ?sb = "au_flag_set AuFlag_XINO sb_one_xino"
  let ?k1 = "get_file 50 (dput (Some 60) (dget 60 ?k))" and ?sb1 = "set_br_xino 1 (Some 50) (set_br_rw 1 1 1 ?sb)"
  have st: "stobr ?sb 0 = Some 0" "stobr ?sb 1 = Some 1" "sbend ?sb = 1" "stobr sb_one_xino 0 = Some 0"
    by (simp_all add: stobr_def sbend_def sb_one_xino_def sb0_def aget_def set_br_xino_def upd_br_def au_flag_set_def)
  have x: "br_xino (s_br ?sb 0) = Some 50" "br_xino (s_br ?sb 1) = None"
    by (simp_all add: sb_one_xino_def sb0_def au_flag_set_def)
  have c2: "xino_create2 vfs_open 60 ?k = Some (Inl (- EINVAL), dput (Some 60) (dget 60 ?k))"
    by (rule xino_create2_nfs) (simp_all add: kern_nfs_simps dget_def)
  have fc: "k_fcount kern_nfs 50 = 1" by (simp add: kern_nfs_def kern0_def)
  have d: "drop_shared 1 j (?sb, ?k) = Some (True, ?sb, ?k)" if "j = 0 \<or> j = 1" for j
    using that st x fc by (auto simp: drop_shared_def)
  have "for_up (drop_shared 1) 0 1 (?sb, ?k) = Some (?sb, ?k)" by (simp add: for_up_step d)
  moreover have "move_xino env_w vfs_open 60 0 (0, ?sb, ?k)
      = Some (False, - EINVAL, ?sb, dput (Some 60) (dget 60 ?k))"
    by (simp add: move_xino_def st x fc c2)
  then have "for_up (move_xino env_w vfs_open 60) 0 1 (0, ?sb, ?k)
      = Some (- EINVAL, ?sb, dput (Some 60) (dget 60 ?k))" by (simp add: for_up_step)
  moreover have "xino_init env_w vfs_open inode0 1 (Some 60) True ?sb (dput (Some 60) (dget 60 ?k)) = Some (0, ?sb1, ?k1)"
  proof -
    have "stobr ?sb1 1 = Some 1" using st by simp
    then have "sbr ?sb1 1 = Some (s_br ?sb1 1)" by (simp add: sbr_def)
    then have w: "xino_write (xe_aufsd env_w) (xe_write env_w) ?sb1 1 h i k = Some (0, k)" for h i k
      by (rule xino_write_env_w) simp
    have s: "sbr ?sb 0 = Some (s_br ?sb 0)" "sbr ?sb 1 = Some (s_br ?sb 1)"
      using st by (simp_all add: sbr_def)
    have f: "au_flag_test ?sb AuFlag_XINO \<noteq> 0"
      by (simp add: au_flag_test_def au_flag_set_def sb_one_xino_def sb0_def flag_defs set_br_xino_def upd_br_def)
    have sh: "is_sb_shared ?k ?sb 1 1 = Some 0"
      using s by (simp add: is_sb_shared_def sbr_sb_def sbr_mnt_def scan_up.simps kern_nfs_simps dget_def)
    show ?thesis using w st x f sh
      by (simp add: xino_init_def xino_file_def find_readf_def find_writef_def get_file_def kern_nfs_simps
          au_h_iptr_i_def inode0_def ibend_def hinode_at_def ii_of_def itoii_def dget_frame_fop Let_def)
  qed
  then have "fill_xino env_w vfs_open inode0 60 1 (e, ?sb, dput (Some 60) (dget 60 ?k)) = Some (True, 0, ?sb1, ?k1)" for e
    using x st by (simp add: fill_xino_def)
  then have "for_up (fill_xino env_w vfs_open inode0 60) 0 1 (- EINVAL, ?sb, dput (Some 60) (dget 60 ?k))
      = Some (0, ?sb1, ?k1)"
    using x st by (simp add: for_up_step fill_xino_def [of env_w vfs_open inode0 60 0])
  ultimately have "xino_set env_w vfs_open inode0 60 False sb_one_xino kern_nfs
      = Some (0, au_flag_set AuFlag_XINO ?sb1, dput (Some 60) ?k1)"
    using st by (simp add: xino_set_def Let_def kern_nfs_simps)
  then show ?thesis by blast
qed

theorem xino_set_error_lost_witness:
  "(\<exists>k'. xino_create2 vfs_open 60 kern_nfs = Some (Inl (- EINVAL), k'))
   \<and> (\<exists>sb' k'. xino_set env_w vfs_open inode0 60 False sb_one_xino kern_nfs = Some (0, sb', k')
        \<and> au_flag_test sb' AuFlag_XINO \<noteq> 0 \<and> br_xino (s_br sb' 0) = Some 50)"
proof -
  obtain sb' k' where run: "xino_set env_w vfs_open inode0 60 False sb_one_xino kern_nfs = Some (0, sb', k')"
    using nfs_run by blast
  have st: "stobr sb_one_xino 0 = Some 0" "stobr sb_one_xino 1 = Some 1" "sbend sb_one_xino = 1"
    "br_xino (s_br sb_one_xino 0) = Some 50" "br_xino (s_br sb_one_xino 1) = None"
    by (simp_all add: stobr_def sbend_def sb_one_xino_def sb0_def aget_def set_br_xino_def upd_br_def)
  have c: "\<exists>k'. xino_create2 vfs_open 60 (kern_nfs\<lparr>k_fcount := fc, k_dcount := dc\<rparr>) = Some (Inl (- EINVAL), k')" for fc dc
    using xino_create2_nfs [of "kern_nfs\<lparr>k_fcount := fc, k_dcount := dc\<rparr>" 60] by (simp add: kern_nfs_simps)
  have "\<exists>k'. xino_create2 vfs_open 60 kern_nfs = Some (Inl (- EINVAL), k')"
    using xino_create2_nfs [of kern_nfs 60] by (simp add: kern_nfs_simps)
  moreover from xino_set_error_lost [OF run, of "- EINVAL" 0 0 50 1 1] c st
  have "br_xino (s_br sb' 0) = Some 50 \<and> au_flag_test sb' AuFlag_XINO \<noteq> 0" by (auto simp: kern_nfs_simps)
  ultimately show ?thesis using run by blast
qed

end
