(* ===== verification/Aufs_Attr.thy ===== *)
theory Aufs_Attr
  imports Aufs_Iinfo
begin

text \<open>
  Copying attributes up from hidden inodes (first part of cpup.c), and the link count
  of a merged directory (\<open>au_add_nlink\<close> and \<open>au_sub_nlink\<close> of dir.c): the count of the
  first hidden directory and what each lower one adds. \<open>i_nlink\<close> is an
  \<open>unsigned int\<close>, so the arithmetic is modulo \<open>2 ^ 32\<close>. Kernels since 2.6.19 have no
  \<open>i_blksize\<close>. Shown: adding and removing a directory cancel at every width, and the
  copied count is the sum over the hidden directories in use.
\<close>

section \<open>Link counts\<close>

definition w32 :: "int \<Rightarrow> int" where
  "w32 n = n mod 2 ^ 32"

definition au_add_nlink :: "kern \<Rightarrow> aufs_inode \<Rightarrow> nat \<Rightarrow> aufs_inode option" where
  "au_add_nlink k dir h_dir =
     do { _ \<leftarrow> debug_on (\<not> S_ISDIR (i_mode dir) \<or> \<not> S_ISDIR (k_imode k h_dir));
          let dir = dir\<lparr>i_nlink := w32 (i_nlink dir + (int (k_inlink k h_dir) - 2))\<rparr>;
          Some (if k_inlink k h_dir < 2 then dir\<lparr>i_nlink := w32 (i_nlink dir + 2)\<rparr> else dir) }"

definition au_sub_nlink :: "kern \<Rightarrow> aufs_inode \<Rightarrow> nat \<Rightarrow> aufs_inode option" where
  "au_sub_nlink k dir h_dir =
     do { _ \<leftarrow> debug_on (\<not> S_ISDIR (i_mode dir) \<or> \<not> S_ISDIR (k_imode k h_dir));
          let dir = dir\<lparr>i_nlink := w32 (i_nlink dir - (int (k_inlink k h_dir) - 2))\<rparr>;
          Some (if k_inlink k h_dir < 2 then dir\<lparr>i_nlink := w32 (i_nlink dir - 2)\<rparr> else dir) }"

section \<open>Copying attributes up\<close>

definition au_cpup_attr_timesizes :: "kern \<Rightarrow> aufs_inode \<Rightarrow> aufs_inode option" where
  "au_cpup_attr_timesizes k inode =
     do { h \<leftarrow> au_h_iptr k inode; hidden_inode \<leftarrow> h;
          let a = k_iattr k hidden_inode;
          Some (inode\<lparr>i_attr := (i_attr inode)\<lparr>ia_atime := ia_atime a, ia_mtime := ia_mtime a,
            ia_ctime := ia_ctime a, ia_size := ia_size a, ia_blocks := ia_blocks a\<rparr>\<rparr>) }"

text \<open>One round of the loop over the lower branches.\<close>

definition nlink_round :: "kern \<Rightarrow> int \<Rightarrow> aufs_inode \<Rightarrow> (bool \<times> aufs_inode) option" where
  "nlink_round k bindex inode =
     do { h \<leftarrow> au_h_iptr_i k inode bindex;
          case h of
            None \<Rightarrow> Some (True, inode)
          | Some h_inode \<Rightarrow> map_option (\<lambda>inode. (True, inode)) (au_add_nlink k inode h_inode) }"

definition au_cpup_attr_nlink :: "kern \<Rightarrow> aufs_inode \<Rightarrow> aufs_inode option" where
  "au_cpup_attr_nlink k inode =
     do { _ \<leftarrow> debug_on (i_mode inode = 0);
          h \<leftarrow> au_h_iptr k inode; h_inode \<leftarrow> h;
          let inode = inode\<lparr>i_nlink := w32 (int (k_inlink k h_inode))\<rparr>;
          if S_ISDIR (k_imode k h_inode)
          then do { bend \<leftarrow> ibend inode; bstart \<leftarrow> ibstart inode;
                    for_up (nlink_round k) (bstart + 1) bend inode }
          else Some inode }"

definition au_cpup_attr_changable :: "kern \<Rightarrow> aufs_inode \<Rightarrow> aufs_inode option" where
  "au_cpup_attr_changable k inode =
     do { h \<leftarrow> au_h_iptr k inode; hidden_inode \<leftarrow> h;
          let a = k_iattr k hidden_inode;
          inode \<leftarrow> au_cpup_attr_timesizes k
            (inode\<lparr>i_mode := k_imode k hidden_inode,
                   i_attr := (i_attr inode)\<lparr>ia_uid := ia_uid a, ia_gid := ia_gid a\<rparr>\<rparr>);
          Some (inode\<lparr>i_attr := (i_attr inode)\<lparr>ia_flags := ia_flags a\<rparr>\<rparr>) }"

definition au_cpup_attr_all :: "kern \<Rightarrow> aufs_inode \<Rightarrow> aufs_inode option" where
  "au_cpup_attr_all k inode =
     do { h \<leftarrow> au_h_iptr k inode; hidden_inode \<leftarrow> h;
          let a = k_iattr k hidden_inode;
          inode \<leftarrow> au_cpup_attr_changable k inode;
          inode \<leftarrow> (if 0 < i_nlink inode then au_cpup_attr_nlink k inode else Some inode);
          let inode = (if i_mode inode AND 0xF000 = 0x6000 \<or> i_mode inode AND 0xF000 = 0x2000
                       then inode\<lparr>i_attr := (i_attr inode)\<lparr>ia_rdev := ia_rdev a\<rparr>\<rparr> else inode);
          Some (inode\<lparr>i_attr := (i_attr inode)\<lparr>ia_blkbits := ia_blkbits a,
                  ia_generation := ia_generation a\<rparr>\<rparr>) }"

section \<open>The count of a merged directory\<close>

text \<open>What a lower directory adds: its subdirectories, or everything when its count is below two.\<close>

definition nlink_part :: "kern \<Rightarrow> nat \<Rightarrow> int" where
  "nlink_part k h = (if k_inlink k h < 2 then int (k_inlink k h) else int (k_inlink k h) - 2)"

definition slot_part :: "kern \<Rightarrow> nat option \<Rightarrow> int" where
  "slot_part k p = (case p of None \<Rightarrow> 0 | Some h \<Rightarrow> nlink_part k h)"

text \<open>The counts of the hidden inodes of a range of branches.\<close>

definition nlink_sum :: "kern \<Rightarrow> nat option list \<Rightarrow> int" where
  "nlink_sum k hs = (case hs of [] \<Rightarrow> 0 | h # hs \<Rightarrow>
     (case h of None \<Rightarrow> 0 | Some h \<Rightarrow> int (k_inlink k h)) + sum_list (map (slot_part k) hs))"

lemma w32_simps [simp]: "w32 (w32 a + b) = w32 (a + b)" "w32 (w32 a - b) = w32 (a - b)" "w32 (w32 a) = w32 a"
  by (simp_all add: w32_def mod_add_left_eq mod_diff_left_eq)

lemma au_add_nlink_run:
  "S_ISDIR (i_mode dir) \<Longrightarrow> S_ISDIR (k_imode k h) \<Longrightarrow>
     au_add_nlink k dir h = Some (dir\<lparr>i_nlink := w32 (i_nlink dir + nlink_part k h)\<rparr>)"
  by (simp add: au_add_nlink_def nlink_part_def Let_def)

lemma au_sub_nlink_run:
  "S_ISDIR (i_mode dir) \<Longrightarrow> S_ISDIR (k_imode k h) \<Longrightarrow>
     au_sub_nlink k dir h = Some (dir\<lparr>i_nlink := w32 (i_nlink dir - nlink_part k h)\<rparr>)"
  by (simp add: au_sub_nlink_def nlink_part_def Let_def)

lemma ii_ok_nlink [simp]: "ii_ok (inode\<lparr>i_nlink := n\<rparr>) = ii_ok inode" "islot (inode\<lparr>i_nlink := n\<rparr>) = islot inode"
  "ii_of (inode\<lparr>i_nlink := n\<rparr>) = ii_of inode"
  by (simp_all add: ii_ok_def islot_def the_hi_def ii_of_def itoii_def fun_eq_iff)

text \<open>The hidden inodes of the branches \<open>i..j\<close>.\<close>

definition islots_between :: "aufs_inode \<Rightarrow> int \<Rightarrow> int \<Rightarrow> nat option list" where
  "islots_between inode i j = map (islot inode) [i..j]"

lemma islots_between_nlink [simp]: "islots_between (inode\<lparr>i_nlink := n\<rparr>) = islots_between inode"
  by (simp add: islots_between_def fun_eq_iff)

lemma au_h_iptr_i_ok:
  assumes "ii_ok inode" "0 \<le> i" "i \<le> ii_bend (i_iinfo inode)"
    and "\<And>h. islot inode i = Some h \<Longrightarrow> 0 < k_icount k h"
  shows "au_h_iptr_i k inode i = Some (islot inode i)"
proof -
  have "i < int (length (the_hi inode))" using assms by (auto simp: ii_ok_def)
  moreover have "islot inode i = hi_inode (the_hi inode ! nat i)" using assms(2) calculation by (simp add: islot_def)
  ultimately show ?thesis using assms
    by (auto simp: au_h_iptr_i_def ibend_def hinode_at_ok split: option.split)
qed

definition hidden_dirs :: "kern \<Rightarrow> aufs_inode \<Rightarrow> bool" where
  "hidden_dirs k inode \<longleftrightarrow> (\<forall>i h. islot inode i = Some h \<longrightarrow> S_ISDIR (k_imode k h) \<and> 0 < k_icount k h)"

lemma nlink_loop:
  assumes ok: "ii_ok inode" and d: "S_ISDIR (i_mode inode)" "hidden_dirs k inode" and i: "0 \<le> i"
    and e: "e = ii_bend (i_iinfo inode)"
  shows "for_up (nlink_round k) i e (inode\<lparr>i_nlink := w32 n\<rparr>)
    = Some (inode\<lparr>i_nlink := w32 (n + sum_list (map (slot_part k) (islots_between inode i e)))\<rparr>)"
  using i
proof (induction "nat (e + 1 - i)" arbitrary: i n)
  case 0
  then show ?case by (simp add: islots_between_def)
next
  case (Suc m)
  let ?n = "inode\<lparr>i_nlink := w32 n\<rparr>"
  from Suc.hyps(2) have le: "i \<le> e" by simp
  then have up: "[i..e] = i # [i + 1..e]" by (simp add: upto_rec1)
  have h: "au_h_iptr_i k ?n i = Some (islot inode i)"
    using au_h_iptr_i_ok [of ?n i k] ok d(2) Suc.prems le e by (simp add: hidden_dirs_def)
  have "nlink_round k i ?n = Some (True, inode\<lparr>i_nlink := w32 (n + slot_part k (islot inode i))\<rparr>)"
  proof (cases "islot inode i")
    case None
    then show ?thesis by (simp add: nlink_round_def h slot_part_def)
  next
    case (Some x)
    then have "S_ISDIR (k_imode k x)" using d(2) by (auto simp: hidden_dirs_def)
    then show ?thesis using Some d(1) by (simp add: nlink_round_def h slot_part_def au_add_nlink_run)
  qed
  then show ?case using le Suc.hyps(1) [of "i + 1" "n + slot_part k (islot inode i)"] Suc.hyps(2) Suc.prems
    by (simp add: for_up_step up islots_between_def add.assoc)
qed

lemma au_cpup_attr_nlink_run:
  assumes ok: "ii_ok inode" and d: "S_ISDIR (i_mode inode)" "hidden_dirs k inode"
    and s: "ii_bstart (i_iinfo inode) = 0" "islot inode 0 \<noteq> None"
  shows "au_cpup_attr_nlink k inode
    = Some (inode\<lparr>i_nlink := w32 (nlink_sum k (islots_between inode 0 (ii_bend (i_iinfo inode))))\<rparr>)"
proof -
  let ?e = "ii_bend (i_iinfo inode)"
  from s obtain h where h: "islot inode 0 = Some h" by blast
  then have hd: "S_ISDIR (k_imode k h)" "0 < k_icount k h" using d by (auto simp: hidden_dirs_def)
  have e: "0 \<le> ?e" using ok s by (simp add: ii_ok_def)
  then have up: "[0..?e] = 0 # [1..?e]" by (simp add: upto_rec1)
  have "au_h_iptr k inode = Some (Some h)"
    using au_h_iptr_i_ok [OF ok _ e] h hd s ok by (simp add: au_h_iptr_def ibstart_def)
  moreover have "i_mode inode \<noteq> 0" using d by (auto simp: S_ISDIR_def)
  ultimately show ?thesis
    using nlink_loop [OF ok d, of 1 ?e "int (k_inlink k h)"] ok hd s h up
    by (simp add: au_cpup_attr_nlink_def ibend_def ibstart_def nlink_sum_def islots_between_def Let_def)
qed

text \<open>
  Removing a hidden directory from the link count of a merged one undoes adding it,
  also where the arithmetic of the unsigned count wraps around.
\<close>

theorem au_sub_add_nlink:
  assumes "S_ISDIR (i_mode dir)" and "S_ISDIR (k_imode k h)" and "0 \<le> i_nlink dir" and "i_nlink dir < 2 ^ 32"
  shows "Option.bind (au_add_nlink k dir h) (\<lambda>dir. au_sub_nlink k dir h) = Some dir"
  using assms by (simp add: au_add_nlink_run au_sub_nlink_run) (simp add: w32_def)

theorem au_sub_add_nlink_witness:
  "Option.bind (au_add_nlink kern0 inode0 7) (\<lambda>dir. au_sub_nlink kern0 dir 7) = Some inode0"
  by (rule au_sub_add_nlink) (simp_all add: inode0_def S_ISDIR_def kern0_def)

end
