(* ===== verification/Aufs_Branch.thy ===== *)
theory Aufs_Branch
  imports Aufs_Attr Aufs_Dinfo Aufs_Finfo Aufs_Xino_Init Aufs_Plink
begin

text \<open>
  Branch management (branch.c): a branch is inserted into, or removed from, the three
  parallel arrays of a mounted aufs, the branch table of the superblock, the hidden
  dentries of the root and the hidden inodes of its inode. \<open>addr\<close> is the address of
  the aufs superblock; \<open>loop\<close> gives the dentry of the backing file of an inode that
  lives on a loop device. Locks are not modelled. This theory holds the operations and
  the test for overlapping branches, with its termination.
\<close>

section \<open>Releasing branches\<close>

definition free_branch :: "nat \<Rightarrow> aufs_sb \<Rightarrow> kern \<Rightarrow> kern option" where
  "free_branch a sb k =
     (let br = s_br sb a;
          k = (case br_xino br of None \<Rightarrow> k | Some f \<Rightarrow> fput f k);
          k = mntput (Some (br_mnt br)) (dput (br_plink br) (dput (br_wh br) k))
      in do { _ \<leftarrow> debug_on (br_count br \<noteq> 0 \<or> br_wh_running br \<noteq> 0); Some (kfree k) })"

definition free_branches :: "aufs_sb \<Rightarrow> kern \<Rightarrow> kern option" where
  "free_branches sb k =
     for_up (\<lambda>i k. do { p \<leftarrow> aget (si_branch sb) i; a \<leftarrow> p;
                        map_option (\<lambda>k. (True, k)) (free_branch a sb k) })
       0 (si_bend sb) k"

section \<open>Writable branches\<close>

text \<open>The parent of the dentry is the argument.\<close>

definition find_rw_parent :: "kern \<Rightarrow> aufs_sb \<Rightarrow> aufs_dentry \<Rightarrow> int \<Rightarrow> int option" where
  "find_rw_parent k sb parent bend =
     (let fit = (\<lambda>i. do { h \<leftarrow> au_h_dptr_i k parent i;
                          if h = None then Some False
                          else map_option (\<lambda>br. br_rdonly k br = 0) (sbr sb i) })
      in do { ok \<leftarrow> fit bend;
              if ok then Some bend
              else do { bstart \<leftarrow> dbstart parent; scan_up fit bstart bend (- EROFS) } })"

definition find_rw_parent_br :: "kern \<Rightarrow> aufs_sb \<Rightarrow> aufs_dentry \<Rightarrow> int \<Rightarrow> int option" where
  "find_rw_parent_br k sb parent bend =
     do { err \<leftarrow> find_rw_parent k sb parent bend;
          if 0 \<le> err then Some err else find_rw_br k sb bend }"

section \<open>Overlapping branches\<close>

text \<open>The walk to the root of the hidden filesystem, a dentry that is its own parent.\<close>

partial_function (option) do_is_overlap :: "kern \<Rightarrow> nat \<Rightarrow> nat \<Rightarrow> bool option" where
  "do_is_overlap k d hidden_d2 =
     (if d = hidden_d2 then Some True
      else let p = k_dparent k d
           in if k_dparent k p \<noteq> p then do_is_overlap k p hidden_d2 else Some (p = hidden_d2))"

declare do_is_overlap.simps [code]

definition is_overlap_loopback ::
    "nat \<Rightarrow> (nat \<Rightarrow> nat option) \<Rightarrow> kern \<Rightarrow> nat \<Rightarrow> nat \<Rightarrow> bool option" where
  "is_overlap_loopback addr loop k hidden_d1 hidden_d2 =
     do { hidden_inode \<leftarrow> k_dinode k hidden_d1;
          case loop hidden_inode of
            None \<Rightarrow> Some False
          | Some d \<Rightarrow> if k_dsb k d = addr then Some True else do_is_overlap k d hidden_d2 }"

definition is_overlap :: "nat \<Rightarrow> (nat \<Rightarrow> nat option) \<Rightarrow> kern \<Rightarrow> nat \<Rightarrow> nat \<Rightarrow> bool option" where
  "is_overlap addr loop k hidden_d1 hidden_d2 =
     (if hidden_d1 = hidden_d2 then Some True
      else do { a \<leftarrow> do_is_overlap k hidden_d1 hidden_d2;
                if a then Some True else do { b \<leftarrow> do_is_overlap k hidden_d2 hidden_d1;
                if b then Some True else do { c \<leftarrow> is_overlap_loopback addr loop k hidden_d1 hidden_d2;
                if c then Some True else is_overlap_loopback addr loop k hidden_d2 hidden_d1 } } })"

section \<open>The whiteout base of a branch\<close>

definition set_br_perm :: "nat \<Rightarrow> br_perm \<Rightarrow> aufs_sb \<Rightarrow> aufs_sb" where
  "set_br_perm a p = upd_br a (br_perm_update (\<lambda>_. p))"

definition init_br_wh ::
    "vfs \<Rightarrow> nat \<Rightarrow> br_perm \<Rightarrow> nat \<Rightarrow> aufs_sb \<Rightarrow> kern \<Rightarrow> (int \<times> aufs_sb \<times> kern) option" where
  "init_br_wh vf br new_perm h_root sb k =
     do { _ \<leftarrow> k_dinode k h_root;
          let old_perm = br_perm (s_br sb br);
          (err, sb, k) \<leftarrow> init_wh vf h_root br (set_br_perm br new_perm sb) k;
          Some (err, set_br_perm br old_perm sb, k) }"

section \<open>Adding a branch\<close>

record opt_add =
  oa_bindex :: int
  oa_path :: "byte list"
  oa_perm :: br_perm
  oa_dentry :: nat
  oa_mnt :: nat

text \<open>The three arrays grow one after the other; the ones that have grown stay so.\<close>

definition alloc_addbr ::
    "nat \<Rightarrow> aufs_sb \<Rightarrow> aufs_dentry \<Rightarrow> aufs_inode \<Rightarrow> kern
       \<Rightarrow> ((int + nat) \<times> aufs_sb \<times> aufs_dentry \<times> aufs_inode \<times> kern) option" where
  "alloc_addbr new_nbranch sb root inode k =
     (let a = k_alloc k; (ok, k) = kmalloc k;
          sz = (if new_nbranch - 1 = 0 then 1 else new_nbranch - 1)
      in if \<not> ok then Some (Inl (- ENOMEM), sb, root, inode, k)
         else do { (p, k) \<leftarrow> au_kzrealloc None (si_branch sb) sz new_nbranch k;
                   case p of None \<Rightarrow> Some (Inl (- ENOMEM), sb, root, inode, kfree k)
                   | Some branchp \<Rightarrow>
                   do { let sb = sb\<lparr>si_branch := branchp\<rparr>;
                        di \<leftarrow> dtodi root;
                        (p, k) \<leftarrow> au_kzrealloc None (di_hdentry di) sz new_nbranch k;
                        case p of None \<Rightarrow> Some (Inl (- ENOMEM), sb, root, inode, kfree k)
                        | Some hdentryp \<Rightarrow>
                        do { root \<leftarrow> upd_di (di_hdentry_update (\<lambda>_. hdentryp)) root;
                             ii \<leftarrow> ii_of inode;
                             hi \<leftarrow> ii_hinode ii;
                             (p, k) \<leftarrow> au_kzrealloc \<lparr>hi_inode = None, hi_id = 0, hi_notify = None\<rparr>
                               hi sz new_nbranch k;
                             case p of None \<Rightarrow> Some (Inl (- ENOMEM), sb, root, inode, kfree k)
                             | Some hinodep \<Rightarrow>
                             do { inode \<leftarrow> upd_ii (ii_hinode_update (\<lambda>_. Some hinodep)) inode;
                                  Some (Inr a, sb, root, inode, k) } } } })"

definition test_br :: "kern \<Rightarrow> nat \<Rightarrow> br_perm \<Rightarrow> int" where
  "test_br k inode brperm =
     (if br_writable brperm \<and> k_srdonly k (k_isb k inode) then - EINVAL else 0)"

text \<open>0: to be added; 1: it is already there and a remount ignores it; or an error.\<close>

definition test_add ::
    "nat \<Rightarrow> (nat \<Rightarrow> nat option) \<Rightarrow> opt_add \<Rightarrow> bool \<Rightarrow> aufs_sb \<Rightarrow> aufs_dentry \<Rightarrow> kern \<Rightarrow> int option" where
  "test_add addr loop add remount sb root k =
     do { dup \<leftarrow> au_find_dbindex k root (oa_dentry add);
          let bend = sbend sb;
          if dup \<noteq> - 1 then Some (if remount then 1 else - EINVAL)
          else if AUFS_BRANCH_MAX \<le> oa_bindex add \<or> AUFS_BRANCH_MAX - 1 \<le> bend then Some (- ENOSPC)
          else if oa_bindex add < 0 \<or> bend + 1 < oa_bindex add then Some (- EDOM)
          else do { inode \<leftarrow> k_dinode k (oa_dentry add);
                    _ \<leftarrow> debug_on (\<not> S_ISDIR (k_imode k inode));
                    if k_inlink k inode = 0 then Some (- ENOENT)
                    else if k_isb k inode = addr then Some (- EINVAL)
                    else if k_stype k (k_isb k inode) = ''aufs'' \<or> k_stype k (k_isb k inode) = ''unionfs''
                    then Some (- EINVAL)
                    else if au_is_nfs k (k_isb k inode) then Some (- EINVAL)
                    else if test_br k inode (oa_perm add) \<noteq> 0 then Some (test_br k inode (oa_perm add))
                    else if bend = - 1 then Some 0
                    else do { h \<leftarrow> au_h_dptr k root; h \<leftarrow> h; _ \<leftarrow> k_dinode k h;
                              i \<leftarrow> scan_up (\<lambda>i. do { h \<leftarrow> au_h_dptr_i k root i; h \<leftarrow> h;
                                                     is_overlap addr loop k (oa_dentry add) h }) 0 bend (- 1);
                              Some (if i = - 1 then 0 else - EINVAL) } } }"

text \<open>
  Moving the upper parts of the arrays up by one and filling the gap; only the pointers
  of the new slots are cleared, \<open>hi_id\<close> keeps what was there.
\<close>

definition add_slots ::
    "int \<Rightarrow> int \<Rightarrow> nat \<Rightarrow> aufs_sb \<Rightarrow> aufs_dentry \<Rightarrow> aufs_inode \<Rightarrow> (aufs_sb \<times> aufs_dentry \<times> aufs_inode) option" where
  "add_slots bend add_bindex a sb root root_inode =
     do { let i = nat add_bindex;
          let n = nat (bend + 1 - add_bindex);
          branchp \<leftarrow> amove_up (si_branch sb) i n (Some a);
          dinfo \<leftarrow> dtodi root;
          hdentryp \<leftarrow> amove_up (di_hdentry dinfo) i n None;
          iinfo \<leftarrow> ii_of root_inode;
          hi \<leftarrow> ii_hinode iinfo;
          old \<leftarrow> aget hi add_bindex;
          hinodep \<leftarrow> amove_up hi i n (old\<lparr>hi_inode := None, hi_notify := None\<rparr>);
          let first = (bend = - 1);
          Some (sb\<lparr>si_branch := branchp, si_bend := to_bindex (si_bend sb + 1)\<rparr>,
                root\<lparr>d_fsdata := Some (dinfo\<lparr>di_hdentry := hdentryp, di_bend := to_bindex (di_bend dinfo + 1),
                  di_bstart := if first then 0 else di_bstart dinfo\<rparr>)\<rparr>,
                root_inode\<lparr>i_iinfo := iinfo\<lparr>ii_hinode := Some hinodep, ii_bend := to_bindex (ii_bend iinfo + 1),
                  ii_bstart := if first then 0 else ii_bstart iinfo\<rparr>\<rparr>) }"

text \<open>The hidden directory of the new slots, and the attributes of the root.\<close>

definition add_hidden ::
    "xino_env \<Rightarrow> opt_add \<Rightarrow> aufs_sb \<Rightarrow> aufs_dentry \<Rightarrow> aufs_inode \<Rightarrow> kern
       \<Rightarrow> (aufs_sb \<times> aufs_dentry \<times> aufs_inode \<times> kern) option" where
  "add_hidden env add sb root root_inode k =
     do { (root, k) \<leftarrow> set_h_dptr root (oa_bindex add) (Some (oa_dentry add)) (dget (oa_dentry add) k);
          h \<leftarrow> k_dinode k (oa_dentry add);
          (root_inode, sb, k) \<leftarrow> set_h_iptr (xe_aufsd env) (xe_write env) root_inode (oa_bindex add) (Some h) 0
             sb (igrab h k);
          root_inode \<leftarrow> (if oa_bindex add = 0 then au_cpup_attr_all k root_inode
                         else au_add_nlink k root_inode h);
          let maxb = k_smaxbytes k (k_dsb k (oa_dentry add));
          Some (if s_maxbytes sb < maxb then sb\<lparr>s_maxbytes := maxb\<rparr> else sb, root, root_inode, k) }"

text \<open>The inode number table of the new branch; an error turns the tables off.\<close>

definition add_xino ::
    "xino_env \<Rightarrow> vfs \<Rightarrow> int \<Rightarrow> nat \<Rightarrow> aufs_inode \<Rightarrow> aufs_sb \<Rightarrow> kern \<Rightarrow> (aufs_sb \<times> kern) option" where
  "add_xino env vf add_bindex a root_inode sb k =
     (if au_flag_test sb AuFlag_XINO = 0 then Some (sb, k)
      else do { br0 \<leftarrow> stobr sb 0;
                base_file \<leftarrow> (if add_bindex = 0 then map_option (\<lambda>br. br_xino (s_br sb br)) (stobr sb 1)
                              else Some (br_xino (s_br sb br0)));
                (err, sb, k) \<leftarrow> xino_init env vf root_inode add_bindex base_file True sb k;
                if err = 0 then Some (sb, k)
                else do { _ \<leftarrow> debug_on (br_xino (s_br sb a) \<noteq> None);
                          Some (au_flag_clr AuFlag_XINO sb, k) } })"

text \<open>The fields of the new branch.\<close>

definition new_branch :: "opt_add \<Rightarrow> nat \<Rightarrow> aufs_sb \<Rightarrow> aufs_sb option" where
  "new_branch add a sb =
     do { let sb = upd_br a (\<lambda>b. b\<lparr>br_xino := None, br_mnt := oa_mnt add, br_wh_running := 0\<rparr>) sb;
          (bid, sb) \<leftarrow> new_br_id sb;
          Some (upd_br a (\<lambda>b. b\<lparr>br_id := bid, br_perm := oa_perm add, br_count := 0\<rparr>) sb) }"

text \<open>The part of \<open>br_add\<close> after the last error.\<close>

definition add_branch ::
    "xino_env \<Rightarrow> vfs \<Rightarrow> opt_add \<Rightarrow> nat \<Rightarrow> aufs_sb \<Rightarrow> aufs_dentry \<Rightarrow> aufs_inode \<Rightarrow> kern
       \<Rightarrow> (aufs_sb \<times> aufs_dentry \<times> aufs_inode \<times> kern) option" where
  "add_branch env vf add a sb root root_inode k =
     do { let bend = sbend sb;
          sb \<leftarrow> new_branch add a sb;
          let k = mntget (oa_mnt add) k;
          (sb, root, root_inode) \<leftarrow> add_slots bend (oa_bindex add) a sb root root_inode;
          (sb, root, root_inode, k) \<leftarrow> add_hidden env add sb root root_inode k;
          (sb, k) \<leftarrow> add_xino env vf (oa_bindex add) a root_inode sb k;
          Some (sb, root, root_inode, k) }"

definition br_add ::
    "xino_env \<Rightarrow> vfs \<Rightarrow> nat \<Rightarrow> (nat \<Rightarrow> nat option) \<Rightarrow> opt_add \<Rightarrow> bool
       \<Rightarrow> aufs_sb \<Rightarrow> aufs_dentry \<Rightarrow> aufs_inode \<Rightarrow> kern
       \<Rightarrow> (int \<times> aufs_sb \<times> aufs_dentry \<times> aufs_inode \<times> kern) option" where
  "br_add env vf addr loop add remount sb root root_inode k =
     do { err \<leftarrow> test_add addr loop add remount sb root k;
          if err < 0 then Some (err, sb, root, root_inode, k)
          else if err \<noteq> 0 then Some (0, sb, root, root_inode, k)
          else do { (r, sb, root, root_inode, k) \<leftarrow> alloc_addbr (nat (sbend sb + 2)) sb root root_inode k;
                    case r of
                      Inl err \<Rightarrow> Some (err, sb, root, root_inode, k)
                    | Inr a \<Rightarrow>
                        do { let sb = upd_br a (\<lambda>b. b\<lparr>br_wh := None, br_plink := None\<rparr>) sb;
                             (err, sb, k) \<leftarrow> (if br_writable (oa_perm add)
                                then init_br_wh vf a (oa_perm add) (oa_dentry add) sb k else Some (0, sb, k));
                             if err \<noteq> 0 then Some (err, sb, root, root_inode, kfree k)
                             else do { (sb, root, root_inode, k) \<leftarrow> add_branch env vf add a sb root root_inode k;
                                       Some (0, sb, root, root_inode, k) } } } }"

section \<open>Removing a branch\<close>

record opt_del =
  od_path :: "byte list"
  od_h_root :: nat

text \<open>
  The dentries below the root, as \<open>au_dcsub_pages\<close> collects them, are the list \<open>ds\<close>;
  \<open>pages\<close> is the error of the collection, and \<open>reval\<close> the revalidation of the path of a
  dentry (\<open>au_reval_dpath\<close>).
\<close>

definition child_busy :: "int \<Rightarrow> aufs_dentry \<Rightarrow> kern \<Rightarrow> bool option" where
  "child_busy bindex d k =
     do { h \<leftarrow> au_h_dptr_i k d bindex;
          if h = None then Some False
          else do { m \<leftarrow> d_imode d;
                    if \<not> S_ISDIR m then Some True
                    else do { bstart \<leftarrow> dbstart d; bend \<leftarrow> dbend d; Some (bstart = bend) } } }"

fun test_busy_list ::
    "(aufs_dentry \<Rightarrow> kern \<Rightarrow> int \<times> aufs_dentry \<times> kern) \<Rightarrow> int \<Rightarrow> int \<Rightarrow> aufs_dentry list \<Rightarrow> kern
       \<Rightarrow> (int \<times> aufs_dentry list \<times> kern) option" where
  "test_busy_list reval sigen bindex [] k = Some (0, [], k)"
| "test_busy_list reval sigen bindex (d # ds) k =
     do { gen \<leftarrow> au_digen d;
          let (err, d, k) = (if gen = sigen then (0, d, k) else reval d k);
          if err \<noteq> 0 then Some (err, d # ds, k)
          else do { busy \<leftarrow> child_busy bindex d k;
                    if busy then Some (- EBUSY, d # ds, k)
                    else do { (err, ds, k) \<leftarrow> test_busy_list reval sigen bindex ds k;
                              Some (err, d # ds, k) } } }"

definition test_children_busy ::
    "int \<Rightarrow> (aufs_dentry \<Rightarrow> kern \<Rightarrow> int \<times> aufs_dentry \<times> kern) \<Rightarrow> aufs_sb \<Rightarrow> int \<Rightarrow> aufs_dentry list \<Rightarrow> kern
       \<Rightarrow> (int \<times> aufs_dentry list \<times> kern) option" where
  "test_children_busy pages reval sb bindex ds k =
     (if pages \<noteq> 0 then Some (pages, ds, k) else test_busy_list reval (si_generation sb) bindex ds k)"

definition del_slots ::
    "int \<Rightarrow> int \<Rightarrow> aufs_sb \<Rightarrow> aufs_dentry \<Rightarrow> aufs_inode \<Rightarrow> (aufs_sb \<times> aufs_dentry \<times> aufs_inode) option" where
  "del_slots bend bindex sb root inode =
     do { let i = nat bindex;
          let n = nat (bend - bindex);
          brp \<leftarrow> amove_down (si_branch sb) i n None;
          dinfo \<leftarrow> dtodi root;
          hdp \<leftarrow> amove_down (di_hdentry dinfo) i n None;
          iinfo \<leftarrow> ii_of inode;
          hi \<leftarrow> ii_hinode iinfo;
          old \<leftarrow> aget hi bend;
          hip \<leftarrow> amove_down hi i n (old\<lparr>hi_inode := None, hi_notify := None\<rparr>);
          Some (sb\<lparr>si_branch := brp, si_bend := to_bindex (si_bend sb - 1)\<rparr>,
                root\<lparr>d_fsdata := Some (dinfo\<lparr>di_hdentry := hdp, di_bend := to_bindex (di_bend dinfo - 1)\<rparr>)\<rparr>,
                inode\<lparr>i_iinfo := iinfo\<lparr>ii_hinode := Some hip, ii_bend := to_bindex (ii_bend iinfo - 1)\<rparr>\<rparr>) }"

text \<open>The largest file size of the remaining branches, when the removed one had the largest.\<close>

definition del_maxbytes :: "int \<Rightarrow> nat \<Rightarrow> aufs_sb \<Rightarrow> kern \<Rightarrow> aufs_sb option" where
  "del_maxbytes bend h_root sb k =
     (if s_maxbytes sb = k_smaxbytes k (k_dsb k h_root)
      then do { m \<leftarrow> for_up (\<lambda>i m. do { s \<leftarrow> sbr_sb k sb i;
                                        let maxb = k_smaxbytes k s;
                                        Some (True, if m < maxb then maxb else m) }) 0 (bend - 1) 0;
                Some (sb\<lparr>s_maxbytes := m\<rparr>) }
      else Some sb)"

text \<open>The removal of a branch that is not busy.\<close>

definition del_branch ::
    "xino_env \<Rightarrow> int \<Rightarrow> nat \<Rightarrow> nat \<Rightarrow> nat \<Rightarrow> (nat \<Rightarrow> aufs_inode) \<Rightarrow> aufs_sb \<Rightarrow> aufs_dentry \<Rightarrow> aufs_inode \<Rightarrow> kern
       \<Rightarrow> ((nat \<Rightarrow> aufs_inode) \<times> aufs_sb \<times> aufs_dentry \<times> aufs_inode \<times> kern) option" where
  "del_branch env bindex br h_root hidden_dir inodes sb root inode k =
     do { let bend = sbend sb;
          h \<leftarrow> au_h_dptr_i k root bindex;
          hi \<leftarrow> hinode_at inode bindex;
          let k = aufs_hiput hi (dput h k);
          let bid = br_id (s_br sb br);
          k \<leftarrow> free_branch br sb k;
          (sb, root, inode) \<leftarrow> del_slots bend bindex sb root inode;
          inode \<leftarrow> (if bindex = 0 then au_cpup_attr_all k inode else au_sub_nlink k inode hidden_dir);
          (inodes, sb, k) \<leftarrow> (if au_flag_test sb AuFlag_PLINK \<noteq> 0
             then half_refresh_plink (xe_aufsd env) (xe_write env) bid inodes sb k
             else Some (inodes, sb, k));
          sb \<leftarrow> del_maxbytes bend h_root sb k;
          Some (inodes, sb, root, inode, k) }"

definition br_del ::
    "xino_env \<Rightarrow> vfs \<Rightarrow> int \<Rightarrow> (aufs_dentry \<Rightarrow> kern \<Rightarrow> int \<times> aufs_dentry \<times> kern) \<Rightarrow> opt_del \<Rightarrow> bool
       \<Rightarrow> aufs_dentry list \<Rightarrow> (nat \<Rightarrow> aufs_inode) \<Rightarrow> aufs_sb \<Rightarrow> aufs_dentry \<Rightarrow> aufs_inode \<Rightarrow> kern
       \<Rightarrow> (int \<times> aufs_dentry list \<times> (nat \<Rightarrow> aufs_inode) \<times> aufs_sb \<times> aufs_dentry \<times> aufs_inode \<times> kern) option" where
  "br_del env vf pages reval del remount ds inodes sb root inode k =
     do { bindex \<leftarrow> au_find_dbindex k root (od_h_root del);
          if bindex < 0
          then Some (if remount then 0 else - ENOENT, ds, inodes, sb, root, inode, k)
          else do { let bend = sbend sb;
                    br \<leftarrow> stobr sb bindex;
                    if bend = 0 \<or> br_count (s_br sb br) \<noteq> 0
                    then Some (- EBUSY, ds, inodes, sb, root, inode, k)
                    else do { hidden_dir \<leftarrow> k_dinode k (od_h_root del);
                              let do_wh = (br_wh (s_br sb br) \<noteq> None \<or> br_plink (s_br sb br) \<noteq> None);
                              let (sb, k) = (if do_wh
                                 then (set_br_plink br None (set_br_wh br None sb),
                                       dput (br_plink (s_br sb br)) (dput (br_wh (s_br sb br)) k))
                                 else (sb, k));
                              (err, ds, k) \<leftarrow> test_children_busy pages reval sb bindex ds k;
                              if err \<noteq> 0
                              then (if do_wh
                                    then do { (_, sb, k) \<leftarrow> init_br_wh vf br (br_perm (s_br sb br)) (od_h_root del) sb k;
                                              Some (err, ds, inodes, sb, root, inode, k) }
                                    else Some (err, ds, inodes, sb, root, inode, k))
                              else do { (inodes, sb, root, inode, k) \<leftarrow>
                                          del_branch env bindex br (od_h_root del) hidden_dir inodes sb root inode k;
                                        Some (0, ds, inodes, sb, root, inode, k) } } } }"

section \<open>Changing the permission of a branch\<close>

record opt_mod =
  om_path :: "byte list"
  om_perm :: br_perm
  om_h_root :: nat

definition do_need_sigen_inc :: "br_perm \<Rightarrow> br_perm \<Rightarrow> bool" where
  "do_need_sigen_inc a b \<longleftrightarrow> br_whable a \<and> \<not> br_whable b"

definition need_sigen_inc :: "br_perm \<Rightarrow> br_perm \<Rightarrow> bool" where
  "need_sigen_inc old new \<longleftrightarrow> do_need_sigen_inc old new \<or> do_need_sigen_inc new old"

definition au_file_roflags :: "32 word \<Rightarrow> 32 word" where
  "au_file_roflags flags = (flags AND NOT 0x643) OR 0x40000"

text \<open>An open file of the superblock's list: the mode of its inode, \<open>FMODE_WRITE\<close>, and its info.\<close>

record sb_file =
  sf_imode :: "32 word"
  sf_write :: bool
  sf_file :: aufs_file

definition ro_file :: "int \<Rightarrow> aufs_sb \<Rightarrow> sb_file \<Rightarrow> kern \<Rightarrow> kern option" where
  "ro_file bindex sb f k =
     (if \<not> S_ISREG (sf_imode f) \<or> \<not> sf_write f then Some k
      else do { bstart \<leftarrow> fbstart (sf_file f);
                if bstart \<noteq> bindex then Some k
                else do { hf \<leftarrow> au_h_fptr sb k (sf_file f); hf \<leftarrow> hf;
                          Some (k\<lparr>k_fflags := (k_fflags k)(hf := au_file_roflags (k_fflags k hf)),
                                  k_fwritable := (k_fwritable k)(hf := False)\<rparr>) } })"

fun ro_files :: "int \<Rightarrow> aufs_sb \<Rightarrow> sb_file list \<Rightarrow> kern \<Rightarrow> kern option" where
  "ro_files bindex sb [] k = Some k"
| "ro_files bindex sb (f # fs) k = do { k \<leftarrow> ro_file bindex sb f k; ro_files bindex sb fs k }"

text \<open>What a branch that was writable loses: its whiteout base, and files open for writing.\<close>

definition mod_writable ::
    "vfs \<Rightarrow> opt_mod \<Rightarrow> int \<Rightarrow> nat \<Rightarrow> sb_file list \<Rightarrow> aufs_sb \<Rightarrow> kern \<Rightarrow> (int \<times> aufs_sb \<times> kern) option" where
  "mod_writable vf m bindex br files sb k =
     (if br_writable (br_perm (s_br sb br))
      then do { (err, sb, k) \<leftarrow> init_br_wh vf br AuBr_RO (om_h_root m) sb k;
                if err \<noteq> 0 \<or> br_writable (om_perm m) then Some (err, sb, k)
                else do { k \<leftarrow> ro_files bindex sb files k; Some (err, sb, k) } }
      else Some (0, sb, k))"

text \<open>The second result is the new \<open>*do_update\<close>.\<close>

definition br_mod ::
    "vfs \<Rightarrow> opt_mod \<Rightarrow> bool \<Rightarrow> bool \<Rightarrow> sb_file list \<Rightarrow> aufs_sb \<Rightarrow> aufs_dentry \<Rightarrow> kern
       \<Rightarrow> (int \<times> bool \<times> aufs_sb \<times> kern) option" where
  "br_mod vf m remount do_update files sb root k =
     do { bindex \<leftarrow> au_find_dbindex k root (om_h_root m);
          if bindex < 0 then Some (if remount then 0 else - ENOENT, do_update, sb, k)
          else do { hidden_dir \<leftarrow> k_dinode k (om_h_root m);
                    if test_br k hidden_dir (om_perm m) \<noteq> 0
                    then Some (test_br k hidden_dir (om_perm m), do_update, sb, k)
                    else do { br \<leftarrow> stobr sb bindex;
                              let old = br_perm (s_br sb br);
                              if old = om_perm m then Some (0, do_update, sb, k)
                              else do { (err, sb, k) \<leftarrow> mod_writable vf m bindex br files sb k;
                                        if err \<noteq> 0 then Some (err, do_update, sb, k)
                                        else Some (0, do_update \<or> need_sigen_inc old (om_perm m),
                                               set_br_perm br (om_perm m) sb, k) } } } }"

end
