(* ===== verification/Aufs_Opts.thy ===== *)
theory Aufs_Opts
  imports Aufs_Branch
begin

text \<open>
  Mount options (opts.c, opts.h): the tables of option words, permissions and levels,
  the parser that fills an array of option slots, the release of the objects the slots
  hold, and the execution of the options at mount and at remount. The kernel's table
  matcher is a parameter that picks the pattern and cuts the arguments. The array
  \<open>opts->opt\<close> is a list of slots whose initial content is arbitrary memory; reading
  or writing a slot outside of it is a crash.
\<close>

section \<open>Tables\<close>

datatype opt_type =
  Opt_br
| Opt_add | Opt_del | Opt_mod | Opt_append | Opt_prepend
| Opt_idel | Opt_imod
| Opt_dirwh | Opt_rdcache | Opt_deblk | Opt_nhash
| Opt_xino | Opt_zxino | Opt_noxino
| Opt_plink | Opt_noplink | Opt_list_plink | Opt_clean_plink
| Opt_udba
| Opt_diropq_a | Opt_diropq_w
| Opt_warn_perm | Opt_nowarn_perm
| Opt_findrw_dir | Opt_findrw_br
| Opt_coo
| Opt_dlgt | Opt_nodlgt
| Opt_tail | Opt_ignore | Opt_err

text \<open>A table of tokens and patterns; the last pattern is \<open>NULL\<close> and always fits.\<close>

type_synonym 't match_table = "('t \<times> string option) list"

definition options :: "opt_type match_table" where
  "options = [
     (Opt_br, Some ''br=%s''), (Opt_br, Some ''br:%s''),
     (Opt_add, Some ''add=%d:%s''), (Opt_add, Some ''add:%d:%s''),
     (Opt_add, Some ''ins=%d:%s''), (Opt_add, Some ''ins:%d:%s''),
     (Opt_append, Some ''append=%s''), (Opt_append, Some ''append:%s''),
     (Opt_prepend, Some ''prepend=%s''), (Opt_prepend, Some ''prepend:%s''),
     (Opt_del, Some ''del=%s''), (Opt_del, Some ''del:%s''),
     (Opt_mod, Some ''mod=%s''), (Opt_mod, Some ''mod:%s''),
     (Opt_dirwh, Some ''dirwh=%d''), (Opt_dirwh, Some ''dirwh:%d''),
     (Opt_xino, Some ''xino=%s''), (Opt_xino, Some ''xino:%s''), (Opt_noxino, Some ''noxino''),
     (Opt_plink, Some ''plink''), (Opt_noplink, Some ''noplink''),
     (Opt_list_plink, Some ''list_plink''), (Opt_clean_plink, Some ''clean_plink''),
     (Opt_udba, Some ''udba=%s''),
     (Opt_diropq_a, Some ''diropq=always''), (Opt_diropq_a, Some ''diropq=a''),
     (Opt_diropq_w, Some ''diropq=whiteouted''), (Opt_diropq_w, Some ''diropq=w''),
     (Opt_warn_perm, Some ''warn_perm''), (Opt_nowarn_perm, Some ''nowarn_perm''),
     (Opt_rdcache, Some ''rdcache=%d''), (Opt_rdcache, Some ''rdcache:%d''),
     (Opt_br, Some ''dirs=%s''), (Opt_ignore, Some ''debug=%d''),
     (Opt_ignore, Some ''delete=whiteout''), (Opt_ignore, Some ''delete=all''),
     (Opt_ignore, Some ''imap=%s''), (Opt_err, None)]"

definition brperms :: "br_perm match_table" where
  "brperms = [
     (AuBr_RR, Some ''rr''), (AuBr_RO, Some ''ro''), (AuBr_RW, Some ''rw''),
     (AuBr_RRWH, Some ''rr+wh''), (AuBr_ROWH, Some ''ro+wh''), (AuBr_RWNoLinkWH, Some ''rw+nolwh''),
     (AuBr_ROWH, Some ''nfsro''), (AuBr_RO, None)]"

definition udbalevel :: "int match_table" where
  "udbalevel = [(uint AuFlag_UDBA_REVAL, Some ''reval''), (uint AuFlag_UDBA_NONE, Some ''none''), (- 1, None)]"

definition coolevel :: "int match_table" where
  "coolevel = [(uint AuFlag_COO_LEAF, Some ''leaf''), (uint AuFlag_COO_ALL, Some ''all''),
     (uint AuFlag_COO_NONE, Some ''none''), (- 1, None)]"

text \<open>
  The kernel's parser: the index of the pattern that fits and the arguments; the value
  of a decimal argument, if it is one.
\<close>

record parser =
  ps_match :: "byte list \<Rightarrow> string option list \<Rightarrow> nat \<times> byte list list"
  ps_int :: "byte list \<Rightarrow> int option"

definition match_token :: "parser \<Rightarrow> byte list \<Rightarrow> 't match_table \<Rightarrow> 't \<times> byte list list" where
  "match_token ps s tbl = (let (i, args) = ps_match ps s (map snd tbl) in (fst (tbl ! i), args))"

definition br_perm_val :: "parser \<Rightarrow> byte list \<Rightarrow> br_perm option" where
  "br_perm_val ps perm = do { _ \<leftarrow> debug_on (perm = []); Some (fst (match_token ps perm brperms)) }"

text \<open>The pattern of the first entry with a token; the walk ends at the entry without one.\<close>

fun token_str :: "'t match_table \<Rightarrow> 't \<Rightarrow> string option" where
  "token_str [] t = None"
| "token_str ((u, p) # tbl) t =
     (case p of None \<Rightarrow> None | Some s \<Rightarrow> if u = t then Some s else token_str tbl t)"

text \<open>\<open>len\<close> is the size of the buffer; the result is the error or the string in it.\<close>

definition br_perm_str :: "int \<Rightarrow> br_perm \<Rightarrow> int + string" where
  "br_perm_str len brperm =
     (case token_str brperms brperm of
        Some s \<Rightarrow> if int (length s) < len then Inr s else Inl (- E2BIG)
      | None \<Rightarrow> Inl (- EIO))"

definition udba_val :: "parser \<Rightarrow> byte list \<Rightarrow> int" where
  "udba_val ps str = fst (match_token ps str udbalevel)"

text \<open>An unknown level is a \<open>BUG\<close>.\<close>

definition udba_str :: "int \<Rightarrow> string option" where
  "udba_str udba = token_str udbalevel udba"

definition coo_str :: "int \<Rightarrow> string option" where
  "coo_str coo = token_str coolevel coo"

definition udba_set :: "32 word \<Rightarrow> aufs_sb \<Rightarrow> aufs_sb" where
  "udba_set flg sb = au_flag_set flg (au_flag_clr AuMask_UDBA sb)"

definition coo_set :: "32 word \<Rightarrow> aufs_sb \<Rightarrow> aufs_sb" where
  "coo_set flg sb = au_flag_set flg (au_flag_clr AuMask_COO sb)"

section \<open>Option slots\<close>

record opt_xino =
  ox_path :: "byte list"
  ox_file :: nat

datatype opt_u =
  U_xino opt_xino | U_add opt_add | U_del opt_del | U_mod opt_mod
| U_dirwh int | U_rdcache int | U_udba int | U_coo int

text \<open>Reading a member that was not the last one written is a crash.\<close>

record opt_slot =
  op_type :: opt_type
  op_u :: opt_u

fun u_add where "u_add (U_add a) = Some a" | "u_add _ = None"
fun u_del where "u_del (U_del a) = Some a" | "u_del _ = None"
fun u_mod where "u_mod (U_mod a) = Some a" | "u_mod _ = None"
fun u_xino where "u_xino (U_xino a) = Some a" | "u_xino _ = None"
fun u_int where
  "u_int (U_dirwh a) = Some a" | "u_int (U_rdcache a) = Some a" | "u_int (U_udba a) = Some a"
| "u_int (U_coo a) = Some a" | "u_int _ = None"

text \<open>A loop over the slots up to \<open>Opt_tail\<close>; it stops early when the body says so.\<close>

fun opt_loop :: "(opt_slot \<Rightarrow> 's \<Rightarrow> (bool \<times> 's) option) \<Rightarrow> opt_slot list \<Rightarrow> 's \<Rightarrow> 's option" where
  "opt_loop f [] s = None"
| "opt_loop f (opt # opts) s =
     (if op_type opt = Opt_tail then Some s
      else do { (go, s) \<leftarrow> f opt s; if go then opt_loop f opts s else Some s })"

text \<open>\<open>path_release\<close>.\<close>

definition path_release :: "nat \<times> nat \<Rightarrow> kern \<Rightarrow> kern" where
  "path_release nd k = mntput (Some (snd nd)) (dput (Some (fst nd)) k)"

definition free_opt :: "opt_slot \<Rightarrow> kern \<Rightarrow> (bool \<times> kern) option" where
  "free_opt opt k =
     (if op_type opt \<in> {Opt_add, Opt_append, Opt_prepend}
      then do { a \<leftarrow> u_add (op_u opt); Some (True, path_release (oa_dentry a, oa_mnt a) k) }
      else if op_type opt \<in> {Opt_del, Opt_idel}
      then do { d \<leftarrow> u_del (op_u opt); Some (True, dput (Some (od_h_root d)) k) }
      else if op_type opt \<in> {Opt_mod, Opt_imod}
      then do { m \<leftarrow> u_mod (op_u opt); Some (True, dput (Some (om_h_root m)) k) }
      else if op_type opt = Opt_xino
      then do { x \<leftarrow> u_xino (op_u opt); Some (True, fput (ox_file x) k) }
      else Some (True, k))"

definition au_free_opts :: "opt_slot list \<Rightarrow> kern \<Rightarrow> kern option" where
  "au_free_opts opts k = opt_loop free_opt opts k"

section \<open>Parsing\<close>

text \<open>
  The first part of a string up to a separator, and the rest behind it, if there is a
  separator. The C code writes a null byte over the separator.
\<close>

definition strsep :: "byte \<Rightarrow> byte list \<Rightarrow> byte list \<times> byte list option" where
  "strsep c s = (takeWhile (\<lambda>b. b \<noteq> c) s,
     case dropWhile (\<lambda>b. b \<noteq> c) s of [] \<Rightarrow> None | _ # r \<Rightarrow> Some r)"

definition comma :: byte where "comma = 44"
definition colon :: byte where "colon = 58"
definition equals :: byte where "equals = 61"

lemma strsep_shorter: "strsep c s = (t, Some r) \<Longrightarrow> length r < length s"
  using length_dropWhile_le [of "\<lambda>b. b \<noteq> c" s]
  by (auto simp: strsep_def split: list.splits)

text \<open>
  One slot for a branch. On an error the slot keeps its type, \<open>Opt_tail\<close>, and its
  union is not read again.
\<close>

definition opt_add_slot ::
    "parser \<Rightarrow> vfs \<Rightarrow> bool \<Rightarrow> opt_slot \<Rightarrow> byte list \<Rightarrow> int \<Rightarrow> kern \<Rightarrow> (int \<times> opt_slot \<times> kern) option" where
  "opt_add_slot ps vf rdonly opt opt_str bindex k =
     do { let (path, p) = strsep equals opt_str;
          let dflt = (if bindex = 0 \<and> \<not> rdonly then AuBr_RW else AuBr_RO);
          perm \<leftarrow> (case p of Some p \<Rightarrow> if p \<noteq> [] then br_perm_val ps p else Some dflt | None \<Rightarrow> Some dflt);
          let (r, k) = vf_path_lookup vf path k;
          case r of
            Inr (d, m) \<Rightarrow> Some (0, \<lparr>op_type = Opt_add, op_u = U_add \<lparr>oa_bindex = bindex, oa_path = path,
                            oa_perm = perm, oa_dentry = d, oa_mnt = m\<rparr>\<rparr>, k)
          | Inl _ \<Rightarrow> Some (- EINVAL, opt, k) }"

text \<open>The place in the array, the array, the next index of a branch and the objects.\<close>

record parse_st =
  pr_opt :: int
  pr_opts :: "opt_slot list"
  pr_bindex :: int
  pr_k :: kern

definition set_type :: "int \<Rightarrow> opt_type \<Rightarrow> opt_slot list \<Rightarrow> opt_slot list option" where
  "set_type i t opts = do { opt \<leftarrow> aget opts i; aset opts i (opt\<lparr>op_type := t\<rparr>) }"

text \<open>The branches of \<open>br=\<close>; the results are \<open>err\<close> and \<open>skipped\<close>.\<close>

function parse_br ::
    "parser \<Rightarrow> vfs \<Rightarrow> bool \<Rightarrow> int \<Rightarrow> byte list \<Rightarrow> bool \<Rightarrow> parse_st \<Rightarrow> (int \<times> bool \<times> parse_st) option" where
  "parse_br ps vf rdonly opt_tail s skipped st =
     (let (opt_str, rest) = strsep colon s
      in if opt_str = [] then Some (0, skipped, st)
         else do { opt \<leftarrow> aget (pr_opts st) (pr_opt st);
                   (err, opt, k) \<leftarrow> opt_add_slot ps vf rdonly opt opt_str (pr_bindex st) (pr_k st);
                   opts \<leftarrow> aset (pr_opts st) (pr_opt st) opt;
                   let st = st\<lparr>pr_opts := opts, pr_k := k, pr_bindex := to_bindex (pr_bindex st + 1)\<rparr>;
                   let st = (if err = 0 then st\<lparr>pr_opt := pr_opt st + 1\<rparr> else st);
                   if err = 0 \<and> opt_tail < pr_opt st then Some (- E2BIG, skipped, st)
                   else do { opts \<leftarrow> set_type (pr_opt st) Opt_tail (pr_opts st);
                             let st = st\<lparr>pr_opts := opts\<rparr>;
                             if err \<noteq> 0 then Some (err, True, st)
                             else case rest of None \<Rightarrow> Some (0, True, st)
                                  | Some s \<Rightarrow> parse_br ps vf rdonly opt_tail s True st } })"
  by pat_completeness auto
termination
  by (relation "measure (\<lambda>(ps, vf, rdonly, opt_tail, s, skipped, st). length s)")
    (auto dest!: sym [of "(_, _)" "strsep _ _"] simp: strsep_shorter)

declare parse_br.simps [simp del]

text \<open>Storing an option in the slot at hand.\<close>

definition put_slot :: "opt_type \<Rightarrow> opt_u \<Rightarrow> parse_st \<Rightarrow> parse_st option" where
  "put_slot t u st =
     map_option (\<lambda>opts. st\<lparr>pr_opts := opts\<rparr>) (aset (pr_opts st) (pr_opt st) \<lparr>op_type = t, op_u = u\<rparr>)"

text \<open>The hidden root of \<open>del\<close> and \<open>mod\<close> keeps its dentry, not its mount.\<close>

definition lookup_root :: "vfs \<Rightarrow> byte list \<Rightarrow> kern \<Rightarrow> (int + nat) \<times> kern" where
  "lookup_root vf path k =
     (case vf_path_lookup vf path k of
        (Inl err, k) \<Rightarrow> (Inl err, k)
      | (Inr nd, k) \<Rightarrow> (Inr (fst nd), path_release nd (dget (fst nd) k)))"

definition parse_xino ::
    "vfs \<Rightarrow> nat \<Rightarrow> byte list \<Rightarrow> parse_st \<Rightarrow> (int \<times> parse_st) option" where
  "parse_xino vf addr path st =
     do { (r, k) \<leftarrow> xino_create vf addr path (pr_k st);
          let st = st\<lparr>pr_k := k\<rparr>;
          case r of
            Inl err \<Rightarrow> Some (err, st)
          | Inr file \<Rightarrow>
              if k_dsb k (k_fdentry k file) = addr then Some (- EINVAL, st\<lparr>pr_k := fput file k\<rparr>)
              else do { st \<leftarrow> put_slot Opt_xino (U_xino \<lparr>ox_path = path, ox_file = file\<rparr>) st; Some (0, st) } }"

text \<open>One option; the results are \<open>err\<close> and \<open>skipped\<close>.\<close>

definition parse_opt ::
    "parser \<Rightarrow> vfs \<Rightarrow> nat \<Rightarrow> bool \<Rightarrow> int \<Rightarrow> opt_type \<Rightarrow> byte list list \<Rightarrow> parse_st
       \<Rightarrow> (int \<times> bool \<times> parse_st) option" where
  "parse_opt ps vf addr rdonly opt_tail token args st =
     (if token = Opt_br then do { a \<leftarrow> aget args 0; parse_br ps vf rdonly opt_tail a False st }
      else if token = Opt_add
      then do { a \<leftarrow> aget args 0;
                case ps_int ps a of
                  None \<Rightarrow> Some (- EINVAL, False, st)
                | Some n \<Rightarrow>
                    do { let st = st\<lparr>pr_bindex := to_bindex n\<rparr>;
                         a \<leftarrow> aget args 1;
                         opt \<leftarrow> aget (pr_opts st) (pr_opt st);
                         (err, opt, k) \<leftarrow> opt_add_slot ps vf rdonly opt a (pr_bindex st) (pr_k st);
                         opts \<leftarrow> aset (pr_opts st) (pr_opt st) opt;
                         Some (err, False, st\<lparr>pr_opts := opts, pr_k := k\<rparr>) } }
      else if token = Opt_append \<or> token = Opt_prepend
      then do { a \<leftarrow> aget args 0;
                opt \<leftarrow> aget (pr_opts st) (pr_opt st);
                (err, opt, k) \<leftarrow> opt_add_slot ps vf rdonly opt a 1 (pr_k st);
                opts \<leftarrow> aset (pr_opts st) (pr_opt st) (if err = 0 then opt\<lparr>op_type := token\<rparr> else opt);
                Some (err, False, st\<lparr>pr_opts := opts, pr_k := k\<rparr>) }
      else if token = Opt_del
      then do { a \<leftarrow> aget args 0;
                case lookup_root vf a (pr_k st) of
                  (Inl err, k) \<Rightarrow> Some (err, False, st\<lparr>pr_k := k\<rparr>)
                | (Inr d, k) \<Rightarrow>
                    do { st \<leftarrow> put_slot token (U_del \<lparr>od_path = a, od_h_root = d\<rparr>) (st\<lparr>pr_k := k\<rparr>);
                         Some (0, False, st) } }
      else if token = Opt_mod
      then do { a \<leftarrow> aget args 0;
                case strsep equals a of
                  (_, None) \<Rightarrow> Some (- EINVAL, False, st)
                | (path, Some p) \<Rightarrow>
                    do { perm \<leftarrow> br_perm_val ps p;
                         case lookup_root vf path (pr_k st) of
                           (Inl err, k) \<Rightarrow> Some (err, False, st\<lparr>pr_k := k\<rparr>)
                         | (Inr d, k) \<Rightarrow>
                             do { st \<leftarrow> put_slot token (U_mod \<lparr>om_path = path, om_perm = perm, om_h_root = d\<rparr>)
                                          (st\<lparr>pr_k := k\<rparr>);
                                  Some (0, False, st) } } }
      else if token = Opt_xino
      then do { a \<leftarrow> aget args 0;
                (err, st) \<leftarrow> parse_xino vf addr a st;
                Some (err, False, st) }
      else if token = Opt_dirwh \<or> token = Opt_rdcache
      then do { a \<leftarrow> aget args 0;
                case ps_int ps a of
                  None \<Rightarrow> Some (- EINVAL, False, st)
                | Some n \<Rightarrow> do { st \<leftarrow> put_slot token (if token = Opt_dirwh then U_dirwh n else U_rdcache n) st;
                                 Some (0, False, st) } }
      else if token \<in> {Opt_noxino, Opt_plink, Opt_noplink, Opt_list_plink, Opt_clean_plink, Opt_diropq_a,
                       Opt_diropq_w, Opt_warn_perm, Opt_nowarn_perm, Opt_dlgt, Opt_nodlgt}
      then do { opts \<leftarrow> set_type (pr_opt st) token (pr_opts st);
                Some (0, False, st\<lparr>pr_opts := opts\<rparr>) }
      else if token = Opt_udba
      then do { a \<leftarrow> aget args 0;
                let n = udba_val ps a;
                if 0 \<le> n then do { st \<leftarrow> put_slot token (U_udba n) st; Some (0, False, st) }
                else Some (- EINVAL, False, st) }
      else if token = Opt_ignore then Some (0, True, st)
      else Some (- EINVAL, False, st))"

text \<open>The step to the next slot; when there is none the last option is overwritten.\<close>

definition next_slot :: "int \<Rightarrow> parse_st \<Rightarrow> (int \<times> parse_st) option" where
  "next_slot opt_tail st =
     do { let full = opt_tail < pr_opt st + 1;
          let i = (if full then pr_opt st else pr_opt st + 1);
          opts \<leftarrow> set_type i Opt_tail (pr_opts st);
          Some (if full then - E2BIG else 0, st\<lparr>pr_opt := i, pr_opts := opts\<rparr>) }"

function parse_loop ::
    "parser \<Rightarrow> vfs \<Rightarrow> nat \<Rightarrow> bool \<Rightarrow> int \<Rightarrow> byte list \<Rightarrow> parse_st \<Rightarrow> (int \<times> parse_st) option" where
  "parse_loop ps vf addr rdonly opt_tail str st =
     (let (opt_str, rest) = strsep comma str
      in if opt_str = [] then Some (0, st)
         else do { let (token, args) = match_token ps opt_str options;
                   (err, skipped, st) \<leftarrow> parse_opt ps vf addr rdonly opt_tail token args st;
                   (err, st) \<leftarrow> (if err = 0 \<and> \<not> skipped then next_slot opt_tail st else Some (err, st));
                   if err \<noteq> 0 then Some (err, st)
                   else case rest of None \<Rightarrow> Some (0, st)
                        | Some str \<Rightarrow> parse_loop ps vf addr rdonly opt_tail str st })"
  by pat_completeness auto
termination
  by (relation "measure (\<lambda>(ps, vf, addr, rdonly, opt_tail, str, st). length str)")
    (auto dest!: sym [of "(_, _)" "strsep _ _"] simp: strsep_shorter)

declare parse_loop.simps [simp del]

text \<open>\<open>max_opt\<close> is the number of slots. On an error the objects of the slots are released.\<close>

definition au_parse_opts ::
    "parser \<Rightarrow> vfs \<Rightarrow> nat \<Rightarrow> bool \<Rightarrow> int \<Rightarrow> byte list \<Rightarrow> opt_slot list \<Rightarrow> kern
       \<Rightarrow> (int \<times> opt_slot list \<times> kern) option" where
  "au_parse_opts ps vf addr rdonly max_opt str opts k =
     do { opts \<leftarrow> set_type 0 Opt_tail opts;
          (err, st) \<leftarrow> parse_loop ps vf addr rdonly (max_opt - 1) str
             \<lparr>pr_opt = 0, pr_opts = opts, pr_bindex = 0, pr_k = k\<rparr>;
          k \<leftarrow> (if err \<noteq> 0 then au_free_opts (pr_opts st) (pr_k st) else Some (pr_k st));
          Some (err, pr_opts st, k) }"

section \<open>Executing options\<close>

text \<open>
  Storing an \<open>int\<close> in the \<open>unsigned int si_dirwh\<close>, and the product with \<open>HZ\<close> in the
  \<open>unsigned long si_rdcache\<close>.
\<close>

definition rdcache_jiffies :: "int \<Rightarrow> int \<Rightarrow> int" where
  "rdcache_jiffies hz n = sint (word_of_int (n * hz) :: 32 word) mod 2 ^ 64"

text \<open>1: handled, 0: not a simple option. \<open>given\<close> collects the flags the options name.\<close>

definition au_do_opt_simple ::
    "int \<Rightarrow> opt_slot \<Rightarrow> aufs_sb \<Rightarrow> 32 word \<Rightarrow> kern \<Rightarrow> (int \<times> aufs_sb \<times> 32 word \<times> kern) option" where
  "au_do_opt_simple hz opt sb given k =
     (case op_type opt of
        Opt_udba \<Rightarrow> do { n \<leftarrow> u_int (op_u opt);
                         let f = word_of_int n;
                         Some (1, udba_set f sb, given OR f, k) }
      | Opt_plink \<Rightarrow> Some (1, au_flag_set AuFlag_PLINK sb, given OR AuFlag_PLINK, k)
      | Opt_noplink \<Rightarrow>
          do { (sb, k) \<leftarrow> (if au_flag_test sb AuFlag_PLINK \<noteq> 0 then au_put_plink sb k else Some (sb, k));
               Some (1, au_flag_clr AuFlag_PLINK sb, given OR AuFlag_PLINK, k) }
      | Opt_list_plink \<Rightarrow> Some (1, sb, given, k)
      | Opt_clean_plink \<Rightarrow>
          do { (sb, k) \<leftarrow> (if au_flag_test sb AuFlag_PLINK \<noteq> 0 then au_put_plink sb k else Some (sb, k));
               Some (1, sb, given, k) }
      | Opt_diropq_a \<Rightarrow> Some (1, au_flag_set AuFlag_ALWAYS_DIROPQ sb, given OR AuFlag_ALWAYS_DIROPQ, k)
      | Opt_diropq_w \<Rightarrow> Some (1, au_flag_clr AuFlag_ALWAYS_DIROPQ sb, given OR AuFlag_ALWAYS_DIROPQ, k)
      | Opt_dlgt \<Rightarrow> Some (1, au_flag_set AuFlag_DLGT sb, given OR AuFlag_DLGT, k)
      | Opt_nodlgt \<Rightarrow> Some (1, au_flag_clr AuFlag_DLGT sb, given OR AuFlag_DLGT, k)
      | Opt_warn_perm \<Rightarrow> Some (1, au_flag_set AuFlag_WARN_PERM sb, given OR AuFlag_WARN_PERM, k)
      | Opt_nowarn_perm \<Rightarrow> Some (1, au_flag_clr AuFlag_WARN_PERM sb, given OR AuFlag_WARN_PERM, k)
      | Opt_coo \<Rightarrow> do { n \<leftarrow> u_int (op_u opt);
                        let f = word_of_int n;
                        Some (1, coo_set f sb, given OR f, k) }
      | Opt_dirwh \<Rightarrow> do { n \<leftarrow> u_int (op_u opt); Some (1, sb\<lparr>si_dirwh := n mod 2 ^ 32\<rparr>, given, k) }
      | Opt_rdcache \<Rightarrow> do { n \<leftarrow> u_int (op_u opt);
                            Some (1, sb\<lparr>si_rdcache := rdcache_jiffies hz n\<rparr>, given, k) }
      | _ \<Rightarrow> Some (0, sb, given, k))"

text \<open>
  What a mount works on: the superblock, the root dentry and its inode, the other aufs
  inodes, the dentries below the root, the open files, and the kernel objects; and the
  parameters of the branch operations.
\<close>

record mount_st =
  ms_sb :: aufs_sb
  ms_root :: aufs_dentry
  ms_dir :: aufs_inode
  ms_inodes :: "nat \<Rightarrow> aufs_inode"
  ms_ds :: "aufs_dentry list"
  ms_k :: kern

record mount_env =
  me_xino :: xino_env
  me_vfs :: vfs
  me_addr :: nat
  me_loop :: "nat \<Rightarrow> nat option"
  me_pages :: int
  me_reval :: "aufs_dentry \<Rightarrow> kern \<Rightarrow> int \<times> aufs_dentry \<times> kern"
  me_files :: "sb_file list"
  me_hz :: int

text \<open>1: handled, 0: not a branch option, or the error. The flag is \<open>*do_refresh\<close>.\<close>

definition au_do_opt_br ::
    "mount_env \<Rightarrow> opt_slot \<Rightarrow> bool \<Rightarrow> bool \<Rightarrow> mount_st \<Rightarrow> (int \<times> bool \<times> mount_st) option" where
  "au_do_opt_br e opt remount do_refresh ms =
     (if op_type opt \<in> {Opt_append, Opt_prepend, Opt_add}
      then do { add \<leftarrow> u_add (op_u opt);
                let add = (if op_type opt = Opt_append then add\<lparr>oa_bindex := to_bindex (sbend (ms_sb ms) + 1)\<rparr>
                           else if op_type opt = Opt_prepend then add\<lparr>oa_bindex := 0\<rparr> else add);
                (err, sb, root, dir, k) \<leftarrow> br_add (me_xino e) (me_vfs e) (me_addr e) (me_loop e) add remount
                   (ms_sb ms) (ms_root ms) (ms_dir ms) (ms_k ms);
                let ms = ms\<lparr>ms_sb := sb, ms_root := root, ms_dir := dir, ms_k := k\<rparr>;
                Some (if err = 0 then 1 else err, err = 0 \<or> do_refresh, ms) }
      else if op_type opt \<in> {Opt_del, Opt_idel}
      then do { del \<leftarrow> u_del (op_u opt);
                (err, ds, inodes, sb, root, dir, k) \<leftarrow> br_del (me_xino e) (me_vfs e) (me_pages e) (me_reval e) del
                   remount (ms_ds ms) (ms_inodes ms) (ms_sb ms) (ms_root ms) (ms_dir ms) (ms_k ms);
                let ms = ms\<lparr>ms_sb := sb, ms_root := root, ms_dir := dir, ms_inodes := inodes, ms_ds := ds,
                            ms_k := k\<rparr>;
                Some (if err = 0 then 1 else err, err = 0 \<or> do_refresh, ms) }
      else if op_type opt \<in> {Opt_mod, Opt_imod}
      then do { m \<leftarrow> u_mod (op_u opt);
                (err, do_refresh, sb, k) \<leftarrow> br_mod (me_vfs e) m remount do_refresh (me_files e) (ms_sb ms)
                   (ms_root ms) (ms_k ms);
                Some (if err = 0 then 1 else err, do_refresh, ms\<lparr>ms_sb := sb, ms_k := k\<rparr>) }
      else Some (0, do_refresh, ms))"

text \<open>The second result is the new \<open>*opt_xino\<close>, the option in force.\<close>

definition au_do_opt_xino ::
    "mount_env \<Rightarrow> opt_slot \<Rightarrow> bool \<Rightarrow> opt_xino option \<Rightarrow> mount_st \<Rightarrow> (int \<times> opt_xino option \<times> mount_st) option" where
  "au_do_opt_xino e opt remount cur ms =
     (if op_type opt = Opt_xino
      then do { x \<leftarrow> u_xino (op_u opt);
                (err, sb, k) \<leftarrow> xino_set (me_xino e) (me_vfs e) (ms_dir ms) (ox_file x) remount (ms_sb ms) (ms_k ms);
                Some (err, if err = 0 then Some x else cur, ms\<lparr>ms_sb := sb, ms_k := k\<rparr>) }
      else if op_type opt = Opt_noxino
      then do { (err, sb, k) \<leftarrow> xino_clr (ms_sb ms) (ms_k ms);
                Some (err, cur, ms\<lparr>ms_sb := sb, ms_k := k\<rparr>) }
      else Some (0, cur, ms))"

text \<open>Whether the whiteout base of a branch is already as its permission demands.\<close>

definition wh_fits :: "32 word \<Rightarrow> aufs_branch \<Rightarrow> bool option" where
  "wh_fits do_plink br =
     (let plink_fits = (if do_plink \<noteq> 0 then br_plink br \<noteq> None else br_plink br = None)
      in case br_perm br of
           AuBr_RR \<Rightarrow> Some (br_wh br = None \<and> br_plink br = None)
         | AuBr_RO \<Rightarrow> Some (br_wh br = None \<and> br_plink br = None)
         | AuBr_RRWH \<Rightarrow> Some (br_wh br = None \<and> br_plink br = None)
         | AuBr_ROWH \<Rightarrow> Some (br_wh br = None \<and> br_plink br = None)
         | AuBr_RWNoLinkWH \<Rightarrow> Some (br_wh br = None \<and> plink_fits)
         | AuBr_RW \<Rightarrow> Some (br_wh br \<noteq> None \<and> plink_fits)
         | AuBr_Last \<Rightarrow> None)"

definition verify_branch ::
    "vfs \<Rightarrow> aufs_dentry \<Rightarrow> aufs_inode \<Rightarrow> 32 word \<Rightarrow> int \<Rightarrow> int \<times> aufs_sb \<times> kern
       \<Rightarrow> (bool \<times> int \<times> aufs_sb \<times> kern) option" where
  "verify_branch vf root dir do_plink bindex = (\<lambda>(err, sb, k).
     do { _ \<leftarrow> au_h_iptr_i k dir bindex;
          br \<leftarrow> stobr sb bindex;
          skip \<leftarrow> wh_fits do_plink (s_br sb br);
          if skip then Some (True, err, sb, k)
          else do { h \<leftarrow> au_h_dptr_i k root bindex; h \<leftarrow> h;
                    (err, sb, k) \<leftarrow> init_wh vf h br sb k;
                    Some (err = 0, err, sb, k) } })"

definition verify_opts ::
    "vfs \<Rightarrow> aufs_dentry \<Rightarrow> aufs_inode \<Rightarrow> aufs_sb \<Rightarrow> kern \<Rightarrow> (int \<times> aufs_sb \<times> kern) option" where
  "verify_opts vf root dir sb k =
     do { _ \<leftarrow> (if s_rdonly sb then Some () else map_option (\<lambda>_. ()) (sbr_perm sb 0));
          for_up (verify_branch vf root dir (au_flag_test sb AuFlag_PLINK)) 0 (sbend sb) (0, sb, k) }"

definition run_verify :: "mount_env \<Rightarrow> mount_st \<Rightarrow> (int \<times> mount_st) option" where
  "run_verify e ms =
     do { (err, sb, k) \<leftarrow> verify_opts (me_vfs e) (ms_root ms) (ms_dir ms) (ms_sb ms) (ms_k ms);
          Some (err, ms\<lparr>ms_sb := sb, ms_k := k\<rparr>) }"

section \<open>Mounting\<close>

definition upd_sb :: "(aufs_sb \<Rightarrow> aufs_sb) \<Rightarrow> mount_st \<Rightarrow> mount_st" where
  "upd_sb f ms = ms\<lparr>ms_sb := f (ms_sb ms)\<rparr>"

text \<open>The rounds of the three loops over the options; an error ends a loop.\<close>

definition simple_round ::
    "mount_env \<Rightarrow> opt_slot \<Rightarrow> int \<times> 32 word \<times> mount_st \<Rightarrow> (bool \<times> int \<times> 32 word \<times> mount_st) option" where
  "simple_round e opt = (\<lambda>(err, given, ms).
     do { (err, sb, given, k) \<leftarrow> au_do_opt_simple (me_hz e) opt (ms_sb ms) given (ms_k ms);
          Some (0 \<le> err, err, given, ms\<lparr>ms_sb := sb, ms_k := k\<rparr>) })"

definition br_round ::
    "mount_env \<Rightarrow> opt_slot \<Rightarrow> int \<times> bool \<times> mount_st \<Rightarrow> (bool \<times> int \<times> bool \<times> mount_st) option" where
  "br_round e opt = (\<lambda>(err, do_refresh, ms).
     do { (err, do_refresh, ms) \<leftarrow> au_do_opt_br e opt False do_refresh ms;
          Some (0 \<le> err, err, do_refresh, ms) })"

definition xino_round ::
    "mount_env \<Rightarrow> opt_slot \<Rightarrow> int \<times> opt_xino option \<times> mount_st \<Rightarrow> (bool \<times> int \<times> opt_xino option \<times> mount_st) option" where
  "xino_round e opt = (\<lambda>(err, cur, ms).
     do { (err, cur, ms) \<leftarrow> au_do_opt_xino e opt False cur ms;
          Some (err = 0, err, cur, ms) })"

text \<open>The default table of inode numbers, for every branch; its file is closed again.\<close>

definition def_xino_round ::
    "mount_env \<Rightarrow> nat \<Rightarrow> int \<Rightarrow> int \<times> mount_st \<Rightarrow> (bool \<times> int \<times> mount_st) option" where
  "def_xino_round e xfile bindex = (\<lambda>(err, ms).
     do { (err, sb, k) \<leftarrow> xino_init (me_xino e) (me_vfs e) (ms_dir ms) bindex (Some xfile) (bindex \<noteq> 0)
             (ms_sb ms) (ms_k ms);
          Some (err = 0, err, ms\<lparr>ms_sb := sb, ms_k := k\<rparr>) })"

definition enable_xino :: "mount_env \<Rightarrow> opt_xino option \<Rightarrow> int \<Rightarrow> mount_st \<Rightarrow> (int \<times> mount_st) option" where
  "enable_xino e opt_xino bend ms =
     (if au_flag_test (ms_sb ms) AuFlag_XINO \<noteq> 0 \<and> opt_xino = None
      then do { (r, k) \<leftarrow> xino_def (me_vfs e) (me_addr e) (ms_root ms) (ms_sb ms) (ms_k ms);
                let ms = ms\<lparr>ms_k := k\<rparr>;
                case r of
                  Inl err \<Rightarrow> Some (err, ms)
                | Inr file \<Rightarrow>
                    do { (err, ms) \<leftarrow> for_up (def_xino_round e file) 0 bend (0, ms);
                         Some (err, ms\<lparr>ms_k := fput file (ms_k ms)\<rparr>) } }
      else Some (0, ms))"

text \<open>The end of a mount: the flags that were off while the branches were added come back.\<close>

definition restore_flags :: "32 word \<Rightarrow> aufs_sb \<Rightarrow> aufs_sb" where
  "restore_flags flags sb =
     (let sb = udba_set (flags AND AuMask_UDBA) sb
      in if flags AND AuFlag_DLGT \<noteq> 0 then au_flag_set AuFlag_DLGT sb else sb)"

text \<open>The third part of a mount: tables, whiteout bases, flags.\<close>

definition mount_xino :: "mount_env \<Rightarrow> opt_slot list \<Rightarrow> 32 word \<Rightarrow> mount_st \<Rightarrow> (int \<times> mount_st) option" where
  "mount_xino e opts flags ms =
     do { let bend = sbend (ms_sb ms);
          if bend < 0 then Some (- EINVAL, ms)
          else do { let ms = (if flags AND AuFlag_XINO \<noteq> 0 then upd_sb (au_flag_set AuFlag_XINO) ms else ms);
                    (err, opt_xino, ms) \<leftarrow> opt_loop (xino_round e) opts (0, None, ms);
                    if err \<noteq> 0 then Some (err, ms)
                    else do { (err, ms) \<leftarrow> run_verify e ms;
                              _ \<leftarrow> debug_on (err \<noteq> 0);
                              (err, ms) \<leftarrow> enable_xino e opt_xino bend ms;
                              if err \<noteq> 0 then Some (err, ms)
                              else Some (0, upd_sb (restore_flags flags) ms) } } }"

definition au_do_opts_mount :: "mount_env \<Rightarrow> opt_slot list \<Rightarrow> mount_st \<Rightarrow> (int \<times> mount_st) option" where
  "au_do_opts_mount e opts ms =
     do { (err, _, ms) \<leftarrow> opt_loop (simple_round e) opts (0, 0, ms);
          if err < 0 then Some (err, ms)
          else do { let flags = au_flag_test (ms_sb ms) (AuFlag_XINO OR AuMask_UDBA OR AuFlag_DLGT);
                    let ms = upd_sb (au_flag_clr (AuFlag_XINO OR AuFlag_DLGT)) ms;
                    let ms = upd_sb (udba_set AuFlag_UDBA_REVAL) ms;
                    (err, _, ms) \<leftarrow> opt_loop (br_round e) opts (0, False, ms);
                    if err < 0 then Some (err, ms) else mount_xino e opts flags ms } }"

section \<open>Remounting\<close>

text \<open>Each option is tried as a simple one, a branch option and a table option.\<close>

definition remount_round ::
    "mount_env \<Rightarrow> opt_slot \<Rightarrow> int \<times> 32 word \<times> bool \<times> 32 word \<times> opt_xino option \<times> mount_st
       \<Rightarrow> (bool \<times> int \<times> 32 word \<times> bool \<times> 32 word \<times> opt_xino option \<times> mount_st) option" where
  "remount_round e opt = (\<lambda>(_, given, do_refresh, _, cur, ms).
     do { (err, sb, given, k) \<leftarrow> au_do_opt_simple (me_hz e) opt (ms_sb ms) given (ms_k ms);
          let dlgt = au_flag_test sb AuFlag_DLGT;
          let ms = ms\<lparr>ms_sb := au_flag_clr AuFlag_DLGT sb, ms_k := k\<rparr>;
          (err, do_refresh, ms) \<leftarrow> (if err = 0 then au_do_opt_br e opt True do_refresh ms
                                    else Some (err, do_refresh, ms));
          (err, cur, ms) \<leftarrow> (if err = 0 then au_do_opt_xino e opt True cur ms else Some (err, cur, ms));
          Some (0 \<le> err, err, given, do_refresh, dlgt, cur, upd_sb (au_flag_set dlgt) ms) })"

text \<open>The results are the error, \<open>*do_refresh\<close> and \<open>*given\<close>; the error of \<open>verify_opts\<close> is dropped.\<close>

definition au_do_opts_remount ::
    "mount_env \<Rightarrow> opt_slot list \<Rightarrow> mount_st \<Rightarrow> (int \<times> bool \<times> 32 word \<times> mount_st) option" where
  "au_do_opts_remount e opts ms =
     do { (err, given, do_refresh, dlgt, _, ms) \<leftarrow> opt_loop (remount_round e) opts
             (0, 0, False, au_flag_test (ms_sb ms) AuFlag_DLGT, None, ms);
          let err = (if 0 < err then 0 else err);
          let ms = upd_sb (au_flag_clr AuFlag_DLGT) ms;
          (_, ms) \<leftarrow> run_verify e ms;
          let ms = upd_sb (au_flag_set dlgt) ms;
          let do_refresh = (do_refresh \<or> given AND AuMask_UDBA \<noteq> 0 \<or> au_flag_test (ms_sb ms) AuFlag_XINO \<noteq> 0);
          Some (err, do_refresh, given, ms) }"

end
