(* ===== verification/Aufs_Opts_Parse.thy ===== *)
theory Aufs_Opts_Parse
  imports Aufs_Opts
begin

text \<open>
  The option parser (opts.c). Shown: the slots a successful parse leaves are well typed
  up to \<open>Opt_tail\<close>, so that releasing and executing them reads no wrong member and no
  memory behind the array; permission names are read back; and two errors, an empty path
  in \<open>br=\<close> loses all options behind it, and more branches than slots overrun the array.
\<close>

section \<open>Well-typed slots\<close>

definition udba_levels :: "int set" where
  "udba_levels = {uint AuFlag_UDBA_REVAL, uint AuFlag_UDBA_NONE}"

text \<open>The options without a value.\<close>

definition bare_opts :: "opt_type set" where
  "bare_opts = {Opt_noxino, Opt_plink, Opt_noplink, Opt_list_plink, Opt_clean_plink, Opt_diropq_a,
     Opt_diropq_w, Opt_warn_perm, Opt_nowarn_perm, Opt_dlgt, Opt_nodlgt}"

definition slot_typed :: "opt_slot \<Rightarrow> bool" where
  "slot_typed opt \<longleftrightarrow>
     (case op_u opt of
        U_add a \<Rightarrow> op_type opt \<in> {Opt_add, Opt_append, Opt_prepend} \<and> - 128 \<le> oa_bindex a \<and> oa_bindex a < 128
      | U_del _ \<Rightarrow> op_type opt = Opt_del
      | U_mod _ \<Rightarrow> op_type opt = Opt_mod
      | U_xino _ \<Rightarrow> op_type opt = Opt_xino
      | U_dirwh _ \<Rightarrow> op_type opt = Opt_dirwh
      | U_rdcache _ \<Rightarrow> op_type opt = Opt_rdcache
      | U_udba n \<Rightarrow> op_type opt = Opt_udba \<and> n \<in> udba_levels
      | U_coo _ \<Rightarrow> False)
     \<or> op_type opt \<in> bare_opts \<or> op_type opt = Opt_tail"

text \<open>The slots up to the end mark, which must be there.\<close>

fun opts_ok :: "opt_slot list \<Rightarrow> bool" where
  "opts_ok [] = False"
| "opts_ok (opt # opts) = (op_type opt = Opt_tail \<or> slot_typed opt \<and> opts_ok opts)"

lemma opts_okI: "op_type (opts ! n) = Opt_tail \<Longrightarrow> n < length opts \<Longrightarrow> \<forall>j < n. slot_typed (opts ! j) \<Longrightarrow> opts_ok opts"
proof (induction opts arbitrary: n)
  case (Cons opt opts)
  show ?case
  proof (cases n)
    case (Suc m)
    have "opts_ok opts" by (rule Cons.IH [of m]) (use Cons.prems Suc in auto)
    moreover have "slot_typed opt" using Cons.prems(3) Suc by force
    ultimately show ?thesis by simp
  qed (use Cons.prems in simp)
qed simp

lemma free_opt_typed: "slot_typed opt \<Longrightarrow> op_type opt \<noteq> Opt_tail \<Longrightarrow> \<exists>k'. free_opt opt k = Some (True, k')"
  by (cases "op_u opt"; cases "op_type opt") (simp_all add: slot_typed_def free_opt_def bare_opts_def)

lemma au_free_opts_typed: "opts_ok opts \<Longrightarrow> \<exists>k'. au_free_opts opts k = Some k'"
proof (induction opts arbitrary: k)
  case (Cons opt opts)
  show ?case
  proof (cases "op_type opt = Opt_tail")
    case False
    with Cons.prems obtain k1 where "free_opt opt k = Some (True, k1)" using free_opt_typed by fastforce
    with Cons.IH [of k1] Cons.prems False show ?thesis by (simp add: au_free_opts_def)
  qed (simp add: au_free_opts_def)
qed simp

text \<open>The states of the parser: before the next option, and after one was stored.\<close>

definition slots_typed :: "nat \<Rightarrow> parse_st \<Rightarrow> bool" where
  "slots_typed n st \<longleftrightarrow> 0 \<le> pr_opt st \<and> pr_opt st < int (length (pr_opts st))
     \<and> - 128 \<le> pr_bindex st \<and> pr_bindex st < 128 \<and> (\<forall>j < n. slot_typed (pr_opts st ! j))"

definition ready :: "parse_st \<Rightarrow> bool" where
  "ready st \<longleftrightarrow> slots_typed (nat (pr_opt st)) st \<and> op_type (pr_opts st ! nat (pr_opt st)) = Opt_tail"

definition stored :: "parse_st \<Rightarrow> bool" where
  "stored st \<longleftrightarrow> slots_typed (Suc (nat (pr_opt st))) st"

text \<open>The parser goes forward only.\<close>

definition onward :: "parse_st \<Rightarrow> parse_st \<Rightarrow> bool" where
  "onward st st' \<longleftrightarrow> pr_opt st \<le> pr_opt st' \<and> length (pr_opts st') = length (pr_opts st)
     \<and> (\<forall>j < nat (pr_opt st). pr_opts st' ! j = pr_opts st ! j)"

lemma onward_refl [simp]: "onward st st"
  and onward_trans: "onward st st1 \<Longrightarrow> onward st1 st2 \<Longrightarrow> onward st st2"
  by (auto simp: onward_def)

text \<open>The kernel's matcher picks one of the patterns.\<close>

definition parser_ok :: "parser \<Rightarrow> bool" where
  "parser_ok ps \<longleftrightarrow> (\<forall>s pats. pats \<noteq> [] \<longrightarrow> fst (ps_match ps s pats) < length pats)"

lemma match_token_in: "parser_ok ps \<Longrightarrow> tbl \<noteq> [] \<Longrightarrow> fst (match_token ps s tbl) \<in> fst ` set tbl"
  unfolding match_token_def parser_ok_def
  by (metis (mono_tags, lifting) case_prod_beta fst_conv image_eqI length_map map_is_Nil_conv nth_mem)

lemma udba_val_level: "parser_ok ps \<Longrightarrow> udba_val ps s = n \<Longrightarrow> 0 \<le> n \<Longrightarrow> n \<in> udba_levels"
  using match_token_in [of ps udbalevel s] by (auto simp: udba_val_def udbalevel_def udba_levels_def)

lemma opt_add_slot_typed:
  assumes "opt_add_slot ps vf ro opt str b k = Some (err, opt', k')" and "- 128 \<le> b" and "b < 128"
  shows "err \<noteq> 0 \<and> opt' = opt \<or> (err = 0 \<and> op_type opt' = Opt_add \<and> (\<exists>a. op_u opt' = U_add a \<and> oa_bindex a = b))"
proof -
  obtain path p where sep: "strsep equals str = (path, p)" by fastforce
  obtain r k1 where l: "vf_path_lookup vf path k = (r, k1)" by fastforce
  from assms(1) sep l show ?thesis by (cases r) (auto simp: opt_add_slot_def run_simps Let_def)
qed

lemma put_typed:
  assumes "ready st \<or> stored st" and "slot_typed opt"
    and "aset (pr_opts st) (pr_opt st) opt = Some opts"
  shows "stored (st\<lparr>pr_opts := opts\<rparr>) \<and> onward st (st\<lparr>pr_opts := opts\<rparr>)"
  using assms by (auto simp: ready_def stored_def slots_typed_def onward_def aset_Some_iff nth_list_update)

lemma ready_stored: "ready st \<Longrightarrow> stored st"
  by (auto simp: ready_def stored_def slots_typed_def slot_typed_def less_Suc_eq)

lemma frame_st [simp]:
  "ready (st\<lparr>pr_k := k\<rparr>) = ready st" "stored (st\<lparr>pr_k := k\<rparr>) = stored st"
  "onward st (st'\<lparr>pr_k := k\<rparr>) = onward st st'" "onward (st\<lparr>pr_k := k\<rparr>) st' = onward st st'"
  by (simp_all add: ready_def stored_def slots_typed_def onward_def)

lemma next_slot_typed:
  assumes "stored st" and "next_slot e st = Some (0, st')"
  shows "ready st' \<and> onward st st'"
  using assms unfolding next_slot_def set_type_def
  by (auto simp: run_simps Let_def stored_def ready_def slots_typed_def onward_def aset_Some_iff aget_Some_iff
      nth_list_update nat_add_distrib split: if_splits)

lemma parse_br_typed:
  assumes "parse_br ps vf ro e str skipped st = Some (0, skipped', st')" and "ready st"
  shows "ready st' \<and> onward st st' \<and> (skipped \<longrightarrow> skipped') \<and> (skipped' \<or> st' = st)"
  using assms
proof (induction "length str" arbitrary: str skipped st rule: less_induct)
  case less
  note 1 = less(1) less(2,3)
  obtain opt_str rest where sep: "strsep colon str = (opt_str, rest)" by fastforce
  show ?case
  proof (cases "opt_str = []")
    case True
    with 1 sep show ?thesis by (simp add: parse_br.simps [of ps])
  next
    case False
    let ?i = "pr_opt st"
    let ?bi = "to_bindex (pr_bindex st + 1)"
    have b: "- 128 \<le> pr_bindex st" "pr_bindex st < 128" using 1(3) by (auto simp: ready_def slots_typed_def)
    obtain opt where g: "aget (pr_opts st) ?i = Some opt" using 1(2) sep False
      by (auto simp: parse_br.simps [of ps] run_simps)
    obtain err opt1 k1 where a: "opt_add_slot ps vf ro opt opt_str (pr_bindex st) (pr_k st) = Some (err, opt1, k1)"
      using 1(2) sep False g by (auto simp: parse_br.simps [of ps] run_simps)
    obtain opts1 where s: "aset (pr_opts st) ?i opt1 = Some opts1"
      using 1(2) sep False g a by (auto simp: parse_br.simps [of ps] run_simps)
    have e0: "err = 0"
    proof (rule ccontr)
      assume "err \<noteq> 0"
      with 1(2) sep False g a s show False by (auto simp: parse_br.simps [of ps] run_simps Let_def)
    qed
    have e1: "\<not> e < ?i + 1" using 1(2) sep False g a s e0 by (auto simp: parse_br.simps [of ps] run_simps Let_def)
    obtain opts2 where t: "set_type (?i + 1) Opt_tail opts1 = Some opts2"
      using 1(2) sep False g a s e0 e1 by (auto simp: parse_br.simps [of ps] run_simps Let_def)
    let ?st2 = "st\<lparr>pr_k := k1, pr_bindex := ?bi, pr_opt := ?i + 1, pr_opts := opts2\<rparr>"
    have typed: "slot_typed opt1" using opt_add_slot_typed [OF a b] e0 b by (auto simp: slot_typed_def)
    have "ready ?st2 \<and> onward st ?st2"
      using put_typed [OF _ typed s] 1(3) t to_bindex_range [of "pr_bindex st + 1"] unfolding set_type_def
      by (auto simp: run_simps Let_def stored_def ready_def slots_typed_def onward_def aset_Some_iff aget_Some_iff
          nth_list_update nat_add_distrib split: if_splits)
    moreover have "(case rest of None \<Rightarrow> Some (0, True, ?st2) | Some s \<Rightarrow> parse_br ps vf ro e s True ?st2)
        = Some (0, skipped', st')"
      using 1(2) sep False g a s e0 e1 t by (simp add: parse_br.simps [of ps] run_simps Let_def)
    ultimately show ?thesis using 1(1) [of "the rest" True ?st2] strsep_shorter [of colon str opt_str "the rest"] sep
      by (cases rest) (auto intro: onward_trans)
  qed
qed

lemma put_slot_typed:
  assumes "ready st" and "put_slot t u st = Some st'" and "slot_typed \<lparr>op_type = t, op_u = u\<rparr>"
  shows "stored st' \<and> onward st st'"
  using put_typed [OF _ assms(3)] assms(1,2) by (auto simp: put_slot_def)

lemma add_slot_step:
  assumes "ready st" and "- 128 \<le> b" and "b < 128"
    and "aget (pr_opts st) (pr_opt st) = Some opt" and "opt_add_slot ps vf ro opt a b (pr_k st) = Some (0, opt1, k1)"
    and "aset (pr_opts st) (pr_opt st) opt2 = Some opts" and "opt2 = opt1 \<or> opt2 = opt1\<lparr>op_type := t\<rparr>"
    and "t \<in> {Opt_append, Opt_prepend}"
  shows "stored (st\<lparr>pr_opts := opts, pr_k := k1\<rparr>) \<and> onward st (st\<lparr>pr_opts := opts, pr_k := k1\<rparr>)"
proof -
  have "slot_typed opt2" using opt_add_slot_typed [OF assms(5,2,3)] assms(2,3,7,8) by (auto simp: slot_typed_def)
  from put_typed [OF _ this assms(6)] assms(1) show ?thesis by simp
qed

lemma ready_bindex: "ready st \<Longrightarrow> ready (st\<lparr>pr_bindex := to_bindex n\<rparr>)"
  and onward_bindex [simp]: "onward (st\<lparr>pr_bindex := n\<rparr>) st' = onward st st'"
  using to_bindex_range [of n] by (simp_all add: ready_def slots_typed_def onward_def)

lemma bare_typed:
  assumes "ready st" and "set_type (pr_opt st) t (pr_opts st) = Some opts" and "t \<in> bare_opts"
  shows "stored (st\<lparr>pr_opts := opts\<rparr>) \<and> onward st (st\<lparr>pr_opts := opts\<rparr>)"
proof -
  obtain opt where "aset (pr_opts st) (pr_opt st) (opt\<lparr>op_type := t\<rparr>) = Some opts"
    using assms(2) by (auto simp: set_type_def run_simps)
  moreover have "slot_typed (opt\<lparr>op_type := t\<rparr>)" using assms(3) by (simp add: slot_typed_def)
  ultimately show ?thesis using put_typed assms(1) by blast
qed

lemma parse_opt_typed:
  assumes ps: "parser_ok ps" and rd: "ready st"
    and r: "parse_opt ps vf addr ro e token args st = Some (0, skipped, st')"
  shows "onward st st' \<and> (if skipped then ready st' else stored st')"
proof (cases token)
  case Opt_br
  with r obtain a where "parse_br ps vf ro e a False st = Some (0, skipped, st')" by (auto simp: parse_opt_def run_simps)
  from parse_br_typed [OF this rd] rd show ?thesis by (auto dest: ready_stored)
next
  case Opt_add
  with r obtain n a opt opt1 k1 opts where
    s: "aget (pr_opts st) (pr_opt st) = Some opt" "opt_add_slot ps vf ro opt a (to_bindex n) (pr_k st) = Some (0, opt1, k1)"
      "aset (pr_opts st) (pr_opt st) opt1 = Some opts" and
    e: "st' = st\<lparr>pr_bindex := to_bindex n, pr_opts := opts, pr_k := k1\<rparr>" "\<not> skipped"
    by (auto simp: parse_opt_def run_simps Let_def split: option.splits)
  from add_slot_step [of "st\<lparr>pr_bindex := to_bindex n\<rparr>" "to_bindex n" opt ps vf ro a opt1 k1 opt1 opts Opt_append]
    ready_bindex [OF rd] to_bindex_range [of n] s show ?thesis by (simp add: e)
next
  case Opt_append
  with r obtain a opt opt1 k1 opts where
    s: "aget (pr_opts st) (pr_opt st) = Some opt" "opt_add_slot ps vf ro opt a 1 (pr_k st) = Some (0, opt1, k1)"
      "aset (pr_opts st) (pr_opt st) (opt1\<lparr>op_type := token\<rparr>) = Some opts" and
    e: "st' = st\<lparr>pr_opts := opts, pr_k := k1\<rparr>" "\<not> skipped"
    by (auto simp: parse_opt_def run_simps)
  from add_slot_step [OF rd _ _ s, of token] Opt_append show ?thesis by (simp add: e)
next
  case Opt_prepend
  with r obtain a opt opt1 k1 opts where
    s: "aget (pr_opts st) (pr_opt st) = Some opt" "opt_add_slot ps vf ro opt a 1 (pr_k st) = Some (0, opt1, k1)"
      "aset (pr_opts st) (pr_opt st) (opt1\<lparr>op_type := token\<rparr>) = Some opts" and
    e: "st' = st\<lparr>pr_opts := opts, pr_k := k1\<rparr>" "\<not> skipped"
    by (auto simp: parse_opt_def run_simps)
  from add_slot_step [OF rd _ _ s, of token] Opt_prepend show ?thesis by (simp add: e)
next
  case Opt_del
  with r obtain a where a: "aget args 0 = Some a" by (auto simp: parse_opt_def run_simps)
  obtain res k1 where l: "lookup_root vf a (pr_k st) = (res, k1)" by fastforce
  from r Opt_del a l consider d where
    "put_slot Opt_del (U_del \<lparr>od_path = a, od_h_root = d\<rparr>) (st\<lparr>pr_k := k1\<rparr>) = Some st'" "\<not> skipped"
    | "\<not> skipped" "st' = st\<lparr>pr_k := k1\<rparr>"
    by (cases res) (auto simp: parse_opt_def run_simps)
  then show ?thesis
    using put_slot_typed [of "st\<lparr>pr_k := k1\<rparr>" token] rd ready_stored [OF rd] \<open>token = _\<close>
    by cases (auto simp: slot_typed_def)
next
  case Opt_mod
  with r obtain a where a: "aget args 0 = Some a" by (auto simp: parse_opt_def run_simps)
  obtain path p where sep: "strsep equals a = (path, p)" by fastforce
  with r Opt_mod a obtain p' perm where p': "p = Some p'" "br_perm_val ps p' = Some perm"
    by (cases p) (auto simp: parse_opt_def run_simps)
  obtain res k1 where l: "lookup_root vf path (pr_k st) = (res, k1)" by fastforce
  from r Opt_mod a sep p' l consider d where
    "put_slot Opt_mod (U_mod \<lparr>om_path = path, om_perm = perm, om_h_root = d\<rparr>) (st\<lparr>pr_k := k1\<rparr>) = Some st'"
    "\<not> skipped" | "\<not> skipped" "st' = st\<lparr>pr_k := k1\<rparr>"
    by (cases res) (auto simp: parse_opt_def run_simps)
  then show ?thesis
    using put_slot_typed [of "st\<lparr>pr_k := k1\<rparr>" token] rd ready_stored [OF rd] \<open>token = _\<close>
    by cases (auto simp: slot_typed_def)
next
  case Opt_xino
  with r obtain a where p: "parse_xino vf addr a st = Some (0, st')" and n: "\<not> skipped"
    by (auto simp: parse_opt_def run_simps)
  then obtain res k2 where c: "xino_create vf addr a (pr_k st) = Some (res, k2)"
    by (auto simp: parse_xino_def run_simps)
  obtain x k1 where "put_slot Opt_xino (U_xino x) (st\<lparr>pr_k := k1\<rparr>) = Some st' \<or> st' = st\<lparr>pr_k := k1\<rparr>"
    using p c by (cases res) (auto simp: parse_xino_def run_simps Let_def split: if_splits)
  with put_slot_typed [of "st\<lparr>pr_k := k1\<rparr>" Opt_xino "U_xino x" st'] rd n ready_stored [OF rd]
  show ?thesis by (auto simp: slot_typed_def)
next
  case Opt_dirwh
  with r obtain n where "put_slot token (U_dirwh n) st = Some st'" "\<not> skipped"
    by (auto simp: parse_opt_def run_simps split: option.splits)
  with put_slot_typed [OF rd this(1)] Opt_dirwh show ?thesis by (simp add: slot_typed_def)
next
  case Opt_rdcache
  with r obtain n where "put_slot token (U_rdcache n) st = Some st'" "\<not> skipped"
    by (auto simp: parse_opt_def run_simps split: option.splits)
  with put_slot_typed [OF rd this(1)] Opt_rdcache show ?thesis by (simp add: slot_typed_def)
next
  case Opt_udba
  with r obtain a where "put_slot token (U_udba (udba_val ps a)) st = Some st'" "\<not> skipped" "0 \<le> udba_val ps a"
    by (auto simp: parse_opt_def run_simps Let_def split: if_splits)
  with put_slot_typed [OF rd this(1)] Opt_udba udba_val_level [OF ps refl] show ?thesis by (simp add: slot_typed_def)
qed (use r rd ready_stored [OF rd] bare_typed [OF rd, of token] in
  \<open>auto simp: parse_opt_def bare_opts_def run_simps\<close>)

lemma parse_loop_typed:
  assumes "parser_ok ps" and "ready st" and "parse_loop ps vf addr ro e str st = Some (0, st')"
  shows "ready st' \<and> onward st st'"
  using assms(2,3)
proof (induction "length str" arbitrary: str st rule: less_induct)
  case less
  obtain opt_str rest where sep: "strsep comma str = (opt_str, rest)" by fastforce
  show ?case
  proof (cases "opt_str = []")
    case True
    with less.prems sep show ?thesis by (simp add: parse_loop.simps [of ps])
  next
    case False
    obtain token args where m: "match_token ps opt_str options = (token, args)" by fastforce
    obtain err skipped st1 where p: "parse_opt ps vf addr ro e token args st = Some (err, skipped, st1)"
      using less.prems sep False m by (auto simp: parse_loop.simps [of ps] run_simps)
    have e0: "err = 0" using less.prems sep False m p
      by (auto simp: parse_loop.simps [of ps] run_simps split: if_splits)
    obtain st2 where n: "(if \<not> skipped then next_slot e st1 else Some (0, st1)) = Some (0, st2)"
      and rest: "(case rest of None \<Rightarrow> Some (0, st2) | Some s \<Rightarrow> parse_loop ps vf addr ro e s st2) = Some (0, st')"
      using less.prems sep False m p e0
      by (auto simp: parse_loop.simps [of ps] run_simps split: if_splits option.splits)
    have "ready st2 \<and> onward st st2"
      using parse_opt_typed [OF assms(1) less.prems(1) p [unfolded e0]] next_slot_typed [of st1 e st2] n
      by (auto split: if_splits intro: onward_trans)
    then show ?thesis using rest sep less.hyps [of "the rest" st2] strsep_shorter [of comma str opt_str "the rest"]
      by (cases rest) (auto intro: onward_trans)
  qed
qed

lemma start_ready:
  assumes "set_type 0 Opt_tail opts = Some opts1"
  shows "ready \<lparr>pr_opt = 0, pr_opts = opts1, pr_bindex = 0, pr_k = k\<rparr>"
  using assms by (auto simp: set_type_def run_simps aget_Some_iff aset_Some_iff ready_def slots_typed_def)

lemma ready_opts_ok: "ready st \<Longrightarrow> opts_ok (pr_opts st)"
  by (rule opts_okI [of _ "nat (pr_opt st)"]) (auto simp: ready_def slots_typed_def)

text \<open>C30.
  After a successful parse the slots are well typed up to the end mark, which lies in
  the array: every slot holds the member of the union its type demands, branch indexes
  fit their 8 bits, a \<open>udba\<close> level is one of the table. So releasing the options reads
  neither a wrong member nor memory behind the array.
\<close>

theorem au_parse_opts_typed:
  assumes "parser_ok ps" and "au_parse_opts ps vf addr ro max_opt str opts k = Some (0, opts', k')"
  shows "opts_ok opts' \<and> length opts' = length opts \<and> (\<exists>k''. au_free_opts opts' k' = Some k'')"
proof -
  from assms(2) obtain opts1 st where s: "set_type 0 Opt_tail opts = Some opts1"
    and l: "parse_loop ps vf addr ro (max_opt - 1) str \<lparr>pr_opt = 0, pr_opts = opts1, pr_bindex = 0, pr_k = k\<rparr>
      = Some (0, st)" and o: "opts' = pr_opts st"
    by (auto simp: au_parse_opts_def run_simps)
  have "length opts1 = length opts" using s by (auto simp: set_type_def run_simps aset_Some_iff)
  with parse_loop_typed [OF assms(1) start_ready [OF s] l] o show ?thesis
    using ready_opts_ok [of st] au_free_opts_typed [of opts' k'] by (simp add: onward_def)
qed

text \<open>A matcher for concrete inputs, of literal patterns and of those that end in \<open>%s\<close>.\<close>

fun pat_fits :: "byte list \<Rightarrow> string \<Rightarrow> byte list list option" where
  "pat_fits s [] = (if s = [] then Some [] else None)"
| "pat_fits s (c # cs) =
     (if c = CHR ''%'' then if s \<noteq> [] then Some [s] else None
      else case s of [] \<Rightarrow> None | b # bs \<Rightarrow> if b = of_char c then pat_fits bs cs else None)"

fun first_fit :: "byte list \<Rightarrow> string option list \<Rightarrow> nat \<times> byte list list" where
  "first_fit s [] = (0, [])"
| "first_fit s (p # pats) =
     (case Option.bind p (pat_fits s) of
        Some args \<Rightarrow> (0, args)
      | None \<Rightarrow> if pats = [] then (0, []) else let (i, args) = first_fit s pats in (Suc i, args))"

definition parser0 :: parser where
  "parser0 = \<lparr>ps_match = first_fit, ps_int = (\<lambda>_. None)\<rparr>"

lemma first_fit_in: "pats \<noteq> [] \<Longrightarrow> fst (first_fit s pats) < length pats"
  by (induction pats) (auto split: option.splits prod.splits)

lemma parser0_ok: "parser_ok parser0"
  by (simp add: parser_ok_def parser0_def first_fit_in)

definition bytes :: "string \<Rightarrow> byte list" where "bytes s = map of_char s"

definition junk_slot :: opt_slot where
  "junk_slot = \<lparr>op_type = Opt_coo, op_u = U_coo 0\<rparr>"

lemma tokens0:
  "match_token parser0 (bytes ''noxino'') options = (Opt_noxino, [])"
  "match_token parser0 (bytes ''udba=none'') options = (Opt_udba, [bytes ''none''])"
  "match_token parser0 (bytes ''br=:/a'') options = (Opt_br, [bytes '':/a''])"
  "match_token parser0 (bytes ''br=/a:/b'') options = (Opt_br, [bytes ''/a:/b''])"
  by code_simp+

lemma parts0:
  "strsep comma (bytes ''noxino,udba=none'') = (bytes ''noxino'', Some (bytes ''udba=none''))"
  "strsep comma (bytes ''udba=none'') = (bytes ''udba=none'', None)"
  "strsep comma (bytes ''br=:/a,noxino'') = (bytes ''br=:/a'', Some (bytes ''noxino''))"
  "strsep comma (bytes ''noxino'') = (bytes ''noxino'', None)"
  "strsep comma (bytes ''br=/a:/b'') = (bytes ''br=/a:/b'', None)"
  "strsep colon (bytes '':/a'') = ([], Some (bytes ''/a''))"
  "udba_val parser0 (bytes ''none'') = 8"
  by code_simp+

theorem au_parse_opts_typed_witness:
  "\<exists>opts' k' k''. au_parse_opts parser0 vfs0 9 False 3 (bytes ''noxino,udba=none'') (replicate 3 junk_slot) kern0
     = Some (0, opts', k') \<and> opts_ok opts' \<and> au_free_opts opts' k' = Some k''"
proof -
  have n: "bytes ''noxino'' \<noteq> []" "bytes ''udba=none'' \<noteq> []" by (simp_all add: bytes_def)
  obtain opts' k' where r: "au_parse_opts parser0 vfs0 9 False 3 (bytes ''noxino,udba=none'') (replicate 3 junk_slot) kern0
     = Some (0, opts', k')"
    by (simp add: au_parse_opts_def set_type_def parse_loop.simps parts0 tokens0 n parse_opt_def next_slot_def
        put_slot_def junk_slot_def numeral_3_eq_3 Let_def)
  from au_parse_opts_typed [OF parser0_ok r] r show ?thesis by blast
qed

section \<open>Permissions\<close>

text \<open>
  What the code relies on for a table of literal patterns: the first pattern equal to
  the string is found.
\<close>

definition literal_ok :: "parser \<Rightarrow> bool" where
  "literal_ok ps \<longleftrightarrow> (\<forall>s pats i. i < length pats \<longrightarrow> pats ! i = Some s \<longrightarrow> CHR ''%'' \<notin> set s
     \<longrightarrow> (\<forall>j < i. \<forall>t. pats ! j = Some t \<longrightarrow> CHR ''%'' \<notin> set t \<and> t \<noteq> s) \<longrightarrow> (\<forall>j < i. pats ! j \<noteq> None)
     \<longrightarrow> fst (ps_match ps (bytes s) pats) = i)"

lemma perm_index:
  assumes "literal_ok ps" and "i < length brperms" and "snd (brperms ! i) = Some s" and "CHR ''%'' \<notin> set s"
    and "\<forall>j < i. \<exists>t. snd (brperms ! j) = Some t \<and> CHR ''%'' \<notin> set t \<and> t \<noteq> s" and "s \<noteq> []"
  shows "br_perm_val ps (bytes s) = Some (fst (brperms ! i))"
proof -
  have "fst (ps_match ps (bytes s) (map snd brperms)) = i"
    using assms(1) [unfolded literal_ok_def, rule_format, of i "map snd brperms" s] assms(2-5) by force
  then show ?thesis using assms(6)
    by (auto simp: br_perm_val_def match_token_def bytes_def split: prod.splits)
qed

text \<open>
  The name \<open>br_perm_str\<close> prints for a permission is read back by \<open>br_perm_val\<close> as the
  same permission; a buffer of nine bytes suffices for all of them.
\<close>

theorem br_perm_read_back:
  assumes "literal_ok ps" and "p \<noteq> AuBr_Last" and "9 \<le> len"
  shows "\<exists>s. br_perm_str len p = Inr s \<and> br_perm_val ps (bytes s) = Some p"
proof -
  have b: "i < 6 \<Longrightarrow> snd (brperms ! i) = Some s \<Longrightarrow> br_perm_val ps (bytes s) = Some (fst (brperms ! i))" for i s
    by (rule perm_index [OF assms(1)]) (auto simp: brperms_def less_Suc_eq numeral_eq_Suc)
  note b' = b [of 0] b [of 1] b [of 2] b [of 3] b [of 4] b [of 5]
  show ?thesis using assms(2,3) b'
    by (cases p) (simp_all add: br_perm_str_def brperms_def numeral_eq_Suc)
qed

lemma of_char_inj: "(of_char c :: byte) = of_char d \<longleftrightarrow> c = d"
proof -
  have "unat (of_char c :: byte) = of_char c" for c
  proof -
    have "unat (of_nat (of_char c) :: byte) = of_char c mod 256" by (simp only: unat_of_nat) simp
    then show ?thesis by (simp only: of_nat_of_char of_char_mod_256)
  qed
  then show ?thesis by (metis of_char_eq_iff)
qed

lemma pat_fits_literal: "CHR ''%'' \<notin> set t \<Longrightarrow> pat_fits (bytes s) t = (if s = t then Some [] else None)"
  by (induction t arbitrary: s) (auto simp: bytes_def of_char_inj split: list.splits if_splits)

lemma parser0_literal: "literal_ok parser0"
proof -
  have "fst (first_fit (bytes s) pats) = i"
    if "i < length pats" "pats ! i = Some s" "CHR ''%'' \<notin> set s"
      "\<forall>j < i. \<forall>t. pats ! j = Some t \<longrightarrow> CHR ''%'' \<notin> set t \<and> t \<noteq> s" "\<forall>j < i. pats ! j \<noteq> None" for s pats i
    using that
  proof (induction pats arbitrary: i)
    case (Cons p pats)
    show ?case
    proof (cases i)
      case 0
      with Cons.prems show ?thesis by (simp add: pat_fits_literal)
    next
      case (Suc j)
      then obtain t where p: "p = Some t" "CHR ''%'' \<notin> set t" "t \<noteq> s"
        using Cons.prems(4,5) by (metis nth_Cons_0 option.exhaust zero_less_Suc)
      have "fst (first_fit (bytes s) pats) = j"
      proof (rule Cons.IH)
        show "\<forall>l < j. \<forall>t. pats ! l = Some t \<longrightarrow> CHR ''%'' \<notin> set t \<and> t \<noteq> s" "\<forall>l < j. pats ! l \<noteq> None"
          using Cons.prems(4,5) Suc by (metis Suc_less_eq nth_Cons_Suc)+
      qed (use Cons.prems(1-3) Suc in simp_all)
      with p Suc Cons.prems(1) show ?thesis by (auto simp: pat_fits_literal split: prod.splits)
    qed
  qed simp
  then show ?thesis by (simp add: literal_ok_def parser0_def)
qed

theorem br_perm_read_back_witness:
  "br_perm_str 9 AuBr_RWNoLinkWH = Inr ''rw+nolwh'' \<and> br_perm_val parser0 (bytes ''rw+nolwh'') = Some AuBr_RWNoLinkWH"
  using br_perm_read_back [OF parser0_literal, of AuBr_RWNoLinkWH 9] by (simp add: br_perm_str_def brperms_def)

section \<open>Two errors\<close>

lemma parse_loop_onward0:
  assumes "parser_ok ps" and "ready st" and "parse_loop ps vf addr ro e str st = Some (0, st')" and "0 < pr_opt st"
  shows "pr_opts st' ! 0 = pr_opts st ! 0"
  using parse_loop_typed [OF assms(1-3)] assms(4) by (simp add: onward_def)

lemma opt_loop_tail: "opts \<noteq> [] \<Longrightarrow> op_type (opts ! 0) = Opt_tail \<Longrightarrow> opt_loop f opts s = Some s"
  by (cases opts) simp_all

text \<open>C32.
  An empty path at the front of \<open>br=\<close> loses every option: the parser steps over the
  first slot, which stays \<open>Opt_tail\<close>, and reports success. Whatever it puts behind is never
  executed nor released, and the mount ends without a branch.
\<close>

theorem br_empty_path_loses:
  assumes "parser_ok ps" and "strsep comma str = (opt_str, rest)" and "opt_str \<noteq> []"
    and "match_token ps opt_str options = (Opt_br, [colon # paths])"
    and "au_parse_opts ps vf addr ro max_opt str opts k = Some (0, opts', k')"
    and "sbend (ms_sb ms) < 0"
  shows "au_free_opts opts' k' = Some k' \<and> (\<exists>ms'. au_do_opts_mount e opts' ms = Some (- EINVAL, ms'))"
proof -
  from assms(5) obtain opts1 st where s: "set_type 0 Opt_tail opts = Some opts1"
    and l: "parse_loop ps vf addr ro (max_opt - 1) str \<lparr>pr_opt = 0, pr_opts = opts1, pr_bindex = 0, pr_k = k\<rparr>
      = Some (0, st)" and o: "opts' = pr_opts st"
    by (auto simp: au_parse_opts_def run_simps)
  let ?st0 = "\<lparr>pr_opt = 0, pr_opts = opts1, pr_bindex = 0, pr_k = k\<rparr>"
  note rd = start_ready [OF s, of k]
  have p: "parse_opt ps vf addr ro (max_opt - 1) Opt_br [colon # paths] ?st0 = Some (0, False, ?st0)"
    by (simp add: parse_opt_def parse_br.simps [of ps] strsep_def)
  from l assms(2-4) p obtain st2 where n: "next_slot (max_opt - 1) ?st0 = Some (0, st2)"
    and c: "(case rest of None \<Rightarrow> Some (0, st2) | Some str \<Rightarrow> parse_loop ps vf addr ro (max_opt - 1) str st2) = Some (0, st)"
    by (auto simp: parse_loop.simps [of ps] bind_Some_iff split: if_splits option.splits)
  have r2: "ready st2" "onward ?st0 st2" using next_slot_typed [OF ready_stored [OF rd] n] by auto
  have i2: "pr_opt st2 = 1" "pr_opts st2 ! 0 = opts1 ! 0" "pr_opts st2 \<noteq> []"
    using n rd by (auto simp: next_slot_def set_type_def run_simps Let_def aset_Some_iff aget_Some_iff split: if_splits)
  have "pr_opts st ! 0 = pr_opts st2 ! 0 \<and> length (pr_opts st) = length (pr_opts st2)"
    using c parse_loop_onward0 [OF assms(1) r2(1), of vf addr ro "max_opt - 1" "the rest" st] i2
      parse_loop_typed [OF assms(1) r2(1), of vf addr ro "max_opt - 1" "the rest" st]
    by (cases rest) (auto simp: onward_def)
  then have t: "opts' \<noteq> []" "op_type (opts' ! 0) = Opt_tail" using i2 rd o by (auto simp: ready_def)
  then show ?thesis
    using assms(6) by (simp add: au_free_opts_def au_do_opts_mount_def opt_loop_tail mount_xino_def upd_sb_def
        sbend_def au_flag_clr_def udba_set_def au_flag_set_def Let_def)
qed

theorem br_empty_path_loses_witness:
  "\<exists>opts' k'. au_parse_opts parser0 vfs0 9 False 3 (bytes ''br=:/a,noxino'') (replicate 3 junk_slot) kern0
       = Some (0, opts', k') \<and> op_type (opts' ! 1) = Opt_noxino \<and> au_free_opts opts' k' = Some k'
     \<and> (\<forall>e root dir i. \<exists>ms'. au_do_opts_mount e opts' \<lparr>ms_sb = (sb0 0)\<lparr>si_bend := - 1\<rparr>, ms_root = root, ms_dir = dir,
          ms_inodes = i, ms_ds = [], ms_k = kern0\<rparr> = Some (- EINVAL, ms'))"
proof -
  have n: "bytes ''noxino'' \<noteq> []" "bytes ''br=:/a'' \<noteq> []" by (simp_all add: bytes_def)
  obtain opts' k' where r: "au_parse_opts parser0 vfs0 9 False 3 (bytes ''br=:/a,noxino'') (replicate 3 junk_slot) kern0
     = Some (0, opts', k')" and o: "op_type (opts' ! 1) = Opt_noxino"
    by (simp add: au_parse_opts_def set_type_def parse_loop.simps parts0 tokens0 n parse_opt_def next_slot_def
        parse_br.simps junk_slot_def numeral_3_eq_3 Let_def)
  have p: "bytes '':/a'' = colon # bytes ''/a''" by (simp add: bytes_def colon_def)
  note t = br_empty_path_loses [OF parser0_ok parts0(3) n(2) tokens0(3) [unfolded p] r]
  have "sbend (ms_sb \<lparr>ms_sb = (sb0 0)\<lparr>si_bend := - 1\<rparr>, ms_root = root, ms_dir = dir, ms_inodes = i, ms_ds = [],
      ms_k = kern0\<rparr>) < 0" for root dir i by (simp add: sbend_def)
  then show ?thesis using r o t by blast
qed

text \<open>The paths of a \<open>br=\<close> option, joined.\<close>

fun join_colon :: "byte list list \<Rightarrow> byte list" where
  "join_colon [] = []"
| "join_colon [p] = p"
| "join_colon (p # ps) = p @ colon # join_colon ps"

lemma strsep_none: "c \<notin> set s \<Longrightarrow> strsep c s = (s, None)"
  by (induction s) (auto simp: strsep_def)

lemma strsep_at: "c \<notin> set p \<Longrightarrow> strsep c (p @ c # r) = (p, Some r)"
  by (induction p) (auto simp: strsep_def)

lemma strsep_join:
  "colon \<notin> set p \<Longrightarrow> strsep colon (join_colon (p # ps)) = (p, if ps = [] then None else Some (join_colon ps))"
  by (cases ps) (simp_all add: strsep_none strsep_at)

definition add_slot :: "opt_slot \<Rightarrow> bool" where
  "add_slot opt \<longleftrightarrow> op_type opt = Opt_add \<and> (\<exists>a. op_u opt = U_add a)"

lemma free_add_slots: "\<forall>opt \<in> set opts. add_slot opt \<Longrightarrow> au_free_opts opts k = None"
proof (induction opts arbitrary: k)
  case (Cons opt opts)
  then have "\<exists>k1. free_opt opt k = Some (True, k1)" by (auto simp: add_slot_def free_opt_def)
  with Cons show ?case by (auto simp: au_free_opts_def add_slot_def)
qed (simp add: au_free_opts_def)

lemma opt_add_slot_found:
  assumes "\<forall>p k. \<exists>d m k'. vf_path_lookup vf p k = (Inr (d, m), k')" and "equals \<notin> set str"
  shows "\<exists>opt' k'. opt_add_slot ps vf ro opt str b k = Some (0, opt', k') \<and> add_slot opt'"
proof -
  have "strsep equals str = (str, None)" using assms(2) by (rule strsep_none)
  moreover obtain d m k' where "vf_path_lookup vf str k = (Inr (d, m), k')" using assms(1) by blast
  ultimately show ?thesis by (simp add: opt_add_slot_def add_slot_def Let_def)
qed

lemma parse_br_full:
  assumes "\<forall>p k. \<exists>d m k'. vf_path_lookup vf p k = (Inr (d, m), k')"
    and "ps \<noteq> []" and "\<forall>p \<in> set ps. p \<noteq> [] \<and> colon \<notin> set p \<and> equals \<notin> set p"
    and "0 \<le> pr_opt st" and "pr_opt st \<le> e" and "e + 1 = int (length (pr_opts st))" and "e < pr_opt st + int (length ps)"
    and "\<forall>j < nat (pr_opt st). add_slot (pr_opts st ! j)"
  shows "\<exists>skipped' st'. parse_br pr vf ro e (join_colon ps) skipped st = Some (- E2BIG, skipped', st')
    \<and> (\<forall>opt \<in> set (pr_opts st'). add_slot opt)"
  using assms(2-)
proof (induction ps arbitrary: skipped st)
  case (Cons p ps)
  let ?i = "pr_opt st"
  have c: "colon \<notin> set p" "p \<noteq> []" "equals \<notin> set p" using Cons.prems(2) by auto
  note sep = strsep_join [OF c(1), of ps]
  obtain opt1 k1 where a: "opt_add_slot pr vf ro (pr_opts st ! nat ?i) p (pr_bindex st) (pr_k st) = Some (0, opt1, k1)"
    and o: "add_slot opt1" using opt_add_slot_found [OF assms(1) c(3)] by blast
  have g: "aget (pr_opts st) ?i = Some (pr_opts st ! nat ?i)" "\<And>x. aset (pr_opts st) ?i x = Some ((pr_opts st)[nat ?i := x])"
    using Cons.prems(3-5) by simp_all
  let ?o = "(pr_opts st)[nat ?i := opt1]"
  have o': "\<forall>j < nat (?i + 1). add_slot (?o ! j)"
    using o Cons.prems(3-7) by (auto simp: nth_list_update nat_add_distrib less_Suc_eq)
  show ?case
  proof (cases "e < ?i + 1")
    case True
    then have "nat (?i + 1) = length ?o" using Cons.prems(4,5) by simp
    with o' have "\<forall>opt \<in> set ?o. add_slot opt" by (metis in_set_conv_nth)
    with True c sep a g show ?thesis by (simp add: parse_br.simps [of pr] Let_def)
  next
    case False
    let ?t = "?o[nat (?i + 1) := (?o ! nat (?i + 1))\<lparr>op_type := Opt_tail\<rparr>]"
    let ?st = "st\<lparr>pr_k := k1, pr_bindex := to_bindex (pr_bindex st + 1), pr_opt := ?i + 1, pr_opts := ?t\<rparr>"
    have ps: "ps \<noteq> []" using False Cons.prems(6) by auto
    have t: "set_type (?i + 1) Opt_tail ?o = Some ?t"
      using False Cons.prems(3-5) by (simp add: set_type_def)
    have "parse_br pr vf ro e (join_colon (p # ps)) skipped st = parse_br pr vf ro e (join_colon ps) True ?st"
      using False c sep a g t ps by (simp add: parse_br.simps [of pr _ _ _ "join_colon (p # ps)"] Let_def)
    moreover have "\<exists>skipped' st'. parse_br pr vf ro e (join_colon ps) True ?st = Some (- E2BIG, skipped', st')
        \<and> (\<forall>opt \<in> set (pr_opts st'). add_slot opt)"
      using ps Cons.prems False o' by (intro Cons.IH) auto
    ultimately show ?thesis by simp
  qed
qed simp

text \<open>C31.
  More branches in \<open>br=\<close> than slots overrun the array: when every path is found, the
  parser fills all slots, reports \<open>-E2BIG\<close> without an end mark, and the release of the
  options that follows reads the memory behind the array.
\<close>

theorem br_overrun:
  assumes "\<forall>p k. \<exists>d m k'. vf_path_lookup vf p k = (Inr (d, m), k')"
    and "\<forall>p \<in> set paths. p \<noteq> [] \<and> colon \<notin> set p \<and> equals \<notin> set p"
    and "strsep comma str = (opt_str, rest)" and "opt_str \<noteq> []"
    and "match_token ps opt_str options = (Opt_br, [join_colon paths])"
    and "max_opt = int (length opts)" and "opts \<noteq> []" and "length opts \<le> length paths"
  shows "au_parse_opts ps vf addr ro max_opt str opts k = None"
proof -
  let ?opts = "opts[0 := (opts ! 0)\<lparr>op_type := Opt_tail\<rparr>]"
  let ?st = "\<lparr>pr_opt = 0, pr_opts = ?opts, pr_bindex = 0, pr_k = k\<rparr>"
  have s: "set_type 0 Opt_tail opts = Some ?opts" using assms(7) by (simp add: set_type_def)
  obtain skipped' st' where p: "parse_br ps vf ro (max_opt - 1) (join_colon paths) False ?st = Some (- E2BIG, skipped', st')"
    and a: "\<forall>opt \<in> set (pr_opts st'). add_slot opt"
    using parse_br_full [OF assms(1) _ assms(2), of ?st "max_opt - 1" ps ro False] assms(6-8) by fastforce
  have "parse_loop ps vf addr ro (max_opt - 1) str ?st = Some (- E2BIG, st')"
    using assms(3-5) p by (simp add: parse_loop.simps [of ps] parse_opt_def)
  with s free_add_slots [OF a] show ?thesis by (simp add: au_parse_opts_def)
qed

theorem br_overrun_witness:
  "au_parse_opts parser0 (vfs0\<lparr>vf_path_lookup := (\<lambda>p k. (Inr (1, 2), k))\<rparr>) 9 False 2 (bytes ''br=/a:/b'')
     (replicate 2 junk_slot) kern0 = None"
proof (rule br_overrun [where paths = "[bytes ''/a'', bytes ''/b'']", OF _ _ parts0(5)])
  show "match_token parser0 (bytes ''br=/a:/b'') options = (Opt_br, [join_colon [bytes ''/a'', bytes ''/b'']])"
    unfolding tokens0 by (simp add: bytes_def colon_def)
qed (simp_all add: bytes_def colon_def equals_def)

end
