(* ===== verification/Aufs_Branch_Test.thy ===== *)
theory Aufs_Branch_Test
  imports Aufs_Branch
begin

text \<open>
  The tests of branch management (branch.c). Shown: the test for overlapping branches
  ends and is the order of the dentries in their tree, in both directions and through
  loop devices; a branch that is the only one of a file or of a directory is not
  removed; and a branch whose permission was changed to a writable one has no
  directory for pseudo links, so the first pseudo link on it crashes.
\<close>

section \<open>Overlapping branches\<close>

text \<open>Every dentry reaches, in finitely many steps, the root that is its own parent.\<close>

definition fs_tree :: "kern \<Rightarrow> bool" where
  "fs_tree k \<longleftrightarrow> (\<forall>d. \<exists>n. k_dparent k ((k_dparent k ^^ n) d) = (k_dparent k ^^ n) d)"

definition is_below :: "kern \<Rightarrow> nat \<Rightarrow> nat \<Rightarrow> bool" where
  "is_below k d a \<longleftrightarrow> (\<exists>n. (k_dparent k ^^ n) d = a)"

lemma is_below_step: "is_below k d a \<longleftrightarrow> d = a \<or> is_below k (k_dparent k d) a"
proof
  assume "is_below k d a"
  then obtain n where n: "(k_dparent k ^^ n) d = a" by (auto simp: is_below_def)
  show "d = a \<or> is_below k (k_dparent k d) a"
  proof (cases n)
    case (Suc m)
    then have "(k_dparent k ^^ m) (k_dparent k d) = a" using n by (simp add: funpow_swap1)
    then show ?thesis by (auto simp: is_below_def)
  qed (use n in simp)
next
  assume "d = a \<or> is_below k (k_dparent k d) a"
  moreover have "is_below k d d" unfolding is_below_def by (rule exI [of _ 0]) simp
  moreover have "is_below k d a" if n: "(k_dparent k ^^ n) (k_dparent k d) = a" for n
    unfolding is_below_def by (rule exI [of _ "Suc n"]) (use n in \<open>simp add: funpow_swap1\<close>)
  ultimately show "is_below k d a" by (auto simp: is_below_def)
qed

lemma is_below_root: "k_dparent k d = d \<Longrightarrow> is_below k d a = (d = a)"
proof -
  assume "k_dparent k d = d"
  then have "(k_dparent k ^^ n) d = d" for n by (induction n) simp_all
  then show ?thesis by (simp add: is_below_def)
qed

lemma do_is_overlap_run:
  assumes "k_dparent k ((k_dparent k ^^ n) d) = (k_dparent k ^^ n) d"
  shows "do_is_overlap k d a = Some (is_below k d a)"
  using assms
proof (induction n arbitrary: d)
  case 0
  then show ?case by (subst do_is_overlap.simps) (auto simp: is_below_root)
next
  case (Suc n)
  let ?p = "k_dparent k d"
  have s: "do_is_overlap k ?p a = Some (is_below k ?p a)"
    using Suc.prems by (intro Suc.IH) (simp add: funpow_swap1)
  show ?case
  proof (cases "k_dparent k ?p = ?p")
    case True
    then show ?thesis using is_below_step [of k d a] is_below_root [OF True, of a]
      by (subst do_is_overlap.simps) auto
  next
    case False
    then show ?thesis using s is_below_step [of k d a] by (subst do_is_overlap.simps) auto
  qed
qed

text \<open>The specification: one is below the other, or on a loop device whose file is below the other or in aufs.\<close>

definition loop_below :: "nat \<Rightarrow> (nat \<Rightarrow> nat option) \<Rightarrow> kern \<Rightarrow> nat \<Rightarrow> nat \<Rightarrow> bool" where
  "loop_below addr loop k d a \<longleftrightarrow>
     (\<exists>f. loop (the (k_dinode k d)) = Some f \<and> (k_dsb k f = addr \<or> is_below k f a))"

text \<open>C26.
  The test for overlapping branches ends, although it follows parents without a bound,
  whenever the hidden dentries form trees, and equals the tree order: it is true
  exactly when one of the dentries is the other or below it, or lives on a loop device
  whose backing file is below the other one or in the aufs itself.
\<close>

theorem is_overlap_iff:
  assumes "fs_tree k" and "k_dinode k d1 \<noteq> None" and "k_dinode k d2 \<noteq> None"
  shows "is_overlap addr loop k d1 d2 = Some (is_below k d1 d2 \<or> is_below k d2 d1
     \<or> loop_below addr loop k d1 d2 \<or> loop_below addr loop k d2 d1)"
proof -
  have o: "do_is_overlap k d a = Some (is_below k d a)" for d a
    using assms(1) do_is_overlap_run by (fastforce simp: fs_tree_def)
  have l: "is_overlap_loopback addr loop k d a = Some (loop_below addr loop k d a)"
    if "k_dinode k d \<noteq> None" for d a
    using that by (auto simp: is_overlap_loopback_def loop_below_def o split: option.split)
  show ?thesis using is_below_step [of k d1 d1] assms by (auto simp: is_overlap_def o l)
qed

theorem is_overlap_iff_witness:
  "is_overlap 9 (\<lambda>_. None) (kern0\<lparr>k_dparent := (\<lambda>d. if d = 3 then 2 else if d = 2 then 1 else d)\<rparr>) 1 3 = Some True"
proof -
  let ?k = "kern0\<lparr>k_dparent := (\<lambda>d. if d = 3 then 2 else if d = 2 then 1 else d)\<rparr>"
  have "fs_tree ?k" unfolding fs_tree_def by (intro allI exI [of _ 2]) (simp add: numeral_2_eq_2)
  moreover have "is_below ?k 3 1" unfolding is_below_def by (rule exI [of _ 2]) (simp add: numeral_2_eq_2)
  ultimately show ?thesis
    using is_overlap_iff [of ?k 1 3 9 "\<lambda>_. None"] by (simp add: kern0_def)
qed

section \<open>Busy branches\<close>

text \<open>The dentry has a hidden dentry on the branch, and is no directory or has no other one.\<close>

definition uses_only :: "int \<Rightarrow> aufs_dentry \<Rightarrow> bool" where
  "uses_only bindex d \<longleftrightarrow> (\<exists>k h. au_h_dptr_i k d bindex = Some (Some h))
     \<and> ((\<exists>m. d_imode d = Some m \<and> \<not> S_ISDIR m) \<or> dbstart d = dbend d)"

lemma au_h_dptr_i_indep: "au_h_dptr_i k d b = Some p \<Longrightarrow> au_h_dptr_i k' d b = Some q \<Longrightarrow> p = q"
  by (auto simp: au_h_dptr_i_def run_simps split: if_splits)

lemma child_busy_uses: "child_busy b d k = Some False \<Longrightarrow> \<not> uses_only b d"
  using au_h_dptr_i_indep [of k d b None]
  by (fastforce simp: child_busy_def uses_only_def run_simps dbstart_def dbend_def split: if_splits)

lemma test_busy_list_0:
  assumes "test_busy_list reval g b ds k = Some (0, ds', k')" and "\<forall>d \<in> set ds. au_digen d = Some g"
  shows "ds' = ds \<and> k' = k \<and> (\<forall>d \<in> set ds. \<not> uses_only b d)"
  using assms
proof (induction ds arbitrary: ds' k')
  case (Cons d ds)
  then show ?case by (auto simp: run_simps child_busy_uses split: if_splits)
qed simp

text \<open>C33.
  A branch in use is not removed: when \<open>br_del\<close> removes a branch, no dentry below the
  root that is no directory has a hidden dentry on it, and no directory has its only
  ones on it (for dentries of the current generation, which need no revalidation).
\<close>

theorem br_del_not_busy:
  assumes "br_del env vf pages reval del remount ds inodes sb root inode k
      = Some (0, ds', inodes', sb', root', inode', k')"
    and "\<forall>d \<in> set ds. au_digen d = Some (si_generation sb)"
    and "au_find_dbindex k root (od_h_root del) = Some bindex" and "0 \<le> bindex"
  shows "ds' = ds \<and> (\<forall>d \<in> set ds. \<not> uses_only bindex d)"
proof -
  obtain br where br: "stobr sb bindex = Some br"
    using assms(1,3,4) by (cases "stobr sb bindex") (auto simp: br_del_def Let_def)
  let ?wh = "br_wh (s_br sb br) \<noteq> None \<or> br_plink (s_br sb br) \<noteq> None"
  define sb1 where "sb1 = (if ?wh then set_br_plink br None (set_br_wh br None sb) else sb)"
  define k1 where "k1 = (if ?wh then dput (br_plink (s_br sb br)) (dput (br_wh (s_br sb br)) k) else k)"
  have g: "si_generation sb1 = si_generation sb"
    by (simp add: sb1_def set_br_plink_def set_br_wh_def upd_br_def)
  from assms(1,3,4) br obtain ds1 k2 where "test_children_busy pages reval sb1 bindex ds k1 = Some (0, ds1, k2)"
    and "ds' = ds1"
    unfolding sb1_def k1_def
    by (auto simp: br_del_def run_simps Let_def split: if_splits prod.splits)
  with test_busy_list_0 [of reval "si_generation sb" bindex ds k1] assms(2) g
  show ?thesis by (auto simp: test_children_busy_def split: if_splits)
qed

section \<open>A branch made writable\<close>

text \<open>\<open>init_wh\<close> fails in a lookup, or ends with the switch over the permission.\<close>

lemma init_wh_cases:
  assumes "init_wh vf h br sb k = Some (err, sb', k')"
  shows "(sb' = sb \<and> (\<exists>n k1 k2. lkup_wh vf h n k1 = Some (Inl err, k2)))
    \<or> (\<exists>h_dir wh plink k1 k2. init_wh_perm vf h_dir wh plink br (set_br_plink br None (set_br_wh br None sb)) k1
         = Some (err, sb', k2))"
proof -
  from assms obtain h_dir r1 k1 where d: "k_dinode k h = Some h_dir" and
    l1: "lkup_wh vf h base_name0 k = Some (r1, k1)" by (auto simp: init_wh_def run_simps)
  show ?thesis
  proof (cases r1)
    case (Inl e)
    with assms d l1 show ?thesis by (auto simp: init_wh_def)
  next
    case (Inr wh)
    with assms d l1 obtain r2 k2 where l2: "lkup_wh vf h base_name1 k1 = Some (r2, k2)"
      by (auto simp: init_wh_def run_simps split: if_splits)
    show ?thesis
    proof (cases r2)
      case (Inl e)
      with assms d l1 l2 \<open>r1 = Inr wh\<close> show ?thesis by (auto simp: init_wh_def split: if_splits)
    next
      case (Inr plink)
      with assms d l1 l2 \<open>r1 = Inr wh\<close> show ?thesis
        by (auto simp: init_wh_def run_simps Let_def split: if_splits)
    qed
  qed
qed

text \<open>A failing lookup does not return a null error.\<close>

definition lookup_errs :: "vfs \<Rightarrow> bool" where
  "lookup_errs vf \<longleftrightarrow> (\<forall>n d k. fst (vf_lookup vf n d k) \<noteq> Inl 0)"

lemma lkup_wh_err:
  assumes "lookup_errs vf" and "lkup_wh vf h n k = Some (Inl e, k')"
  shows "e \<noteq> 0"
proof -
  from assms(2) obtain w k1 where w: "au_alloc_whname n k = Some (w, k1)"
    by (auto simp: lkup_wh_def run_simps)
  show ?thesis
  proof (cases w)
    case (Inl x)
    then show ?thesis using assms(2) w
      by (auto simp: lkup_wh_def run_simps au_alloc_whname_def Let_def split: if_splits prod.splits)
  next
    case (Inr name)
    then have "fst (vf_lookup vf name h k1) = Inl e" using assms(2) w
      by (auto simp: lkup_wh_def run_simps lkup_one_def split: prod.splits)
    then show ?thesis using assms(1) unfolding lookup_errs_def by metis
  qed
qed

lemma init_wh_ro_clears:
  assumes "lookup_errs vf" and "init_wh vf h br sb k = Some (0, sb', k')"
    and "br_perm (s_br sb br) = AuBr_RO"
  shows "br_plink (s_br sb' br) = None" and "\<And>i. stobr sb' i = stobr sb i"
  using init_wh_cases [OF assms(2)] lkup_wh_err [OF assms(1), of h _ _ 0] assms(3)
  by (auto simp: init_wh_perm_def set_br_plink_def set_br_wh_def upd_br_def stobr_def sbend_def)

lemma set_br_perm_simps [simp]:
  "br_plink (s_br (set_br_perm a p sb) b) = br_plink (s_br sb b)" "stobr (set_br_perm a p sb) i = stobr sb i"
  "br_perm (s_br (set_br_perm a p sb) a) = p"
  by (simp_all add: set_br_perm_def upd_br_def stobr_def sbend_def)

lemma init_br_wh_ro_clears:
  assumes "lookup_errs vf" and "init_br_wh vf br AuBr_RO h sb k = Some (0, sb', k')"
  shows "br_plink (s_br sb' br) = None" and "stobr sb' i = stobr sb i"
  using assms(2) init_wh_ro_clears [OF assms(1), of h br "set_br_perm br AuBr_RO sb" k]
  by (fastforce simp: init_br_wh_def run_simps)+

text \<open>C34.
  A branch that becomes writable by a change of its permission has no directory for
  pseudo links: \<open>br_mod\<close> never creates one (it only removes the one of a branch that was
  writable), so after a successful change to any other permission the first pseudo link
  recorded on the branch runs into the assertion of \<open>whplink\<close>.
\<close>

theorem br_mod_no_plink_dir:
  assumes "br_mod vf m remount upd files sb root k = Some (0, upd', sb', k')"
    and "au_find_dbindex k root (om_h_root m) = Some bindex" and "0 \<le> bindex"
    and "stobr sb bindex = Some br" and "br_perm (s_br sb br) \<noteq> om_perm m"
    and "\<not> br_writable (br_perm (s_br sb br)) \<Longrightarrow> br_plink (s_br sb br) = None" and "lookup_errs vf"
  shows "br_perm (s_br sb' br) = om_perm m \<and> br_plink (s_br sb' br) = None
    \<and> (\<forall>is_aufsd vf d inode k. whplink is_aufsd vf d inode bindex sb' k = None)"
proof -
  have r: "Option.bind (mod_writable vf m bindex br files sb k) (\<lambda>(err, sb, k). if err \<noteq> 0 then Some (err, upd, sb, k)
      else Some (0, upd \<or> need_sigen_inc (br_perm (s_br sb0 br)) (om_perm m), set_br_perm br (om_perm m) sb, k))
    = Some (0, upd', sb', k')" if "sb0 = sb" for sb0
    using assms(1-5) that by (auto simp: br_mod_def Let_def bind_Some_iff [of "k_dinode k (om_h_root m)"] split: if_splits)
  obtain err sb1 k1 where w: "mod_writable vf m bindex br files sb k = Some (err, sb1, k1)"
    using r by (cases "mod_writable vf m bindex br files sb k") auto
  then have e: "err = 0" and sb': "sb' = set_br_perm br (om_perm m) sb1"
    using r by (auto split: if_splits)
  have i: "if br_writable (br_perm (s_br sb br)) then \<exists>k2. init_br_wh vf br AuBr_RO (om_h_root m) sb k = Some (0, sb1, k2)
         else sb1 = sb"
    using w e by (auto simp: mod_writable_def run_simps split: if_splits)
  have c: "br_plink (s_br sb1 br) = None" "stobr sb1 bindex = Some br"
    using i assms(4,6) init_br_wh_ro_clears [OF assms(7)] by (auto split: if_splits)
  then show ?thesis by (simp add: sb' whplink_def)
qed

text \<open>A mounted aufs over the directories 4 and 5.\<close>

definition root2 :: aufs_dentry where
  "root2 = \<lparr>d_fsdata = Some \<lparr>di_generation = 0, di_bstart = 0, di_bend = 1, di_bwh = - 1, di_bdiropq = - 1,
     di_hdentry = [Some 4, Some 5], di_reval = 0\<rparr>, d_imode = Some 0x4000\<rparr>"

lemma root2_find: "au_find_dbindex kern0 root2 5 = Some 1"
  by (simp add: au_find_dbindex_def root2_def dbend_def dbstart_def dtodi_def au_h_dptr_i_def scan_up.simps kern0_def)

theorem br_mod_no_plink_dir_witness:
  "\<exists>sb' k'. br_mod vfs0 \<lparr>om_path = [], om_perm = AuBr_RW, om_h_root = 5\<rparr> False False []
       (set_br_perm 1 AuBr_RO (sb0 2)) root2 kern0 = Some (0, True, sb', k')
     \<and> whplink False vfs0 70 inode0 1 sb' k' = None"
proof -
  let ?sb = "set_br_perm 1 AuBr_RO (sb0 2)" and ?m = "\<lparr>om_path = [], om_perm = AuBr_RW, om_h_root = 5\<rparr>"
  have "stobr (sb0 2) 1 = Some 1" by (simp add: stobr_def sbend_def sb0_def aget_def)
  then have st: "stobr ?sb 1 = Some 1" by simp
  have p: "br_perm (s_br ?sb 1) = AuBr_RO" by (simp add: set_br_perm_def upd_br_def)
  have b: "br_plink (s_br ?sb 1) = None" by (simp add: set_br_perm_def upd_br_def sb0_def)
  obtain sb' where r: "br_mod vfs0 ?m False False [] ?sb root2 kern0 = Some (0, True, sb', kern0)"
    using st p by (simp add: br_mod_def mod_writable_def root2_find test_br_def br_writable_def need_sigen_inc_def do_need_sigen_inc_def
        br_whable_def Let_def kern0_fields)
  have "lookup_errs vfs0" by (simp add: lookup_errs_def vfs0_def)
  from br_mod_no_plink_dir [OF r, of 1 1, OF _ _ _ _ _ this] st p b root2_find r show ?thesis by auto
qed

text \<open>A dentry of the first branch only, when the second one is removed.\<close>

theorem br_del_not_busy_witness:
  "\<exists>x. br_del env_w vfs0 0 (\<lambda>d k. (0, d, k)) \<lparr>od_path = [], od_h_root = 5\<rparr> False [dentry0] (\<lambda>_. inode0)
     (sb0 2) root2 inode0 kern0 = Some (0, [dentry0], x) \<and> \<not> uses_only 1 dentry0"
proof -
  have st: "stobr (sb0 2) 1 = Some 1" and si: "si_bend (sb0 2) = 1" by (simp_all add: stobr_def sbend_def sb0_def aget_def)
  have br: "br_wh (s_br (sb0 2) i) = None" "br_plink (s_br (sb0 2) i) = None" "br_count (s_br (sb0 2) i) = 0"
    "br_wh_running (s_br (sb0 2) i) = 0" "br_xino (s_br (sb0 2) i) = None" for i
    by (simp_all add: sb0_def)
  have g: "si_generation (sb0 2) = 0" "au_digen dentry0 = Some 0"
    by (simp_all add: sb0_def au_digen_def dtodi_def dentry0_def)
  have busy: "test_children_busy 0 (\<lambda>d k. (0, d, k)) (sb0 2) 1 [dentry0] kern0 = Some (0, [dentry0], kern0)"
    by (simp add: test_children_busy_def g child_busy_def) (simp add: dentry0_def au_h_dptr_i_def dtodi_def)
  obtain sb1 root1 inode1 where sl: "del_slots 1 1 (sb0 2) root2 inode0 = Some (sb1, root1, inode1)"
    and i1: "i_mode inode1 = 0x4000" and b1: "si_bend sb1 = 0" and f1: "si_flags sb1 = si_flags (sb0 2)"
    and p1: "si_plink sb1 = []" and br1: "si_branch sb1 ! 0 = Some 0" "length (si_branch sb1) = 2"
    by (simp add: del_slots_def amove_down_def root2_def inode0_def sb0_def dtodi_def ii_of_def itoii_def
        numeral_2_eq_2)
  obtain x where d: "del_branch env_w 1 1 5 5 (\<lambda>_. inode0) (sb0 2) root2 inode0 kern0 = Some x"
  proof -
    have "au_h_dptr_i kern0 root2 1 = Some (Some 5)" by (simp add: au_h_dptr_i_def dtodi_def root2_def kern0_def)
    moreover obtain hi where "hinode_at inode0 1 = Some hi" by (simp add: hinode_at_def ii_of_def itoii_def inode0_def)
    moreover have "au_sub_nlink k inode1 5 = Some (the (au_sub_nlink k inode1 5))" if "k_imode k = k_imode kern0" for k
      using that i1 by (simp add: au_sub_nlink_def S_ISDIR_def kern0_fields Let_def)
    moreover have "k_imode (kfree (mntput m (aufs_hiput hi (dput (Some 5) kern0)))) = k_imode kern0" for m
      by (simp add: aufs_hiput_def do_free_hinotify_def kfree_def mntput_def Let_def split: option.split)
    moreover have "half_refresh_plink d wr b inodes sb1 k = Some (inodes, sb1, k)"
      if "au_flag_test sb1 AuFlag_PLINK \<noteq> 0" for d wr b inodes k
      using that p1 by (simp add: half_refresh_plink_def)
    moreover have "del_maxbytes 1 5 sb1 k = Some (the (del_maxbytes 1 5 sb1 k))" for k
      using br1 b1 by (simp add: del_maxbytes_def for_up.simps sbr_sb_def sbr_mnt_def sbr_def stobr_def sbend_def Let_def)
    ultimately have "del_branch env_w 1 1 5 5 (\<lambda>_. inode0) (sb0 2) root2 inode0 kern0 \<noteq> None"
      by (cases "au_flag_test sb1 AuFlag_PLINK = 0")
        (simp add: del_branch_def sl br st si sbend_def free_branch_def Let_def bind_eq_None_conv, metis)+
    then show ?thesis using that by blast
  qed
  have r: "br_del env_w vfs0 0 (\<lambda>d k. (0, d, k)) \<lparr>od_path = [], od_h_root = 5\<rparr> False [dentry0] (\<lambda>_. inode0)
     (sb0 2) root2 inode0 kern0 = Some (0, [dentry0], x)"
    using d by (simp add: br_del_def root2_find st busy br sbend_def si kern0_fields)
  obtain i s ro ri k where x: "x = (i, s, ro, ri, k)" by (cases x)
  have "\<not> uses_only 1 dentry0"
    using br_del_not_busy [OF r [unfolded x], of 1] g root2_find by simp
  with r show ?thesis by blast
qed

end
