(* ===== verification/Aufs_Branch_Tables.thy ===== *)
theory Aufs_Branch_Tables
  imports Aufs_Branch_Test
begin

text \<open>
  The three parallel arrays of a mounted aufs (branch.c): the branch table of the
  superblock, the hidden dentries of the root and the hidden inodes of its inode. The
  abstract state is the three lists in use. Shown: \<open>br_add\<close> refines the insertion into all
  three lists at the same index, \<open>br_del\<close> the removal from all three, an error on any path
  leaves them as they were, and both keep the arrays consistent: of the same length in
  use, without a null pointer or a branch twice.
\<close>

section \<open>Insertion and removal\<close>

definition insert_at :: "nat \<Rightarrow> 'a \<Rightarrow> 'a list \<Rightarrow> 'a list" where
  "insert_at i x xs = take i xs @ x # drop i xs"

definition remove_at :: "nat \<Rightarrow> 'a list \<Rightarrow> 'a list" where
  "remove_at i xs = take i xs @ drop (Suc i) xs"

lemma set_split: "set xs = set (take i xs) \<union> set (drop i xs)"
  by (metis append_take_drop_id set_append)

lemma distinct_split:
  "distinct xs \<longleftrightarrow> distinct (take i xs) \<and> distinct (drop i xs) \<and> set (take i xs) \<inter> set (drop i xs) = {}"
  by (metis append_take_drop_id distinct_append)

lemma set_insert_at [simp]: "set (insert_at i x xs) = insert x (set xs)"
  unfolding insert_at_def set_split [of xs i] by auto

lemma distinct_insert_at [simp]: "distinct (insert_at i x xs) \<longleftrightarrow> x \<notin> set xs \<and> distinct xs"
  unfolding insert_at_def set_split [of xs i] distinct_split [of xs i] by auto

lemma set_remove_at: "set (remove_at i xs) \<subseteq> set xs"
  by (auto simp: remove_at_def dest: in_set_takeD in_set_dropD)

lemma distinct_remove_at: "distinct xs \<Longrightarrow> distinct (remove_at i xs)"
proof -
  assume d: "distinct xs"
  have "set (take i xs) \<inter> set (drop (Suc i) xs) = {}"
    using d set_take_disj_set_drop_if_distinct [of xs i "Suc i"] by simp
  with d show ?thesis by (simp add: remove_at_def)
qed

lemma insert_at_update: "i \<le> length xs \<Longrightarrow> (insert_at i x xs)[i := y] = insert_at i y xs"
  by (simp add: insert_at_def list_update_append)

lemma length_insert_at [simp]: "length (insert_at i x xs) = Suc (length xs)"
  by (simp add: insert_at_def)

lemma map_insert_at: "map f (insert_at i x xs) = insert_at i (f x) (map f xs)"
  by (simp add: insert_at_def take_map drop_map)

lemma map_remove_at: "map f (remove_at i xs) = remove_at i (map f xs)"
  by (simp add: remove_at_def take_map drop_map)

text \<open>The shifts done with \<open>memmove\<close> are the two operations on the part in use.\<close>

lemma amove_up_insert:
  assumes "amove_up xs i (n - i) x = Some ys" and "i \<le> n"
  shows "take (Suc n) ys = insert_at i x (take n xs)"
  using amove_up_take [OF assms(1)] assms(2) by (simp add: insert_at_def min_def)

lemma amove_down_remove:
  assumes "amove_down xs i (n - i) x = Some ys" and "i \<le> n"
  shows "take n ys = remove_at i (take (Suc n) xs)"
  using amove_down_take [OF assms(1)] assms(2) by (simp add: remove_at_def min_def)

section \<open>The tables in use\<close>

definition br_tbl :: "aufs_sb \<Rightarrow> nat option list" where
  "br_tbl sb = take (nat (si_bend sb + 1)) (si_branch sb)"

definition hd_tbl :: "aufs_dentry \<Rightarrow> nat option list" where
  "hd_tbl root = take (nat (di_bend (the_di root) + 1)) (di_hdentry (the_di root))"

definition hi_tbl :: "aufs_inode \<Rightarrow> nat option list" where
  "hi_tbl inode = map hi_inode (take (nat (ii_bend (i_iinfo inode) + 1)) (the_hi inode))"

definition tbl_ok :: "aufs_sb \<Rightarrow> aufs_dentry \<Rightarrow> aufs_inode \<Rightarrow> bool" where
  "tbl_ok sb root inode \<longleftrightarrow>
     - 1 \<le> si_bend sb \<and> si_bend sb < AUFS_BRANCH_MAX
     \<and> d_fsdata root \<noteq> None \<and> ii_hinode (i_iinfo inode) \<noteq> None
     \<and> di_bend (the_di root) = si_bend sb \<and> ii_bend (i_iinfo inode) = si_bend sb
     \<and> di_bstart (the_di root) = (if si_bend sb = - 1 then - 1 else 0)
     \<and> ii_bstart (i_iinfo inode) = (if si_bend sb = - 1 then - 1 else 0)
     \<and> di_bdiropq (the_di root) = - 1
     \<and> max 1 (si_bend sb + 1) \<le> int (length (si_branch sb))
     \<and> max 1 (si_bend sb + 1) \<le> int (length (di_hdentry (the_di root)))
     \<and> max 1 (si_bend sb + 1) \<le> int (length (the_hi inode))"

definition mnt_ok :: "aufs_sb \<Rightarrow> aufs_dentry \<Rightarrow> aufs_inode \<Rightarrow> bool" where
  "mnt_ok sb root inode \<longleftrightarrow> tbl_ok sb root inode \<and> distinct (br_tbl sb)
     \<and> None \<notin> set (br_tbl sb) \<and> None \<notin> set (hd_tbl root) \<and> None \<notin> set (hi_tbl inode)"

text \<open>Only the tables matter for it.\<close>

definition sb_frame :: "aufs_sb \<Rightarrow> aufs_sb \<Rightarrow> bool" where
  "sb_frame sb sb' \<longleftrightarrow> si_branch sb' = si_branch sb \<and> si_bend sb' = si_bend sb"

lemma sb_frame_refl [simp]: "sb_frame sb sb"
  and sb_frame_trans: "sb_frame sb sb1 \<Longrightarrow> sb_frame sb1 sb2 \<Longrightarrow> sb_frame sb sb2"
  by (simp_all add: sb_frame_def)

lemma sb_frame_upd [simp]: "sb_frame sb (upd_br a f sb') = sb_frame sb sb'"
  "sb_frame sb (set_br_xino a x sb') = sb_frame sb sb'" "sb_frame sb (set_br_rw a r w sb') = sb_frame sb sb'"
  "sb_frame sb (set_br_perm a p sb') = sb_frame sb sb'"
  "sb_frame sb (set_br_wh a d sb') = sb_frame sb sb'" "sb_frame sb (set_br_plink a d sb') = sb_frame sb sb'"
  "sb_frame sb (au_flag_clr fl sb') = sb_frame sb sb'" "sb_frame sb (sb'\<lparr>si_last_br_id := l\<rparr>) = sb_frame sb sb'"
  "sb_frame sb (sb'\<lparr>s_maxbytes := m\<rparr>) = sb_frame sb sb'" "sb_frame sb (sb'\<lparr>si_plink := pl\<rparr>) = sb_frame sb sb'"
  "sb_frame (upd_br a f sb) sb' = sb_frame sb sb'" "sb_frame (set_br_perm a p sb) sb' = sb_frame sb sb'"
  "sb_frame (set_br_wh a d sb) sb' = sb_frame sb sb'" "sb_frame (set_br_plink a d sb) sb' = sb_frame sb sb'"
  by (simp_all add: sb_frame_def upd_br_def set_br_xino_def set_br_rw_def set_br_perm_def set_br_wh_def
      set_br_plink_def au_flag_clr_def)

lemma frame_tbl: "sb_frame sb sb' \<Longrightarrow> br_tbl sb' = br_tbl sb"
  and frame_tbl_ok: "sb_frame sb sb' \<Longrightarrow> tbl_ok sb' root inode = tbl_ok sb root inode"
  and frame_ok: "sb_frame sb sb' \<Longrightarrow> mnt_ok sb' root inode = mnt_ok sb root inode"
  by (simp_all add: sb_frame_def br_tbl_def tbl_ok_def mnt_ok_def)

lemma inode_attr_tbl:
  assumes "i_iinfo inode' = i_iinfo inode"
  shows "hi_tbl inode' = hi_tbl inode" "tbl_ok sb root inode' = tbl_ok sb root inode"
  using assms by (simp_all add: hi_tbl_def tbl_ok_def the_hi_def)

lemma tbl_ok_dtodi: "tbl_ok sb root inode \<Longrightarrow> dtodi root = Some (the_di root)"
  and tbl_ok_ii: "tbl_ok sb root inode \<Longrightarrow> ii_of inode = Some (i_iinfo inode)"
  and tbl_ok_hi: "tbl_ok sb root inode \<Longrightarrow> ii_hinode (i_iinfo inode) = Some (the_hi inode)"
  by (auto simp: tbl_ok_def dtodi_def the_di_def ii_of_def itoii_def the_hi_def split: if_splits)

lemma mnt_ok_sb_ok:
  assumes "mnt_ok sb root inode"
  shows "sb_ok sb"
  unfolding sb_ok_def
proof (intro conjI allI impI)
  show "- 1 \<le> si_bend sb" "si_bend sb < AUFS_BRANCH_MAX" "si_bend sb < int (length (si_branch sb))"
    using assms by (auto simp: mnt_ok_def tbl_ok_def)
  fix i assume i: "0 \<le> i" "i \<le> si_bend sb"
  then have "si_branch sb ! nat i = br_tbl sb ! nat i" and "nat i < length (br_tbl sb)"
    using assms by (auto simp: br_tbl_def mnt_ok_def tbl_ok_def)
  then show "si_branch sb ! nat i \<noteq> None" using assms unfolding mnt_ok_def by (metis nth_mem)
qed

section \<open>Growing the arrays\<close>

lemma kzrealloc_grow:
  assumes "au_kzrealloc z p (if n - 1 = 0 then 1 else n - 1) n k = Some (Some q, k')"
    and "1 \<le> n" and "max 1 (n - 1) \<le> length p"
  shows "n \<le> length q \<and> take (n - 1) q = take (n - 1) p"
proof (cases "n = 1")
  case True
  with assms show ?thesis by (simp add: au_kzrealloc_def)
next
  case False
  with assms au_kzrealloc_Some [of z p "n - 1" n k q k'] show ?thesis by simp
qed

text \<open>An array that has grown keeps the part in use.\<close>

lemma grow_tbl:
  assumes "tbl_ok sb root inode" and "n = nat (si_bend sb + 2)"
  shows "n \<le> length b \<Longrightarrow> take (n - 1) b = take (n - 1) (si_branch sb) \<Longrightarrow>
      tbl_ok (sb\<lparr>si_branch := b\<rparr>) root inode \<and> br_tbl (sb\<lparr>si_branch := b\<rparr>) = br_tbl sb"
    and "n \<le> length h \<Longrightarrow> take (n - 1) h = take (n - 1) (di_hdentry (the_di root)) \<Longrightarrow>
      tbl_ok sb (root\<lparr>d_fsdata := Some ((the_di root)\<lparr>di_hdentry := h\<rparr>)\<rparr>) inode
      \<and> hd_tbl (root\<lparr>d_fsdata := Some ((the_di root)\<lparr>di_hdentry := h\<rparr>)\<rparr>) = hd_tbl root"
    and "n \<le> length a \<Longrightarrow> take (n - 1) a = take (n - 1) (the_hi inode) \<Longrightarrow>
      tbl_ok sb root (inode\<lparr>i_iinfo := (i_iinfo inode)\<lparr>ii_hinode := Some a\<rparr>\<rparr>)
      \<and> hi_tbl (inode\<lparr>i_iinfo := (i_iinfo inode)\<lparr>ii_hinode := Some a\<rparr>\<rparr>) = hi_tbl inode"
proof -
  have e: "n - 1 = nat (si_bend sb + 1)" and b: "- 1 \<le> si_bend sb" using assms by (auto simp: tbl_ok_def)
  show "n \<le> length b \<Longrightarrow> take (n - 1) b = take (n - 1) (si_branch sb) \<Longrightarrow>
      tbl_ok (sb\<lparr>si_branch := b\<rparr>) root inode \<and> br_tbl (sb\<lparr>si_branch := b\<rparr>) = br_tbl sb"
    using assms e b by (auto simp: tbl_ok_def br_tbl_def)
  show "n \<le> length h \<Longrightarrow> take (n - 1) h = take (n - 1) (di_hdentry (the_di root)) \<Longrightarrow>
      tbl_ok sb (root\<lparr>d_fsdata := Some ((the_di root)\<lparr>di_hdentry := h\<rparr>)\<rparr>) inode
      \<and> hd_tbl (root\<lparr>d_fsdata := Some ((the_di root)\<lparr>di_hdentry := h\<rparr>)\<rparr>) = hd_tbl root"
    using assms e b by (auto simp: tbl_ok_def hd_tbl_def)
  show "n \<le> length a \<Longrightarrow> take (n - 1) a = take (n - 1) (the_hi inode) \<Longrightarrow>
      tbl_ok sb root (inode\<lparr>i_iinfo := (i_iinfo inode)\<lparr>ii_hinode := Some a\<rparr>\<rparr>)
      \<and> hi_tbl (inode\<lparr>i_iinfo := (i_iinfo inode)\<lparr>ii_hinode := Some a\<rparr>\<rparr>) = hi_tbl inode"
    using assms e b by (auto simp: tbl_ok_def hi_tbl_def the_hi_def)
qed

text \<open>Room for one more branch.\<close>

definition tbl_room :: "aufs_sb \<Rightarrow> aufs_dentry \<Rightarrow> aufs_inode \<Rightarrow> bool" where
  "tbl_room sb root inode \<longleftrightarrow> si_bend sb + 2 \<le> int (length (si_branch sb))
     \<and> si_bend sb + 2 \<le> int (length (di_hdentry (the_di root))) \<and> si_bend sb + 2 \<le> int (length (the_hi inode))"

lemma alloc_addbr_tbl:
  assumes ok: "tbl_ok sb root inode"
    and r: "alloc_addbr (nat (si_bend sb + 2)) sb root inode k = Some (r, sb', root', inode', k')"
  shows "tbl_ok sb' root' inode' \<and> br_tbl sb' = br_tbl sb \<and> hd_tbl root' = hd_tbl root \<and> hi_tbl inode' = hi_tbl inode
    \<and> si_bend sb' = si_bend sb \<and> s_br sb' = s_br sb
    \<and> (\<forall>a. r = Inr a \<longrightarrow> a = k_alloc k \<and> tbl_room sb' root' inode') \<and> (\<forall>e. r = Inl e \<longrightarrow> e = - ENOMEM)"
proof -
  define n where "n = nat (si_bend sb + 2)"
  have n: "1 \<le> n" and b: "- 1 \<le> si_bend sb" using ok by (auto simp: n_def tbl_ok_def)
  obtain okm k0 where m: "kmalloc k = (okm, k0)" by fastforce
  show ?thesis
  proof (cases okm)
    case False
    with r m ok show ?thesis by (auto simp: alloc_addbr_def)
  next
    case True
    let ?sz = "if n - 1 = 0 then 1 else n - 1"
    obtain p1 k1 where z1: "au_kzrealloc None (si_branch sb) ?sz n k0 = Some (p1, k1)"
      using r m True unfolding n_def by (auto simp: alloc_addbr_def run_simps Let_def)
    show ?thesis
    proof (cases p1)
      case None
      with r m True z1 ok show ?thesis unfolding n_def by (auto simp: alloc_addbr_def Let_def)
    next
      case (Some q1)
      let ?sb = "sb\<lparr>si_branch := q1\<rparr>"
      have g1: "n \<le> length q1 \<and> take (n - 1) q1 = take (n - 1) (si_branch sb)"
        using kzrealloc_grow [OF z1 [unfolded Some] n] ok by (auto simp: tbl_ok_def n_def)
      then have ok1: "tbl_ok ?sb root inode" and t1: "br_tbl ?sb = br_tbl sb"
        using grow_tbl(1) [OF ok n_def] by auto
      obtain p2 k2 where z2: "au_kzrealloc None (di_hdentry (the_di root)) ?sz n k1 = Some (p2, k2)"
        using r m True z1 Some tbl_ok_dtodi [OF ok] unfolding n_def
        by (auto simp: alloc_addbr_def run_simps Let_def)
      show ?thesis
      proof (cases p2)
        case None
        with r m True z1 \<open>p1 = Some q1\<close> z2 ok1 t1 tbl_ok_dtodi [OF ok] show ?thesis
          unfolding n_def by (auto simp: alloc_addbr_def Let_def)
      next
        case (Some q2)
        let ?root = "root\<lparr>d_fsdata := Some ((the_di root)\<lparr>di_hdentry := q2\<rparr>)\<rparr>"
        have g2: "n \<le> length q2 \<and> take (n - 1) q2 = take (n - 1) (di_hdentry (the_di root))"
          using kzrealloc_grow [OF z2 [unfolded Some] n] ok by (auto simp: tbl_ok_def n_def)
        then have ok2: "tbl_ok ?sb ?root inode" and t2: "hd_tbl ?root = hd_tbl root"
          using grow_tbl(2) [OF ok1, of n] by (auto simp: n_def)
        obtain p3 k3 where z3: "au_kzrealloc \<lparr>hi_inode = None, hi_id = 0, hi_notify = None\<rparr> (the_hi inode) ?sz n k2
            = Some (p3, k3)"
          using r m True z1 \<open>p1 = Some q1\<close> z2 Some tbl_ok_dtodi [OF ok] tbl_ok_ii [OF ok] tbl_ok_hi [OF ok]
          unfolding n_def by (auto simp: alloc_addbr_def run_simps Let_def upd_di_def)
        show ?thesis
        proof (cases p3)
          case None
          with r m True z1 \<open>p1 = Some q1\<close> z2 \<open>p2 = Some q2\<close> z3 ok2 t1 t2 tbl_ok_dtodi [OF ok] tbl_ok_ii [OF ok]
            tbl_ok_hi [OF ok] show ?thesis
            unfolding n_def by (auto simp: alloc_addbr_def Let_def upd_di_def)
        next
          case (Some q3)
          let ?inode = "inode\<lparr>i_iinfo := (i_iinfo inode)\<lparr>ii_hinode := Some q3\<rparr>\<rparr>"
          have g3: "n \<le> length q3 \<and> take (n - 1) q3 = take (n - 1) (the_hi inode)"
            using kzrealloc_grow [OF z3 [unfolded Some] n] ok by (auto simp: tbl_ok_def n_def)
          then have ok3: "tbl_ok ?sb ?root ?inode" and t3: "hi_tbl ?inode = hi_tbl inode"
            using grow_tbl(3) [OF ok2, of n] by (auto simp: n_def)
          have "r = Inr (k_alloc k) \<and> sb' = ?sb \<and> root' = ?root \<and> inode' = ?inode"
            using r m True z1 \<open>p1 = Some q1\<close> z2 \<open>p2 = Some q2\<close> z3 Some tbl_ok_dtodi [OF ok] tbl_ok_ii [OF ok]
              tbl_ok_hi [OF ok] unfolding n_def by (auto simp: alloc_addbr_def Let_def upd_di_def upd_ii_def)
          moreover have "tbl_room ?sb ?root ?inode"
            using g1 g2 g3 b by (auto simp: tbl_room_def n_def the_hi_def)
          ultimately show ?thesis using ok3 t1 t2 t3 by auto
        qed
      qed
    qed
  qed
qed

section \<open>Inserting the new branch\<close>

lemma add_slots_tbl:
  assumes ok: "tbl_ok sb root inode" and room: "tbl_room sb root inode"
    and i: "0 \<le> i" "i \<le> si_bend sb + 1" "si_bend sb < AUFS_BRANCH_MAX - 1"
    and r: "add_slots (si_bend sb) i a sb root inode = Some (sb', root', inode')"
  shows "tbl_ok sb' root' inode' \<and> si_bend sb' = si_bend sb + 1 \<and> s_br sb' = s_br sb
    \<and> br_tbl sb' = insert_at (nat i) (Some a) (br_tbl sb) \<and> hd_tbl root' = insert_at (nat i) None (hd_tbl root)
    \<and> hi_tbl inode' = insert_at (nat i) None (hi_tbl inode)"
proof -
  let ?n = "nat (si_bend sb + 1)" and ?i = "nat i"
  have n: "nat (si_bend sb + 1 - i) = ?n - ?i" and le: "?i \<le> ?n" and S: "nat (2 + si_bend sb) = Suc ?n"
    and b: "- 1 \<le> si_bend sb"
    using i ok by (auto simp: tbl_ok_def)
  have tb: "to_bindex (si_bend sb + 1) = si_bend sb + 1" using i b by (simp add: AUFS_BRANCH_MAX_def)
  from r tbl_ok_dtodi [OF ok] tbl_ok_ii [OF ok] tbl_ok_hi [OF ok] obtain bp hp old ip where
    m: "amove_up (si_branch sb) ?i (?n - ?i) (Some a) = Some bp"
       "amove_up (di_hdentry (the_di root)) ?i (?n - ?i) None = Some hp"
       "amove_up (the_hi inode) ?i (?n - ?i) (old\<lparr>hi_inode := None, hi_notify := None\<rparr>) = Some ip" and
    e: "sb' = sb\<lparr>si_branch := bp, si_bend := to_bindex (si_bend sb + 1)\<rparr>"
       "root' = root\<lparr>d_fsdata := Some ((the_di root)\<lparr>di_hdentry := hp, di_bend := to_bindex (di_bend (the_di root) + 1),
          di_bstart := if si_bend sb = - 1 then 0 else di_bstart (the_di root)\<rparr>)\<rparr>"
       "inode' = inode\<lparr>i_iinfo := (i_iinfo inode)\<lparr>ii_hinode := Some ip, ii_bend := to_bindex (ii_bend (i_iinfo inode) + 1),
          ii_bstart := if si_bend sb = - 1 then 0 else ii_bstart (i_iinfo inode)\<rparr>\<rparr>"
    unfolding add_slots_def n by (auto simp: run_simps Let_def)
  note t = m [THEN amove_up_insert, OF le]
  have "tbl_ok sb' root' inode'"
    using ok room i b m [THEN amove_up_length] unfolding e
    by (simp add: tbl_ok_def tbl_room_def tb the_hi_def max_def split: if_splits)
  moreover have "map hi_inode (take (Suc ?n) ip) = insert_at ?i None (map hi_inode (take ?n (the_hi inode)))"
    unfolding t(3) by (simp add: map_insert_at)
  ultimately show ?thesis
    using ok t(1,2) S by (simp add: e br_tbl_def hd_tbl_def hi_tbl_def tb the_hi_def tbl_ok_def)
qed

lemma set_h_dptr_tbl:
  assumes "tbl_ok sb root inode" and "set_h_dptr root i p k = Some (root', k')" and "0 \<le> i" and "i \<le> si_bend sb"
  shows "tbl_ok sb root' inode \<and> hd_tbl root' = (hd_tbl root)[nat i := p] \<and> d_imode root' = d_imode root"
proof -
  have "root' = root\<lparr>d_fsdata := Some ((the_di root)\<lparr>di_hdentry := (di_hdentry (the_di root))[nat i := p]\<rparr>)\<rparr>"
    using assms tbl_ok_dtodi [OF assms(1)] by (auto simp: set_h_dptr_def run_simps aset_Some_iff split: if_splits)
  then show ?thesis using assms(1) by (simp add: tbl_ok_def hd_tbl_def take_update_swap)
qed

lemma set_h_iptr_tbl:
  assumes "tbl_ok sb root inode" and "set_h_iptr d w inode i (Some h) 0 sb k = Some (inode', sb', k')" and "0 \<le> i"
  shows "tbl_ok sb root inode' \<and> hi_tbl inode' = (hi_tbl inode)[nat i := Some h] \<and> sb' = sb
    \<and> i_nlink inode' = i_nlink inode \<and> i_mode inode' = i_mode inode"
proof -
  from assms(2) obtain hi where st: "set_hinode_at inode i hi = Some inode'" and hi: "hi_inode hi = Some h" "sb' = sb"
    by (auto simp: set_h_iptr_def bind_Some_iff Let_def split: if_splits)
  from st have "inode' = inode\<lparr>i_iinfo := (i_iinfo inode)\<lparr>ii_hinode := Some ((the_hi inode)[nat i := hi])\<rparr>\<rparr>"
    using tbl_ok_ii [OF assms(1)] tbl_ok_hi [OF assms(1)] by (auto simp: set_hinode_at_def bind_Some_iff aset_Some_iff)
  note hi = this hi
  then show ?thesis using assms(1)
    by (simp add: hi tbl_ok_def hi_tbl_def the_hi_def take_update_swap map_update)
qed

lemma attr_iinfo:
  "au_add_nlink k inode h = Some inode' \<Longrightarrow> i_iinfo inode' = i_iinfo inode"
  "au_sub_nlink k inode h = Some inode' \<Longrightarrow> i_iinfo inode' = i_iinfo inode"
  by (auto simp: au_add_nlink_def au_sub_nlink_def run_simps Let_def split: if_splits)

lemma nlink_round_iinfo:
  "nlink_round k i inode = Some (c, x1) \<Longrightarrow> c \<and> i_iinfo x1 = i_iinfo inode"
  by (auto simp: nlink_round_def run_simps attr_iinfo split: option.splits)

lemma nlink_loop_iinfo:
  "for_up (nlink_round k) i e inode = Some inode' \<Longrightarrow> i_iinfo inode' = i_iinfo inode"
proof (induction "nat (e + 1 - i)" arbitrary: i inode)
  case (Suc n)
  then have le: "i \<le> e" by simp
  with Suc.prems obtain c x1 where n: "nlink_round k i inode = Some (c, x1)"
    by (cases "nlink_round k i inode") (auto simp: for_up_step)
  note c = nlink_round_iinfo [OF n]
  with Suc.prems n le have "for_up (nlink_round k) (i + 1) e x1 = Some inode'" by (simp add: for_up_step)
  with Suc.hyps(1) [of "i + 1" x1] Suc.hyps(2) c show ?case by simp
qed simp

lemma cpup_attr_iinfo:
  assumes "au_cpup_attr_all k inode = Some inode'"
  shows "i_iinfo inode' = i_iinfo inode"
proof -
  have t: "au_cpup_attr_timesizes k x = Some y \<Longrightarrow> i_iinfo y = i_iinfo x" for x y
    by (auto simp: au_cpup_attr_timesizes_def run_simps Let_def)
  have c: "au_cpup_attr_changable k x = Some y \<Longrightarrow> i_iinfo y = i_iinfo x" for x y
    using t by (fastforce simp: au_cpup_attr_changable_def run_simps Let_def)
  have n: "au_cpup_attr_nlink k x = Some y \<Longrightarrow> i_iinfo y = i_iinfo x" for x y
  proof -
    assume a: "au_cpup_attr_nlink k x = Some y"
    then obtain h where h: "au_h_iptr k x = Some (Some h)" by (auto simp: au_cpup_attr_nlink_def bind_Some_iff split: if_splits)
    let ?x = "x\<lparr>i_nlink := w32 (int (k_inlink k h))\<rparr>"
    show ?thesis
    proof (cases "S_ISDIR (k_imode k h)")
      case False
      with a h have "y = ?x" by (auto simp: au_cpup_attr_nlink_def split: if_splits)
      then show ?thesis by simp
    next
      case True
      with a h obtain s e where "for_up (nlink_round k) s e ?x = Some y"
        by (auto simp: au_cpup_attr_nlink_def bind_Some_iff Let_def split: if_splits)
      from nlink_loop_iinfo [OF this] show ?thesis by simp
    qed
  qed
  obtain x y where "au_cpup_attr_changable k inode = Some x"
    and "(if 0 < i_nlink x then au_cpup_attr_nlink k x else Some x) = Some y" and "i_iinfo inode' = i_iinfo y"
    using assms by (auto simp: au_cpup_attr_all_def bind_Some_iff Let_def)
  then show ?thesis using c n by (auto split: if_splits)
qed

section \<open>Operations that leave the tables alone\<close>

lemma init_wh_perm_frame: "init_wh_perm vf h_dir wh pl br sb k = Some (err, sb', k') \<Longrightarrow> sb_frame sb sb'"
  by (auto simp: init_wh_perm_def init_plink_def Let_def split: br_perm.splits if_splits prod.splits)

lemma init_wh_frame: "init_wh vf h br sb k = Some (err, sb', k') \<Longrightarrow> sb_frame sb sb'"
  by (drule init_wh_cases) (auto dest: init_wh_perm_frame)

lemma init_br_wh_frame: "init_br_wh vf br p h sb k = Some (err, sb', k') \<Longrightarrow> sb_frame sb sb'"
  by (auto simp: init_br_wh_def bind_Some_iff Let_def dest: init_wh_frame)

lemma xino_init_frame:
  assumes "xino_init env vf root_inode b f t sb k = Some (err, sb', k')"
  shows "sb_frame sb sb'"
proof -
  from assms obtain res k1 where "xino_file vf sb b f t k = Some (res, k1)"
    by (auto simp: xino_init_def bind_Some_iff split: if_splits)
  with assms show ?thesis
    by (cases res; cases "find_readf k1 (projr res)"; cases "find_writef k1 (projr res)")
      (auto simp: xino_init_def bind_Some_iff Let_def split: if_splits)
qed

lemma add_xino_frame:
  assumes "add_xino env vf i a inode sb k = Some (sb', k')"
  shows "sb_frame sb sb'"
proof (cases "au_flag_test sb AuFlag_XINO = 0")
  case True
  with assms show ?thesis by (simp add: add_xino_def)
next
  case False
  with assms obtain bf err sb1 k1 where x: "xino_init env vf inode i bf True sb k = Some (err, sb1, k1)"
    and "sb' = sb1 \<or> sb' = au_flag_clr AuFlag_XINO sb1"
    by (auto simp: add_xino_def bind_Some_iff split: if_splits)
  with xino_init_frame [OF x] show ?thesis by auto
qed

lemma new_branch_frame:
  assumes "sb_ok sb" and "new_branch add a sb = Some sb'"
  shows "sb_frame sb sb'"
proof -
  let ?sb = "upd_br a (\<lambda>b. b\<lparr>br_xino := None, br_mnt := oa_mnt add, br_wh_running := 0\<rparr>) sb"
  have "sb_ok ?sb" using assms(1) by (simp add: sb_ok_def upd_br_def)
  then obtain i where "new_br_id ?sb = Some (i, ?sb\<lparr>si_last_br_id := i\<rparr>)" using new_br_id_total by blast
  with assms(2) show ?thesis by (auto simp: new_branch_def)
qed

section \<open>Adding a branch\<close>

lemma add_hidden_tbl:
  assumes ok: "tbl_ok sb root inode" and i: "0 \<le> oa_bindex add" "oa_bindex add \<le> si_bend sb"
    and r: "add_hidden env add sb root inode k = Some (sb', root', inode', k')"
  shows "\<exists>h. tbl_ok sb' root' inode' \<and> sb_frame sb sb' \<and> hd_tbl root' = (hd_tbl root)[nat (oa_bindex add) := Some (oa_dentry add)]
    \<and> hi_tbl inode' = (hi_tbl inode)[nat (oa_bindex add) := Some h]"
proof -
  let ?i = "oa_bindex add"
  let ?k = "dget (oa_dentry add) k"
  from r obtain p where "set_h_dptr root ?i (Some (oa_dentry add)) ?k = Some p"
    by (cases "set_h_dptr root ?i (Some (oa_dentry add)) ?k") (simp_all add: add_hidden_def)
  then obtain root1 k1 where d: "set_h_dptr root ?i (Some (oa_dentry add)) ?k = Some (root1, k1)" by (cases p) simp
  with r obtain h where h: "k_dinode k1 (oa_dentry add) = Some h"
    by (cases "k_dinode k1 (oa_dentry add)") (simp_all add: add_hidden_def)
  with r d obtain q where "set_h_iptr (xe_aufsd env) (xe_write env) inode ?i (Some h) 0 sb (igrab h k1) = Some q"
    by (cases "set_h_iptr (xe_aufsd env) (xe_write env) inode ?i (Some h) 0 sb (igrab h k1)") (simp_all add: add_hidden_def)
  then obtain x1 sb1 k2 where n: "set_h_iptr (xe_aufsd env) (xe_write env) inode ?i (Some h) 0 sb (igrab h k1)
      = Some (x1, sb1, k2)" by (cases q) simp
  let ?a = "if ?i = 0 then au_cpup_attr_all k2 x1 else au_add_nlink k2 x1 h"
  let ?m = "k_smaxbytes k2 (k_dsb k2 (oa_dentry add))"
  from r d h n have f: "Option.bind ?a (\<lambda>x. Some (if s_maxbytes sb1 < ?m then sb1\<lparr>s_maxbytes := ?m\<rparr> else sb1, root1, x, k2))
      = Some (sb', root', inode', k')"
    by (simp add: add_hidden_def Let_def)
  then have a: "?a = Some inode'" and s: "sb' = (if s_maxbytes sb1 < ?m then sb1\<lparr>s_maxbytes := ?m\<rparr> else sb1)"
    and "root1 = root'" by (cases ?a; simp)+
  then have d: "set_h_dptr root ?i (Some (oa_dentry add)) ?k = Some (root', k1)" and s: "sb_frame sb1 sb'"
    using d by auto
  have 1: "tbl_ok sb root' inode" "hd_tbl root' = (hd_tbl root)[nat ?i := Some (oa_dentry add)]"
    using set_h_dptr_tbl [OF ok d i] by auto
  have 2: "tbl_ok sb root' x1" "hi_tbl x1 = (hi_tbl inode)[nat ?i := Some h]" "sb1 = sb"
    using set_h_iptr_tbl [OF 1(1) n i(1)] by auto
  have e: "i_iinfo inode' = i_iinfo x1"
    using a attr_iinfo(1) cpup_attr_iinfo by (auto split: if_splits)
  have "tbl_ok sb' root' inode'" using 2 s frame_tbl_ok [OF s] inode_attr_tbl(2) [OF e] by simp
  then show ?thesis using 1 2 s inode_attr_tbl(1) [OF e] by auto
qed

lemma add_branch_tbl:
  assumes ok: "mnt_ok sb root inode" and room: "tbl_room sb root inode" and a: "Some a \<notin> set (br_tbl sb)"
    and i: "0 \<le> oa_bindex add" "oa_bindex add \<le> si_bend sb + 1" "si_bend sb < AUFS_BRANCH_MAX - 1"
    and r: "add_branch env vf add a sb root inode k = Some (sb', root', inode', k')"
  shows "\<exists>h. mnt_ok sb' root' inode' \<and> br_tbl sb' = insert_at (nat (oa_bindex add)) (Some a) (br_tbl sb)
    \<and> hd_tbl root' = insert_at (nat (oa_bindex add)) (Some (oa_dentry add)) (hd_tbl root)
    \<and> hi_tbl inode' = insert_at (nat (oa_bindex add)) (Some h) (hi_tbl inode)"
proof -
  let ?i = "nat (oa_bindex add)"
  from r obtain sb1 where nb: "new_branch add a sb = Some sb1"
    by (cases "new_branch add a sb") (auto simp: add_branch_def Let_def)
  with r obtain p where p: "add_slots (sbend sb) (oa_bindex add) a sb1 root inode = Some p"
    by (cases "add_slots (sbend sb) (oa_bindex add) a sb1 root inode") (simp_all add: add_branch_def Let_def)
  then obtain sb2 root2 x2 where sl: "add_slots (sbend sb) (oa_bindex add) a sb1 root inode = Some (sb2, root2, x2)"
    by (cases p) simp
  let ?k = "mntget (oa_mnt add) k"
  from r nb sl obtain q where q: "add_hidden env add sb2 root2 x2 ?k = Some q"
    by (cases "add_hidden env add sb2 root2 x2 ?k") (simp_all add: add_branch_def Let_def)
  then obtain sb3 root3 x3 k3 where hi3: "add_hidden env add sb2 root2 x2 ?k = Some (sb3, root3, x3, k3)"
    by (cases q) simp
  with r nb sl have xi: "add_xino env vf (oa_bindex add) a x3 sb3 k3 = Some (sb', k')"
    and "root3 = root'" "x3 = inode'"
    by (cases "add_xino env vf (oa_bindex add) a x3 sb3 k3"; simp add: add_branch_def Let_def split: prod.splits)+
  with hi3 have hi: "add_hidden env add sb2 root2 x2 ?k = Some (sb3, root', inode', k3)"
    and xi: "add_xino env vf (oa_bindex add) a inode' sb3 k3 = Some (sb', k')" by simp_all
  have f1: "sb_frame sb sb1" using new_branch_frame [OF mnt_ok_sb_ok [OF ok] nb] .
  then have e1: "sbend sb = si_bend sb1" "si_bend sb1 = si_bend sb" by (simp_all add: sbend_def sb_frame_def)
  have t1: "tbl_ok sb1 root inode" "tbl_room sb1 root inode" "br_tbl sb1 = br_tbl sb"
    using ok room frame_tbl_ok [OF f1] frame_tbl [OF f1] f1 by (simp_all add: mnt_ok_def tbl_room_def sb_frame_def)
  note t2 = add_slots_tbl [OF t1(1,2), of "oa_bindex add" a sb2 root2 x2]
  have t2: "tbl_ok sb2 root2 x2 \<and> si_bend sb2 = si_bend sb1 + 1 \<and> br_tbl sb2 = insert_at ?i (Some a) (br_tbl sb)
    \<and> hd_tbl root2 = insert_at ?i None (hd_tbl root) \<and> hi_tbl x2 = insert_at ?i None (hi_tbl inode)"
    using t2 i sl e1 t1(3) by simp
  obtain h where t3: "tbl_ok sb3 root' inode'" "sb_frame sb2 sb3" "hd_tbl root' = (hd_tbl root2)[?i := Some (oa_dentry add)]"
    "hi_tbl inode' = (hi_tbl x2)[?i := Some h]"
    using add_hidden_tbl [OF _ i(1) _ hi] t2 i(2) e1 by auto
  have f4: "sb_frame sb3 sb'" using add_xino_frame [OF xi] .
  have l: "?i \<le> length (hd_tbl root)" "?i \<le> length (hi_tbl inode)"
    using ok i by (auto simp: mnt_ok_def tbl_ok_def hd_tbl_def hi_tbl_def the_hi_def)
  have T: "br_tbl sb' = insert_at ?i (Some a) (br_tbl sb)" "hd_tbl root' = insert_at ?i (Some (oa_dentry add)) (hd_tbl root)"
    "hi_tbl inode' = insert_at ?i (Some h) (hi_tbl inode)"
    using t2 t3 l frame_tbl [OF t3(2)] frame_tbl [OF f4] by (simp_all add: insert_at_update)
  moreover have "mnt_ok sb' root' inode'"
    using ok a t3(1) frame_tbl_ok [OF f4] by (simp add: mnt_ok_def T)
  ultimately show ?thesis by blast
qed

lemma test_add_index:
  assumes "test_add addr loop add remount sb root k = Some 0"
  shows "0 \<le> oa_bindex add" "oa_bindex add \<le> si_bend sb + 1" "si_bend sb < AUFS_BRANCH_MAX - 1"
  using assms by (auto simp: test_add_def bind_Some_iff sbend_def Let_def split: if_splits)

text \<open>The three lists after an operation that failed or had nothing to do.\<close>

definition same_tbls :: "aufs_sb \<Rightarrow> aufs_dentry \<Rightarrow> aufs_inode \<Rightarrow> aufs_sb \<Rightarrow> aufs_dentry \<Rightarrow> aufs_inode \<Rightarrow> bool" where
  "same_tbls sb root inode sb' root' inode' \<longleftrightarrow>
     br_tbl sb' = br_tbl sb \<and> hd_tbl root' = hd_tbl root \<and> hi_tbl inode' = hi_tbl inode"

lemma same_tbls_refl [simp]: "same_tbls sb root inode sb root inode"
  by (simp add: same_tbls_def)

text \<open>The new branch and the hidden directory at one index of all three.\<close>

definition inserted ::
    "opt_add \<Rightarrow> nat \<Rightarrow> aufs_sb \<Rightarrow> aufs_dentry \<Rightarrow> aufs_inode \<Rightarrow> aufs_sb \<Rightarrow> aufs_dentry \<Rightarrow> aufs_inode \<Rightarrow> bool" where
  "inserted add a sb root inode sb' root' inode' \<longleftrightarrow> (\<exists>h. let i = nat (oa_bindex add) in
     i \<le> length (br_tbl sb)
     \<and> br_tbl sb' = insert_at i (Some a) (br_tbl sb)
     \<and> hd_tbl root' = insert_at i (Some (oa_dentry add)) (hd_tbl root)
     \<and> hi_tbl inode' = insert_at i (Some h) (hi_tbl inode))"

lemma br_add_after_alloc:
  assumes ok: "tbl_ok sb root inode" "mnt_ok sb root inode" and room: "tbl_room sb root inode"
    and a: "Some a \<notin> set (br_tbl sb)" and t: "0 \<le> oa_bindex add" "oa_bindex add \<le> si_bend sb + 1" "si_bend sb < AUFS_BRANCH_MAX - 1"
    and w: "(if br_writable (oa_perm add) then init_br_wh vf a (oa_perm add) (oa_dentry add)
          (upd_br a (\<lambda>b. b\<lparr>br_wh := None, br_plink := None\<rparr>) sb) k
        else Some (0, upd_br a (\<lambda>b. b\<lparr>br_wh := None, br_plink := None\<rparr>) sb, k)) = Some (err1, sb1, k1)"
    and r: "(if err1 \<noteq> 0 then Some (err1, sb1, root, inode, kfree k1)
        else do { (sb, root, inode, k) \<leftarrow> add_branch env vf add a sb1 root inode k1; Some (0, sb, root, inode, k) })
      = Some (err, sb', root', inode', k')"
  shows "mnt_ok sb' root' inode' \<and> (if err = 0 then inserted add a sb root inode sb' root' inode'
    else same_tbls sb root inode sb' root' inode')"
proof -
  have f: "sb_frame sb sb1" using w init_br_wh_frame by (fastforce split: if_splits)
  then have e: "si_bend sb1 = si_bend sb" by (simp add: sb_frame_def)
  note T = frame_ok [OF f] frame_tbl [OF f]
  show ?thesis
  proof (cases "err1 = 0")
    case False
    with r T ok(2) show ?thesis by (auto simp: same_tbls_def)
  next
    case True
    then obtain p where p: "add_branch env vf add a sb1 root inode k1 = Some p"
      using r by (cases "add_branch env vf add a sb1 root inode k1") simp_all
    with r True have ab: "add_branch env vf add a sb1 root inode k1 = Some (sb', root', inode', k')" and "err = 0"
      by (cases p; simp)+
    have "tbl_room sb1 root inode" using room f by (simp add: tbl_room_def sb_frame_def)
    from add_branch_tbl [OF _ this _ t(1) _ _ ab] obtain h where "mnt_ok sb' root' inode'"
      "br_tbl sb' = insert_at (nat (oa_bindex add)) (Some a) (br_tbl sb)"
      "hd_tbl root' = insert_at (nat (oa_bindex add)) (Some (oa_dentry add)) (hd_tbl root)"
      "hi_tbl inode' = insert_at (nat (oa_bindex add)) (Some h) (hi_tbl inode)"
      using T ok a t e by auto
    moreover have "nat (oa_bindex add) \<le> length (br_tbl sb)"
      using ok(1) t by (auto simp: br_tbl_def tbl_ok_def)
    ultimately show ?thesis using \<open>err = 0\<close> by (auto simp: inserted_def Let_def)
  qed
qed

text \<open>C27.
  Adding a branch refines insertion: when \<open>br_add\<close> adds a branch, it is put at the asked
  index of the branch table, of the hidden dentries of the root and of the hidden inodes
  of its inode at once, and the upper ones are moved by one; on every other path, whether
  the branch is refused, already there, out of memory in the middle of growing the arrays,
  or without a whiteout base, the three lists are what they were. The arrays stay
  consistent on all paths.
\<close>

theorem br_add_inserts:
  assumes "mnt_ok sb root inode" and "Some (k_alloc k) \<notin> set (br_tbl sb)"
    and "br_add env vf addr loop add remount sb root inode k = Some (err, sb', root', inode', k')"
  shows "mnt_ok sb' root' inode' 
    \<and> (if err = 0 \<and> test_add addr loop add remount sb root k = Some 0
       then inserted add (k_alloc k) sb root inode sb' root' inode'
       else same_tbls sb root inode sb' root' inode')"
proof -
  from assms(3) obtain t where t: "test_add addr loop add remount sb root k = Some t"
    by (auto simp: br_add_def bind_Some_iff)
  show ?thesis
  proof (cases "t = 0")
    case False
    with t assms(1,3) show ?thesis by (auto simp: br_add_def split: if_splits)
  next
    case True
    note ix = test_add_index [OF t [unfolded True]]
    have tb: "tbl_ok sb root inode" using assms(1) by (simp add: mnt_ok_def)
    let ?al = "alloc_addbr (nat (sbend sb + 2)) sb root inode k"
    from assms(3) t True obtain p where "?al = Some p" by (cases ?al) (simp_all add: br_add_def)
    then obtain r1 sb1 root1 x1 k1 where al: "?al = Some (r1, sb1, root1, x1, k1)" by (cases p) simp
    note A = alloc_addbr_tbl [OF tb al [unfolded sbend_def]]
    show ?thesis
    proof (cases r1)
      case (Inl e)
      with A assms t True al show ?thesis by (auto simp: br_add_def mnt_ok_def same_tbls_def)
    next
      case (Inr a)
      with A have a: "a = k_alloc k" and room: "tbl_room sb1 root1 x1" and T: "tbl_ok sb1 root1 x1"
        "br_tbl sb1 = br_tbl sb" "hd_tbl root1 = hd_tbl root" "hi_tbl x1 = hi_tbl inode" "si_bend sb1 = si_bend sb" by auto
      have ok1: "mnt_ok sb1 root1 x1" using assms(1) T by (simp add: mnt_ok_def)
      let ?w = "if br_writable (oa_perm add) then init_br_wh vf a (oa_perm add) (oa_dentry add)
          (upd_br a (\<lambda>b. b\<lparr>br_wh := None, br_plink := None\<rparr>) sb1) k1
        else Some (0, upd_br a (\<lambda>b. b\<lparr>br_wh := None, br_plink := None\<rparr>) sb1, k1)"
      from assms(3) t True al Inr obtain q where "?w = Some q" by (cases ?w) (simp_all add: br_add_def)
      then obtain err2 sb2 k2 where w: "?w = Some (err2, sb2, k2)" by (cases q) simp
      have r: "(if err2 \<noteq> 0 then Some (err2, sb2, root1, x1, kfree k2)
        else do { (sb, root, inode, k) \<leftarrow> add_branch env vf add a sb2 root1 x1 k2; Some (0, sb, root, inode, k) })
      = Some (err, sb', root', inode', k')"
        using assms(3) t True al Inr w by (simp add: br_add_def)
      from br_add_after_alloc [OF T(1) ok1 room _ ix(1) _ _ w r] assms(2) a ix T t True show ?thesis
        by (auto simp: inserted_def same_tbls_def)
    qed
  qed
qed

text \<open>A read-only branch over the directory 7 below a branch over the directory 4.\<close>

definition sb_one :: aufs_sb where "sb_one = (sb0 1)\<lparr>si_flags := 0\<rparr>"

definition root_one :: aufs_dentry where
  "root_one = \<lparr>d_fsdata = Some \<lparr>di_generation = 0, di_bstart = 0, di_bend = 0, di_bwh = - 1, di_bdiropq = - 1,
     di_hdentry = [Some 4], di_reval = 0\<rparr>, d_imode = Some 0x4000\<rparr>"

definition inode_one :: aufs_inode where
  "inode_one = \<lparr>i_ino = 2, i_mode = 0x4000, i_nlink = 2, i_version = 0, i_attr = attr0, i_iinfo =
     \<lparr>ii_generation = 0, ii_bstart = 0, ii_bend = 0,
      ii_hinode = Some [\<lparr>hi_inode = Some 4, hi_id = 1, hi_notify = None\<rparr>], ii_vdir = None\<rparr>\<rparr>"

definition add_seven :: opt_add where
  "add_seven = \<lparr>oa_bindex = 1, oa_path = [], oa_perm = AuBr_RO, oa_dentry = 7, oa_mnt = 3\<rparr>"

definition kern_ten :: kern where "kern_ten = kern0\<lparr>k_alloc := 10\<rparr>"

lemma one_ok: "mnt_ok sb_one root_one inode_one" "br_tbl sb_one = [Some 0]" "si_bend sb_one = 0"
  by (simp_all add: mnt_ok_def tbl_ok_def sb_one_def sb0_def root_one_def inode_one_def the_di_def the_hi_def
      br_tbl_def hd_tbl_def hi_tbl_def AUFS_BRANCH_MAX_def)

lemma kern_ten_fields:
  "k_ok kern_ten = (\<lambda>_. True)" "k_alloc kern_ten = 10" "k_dcount kern_ten = (\<lambda>_. 1)" "k_icount kern_ten = (\<lambda>_. 1)"
  "k_dinode kern_ten = Some" "k_dparent kern_ten = (\<lambda>d. d)" "k_dsb kern_ten = (\<lambda>_. 0)" "k_imode kern_ten = (\<lambda>_. 0x4000)"
  "k_inlink kern_ten = (\<lambda>_. 1)" "k_isb kern_ten = (\<lambda>_. 0)" "k_stype kern_ten = (\<lambda>_. [])"
  by (simp_all add: kern_ten_def kern0_fields)

lemma add_seven_test: "test_add 9 (\<lambda>_. None) add_seven False sb_one root_one kern_ten = Some 0"
  by (simp add: test_add_def au_find_dbindex_def root_one_def dbend_def dbstart_def dtodi_def au_h_dptr_i_def
      au_h_dptr_def scan_up.simps add_seven_def kern_ten_fields sbend_def one_ok AUFS_BRANCH_MAX_def S_ISDIR_def
      au_is_nfs_def test_br_def br_writable_def is_overlap_def do_is_overlap.simps is_overlap_loopback_def)

definition sb_grown :: aufs_sb where "sb_grown = sb_one\<lparr>si_branch := [Some 0, None]\<rparr>"
definition root_grown :: aufs_dentry where
  "root_grown = root_one\<lparr>d_fsdata := Some ((the_di root_one)\<lparr>di_hdentry := [Some 4, None]\<rparr>)\<rparr>"
definition inode_grown :: aufs_inode where
  "inode_grown = inode_one\<lparr>i_iinfo := (i_iinfo inode_one)\<lparr>ii_hinode :=
     Some [\<lparr>hi_inode = Some 4, hi_id = 1, hi_notify = None\<rparr>, \<lparr>hi_inode = None, hi_id = 0, hi_notify = None\<rparr>]\<rparr>\<rparr>"

lemma add_seven_alloc:
  "\<exists>k'. alloc_addbr 2 sb_one root_one inode_one kern_ten = Some (Inr 10, sb_grown, root_grown, inode_grown, k')
     \<and> k_dcount k' = (\<lambda>_. 1) \<and> k_icount k' = (\<lambda>_. 1) \<and> k_dinode k' = Some \<and> k_imode k' = (\<lambda>_. 0x4000)"
  by (simp add: alloc_addbr_def kmalloc_def kern_ten_fields au_kzrealloc_def dtodi_def upd_di_def ii_of_def itoii_def upd_ii_def
      sb_grown_def root_grown_def inode_grown_def root_one_def inode_one_def sb_one_def sb0_def the_di_def Let_def kfree_def
      numeral_2_eq_2)

lemma add_seven_branch:
  assumes k: "k_dcount k = (\<lambda>_. 1)" "k_icount k = (\<lambda>_. 1)" "k_dinode k = Some" "k_imode k = (\<lambda>_. 0x4000)"
  shows "add_branch env_w vfs0 add_seven 10 (upd_br 10 (\<lambda>b. b\<lparr>br_wh := None, br_plink := None\<rparr>) sb_grown)
    root_grown inode_grown k \<noteq> None"
proof -
  let ?sb = "upd_br 10 (\<lambda>b. b\<lparr>br_wh := None, br_plink := None\<rparr>) sb_grown"
  have ok: "sb_ok (upd_br 10 f ?sb)" for f by (simp add: sb_ok_def upd_br_def sb_grown_def sb_one_def sb0_def AUFS_BRANCH_MAX_def)
  obtain i where "new_br_id (upd_br 10 (\<lambda>b. b\<lparr>br_xino := None, br_mnt := 3, br_wh_running := 0\<rparr>) ?sb)
      = Some (i, (upd_br 10 (\<lambda>b. b\<lparr>br_xino := None, br_mnt := 3, br_wh_running := 0\<rparr>) ?sb)\<lparr>si_last_br_id := i\<rparr>)"
    using new_br_id_total [OF ok] by blast
  then obtain sb1 where n: "new_branch add_seven 10 ?sb = Some sb1" and
    f: "si_branch sb1 = [Some 0, None]" "si_bend sb1 = 0" "si_flags sb1 = 0" and b: "br_id (s_br sb1 10) = i"
    by (simp add: new_branch_def add_seven_def upd_br_def sb_grown_def sb_one_def)
  obtain sb2 root2 x2 where sl: "add_slots 0 1 10 sb1 root_grown inode_grown = Some (sb2, root2, x2)" and
    s: "si_branch sb2 = [Some 0, Some 10]" "si_bend sb2 = 1" "si_flags sb2 = 0" "s_br sb2 = s_br sb1" and
    r: "root2 = root_one\<lparr>d_fsdata := Some ((the_di root_one)\<lparr>di_hdentry := [Some 4, None], di_bend := 1\<rparr>)\<rparr>" and
    x: "x2 = inode_one\<lparr>i_iinfo := (i_iinfo inode_one)\<lparr>ii_hinode :=
       Some [\<lparr>hi_inode = Some 4, hi_id = 1, hi_notify = None\<rparr>, \<lparr>hi_inode = None, hi_id = 0, hi_notify = None\<rparr>], ii_bend := 1\<rparr>\<rparr>"
    by (simp add: add_slots_def amove_up_def f root_grown_def inode_grown_def root_one_def inode_one_def the_di_def
        dtodi_def ii_of_def itoii_def)
  have "\<exists>sb3 root3 x3 k3. add_hidden env_w add_seven sb2 root2 x2 (mntget 3 k) = Some (sb3, root3, x3, k3) \<and> si_flags sb3 = 0"
    using k s by (simp add: add_hidden_def add_seven_def r x set_h_dptr_def dtodi_def the_di_def root_one_def
        set_h_iptr_def hinode_at_def ii_of_def itoii_def ibstart_def ibend_def inode_one_def sbr_id_def sbr_def stobr_def
        sbend_def au_add_nlink_def S_ISDIR_def ref_defs set_hinode_at_def Let_def)
  then obtain sb3 root3 x3 k3 where h: "add_hidden env_w add_seven sb2 root2 x2 (mntget 3 k) = Some (sb3, root3, x3, k3)"
    and "si_flags sb3 = 0" by blast
  moreover from this have "add_xino env_w vfs0 1 10 x3 sb3 k3 = Some (sb3, k3)" by (simp add: add_xino_def au_flag_test_def)
  moreover have "sbend ?sb = 0" "oa_bindex add_seven = 1" "oa_mnt add_seven = 3"
    by (simp_all add: sbend_def upd_br_def sb_grown_def one_ok add_seven_def)
  ultimately show ?thesis using n sl by (simp add: add_branch_def)
qed

lemma add_seven_run: "\<exists>x. br_add env_w vfs0 9 (\<lambda>_. None) add_seven False sb_one root_one inode_one kern_ten = Some (0, x)"
proof -
  obtain k' where a: "alloc_addbr 2 sb_one root_one inode_one kern_ten = Some (Inr 10, sb_grown, root_grown, inode_grown, k')"
    and k: "k_dcount k' = (\<lambda>_. 1)" "k_icount k' = (\<lambda>_. 1)" "k_dinode k' = Some" "k_imode k' = (\<lambda>_. 0x4000)"
    using add_seven_alloc by blast
  obtain p where "add_branch env_w vfs0 add_seven 10 (upd_br 10 (\<lambda>b. b\<lparr>br_wh := None, br_plink := None\<rparr>) sb_grown)
    root_grown inode_grown k' = Some p" using add_seven_branch [OF k] by blast
  moreover have "\<not> br_writable (oa_perm add_seven)" by (simp add: add_seven_def br_writable_def)
  ultimately show ?thesis
    by (cases p) (simp add: br_add_def add_seven_test sbend_def one_ok a)
qed

theorem br_add_inserts_witness:
  "\<exists>sb' root' inode' k'. br_add env_w vfs0 9 (\<lambda>_. None) add_seven False sb_one root_one inode_one kern_ten
      = Some (0, sb', root', inode', k') \<and> br_tbl sb' = [Some 0, Some 10] \<and> hd_tbl root' = [Some 4, Some 7]"
proof -
  from add_seven_run obtain sb' root' inode' k' where
    r: "br_add env_w vfs0 9 (\<lambda>_. None) add_seven False sb_one root_one inode_one kern_ten = Some (0, sb', root', inode', k')"
    by (metis surj_pair)
  have "Some (k_alloc kern_ten) \<notin> set (br_tbl sb_one)" by (simp add: one_ok kern_ten_fields)
  from br_add_inserts [OF one_ok(1) this r] add_seven_test
  have "inserted add_seven 10 sb_one root_one inode_one sb' root' inode'" by (simp add: kern_ten_fields)
  moreover have "hd_tbl root_one = [Some 4]" by (simp add: hd_tbl_def root_one_def the_di_def)
  ultimately show ?thesis using r one_ok(2) by (auto simp: inserted_def Let_def insert_at_def add_seven_def)
qed

end
