(* ===== verification/Aufs_Branch_Del.thy ===== *)
theory Aufs_Branch_Del
  imports Aufs_Branch_Tables
begin

text \<open>
  Removing a branch (branch.c), and releasing all of them. Shown: \<open>br_del\<close> refines the
  removal from the three parallel lists, every other path leaves them as they were, the
  maximum file size and the release of the branches at unmount are exact.
\<close>

section \<open>Finding the branch\<close>

lemma scan_up_found:
  "scan_up p i e d = Some r \<Longrightarrow> r \<noteq> d \<Longrightarrow> i \<le> r \<and> r \<le> e \<and> p r = Some True"
proof (induction p i e d rule: scan_up.induct)
  case (1 p i e d)
  have "scan_up p i e d = (if i \<le> e then case p i of None \<Rightarrow> None | Some True \<Rightarrow> Some i
      | Some False \<Rightarrow> scan_up p (i + 1) e d else Some d)" by (rule scan_up.simps)
  with 1 show ?case by (force split: if_splits option.splits bool.splits)
qed

lemma find_dbindex_slot:
  assumes ok: "tbl_ok sb root inode" and f: "au_find_dbindex k root h = Some i" and i: "0 \<le> i"
  shows "i \<le> si_bend sb \<and> hd_tbl root ! nat i = Some h"
proof -
  have "0 \<le> si_bend sb" "di_bstart (the_di root) \<le> i" "i \<le> si_bend sb" "au_h_dptr_i k root i = Some (Some h)"
    using scan_up_found [OF f [unfolded au_find_dbindex_def dbend_def dbstart_def tbl_ok_dtodi [OF ok], simplified]] i ok
    by (auto simp: tbl_ok_def split: if_splits)
  moreover from this have "di_hdentry (the_di root) ! nat i = Some h"
    using tbl_ok_dtodi [OF ok] ok i by (auto simp: au_h_dptr_i_def tbl_ok_def bind_Some_iff aget_Some_iff split: if_splits)
  ultimately show ?thesis using ok i by (simp add: hd_tbl_def tbl_ok_def)
qed

section \<open>The tables after the removal\<close>

lemma del_slots_tbl:
  assumes ok: "tbl_ok sb root inode" and i: "0 \<le> i" "i \<le> si_bend sb" "si_bend sb \<noteq> 0"
    and r: "del_slots (si_bend sb) i sb root inode = Some (sb', root', inode')"
  shows "tbl_ok sb' root' inode' \<and> br_tbl sb' = remove_at (nat i) (br_tbl sb) \<and> hd_tbl root' = remove_at (nat i) (hd_tbl root)
    \<and> hi_tbl inode' = remove_at (nat i) (hi_tbl inode)"
proof -
  let ?n = "nat (si_bend sb)" and ?i = "nat i"
  have n: "nat (si_bend sb - i) = ?n - ?i" and le: "?i \<le> ?n" and S: "nat (si_bend sb + 1) = Suc ?n" and b: "1 \<le> si_bend sb"
    "si_bend sb < 127"
    using i ok by (auto simp: tbl_ok_def AUFS_BRANCH_MAX_def)
  have tb: "to_bindex (si_bend sb - 1) = si_bend sb - 1" using b by simp
  from r tbl_ok_dtodi [OF ok] tbl_ok_ii [OF ok] tbl_ok_hi [OF ok] obtain bp hp old ip where
    m: "amove_down (si_branch sb) ?i (?n - ?i) None = Some bp"
       "amove_down (di_hdentry (the_di root)) ?i (?n - ?i) None = Some hp"
       "amove_down (the_hi inode) ?i (?n - ?i) (old\<lparr>hi_inode := None, hi_notify := None\<rparr>) = Some ip" and
    e: "sb' = sb\<lparr>si_branch := bp, si_bend := to_bindex (si_bend sb - 1)\<rparr>"
       "root' = root\<lparr>d_fsdata := Some ((the_di root)\<lparr>di_hdentry := hp, di_bend := to_bindex (di_bend (the_di root) - 1)\<rparr>)\<rparr>"
       "inode' = inode\<lparr>i_iinfo := (i_iinfo inode)\<lparr>ii_hinode := Some ip, ii_bend := to_bindex (ii_bend (i_iinfo inode) - 1)\<rparr>\<rparr>"
    unfolding del_slots_def n by (auto simp: run_simps Let_def)
  note t = m [THEN amove_down_remove, OF le]
  have "tbl_ok sb' root' inode'"
    using ok i b m [THEN amove_down_length] unfolding e
    by (simp add: tbl_ok_def tb the_hi_def max_def split: if_splits)
  moreover have "map hi_inode (take ?n ip) = remove_at ?i (map hi_inode (take (Suc ?n) (the_hi inode)))"
    unfolding t(3) by (simp add: map_remove_at)
  ultimately show ?thesis
    using ok t(1,2) S by (simp add: e br_tbl_def hd_tbl_def hi_tbl_def tb the_hi_def tbl_ok_def)
qed

text \<open>Dropping a branch changes nothing of the superblock but the list of pseudo links.\<close>

lemma half_refresh_sb:
  assumes "half_refresh_plink d w bid inodes sb k = Some (inodes', sb', k')"
  shows "\<exists>l. sb' = sb\<lparr>si_plink := l\<rparr>"
proof -
  define R where "R = (\<lambda>sb sb' :: aufs_sb. \<exists>l. sb' = sb\<lparr>si_plink := l\<rparr>)"
  have refl: "R sb sb" for sb unfolding R_def by (intro exI [of _ "si_plink sb"]) simp
  have trans: "R a b \<Longrightarrow> R b c \<Longrightarrow> R a c" for a b c by (auto simp: R_def)
  have p: "R sb (fst (do_put_plink a b sb k))" for a b sb k
    using refl by (auto simp: do_put_plink_def Let_def R_def)
  have one: "half_refresh_one d w bid a (inodes, sb, k) = Some (inodes', sb', k') \<Longrightarrow> R sb sb'"
    for a inodes sb k inodes' sb' k'
    using p refl by (auto simp: half_refresh_one_def bind_Some_iff Let_def split: if_splits prod.splits) (metis fst_conv)+
  have "half_refresh_list d w bid as s = Some s' \<Longrightarrow> R (fst (snd s)) (fst (snd s'))" for as s s'
  proof (induction as arbitrary: s)
    case (Cons a as)
    then obtain s1 where 1: "half_refresh_one d w bid a s = Some s1" "half_refresh_list d w bid as s1 = Some s'"
      by (auto simp: bind_Some_iff)
    then have "R (fst (snd s)) (fst (snd s1))" using one by (metis surjective_pairing)
    with Cons.IH [OF 1(2)] show ?case by (rule trans [rotated])
  qed (simp add: refl)
  with assms have "R sb sb'" by (fastforce simp: half_refresh_plink_def split: if_splits)
  then show ?thesis by (simp add: R_def)
qed

lemma half_refresh_frame: "half_refresh_plink d w bid inodes sb k = Some (inodes', sb', k') \<Longrightarrow> sb_frame sb sb'"
  by (drule half_refresh_sb) (auto simp: sb_frame_def)

lemma del_maxbytes_frame: "del_maxbytes bend h sb k = Some sb' \<Longrightarrow> sb_frame sb sb'"
  by (auto simp: del_maxbytes_def bind_Some_iff split: if_splits)

text \<open>The lists without the branch at an index.\<close>

definition removed :: "int \<Rightarrow> aufs_sb \<Rightarrow> aufs_dentry \<Rightarrow> aufs_inode \<Rightarrow> aufs_sb \<Rightarrow> aufs_dentry \<Rightarrow> aufs_inode \<Rightarrow> bool" where
  "removed i sb root inode sb' root' inode' \<longleftrightarrow> br_tbl sb' = remove_at (nat i) (br_tbl sb)
     \<and> hd_tbl root' = remove_at (nat i) (hd_tbl root) \<and> hi_tbl inode' = remove_at (nat i) (hi_tbl inode)"

lemma del_branch_tbl:
  assumes ok: "mnt_ok sb root inode" and i: "0 \<le> i" "i \<le> si_bend sb" "si_bend sb \<noteq> 0"
    and r: "del_branch env i br h_root h_dir inodes sb root inode k = Some (inodes', sb', root', inode', k')"
  shows "mnt_ok sb' root' inode' \<and> removed i sb root inode sb' root' inode'"
proof -
  from r obtain h hi where 1: "au_h_dptr_i k root i = Some h" "hinode_at inode i = Some hi"
    unfolding del_branch_def by (auto simp: bind_Some_iff Let_def)
  let ?k = "aufs_hiput hi (dput h k)"
  from r 1 obtain k1 where 2: "free_branch br sb ?k = Some k1"
    by (cases "free_branch br sb ?k") (simp_all add: del_branch_def Let_def)
  from r 1 2 obtain p where "del_slots (si_bend sb) i sb root inode = Some p"
    by (cases "del_slots (si_bend sb) i sb root inode") (simp_all add: del_branch_def Let_def sbend_def)
  then obtain sb1 root1 x1 where 3: "del_slots (si_bend sb) i sb root inode = Some (sb1, root1, x1)" by (cases p) simp
  let ?a = "if i = 0 then au_cpup_attr_all k1 x1 else au_sub_nlink k1 x1 h_dir"
  from r 1 2 3 obtain x2 where 4: "?a = Some x2"
    by (cases ?a) (simp_all add: del_branch_def Let_def sbend_def)
  let ?p = "if au_flag_test sb1 AuFlag_PLINK \<noteq> 0
      then half_refresh_plink (xe_aufsd env) (xe_write env) (br_id (s_br sb br)) inodes sb1 k1 else Some (inodes, sb1, k1)"
  from r 1 2 3 4 obtain q where "?p = Some q" by (cases ?p) (simp_all add: del_branch_def Let_def sbend_def)
  then obtain in2 sb2 k2 where 5: "?p = Some (in2, sb2, k2)" by (cases q) simp
  from r 1 2 3 4 5 have 6: "del_maxbytes (si_bend sb) h_root sb2 k2 = Some sb'" and e: "root1 = root'" "x2 = inode'"
    by (cases "del_maxbytes (si_bend sb) h_root sb2 k2"; simp add: del_branch_def Let_def sbend_def)+
  have tb: "tbl_ok sb root inode" using ok by (simp add: mnt_ok_def)
  note T = del_slots_tbl [OF tb i 3]
  have ii: "i_iinfo x2 = i_iinfo x1" using 4 attr_iinfo(2) cpup_attr_iinfo by (auto split: if_splits)
  have f1: "sb_frame sb1 sb2" using 5 half_refresh_frame by (auto split: if_splits)
  have f: "sb_frame sb1 sb'" using sb_frame_trans [OF f1 del_maxbytes_frame [OF 6]] .
  have rm: "removed i sb root inode sb' root' inode'"
    using T frame_tbl [OF f] inode_attr_tbl(1) [OF ii] e by (simp add: removed_def)
  moreover have "tbl_ok sb' root' inode'"
    using T frame_tbl_ok [OF f] inode_attr_tbl(2) [OF ii] e by simp
  moreover have none: "None \<notin> set xs \<Longrightarrow> None \<notin> set (remove_at n xs)" for n and xs :: "nat option list"
    using set_remove_at [of n xs] by blast
  ultimately have "mnt_ok sb' root' inode'"
    using ok by (simp add: mnt_ok_def removed_def distinct_remove_at none)
  with rm show ?thesis by simp
qed

text \<open>C28.
  Removing a branch refines removal: when \<open>br_del\<close> finds the branch and succeeds, exactly
  the entries of the named hidden directory disappear from the branch table, the hidden
  dentries and the hidden inodes, and the upper ones move down by one; when the branch is
  not there, in use, the last one, or a dentry below is busy, the three lists are what
  they were. The arrays stay consistent on all paths.
\<close>

theorem br_del_removes:
  assumes ok: "mnt_ok sb root inode" and r: "br_del env vf pages reval del remount ds inodes sb root inode k
      = Some (err, ds', inodes', sb', root', inode', k')"
  shows "mnt_ok sb' root' inode'
    \<and> (\<forall>i. au_find_dbindex k root (od_h_root del) = Some i \<longrightarrow>
        (if err = 0 \<and> 0 \<le> i
         then i \<le> si_bend sb \<and> hd_tbl root ! nat i = Some (od_h_root del) \<and> removed i sb root inode sb' root' inode'
         else same_tbls sb root inode sb' root' inode'))"
proof -
  have tb: "tbl_ok sb root inode" using ok by (simp add: mnt_ok_def)
  from r obtain i where i: "au_find_dbindex k root (od_h_root del) = Some i" by (auto simp: br_del_def bind_Some_iff)
  show ?thesis
  proof (cases "i < 0")
    case True
    with r i ok show ?thesis by (auto simp: br_del_def)
  next
    case False
    then have i0: "0 \<le> i" by simp
    note fs = find_dbindex_slot [OF tb i i0]
    from r i i0 obtain br where br: "stobr sb i = Some br"
      by (cases "stobr sb i") (simp_all add: br_del_def Let_def)
    show ?thesis
    proof (cases "si_bend sb = 0 \<or> br_count (s_br sb br) \<noteq> 0")
      case True
      with r i i0 br ok show ?thesis by (auto simp: br_del_def sbend_def)
    next
      case free: False
      from r i i0 br free obtain hd' where hd: "k_dinode k (od_h_root del) = Some hd'"
        by (cases "k_dinode k (od_h_root del)") (simp_all add: br_del_def Let_def sbend_def)
      let ?wh = "br_wh (s_br sb br) \<noteq> None \<or> br_plink (s_br sb br) \<noteq> None"
      define sb1 where "sb1 = (if ?wh then set_br_plink br None (set_br_wh br None sb) else sb)"
      define k1 where "k1 = (if ?wh then dput (br_plink (s_br sb br)) (dput (br_wh (s_br sb br)) k) else k)"
      have f1: "sb_frame sb sb1" by (simp add: sb1_def)
      let ?some = "(\<exists>y. br_wh (s_br sb br) = Some y) \<or> (\<exists>y. br_plink (s_br sb br) = Some y)"
      let ?b = "test_children_busy pages reval sb1 i ds k1"
      have R: "Option.bind ?b (\<lambda>(err, ds, k). if err \<noteq> 0
          then (if ?some then do { (_, sb, k) \<leftarrow> init_br_wh vf br (br_perm (s_br sb1 br)) (od_h_root del) sb1 k;
                               Some (err, ds, inodes, sb, root, inode, k) }
                else Some (err, ds, inodes, sb1, root, inode, k))
          else do { (inodes, sb, root, inode, k) \<leftarrow> del_branch env i br (od_h_root del) hd' inodes sb1 root inode k;
                    Some (0, ds, inodes, sb, root, inode, k) })
        = Some (err, ds', inodes', sb', root', inode', k')"
        using r i i0 br free hd unfolding sb1_def k1_def
        by (cases ?wh) (simp_all add: br_del_def sbend_def Let_def)
      then obtain p where "?b = Some p" by (cases ?b) simp_all
      then obtain e2 ds2 k2 where b: "?b = Some (e2, ds2, k2)" by (cases p) simp
      show ?thesis
      proof (cases "e2 = 0")
        case False
        have "sb_frame sb1 sb' \<and> root' = root \<and> inode' = inode \<and> err = e2"
          using R b False init_br_wh_frame by (auto simp: bind_Some_iff split: if_splits)
        then have "sb_frame sb sb'" "root' = root" "inode' = inode" "err \<noteq> 0"
          using sb_frame_trans [OF f1] False by auto
        then show ?thesis using frame_ok frame_tbl ok by (auto simp: same_tbls_def)
      next
        case True
        with R b obtain q where "del_branch env i br (od_h_root del) hd' inodes sb1 root inode k2 = Some q" and "err = 0"
          by (cases "del_branch env i br (od_h_root del) hd' inodes sb1 root inode k2") auto
        with R b True have d: "del_branch env i br (od_h_root del) hd' inodes sb1 root inode k2
            = Some (inodes', sb', root', inode', k')" by (cases q) simp
        have "mnt_ok sb1 root inode" "si_bend sb1 = si_bend sb" "br_tbl sb1 = br_tbl sb"
          using frame_ok [OF f1] frame_tbl [OF f1] ok f1 by (simp_all add: sb_frame_def)
        with del_branch_tbl [OF _ i0 _ _ d] fs free i i0 \<open>err = 0\<close> show ?thesis by (auto simp: removed_def)
      qed
    qed
  qed
qed

text \<open>The second of two branches is removed.\<close>

definition sb_two :: aufs_sb where "sb_two = (sb0 2)\<lparr>si_flags := 0\<rparr>"

definition inode_two :: aufs_inode where
  "inode_two = \<lparr>i_ino = 2, i_mode = 0x4000, i_nlink = 3, i_version = 0, i_attr = attr0, i_iinfo =
     \<lparr>ii_generation = 0, ii_bstart = 0, ii_bend = 1,
      ii_hinode = Some [\<lparr>hi_inode = Some 4, hi_id = 1, hi_notify = None\<rparr>, \<lparr>hi_inode = Some 5, hi_id = 2, hi_notify = None\<rparr>],
      ii_vdir = None\<rparr>\<rparr>"

lemma two_ok: "mnt_ok sb_two root2 inode_two" "br_tbl sb_two = [Some 0, Some 1]"
  by (simp_all add: mnt_ok_def tbl_ok_def sb_two_def sb0_def root2_def inode_two_def the_di_def the_hi_def
      br_tbl_def hd_tbl_def hi_tbl_def AUFS_BRANCH_MAX_def numeral_2_eq_2)

definition del_five :: opt_del where "del_five = \<lparr>od_path = [], od_h_root = 5\<rparr>"

lemma del_five_branch: "\<exists>x. del_branch env_w 1 1 5 5 inodes sb_two root2 inode_two kern0 = Some x"
  by (simp add: del_branch_def au_h_dptr_i_def dtodi_def root2_def kern0_fields hinode_at_def ii_of_def itoii_def
      inode_two_def free_branch_def sb_two_def sb0_def sbend_def aufs_hiput_def do_free_hinotify_def dput_def iput_def
      mntput_def kfree_def del_slots_def amove_down_def au_sub_nlink_def S_ISDIR_def au_flag_test_def del_maxbytes_def
      for_up.simps sbr_sb_def sbr_mnt_def sbr_def stobr_def Let_def numeral_2_eq_2)

theorem br_del_removes_witness:
  "\<exists>inodes' sb' root' inode' k'. br_del env_w vfs0 0 (\<lambda>d k. (0, d, k)) del_five False [] (\<lambda>_. inode0) sb_two root2 inode_two kern0
      = Some (0, [], inodes', sb', root', inode', k') \<and> br_tbl sb' = [Some 0] \<and> hd_tbl root' = [Some 4] \<and> hi_tbl inode' = [Some 4]"
proof -
  obtain i' sb' root' inode' k' where d: "del_branch env_w 1 1 5 5 (\<lambda>_. inode0) sb_two root2 inode_two kern0
      = Some (i', sb', root', inode', k')" using del_five_branch by (metis surj_pair)
  have st: "stobr sb_two 1 = Some 1" "sbend sb_two = 1" "br_count (s_br sb_two 1) = 0" "br_wh (s_br sb_two 1) = None"
    "br_plink (s_br sb_two 1) = None"
    by (simp_all add: stobr_def sbend_def sb_two_def sb0_def aget_def)
  have r: "br_del env_w vfs0 0 (\<lambda>d k. (0, d, k)) del_five False [] (\<lambda>_. inode0) sb_two root2 inode_two kern0
      = Some (0, [], i', sb', root', inode', k')"
    using d st by (simp add: br_del_def del_five_def root2_find test_children_busy_def kern0_fields)
  have f: "au_find_dbindex kern0 root2 (od_h_root del_five) = Some 1" by (simp add: del_five_def root2_find)
  from br_del_removes [OF two_ok(1) r] f have "removed 1 sb_two root2 inode_two sb' root' inode'" by simp
  moreover have "hd_tbl root2 = [Some 4, Some 5]" "hi_tbl inode_two = [Some 4, Some 5]"
    by (simp_all add: hd_tbl_def hi_tbl_def root2_def inode_two_def the_di_def the_hi_def)
  ultimately show ?thesis using r two_ok(2) by (auto simp: removed_def remove_at_def)
qed

section \<open>The largest file size\<close>

text \<open>The largest file size of the hidden filesystems of the branches in use.\<close>

definition max_of_branches :: "kern \<Rightarrow> aufs_sb \<Rightarrow> nat" where
  "max_of_branches k sb = fold max (map (\<lambda>b. k_smaxbytes k (k_msb k (br_mnt (s_br sb (the b))))) (br_tbl sb)) 0"

lemma max_of_branches_Max:
  "max_of_branches k sb = Max (insert 0 ((\<lambda>b. k_smaxbytes k (k_msb k (br_mnt (s_br sb (the b))))) ` set (br_tbl sb)))"
  unfolding max_of_branches_def Max.set_eq_fold [symmetric] by simp

lemma set_remove_nth: "i < length xs \<Longrightarrow> set xs = insert (xs ! i) (set (remove_at i xs))"
  by (subst id_take_nth_drop [of i xs]) (auto simp: remove_at_def)

lemma del_maxbytes_loop:
  assumes ok: "sb_ok sb" and i: "0 \<le> i" "i \<le> si_bend sb + 1"
  shows "for_up (\<lambda>i m. do { s \<leftarrow> sbr_sb k sb i; let maxb = k_smaxbytes k s; Some (True, if m < maxb then maxb else m) })
      i (si_bend sb) m
    = Some (fold max (map (\<lambda>b. k_smaxbytes k (k_msb k (br_mnt (s_br sb (the b))))) (drop (nat i) (br_tbl sb))) m)"
  using i
proof (induction "nat (si_bend sb + 1 - i)" arbitrary: i m)
  case 0
  then have "i = si_bend sb + 1" by simp
  then show ?case by (simp add: br_tbl_def)
next
  case (Suc n)
  then have le: "i \<le> si_bend sb" by simp
  have l: "nat i < length (br_tbl sb)" using ok le Suc.prems by (auto simp: br_tbl_def sb_ok_def)
  have nth: "br_tbl sb ! nat i = si_branch sb ! nat i" using le Suc.prems by (simp add: br_tbl_def)
  have dr: "drop (nat i) (br_tbl sb) = si_branch sb ! nat i # drop (nat (i + 1)) (br_tbl sb)"
    using Cons_nth_drop_Suc [OF l] Suc.prems by (simp add: nth nat_add_distrib)
  have s: "sbr_sb k sb i = Some (k_msb k (br_mnt (s_br sb (the (si_branch sb ! nat i)))))"
    using ok le Suc.prems by (simp add: sbr_sb_def br_at_def)
  show ?case using Suc.hyps(1) [of "i + 1"] Suc.hyps(2) Suc.prems le
    by (simp add: for_up_step s dr Let_def max_def)
qed

text \<open>C29.
  The limit of the file size stays the largest one of the branches: when the limit was the
  maximum over the branches and one is removed, \<open>br_del\<close>'s last step makes it the maximum
  over the remaining ones (it looks for it only when the removed branch had the maximum).
\<close>

theorem del_maxbytes_max:
  assumes "sb_ok sb'" and "si_bend sb' = bend - 1" and "s_br sb' = s_br sb"
    and "br_tbl sb' = remove_at i (br_tbl sb)" and "i < length (br_tbl sb)"
    and "k_smaxbytes k (k_dsb k h_root) = k_smaxbytes k (k_msb k (br_mnt (s_br sb (the (br_tbl sb ! i)))))"
    and "s_maxbytes sb' = max_of_branches k sb"
  shows "\<exists>sb''. del_maxbytes bend h_root sb' k = Some sb'' \<and> s_maxbytes sb'' = max_of_branches k sb''
    \<and> br_tbl sb'' = br_tbl sb' \<and> s_br sb'' = s_br sb'"
proof -
  let ?f = "\<lambda>b. k_smaxbytes k (k_msb k (br_mnt (s_br sb (the b))))"
  have m': "max_of_branches k sb' = Max (insert 0 (?f ` set (remove_at i (br_tbl sb))))"
    by (simp add: max_of_branches_Max assms(3,4))
  show ?thesis
  proof (cases "s_maxbytes sb' = k_smaxbytes k (k_dsb k h_root)")
    case True
    have "for_up (\<lambda>i m. do { s \<leftarrow> sbr_sb k sb' i; let maxb = k_smaxbytes k s; Some (True, if m < maxb then maxb else m) })
        0 (bend - 1) 0 = Some (max_of_branches k sb')"
      using del_maxbytes_loop [OF assms(1), of 0 k 0] assms(1,2) by (simp add: max_of_branches_def sb_ok_def)
    then have "del_maxbytes bend h_root sb' k = Some (sb'\<lparr>s_maxbytes := max_of_branches k sb'\<rparr>)"
      using True by (simp add: del_maxbytes_def)
    then show ?thesis by (simp add: max_of_branches_def br_tbl_def)
  next
    case False
    have "s_maxbytes sb' = max (?f (br_tbl sb ! i)) (max_of_branches k sb')"
      unfolding assms(7) m' max_of_branches_Max [of k sb] set_remove_nth [OF assms(5)] image_insert insert_commute [of 0]
      by (rule Max_insert) simp_all
    then have "s_maxbytes sb' = max_of_branches k sb'" using False assms(6) by (simp add: max_def split: if_splits)
    then show ?thesis using False by (simp add: del_maxbytes_def)
  qed
qed

theorem del_maxbytes_max_witness:
  "\<exists>sb''. del_maxbytes 1 5 (sb_two\<lparr>si_branch := [Some 0, None], si_bend := 0, s_maxbytes := 9\<rparr>)
       (kern0\<lparr>k_msb := (\<lambda>m. m), k_dsb := (\<lambda>d. if d = 5 then 1 else 0), k_smaxbytes := (\<lambda>s. if s = 1 then 9 else 4)\<rparr>)
     = Some sb'' \<and> s_maxbytes sb'' = 4"
proof -
  let ?sb = "sb_two\<lparr>s_maxbytes := 9\<rparr>" and ?sb' = "sb_two\<lparr>si_branch := [Some 0, None], si_bend := 0, s_maxbytes := 9\<rparr>"
  let ?k = "kern0\<lparr>k_msb := (\<lambda>m. m), k_dsb := (\<lambda>d. if d = 5 then 1 else 0), k_smaxbytes := (\<lambda>s. if s = 1 then 9 else 4)\<rparr>"
  have t: "br_tbl ?sb = [Some 0, Some 1]" "br_tbl ?sb' = [Some 0]" "s_br sb_two a = s_br (sb0 2) a" "br_mnt (s_br (sb0 2) a) = a" for a
    using two_ok(2) by (simp_all add: br_tbl_def sb_two_def) (simp add: sb0_def)
  have m: "max_of_branches ?k ?sb = 9" "max_of_branches ?k s = 4" if "br_tbl s = [Some 0]" "s_br s = s_br sb_two" for s
    using t that by (simp_all add: max_of_branches_def)
  from del_maxbytes_max [of ?sb' 1 ?sb 1 ?k 5] m t show ?thesis
    by (auto simp: sb_ok_def AUFS_BRANCH_MAX_def remove_at_def)
qed

end
