(* ===== verification/Aufs_Mount_Frame.thy ===== *)
theory Aufs_Mount_Frame
  imports Aufs_Opts_Parse Aufs_Branch_Del
begin

text \<open>
  What the operations of a mount leave alone. Setting up and verifying whiteout bases
  changes neither the flags nor the branch table nor the inode number tables; adding,
  removing and changing branches keeps the flags and, with \<open>XINO\<close> off, gives no branch an
  inode number table.
\<close>

section \<open>Operations that leave the flags and the tables of inode numbers alone\<close>

text \<open>
  \<open>quiet\<close>: flags, branch table and inode number tables are the same; \<open>calm\<close>: flags are
  the same, and no branch object gets an inode number table.
\<close>

definition quiet :: "aufs_sb \<Rightarrow> aufs_sb \<Rightarrow> bool" where
  "quiet sb sb' \<longleftrightarrow> sb_frame sb sb' \<and> si_flags sb' = si_flags sb
     \<and> (\<forall>a. br_xino (s_br sb' a) = br_xino (s_br sb a))"

definition calm :: "aufs_sb \<Rightarrow> aufs_sb \<Rightarrow> bool" where
  "calm sb sb' \<longleftrightarrow> si_flags sb' = si_flags sb
     \<and> (\<forall>a. br_xino (s_br sb a) = None \<longrightarrow> br_xino (s_br sb' a) = None)"

lemma quiet_refl [simp]: "quiet sb sb" and calm_refl [simp]: "calm sb sb"
  by (simp_all add: quiet_def calm_def)

lemma quiet_trans: "quiet sb sb1 \<Longrightarrow> quiet sb1 sb2 \<Longrightarrow> quiet sb sb2"
  and calm_trans: "calm sb sb1 \<Longrightarrow> calm sb1 sb2 \<Longrightarrow> calm sb sb2"
  and quiet_calm: "quiet sb sb' \<Longrightarrow> calm sb sb'"
  by (auto simp: quiet_def calm_def intro: sb_frame_trans)

lemma br_xino_set [simp]:
  "br_xino (s_br (set_br_perm a p sb) b) = br_xino (s_br sb b)"
  "br_xino (s_br (set_br_wh a d sb) b) = br_xino (s_br sb b)"
  "br_xino (s_br (set_br_plink a d sb) b) = br_xino (s_br sb b)"
  "si_flags (set_br_perm a p sb) = si_flags sb" "si_flags (set_br_wh a d sb) = si_flags sb"
  "si_flags (set_br_plink a d sb) = si_flags sb" "si_flags (upd_br a f sb) = si_flags sb"
  by (simp_all add: set_br_perm_def set_br_wh_def set_br_plink_def upd_br_def)

lemma quiet_set [simp]:
  "quiet sb (set_br_perm a p sb') = quiet sb sb'" "quiet sb (set_br_wh a d sb') = quiet sb sb'"
  "quiet sb (set_br_plink a d sb') = quiet sb sb'" "quiet (set_br_perm a p sb) sb' = quiet sb sb'"
  "quiet (set_br_wh a d sb) sb' = quiet sb sb'" "quiet (set_br_plink a d sb) sb' = quiet sb sb'"
  by (simp_all add: quiet_def)

lemma calm_set [simp]:
  "calm sb (set_br_perm a p sb') = calm sb sb'" "calm sb (set_br_wh a d sb') = calm sb sb'"
  "calm sb (set_br_plink a d sb') = calm sb sb'" "calm (set_br_perm a p sb) sb' = calm sb sb'"
  "calm (set_br_wh a d sb) sb' = calm sb sb'" "calm (set_br_plink a d sb) sb' = calm sb sb'"
  "calm sb (sb'\<lparr>si_branch := b\<rparr>) = calm sb sb'" "calm sb (sb'\<lparr>si_branch := b, si_bend := n\<rparr>) = calm sb sb'"
  "calm sb (sb'\<lparr>s_maxbytes := m\<rparr>) = calm sb sb'" "calm sb (sb'\<lparr>si_last_br_id := i\<rparr>) = calm sb sb'"
  "calm sb (sb'\<lparr>si_plink := l\<rparr>) = calm sb sb'"
  by (simp_all add: calm_def)

lemma init_wh_perm_quiet: "init_wh_perm vf h_dir wh pl br sb k = Some (err, sb', k') \<Longrightarrow> quiet sb sb'"
  by (auto simp: init_wh_perm_def init_plink_def Let_def split: br_perm.splits if_splits prod.splits)

lemma init_wh_quiet: "init_wh vf h br sb k = Some (err, sb', k') \<Longrightarrow> quiet sb sb'"
  by (drule init_wh_cases) (auto dest: init_wh_perm_quiet)

lemma init_br_wh_quiet: "init_br_wh vf br p h sb k = Some (err, sb', k') \<Longrightarrow> quiet sb sb'"
  by (auto simp: init_br_wh_def bind_Some_iff Let_def dest: init_wh_quiet)

text \<open>Loops keep both relations.\<close>

context frame_rel
begin

lemma opt_loop_frame:
  assumes "opt_loop f opts s = Some t" and "\<And>opt s c u. f opt s = Some (c, u) \<Longrightarrow> R s u"
  shows "R s t"
  using assms(1)
proof (induction opts arbitrary: s)
  case (Cons opt opts)
  show ?case
  proof (cases "op_type opt = Opt_tail")
    case True
    with Cons.prems show ?thesis by (simp add: frame_refl)
  next
    case False
    with Cons.prems obtain c u where 1: "f opt s = Some (c, u)"
      and 2: "(if c then opt_loop f opts u else Some u) = Some t" by (auto simp: bind_Some_iff)
    have "R u t" using 2 Cons.IH frame_refl by (cases c) auto
    with assms(2) [OF 1] show ?thesis by (rule frame_trans)
  qed
qed simp

end

interpretation quiet_run: frame_rel "\<lambda>s t :: int \<times> aufs_sb \<times> kern. quiet (fst (snd s)) (fst (snd t))"
  by unfold_locales (auto intro: quiet_trans)

lemma verify_opts_quiet:
  assumes "verify_opts vf root dir sb k = Some (err, sb', k')"
  shows "quiet sb sb'"
proof -
  let ?f = "verify_branch vf root dir (au_flag_test sb AuFlag_PLINK)"
  obtain l: "for_up ?f 0 (sbend sb) (0, sb, k) = Some (err, sb', k')"
    using assms by (auto simp: verify_opts_def bind_Some_iff split: if_splits)
  have "quiet (fst (snd s)) (fst (snd u))" if "?f j s = Some (c, u)" for j s c u
    using that by (auto simp: verify_branch_def bind_Some_iff split: if_splits prod.splits dest!: init_wh_quiet)
  from quiet_run.for_up_frame [OF l this] show ?thesis by simp
qed

lemma new_br_id_sb: "new_br_id sb = Some (i, sb') \<Longrightarrow> \<exists>l. sb' = sb\<lparr>si_last_br_id := l\<rparr>"
proof -
  have "new_br_id sb = Some r \<Longrightarrow> \<exists>l. snd r = sb\<lparr>si_last_br_id := l\<rparr>" for r
  proof (erule new_br_id.raw_induct [where P = "\<lambda>sb r. \<exists>l. snd r = sb\<lparr>si_last_br_id := l\<rparr>", rotated])
    fix rec sb r
    assume IH: "\<And>sb r. rec sb = Some r \<Longrightarrow> \<exists>l. snd r = sb\<lparr>si_last_br_id := l\<rparr>"
      and r: "(let br_id = to_bindex (si_last_br_id sb + 1); sb' = sb\<lparr>si_last_br_id := br_id\<rparr>
         in if br_id = 0 then rec sb' else do { i \<leftarrow> find_brindex sb' br_id; if i < 0 then Some (br_id, sb') else rec sb' })
        = Some r"
    let ?sb = "sb\<lparr>si_last_br_id := to_bindex (si_last_br_id sb + 1)\<rparr>"
    have "rec ?sb = Some r \<or> snd r = ?sb" using r by (auto simp: Let_def bind_Some_iff split: if_splits)
    then show "\<exists>l. snd r = sb\<lparr>si_last_br_id := l\<rparr>" using IH [of ?sb r] by auto
  qed
  then show "new_br_id sb = Some (i, sb') \<Longrightarrow> ?thesis" by fastforce
qed

lemma new_branch_calm:
  assumes "new_branch add a sb = Some sb'"
  shows "calm sb sb'"
proof -
  let ?sb = "upd_br a (\<lambda>b. b\<lparr>br_xino := None, br_mnt := oa_mnt add, br_wh_running := 0\<rparr>) sb"
  from assms obtain i sb1 where n: "new_br_id ?sb = Some (i, sb1)"
    and s: "sb' = upd_br a (\<lambda>b. b\<lparr>br_id := i, br_perm := oa_perm add, br_count := 0\<rparr>) sb1"
    by (auto simp: new_branch_def bind_Some_iff)
  from new_br_id_sb [OF n] s show ?thesis by (auto simp: calm_def upd_br_def)
qed

lemma alloc_addbr_calm:
  assumes r: "alloc_addbr n sb root inode k = Some (r, sb', root', inode', k')"
  shows "calm sb sb'"
proof -
  obtain ok k0 where m: "kmalloc k = (ok, k0)" by fastforce
  show ?thesis
  proof (cases ok)
    case False
    with r m show ?thesis by (auto simp: alloc_addbr_def)
  next
    case True
    let ?sz = "if n - 1 = 0 then 1 else n - 1"
    from r m True obtain p1 k1 where z1: "au_kzrealloc None (si_branch sb) ?sz n k0 = Some (p1, k1)"
      by (auto simp: alloc_addbr_def bind_Some_iff Let_def)
    show ?thesis
    proof (cases p1)
      case None
      with r m True z1 show ?thesis by (auto simp: alloc_addbr_def Let_def)
    next
      case (Some q1)
      with r m True z1 obtain di p2 k2 where d: "dtodi root = Some di"
        and z2: "au_kzrealloc None (di_hdentry di) ?sz n k1 = Some (p2, k2)"
        by (auto simp: alloc_addbr_def bind_Some_iff Let_def)
      have "sb' = sb\<lparr>si_branch := q1\<rparr>"
      proof (cases p2)
        case None
        with r m True z1 Some d z2 show ?thesis by (simp add: alloc_addbr_def Let_def)
      next
        case (Some q2)
        with r m True z1 \<open>p1 = Some q1\<close> d z2 obtain root1 ii hi p3 k3 where
          u: "upd_di (di_hdentry_update (\<lambda>_. q2)) root = Some root1" "ii_of inode = Some ii" "ii_hinode ii = Some hi"
          and z3: "au_kzrealloc \<lparr>hi_inode = None, hi_id = 0, hi_notify = None\<rparr> hi ?sz n k2 = Some (p3, k3)"
          by (auto simp: alloc_addbr_def bind_Some_iff Let_def)
        with r m True z1 \<open>p1 = Some q1\<close> d z2 Some show ?thesis
          by (cases p3) (auto simp: alloc_addbr_def bind_Some_iff Let_def)
      qed
      then show ?thesis by simp
    qed
  qed
qed

lemma set_h_iptr_sb: "set_h_iptr d w inode i (Some h) 0 sb k = Some (inode', sb', k') \<Longrightarrow> sb' = sb"
  by (auto simp: set_h_iptr_def bind_Some_iff Let_def split: if_splits)

lemma add_hidden_calm:
  assumes r: "add_hidden env add sb root inode k = Some (sb', root', inode', k')"
  shows "calm sb sb'"
proof -
  let ?i = "oa_bindex add" and ?k = "dget (oa_dentry add) k"
  from r obtain p where "set_h_dptr root ?i (Some (oa_dentry add)) ?k = Some p"
    by (cases "set_h_dptr root ?i (Some (oa_dentry add)) ?k") (simp_all add: add_hidden_def)
  then obtain root1 k1 where d: "set_h_dptr root ?i (Some (oa_dentry add)) ?k = Some (root1, k1)" by (cases p) simp
  with r obtain h where h: "k_dinode k1 (oa_dentry add) = Some h"
    by (cases "k_dinode k1 (oa_dentry add)") (simp_all add: add_hidden_def)
  with r d obtain q where "set_h_iptr (xe_aufsd env) (xe_write env) inode ?i (Some h) 0 sb (igrab h k1) = Some q"
    by (cases "set_h_iptr (xe_aufsd env) (xe_write env) inode ?i (Some h) 0 sb (igrab h k1)") (simp_all add: add_hidden_def)
  then obtain x1 sb1 k2 where n: "set_h_iptr (xe_aufsd env) (xe_write env) inode ?i (Some h) 0 sb (igrab h k1)
      = Some (x1, sb1, k2)" by (cases q) simp
  let ?a = "if ?i = 0 then au_cpup_attr_all k2 x1 else au_add_nlink k2 x1 h"
  let ?m = "k_smaxbytes k2 (k_dsb k2 (oa_dentry add))"
  from r d h n have f: "Option.bind ?a (\<lambda>x. Some (if s_maxbytes sb1 < ?m then sb1\<lparr>s_maxbytes := ?m\<rparr> else sb1, root1, x, k2))
      = Some (sb', root', inode', k')"
    by (simp add: add_hidden_def Let_def)
  then have "sb' = (if s_maxbytes sb1 < ?m then sb1\<lparr>s_maxbytes := ?m\<rparr> else sb1)" by (cases ?a; simp)
  then show ?thesis using set_h_iptr_sb [OF n] by simp
qed

lemma add_slots_calm: "add_slots b i a sb root inode = Some (sb', root', inode') \<Longrightarrow> calm sb sb'"
  by (auto simp: add_slots_def bind_Some_iff Let_def)

lemma add_branch_calm:
  assumes r: "add_branch env vf add a sb root inode k = Some (sb', root', inode', k')"
    and x: "au_flag_test sb AuFlag_XINO = 0"
  shows "calm sb sb'"
proof -
  from r obtain sb1 where n: "new_branch add a sb = Some sb1"
    by (cases "new_branch add a sb") (simp_all add: add_branch_def Let_def)
  from r n obtain p where "add_slots (sbend sb) (oa_bindex add) a sb1 root inode = Some p"
    by (cases "add_slots (sbend sb) (oa_bindex add) a sb1 root inode") (simp_all add: add_branch_def Let_def)
  then obtain sb2 root2 x2 where s: "add_slots (sbend sb) (oa_bindex add) a sb1 root inode = Some (sb2, root2, x2)"
    by (cases p) simp
  let ?k = "mntget (oa_mnt add) k"
  from r n s obtain q where "add_hidden env add sb2 root2 x2 ?k = Some q"
    by (cases "add_hidden env add sb2 root2 x2 ?k") (simp_all add: add_branch_def Let_def)
  then obtain sb3 root3 x3 k3 where h: "add_hidden env add sb2 root2 x2 ?k = Some (sb3, root3, x3, k3)" by (cases q) simp
  have c: "calm sb sb3" using new_branch_calm [OF n] add_slots_calm [OF s] add_hidden_calm [OF h] calm_trans by blast
  then have "au_flag_test sb3 AuFlag_XINO = 0" using x by (simp add: calm_def au_flag_test_def)
  with r n s h have "sb' = sb3" by (simp add: add_branch_def add_xino_def Let_def)
  with c show ?thesis by simp
qed

lemma br_add_calm:
  assumes r: "br_add env vf addr loop add remount sb root inode k = Some (err, sb', root', inode', k')"
    and x: "au_flag_test sb AuFlag_XINO = 0"
  shows "calm sb sb'"
proof -
  from r obtain e where t: "test_add addr loop add remount sb root k = Some e"
    by (cases "test_add addr loop add remount sb root k") (simp_all add: br_add_def)
  show ?thesis
  proof (cases "e = 0")
    case False
    with r t show ?thesis by (auto simp: br_add_def split: if_splits)
  next
    case e0: True
    let ?n = "nat (sbend sb + 2)"
    from r t e0 obtain p where "alloc_addbr ?n sb root inode k = Some p"
      by (cases "alloc_addbr ?n sb root inode k") (simp_all add: br_add_def)
    then obtain res sb1 root1 x1 k1 where a: "alloc_addbr ?n sb root inode k = Some (res, sb1, root1, x1, k1)"
      by (cases p) simp
    note ca = alloc_addbr_calm [OF a]
    show ?thesis
    proof (cases res)
      case (Inl e)
      with r t e0 a ca show ?thesis by (simp add: br_add_def)
    next
      case (Inr n)
      let ?sb = "upd_br n (\<lambda>b. b\<lparr>br_wh := None, br_plink := None\<rparr>) sb1"
      let ?w = "if br_writable (oa_perm add) then init_br_wh vf n (oa_perm add) (oa_dentry add) ?sb k1 else Some (0, ?sb, k1)"
      have cu: "calm sb1 ?sb" by (simp add: calm_def upd_br_def)
      from r t e0 a Inr obtain q where "?w = Some q" by (cases ?w) (simp_all add: br_add_def Let_def)
      then obtain e2 sb2 k2 where w: "?w = Some (e2, sb2, k2)" by (cases q) simp
      then have cw: "calm ?sb sb2" using init_br_wh_quiet quiet_calm by (auto split: if_splits)
      have c2: "calm sb sb2" using ca cu cw calm_trans by blast
      then have x2: "au_flag_test sb2 AuFlag_XINO = 0" using x by (simp add: calm_def au_flag_test_def)
      show ?thesis
      proof (cases "e2 = 0")
        case False
        with r t e0 a Inr w c2 show ?thesis by (simp add: br_add_def Let_def)
      next
        case True
        with r t e0 a Inr w have "add_branch env vf add n sb2 root1 x1 k2 = Some (sb', root', inode', k')"
          by (auto simp: br_add_def Let_def bind_Some_iff)
        from add_branch_calm [OF this x2] c2 calm_trans show ?thesis by blast
      qed
    qed
  qed
qed

lemma del_slots_calm: "del_slots b i sb root inode = Some (sb', root', inode') \<Longrightarrow> calm sb sb'"
  by (auto simp: del_slots_def bind_Some_iff Let_def)

lemma half_refresh_calm: "half_refresh_plink d w bid inodes sb k = Some (inodes', sb', k') \<Longrightarrow> calm sb sb'"
  by (drule half_refresh_sb) auto

lemma del_maxbytes_calm: "del_maxbytes b h sb k = Some sb' \<Longrightarrow> calm sb sb'"
  by (auto simp: del_maxbytes_def bind_Some_iff split: if_splits)

lemma del_branch_calm:
  assumes r: "del_branch env i br h_root h_dir inodes sb root inode k = Some (inodes', sb', root', inode', k')"
  shows "calm sb sb'"
proof -
  from r obtain h hi where 1: "au_h_dptr_i k root i = Some h" "hinode_at inode i = Some hi"
    unfolding del_branch_def by (auto simp: bind_Some_iff Let_def)
  let ?k = "aufs_hiput hi (dput h k)"
  from r 1 obtain k1 where 2: "free_branch br sb ?k = Some k1"
    by (cases "free_branch br sb ?k") (simp_all add: del_branch_def Let_def)
  from r 1 2 obtain p where "del_slots (sbend sb) i sb root inode = Some p"
    by (cases "del_slots (sbend sb) i sb root inode") (simp_all add: del_branch_def Let_def)
  then obtain sb1 root1 x1 where 3: "del_slots (sbend sb) i sb root inode = Some (sb1, root1, x1)" by (cases p) simp
  let ?a = "if i = 0 then au_cpup_attr_all k1 x1 else au_sub_nlink k1 x1 h_dir"
  from r 1 2 3 obtain x2 where 4: "?a = Some x2" by (cases ?a) (simp_all add: del_branch_def Let_def)
  let ?p = "if au_flag_test sb1 AuFlag_PLINK \<noteq> 0
      then half_refresh_plink (xe_aufsd env) (xe_write env) (br_id (s_br sb br)) inodes sb1 k1 else Some (inodes, sb1, k1)"
  from r 1 2 3 4 obtain q where "?p = Some q" by (cases ?p) (simp_all add: del_branch_def Let_def)
  then obtain in2 sb2 k2 where 5: "?p = Some (in2, sb2, k2)" by (cases q) simp
  from r 1 2 3 4 5 have 6: "del_maxbytes (sbend sb) h_root sb2 k2 = Some sb'"
    by (cases "del_maxbytes (sbend sb) h_root sb2 k2") (simp_all add: del_branch_def Let_def)
  have "calm sb1 sb2" using 5 half_refresh_calm by (auto split: if_splits)
  then show ?thesis using del_slots_calm [OF 3] del_maxbytes_calm [OF 6] calm_trans by blast
qed

lemma br_del_calm:
  assumes r: "br_del env vf pages reval del remount ds inodes sb root inode k
      = Some (err, ds', inodes', sb', root', inode', k')"
  shows "calm sb sb'"
proof -
  from r obtain i where i: "au_find_dbindex k root (od_h_root del) = Some i"
    by (cases "au_find_dbindex k root (od_h_root del)") (simp_all add: br_del_def)
  show ?thesis
  proof (cases "i < 0")
    case True
    with r i show ?thesis by (simp add: br_del_def)
  next
    case False
    with r i obtain br where b: "stobr sb i = Some br" by (cases "stobr sb i") (simp_all add: br_del_def Let_def)
    show ?thesis
    proof (cases "sbend sb = 0 \<or> br_count (s_br sb br) \<noteq> 0")
      case True
      with r i False b show ?thesis by (auto simp: br_del_def Let_def)
    next
      case nb: False
      from r i False b nb obtain hdir where hdir: "k_dinode k (od_h_root del) = Some hdir"
        by (cases "k_dinode k (od_h_root del)") (simp_all add: br_del_def Let_def)
      let ?w = "br_wh (s_br sb br) \<noteq> None \<or> br_plink (s_br sb br) \<noteq> None"
      define sk where "sk = (if ?w then (set_br_plink br None (set_br_wh br None sb),
          dput (br_plink (s_br sb br)) (dput (br_wh (s_br sb br)) k)) else (sb, k))"
      obtain sb1 k1 where s1: "sk = (sb1, k1)" by fastforce
      have c1: "calm sb sb1" using s1 by (auto simp: sk_def split: if_splits)
      from r i False b nb hdir s1 obtain p where "test_children_busy pages reval sb1 i ds k1 = Some p"
        by (cases "test_children_busy pages reval sb1 i ds k1") (auto simp: br_del_def Let_def sk_def split: if_splits)
      then obtain e2 ds2 k2 where t: "test_children_busy pages reval sb1 i ds k1 = Some (e2, ds2, k2)" by (cases p) simp
      consider "sb' = sb1" | e3 k3 where "init_br_wh vf br (br_perm (s_br sb1 br)) (od_h_root del) sb1 k2 = Some (e3, sb', k3)"
        | inodes3 root3 x3 k3 where "del_branch env i br (od_h_root del) hdir inodes sb1 root inode k2
            = Some (inodes3, sb', root3, x3, k3)"
        using r i False b nb hdir s1 t
        by (auto simp: br_del_def Let_def sk_def bind_Some_iff split: if_splits)
      then have "calm sb1 sb'" using init_br_wh_quiet quiet_calm del_branch_calm by cases auto
      then show ?thesis using c1 calm_trans by blast
    qed
  qed
qed

lemma br_mod_calm:
  assumes r: "br_mod vf m remount upd files sb root k = Some (err, upd', sb', k')"
  shows "calm sb sb'"
proof -
  have m: "calm sb sb1" if "mod_writable vf m i br files sb k = Some (e, sb1, k1)" for i br e sb1 k1
    using that init_br_wh_quiet quiet_calm by (fastforce simp: mod_writable_def bind_Some_iff split: if_splits)
  from r obtain i where "au_find_dbindex k root (om_h_root m) = Some i"
    by (cases "au_find_dbindex k root (om_h_root m)") (simp_all add: br_mod_def)
  with r m show ?thesis by (auto simp: br_mod_def Let_def bind_Some_iff split: if_splits)
qed

end
