(* ===== verification/Aufs_Mount_Flags.thy ===== *)
theory Aufs_Mount_Flags
  imports Aufs_Mount_Frame
begin

text \<open>
  The flags the mount options name, as a specification on the list of options, and the
  first two loops of a mount (opts.c): the simple options change the flags as specified,
  the branch options keep them and, with \<open>XINO\<close> off, give no branch an inode number table.
\<close>

section \<open>The flags the options name\<close>

text \<open>The bits an option clears and the bits it sets.\<close>

definition opt_mask :: "opt_slot \<Rightarrow> 32 word \<times> 32 word" where
  "opt_mask opt =
     (let t = op_type opt
      in if t = Opt_udba then (case op_u opt of U_udba n \<Rightarrow> (AuMask_UDBA, word_of_int n) | _ \<Rightarrow> (0, 0))
         else if t = Opt_plink then (0, AuFlag_PLINK) else if t = Opt_noplink then (AuFlag_PLINK, 0)
         else if t = Opt_diropq_a then (0, AuFlag_ALWAYS_DIROPQ)
         else if t = Opt_diropq_w then (AuFlag_ALWAYS_DIROPQ, 0)
         else if t = Opt_dlgt then (0, AuFlag_DLGT) else if t = Opt_nodlgt then (AuFlag_DLGT, 0)
         else if t = Opt_warn_perm then (0, AuFlag_WARN_PERM) else if t = Opt_nowarn_perm then (AuFlag_WARN_PERM, 0)
         else if t = Opt_xino then (0, AuFlag_XINO) else if t = Opt_noxino then (AuFlag_XINO, 0)
         else (0, 0))"

definition opt_flags :: "opt_slot \<Rightarrow> 32 word \<Rightarrow> 32 word" where
  "opt_flags opt f = (let (clr, set) = opt_mask opt in (f AND NOT clr) OR set)"

fun opts_flags :: "opt_slot list \<Rightarrow> 32 word \<Rightarrow> 32 word" where
  "opts_flags [] f = f"
| "opts_flags (opt # opts) f = (if op_type opt = Opt_tail then f else opts_flags opts (opt_flags opt f))"

text \<open>The same in two parts: the last of \<open>xino\<close> and \<open>noxino\<close>, and the other options.\<close>

fun want_xino :: "opt_slot list \<Rightarrow> bool \<Rightarrow> bool" where
  "want_xino [] b = b"
| "want_xino (opt # opts) b =
     (if op_type opt = Opt_tail then b
      else want_xino opts (if op_type opt = Opt_xino then True else if op_type opt = Opt_noxino then False else b))"

definition simple_flags :: "opt_slot \<Rightarrow> 32 word \<Rightarrow> 32 word" where
  "simple_flags opt f = (if op_type opt \<in> {Opt_xino, Opt_noxino} then f else opt_flags opt f)"

fun simples_flags :: "opt_slot list \<Rightarrow> 32 word \<Rightarrow> 32 word" where
  "simples_flags [] f = f"
| "simples_flags (opt # opts) f = (if op_type opt = Opt_tail then f else simples_flags opts (simple_flags opt f))"

lemma bit_one_shift: "m < 32 \<Longrightarrow> bit (push_bit m (1 :: 32 word)) n = (n = m)"
  by (auto simp: bit_exp_iff)

lemma bit_flags [simp]:
  "bit AuFlag_XINO n = (n = 0)" "bit AuFlag_PLINK n = (n = 2)" "bit AuFlag_ALWAYS_DIROPQ n = (n = 10)"
  "bit AuFlag_DLGT n = (n = 11)" "bit AuFlag_WARN_PERM n = (n = 6)" "bit AuFlag_UDBA_NONE n = (n = 3)"
  "bit AuFlag_UDBA_REVAL n = (n = 4)" "bit AuFlag_UDBA_INOTIFY n = (n = 5)"
  unfolding AuFlag_XINO_def AuFlag_PLINK_def AuFlag_ALWAYS_DIROPQ_def AuFlag_DLGT_def AuFlag_WARN_PERM_def
    AuFlag_UDBA_NONE_def AuFlag_UDBA_REVAL_def AuFlag_UDBA_INOTIFY_def
  by (simp_all only: bit_one_shift bit_1_iff)

lemma bit_udba [simp]: "bit AuMask_UDBA n = (n = 3 \<or> n = 4 \<or> n = 5)"
  by (auto simp: AuMask_UDBA_def bit_or_iff)

lemma udba_level_bit: "n \<in> udba_levels \<Longrightarrow> \<not> bit (word_of_int n :: 32 word) 0"
  by (auto simp: udba_levels_def)

lemma flag_bit: "(au_flag_test sb AuFlag_XINO \<noteq> 0) = bit (si_flags sb) 0"
proof -
  have "au_flag_test sb AuFlag_XINO = 0 \<longleftrightarrow> (\<forall>n < 32. \<not> bit (si_flags sb AND AuFlag_XINO) n)"
    unfolding au_flag_test_def bit_eq_iff by auto
  then show ?thesis by (auto simp: bit_and_iff)
qed

lemma opt_flags_bit:
  "n < 32 \<Longrightarrow> bit (opt_flags opt f) n = (bit f n \<and> \<not> bit (fst (opt_mask opt)) n \<or> bit (snd (opt_mask opt)) n)"
  by (simp add: opt_flags_def bit_or_iff bit_and_iff bit_not_iff split: prod.split)

lemma mask_xino:
  "op_type opt = Opt_xino \<Longrightarrow> opt_mask opt = (0, AuFlag_XINO)"
  "op_type opt = Opt_noxino \<Longrightarrow> opt_mask opt = (AuFlag_XINO, 0)"
  by (simp_all add: opt_mask_def)

lemma mask_bit0:
  assumes "slot_typed opt" and "op_type opt \<notin> {Opt_xino, Opt_noxino}"
  shows "\<not> bit (fst (opt_mask opt)) 0 \<and> \<not> bit (snd (opt_mask opt)) 0"
proof (cases "op_type opt = Opt_udba")
  case True
  with assms(1) obtain n where "op_u opt = U_udba n" "n \<in> udba_levels"
    by (auto simp: slot_typed_def bare_opts_def split: opt_u.splits)
  with True udba_level_bit show ?thesis by (simp add: opt_mask_def Let_def)
next
  case False
  with assms(2) show ?thesis by (simp add: opt_mask_def Let_def)
qed

lemma simple_flags_bit0:
  assumes "slot_typed opt"
  shows "bit (simple_flags opt f) 0 = bit f 0"
  using mask_bit0 [OF assms] by (simp add: simple_flags_def opt_flags_bit)

lemma opt_flags_cong:
  assumes "n < 32" and "n \<noteq> 0" and "bit f n = bit g n"
  shows "bit (opt_flags opt f) n = bit (simple_flags opt g) n"
  using assms by (auto simp: simple_flags_def opt_flags_bit mask_xino)

lemma opts_flags_bit0: "opts_ok opts \<Longrightarrow> bit (simples_flags opts f) 0 = bit f 0"
proof (induction opts arbitrary: f)
  case (Cons opt opts)
  then show ?case
    by (cases "op_type opt = Opt_tail") (simp_all del: bit_0 add: simple_flags_bit0)
qed simp

lemma opts_flags_xino: "opts_ok opts \<Longrightarrow> bit (opts_flags opts f) 0 = want_xino opts (bit f 0)"
proof (induction opts arbitrary: f)
  case (Cons opt opts)
  show ?case
  proof (cases "op_type opt = Opt_tail")
    case False
    with Cons.prems have t: "slot_typed opt" "opts_ok opts" by auto
    have "bit (opt_flags opt f) 0 = (if op_type opt = Opt_xino then True else if op_type opt = Opt_noxino then False
        else bit f 0)"
      using simple_flags_bit0 [OF t(1), of f]
      by (auto simp: simple_flags_def opt_flags_bit mask_xino split: if_splits)
    with Cons.IH [OF t(2)] False show ?thesis by simp
  qed simp
qed simp

lemma opts_flags_other:
  "\<forall>n < 32. n \<noteq> 0 \<longrightarrow> bit f n = bit g n \<Longrightarrow> n < 32 \<Longrightarrow> n \<noteq> 0
    \<Longrightarrow> bit (opts_flags opts f) n = bit (simples_flags opts g) n"
proof (induction opts arbitrary: f g)
  case (Cons opt opts)
  have "\<forall>n < 32. n \<noteq> 0 \<longrightarrow> bit (opt_flags opt f) n = bit (simple_flags opt g) n"
    using opt_flags_cong Cons.prems(1) by blast
  with Cons show ?case by auto
qed simp

section \<open>The simple options\<close>

lemma au_put_plink_sb:
  assumes "au_put_plink sb k = Some (sb', k')"
  shows "sb' = sb\<lparr>si_plink := []\<rparr>"
proof -
  have "fst (fold (\<lambda>plink (sb, k). do_put_plink plink False sb k) ps (sb, k)) = sb" for ps sb k
    by (induction ps arbitrary: k) (simp_all add: do_put_plink_def Let_def)
  with assms show ?thesis by (auto simp: au_put_plink_def split: prod.splits if_splits) (metis fst_conv)
qed

text \<open>The flags of a superblock, and whether it has inode number tables at all.\<close>

definition no_tables :: "aufs_sb \<Rightarrow> bool" where
  "no_tables sb \<longleftrightarrow> (\<forall>a. br_xino (s_br sb a) = None)"

lemma no_tables_upd [simp]:
  "no_tables (sb\<lparr>si_plink := l\<rparr>) = no_tables sb" "no_tables (au_flag_set f sb) = no_tables sb"
  "no_tables (au_flag_clr f sb) = no_tables sb" "no_tables (sb\<lparr>si_dirwh := n\<rparr>) = no_tables sb"
  "no_tables (sb\<lparr>si_rdcache := n\<rparr>) = no_tables sb" "no_tables (udba_set f sb) = no_tables sb"
  "no_tables (coo_set f sb) = no_tables sb"
  by (simp_all add: no_tables_def au_flag_set_def au_flag_clr_def udba_set_def coo_set_def)

lemma si_flags_upd [simp]:
  "si_flags (au_flag_set f sb) = si_flags sb OR f" "si_flags (au_flag_clr f sb) = si_flags sb AND NOT f"
  "si_flags (udba_set f sb) = (si_flags sb AND NOT AuMask_UDBA) OR f"
  by (simp_all add: au_flag_set_def au_flag_clr_def udba_set_def)

lemma opt_simple_flags:
  assumes t: "slot_typed opt" and r: "au_do_opt_simple hz opt sb given k = Some (err, sb', given', k')"
  shows "si_flags sb' = simple_flags opt (si_flags sb) \<and> (no_tables sb \<longrightarrow> no_tables sb') \<and> 0 \<le> err"
proof -
  have coo: "op_type opt \<noteq> Opt_coo" using t by (auto simp: slot_typed_def bare_opts_def split: opt_u.splits)
  have udba: "\<exists>n. op_u opt = U_udba n" if "op_type opt = Opt_udba"
    using t that by (auto simp: slot_typed_def bare_opts_def split: opt_u.splits)
  show ?thesis using r coo udba
    by (cases "op_type opt")
      (auto dest!: au_put_plink_sb simp: au_do_opt_simple_def simple_flags_def opt_flags_def opt_mask_def bind_Some_iff Let_def split: if_splits)
qed

lemma simple_loop:
  assumes "opts_ok opts" and "opt_loop (simple_round e) opts (err, given, ms) = Some (err', given', ms')"
  shows "si_flags (ms_sb ms') = simples_flags opts (si_flags (ms_sb ms))
    \<and> (no_tables (ms_sb ms) \<longrightarrow> no_tables (ms_sb ms'))"
  using assms
proof (induction opts arbitrary: err given ms)
  case (Cons opt opts)
  show ?case
  proof (cases "op_type opt = Opt_tail")
    case False
    with Cons.prems have t: "slot_typed opt" "opts_ok opts" by auto
    from Cons.prems(2) False obtain e1 sb1 g1 k1 where
      o: "au_do_opt_simple (me_hz e) opt (ms_sb ms) given (ms_k ms) = Some (e1, sb1, g1, k1)"
      by (auto simp: simple_round_def bind_Some_iff)
    note f = opt_simple_flags [OF t(1) o]
    have "simple_round e opt (err, given, ms) = Some (True, e1, g1, ms\<lparr>ms_sb := sb1, ms_k := k1\<rparr>)"
      using o f by (simp add: simple_round_def)
    then have "opt_loop (simple_round e) opts (e1, g1, ms\<lparr>ms_sb := sb1, ms_k := k1\<rparr>) = Some (err', given', ms')"
      using Cons.prems(2) False by simp
    from Cons.IH [OF t(2) this] f False show ?thesis by simp
  qed (use Cons.prems in simp)
qed simp

section \<open>The branch options\<close>

lemma calm_no_tables: "calm sb sb' \<Longrightarrow> no_tables sb \<Longrightarrow> no_tables sb'"
  by (simp add: calm_def no_tables_def)

lemma opt_br_calm:
  assumes "au_do_opt_br e opt remount dr ms = Some (err, dr', ms')" and "au_flag_test (ms_sb ms) AuFlag_XINO = 0"
  shows "calm (ms_sb ms) (ms_sb ms')"
proof -
  consider "op_type opt \<in> {Opt_append, Opt_prepend, Opt_add}" | "op_type opt \<in> {Opt_del, Opt_idel}"
    | "op_type opt \<in> {Opt_mod, Opt_imod}"
    | "op_type opt \<notin> {Opt_append, Opt_prepend, Opt_add}" "op_type opt \<notin> {Opt_del, Opt_idel}" "op_type opt \<notin> {Opt_mod, Opt_imod}"
    by blast
  then show ?thesis
  proof cases
    case 1
    with assms(1) obtain a where a: "u_add (op_u opt) = Some a"
      unfolding au_do_opt_br_def by (cases "u_add (op_u opt)") (simp_all only: if_True bind.bind_lzero option.distinct)
    let ?add = "if op_type opt = Opt_append then a\<lparr>oa_bindex := to_bindex (sbend (ms_sb ms) + 1)\<rparr>
       else if op_type opt = Opt_prepend then a\<lparr>oa_bindex := 0\<rparr> else a"
    from 1 a assms(1) obtain p where p: "br_add (me_xino e) (me_vfs e) (me_addr e) (me_loop e) ?add remount (ms_sb ms)
        (ms_root ms) (ms_dir ms) (ms_k ms) = Some p"
      unfolding au_do_opt_br_def by (simp only: if_True Let_def bind.bind_lunit bind_Some_iff) blast
    obtain err1 sb root dir k where "p = (err1, sb, root, dir, k)" by (cases p)
    with 1 a assms(1) p have "br_add (me_xino e) (me_vfs e) (me_addr e) (me_loop e) ?add remount (ms_sb ms)
        (ms_root ms) (ms_dir ms) (ms_k ms) = Some (err1, sb, root, dir, k)" and "ms_sb ms' = sb"
      unfolding au_do_opt_br_def
      by (simp_all only: if_True Let_def bind.bind_lunit prod.case option.inject prod.inject)
        (elim conjE, drule sym [of _ ms'], simp)
    with br_add_calm assms(2) show ?thesis by blast
  next
    case 2
    then have n: "op_type opt \<notin> {Opt_append, Opt_prepend, Opt_add}" by auto
    with 2 assms(1) obtain a where a: "u_del (op_u opt) = Some a"
      unfolding au_do_opt_br_def by (cases "u_del (op_u opt)") (simp_all only: if_True if_False bind.bind_lzero option.distinct)
    from n 2 a assms(1) obtain p where p: "br_del (me_xino e) (me_vfs e) (me_pages e) (me_reval e) a remount (ms_ds ms) (ms_inodes ms)
        (ms_sb ms) (ms_root ms) (ms_dir ms) (ms_k ms) = Some p"
      unfolding au_do_opt_br_def by (simp only: if_True if_False Let_def bind.bind_lunit bind_Some_iff) blast
    obtain err1 ds inodes sb root dir k where "p = (err1, ds, inodes, sb, root, dir, k)" by (cases p)
    with n 2 a assms(1) p have "br_del (me_xino e) (me_vfs e) (me_pages e) (me_reval e) a remount (ms_ds ms) (ms_inodes ms)
        (ms_sb ms) (ms_root ms) (ms_dir ms) (ms_k ms) = Some (err1, ds, inodes, sb, root, dir, k)" and "ms_sb ms' = sb"
      unfolding au_do_opt_br_def
      by (simp_all only: if_True if_False Let_def bind.bind_lunit prod.case option.inject prod.inject)
        (elim conjE, drule sym [of _ ms'], simp)
    with br_del_calm show ?thesis by blast
  next
    case 3
    then have n: "op_type opt \<notin> {Opt_append, Opt_prepend, Opt_add}" "op_type opt \<notin> {Opt_del, Opt_idel}" by auto
    with 3 assms(1) obtain a where a: "u_mod (op_u opt) = Some a"
      unfolding au_do_opt_br_def by (cases "u_mod (op_u opt)") (simp_all only: if_True if_False bind.bind_lzero option.distinct)
    from n 3 a assms(1) obtain p where p: "br_mod (me_vfs e) a remount dr (me_files e) (ms_sb ms) (ms_root ms) (ms_k ms) = Some p"
      unfolding au_do_opt_br_def by (simp only: if_True if_False Let_def bind.bind_lunit bind_Some_iff) blast
    obtain err1 dr1 sb k where "p = (err1, dr1, sb, k)" by (cases p)
    with n 3 a assms(1) p have "br_mod (me_vfs e) a remount dr (me_files e) (ms_sb ms) (ms_root ms) (ms_k ms) = Some (err1, dr1, sb, k)" and "ms_sb ms' = sb"
      unfolding au_do_opt_br_def
      by (simp_all only: if_True if_False Let_def bind.bind_lunit prod.case option.inject prod.inject)
        (elim conjE, drule sym [of _ ms'], simp)
    with br_mod_calm show ?thesis by blast
  next
    case 4
    with assms(1) show ?thesis unfolding au_do_opt_br_def by simp
  qed
qed

interpretation calm_run: frame_rel "\<lambda>s t :: int \<times> bool \<times> mount_st.
    au_flag_test (ms_sb (snd (snd s))) AuFlag_XINO = 0 \<longrightarrow> calm (ms_sb (snd (snd s))) (ms_sb (snd (snd t)))"
  by unfold_locales (auto simp: calm_def au_flag_test_def)

lemma br_loop:
  assumes "opt_loop (br_round e) opts (err, dr, ms) = Some (err', dr', ms')" and "au_flag_test (ms_sb ms) AuFlag_XINO = 0"
  shows "calm (ms_sb ms) (ms_sb ms')"
proof -
  have "au_flag_test (ms_sb (snd (snd s))) AuFlag_XINO = 0 \<longrightarrow> calm (ms_sb (snd (snd s))) (ms_sb (snd (snd u)))"
    if "br_round e opt s = Some (c, u)" for opt s c u
  proof -
    obtain e1 dr1 ms1 where s: "s = (e1, dr1, ms1)" by (cases s)
    with that obtain e2 dr2 ms2 where "au_do_opt_br e opt False dr1 ms1 = Some (e2, dr2, ms2)" "u = (e2, dr2, ms2)"
      by (auto simp: br_round_def bind_Some_iff)
    with opt_br_calm s show ?thesis by auto
  qed
  from calm_run.opt_loop_frame [OF assms(1) this] assms(2) show ?thesis by simp
qed

end
