(* ===== verification/Aufs_Mount.thy ===== *)
theory Aufs_Mount
  imports Aufs_Mount_Flags
begin

text \<open>
  Mounting (opts.c, \<open>au_do_opts_mount\<close>), composed of the branch operations, the inode
  number tables and the whiteout bases. Shown: a successful mount leaves exactly the flags
  the options name, in their order, although some are switched off on the way, and a
  branch has an inode number table if and only if the flag \<open>XINO\<close> is set.
\<close>

section \<open>The inode number tables\<close>

text \<open>Every branch has a table; no branch has one.\<close>

definition has_table :: "aufs_sb \<Rightarrow> int \<Rightarrow> bool" where
  "has_table sb i \<longleftrightarrow> (\<exists>a. stobr sb i = Some a \<and> br_xino (s_br sb a) \<noteq> None)"

definition lacks_table :: "aufs_sb \<Rightarrow> int \<Rightarrow> bool" where
  "lacks_table sb i \<longleftrightarrow> (\<forall>a. stobr sb i = Some a \<longrightarrow> br_xino (s_br sb a) = None)"

definition all_tables :: "aufs_sb \<Rightarrow> bool" where
  "all_tables sb \<longleftrightarrow> (\<forall>i. 0 \<le> i \<longrightarrow> i \<le> sbend sb \<longrightarrow> has_table sb i)"

definition none_tables :: "aufs_sb \<Rightarrow> bool" where
  "none_tables sb \<longleftrightarrow> (\<forall>i. lacks_table sb i)"

lemma no_none_tables: "no_tables sb \<Longrightarrow> none_tables sb"
  by (simp add: no_tables_def none_tables_def lacks_table_def)

lemma frame_stobr: "sb_frame sb sb' \<Longrightarrow> stobr sb' = stobr sb"
  and frame_sbend: "sb_frame sb sb' \<Longrightarrow> sbend sb' = sbend sb"
  by (auto simp: sb_frame_def stobr_def sbend_def)

lemma quiet_tables:
  assumes "quiet sb sb'"
  shows "all_tables sb' = all_tables sb" "none_tables sb' = none_tables sb" "si_flags sb' = si_flags sb"
  using assms frame_stobr [of sb sb'] frame_sbend [of sb sb']
  by (simp_all add: quiet_def all_tables_def none_tables_def has_table_def lacks_table_def)

lemma flag_tables [simp]:
  "all_tables (au_flag_set f sb) = all_tables sb" "none_tables (au_flag_set f sb) = none_tables sb"
  "all_tables (au_flag_clr f sb) = all_tables sb" "none_tables (au_flag_clr f sb) = none_tables sb"
  "stobr (au_flag_set f sb) = stobr sb" "stobr (au_flag_clr f sb) = stobr sb"
  "sbend (au_flag_set f sb) = sbend sb" "sbend (au_flag_clr f sb) = sbend sb"
  "sb_frame sb (au_flag_set f sb') = sb_frame sb sb'" "sb_frame (au_flag_set f sb) sb' = sb_frame sb sb'"
  "has_table (au_flag_set f sb) = has_table sb" "lacks_table (au_flag_set f sb) = lacks_table sb"
  "lacks_table (au_flag_clr f sb) = lacks_table sb"
  by (simp_all add: all_tables_def none_tables_def has_table_def lacks_table_def stobr_def sbend_def fun_eq_iff
      au_flag_set_def au_flag_clr_def sb_frame_def)

lemma xino_set_simps [simp]:
  "si_flags (set_br_xino a f sb) = si_flags sb" "si_flags (set_br_rw a r w sb) = si_flags sb"
  "br_xino (s_br (set_br_rw a r w sb) b) = br_xino (s_br sb b)"
  "stobr (set_br_xino a f sb) = stobr sb" "stobr (set_br_rw a r w sb) = stobr sb"
  "br_xino (s_br (set_br_xino a f sb) b) = (if a = b then f else br_xino (s_br sb b))"
  by (simp_all add: set_br_xino_def set_br_rw_def upd_br_def stobr_def sbend_def fun_eq_iff)

text \<open>Setting up one table, given that a null error does not occur.\<close>

lemma xino_init_one:
  assumes o: "open_env vf" and r: "xino_init env vf inode b f t sb k = Some (err, sb', k')"
  shows "\<exists>a. stobr sb b = Some a \<and> sb_frame sb sb' \<and> si_flags sb' = si_flags sb
    \<and> (\<forall>c. c \<noteq> a \<longrightarrow> br_xino (s_br sb' c) = br_xino (s_br sb c)) \<and> (err = 0 \<longrightarrow> br_xino (s_br sb' a) \<noteq> None)"
proof -
  from r obtain a res k1 where a: "stobr sb b = Some a" "au_flag_test sb AuFlag_XINO \<noteq> 0" "br_xino (s_br sb a) = None"
    and x: "xino_file vf sb b f t k = Some (res, k1)"
    by (auto simp: xino_init_def bind_Some_iff split: if_splits)
  note fr = xino_init_frame [OF r]
  show ?thesis
  proof (cases res)
    case (Inl e)
    with xino_file_fcount [OF o x] have "e \<noteq> 0" by (simp add: file_res_def)
    with r a x Inl show ?thesis by (simp add: xino_init_def)
  next
    case (Inr fh)
    show ?thesis
    proof (cases "\<exists>rd wr. find_readf k1 fh = Inr rd \<and> find_writef k1 fh = Inr wr")
      case True
      then obtain rd wr where rw: "find_readf k1 fh = Inr rd" "find_writef k1 fh = Inr wr" by blast
      let ?sb = "set_br_xino a (Some fh) (set_br_rw a rd wr sb)"
      from r a x Inr rw have "sb' = ?sb \<and> err = 0 \<or> sb' = set_br_xino a None ?sb \<and> err \<noteq> 0"
        by (auto simp: xino_init_def bind_Some_iff Let_def split: if_splits)
      then show ?thesis using a fr by auto
    next
      case False
      moreover have "find_readf k1 fh \<noteq> Inl 0" "find_writef k1 fh \<noteq> Inl 0"
        by (auto simp: find_readf_def find_writef_def split: option.splits)
      ultimately have "sb' = sb \<and> err \<noteq> 0" using r a x Inr
        by (cases "find_readf k1 fh"; cases "find_writef k1 fh") (auto simp: xino_init_def)
      then show ?thesis using a fr by auto
    qed
  qed
qed

text \<open>A loop that gives every branch a table and stops at the first error.\<close>

lemma has_table_keep:
  assumes "has_table sb j" and "sb_frame sb sb'" and "\<forall>c. br_xino (s_br sb c) \<noteq> None \<longrightarrow> br_xino (s_br sb' c) \<noteq> None"
  shows "has_table sb' j"
  using assms frame_stobr [OF assms(2)] by (auto simp: has_table_def)

lemma xino_init_has:
  assumes "open_env vf" and "xino_init env vf inode b f t sb k = Some (0, sb', k')" and "has_table sb j \<or> j = b"
  shows "has_table sb' j"
proof -
  from xino_init_one [OF assms(1,2)] obtain a where a: "stobr sb b = Some a" "sb_frame sb sb'"
    "\<forall>c. c \<noteq> a \<longrightarrow> br_xino (s_br sb' c) = br_xino (s_br sb c)" "br_xino (s_br sb' a) \<noteq> None" by auto
  then have "\<forall>c. br_xino (s_br sb c) \<noteq> None \<longrightarrow> br_xino (s_br sb' c) \<noteq> None" by metis
  with has_table_keep [OF _ a(2)] assms(3) show ?thesis
    using a frame_stobr [OF a(2)] by (auto simp: has_table_def)
qed

text \<open>The loops keep the branch table and the flags.\<close>

definition same_fr :: "aufs_sb \<Rightarrow> aufs_sb \<Rightarrow> bool" where
  "same_fr sb sb' \<longleftrightarrow> sb_frame sb sb' \<and> si_flags sb' = si_flags sb"

lemma same_fr_refl [simp]: "same_fr sb sb"
  and same_fr_trans: "same_fr sb sb1 \<Longrightarrow> same_fr sb1 sb2 \<Longrightarrow> same_fr sb sb2"
  and same_fr_set [simp]: "same_fr sb (set_br_xino a f sb') = same_fr sb sb'" "same_fr sb (set_br_rw a r w sb') = same_fr sb sb'"
  by (auto simp: same_fr_def intro: sb_frame_trans)

lemma xino_init_fr:
  "open_env vf \<Longrightarrow> xino_init env vf inode b f t sb k = Some (err, sb', k') \<Longrightarrow> same_fr sb sb'"
  using xino_init_one unfolding same_fr_def by blast

interpretation drop_run: frame_rel "\<lambda>s t :: aufs_sb \<times> kern. same_fr (fst s) (fst t)"
  by unfold_locales (auto intro: same_fr_trans)

interpretation move_run: frame_rel "\<lambda>s t :: int \<times> aufs_sb \<times> kern. same_fr (fst (snd s)) (fst (snd t))"
  by unfold_locales (auto intro: same_fr_trans)

lemma drop_loop_fr:
  assumes "for_up (drop_shared b) 0 e (sb, k) = Some (sb', k')"
  shows "same_fr sb sb'"
proof -
  have "same_fr (fst s) (fst u)" if "drop_shared b j s = Some (c, u)" for j s c u
    using that by (auto simp: drop_shared_def bind_Some_iff split: if_splits prod.splits option.splits)
  from drop_run.for_up_frame [OF assms this] show ?thesis by simp
qed

lemma move_loop_fr:
  assumes "for_up (move_xino env vf xf) 0 e (err, sb, k) = Some (err', sb', k')"
  shows "same_fr sb sb'"
proof -
  have "same_fr (fst (snd s)) (fst (snd u))" if f: "move_xino env vf xf j s = Some (c, u)" for j s c u
  proof -
    obtain e1 sb1 k1 where s: "s = (e1, sb1, k1)" by (cases s)
    from f obtain br where b: "stobr sb1 j = Some br" by (auto simp: s move_xino_def bind_Some_iff)
    show ?thesis
    proof (cases "br_xino (s_br sb1 br)")
      case None
      with f b show ?thesis by (auto simp: s move_xino_def)
    next
      case (Some h)
      with f b obtain r k2 where "xino_create2 vf xf k1 = Some (r, k2)" "k_fcount k1 h = 1"
        by (auto simp: s move_xino_def bind_Some_iff split: if_splits)
      with f b Some show ?thesis by (cases r) (auto simp: s move_xino_def bind_Some_iff split: if_splits)
    qed
  qed
  from move_run.for_up_frame [OF assms this] show ?thesis by simp
qed

lemma fill_loop_all:
  assumes o: "open_env vf" and l: "for_up (fill_xino env vf inode xf) 0 (sbend sb) (err, sb, k) = Some (0, sb', k')"
  shows "same_fr sb sb' \<and> all_tables sb'"
proof (cases "0 \<le> sbend sb + 1")
  case True
  define I where "I = (\<lambda>(i :: int) (_ :: int, sb1, _ :: kern). same_fr sb sb1 \<and> (\<forall>j. 0 \<le> j \<longrightarrow> j < i \<longrightarrow> has_table sb1 j))"
  define Q where "Q = (\<lambda>(e :: int, sb1 :: aufs_sb, k1 :: kern). e \<noteq> 0)"
  have "if c then I (j + 1) u else Q u" if j: "0 \<le> j" "I j s" "fill_xino env vf inode xf j s = Some (c, u)" for j s c u
  proof -
    obtain e1 sb1 k1 where s: "s = (e1, sb1, k1)" by (cases s)
    from j(3) obtain br where b: "stobr sb1 j = Some br" by (auto simp: s fill_xino_def bind_Some_iff)
    show ?thesis
    proof (cases "br_xino (s_br sb1 br)")
      case (Some f)
      then have "has_table sb1 j" using b by (simp add: has_table_def)
      with j b Some show ?thesis by (auto simp: s I_def fill_xino_def zless_add1_eq)
    next
      case None
      with j(3) b obtain e2 sb2 k2 where x: "xino_init env vf inode j (Some xf) True sb1 k1 = Some (e2, sb2, k2)"
        by (auto simp: s fill_xino_def bind_Some_iff)
      show ?thesis
      proof (cases "e2 = 0")
        case True
        with x have x: "xino_init env vf inode j (Some xf) True sb1 k1 = Some (0, sb2, k2)" by simp
        from j(3) b None x have cu: "c" "u = (0, sb2, k2)" by (auto simp: s fill_xino_def)
        have "same_fr sb sb2"
          using xino_init_fr [OF o x] j(2) same_fr_trans by (auto simp: s I_def)
        moreover have "has_table sb2 m" if "0 \<le> m" "m < j + 1" for m
          using xino_init_has [OF o x, of m] j(2) that by (auto simp: s I_def zless_add1_eq)
        ultimately show ?thesis using cu by (simp add: I_def)
      next
        case False
        with j(3) b None x show ?thesis by (auto simp: s fill_xino_def Q_def)
      qed
    qed
  qed
  from for_up_inv [of "fill_xino env vf inode xf" 0 "sbend sb" _ _ I Q, OF l _ True this]
  have r: "same_fr sb sb'" "\<forall>j. 0 \<le> j \<longrightarrow> j < sbend sb + 1 \<longrightarrow> has_table sb' j" by (auto simp: I_def Q_def)
  then show ?thesis using frame_sbend [of sb sb'] by (simp add: all_tables_def same_fr_def)
qed (use l in \<open>simp add: all_tables_def\<close>)

lemma xino_set_all:
  assumes o: "open_env vf" and r: "xino_set env vf inode xf False sb k = Some (0, sb', k')"
  shows "sb_frame sb sb' \<and> si_flags sb' = si_flags sb OR AuFlag_XINO \<and> all_tables sb'"
proof -
  let ?p = "k_dparent k (k_fdentry k xf)" and ?sb = "au_flag_set AuFlag_XINO sb"
  from r obtain sb1 k1 where d: "for_up (drop_shared (sbend ?sb)) 0 (sbend ?sb) (?sb, dget ?p k) = Some (sb1, k1)"
    by (auto simp: xino_set_def bind_Some_iff Let_def)
  with r obtain e2 sb2 k2 where m: "for_up (move_xino env vf xf) 0 (sbend ?sb) (0, sb1, k1) = Some (e2, sb2, k2)"
    by (auto simp: xino_set_def bind_Some_iff Let_def)
  with r d obtain sb3 k3 where f: "for_up (fill_xino env vf inode xf) 0 (sbend ?sb) (e2, sb2, k2) = Some (0, sb3, k3)"
    and s: "sb' = au_flag_set AuFlag_XINO sb3"
    by (auto simp: xino_set_def bind_Some_iff Let_def)
  have 12: "same_fr ?sb sb2" using drop_loop_fr [OF d] move_loop_fr [OF m] same_fr_trans by blast
  then have "sbend sb2 = sbend ?sb" using frame_sbend by (simp add: same_fr_def)
  then have "same_fr sb2 sb3 \<and> all_tables sb3" using fill_loop_all [OF o, of env inode xf sb2 e2 k2 sb3 k3] f by simp
  with 12 same_fr_trans [of ?sb sb2 sb3] show ?thesis by (simp add: s same_fr_def or.assoc)
qed

lemma xino_clr_none:
  assumes r: "xino_clr sb k = Some (err, sb', k')"
  shows "err = 0 \<and> sb_frame sb sb' \<and> si_flags sb' = si_flags sb AND NOT AuFlag_XINO \<and> none_tables sb'"
proof -
  from r obtain sb1 where l: "for_up clr_round 0 (sbend sb) (sb, k) = Some (sb1, k')" and e: "err = 0"
    and s: "sb' = au_flag_clr AuFlag_XINO sb1" by (auto simp: xino_clr_def bind_Some_iff)
  have out: "stobr sb j = None" if "\<not> (0 \<le> j \<and> j \<le> sbend sb)" for j using that by (auto simp: stobr_def)
  have "same_fr sb sb1 \<and> (\<forall>j. lacks_table sb1 j)"
  proof (cases "0 \<le> sbend sb + 1")
    case True
    define I where "I = (\<lambda>(i :: int) (sb1, _ :: kern). same_fr sb sb1 \<and> (\<forall>j < i. lacks_table sb1 j))"
    have "if c then I (j + 1) u else False" if j: "I j s" "clr_round j s = Some (c, u)" for j s c u
    proof -
      obtain sb1 k1 where s: "s = (sb1, k1)" by (cases s)
      from j(2) obtain br where b: "stobr sb1 j = Some br" by (auto simp: s clr_round_def bind_Some_iff)
      show ?thesis
      proof (cases "br_xino (s_br sb1 br)")
        case None
        with j b show ?thesis by (auto simp: s I_def clr_round_def lacks_table_def le_less)
      next
        case (Some f)
        with j b show ?thesis by (auto simp: s I_def clr_round_def lacks_table_def le_less)
      qed
    qed
    moreover have "I 0 (sb, k)" using out by (auto simp: I_def lacks_table_def)
    ultimately have "I (sbend sb + 1) (sb1, k')"
      using for_up_inv [of clr_round 0 "sbend sb" _ _ I "\<lambda>_. False", OF l _ True] by blast
    then have i: "same_fr sb sb1" "\<forall>j < sbend sb + 1. lacks_table sb1 j" by (auto simp: I_def)
    moreover have "stobr sb1 = stobr sb" using i(1) frame_stobr by (simp add: same_fr_def)
    ultimately show ?thesis using out by (metis lacks_table_def not_less option.distinct(1) zless_add1_eq zle_add1_eq_le)
  next
    case False
    with l out show ?thesis by (auto simp: lacks_table_def)
  qed
  then show ?thesis by (simp add: e s same_fr_def none_tables_def)
qed

text \<open>
  The state between two table options: without an option in force no branch has a table,
  with one the flag and the tables agree.
\<close>

definition tables_fit :: "opt_xino option \<Rightarrow> aufs_sb \<Rightarrow> bool" where
  "tables_fit cur sb \<longleftrightarrow> (cur = None \<or> \<not> bit (si_flags sb) 0 \<longrightarrow> none_tables sb)
     \<and> (cur \<noteq> None \<and> bit (si_flags sb) 0 \<longrightarrow> all_tables sb)"

text \<open>The flags with the bit of \<open>XINO\<close> replaced.\<close>

definition put_xino :: "bool \<Rightarrow> 32 word \<Rightarrow> 32 word" where
  "put_xino b f = (if b then f OR AuFlag_XINO else f AND NOT AuFlag_XINO)"

lemma put_xino_bit: "n < 32 \<Longrightarrow> bit (put_xino b f) n = (if n = 0 then b else bit f n)"
  by (simp add: put_xino_def bit_or_iff bit_and_iff bit_not_iff)

lemma word32_eqI: "(\<And>n. n < 32 \<Longrightarrow> bit v n = bit w n) \<Longrightarrow> v = (w :: 32 word)"
  by (rule bit_word_eqI) simp

lemma put_xino_simps [simp]: "put_xino (bit f 0) f = f" "put_xino b (put_xino c f) = put_xino b f"
  "put_xino b (f OR AuFlag_XINO) = put_xino b f" "put_xino b (f AND NOT AuFlag_XINO) = put_xino b f"
  by (rule word32_eqI; simp del: bit_0 add: put_xino_bit bit_or_iff bit_and_iff bit_not_iff)+

lemma opt_xino_fit:
  assumes o: "open_env (me_vfs e)" and f: "tables_fit cur (ms_sb ms)"
    and r: "au_do_opt_xino e opt False cur ms = Some (0, cur', ms')"
  shows "tables_fit cur' (ms_sb ms') \<and> sb_frame (ms_sb ms) (ms_sb ms')
    \<and> si_flags (ms_sb ms') = put_xino (if op_type opt = Opt_xino then True else if op_type opt = Opt_noxino then False
         else bit (si_flags (ms_sb ms)) 0) (si_flags (ms_sb ms))"
proof -
  consider "op_type opt = Opt_xino" | "op_type opt = Opt_noxino" | "op_type opt \<noteq> Opt_xino" "op_type opt \<noteq> Opt_noxino"
    by blast
  then show ?thesis
  proof cases
    case 1
    with r obtain x sb1 k1 where "xino_set (me_xino e) (me_vfs e) (ms_dir ms) (ox_file x) False (ms_sb ms) (ms_k ms)
        = Some (0, sb1, k1)" and s: "cur' = Some x" "ms' = ms\<lparr>ms_sb := sb1, ms_k := k1\<rparr>"
      by (auto simp: au_do_opt_xino_def bind_Some_iff)
    from xino_set_all [OF o this(1)] 1 s show ?thesis
      by (simp add: tables_fit_def put_xino_def bit_or_iff)
  next
    case 2
    with r obtain sb1 k1 where "xino_clr (ms_sb ms) (ms_k ms) = Some (0, sb1, k1)"
      and s: "cur' = cur" "ms' = ms\<lparr>ms_sb := sb1, ms_k := k1\<rparr>"
      by (auto simp: au_do_opt_xino_def bind_Some_iff)
    from xino_clr_none [OF this(1)] 2 s show ?thesis
      by (simp add: tables_fit_def put_xino_def bit_and_iff bit_not_iff)
  next
    case 3
    with r f show ?thesis by (simp add: au_do_opt_xino_def del: bit_0)
  qed
qed

lemma xino_loop:
  assumes o: "open_env (me_vfs e)" and f: "tables_fit cur (ms_sb ms)"
    and r: "opt_loop (xino_round e) opts (0, cur, ms) = Some (0, cur', ms')"
  shows "tables_fit cur' (ms_sb ms') \<and> sb_frame (ms_sb ms) (ms_sb ms')
    \<and> si_flags (ms_sb ms') = put_xino (want_xino opts (bit (si_flags (ms_sb ms)) 0)) (si_flags (ms_sb ms))"
  using f r
proof (induction opts arbitrary: cur ms)
  case (Cons opt opts)
  show ?case
  proof (cases "op_type opt = Opt_tail")
    case True
    with Cons.prems show ?thesis by (simp del: bit_0)
  next
    case False
    with Cons.prems(2) obtain e1 cur1 ms1 where x: "au_do_opt_xino e opt False cur ms = Some (e1, cur1, ms1)"
      by (auto simp: xino_round_def bind_Some_iff)
    have step: "xino_round e opt (0, cur, ms) = Some (e1 = 0, e1, cur1, ms1)" using x by (simp add: xino_round_def)
    then have "e1 = 0" using Cons.prems(2) False by (auto split: if_splits)
    with x have x: "au_do_opt_xino e opt False cur ms = Some (0, cur1, ms1)" by simp
    note 1 = opt_xino_fit [OF o Cons.prems(1) x]
    have "opt_loop (xino_round e) opts (0, cur1, ms1) = Some (0, cur', ms')"
      using Cons.prems(2) False step \<open>e1 = 0\<close> by simp
    from Cons.IH [OF _ this] 1 have 2: "tables_fit cur' (ms_sb ms')" "sb_frame (ms_sb ms1) (ms_sb ms')"
      "si_flags (ms_sb ms') = put_xino (want_xino opts (bit (si_flags (ms_sb ms1)) 0)) (si_flags (ms_sb ms1))" by auto
    show ?thesis using 1 2 False sb_frame_trans [of "ms_sb ms" "ms_sb ms1" "ms_sb ms'"]
      by (simp del: bit_0 add: put_xino_bit)
  qed
qed simp

section \<open>The end of a mount\<close>

lemma verify_opts_slots:
  assumes "verify_opts vf root dir sb k = Some (0, sb', k')" and "0 \<le> i" and "i \<le> sbend sb"
  shows "stobr sb i \<noteq> None"
proof -
  let ?f = "verify_branch vf root dir (au_flag_test sb AuFlag_PLINK)"
  define I where "I = (\<lambda>(i :: int) (_ :: int, sb1, _ :: kern). quiet sb sb1 \<and> (\<forall>j. 0 \<le> j \<longrightarrow> j < i \<longrightarrow> stobr sb j \<noteq> None))"
  define Q where "Q = (\<lambda>(e :: int, _ :: aufs_sb, _ :: kern). e \<noteq> 0)"
  have l: "for_up ?f 0 (sbend sb) (0, sb, k) = Some (0, sb', k')"
    using assms(1) by (auto simp: verify_opts_def bind_Some_iff split: if_splits)
  have step: "if c then I (j + 1) u else Q u" if j: "0 \<le> j" "I j s" "?f j s = Some (c, u)" for j s c u
  proof -
    obtain e1 sb1 k1 where s: "s = (e1, sb1, k1)" by (cases s)
    with j have "stobr sb1 j \<noteq> None" and q: "quiet sb sb1" by (auto simp: verify_branch_def bind_Some_iff I_def)
    then have "stobr sb j \<noteq> None" using frame_stobr [of sb sb1] by (simp add: quiet_def)
    with j show ?thesis by (auto simp: s I_def Q_def verify_branch_def bind_Some_iff le_less split: if_splits
        dest!: init_wh_quiet intro: quiet_trans)
  qed
  have "0 \<le> sbend sb + 1" using assms(2,3) by simp
  from for_up_inv [of ?f 0 "sbend sb" _ _ I Q, OF l _ this step]
  have "\<forall>j. 0 \<le> j \<longrightarrow> j < sbend sb + 1 \<longrightarrow> stobr sb j \<noteq> None" by (auto simp: I_def Q_def)
  with assms(2,3) show ?thesis by auto
qed

text \<open>What the mount relies on beside \<open>open_env\<close>: an error pointer is not null.\<close>

definition open_errs :: "vfs \<Rightarrow> bool" where
  "open_errs vf \<longleftrightarrow> (\<forall>p fl m k. fst (vf_filp_open vf p fl m k) \<noteq> Inl 0) \<and> (\<forall>d m n k. vf_d_path vf d m n k \<noteq> Inl 0)"

lemma xino_create_err:
  assumes "open_errs vf"
  shows "xino_create vf addr p k \<noteq> Some (Inl 0, k')"
proof -
  obtain r k1 where f: "vf_filp_open vf p O_XINO XINO_MODE k = (r, k1)" by fastforce
  then have "r \<noteq> Inl 0" using assms unfolding open_errs_def by (metis fst_conv)
  with f show ?thesis
    by (cases r) (auto simp: xino_create_def bind_Some_iff Let_def split: prod.splits if_splits)
qed

lemma xino_def_err:
  assumes "open_errs vf"
  shows "xino_def vf addr root sb k \<noteq> Some (Inl 0, k')"
proof
  assume r: "xino_def vf addr root sb k = Some (Inl 0, k')"
  obtain ok k1 where m: "kmalloc k = (ok, k1)" by fastforce
  from r obtain b where b: "scan_up (\<lambda>i. do { p \<leftarrow> sbr_perm sb i;
       if \<not> br_writable p then Some False
       else do { h \<leftarrow> au_h_dptr_i k root i; h \<leftarrow> h; Some (\<not> au_is_nfs k (k_dsb k h)) } }) 0 (sbend sb) (- 1) = Some b"
    by (auto simp: xino_def_def bind_Some_iff)
  show False
  proof (cases "b = - 1 \<or> \<not> ok")
    case True
    with r b m xino_create_err [OF assms] show False by (auto simp: xino_def_def split: if_splits)
  next
    case False
    with r b m obtain h mnt k2 where
      c: "(case vf_d_path vf h mnt (PATH_MAX - (length AUFS_XINO_FNAME + 1)) k1 of
           Inl err \<Rightarrow> Some (Inl err, k1) | Inr p \<Rightarrow> xino_create vf addr (p @ [47] @ AUFS_XINO_FNAME) k1) = Some (Inl 0, k2)"
      by (auto simp: xino_def_def bind_Some_iff)
    have "vf_d_path vf h mnt (PATH_MAX - (length AUFS_XINO_FNAME + 1)) k1 \<noteq> Inl 0"
      using assms by (simp add: open_errs_def)
    with c xino_create_err [OF assms] show False by (auto split: sum.splits)
  qed
qed

lemma enable_xino_fit:
  assumes o: "open_env (me_vfs e)" "open_errs (me_vfs e)" and f: "tables_fit cur (ms_sb ms)"
    and r: "enable_xino e cur (sbend (ms_sb ms)) ms = Some (0, ms')"
  shows "same_fr (ms_sb ms) (ms_sb ms') \<and> (if bit (si_flags (ms_sb ms)) 0 then all_tables (ms_sb ms') else none_tables (ms_sb ms'))"
proof (cases "au_flag_test (ms_sb ms) AuFlag_XINO \<noteq> 0 \<and> cur = None")
  case False
  with r f show ?thesis unfolding flag_bit by (auto simp: enable_xino_def flag_bit tables_fit_def simp del: bit_0)
next
  case True
  let ?e = "sbend (ms_sb ms)"
  from r True obtain res k1 where d: "xino_def (me_vfs e) (me_addr e) (ms_root ms) (ms_sb ms) (ms_k ms) = Some (res, k1)"
    by (auto simp: enable_xino_def bind_Some_iff)
  from d xino_def_err [OF o(2)] obtain xf where "res = Inr xf" using r True
    by (cases res) (auto simp: enable_xino_def)
  with r True d obtain ms1 where l: "for_up (def_xino_round e xf) 0 ?e (0, ms\<lparr>ms_k := k1\<rparr>) = Some (0, ms1)"
    and s: "ms_sb ms' = ms_sb ms1" by (auto simp: enable_xino_def bind_Some_iff)
  define I where "I = (\<lambda>(i :: int) (_ :: int, ms1 :: mount_st). same_fr (ms_sb ms) (ms_sb ms1) \<and> (\<forall>j. 0 \<le> j \<longrightarrow> j < i \<longrightarrow> has_table (ms_sb ms1) j))"
  define Q where "Q = (\<lambda>(e :: int, _ :: mount_st). e \<noteq> 0)"
  have step: "if c then I (j + 1) u else Q u" if j: "0 \<le> j" "I j s" "def_xino_round e xf j s = Some (c, u)" for j s c u
  proof -
    obtain e1 ms1 where s: "s = (e1, ms1)" by (cases s)
    from j(3) obtain e2 sb2 k2 where x: "xino_init (me_xino e) (me_vfs e) (ms_dir ms1) j (Some xf) (j \<noteq> 0) (ms_sb ms1) (ms_k ms1)
        = Some (e2, sb2, k2)" and cu: "c = (e2 = 0)" "u = (e2, ms1\<lparr>ms_sb := sb2, ms_k := k2\<rparr>)"
      by (auto simp: s def_xino_round_def bind_Some_iff)
    show ?thesis
    proof (cases "e2 = 0")
      case True
      with x have x: "xino_init (me_xino e) (me_vfs e) (ms_dir ms1) j (Some xf) (j \<noteq> 0) (ms_sb ms1) (ms_k ms1)
        = Some (0, sb2, k2)" by simp
      have "same_fr (ms_sb ms) sb2" using xino_init_fr [OF o(1) x] j(2) same_fr_trans by (auto simp: s I_def)
      moreover have "has_table sb2 m" if "0 \<le> m" "m < j + 1" for m
        using xino_init_has [OF o(1) x, of m] j(2) that by (auto simp: s I_def le_less)
      ultimately show ?thesis using cu True by (simp add: I_def)
    qed (use cu in \<open>simp add: Q_def\<close>)
  qed
  have fin: "same_fr (ms_sb ms) (ms_sb ms1) \<and> all_tables (ms_sb ms1)"
  proof (cases "0 \<le> ?e + 1")
    case True
    from for_up_inv [of "def_xino_round e xf" 0 ?e _ _ I Q, OF l _ True step]
    have i: "same_fr (ms_sb ms) (ms_sb ms1)" "\<forall>j. 0 \<le> j \<longrightarrow> j < ?e + 1 \<longrightarrow> has_table (ms_sb ms1) j"
      by (auto simp: I_def Q_def)
    then show ?thesis using frame_sbend [of "ms_sb ms" "ms_sb ms1"] by (simp add: all_tables_def same_fr_def)
  qed (use l in \<open>auto simp: all_tables_def\<close>)
  show ?thesis using fin s True by (simp add: flag_bit del: bit_0)
qed

text \<open>The flags switched off and on again.\<close>

definition lowered :: "32 word \<Rightarrow> 32 word" where
  "lowered f = (f AND NOT (AuFlag_XINO OR AuFlag_DLGT) AND NOT AuMask_UDBA) OR AuFlag_UDBA_REVAL"

lemma dlgt_bit: "(w AND AuFlag_DLGT \<noteq> 0) = bit w 11"
proof -
  have "w AND AuFlag_DLGT = 0 \<longleftrightarrow> (\<forall>n < 32. \<not> bit (w AND AuFlag_DLGT) n)" unfolding bit_eq_iff by auto
  then show ?thesis by (auto simp: bit_and_iff)
qed

lemma restore_lowered:
  assumes "si_flags sb = put_xino b (lowered f)"
  shows "si_flags (restore_flags (f AND (AuFlag_XINO OR AuMask_UDBA OR AuFlag_DLGT)) sb) = put_xino b f"
proof -
  have "(f AND (AuFlag_XINO OR AuMask_UDBA OR AuFlag_DLGT)) AND AuFlag_DLGT \<noteq> 0 \<longleftrightarrow> bit f 11"
    unfolding dlgt_bit by (simp add: bit_and_iff bit_or_iff)
  then show ?thesis using assms
    by (intro word32_eqI) (auto simp: restore_flags_def Let_def put_xino_bit lowered_def bit_and_iff bit_or_iff bit_not_iff
        simp del: bit_0 and.assoc)
qed

lemma opts_flags_split:
  assumes "opts_ok opts"
  shows "opts_flags opts f = put_xino (want_xino opts (bit f 0)) (simples_flags opts f)"
  using opts_flags_xino [OF assms, of f] opts_flags_other [of f f _ opts]
  by (intro word32_eqI) (simp add: put_xino_bit del: bit_0)

lemma restore_tables [simp]:
  "stobr (restore_flags f sb) = stobr sb" "s_br (restore_flags f sb) = s_br sb" "sbend (restore_flags f sb) = sbend sb"
  by (simp_all add: restore_flags_def udba_set_def au_flag_set_def au_flag_clr_def stobr_def sbend_def fun_eq_iff Let_def)

text \<open>The third part of a mount.\<close>

lemma mount_xino_ends:
  assumes o: "open_env (me_vfs e)" "open_errs (me_vfs e)" and n: "no_tables (ms_sb ms)"
    and g: "si_flags (ms_sb ms) = lowered f"
    and r: "mount_xino e opts (f AND (AuFlag_XINO OR AuMask_UDBA OR AuFlag_DLGT)) ms = Some (0, ms')"
  shows "si_flags (ms_sb ms') = put_xino (want_xino opts (bit f 0)) f \<and> 0 \<le> sbend (ms_sb ms')
    \<and> (if want_xino opts (bit f 0) then all_tables (ms_sb ms') else none_tables (ms_sb ms'))
    \<and> (\<forall>i. 0 \<le> i \<longrightarrow> i \<le> sbend (ms_sb ms') \<longrightarrow> stobr (ms_sb ms') i \<noteq> None)"
proof -
  let ?fl = "f AND (AuFlag_XINO OR AuMask_UDBA OR AuFlag_DLGT)"
  let ?bend = "sbend (ms_sb ms)"
  define m3 where "m3 = (if ?fl AND AuFlag_XINO \<noteq> 0 then upd_sb (au_flag_set AuFlag_XINO) ms else ms)"
  have bend: "0 \<le> ?bend" using r by (auto simp: mount_xino_def Let_def split: if_splits)
  have x: "?fl AND AuFlag_XINO \<noteq> 0 \<longleftrightarrow> bit f 0"
    using flag_bit [of "sb\<lparr>si_flags := ?fl\<rparr>" for sb] by (simp add: au_flag_test_def bit_and_iff bit_or_iff del: bit_0)
  have f3: "si_flags (ms_sb m3) = put_xino (bit f 0) (lowered f)"
  proof (rule word32_eqI)
    fix n :: nat assume "n < 32"
    then show "bit (si_flags (ms_sb m3)) n = bit (put_xino (bit f 0) (lowered f)) n"
      using g x by (simp add: m3_def upd_sb_def put_xino_bit lowered_def bit_or_iff bit_and_iff bit_not_iff del: bit_0)
  qed
  have t3: "tables_fit None (ms_sb m3)" and b3: "sb_frame (ms_sb ms) (ms_sb m3)"
    using no_none_tables [OF n] by (simp_all add: m3_def tables_fit_def upd_sb_def)
  obtain e4 cur m4 where l: "opt_loop (xino_round e) opts (0, None, m3) = Some (e4, cur, m4)"
    using r bend by (auto simp: mount_xino_def Let_def bind_Some_iff m3_def [symmetric])
  have e4: "e4 = 0" using r bend l by (auto simp: mount_xino_def Let_def bind_Some_iff m3_def [symmetric] split: if_splits)
  obtain m5 where v: "run_verify e m4 = Some (0, m5)" using r bend l e4
    by (auto simp: mount_xino_def Let_def bind_Some_iff m3_def [symmetric] split: if_splits)
  obtain m6 where en: "enable_xino e cur ?bend m5 = Some (0, m6)" and m': "ms' = upd_sb (restore_flags ?fl) m6"
    using r bend l e4 v by (auto simp: mount_xino_def Let_def bind_Some_iff m3_def [symmetric] split: if_splits)
  let ?w = "want_xino opts (bit f 0)"
  from xino_loop [OF o(1) t3 l [unfolded e4]] have 4: "tables_fit cur (ms_sb m4)" "sb_frame (ms_sb m3) (ms_sb m4)"
    "si_flags (ms_sb m4) = put_xino ?w (lowered f)" by (simp_all add: f3 put_xino_bit del: bit_0)
  from v have q: "quiet (ms_sb m4) (ms_sb m5)" and sl: "\<And>i. 0 \<le> i \<Longrightarrow> i \<le> sbend (ms_sb m4) \<Longrightarrow> stobr (ms_sb m4) i \<noteq> None"
    by (auto simp: run_verify_def bind_Some_iff dest: verify_opts_quiet verify_opts_slots)
  have b: "sbend (ms_sb m5) = ?bend" using frame_sbend [OF b3] frame_sbend [OF 4(2)] q frame_sbend [of "ms_sb m4" "ms_sb m5"]
    by (simp add: quiet_def)
  have t5: "tables_fit cur (ms_sb m5)" using 4(1) quiet_tables [OF q] by (simp add: tables_fit_def)
  from enable_xino_fit [OF o t5] en b have 6: "same_fr (ms_sb m5) (ms_sb m6)"
    "if bit (si_flags (ms_sb m5)) 0 then all_tables (ms_sb m6) else none_tables (ms_sb m6)" by auto
  have f6: "si_flags (ms_sb m6) = put_xino ?w (lowered f)" using 6(1) quiet_tables(3) [OF q] 4(3) by (simp add: same_fr_def)
  have "sb_frame (ms_sb m4) (ms_sb m6)" using 6(1) q sb_frame_trans by (auto simp: same_fr_def quiet_def)
  then have st: "stobr (ms_sb m6) = stobr (ms_sb m4)" "sbend (ms_sb m6) = sbend (ms_sb m4)"
    by (rule frame_stobr, rule frame_sbend)
  have "bit (si_flags (ms_sb m5)) 0 = ?w" using 4(3) quiet_tables(3) [OF q] by (simp add: put_xino_bit del: bit_0)
  moreover have "sbend (ms_sb m4) = ?bend" using b q frame_sbend [of "ms_sb m4" "ms_sb m5"] by (simp add: quiet_def)
  ultimately show ?thesis using 6(2) bend sl st restore_lowered [OF f6]
    by (auto simp: m' upd_sb_def all_tables_def none_tables_def has_table_def lacks_table_def simp del: bit_0)
qed

text \<open>C1.
  A successful mount leaves exactly the flags the options name, each applied in its order
  to the initial ones, although \<open>XINO\<close>, \<open>DLGT\<close> and the \<open>udba\<close> level are switched off while
  the branches are added; there is a branch, and every branch has an inode number table
  exactly when the flag \<open>XINO\<close> is set.
\<close>

theorem mount_flags_and_tables:
  assumes "open_env (me_vfs e)" and "open_errs (me_vfs e)" and "opts_ok opts" and "no_tables (ms_sb ms)"
    and "au_do_opts_mount e opts ms = Some (0, ms')"
  shows "si_flags (ms_sb ms') = opts_flags opts (si_flags (ms_sb ms)) \<and> 0 \<le> sbend (ms_sb ms')
    \<and> (\<forall>i. 0 \<le> i \<longrightarrow> i \<le> sbend (ms_sb ms') \<longrightarrow> (\<exists>a. stobr (ms_sb ms') i = Some a
        \<and> (br_xino (s_br (ms_sb ms') a) \<noteq> None \<longleftrightarrow> au_flag_test (ms_sb ms') AuFlag_XINO \<noteq> 0)))"
proof -
  from assms(5) obtain e1 g1 m1 where l1: "opt_loop (simple_round e) opts (0, 0, ms) = Some (e1, g1, m1)"
    and e1: "0 \<le> e1" by (auto simp: au_do_opts_mount_def bind_Some_iff split: if_splits)
  let ?f = "si_flags (ms_sb m1)"
  note s = simple_loop [OF assms(3) l1]
  let ?m = "upd_sb (udba_set AuFlag_UDBA_REVAL) (upd_sb (au_flag_clr (AuFlag_XINO OR AuFlag_DLGT)) m1)"
  obtain e2 d2 m2 where l2: "opt_loop (br_round e) opts (0, False, ?m) = Some (e2, d2, m2)"
    and r: "mount_xino e opts (?f AND (AuFlag_XINO OR AuMask_UDBA OR AuFlag_DLGT)) m2 = Some (0, ms')"
    using assms(5) l1 e1 by (auto simp: au_do_opts_mount_def bind_Some_iff Let_def au_flag_test_def split: if_splits)
  have g: "si_flags (ms_sb ?m) = lowered ?f" by (simp add: upd_sb_def lowered_def and.assoc)
  then have "au_flag_test (ms_sb ?m) AuFlag_XINO = 0"
    using flag_bit [of "ms_sb ?m"] by (simp add: lowered_def bit_or_iff bit_and_iff bit_not_iff del: bit_0)
  from br_loop [OF l2 this] have c: "calm (ms_sb ?m) (ms_sb m2)" .
  have n2: "no_tables (ms_sb m2)" using calm_no_tables [OF c] s assms(4) by (simp add: upd_sb_def)
  have f2: "si_flags (ms_sb m2) = lowered ?f" using c g by (simp add: calm_def)
  note m = mount_xino_ends [OF assms(1,2) n2 f2 r]
  have b: "bit ?f 0 = bit (si_flags (ms_sb ms)) 0" using s opts_flags_bit0 [OF assms(3)] by simp
  then have fl: "si_flags (ms_sb ms') = opts_flags opts (si_flags (ms_sb ms))"
    using m s opts_flags_split [OF assms(3)] by (simp del: bit_0)
  have "bit (si_flags (ms_sb ms')) 0 = want_xino opts (bit ?f 0)" using m by (simp add: put_xino_bit del: bit_0)
  then show ?thesis using m fl
    by (auto simp: flag_bit all_tables_def none_tables_def has_table_def lacks_table_def split: if_splits simp del: bit_0)
qed

text \<open>A mount of one read-only branch with \<open>diropq=a,udba=none\<close>, and the default table.\<close>

definition sb_ro :: aufs_sb where
  "sb_ro = (sb0 1)\<lparr>s_br := (\<lambda>a. (s_br (sb0 1) a)\<lparr>br_perm := AuBr_RO\<rparr>)\<rparr>"

definition kern_tmp :: kern where "kern_tmp = kern0\<lparr>k_dparent := (\<lambda>_. 1)\<rparr>"

definition env_m :: mount_env where
  "env_m = \<lparr>me_xino = env_w, me_vfs = vfs_open, me_addr = 9, me_loop = (\<lambda>_. None), me_pages = 0,
     me_reval = (\<lambda>d k. (0, d, k)), me_files = [], me_hz = 250\<rparr>"

definition ms_ro :: mount_st where
  "ms_ro = \<lparr>ms_sb = sb_ro, ms_root = root_one, ms_dir = inode_one, ms_inodes = (\<lambda>_. inode0), ms_ds = [], ms_k = kern_tmp\<rparr>"

definition opts_two :: "opt_slot list" where
  "opts_two = [\<lparr>op_type = Opt_diropq_a, op_u = U_coo 0\<rparr>, \<lparr>op_type = Opt_udba, op_u = U_udba 8\<rparr>,
     \<lparr>op_type = Opt_tail, op_u = U_coo 0\<rparr>]"

lemma opts_two_ok: "opts_ok opts_two"
  by (simp add: opts_two_def slot_typed_def bare_opts_def udba_levels_def flag_defs)

lemma env_m_ok: "open_env (me_vfs env_m)" "open_errs (me_vfs env_m)"
  using env_w_ok by (simp_all add: env_m_def open_errs_def vfs_open_def vfs0_def)

lemma kern_tmp_fields:
  "k_fdentry kern_tmp = (\<lambda>f. f)" "k_dparent kern_tmp = (\<lambda>_. 1)" "k_dinode kern_tmp = Some" "k_fmnt kern_tmp = (\<lambda>_. 0)"
  "k_stype kern_tmp = (\<lambda>_. [])" "k_dsb kern_tmp = (\<lambda>_. 0)" "k_fcount kern_tmp = (\<lambda>_. 1)" "k_dname kern_tmp = (\<lambda>_. [])"
  "k_iino kern_tmp = of_nat" "k_dcount kern_tmp = (\<lambda>_. 1)" "k_mcount kern_tmp = (\<lambda>_. 1)" "k_icount kern_tmp = (\<lambda>_. 1)"
  "k_fop kern_tmp = (\<lambda>_. Some \<lparr>fop_read = Some 1, fop_aio_read = True, fop_write = Some 1, fop_aio_write = True\<rparr>)"
  by (simp_all add: kern_tmp_def kern0_def)

lemma ro_fields:
  "si_branch sb_ro = [Some 0]" "si_bend sb_ro = 0"
  "s_br sb_ro a = \<lparr>br_xino = None, br_xino_read = 0, br_xino_write = 0, br_id = int a + 1,
        br_perm = AuBr_RO, br_mnt = a, br_count = 0, br_wh = None, br_wh_running = 0, br_plink = None\<rparr>"
  by (simp_all add: sb_ro_def sb0_def)

lemma ro_stobr: "stobr (sb_ro\<lparr>si_flags := f\<rparr>) 0 = Some 0" "sbend (sb_ro\<lparr>si_flags := f\<rparr>) = 0"
  "stobr sb_ro 0 = Some 0" "sbend sb_ro = 0"
  by (simp_all add: stobr_def sbend_def ro_fields)

lemma ro_simple: "opt_loop (simple_round env_m) opts_two (0, 0, ms_ro)
   = Some (1, 0x408, ms_ro\<lparr>ms_sb := sb_ro\<lparr>si_flags := 0x4CD\<rparr>\<rparr>)"
  by (simp add: opts_two_def simple_round_def au_do_opt_simple_def ms_ro_def udba_set_def au_flag_set_def au_flag_clr_def
      sb_ro_def sb0_def flag_defs)

lemma ro_br: "opt_loop (br_round env_m) opts_two (0, False, m) = Some (0, False, m)"
  and ro_xino: "opt_loop (xino_round env_m) opts_two (0, None, m) = Some (0, None, m)"
  by (simp_all add: opts_two_def br_round_def au_do_opt_br_def xino_round_def au_do_opt_xino_def)

lemma ro_verify: "run_verify env_m (ms_ro\<lparr>ms_sb := sb_ro\<lparr>si_flags := f\<rparr>\<rparr>) = Some (0, ms_ro\<lparr>ms_sb := sb_ro\<lparr>si_flags := f\<rparr>\<rparr>)"
proof -
  have v: "verify_branch vf root_one inode_one w 0 (0, sb_ro\<lparr>si_flags := f\<rparr>, kern_tmp)
      = Some (True, 0, sb_ro\<lparr>si_flags := f\<rparr>, kern_tmp)" for vf w
    by (simp add: verify_branch_def au_h_iptr_i_def inode_one_def ibstart_def ibend_def hinode_at_def ii_of_def itoii_def
        ro_stobr ro_fields wh_fits_def kern_tmp_fields Let_def)
  show ?thesis
    by (simp add: run_verify_def verify_opts_def ms_ro_def sbr_perm_def sbr_def ro_stobr ro_fields for_up_step v)
qed

lemma ro_init:
  assumes k: "k_fdentry k = (\<lambda>f. f)" "k_dparent k = (\<lambda>_. 1)" "k_dinode k 1 = Some 1" "k_stype k = (\<lambda>_. [])"
    "k_fop k = k_fop kern_tmp" "0 < k_icount k 4"
  shows "\<exists>sb' k'. xino_init env_w vfs_open inode_one 0 (Some 15) False (sb_ro\<lparr>si_flags := 0x4D5\<rparr>) k = Some (0, sb', k')"
proof -
  let ?sb = "sb_ro\<lparr>si_flags := 0x4D5\<rparr>"
  have "\<exists>fh k1. xino_file vfs_open ?sb 0 (Some 15) False k = Some (Inr fh, k1) \<and> k_fop k1 = k_fop k \<and> k_icount k1 = k_icount k"
    using k by (simp add: xino_file_def xino_create2_def au_is_nfs_def lkup_one_def vfs_open_def vfs0_def dget_def dput_def
        mntget_def child0_def Let_def)
  then obtain fh k1 where x: "xino_file vfs_open ?sb 0 (Some 15) False k = Some (Inr fh, k1)"
    "k_fop k1 = k_fop kern_tmp" "0 < k_icount k1 4" using k by auto
  have "xino_write (xe_aufsd env_w) (xe_write env_w) (set_br_xino 0 (Some fh) (set_br_rw 0 1 1 ?sb)) 0 h i k1 = Some (0, k1)" for h i
    by (rule xino_write_env_w [where br = "s_br (set_br_xino 0 (Some fh) (set_br_rw 0 1 1 ?sb)) 0"])
      (simp_all add: sbr_def ro_stobr)
  then show ?thesis using x
    by (simp add: xino_init_def ro_stobr ro_fields au_flag_test_def flag_defs find_readf_def find_writef_def kern_tmp_fields
        au_h_iptr_i_def inode_one_def ibend_def ibstart_def hinode_at_def ii_of_def itoii_def Let_def)
qed

lemma ro_enable:
  "\<exists>ms'. enable_xino env_m None 0 (ms_ro\<lparr>ms_sb := sb_ro\<lparr>si_flags := 0x4D5\<rparr>\<rparr>) = Some (0, ms')"
proof -
  let ?sb = "sb_ro\<lparr>si_flags := 0x4D5\<rparr>"
  have "\<exists>k1. xino_def vfs_open 9 root_one ?sb kern_tmp = Some (Inr 15, k1) \<and> k_fdentry k1 = (\<lambda>f. f)
      \<and> k_dparent k1 = (\<lambda>_. 1) \<and> k_dinode k1 1 = Some 1 \<and> k_stype k1 = (\<lambda>_. []) \<and> k_fop k1 = k_fop kern_tmp \<and> 0 < k_icount k1 4"
    by (simp add: xino_def_def scan_up.simps sbr_perm_def sbr_def ro_stobr ro_fields br_writable_def xino_create_def
        vfs_open_def vfs0_def kern_tmp_fields dget_def dput_def AUFS_XINO_DEFPATH_def AUFS_XINO_FNAME_def Let_def)
  then obtain k1 where d: "xino_def vfs_open 9 root_one ?sb kern_tmp = Some (Inr 15, k1)"
    and k: "k_fdentry k1 = (\<lambda>f. f)" "k_dparent k1 = (\<lambda>_. 1)" "k_dinode k1 1 = Some 1" "k_stype k1 = (\<lambda>_. [])"
    "k_fop k1 = k_fop kern_tmp" "0 < k_icount k1 4" by blast
  obtain sb' k' where i: "xino_init env_w vfs_open inode_one 0 (Some 15) False ?sb k1 = Some (0, sb', k')"
    using ro_init [OF k] by blast
  show ?thesis
    by (simp add: enable_xino_def env_m_def ms_ro_def d for_up_step def_xino_round_def i au_flag_test_def flag_defs)
qed

theorem mount_flags_and_tables_witness:
  "\<exists>ms'. au_do_opts_mount env_m opts_two ms_ro = Some (0, ms') \<and> si_flags (ms_sb ms') = 0x4CD
     \<and> (\<exists>a. stobr (ms_sb ms') 0 = Some a \<and> br_xino (s_br (ms_sb ms') a) \<noteq> None)"
proof -
  obtain m where "enable_xino env_m None 0 (ms_ro\<lparr>ms_sb := sb_ro\<lparr>si_flags := 0x4D5\<rparr>\<rparr>) = Some (0, m)" using ro_enable by blast
  then obtain ms' where r: "au_do_opts_mount env_m opts_two ms_ro = Some (0, ms')"
    using ro_verify by (simp add: au_do_opts_mount_def ro_simple ro_br mount_xino_def ro_xino ro_stobr upd_sb_def
        au_flag_clr_def au_flag_set_def udba_set_def au_flag_test_def flag_defs)
  have n: "no_tables (ms_sb ms_ro)" by (simp add: no_tables_def ms_ro_def ro_fields)
  note t = mount_flags_and_tables [OF env_m_ok opts_two_ok n r]
  have f: "opts_flags opts_two (si_flags (ms_sb ms_ro)) = 0x4CD"
    by (simp add: opts_two_def opt_flags_def opt_mask_def ms_ro_def sb_ro_def sb0_def flag_defs Let_def)
  with t have "si_flags (ms_sb ms') = 0x4CD" by simp
  moreover from this have "au_flag_test (ms_sb ms') AuFlag_XINO \<noteq> 0" by (simp add: au_flag_test_def flag_defs)
  ultimately show ?thesis using r t by blast
qed

end
