(* ===== verification/Aufs_Realign.thy ===== *)
theory Aufs_Realign
  imports "HOL-Library.Multiset" Aufs_Slots
begin

text \<open>
  When branches were added, removed or moved, the slots of a dentry and of an inode are
  brought to the new indexes of their branches by a loop that swaps a slot with
  the one at its new index and stays where it is while the slot got something back
  (\<open>au_refresh_hdentry\<close> in dentry.c, \<open>au_refresh_hinode\<close> in inode.c). This theory has that
  loop, its interface and what it does: the loop ends when no two slots have
  the same new index, every slot is at its new index then, and the ones
  without a new index have been released once.
\<close>

section \<open>A loop that may stay\<close>

text \<open>
  \<open>for (; i <= hi; i++) { ... i--; ... }\<close> where the end is read in every round and the body
  says whether the index stays. It need not end.
\<close>

partial_function (option) for_stay ::
    "(int \<Rightarrow> 's \<Rightarrow> (bool \<times> 's) option) \<Rightarrow> ('s \<Rightarrow> int) \<Rightarrow> int \<Rightarrow> 's \<Rightarrow> 's option" where
  "for_stay f hi i s =
     (if hi s < i then Some s
      else Option.bind (f i s) (\<lambda>(stay, t). for_stay f hi (if stay then i else i + 1) t))"

declare for_stay.simps [code]

lemma for_stay_rule:
  assumes "I i s"
    and "\<And>j t. I j t \<Longrightarrow> j \<le> hi t \<Longrightarrow> \<exists>c u. f j t = Some (c, u)
           \<and> I (if c then j else j + 1) u \<and> m (if c then j else j + 1) u < (m j t :: nat)"
    and "\<And>j t. I j t \<Longrightarrow> hi t < j \<Longrightarrow> Q t"
  shows "\<exists>t. for_stay f hi i s = Some t \<and> Q t"
  using assms(1)
proof (induction "m i s" arbitrary: i s rule: less_induct)
  case less
  show ?case
  proof (cases "hi s < i")
    case True
    then show ?thesis using assms(3) less.prems by (subst for_stay.simps) auto
  next
    case False
    with assms(2) [OF less.prems] obtain c u where u: "f i s = Some (c, u)"
      "I (if c then i else i + 1) u" "m (if c then i else i + 1) u < m i s" by auto
    show ?thesis using less.hyps [OF u(3,2)] False u(1) by (subst for_stay.simps) simp
  qed
qed

section \<open>Slots and where they belong\<close>

text \<open>The new indexes of the slots that have one.\<close>

definition keys :: "('a \<Rightarrow> int option) \<Rightarrow> 'a option list \<Rightarrow> int list" where
  "keys tgt xs = List.map_filter (\<lambda>x. Option.bind x tgt) xs"

definition lost :: "('a \<Rightarrow> int option) \<Rightarrow> ('a \<Rightarrow> 'b) \<Rightarrow> 'b \<Rightarrow> 'a option \<Rightarrow> bool" where
  "lost tgt own b x = (case x of None \<Rightarrow> False | Some y \<Rightarrow> tgt y = None \<and> own y = b)"

definition unsettled :: "('a \<Rightarrow> int option) \<Rightarrow> 'a option list \<Rightarrow> nat set" where
  "unsettled tgt xs = {j. j < length xs \<and> (\<exists>x. xs ! j = Some x \<and> tgt x \<noteq> Some (int j))}"

lemma unsettled_finite [simp]: "finite (unsettled tgt xs)"
  by (rule finite_subset [of _ "{..<length xs}"]) (auto simp: unsettled_def)

lemma mset_keys: "mset (keys tgt xs) = image_mset (\<lambda>x. the (Option.bind x tgt))
    (filter_mset (\<lambda>x. Option.bind x tgt \<noteq> None) (mset xs))"
  by (induction xs) (simp_all add: keys_def map_filter_simps split: option.split)

lemma keys_mset: "mset xs = mset ys \<Longrightarrow> distinct (keys tgt xs) = distinct (keys tgt ys)"
  using mset_keys [of tgt xs] mset_keys [of tgt ys] by (metis mset_eq_imp_distinct_iff)

lemma keys_append [simp]: "keys tgt (xs @ ys) = keys tgt xs @ keys tgt ys"
  by (simp add: keys_def map_filter_def)

lemma keys_Cons: "keys tgt (x # xs) = (case Option.bind x tgt of None \<Rightarrow> [] | Some j \<Rightarrow> [j]) @ keys tgt xs"
  by (cases "Option.bind x tgt") (simp_all add: keys_def map_filter_def)

lemma keys_drop_slot:
  assumes "i < length xs" and "xs ! i = Some x" and "tgt x = None"
  shows "keys tgt (xs[i := None]) = keys tgt xs"
  using assms by (subst (2) id_take_nth_drop [OF assms(1)]) (simp add: upd_conv_take_nth_drop keys_Cons)

lemma keys_in: "i < length xs \<Longrightarrow> xs ! i = Some x \<Longrightarrow> tgt x = Some j \<Longrightarrow> j \<in> set (keys tgt xs)"
  by (induction xs arbitrary: i) (auto simp: keys_Cons nth_Cons split: nat.splits)

lemma keys_distinct:
  assumes "distinct (keys tgt xs)" and "i < j" and "j < length xs"
    and "xs ! i = Some x" "xs ! j = Some y" "tgt x = Some k"
  shows "tgt y \<noteq> Some k"
proof
  assume y: "tgt y = Some k"
  have i: "i < length xs" using assms by simp
  have e: "xs = take i xs @ xs ! i # drop (Suc i) xs" by (rule id_take_nth_drop [OF i])
  have "k \<in> set (keys tgt (drop (Suc i) xs))"
    using assms(2,3,5) y by (intro keys_in [of "j - Suc i"]) auto
  moreover have "distinct (keys tgt (take i xs @ xs ! i # drop (Suc i) xs))" using assms(1) e by simp
  ultimately show False using assms(4,6) by (auto simp: keys_Cons)
qed

lemma keys_set: "k \<in> set (keys tgt xs) \<longleftrightarrow> (\<exists>i x. i < length xs \<and> xs ! i = Some x \<and> tgt x = Some k)"
proof
  show "k \<in> set (keys tgt xs) \<Longrightarrow> \<exists>i x. i < length xs \<and> xs ! i = Some x \<and> tgt x = Some k"
    by (auto simp: keys_def map_filter_def in_set_conv_nth) (metis bind_eq_Some_conv option.sel)
next
  assume "\<exists>i x. i < length xs \<and> xs ! i = Some x \<and> tgt x = Some k"
  then show "k \<in> set (keys tgt xs)" using keys_in [of _ xs _ tgt k] by auto
qed

lemma keys_distinctI:
  assumes "\<And>i j x y. i < j \<Longrightarrow> j < length xs \<Longrightarrow> xs ! i = Some x \<Longrightarrow> xs ! j = Some y \<Longrightarrow> tgt x \<noteq> None \<Longrightarrow> tgt x \<noteq> tgt y"
  shows "distinct (keys tgt xs)"
  using assms
proof (induction xs)
  case Nil
  then show ?case by (simp add: keys_def map_filter_def)
next
  case (Cons z zs)
  have d: "distinct (keys tgt zs)"
  proof (rule Cons.IH)
    fix i j x y assume "i < j" "j < length zs" "zs ! i = Some x" "zs ! j = Some y" "tgt x \<noteq> None"
    then show "tgt x \<noteq> tgt y" using Cons.prems [of "Suc i" "Suc j"] by simp
  qed
  show ?case
  proof (cases "Option.bind z tgt")
    case None
    then show ?thesis using d by (simp add: keys_Cons)
  next
    case (Some k)
    then obtain x where x: "z = Some x" "tgt x = Some k" by (auto simp: bind_eq_Some_conv)
    have "k \<notin> set (keys tgt zs)"
    proof
      assume "k \<in> set (keys tgt zs)"
      then obtain i y where "i < length zs" "zs ! i = Some y" "tgt y = Some k" by (auto simp: keys_set)
      then show False using Cons.prems [of 0 "Suc i" x y] x by simp
    qed
    then show ?thesis using d Some by (simp add: keys_Cons)
  qed
qed

lemma lost_count_update:
  assumes "i < length xs" and "xs ! i = Some x" and "tgt x = None"
  shows "length (filter (lost tgt own b) xs)
    = length (filter (lost tgt own b) (xs[i := None])) + (if own x = b then 1 else 0)"
  using assms by (subst (1) id_take_nth_drop [OF assms(1)])
    (simp add: upd_conv_take_nth_drop lost_def)

lemma lost_count_mset:
  assumes "mset xs = mset ys"
  shows "length (filter (lost tgt own b) xs) = length (filter (lost tgt own b) ys)"
  using assms by (metis mset_filter size_mset)

section \<open>The interface\<close>

text \<open>
  A round of the loop: an empty slot and one that is at home stay, one without a new
  index is released, any other is swapped with the slot at its new index.
\<close>

locale realign =
  fixes arr :: "'s \<Rightarrow> 'a option list"
    and hi :: "'s \<Rightarrow> int"
    and tgt :: "'a \<Rightarrow> int option"
    and own :: "'a \<Rightarrow> 'b"
    and refs :: "'s \<Rightarrow> 'b \<Rightarrow> int"
    and step :: "int \<Rightarrow> 's \<Rightarrow> (bool \<times> 's) option"
    and invar :: "'s \<Rightarrow> bool"
  assumes hi_range: "invar s \<Longrightarrow> hi s < int (length (arr s))"
    and step_home: "invar s \<Longrightarrow> 0 \<le> i \<Longrightarrow> i \<le> hi s \<Longrightarrow>
      (\<forall>x. arr s ! nat i = Some x \<longrightarrow> tgt x = Some i) \<Longrightarrow>
      \<exists>t. step i s = Some (False, t) \<and> invar t \<and> arr t = arr s \<and> hi t = hi s \<and> refs t = refs s"
    and step_drop: "invar s \<Longrightarrow> 0 \<le> i \<Longrightarrow> i \<le> hi s \<Longrightarrow>
      arr s ! nat i = Some x \<Longrightarrow> tgt x = None \<Longrightarrow>
      \<exists>t. step i s = Some (False, t) \<and> invar t \<and> arr t = (arr s)[nat i := None] \<and> hi t = hi s
        \<and> (\<forall>b. refs t b = refs s b - (if own x = b then 1 else 0))"
    and step_swap: "invar s \<Longrightarrow> 0 \<le> i \<Longrightarrow> i \<le> hi s \<Longrightarrow>
      arr s ! nat i = Some x \<Longrightarrow> tgt x = Some j \<Longrightarrow> j \<noteq> i \<Longrightarrow>
      0 \<le> j \<and> j < int (length (arr s)) \<and>
      (\<exists>t. step i s = Some (arr s ! nat j \<noteq> None, t) \<and> invar t
        \<and> arr t = (arr s)[nat j := Some x, nat i := arr s ! nat j] \<and> hi s \<le> hi t \<and> refs t = refs s)"
begin

text \<open>At index \<open>i\<close> of a loop that started in \<open>s\<close>.\<close>

definition at :: "'s \<Rightarrow> int \<Rightarrow> 's \<Rightarrow> bool" where
  "at s i u \<longleftrightarrow> invar u \<and> 0 \<le> i \<and> i \<le> int (length (arr s)) \<and> length (arr u) = length (arr s)
     \<and> distinct (keys tgt (arr u))
     \<and> (\<forall>x. Some x \<in> set (arr u) \<longrightarrow> Some x \<in> set (arr s))
     \<and> (\<forall>x. Some x \<in> set (arr s) \<longrightarrow> tgt x \<noteq> None \<longrightarrow> Some x \<in> set (arr u))
     \<and> (\<forall>j x. j < length (arr u) \<longrightarrow> (int j < i \<or> hi u < int j) \<longrightarrow> arr u ! j = Some x \<longrightarrow> tgt x = Some (int j))
     \<and> (\<forall>b. refs u b - int (length (filter (lost tgt own b) (arr u)))
          = refs s b - int (length (filter (lost tgt own b) (arr s))))"

lemma at_facts:
  assumes "at s i u"
  shows "invar u" "0 \<le> i" "i \<le> int (length (arr s))" "length (arr u) = length (arr s)"
    "distinct (keys tgt (arr u))"
    and at_src: "Some x \<in> set (arr u) \<Longrightarrow> Some x \<in> set (arr s)"
    and at_kept: "Some x \<in> set (arr s) \<Longrightarrow> tgt x \<noteq> None \<Longrightarrow> Some x \<in> set (arr u)"
    and at_settled: "j < length (arr u) \<Longrightarrow> int j < i \<or> hi u < int j \<Longrightarrow> arr u ! j = Some x \<Longrightarrow> tgt x = Some (int j)"
    and at_refs: "refs u b - int (length (filter (lost tgt own b) (arr u)))
          = refs s b - int (length (filter (lost tgt own b) (arr s)))"
  using assms unfolding at_def by blast+

lemma atI:
  assumes "invar u" "0 \<le> i" "i \<le> int (length (arr s))" "length (arr u) = length (arr s)"
    "distinct (keys tgt (arr u))"
    and "\<And>x. Some x \<in> set (arr u) \<Longrightarrow> Some x \<in> set (arr s)"
    and "\<And>x. Some x \<in> set (arr s) \<Longrightarrow> tgt x \<noteq> None \<Longrightarrow> Some x \<in> set (arr u)"
    and "\<And>j x. j < length (arr u) \<Longrightarrow> int j < i \<or> hi u < int j \<Longrightarrow> arr u ! j = Some x \<Longrightarrow> tgt x = Some (int j)"
    and "\<And>b. refs u b - int (length (filter (lost tgt own b) (arr u)))
          = refs s b - int (length (filter (lost tgt own b) (arr s)))"
  shows "at s i u"
  unfolding at_def using assms by blast

definition left :: "int \<Rightarrow> 's \<Rightarrow> nat" where
  "left i u = card (unsettled tgt (arr u)) + nat (int (length (arr u)) - i)"

lemma at_home:
  assumes a: "at s i u" and le: "i \<le> hi u" and home: "\<forall>x. arr u ! nat i = Some x \<longrightarrow> tgt x = Some i"
  shows "\<exists>t. step i u = Some (False, t) \<and> at s (i + 1) t \<and> left (i + 1) t < left i u"
proof -
  from a have iv: "invar u" "0 \<le> i" by (auto simp: at_def)
  from step_home [OF iv le home] obtain t where
    t: "step i u = Some (False, t)" "invar t" "arr t = arr u" "hi t = hi u" "refs t = refs u" by blast
  have len: "i < int (length (arr u))" using hi_range [OF iv(1)] le by simp
  note f = at_facts [OF a]
  have "at s (i + 1) t"
  proof (rule atI, unfold t(3-5))
    fix j x assume j: "j < length (arr u)" "int j < i + 1 \<or> hi u < int j" "arr u ! j = Some x"
    then consider "int j < i \<or> hi u < int j" | "j = nat i" by linarith
    then show "tgt x = Some (int j)"
    proof cases
      case 1
      then show ?thesis using at_settled [OF a j(1) _ j(3)] by blast
    next
      case 2
      then show ?thesis using home iv(2) j(3) by simp
    qed
  next
    fix x assume "Some x \<in> set (arr u)" then show "Some x \<in> set (arr s)" by (rule at_src [OF a])
  next
    fix x assume "Some x \<in> set (arr s)" "tgt x \<noteq> None"
    then show "Some x \<in> set (arr u)" by (rule at_kept [OF a])
  qed (use f t(2) len at_refs [OF a] in simp_all)
  then show ?thesis using t(1,3) len by (auto simp: left_def)
qed

lemma at_drop:
  assumes a: "at s i u" and le: "i \<le> hi u" and x: "arr u ! nat i = Some x" "tgt x = None"
  shows "\<exists>t. step i u = Some (False, t) \<and> at s (i + 1) t \<and> left (i + 1) t < left i u"
proof -
  from a have iv: "invar u" "0 \<le> i" by (auto simp: at_def)
  from step_drop [OF iv le x] obtain t where
    t: "step i u = Some (False, t)" "invar t" "arr t = (arr u)[nat i := None]" "hi t = hi u"
       "\<forall>b. refs t b = refs u b - (if own x = b then 1 else 0)" by blast
  have len: "nat i < length (arr u)" using hi_range [OF iv(1)] le iv by simp
  have sub: "Some y \<in> set ((arr u)[nat i := None]) \<Longrightarrow> Some y \<in> set (arr u)" for y
    using set_update_subset_insert [of "arr u" "nat i" None] by blast
  have keep: "Some y \<in> set ((arr u)[nat i := None])" if "Some y \<in> set (arr u)" "tgt y \<noteq> None" for y
  proof -
    from that obtain j where "j < length (arr u)" "arr u ! j = Some y" by (auto simp: in_set_conv_nth)
    moreover with x that have "j \<noteq> nat i" by auto
    ultimately show ?thesis by (metis length_list_update nth_list_update_neq nth_mem)
  qed
  note f = at_facts [OF a]
  have "at s (i + 1) t"
  proof (rule atI, unfold t(3,4))
    fix j y assume j: "j < length ((arr u)[nat i := None])" "int j < i + 1 \<or> hi u < int j"
      "(arr u)[nat i := None] ! j = Some y"
    then have "j \<noteq> nat i" using len by auto
    then have "int j < i \<or> hi u < int j" using j(2) by linarith
    then show "tgt y = Some (int j)" using at_settled [OF a, of j y] j \<open>j \<noteq> nat i\<close> by simp
  next
    fix b show "refs t b - int (length (filter (lost tgt own b) ((arr u)[nat i := None])))
        = refs s b - int (length (filter (lost tgt own b) (arr s)))"
      using at_refs [OF a, of b] t(5) lost_count_update [where own = own and b = b and tgt = tgt and x = x, OF len x]
      by (cases "own x = b") simp_all
  next
    fix y assume "Some y \<in> set ((arr u)[nat i := None])"
    then show "Some y \<in> set (arr s)" using sub at_src [OF a] by blast
  next
    fix y assume "Some y \<in> set (arr s)" "tgt y \<noteq> None"
    then show "Some y \<in> set ((arr u)[nat i := None])" using keep at_kept [OF a] by blast
  qed (use f t(2) len keys_drop_slot [where tgt = tgt and x = x, OF len x] in simp_all)
  moreover have "card (unsettled tgt ((arr u)[nat i := None])) \<le> card (unsettled tgt (arr u))"
    by (rule card_mono) (use len in \<open>auto simp: unsettled_def nth_list_update split: if_splits\<close>)
  ultimately show ?thesis using t(1,3) len by (auto simp: left_def)
qed

lemma at_swap:
  assumes a: "at s i u" and le: "i \<le> hi u" and x: "arr u ! nat i = Some x" "tgt x = Some j" "j \<noteq> i"
  shows "\<exists>c t. step i u = Some (c, t) \<and> at s (if c then i else i + 1) t
    \<and> left (if c then i else i + 1) t < left i u"
proof -
  let ?xs = "arr u" and ?ys = "(arr u)[nat j := Some x, nat i := arr u ! nat j]"
  from a have iv: "invar u" "0 \<le> i" by (auto simp: at_def)
  from step_swap [OF iv le x] obtain t where j: "0 \<le> j" "nat j < length ?xs" and
    t: "step i u = Some (?xs ! nat j \<noteq> None, t)" "invar t" "arr t = ?ys" "hi u \<le> hi t" "refs t = refs u" by auto
  have len: "nat i < length ?xs" "i + 1 \<le> int (length ?xs)" using hi_range [OF iv(1)] le iv by simp_all
  have ne: "nat i \<noteq> nat j" using x(3) j iv by auto
  have ms: "mset ?ys = mset ?xs" using mset_swap [OF len(1) j(2)] x(1) by simp
  have st: "set ?ys = set ?xs" using ms by (rule mset_eq_setD)
  have far: "tgt y \<noteq> Some j" if y: "?xs ! nat j = Some y" for y
  proof (cases "nat i < nat j")
    case True
    then show ?thesis using keys_distinct [OF at_facts(5) [OF a] True j(2) x(1) y x(2)] by simp
  next
    case False
    then have "nat j < nat i" using ne by linarith
    then show ?thesis using keys_distinct [OF at_facts(5) [OF a] _ len(1) y x(1), of j] x(2) by blast
  qed
  have fin: "tgt y = Some (int l)"
    if l: "l < length ?ys" "int l < (if ?xs ! nat j \<noteq> None then i else i + 1) \<or> hi t < int l" "?ys ! l = Some y" for l y
  proof (cases "l = nat j")
    case True
    then show ?thesis using l(3) ne j x by simp
  next
    case lj: False
    show ?thesis
    proof (cases "l = nat i")
      case True
      then show ?thesis using l len iv(2) le t(4) by (auto split: if_splits)
    next
      case False
      have "int l < i \<or> hi u < int l" using l(2) t(4) False by (auto split: if_splits)
      then show ?thesis using at_settled [OF a, of l y] l lj False by simp
    qed
  qed
  note f = at_facts [OF a]
  have at: "at s (if ?xs ! nat j \<noteq> None then i else i + 1) t"
  proof (rule atI, unfold t(3,5) st)
    show "distinct (keys tgt ?ys)" using keys_mset [OF ms] f(5) by blast
    fix b show "refs u b - int (length (filter (lost tgt own b) ?ys))
        = refs s b - int (length (filter (lost tgt own b) (arr s)))"
      by (simp only: lost_count_mset [OF ms] at_refs [OF a])
  next
    fix y assume "Some y \<in> set ?xs" then show "Some y \<in> set (arr s)" by (rule at_src [OF a])
  next
    fix y assume "Some y \<in> set (arr s)" "tgt y \<noteq> None"
    then show "Some y \<in> set ?xs" by (rule at_kept [OF a])
  next
    fix l y
    assume "l < length ?ys" "int l < (if ?xs ! nat j \<noteq> None then i else i + 1) \<or> hi t < int l" "?ys ! l = Some y"
    then show "tgt y = Some (int l)" by (rule fin)
  qed (use f t(2) len in simp_all)
  have us: "unsettled tgt ?ys \<subseteq> unsettled tgt ?xs - {nat j}"
    using x j ne iv len far by (auto simp: unsettled_def nth_list_update split: if_splits)
  have "left (if ?xs ! nat j \<noteq> None then i else i + 1) t < left i u"
  proof (cases "?xs ! nat j")
    case None
    have "card (unsettled tgt ?ys) \<le> card (unsettled tgt ?xs)" using us by (intro card_mono) auto
    then show ?thesis using None t(3) len by (simp add: left_def)
  next
    case (Some y)
    then have "nat j \<in> unsettled tgt ?xs" using far j by (simp add: unsettled_def)
    then have "unsettled tgt ?ys \<subset> unsettled tgt ?xs" using us by blast
    then have "card (unsettled tgt ?ys) < card (unsettled tgt ?xs)" by (intro psubset_card_mono) auto
    then show ?thesis using Some t(3) by (simp add: left_def)
  qed
  with at t(1) show ?thesis by blast
qed

text \<open>The loop ends, and every slot is where it belongs.\<close>

lemma realigned:
  assumes iv: "invar s" and i: "0 \<le> i" "i \<le> int (length (arr s))" and d: "distinct (keys tgt (arr s))"
    and out: "\<And>j. j < length (arr s) \<Longrightarrow> int j < i \<or> hi s < int j \<Longrightarrow> arr s ! j = None"
  shows "\<exists>t. for_stay step hi i s = Some t \<and> invar t \<and> length (arr t) = length (arr s)
    \<and> (\<forall>j x. j < length (arr s) \<longrightarrow>
         (arr t ! j = Some x \<longleftrightarrow> Some x \<in> set (arr s) \<and> tgt x = Some (int j)))
    \<and> (\<forall>b. refs t b = refs s b - int (length (filter (lost tgt own b) (arr s))))"
proof (rule for_stay_rule [where I = "at s" and m = left])
  show "at s i s" using iv i d out by (auto simp: at_def)
next
  fix j u assume a: "at s j u" "j \<le> hi u"
  consider "\<forall>x. arr u ! nat j = Some x \<longrightarrow> tgt x = Some j"
    | x where "arr u ! nat j = Some x" "tgt x = None"
    | x l where "arr u ! nat j = Some x" "tgt x = Some l" "l \<noteq> j" by force
  then show "\<exists>c t. step j u = Some (c, t) \<and> at s (if c then j else j + 1) t
      \<and> left (if c then j else j + 1) t < left j u"
  proof cases
    case 1
    with at_home [OF a] show ?thesis by force
  next
    case 2
    with at_drop [OF a] show ?thesis by force
  next
    case 3
    with at_swap [OF a] show ?thesis by simp
  qed
next
  fix j u assume a: "at s j u" and e: "hi u < j"
  have home: "tgt x = Some (int l)" if "l < length (arr u)" "arr u ! l = Some x" for l x
  proof -
    have "int l < j \<or> hi u < int l" using e by linarith
    then show ?thesis using at_settled [OF a that(1) _ that(2)] by blast
  qed
  have none: "filter (lost tgt own b) (arr u) = []" for b
    using home by (auto simp: filter_empty_conv lost_def in_set_conv_nth split: option.splits)
  have iff: "arr u ! l = Some x \<longleftrightarrow> Some x \<in> set (arr s) \<and> tgt x = Some (int l)" if l: "l < length (arr s)" for l x
  proof
    assume "arr u ! l = Some x"
    then show "Some x \<in> set (arr s) \<and> tgt x = Some (int l)"
      using home [of l x] l at_facts(4) [OF a] at_src [OF a, of x] by (metis nth_mem)
  next
    assume r: "Some x \<in> set (arr s) \<and> tgt x = Some (int l)"
    then have "Some x \<in> set (arr u)" using at_kept [OF a, of x] by simp
    then obtain m where m: "m < length (arr u)" "arr u ! m = Some x" by (auto simp: in_set_conv_nth)
    with home [OF m] r show "arr u ! l = Some x" by simp
  qed
  have "\<forall>b. refs u b = refs s b - int (length (filter (lost tgt own b) (arr s)))"
  proof
    fix b show "refs u b = refs s b - int (length (filter (lost tgt own b) (arr s)))"
      using at_refs [OF a, of b] by (simp add: none)
  qed
  with iff at_facts [OF a] show "invar u \<and> length (arr u) = length (arr s)
    \<and> (\<forall>j x. j < length (arr s) \<longrightarrow>
         (arr u ! j = Some x \<longleftrightarrow> Some x \<in> set (arr s) \<and> tgt x = Some (int j)))
    \<and> (\<forall>b. refs u b = refs s b - int (length (filter (lost tgt own b) (arr s))))"
    by blast
qed

end

end
