(* ===== verification/Aufs_Refresh.thy ===== *)
theory Aufs_Refresh
  imports Aufs_Lookup Aufs_Attr Aufs_Misc Aufs_Finfo Aufs_Realign
begin

text \<open>
  Dentries and inodes that were set up for an older branch table are brought up to date
  when they are used (\<open>au_refresh_hdentry\<close> and what calls it in dentry.c,
  \<open>au_refresh_hinode\<close> in inode.c). Every hidden dentry goes to the index its parent has
  in the parent directory, every hidden inode to the index of its branch, and
  the ones of removed branches are released. Also here: the test of the hidden
  dentries at revalidation, and the release of a dentry.
\<close>

section \<open>Generations\<close>

text \<open>As with jiffies the difference is what counts, so the numbers may wrap around.\<close>

definition AufsGenYounger :: "int \<Rightarrow> int \<Rightarrow> bool" where
  "AufsGenYounger a b \<longleftrightarrow> sint (word_of_int (b - a) :: 32 word) < 0"

definition AufsGenOlder :: "int \<Rightarrow> int \<Rightarrow> bool" where
  "AufsGenOlder a b \<longleftrightarrow> AufsGenYounger b a"

section \<open>The slots of a dentry\<close>

text \<open>The variables of the loop of \<open>au_refresh_hdentry\<close>.\<close>

record hd_loop =
  hl_arr :: "nat option list"
  hl_bwh :: int
  hl_bdiropq :: int
  hl_kern :: kern

definition hd_round ::
    "aufs_dentry \<Rightarrow> aufs_dinfo \<Rightarrow> int \<Rightarrow> hd_loop \<Rightarrow> (bool \<times> hd_loop) option" where
  "hd_round parent dinfo bindex l =
     do { p \<leftarrow> aget (hl_arr l) bindex;
          case p of
            None \<Rightarrow> Some (False, l)
          | Some h \<Rightarrow>
              do { let hdp = k_dparent (hl_kern l) h;
                   let k = dget hdp (hl_kern l);
                   php \<leftarrow> au_h_dptr_i k parent bindex;
                   if php = Some hdp then Some (False, l\<lparr>hl_kern := dput (Some hdp) k\<rparr>)
                   else do { new_bindex \<leftarrow> au_find_dbindex k parent hdp;
                     let k = dput (Some hdp) k;
                     _ \<leftarrow> debug_on (new_bindex = bindex);
                     let l = l\<lparr>hl_bwh := (if di_bwh dinfo = bindex then new_bindex else hl_bwh l),
                               hl_bdiropq := (if di_bdiropq dinfo = bindex then new_bindex else hl_bdiropq l),
                               hl_kern := k\<rparr>;
                     if new_bindex < 0
                     then do { arr \<leftarrow> aset (hl_arr l) bindex None;
                               Some (False, l\<lparr>hl_arr := arr, hl_kern := dput (Some h) k\<rparr>) }
                     else do { q \<leftarrow> aget (hl_arr l) new_bindex;
                               arr \<leftarrow> aset (hl_arr l) new_bindex p;
                               arr \<leftarrow> aset arr bindex q;
                               Some (q \<noteq> None, l\<lparr>hl_arr := arr\<rparr>) } } } }"

text \<open>A mark is kept when its branch is still there and can have whiteouts.\<close>

definition kept_mark :: "aufs_sb \<Rightarrow> int \<Rightarrow> int option" where
  "kept_mark sb b =
     (if b \<noteq> - 1 \<and> b \<le> sbend sb
      then do { wh \<leftarrow> sbr_is_whable sb b; Some (if wh then b else - 1) } else Some (- 1))"

definition slot_used :: "nat option list \<Rightarrow> int \<Rightarrow> bool option" where
  "slot_used arr i = map_option (\<lambda>p. p \<noteq> None) (aget arr i)"

definition au_refresh_hdentry ::
    "vfs \<Rightarrow> aufs_sb \<Rightarrow> aufs_dentry \<Rightarrow> aufs_dentry \<Rightarrow> byte list \<Rightarrow> 32 word \<Rightarrow> kern
       \<Rightarrow> (int \<times> aufs_dentry \<times> kern) option" where
  "au_refresh_hdentry vf sb parent dentry name type k =
     do { pgen \<leftarrow> au_digen parent;
          let sgen = si_generation sb;
          dgen \<leftarrow> au_digen dentry;
          _ \<leftarrow> debug_on (pgen \<noteq> sgen \<or> AufsGenOlder sgen dgen \<or> AufsGenOlder pgen dgen);
          dinfo \<leftarrow> dtodi dentry;
          (p, k) \<leftarrow> au_kzrealloc None (di_hdentry dinfo) (nat (di_bend dinfo + 1)) (nat (sbend sb + 1)) k;
          case p of
            None \<Rightarrow> Some (- ENOMEM, dentry, k)
          | Some arr \<Rightarrow>
              do { l \<leftarrow> for_stay (hd_round parent dinfo) (\<lambda>_. di_bend dinfo) (di_bstart dinfo)
                     \<lparr>hl_arr = arr, hl_bwh = di_bwh dinfo, hl_bdiropq = di_bdiropq dinfo, hl_kern = k\<rparr>;
                   bwh \<leftarrow> kept_mark sb (hl_bwh l);
                   bdiropq \<leftarrow> kept_mark sb (hl_bdiropq l);
                   parent_bend \<leftarrow> dbend parent;
                   bstart \<leftarrow> scan_up (slot_used (hl_arr l)) 0 parent_bend (di_bstart dinfo);
                   bend \<leftarrow> scan_down (slot_used (hl_arr l)) parent_bend 0 (di_bend dinfo);
                   let dentry = dentry\<lparr>d_fsdata := Some (dinfo\<lparr>di_bstart := bstart, di_bend := bend,
                     di_bwh := bwh, di_bdiropq := bdiropq, di_hdentry := hl_arr l\<rparr>)\<rparr>;
                   parent_bstart \<leftarrow> dbstart parent;
                   (npositive, dentry, k) \<leftarrow>
                     (if type \<noteq> S_IFDIR \<and> bstart = parent_bstart then Some (0, dentry, hl_kern l)
                      else lkup_dentry vf sb parent dentry name parent_bstart type (hl_kern l));
                   if npositive < 0 then Some (npositive, dentry, k)
                   else do { dentry \<leftarrow> au_update_digen sb dentry; Some (npositive, dentry, k) } } }"

section \<open>The slots of an inode\<close>

record hi_loop =
  il_ii :: aufs_iinfo
  il_arr :: "aufs_hinode list"
  il_update :: nat
  il_kern :: kern

definition hi_round :: "aufs_sb \<Rightarrow> int \<Rightarrow> hi_loop \<Rightarrow> (bool \<times> hi_loop) option" where
  "hi_round sb bindex l =
     do { p \<leftarrow> aget (il_arr l) bindex;
          if hi_inode p = None then Some (False, l)
          else do { new_bindex \<leftarrow> find_brindex sb (hi_id p);
            if new_bindex = bindex then Some (False, l)
            else if new_bindex < 0
            then do { arr \<leftarrow> aset (il_arr l) bindex (p\<lparr>hi_inode := None\<rparr>);
                      Some (False, l\<lparr>il_arr := arr, il_update := il_update l + 1,
                                     il_kern := aufs_hiput p (il_kern l)\<rparr>) }
            else do { let ii = il_ii l;
                      let ii = (if new_bindex < ii_bstart ii then ii\<lparr>ii_bstart := new_bindex\<rparr> else ii);
                      let ii = (if ii_bend ii < new_bindex then ii\<lparr>ii_bend := new_bindex\<rparr> else ii);
                      q \<leftarrow> aget (il_arr l) new_bindex;
                      arr \<leftarrow> aset (il_arr l) new_bindex p;
                      arr \<leftarrow> aset arr bindex q;
                      Some (hi_inode q \<noteq> None, l\<lparr>il_ii := ii, il_arr := arr\<rparr>) } } }"

text \<open>
  The hidden inodes of the dentry that the inode does not have yet; the error is set when
  the two disagree, and the update counter counts the new ones.
\<close>

record hi_fill =
  if_err :: int
  if_inode :: aufs_inode
  if_sb :: aufs_sb
  if_update :: nat
  if_kern :: kern

definition fill_round ::
    "bool \<Rightarrow> (nat \<Rightarrow> writef) \<Rightarrow> aufs_dentry \<Rightarrow> 32 word \<Rightarrow> int \<Rightarrow> hi_fill \<Rightarrow> (bool \<times> hi_fill) option" where
  "fill_round is_aufsd wrf dentry flags bindex l =
     do { hd \<leftarrow> au_h_dptr_i (if_kern l) dentry bindex;
          case Option.bind hd (k_dinode (if_kern l)) of
            None \<Rightarrow> Some (True, l)
          | Some h_inode \<Rightarrow>
              do { let ii = i_iinfo (if_inode l);
                   hi \<leftarrow> (if ii_bstart ii \<le> bindex \<and> bindex \<le> ii_bend ii
                         then au_h_iptr_i (if_kern l) (if_inode l) bindex else Some None);
                   case hi of
                     Some hi \<Rightarrow>
                       if hi = h_inode then Some (True, l)
                       else Some (False, l\<lparr>if_err := - ESTALE\<rparr>)
                   | None \<Rightarrow>
                       do { let ii = (if bindex < ii_bstart ii then ii\<lparr>ii_bstart := bindex\<rparr> else ii);
                            let ii = (if ii_bend ii < bindex then ii\<lparr>ii_bend := bindex\<rparr> else ii);
                            (inode, sb, k) \<leftarrow> set_h_iptr is_aufsd wrf (if_inode l\<lparr>i_iinfo := ii\<rparr>) bindex
                              (Some h_inode) flags (if_sb l) (igrab h_inode (if_kern l));
                            Some (True, l\<lparr>if_inode := inode, if_sb := sb, if_update := if_update l + 1,
                                          if_kern := k\<rparr>) } } }"

definition hi_used :: "aufs_hinode list \<Rightarrow> int \<Rightarrow> bool option" where
  "hi_used arr i = map_option (\<lambda>hi. hi_inode hi \<noteq> None) (aget arr i)"

text \<open>The range is brought to the slots in use; below \<open>ii_bstart\<close> the second scan does not go.\<close>

definition tight_range :: "aufs_iinfo \<Rightarrow> aufs_iinfo option" where
  "tight_range ii =
     do { a \<leftarrow> ii_hinode ii;
          bstart \<leftarrow> scan_up (hi_used a) 0 (ii_bend ii) (ii_bstart ii);
          bend \<leftarrow> scan_down (hi_used a) (ii_bend ii) (bstart + 1) (ii_bend ii);
          _ \<leftarrow> debug_on (ii_bend ii < bstart \<or> bend < 0);
          Some (ii\<lparr>ii_bstart := bstart, ii_bend := bend\<rparr>) }"

definition au_refresh_hinode ::
    "bool \<Rightarrow> (nat \<Rightarrow> writef) \<Rightarrow> aufs_sb \<Rightarrow> aufs_inode \<Rightarrow> aufs_dentry \<Rightarrow> kern
       \<Rightarrow> (int \<times> aufs_inode \<times> aufs_sb \<times> kern) option" where
  "au_refresh_hinode is_aufsd wrf sb inode dentry k =
     do { iinfo \<leftarrow> ii_of inode;
          a \<leftarrow> ii_hinode iinfo;
          (p, k) \<leftarrow> au_kzrealloc \<lparr>hi_inode = None, hi_id = 0, hi_notify = None\<rparr> a
                     (nat (ii_bend iinfo + 1)) (nat (sbend sb + 1)) k;
          case p of
            None \<Rightarrow> Some (- ENOMEM, inode, sb, k)
          | Some arr \<Rightarrow>
              do { first \<leftarrow> map_option hi_inode (aget arr (ii_bstart iinfo));
                   l \<leftarrow> for_stay (hi_round sb) (\<lambda>l. ii_bend (il_ii l)) (ii_bstart iinfo)
                     \<lparr>il_ii = iinfo, il_arr = arr, il_update = 0, il_kern = k\<rparr>;
                   let isdir = S_ISDIR (i_mode inode);
                   let flags = au_hi_flags sb isdir;
                   bstart \<leftarrow> dbstart dentry;
                   bend \<leftarrow> dbend dentry;
                   f \<leftarrow> for_up (fill_round is_aufsd wrf dentry flags) bstart bend
                     \<lparr>if_err = 0, if_inode = inode\<lparr>i_iinfo := (il_ii l)\<lparr>ii_hinode := Some (il_arr l)\<rparr>\<rparr>,
                      if_sb = sb, if_update = il_update l, if_kern = il_kern l\<rparr>;
                   ii \<leftarrow> tight_range (i_iinfo (if_inode f));
                   let inode = if_inode f\<lparr>i_iinfo := ii\<rparr>;
                   if if_err f \<noteq> 0 then Some (if_err f, inode, if_sb f, if_kern f)
                   else do { h \<leftarrow> au_h_iptr (if_kern f) inode;
                             inode \<leftarrow> (if first \<noteq> h then au_cpup_attr_all (if_kern f) inode else Some inode);
                             let inode = (if if_update f \<noteq> 0 \<and> isdir
                                          then inode\<lparr>i_version := i_version inode + 1\<rparr> else inode);
                             inode \<leftarrow> au_update_iigen (if_sb f) inode;
                             Some (0, inode, if_sb f, if_kern f) } } }"

text \<open>
  The inode of a dentry that was looked up first (\<open>set_inode\<close>, inode.c). The switch over
  the file type chooses the operations of the inode, null for an unknown type.
\<close>

datatype inode_ops = Iop_file | Iop_dir | Iop_symlink | Iop_special

definition inode_ops_of :: "32 word \<Rightarrow> inode_ops option" where
  "inode_ops_of mode =
     (let ty = mode AND S_IFMT
      in if ty = 0x8000 then Some Iop_file
         else if ty = 0x4000 then Some Iop_dir
         else if ty = 0xA000 then Some Iop_symlink
         else if ty = 0x6000 \<or> ty = 0x2000 \<or> ty = 0x1000 \<or> ty = 0xC000 then Some Iop_special
         else None)"

definition set_inode_round ::
    "bool \<Rightarrow> (nat \<Rightarrow> writef) \<Rightarrow> aufs_dentry \<Rightarrow> 32 word \<Rightarrow> int \<Rightarrow> aufs_inode \<times> aufs_sb \<times> kern
       \<Rightarrow> (bool \<times> (aufs_inode \<times> aufs_sb \<times> kern)) option" where
  "set_inode_round is_aufsd wrf dentry flags bindex = (\<lambda>(inode, sb, k).
     do { hd \<leftarrow> au_h_dptr_i k dentry bindex;
          case hd of
            None \<Rightarrow> Some (True, (inode, sb, k))
          | Some h \<Rightarrow>
              do { h_inode \<leftarrow> k_dinode k h;
                   r \<leftarrow> set_h_iptr is_aufsd wrf inode bindex (Some h_inode) flags sb (igrab h_inode k);
                   Some (True, r) } })"

definition set_inode ::
    "bool \<Rightarrow> (nat \<Rightarrow> writef) \<Rightarrow> aufs_sb \<Rightarrow> aufs_inode \<Rightarrow> aufs_dentry \<Rightarrow> kern
       \<Rightarrow> (int \<times> inode_ops \<times> aufs_inode \<times> aufs_sb \<times> kern) option" where
  "set_inode is_aufsd wrf sb inode dentry k =
     do { hd \<leftarrow> au_h_dptr k dentry; hidden_dentry \<leftarrow> hd; hidden_inode \<leftarrow> k_dinode k hidden_dentry;
          bstart \<leftarrow> dbstart dentry;
          case inode_ops_of (k_imode k hidden_inode) of
            None \<Rightarrow> Some (- EIO, Iop_file, inode, sb, k)
          | Some iop \<Rightarrow>
              do { let isdir = (iop = Iop_dir);
                   btail \<leftarrow> (if isdir then dbtaildir dentry else dbtail dentry);
                   iinfo \<leftarrow> ii_of inode;
                   (inode, sb, k) \<leftarrow> for_up (set_inode_round is_aufsd wrf dentry (au_hi_flags sb isdir)) bstart btail
                     (inode\<lparr>i_iinfo := iinfo\<lparr>ii_bstart := bstart, ii_bend := btail\<rparr>\<rparr>, sb, k);
                   inode \<leftarrow> au_cpup_attr_all k inode;
                   Some (0, iop, inode, sb, k) } }"

section \<open>Revalidation\<close>

text \<open>
  One hidden dentry: its own \<open>d_revalidate\<close>, if its filesystem has one, and under the options
  \<open>udba=reval\<close> and \<open>udba=inotify\<close> the comparison with the aufs inode. With
  \<open>CONFIG_AUFS_FAKE_DM\<close> the lookup data passed down hold null pointers, so the answer depends
  on the hidden dentry only.
\<close>

definition reval_round ::
    "(nat \<Rightarrow> bool option) \<Rightarrow> bool \<Rightarrow> aufs_dentry \<Rightarrow> aufs_inode option \<Rightarrow> kern \<Rightarrow> int \<Rightarrow> int \<Rightarrow> (bool \<times> int) option" where
  "reval_round reval udba dentry inode k bindex err =
     do { hd \<leftarrow> au_h_dptr_i k dentry bindex;
          case hd of
            None \<Rightarrow> Some (True, err)
          | Some hidden_dentry \<Rightarrow>
              if reval hidden_dentry = Some False then Some (False, - EINVAL)
              else if \<not> udba then Some (True, err)
              else let hinode = k_dinode k hidden_dentry;
                       plus = (case inode of None \<Rightarrow> False | Some i \<Rightarrow> 0 < i_nlink i);
                       mode = (case inode of None \<Rightarrow> 0 | Some i \<Rightarrow> i_mode i AND S_IFMT);
                       hplus = (case hinode of None \<Rightarrow> False | Some h \<Rightarrow> 0 < k_inlink k h);
                       hmode = (case hinode of None \<Rightarrow> 0 | Some h \<Rightarrow> k_imode k h AND S_IFMT)
                   in if plus \<noteq> hplus \<or> mode \<noteq> hmode then Some (False, - EINVAL)
                      else case inode of
                        None \<Rightarrow> Some (True, err)
                      | Some i \<Rightarrow>
                          do { bstart \<leftarrow> ibstart i; bend \<leftarrow> ibend i;
                               if bindex < bstart \<or> bend < bindex then Some (False, - EINVAL)
                               else do { h \<leftarrow> au_h_iptr_i k i bindex;
                                         Some (if hinode \<noteq> h then (False, - EINVAL) else (True, err)) } } }"

definition hidden_d_revalidate ::
    "(nat \<Rightarrow> bool option) \<Rightarrow> aufs_sb \<Rightarrow> aufs_dentry \<Rightarrow> aufs_inode option \<Rightarrow> kern \<Rightarrow> int option" where
  "hidden_d_revalidate reval sb dentry inode k =
     do { let udba = (au_flag_test sb (AuFlag_UDBA_REVAL OR AuFlag_UDBA_INOTIFY) \<noteq> 0);
          _ \<leftarrow> (case inode of None \<Rightarrow> Some None | Some i \<Rightarrow> if udba then au_h_iptr k i else Some None);
          bstart \<leftarrow> dbstart dentry;
          btail \<leftarrow> (case inode of None \<Rightarrow> Some bstart
                   | Some i \<Rightarrow> if S_ISDIR (i_mode i) then dbtaildir dentry else Some bstart);
          for_up (reval_round reval udba dentry inode k) bstart btail 0 }"

text \<open>A dentry with its inode and its name; a path goes from a dentry up to the root.\<close>

record aufs_node =
  n_dentry :: aufs_dentry
  n_inode :: "aufs_inode option"
  n_name :: "byte list"

type_synonym path = "aufs_node list"

text \<open>The dentry at \<open>i\<close> and its inode are refreshed from the parent.\<close>

definition refresh_at ::
    "bool \<Rightarrow> (nat \<Rightarrow> writef) \<Rightarrow> vfs \<Rightarrow> nat \<Rightarrow> path \<Rightarrow> aufs_sb \<Rightarrow> kern \<Rightarrow> (int \<times> path \<times> aufs_sb \<times> kern) option" where
  "refresh_at is_aufsd wrf vf i path sb k =
     (if length path \<le> Suc i then None
      else do { let n = path ! i;
                inode \<leftarrow> n_inode n;
                (err, dentry, k) \<leftarrow> au_refresh_hdentry vf sb (n_dentry (path ! Suc i)) (n_dentry n) (n_name n)
                  (i_mode inode AND S_IFMT) k;
                let n = n\<lparr>n_dentry := dentry\<rparr>;
                if err < 0 then Some (err, path[i := n], sb, k)
                else do { (err, inode, sb, k) \<leftarrow> au_refresh_hinode is_aufsd wrf sb inode dentry k;
                          Some (err, path[i := n\<lparr>n_inode := Some inode\<rparr>], sb, k) } })"

definition node_gen :: "aufs_node \<Rightarrow> int option" where
  "node_gen n = au_digen (n_dentry n)"

text \<open>The debugging test looks at all parents but the root.\<close>

definition simple_reval_dpath ::
    "bool \<Rightarrow> (nat \<Rightarrow> writef) \<Rightarrow> vfs \<Rightarrow> path \<Rightarrow> int \<Rightarrow> aufs_sb \<Rightarrow> kern \<Rightarrow> (int \<times> path \<times> aufs_sb \<times> kern) option" where
  "simple_reval_dpath is_aufsd wrf vf path sgen sb k =
     do { gen \<leftarrow> node_gen (hd path);
          if \<not> AufsGenOlder gen sgen then Some (0, path, sb, k)
          else if length path \<le> 1 then None
          else do { _ \<leftarrow> debug_on (node_gen (path ! 1) \<noteq> Some sgen);
                    _ \<leftarrow> debug_on (\<exists>n \<in> set (butlast (tl path)). node_gen n \<noteq> Some sgen);
                    refresh_at is_aufsd wrf vf 0 path sb k } }"

text \<open>
  The nearest dentry whose parent is of the generation; the walk stays at the root for
  ever when the root is not.
\<close>

fun below_current :: "int \<Rightarrow> path \<Rightarrow> nat option" where
  "below_current sgen [] = None"
| "below_current sgen [root] = (if node_gen root = Some sgen then Some 0 else None)"
| "below_current sgen (n # p # rest) =
     (if node_gen p = Some sgen then Some 0 else map_option Suc (below_current sgen (p # rest)))"

text \<open>The loop taken when a refresh of the directories has failed before.\<close>

partial_function (option) reval_loop ::
    "bool \<Rightarrow> (nat \<Rightarrow> writef) \<Rightarrow> vfs \<Rightarrow> path \<Rightarrow> int \<Rightarrow> aufs_sb \<Rightarrow> kern \<Rightarrow> (int \<times> path \<times> aufs_sb \<times> kern) option" where
  "reval_loop is_aufsd wrf vf path sgen sb k =
     do { gen \<leftarrow> node_gen (hd path);
          if gen = sgen then Some (0, path, sb, k)
          else do { i \<leftarrow> below_current sgen path;
                    g \<leftarrow> node_gen (path ! i);
                    (err, path, sb, k) \<leftarrow>
                      (if AufsGenOlder g sgen then refresh_at is_aufsd wrf vf i path sb k
                       else Some (0, path, sb, k));
                    if err \<noteq> 0 then Some (err, path, sb, k)
                    else reval_loop is_aufsd wrf vf path sgen sb k } }"

declare reval_loop.simps [code]

definition au_reval_dpath ::
    "bool \<Rightarrow> (nat \<Rightarrow> writef) \<Rightarrow> vfs \<Rightarrow> bool \<Rightarrow> path \<Rightarrow> int \<Rightarrow> aufs_sb \<Rightarrow> kern \<Rightarrow> (int \<times> path \<times> aufs_sb \<times> kern) option" where
  "au_reval_dpath is_aufsd wrf vf failed_refresh_dirs path sgen sb k =
     do { _ \<leftarrow> debug_on (n_inode (hd path) = None);
          if \<not> failed_refresh_dirs then simple_reval_dpath is_aufsd wrf vf path sgen sb k
          else reval_loop is_aufsd wrf vf path sgen sb k }"

text \<open>The boolean says whether the dentry is valid. Without hinotify \<open>au_direval_test\<close> is 0.\<close>

definition aufs_d_revalidate ::
    "bool \<Rightarrow> (nat \<Rightarrow> writef) \<Rightarrow> vfs \<Rightarrow> (nat \<Rightarrow> bool option) \<Rightarrow> bool \<Rightarrow> path \<Rightarrow> aufs_sb \<Rightarrow> kern
       \<Rightarrow> (bool \<times> path \<times> aufs_sb \<times> kern) option" where
  "aufs_d_revalidate is_aufsd wrf vf reval failed_refresh_dirs path sb k =
     do { let sgen = si_generation sb;
          gen \<leftarrow> node_gen (hd path);
          (err, path, sb, k) \<leftarrow>
            (if gen = sgen then Some (- EINVAL, path, sb, k)
             else au_reval_dpath is_aufsd wrf vf failed_refresh_dirs path sgen sb k);
          if gen \<noteq> sgen \<and> err \<noteq> 0 then Some (False, path, sb, k)
          else do { igen \<leftarrow> (case n_inode (hd path) of None \<Rightarrow> Some sgen | Some i \<Rightarrow> au_iigen i);
                    if igen \<noteq> sgen then Some (err = 0, path, sb, k)
                    else do { err \<leftarrow> hidden_d_revalidate reval sb (n_dentry (hd path)) (n_inode (hd path)) k;
                              Some (err = 0, path, sb, k) } } }"

section \<open>Release\<close>

definition release_round :: "nat option list \<Rightarrow> int \<Rightarrow> kern \<Rightarrow> (bool \<times> kern) option" where
  "release_round arr bindex k = do { p \<leftarrow> aget arr bindex; Some (True, dput p k) }"

definition aufs_d_release :: "aufs_dentry \<Rightarrow> kern \<Rightarrow> kern option" where
  "aufs_d_release dentry k =
     (case d_fsdata dentry of
        None \<Rightarrow> Some k
      | Some dinfo \<Rightarrow>
          do { k \<leftarrow> (if 0 \<le> di_bstart dinfo
                   then do { _ \<leftarrow> debug_on (di_bend dinfo < di_bstart dinfo);
                             for_up (release_round (di_hdentry dinfo)) (di_bstart dinfo) (di_bend dinfo) k }
                   else Some k);
               Some (kfree (kfree k)) })"

section \<open>Where hidden dentries belong\<close>

text \<open>
  The index the parent of a hidden dentry has in the parent directory; the slots of a
  dentry outside of its range are empty, and no hidden directory is in two slots.
\<close>

definition home_of :: "kern \<Rightarrow> aufs_dentry \<Rightarrow> nat \<Rightarrow> int option" where
  "home_of k parent h =
     (case [i \<leftarrow> [di_bstart (the_di parent)..di_bend (the_di parent)]. hslot parent i = Some (k_dparent k h)]
      of [] \<Rightarrow> None | i # _ \<Rightarrow> Some i)"

definition in_range :: "aufs_dentry \<Rightarrow> bool" where
  "in_range d \<longleftrightarrow> (\<forall>i. hslot d i \<noteq> None \<longrightarrow> di_bstart (the_di d) \<le> i \<and> i \<le> di_bend (the_di d))"

definition slots_inj :: "aufs_dentry \<Rightarrow> bool" where
  "slots_inj d \<longleftrightarrow> (\<forall>i j p. hslot d i = Some p \<longrightarrow> hslot d j = Some p \<longrightarrow> i = j)"

lemma home_of_iff:
  assumes "in_range parent" and "slots_inj parent"
  shows "home_of k parent h = Some i \<longleftrightarrow> hslot parent i = Some (k_dparent k h)"
proof
  assume "home_of k parent h = Some i"
  then obtain js where "[i \<leftarrow> [di_bstart (the_di parent)..di_bend (the_di parent)]. hslot parent i = Some (k_dparent k h)] = i # js"
    (is "?l = _") by (auto simp: home_of_def split: list.splits)
  then have "i \<in> set ?l" by simp
  then show "hslot parent i = Some (k_dparent k h)" by simp
next
  assume h: "hslot parent i = Some (k_dparent k h)"
  then have "i \<in> set [i \<leftarrow> [di_bstart (the_di parent)..di_bend (the_di parent)]. hslot parent i = Some (k_dparent k h)]"
    (is "i \<in> set ?l") using assms(1) by (auto simp: in_range_def)
  then obtain j js where l: "?l = j # js" by (cases ?l) auto
  then have "j \<in> set ?l" by simp
  then have "j = i" using h assms(2) by (auto simp: slots_inj_def)
  then show "home_of k parent h = Some i" using l by (simp add: home_of_def)
qed

text \<open>The parent directory as the loop sees it, whose slots hold references of their own.\<close>

definition parent_ok :: "aufs_dentry \<Rightarrow> bool" where
  "parent_ok parent \<longleftrightarrow> dtodi parent = Some (the_di parent) \<and> 0 \<le> di_bstart (the_di parent)
     \<and> di_bend (the_di parent) < int (length (di_hdentry (the_di parent)))
     \<and> in_range parent \<and> slots_inj parent"

definition counted :: "nat option list \<Rightarrow> aufs_dentry \<Rightarrow> kern \<Rightarrow> bool" where
  "counted arr parent k \<longleftrightarrow>
     (\<forall>p. int (count_list arr (Some p) + count_list (di_hdentry (the_di parent)) (Some p)) \<le> k_dcount k p)"

lemma counted_slot: "counted arr parent k \<Longrightarrow> hslot parent i = Some p \<Longrightarrow> 0 < k_dcount k p"
proof -
  assume c: "counted arr parent k" and h: "hslot parent i = Some p"
  have "0 < count_list (di_hdentry (the_di parent)) (Some p)" using hslot_count [OF h] .
  moreover have "int (count_list arr (Some p) + count_list (di_hdentry (the_di parent)) (Some p)) \<le> k_dcount k p"
    using c by (simp add: counted_def)
  ultimately show ?thesis by linarith
qed

lemma parent_slot:
  assumes "parent_ok parent" "counted arr parent k" "0 \<le> i" "i < int (length (di_hdentry (the_di parent)))"
  shows "au_h_dptr_i k parent i = Some (hslot parent i)"
proof (cases "i < di_bstart (the_di parent)")
  case True
  then have "hslot parent i = None" using assms(1) by (force simp: parent_ok_def in_range_def)
  then show ?thesis using True assms(1) by (simp add: au_h_dptr_i_def parent_ok_def)
next
  case False
  have "\<not> (case hslot parent i of None \<Rightarrow> False | Some p \<Rightarrow> k_dcount k p \<le> 0)"
    using counted_slot [OF assms(2), of i] by (auto split: option.split)
  then show ?thesis using False assms by (simp add: au_h_dptr_i_def parent_ok_def hslot_def)
qed

lemma parent_find:
  assumes ok: "parent_ok parent" and c: "counted arr parent k"
  shows "au_find_dbindex k parent (k_dparent k h) = Some (case home_of k parent h of None \<Rightarrow> - 1 | Some j \<Rightarrow> j)"
proof -
  let ?s = "di_bstart (the_di parent)" and ?e = "di_bend (the_di parent)"
  have rng: "in_range parent" "slots_inj parent" using ok by (auto simp: parent_ok_def)
  have "\<exists>r. scan_up (\<lambda>i. map_option (\<lambda>x. x = Some (k_dparent k h)) (au_h_dptr_i k parent i)) ?s ?e (- 1) = Some r \<and>
     ((?s \<le> r \<and> r \<le> ?e \<and> hslot parent r = Some (k_dparent k h)
       \<and> (\<forall>j. ?s \<le> j \<longrightarrow> j < r \<longrightarrow> hslot parent j \<noteq> Some (k_dparent k h)))
     \<or> (r = - 1 \<and> (\<forall>j. ?s \<le> j \<longrightarrow> j \<le> ?e \<longrightarrow> hslot parent j \<noteq> Some (k_dparent k h))))"
    by (rule scan_up_spec) (use ok c in \<open>auto simp: parent_slot parent_ok_def\<close>)
  then obtain r where r: "au_find_dbindex k parent (k_dparent k h) = Some r"
    and c: "hslot parent r = Some (k_dparent k h)
      \<or> (r = - 1 \<and> (\<forall>j. ?s \<le> j \<longrightarrow> j \<le> ?e \<longrightarrow> hslot parent j \<noteq> Some (k_dparent k h)))"
    using ok by (auto simp: au_find_dbindex_def dbstart_def dbend_def parent_ok_def)
  show ?thesis
  proof (cases "home_of k parent h")
    case None
    then have "hslot parent r \<noteq> Some (k_dparent k h)" using home_of_iff [OF rng, of k h r] by simp
    then show ?thesis using c r None by simp
  next
    case (Some j)
    then have j: "hslot parent j = Some (k_dparent k h)" using home_of_iff [OF rng] by simp
    then have "?s \<le> j" "j \<le> ?e" using rng(1) by (auto simp: in_range_def)
    with c j rng(2) have "r = j" by (auto simp: slots_inj_def)
    then show ?thesis using r Some by simp
  qed
qed

section \<open>The loop over the slots\<close>

definition hd_inv :: "kern \<Rightarrow> aufs_dentry \<Rightarrow> aufs_dinfo \<Rightarrow> hd_loop \<Rightarrow> bool" where
  "hd_inv k0 parent dinfo l \<longleftrightarrow> parent_ok parent \<and> counted (hl_arr l) parent (hl_kern l)
     \<and> di_bend dinfo < int (length (hl_arr l)) \<and> di_bend dinfo < int (length (di_hdentry (the_di parent)))
     \<and> di_bend (the_di parent) < int (length (hl_arr l))
     \<and> k_dparent (hl_kern l) = k_dparent k0 \<and> - 1 \<le> hl_bwh l
     \<and> (di_bdiropq dinfo = - 1 \<longrightarrow> hl_bdiropq l = - 1)"

lemma dget_dput [simp]: "dput (Some p) (dget p k) = k"
  by (simp add: ref_defs)

lemma counted_dget: "counted arr parent k \<Longrightarrow> counted arr parent (dget p k)"
  by (auto simp: counted_def dget_def intro: order_trans)

lemma counted_swap:
  assumes "i < length arr" "j < length arr"
  shows "counted (arr[j := arr ! i, i := arr ! j]) parent k = counted arr parent k"
proof -
  have "mset (arr[j := arr ! i, i := arr ! j]) = mset arr" by (rule mset_swap [OF assms])
  then have "count_list (arr[j := arr ! i, i := arr ! j]) x = count_list arr x" for x
    by (metis count_mset)
  then show ?thesis by (simp add: counted_def)
qed

lemma counted_drop:
  assumes "i < length arr" "arr ! i = Some p" "counted arr parent k"
  shows "counted (arr[i := None]) parent (dput (Some p) k)"
  unfolding counted_def
proof
  fix q
  have "0 < count_list arr (Some p)" using assms(1,2) by (rule count_list_pos)
  moreover have "int (count_list arr (Some q) + count_list (di_hdentry (the_di parent)) (Some q)) \<le> k_dcount k q"
    using assms(3) by (simp add: counted_def)
  ultimately show "int (count_list (arr[i := None]) (Some q) + count_list (di_hdentry (the_di parent)) (Some q))
      \<le> k_dcount (dput (Some p) k) q"
    using assms(1,2) by (auto simp: count_list_update dput_dcount)
qed

text \<open>What a round does with a hidden dentry.\<close>

lemma hd_round_run:
  assumes inv: "hd_inv k0 parent dinfo l" and i: "0 \<le> i" "i \<le> di_bend dinfo" and h: "hl_arr l ! nat i = Some h"
  shows "hd_round parent dinfo i l =
     (if home_of k0 parent h = Some i then Some (False, l)
      else let j = (case home_of k0 parent h of None \<Rightarrow> - 1 | Some j \<Rightarrow> j);
               l = l\<lparr>hl_bwh := (if di_bwh dinfo = i then j else hl_bwh l),
                     hl_bdiropq := (if di_bdiropq dinfo = i then j else hl_bdiropq l)\<rparr>
           in case home_of k0 parent h of
                None \<Rightarrow> Some (False, l\<lparr>hl_arr := (hl_arr l)[nat i := None], hl_kern := dput (Some h) (hl_kern l)\<rparr>)
              | Some j \<Rightarrow> Some (hl_arr l ! nat j \<noteq> None,
                  l\<lparr>hl_arr := (hl_arr l)[nat j := Some h, nat i := hl_arr l ! nat j]\<rparr>))"
proof -
  let ?p = "k_dparent (hl_kern l) h" and ?arr = "hl_arr l"
  have pk: "?p = k_dparent k0 h" and ok: "parent_ok parent" using inv by (auto simp: hd_inv_def)
  have rng: "in_range parent" "slots_inj parent" using ok by (auto simp: parent_ok_def)
  have len: "nat i < length ?arr" "i < int (length ?arr)" "i < int (length (di_hdentry (the_di parent)))"
    using inv i by (auto simp: hd_inv_def)
  have c: "counted ?arr parent (dget ?p (hl_kern l))" using inv by (simp add: hd_inv_def counted_dget)
  have hm: "home_of (dget ?p (hl_kern l)) parent h = home_of k0 parent h"
    using pk by (simp add: home_of_def dget_def)
  note hs = parent_slot [OF ok c i(1) len(3)]
  have eq: "k_dparent (dget ?p (hl_kern l)) h = ?p" by (simp add: dget_def)
  note find = parent_find [OF ok c, of h, unfolded eq hm]
  have at: "hslot parent i = Some ?p \<longleftrightarrow> home_of k0 parent h = Some i"
    using home_of_iff [OF rng, of k0 h i] pk by simp
  show ?thesis
  proof (cases "home_of k0 parent h = Some i")
    case True
    then show ?thesis using len h hs at i by (simp add: hd_round_def)
  next
    case False
    show ?thesis
    proof (cases "home_of k0 parent h")
      case None
      then show ?thesis using False len h hs at i find by (simp add: hd_round_def Let_def)
    next
      case (Some j)
      then have "hslot parent j = Some (k_dparent k0 h)" using home_of_iff [OF rng] by simp
      then have "di_bstart (the_di parent) \<le> j" "j \<le> di_bend (the_di parent)" using rng by (auto simp: in_range_def)
      then have "0 \<le> j" "j < int (length ?arr)" using inv ok by (auto simp: hd_inv_def parent_ok_def)
      then show ?thesis using Some False len h hs at i find by (simp add: hd_round_def Let_def)
    qed
  qed
qed

interpretation hslots: realign hl_arr "\<lambda>_. di_bend dinfo" "home_of k0 parent" "\<lambda>h. h"
    "\<lambda>l. k_dcount (hl_kern l)" "hd_round parent dinfo" "hd_inv k0 parent dinfo"
  for k0 parent dinfo
proof
  fix l i
  assume inv: "hd_inv k0 parent dinfo l" and i: "0 \<le> i" "i \<le> di_bend dinfo"
  have len: "i < int (length (hl_arr l))" using inv i by (simp add: hd_inv_def)
  {
    assume home: "\<forall>x. hl_arr l ! nat i = Some x \<longrightarrow> home_of k0 parent x = Some i"
    have "hd_round parent dinfo i l = Some (False, l)"
    proof (cases "hl_arr l ! nat i")
      case None
      then show ?thesis using i len by (simp add: hd_round_def)
    next
      case (Some h)
      then show ?thesis using home hd_round_run [OF inv i Some] by simp
    qed
    then show "\<exists>t. hd_round parent dinfo i l = Some (False, t) \<and> hd_inv k0 parent dinfo t \<and> hl_arr t = hl_arr l
        \<and> di_bend dinfo = di_bend dinfo \<and> k_dcount (hl_kern t) = k_dcount (hl_kern l)" using inv by simp
  next
    fix x assume x: "hl_arr l ! nat i = Some x" "home_of k0 parent x = None"
    have "counted ((hl_arr l)[nat i := None]) parent (dput (Some x) (hl_kern l))"
      by (rule counted_drop) (use x len i inv in \<open>auto simp: hd_inv_def\<close>)
    then show "\<exists>t. hd_round parent dinfo i l = Some (False, t) \<and> hd_inv k0 parent dinfo t
        \<and> hl_arr t = (hl_arr l)[nat i := None] \<and> di_bend dinfo = di_bend dinfo
        \<and> (\<forall>b. k_dcount (hl_kern t) b = k_dcount (hl_kern l) b - (if x = b then 1 else 0))"
      using inv x(2) by (simp add: hd_round_run [OF inv i x(1)] hd_inv_def dput_dcount Let_def)
  next
    fix x j assume x: "hl_arr l ! nat i = Some x" "home_of k0 parent x = Some j" "j \<noteq> i"
    have rng: "in_range parent" "slots_inj parent" using inv by (auto simp: hd_inv_def parent_ok_def)
    then have "hslot parent j = Some (k_dparent k0 x)" using home_of_iff [OF rng] x(2) by simp
    then have "di_bstart (the_di parent) \<le> j" "j \<le> di_bend (the_di parent)" using rng by (auto simp: in_range_def)
    then have j: "0 \<le> j" "j < int (length (hl_arr l))" using inv by (auto simp: hd_inv_def parent_ok_def)
    have "counted ((hl_arr l)[nat j := hl_arr l ! nat i, nat i := hl_arr l ! nat j]) parent (hl_kern l)"
      by (subst counted_swap) (use len i j inv in \<open>auto simp: hd_inv_def\<close>)
    then show "0 \<le> j \<and> j < int (length (hl_arr l)) \<and>
       (\<exists>t. hd_round parent dinfo i l = Some (hl_arr l ! nat j \<noteq> None, t) \<and> hd_inv k0 parent dinfo t
          \<and> hl_arr t = (hl_arr l)[nat j := Some x, nat i := hl_arr l ! nat j]
          \<and> di_bend dinfo \<le> di_bend dinfo \<and> k_dcount (hl_kern t) = k_dcount (hl_kern l))"
      using inv x j i(1) by (simp add: hd_round_run [OF inv i x(1)] hd_inv_def Let_def)
  }
qed (simp add: hd_inv_def)

section \<open>Refreshing a dentry\<close>

lemma realloc_slots:
  assumes "in_range d" and "0 \<le> di_bstart (the_di d)" and "di_bstart (the_di d) \<le> di_bend (the_di d)"
    and "di_bend (the_di d) < int (length (di_hdentry (the_di d)))" and "0 \<le> sbend sb" and "k_ok k (k_alloc k)"
  shows "\<exists>arr k'. au_kzrealloc None (di_hdentry (the_di d)) (nat (di_bend (the_di d) + 1)) (nat (sbend sb + 1)) k
      = Some (Some arr, k') \<and> k_dcount k' = k_dcount k \<and> k_dparent k' = k_dparent k
    \<and> (\<forall>i < length arr. arr ! i = hslot d (int i)) \<and> (\<forall>i. hslot d i \<noteq> None \<longrightarrow> i < int (length arr))
    \<and> di_bend (the_di d) < int (length arr) \<and> sbend sb < int (length arr)
    \<and> (\<forall>p. count_list arr (Some p) \<le> count_list (di_hdentry (the_di d)) (Some p))"
proof (cases "sbend sb \<le> di_bend (the_di d)")
  case True
  then show ?thesis using assms
    by (intro exI [of _ "di_hdentry (the_di d)"] exI [of _ k])
      (auto simp: au_kzrealloc_def hslot_def split: if_splits)
next
  case False
  let ?xs = "di_hdentry (the_di d)" and ?n = "nat (di_bend (the_di d) + 1)" and ?m = "nat (sbend sb + 1)"
  let ?arr = "take ?n ?xs @ replicate (?m - ?n) None"
  have n: "?n \<le> length ?xs" "?n < ?m" using False assms by auto
  have c: "count_list ?arr (Some p) \<le> count_list ?xs (Some p)" for p
  proof -
    have "count_list ?xs (Some p) = count_list (take ?n ?xs) (Some p) + count_list (drop ?n ?xs) (Some p)"
      by (metis append_take_drop_id count_list_append)
    moreover have "count_list (replicate m None) (Some p) = 0" for m by (simp add: count_list_0_iff)
    ultimately show ?thesis by simp
  qed
  have s: "\<forall>i < length ?arr. ?arr ! i = hslot d (int i)"
  proof (intro allI impI)
    fix i assume i: "i < length ?arr"
    show "?arr ! i = hslot d (int i)"
    proof (cases "i < ?n")
      case True
      then show ?thesis using n by (simp add: nth_append hslot_def)
    next
      case False
      then have "hslot d (int i) = None" using assms(1) by (force simp: in_range_def)
      then show ?thesis using False i n by (simp add: nth_append)
    qed
  qed
  have "hslot d i \<noteq> None \<longrightarrow> i < int (length ?arr)" for i
    using assms(1) n by (force simp: in_range_def)
  then show ?thesis using n s c assms False
    by (intro exI [of _ ?arr] exI [of _ "kfree (snd (kmalloc k))"]) (auto simp: au_kzrealloc_def kmalloc_def kfree_def)
qed

text \<open>What a refresh relies on.\<close>

definition refresh_base :: "aufs_sb \<Rightarrow> aufs_dentry \<Rightarrow> aufs_dentry \<Rightarrow> kern \<Rightarrow> bool" where
  "refresh_base sb parent d k \<longleftrightarrow> sb_ok sb \<and> dtodi d = Some (the_di d) \<and> in_range d \<and> 0 \<le> di_bstart (the_di d)
     \<and> di_bend (the_di d) < int (length (di_hdentry (the_di d)))
     \<and> - 1 \<le> di_bwh (the_di d)
     \<and> parent_ok parent \<and> di_bend (the_di parent) \<le> sbend sb
     \<and> di_bend (the_di d) < int (length (di_hdentry (the_di parent)))
     \<and> di_generation (the_di parent) = si_generation sb
     \<and> \<not> AufsGenOlder (si_generation sb) (di_generation (the_di d))
     \<and> counted (di_hdentry (the_di d)) parent k
     \<and> (\<forall>i j a b. hslot d i = Some a \<longrightarrow> hslot d j = Some b \<longrightarrow> k_dparent k a = k_dparent k b \<longrightarrow> i = j)"

text \<open>A dentry without an opaque mark.\<close>

definition refreshable :: "aufs_sb \<Rightarrow> aufs_dentry \<Rightarrow> aufs_dentry \<Rightarrow> kern \<Rightarrow> bool" where
  "refreshable sb parent d k \<longleftrightarrow> refresh_base sb parent d k \<and> di_bdiropq (the_di d) = - 1"

lemma kept_mark_ok: "sb_ok sb \<Longrightarrow> - 1 \<le> b \<Longrightarrow> \<exists>r. kept_mark sb b = Some r \<and> (r = b \<or> r = - 1)"
  by (auto simp: kept_mark_def sbend_def sbr_is_whable_def)

lemma dtodi_range: "dtodi d = Some (the_di d) \<Longrightarrow> di_bstart (the_di d) \<le> di_bend (the_di d)"
  by (cases "d_fsdata d") (auto simp: dtodi_def the_di_def split: if_splits)

lemma lost_once:
  assumes "\<And>i j. i < length arr \<Longrightarrow> j < length arr \<Longrightarrow> arr ! i = Some p \<Longrightarrow> arr ! j = Some p \<Longrightarrow> i = j"
  shows "length (filter (lost tgt (\<lambda>h. h) p) arr) = (if Some p \<in> set arr \<and> tgt p = None then 1 else 0)"
proof -
  have l: "length (filter (lost tgt (\<lambda>h. h) p) arr) = card {i. i < length arr \<and> lost tgt (\<lambda>h. h) p (arr ! i)}"
    by (rule length_filter_conv_card)
  show ?thesis
  proof (cases "Some p \<in> set arr \<and> tgt p = None")
    case True
    then obtain i where i: "i < length arr" "arr ! i = Some p" by (auto simp: in_set_conv_nth)
    then have "{i. i < length arr \<and> lost tgt (\<lambda>h. h) p (arr ! i)} = {i}"
      using assms True by (auto simp: lost_def split: option.splits)
    then show ?thesis using l True by simp
  next
    case False
    then have "{i. i < length arr \<and> lost tgt (\<lambda>h. h) p (arr ! i)} = {}"
      by (auto simp: lost_def in_set_conv_nth split: option.splits)
    then show ?thesis unfolding l using False by (simp only: card.empty if_False)
  qed
qed

text \<open>The array at the start of the loop.\<close>

lemma refresh_start:
  assumes ok: "refresh_base sb parent d k" and mem: "k_ok k (k_alloc k)" and sb: "0 \<le> sbend sb"
  shows "\<exists>arr k1. au_kzrealloc None (di_hdentry (the_di d)) (nat (di_bend (the_di d) + 1)) (nat (sbend sb + 1)) k
      = Some (Some arr, k1) \<and> k_dcount k1 = k_dcount k \<and> k_dparent k1 = k_dparent k
    \<and> (\<forall>i < length arr. arr ! i = hslot d (int i)) \<and> (\<forall>i. hslot d i \<noteq> None \<longrightarrow> i < int (length arr))
    \<and> di_bend (the_di d) < int (length arr) \<and> sbend sb < int (length arr)
    \<and> hd_inv k parent (the_di d) \<lparr>hl_arr = arr, hl_bwh = di_bwh (the_di d), hl_bdiropq = di_bdiropq (the_di d), hl_kern = k1\<rparr>"
proof -
  let ?d = "the_di d" and ?p = "the_di parent"
  have r: "dtodi d = Some ?d" "in_range d" "0 \<le> di_bstart ?d" "di_bend ?d < int (length (di_hdentry ?d))"
    "- 1 \<le> di_bwh ?d" "parent_ok parent" "di_bend ?p \<le> sbend sb"
    "di_bend ?d < int (length (di_hdentry ?p))" "counted (di_hdentry ?d) parent k"
    using ok unfolding refresh_base_def by blast+
  obtain arr k1 where al: "au_kzrealloc None (di_hdentry ?d) (nat (di_bend ?d + 1)) (nat (sbend sb + 1)) k = Some (Some arr, k1)"
    and k1: "k_dcount k1 = k_dcount k" "k_dparent k1 = k_dparent k"
    and arr: "\<forall>i < length arr. arr ! i = hslot d (int i)" "\<forall>i. hslot d i \<noteq> None \<longrightarrow> i < int (length arr)"
      "di_bend ?d < int (length arr)" "sbend sb < int (length arr)"
      "\<And>p. count_list arr (Some p) \<le> count_list (di_hdentry ?d) (Some p)"
    using realloc_slots [OF r(2,3) dtodi_range [OF r(1)] r(4) sb mem] by metis
  have "int (count_list arr (Some p)) + int (count_list (di_hdentry ?p) (Some p)) \<le> k_dcount k p" for p
  proof -
    have "int (count_list (di_hdentry ?d) (Some p) + count_list (di_hdentry ?p) (Some p)) \<le> k_dcount k p"
      using r(9) by (simp only: counted_def)
    then show ?thesis using arr(5) [of p] by linarith
  qed
  then have "counted arr parent k1" using k1 by (simp add: counted_def)
  then have "hd_inv k parent ?d \<lparr>hl_arr = arr, hl_bwh = di_bwh ?d, hl_bdiropq = di_bdiropq ?d, hl_kern = k1\<rparr>"
    using r arr k1 by (simp add: hd_inv_def)
  then show ?thesis using al k1 arr by blast
qed

text \<open>The loop of a refresh from its start, and the array it leaves.\<close>

lemma refresh_loop:
  assumes ok: "refreshable sb parent d k" and mem: "k_ok k (k_alloc k)" and sb: "0 \<le> sbend sb"
  shows "\<exists>arr k1 l. au_kzrealloc None (di_hdentry (the_di d)) (nat (di_bend (the_di d) + 1)) (nat (sbend sb + 1)) k
      = Some (Some arr, k1)
    \<and> for_stay (hd_round parent (the_di d)) (\<lambda>_. di_bend (the_di d)) (di_bstart (the_di d))
        \<lparr>hl_arr = arr, hl_bwh = di_bwh (the_di d), hl_bdiropq = di_bdiropq (the_di d), hl_kern = k1\<rparr> = Some l
    \<and> sbend sb < int (length (hl_arr l)) \<and> - 1 \<le> hl_bwh l \<and> hl_bdiropq l = - 1
    \<and> (\<forall>j h. j < length (hl_arr l) \<longrightarrow>
         (hl_arr l ! j = Some h \<longleftrightarrow> (\<exists>i. hslot d i = Some h) \<and> home_of k parent h = Some (int j)))
    \<and> (\<forall>p. k_dcount (hl_kern l) p = k_dcount k p
          - (if (\<exists>j. hslot d j = Some p) \<and> home_of k parent p = None then 1 else 0))"
proof -
  let ?d = "the_di d" and ?p = "the_di parent"
  have r: "sb_ok sb" "dtodi d = Some ?d" "in_range d" "0 \<le> di_bstart ?d" "di_bend ?d < int (length (di_hdentry ?d))"
    "di_bdiropq ?d = - 1" "- 1 \<le> di_bwh ?d" "parent_ok parent" "di_bend ?p \<le> sbend sb"
    "di_bend ?d < int (length (di_hdentry ?p))" "counted (di_hdentry ?d) parent k"
    and inj: "\<And>i j a b. hslot d i = Some a \<Longrightarrow> hslot d j = Some b \<Longrightarrow> k_dparent k a = k_dparent k b \<Longrightarrow> i = j"
    using ok unfolding refreshable_def refresh_base_def by blast+
  have le: "di_bstart ?d \<le> di_bend ?d" using dtodi_range [OF r(2)] .
  obtain arr k1 where al: "au_kzrealloc None (di_hdentry ?d) (nat (di_bend ?d + 1)) (nat (sbend sb + 1)) k = Some (Some arr, k1)"
    and k1: "k_dcount k1 = k_dcount k" "k_dparent k1 = k_dparent k"
    and arr: "\<And>i. i < length arr \<Longrightarrow> arr ! i = hslot d (int i)" "\<And>i. hslot d i \<noteq> None \<Longrightarrow> i < int (length arr)"
      "di_bend ?d < int (length arr)" "sbend sb < int (length arr)"
    and inv: "hd_inv k parent ?d \<lparr>hl_arr = arr, hl_bwh = di_bwh ?d, hl_bdiropq = di_bdiropq ?d, hl_kern = k1\<rparr>"
    using refresh_start [OF _ mem sb] ok unfolding refreshable_def by blast
  let ?l = "\<lparr>hl_arr = arr, hl_bwh = di_bwh ?d, hl_bdiropq = di_bdiropq ?d, hl_kern = k1\<rparr>"
  have set: "Some h \<in> set arr \<longleftrightarrow> (\<exists>i. hslot d i = Some h)" for h
  proof
    assume "Some h \<in> set arr"
    then show "\<exists>i. hslot d i = Some h" using arr(1) by (auto simp: in_set_conv_nth)
  next
    assume "\<exists>i. hslot d i = Some h"
    then obtain i where i: "hslot d i = Some h" ..
    then have "0 \<le> i" "i < int (length arr)" using arr(2) by (auto simp: hslot_def split: if_splits)
    then show "Some h \<in> set arr" using arr(1) [of "nat i"] i by (metis nat_less_iff int_nat_eq nth_mem)
  qed
  have "hd_inv k parent ?d ?l" by (rule inv)
  moreover have "distinct (keys (home_of k parent) arr)"
  proof (rule keys_distinctI)
    fix i j x y assume ij: "i < j" "j < length arr" "arr ! i = Some x" "arr ! j = Some y" "home_of k parent x \<noteq> None"
    show "home_of k parent x \<noteq> home_of k parent y"
    proof
      assume "home_of k parent x = home_of k parent y"
      with ij(5) obtain m where "home_of k parent x = Some m" "home_of k parent y = Some m" by auto
      then have "k_dparent k x = k_dparent k y"
        using home_of_iff [of parent k _ m] r(8) by (simp add: parent_ok_def)
      moreover have "hslot d (int i) = Some x" "hslot d (int j) = Some y" using ij arr(1) by auto
      ultimately show False using inj [of "int i" x "int j" y] ij(1) by simp
    qed
  qed
  moreover have "arr ! j = None" if "j < length arr" "int j < di_bstart ?d \<or> di_bend ?d < int j" for j
    using arr(1) [OF that(1)] that(2) r(3) by (force simp: in_range_def)
  ultimately obtain l where run: "for_stay (hd_round parent ?d) (\<lambda>_. di_bend ?d) (di_bstart ?d) ?l = Some l"
    and l: "hd_inv k parent ?d l" "length (hl_arr l) = length arr"
      "\<forall>j h. j < length arr \<longrightarrow> (hl_arr l ! j = Some h \<longleftrightarrow> Some h \<in> set arr \<and> home_of k parent h = Some (int j))"
      "\<forall>p. k_dcount (hl_kern l) p = k_dcount k1 p - int (length (filter (lost (home_of k parent) (\<lambda>h. h) p) arr))"
    using hslots.realigned [of k parent ?d ?l "di_bstart ?d"] r(4) le arr(3) by auto
  have once: "length (filter (lost (home_of k parent) (\<lambda>h. h) p) arr)
      = (if Some p \<in> set arr \<and> home_of k parent p = None then 1 else 0)" for p
  proof (rule lost_once)
    fix i j assume ij: "i < length arr" "j < length arr" "arr ! i = Some p" "arr ! j = Some p"
    then have "hslot d (int i) = Some p" "hslot d (int j) = Some p" using arr(1) by auto
    then have "int i = int j" by (rule inj) simp
    then show "i = j" by simp
  qed
  have "\<forall>p. k_dcount (hl_kern l) p = k_dcount k p
      - (if (\<exists>j. hslot d j = Some p) \<and> home_of k parent p = None then 1 else 0)"
    using l(4) by (simp add: once set k1)
  then show ?thesis
    using al run l(1,2,3) arr(4) r(6)
    by (intro exI [of _ arr] exI [of _ k1] exI [of _ l]) (simp add: set hd_inv_def)
qed

text \<open>The slots of an array as those of a dentry are read, and the range the scans find.\<close>

definition aslot :: "'a option list \<Rightarrow> int \<Rightarrow> 'a option" where
  "aslot arr i = (if 0 \<le> i \<and> i < int (length arr) then arr ! nat i else None)"

lemma refresh_range:
  assumes n: "0 \<le> n" "n < int (length arr)"
    and first: "0 \<le> b" "aslot arr b \<noteq> None" and home: "\<And>i. aslot arr i \<noteq> None \<Longrightarrow> b \<le> i \<and> i \<le> n"
  shows "scan_up (slot_used arr) 0 n db = Some b
    \<and> (\<exists>e. scan_down (slot_used arr) n 0 de = Some e \<and> b \<le> e \<and> aslot arr e \<noteq> None
         \<and> (\<forall>i. aslot arr i \<noteq> None \<longrightarrow> b \<le> i \<and> i \<le> e))"
proof
  have used: "slot_used arr i = Some (aslot arr i \<noteq> None)" if "0 \<le> i" "i \<le> n" for i
    using that n by (simp add: slot_used_def aslot_def)
  have "\<exists>r. scan_up (slot_used arr) 0 n db = Some r \<and>
      ((0 \<le> r \<and> r \<le> n \<and> aslot arr r \<noteq> None \<and> (\<forall>j. 0 \<le> j \<longrightarrow> j < r \<longrightarrow> \<not> aslot arr j \<noteq> None)) \<or>
      (r = db \<and> (\<forall>j. 0 \<le> j \<longrightarrow> j \<le> n \<longrightarrow> \<not> aslot arr j \<noteq> None)))"
    by (rule scan_up_spec) (rule used)
  then obtain r where r: "scan_up (slot_used arr) 0 n db = Some r" "aslot arr r \<noteq> None"
    "\<forall>j. 0 \<le> j \<longrightarrow> j < r \<longrightarrow> aslot arr j = None" using first home by metis
  then have "r = b" using home [OF r(2)] first by (metis antisym_conv1 not_less)
  with r show "scan_up (slot_used arr) 0 n db = Some b" by simp
  have "\<exists>e. scan_down (slot_used arr) n 0 de = Some e \<and>
      ((0 \<le> e \<and> e \<le> n \<and> aslot arr e \<noteq> None \<and> (\<forall>j. e < j \<longrightarrow> j \<le> n \<longrightarrow> \<not> aslot arr j \<noteq> None)) \<or>
      (e = de \<and> (\<forall>j. 0 \<le> j \<longrightarrow> j \<le> n \<longrightarrow> \<not> aslot arr j \<noteq> None)))"
    by (rule scan_down_spec) (rule used)
  then obtain e where e: "scan_down (slot_used arr) n 0 de = Some e" "aslot arr e \<noteq> None"
    "\<forall>j. e < j \<longrightarrow> j \<le> n \<longrightarrow> aslot arr j = None" using first home by metis
  then show "\<exists>e. scan_down (slot_used arr) n 0 de = Some e \<and> b \<le> e \<and> aslot arr e \<noteq> None
      \<and> (\<forall>i. aslot arr i \<noteq> None \<longrightarrow> b \<le> i \<and> i \<le> e)"
    using home by (intro exI [of _ e]) (meson not_less)
qed

text \<open>C6.
  Refreshing a dentry that is not a directory, when its first branch is the one of the
  parent's: the loop ends; afterwards every hidden dentry is at the index its parent has
  in the parent directory, the ones whose branch is gone have been released once and
  no other reference has changed; the range is exactly the slots in use, and the
  dentry is of the current generation.
\<close>

theorem au_refresh_hdentry_realigns:
  assumes ok: "refreshable sb parent d k" and mem: "k_ok k (k_alloc k)" and ty: "type \<noteq> S_IFDIR"
    and top: "hslot d m = Some hm" "home_of k parent hm = Some (di_bstart (the_di parent))"
  shows "\<exists>d' k'. au_refresh_hdentry vf sb parent d name type k = Some (0, d', k')
    \<and> (\<forall>i h. hslot d' i = Some h \<longleftrightarrow> (\<exists>j. hslot d j = Some h) \<and> home_of k parent h = Some i)
    \<and> (\<forall>p. k_dcount k' p = k_dcount k p
          - (if (\<exists>j. hslot d j = Some p) \<and> home_of k parent p = None then 1 else 0))
    \<and> di_bstart (the_di d') = di_bstart (the_di parent) \<and> in_range d'
    \<and> hslot d' (di_bend (the_di d')) \<noteq> None
    \<and> di_generation (the_di d') = si_generation sb"
proof -
  let ?d = "the_di d" and ?p = "the_di parent"
  have r: "sb_ok sb" "dtodi d = Some ?d" "parent_ok parent" "di_bend ?p \<le> sbend sb"
    "di_generation ?p = si_generation sb" "\<not> AufsGenOlder (si_generation sb) (di_generation ?d)"
    using ok unfolding refreshable_def refresh_base_def by blast+
  have pp: "dtodi parent = Some ?p" "0 \<le> di_bstart ?p" "in_range parent" "slots_inj parent"
    using r(3) by (auto simp: parent_ok_def)
  have sb: "0 \<le> sbend sb" "0 \<le> di_bend ?p" using dtodi_range [OF pp(1)] pp(2) r(4) by simp_all
  obtain arr k1 l where run:
    "au_kzrealloc None (di_hdentry ?d) (nat (di_bend ?d + 1)) (nat (sbend sb + 1)) k = Some (Some arr, k1)"
    "for_stay (hd_round parent ?d) (\<lambda>_. di_bend ?d) (di_bstart ?d)
        \<lparr>hl_arr = arr, hl_bwh = di_bwh ?d, hl_bdiropq = di_bdiropq ?d, hl_kern = k1\<rparr> = Some l"
    and l: "sbend sb < int (length (hl_arr l))" "- 1 \<le> hl_bwh l" "hl_bdiropq l = - 1"
      "\<And>j h. j < length (hl_arr l) \<Longrightarrow>
         (hl_arr l ! j = Some h \<longleftrightarrow> (\<exists>i. hslot d i = Some h) \<and> home_of k parent h = Some (int j))"
    and cnt: "\<forall>p. k_dcount (hl_kern l) p = k_dcount k p
          - (if (\<exists>j. hslot d j = Some p) \<and> home_of k parent p = None then 1 else 0)"
    using refresh_loop [OF ok mem sb(1)] by blast
  obtain w where w: "kept_mark sb (hl_bwh l) = Some w" using kept_mark_ok [OF r(1) l(2)] by blast
  have at: "di_bstart ?p \<le> i \<and> i \<le> di_bend ?p" if "home_of k parent h = Some i" for i h
    using home_of_iff [OF pp(3,4)] that pp(3) by (force simp: in_range_def)
  have slot: "aslot (hl_arr l) i = Some h \<longleftrightarrow> (\<exists>j. hslot d j = Some h) \<and> home_of k parent h = Some i" for i h
  proof -
    have "home_of k parent h = Some i \<Longrightarrow> 0 \<le> i \<and> i < int (length (hl_arr l))"
      using at l(1) r(4) pp(2) by fastforce
    then show ?thesis
      using l(4) [of "nat i" h] by (cases "0 \<le> i \<and> i < int (length (hl_arr l))") (auto simp: aslot_def)
  qed
  have first: "aslot (hl_arr l) (di_bstart ?p) \<noteq> None" using slot top by (metis option.distinct(1))
  have home: "di_bstart ?p \<le> i \<and> i \<le> di_bend ?p" if "aslot (hl_arr l) i \<noteq> None" for i
    using at slot that by (metis option.exhaust)
  have "di_bend ?p < int (length (hl_arr l))" using l(1) r(4) by simp
  from refresh_range [OF sb(2) this pp(2) first home, of "di_bstart ?d" "di_bend ?d"] obtain e where
    b: "scan_up (slot_used (hl_arr l)) 0 (di_bend ?p) (di_bstart ?d) = Some (di_bstart ?p)"
    and e: "scan_down (slot_used (hl_arr l)) (di_bend ?p) 0 (di_bend ?d) = Some e" "di_bstart ?p \<le> e"
      "aslot (hl_arr l) e \<noteq> None" "\<And>i. aslot (hl_arr l) i \<noteq> None \<Longrightarrow> di_bstart ?p \<le> i \<and> i \<le> e"
    by blast
  let ?di = "?d\<lparr>di_bstart := di_bstart ?p, di_bend := e, di_bwh := w, di_bdiropq := - 1, di_hdentry := hl_arr l\<rparr>"
  let ?d' = "d\<lparr>d_fsdata := Some (?di\<lparr>di_generation := si_generation sb\<rparr>)\<rparr>"
  have "au_update_digen sb (d\<lparr>d_fsdata := Some ?di\<rparr>) = Some ?d'"
    using e(2) by (simp add: au_update_digen_def upd_di_def dtodi_def)
  then have "au_refresh_hdentry vf sb parent d name type k = Some (0, ?d', hl_kern l)"
    using r pp run w b e(1) l(3) ty
    by (simp add: au_refresh_hdentry_def au_digen_def kept_mark_def [of sb "- 1"] dbend_def dbstart_def AufsGenOlder_def Let_def)
  moreover have hs: "hslot ?d' i = aslot (hl_arr l) i" for i by (simp add: hslot_def aslot_def)
  moreover have "in_range ?d'" using e(4) by (simp add: in_range_def hs del: not_None_eq)
  ultimately show ?thesis
    using slot cnt e(3) by (intro exI [of _ ?d'] exI [of _ "hl_kern l"]) simp
qed

text \<open>A dentry of branches 0 and 2; branch 0 is gone and branch 2 has become the first one.\<close>

definition old_dentry :: aufs_dentry where
  "old_dentry = \<lparr>d_fsdata = Some \<lparr>di_generation = 0, di_bstart = 0, di_bend = 2, di_bwh = - 1,
     di_bdiropq = - 1, di_hdentry = [Some 20, None, Some 22], di_reval = 0\<rparr>, d_imode = Some 0x8000\<rparr>"

definition new_parent :: aufs_dentry where
  "new_parent = \<lparr>d_fsdata = Some \<lparr>di_generation = 1, di_bstart = 0, di_bend = 1, di_bwh = - 1,
     di_bdiropq = - 1, di_hdentry = [Some 12, Some 11, None], di_reval = 0\<rparr>, d_imode = Some 0x4000\<rparr>"

definition kern_p :: kern where
  "kern_p = kern0\<lparr>k_dparent := (\<lambda>d. d - 10)\<rparr>"

theorem au_refresh_hdentry_realigns_witness:
  "\<exists>d' k'. au_refresh_hdentry vfs0 ((sb0 2)\<lparr>si_generation := 1\<rparr>) new_parent old_dentry [97] 0x8000 kern_p = Some (0, d', k')
     \<and> hslot d' 0 = Some 22 \<and> k_dcount k' 20 = 0"
proof -
  have sl: "hslot new_parent i = (if i = 0 then Some 12 else if i = 1 then Some 11 else None)"
    "hslot old_dentry i = (if i = 0 then Some 20 else if i = 2 then Some 22 else None)" for i
    by (auto simp: hslot_def new_parent_def old_dentry_def the_di_def nth_Cons' numeral_2_eq_2)
  have ho: "home_of kern_p new_parent 20 = None" "home_of kern_p new_parent 22 = Some 0"
    by (simp_all add: home_of_def sl kern_p_def) (simp_all add: new_parent_def the_di_def upto.simps)
  have di: "the_di old_dentry = \<lparr>di_generation = 0, di_bstart = 0, di_bend = 2, di_bwh = - 1,
      di_bdiropq = - 1, di_hdentry = [Some 20, None, Some 22], di_reval = 0\<rparr>"
    "the_di new_parent = \<lparr>di_generation = 1, di_bstart = 0, di_bend = 1, di_bwh = - 1,
      di_bdiropq = - 1, di_hdentry = [Some 12, Some 11, None], di_reval = 0\<rparr>"
    by (simp_all add: old_dentry_def new_parent_def the_di_def)
  have "parent_ok new_parent"
    unfolding parent_ok_def in_range_def slots_inj_def sl di by (simp add: dtodi_def new_parent_def)
  moreover have "counted [Some 20, None, Some 22] new_parent kern_p"
    unfolding counted_def di by (simp add: kern_p_def kern0_def)
  moreover have "AufsGenOlder 1 0 = False" by (simp add: AufsGenOlder_def AufsGenYounger_def)
  ultimately have ok: "refreshable ((sb0 2)\<lparr>si_generation := 1\<rparr>) new_parent old_dentry kern_p"
    unfolding refreshable_def refresh_base_def in_range_def sl di
    by (auto simp: dtodi_def old_dentry_def sb0_def sb_ok_def AUFS_BRANCH_MAX_def sbend_def kern_p_def split: if_splits)
  have mem: "k_ok kern_p (k_alloc kern_p)" and top: "hslot old_dentry 2 = Some 22"
    and cnt: "k_dcount kern_p 20 = 1" by (simp_all add: kern_p_def kern0_def sl)
  have "home_of kern_p new_parent 22 = Some (di_bstart (the_di new_parent))" using ho di by simp
  from au_refresh_hdentry_realigns [OF ok mem _ top this, of "0x8000" vfs0 "[97]"] obtain d' k' where
    "au_refresh_hdentry vfs0 ((sb0 2)\<lparr>si_generation := 1\<rparr>) new_parent old_dentry [97] 0x8000 kern_p = Some (0, d', k')"
    "\<forall>i h. hslot d' i = Some h \<longleftrightarrow> (\<exists>j. hslot old_dentry j = Some h) \<and> home_of kern_p new_parent h = Some i"
    "\<forall>p. k_dcount k' p = k_dcount kern_p p
          - (if (\<exists>j. hslot old_dentry j = Some p) \<and> home_of kern_p new_parent p = None then 1 else 0)"
    by (auto simp: S_IFDIR_def)
  moreover have "\<exists>j. hslot old_dentry j = Some 20" "\<exists>j. hslot old_dentry j = Some 22"
    by (rule exI [of _ 0], simp add: sl) (rule exI [of _ 2], simp add: sl)
  ultimately show ?thesis using ho cnt by (intro exI [of _ d'] exI [of _ k']) simp
qed

section \<open>A branch added at the top\<close>

text \<open>The hidden directories \<open>h\<close> of the slots from \<open>m\<close> to \<open>n\<close> belong one slot further.\<close>

definition one_down :: "aufs_dentry \<Rightarrow> aufs_dentry \<Rightarrow> (int \<Rightarrow> nat) \<Rightarrow> int \<Rightarrow> int \<Rightarrow> kern \<Rightarrow> bool" where
  "one_down parent d h m n k \<longleftrightarrow>
     (\<forall>i. hslot d i = (if m \<le> i \<and> i \<le> n then Some (h i) else None))
     \<and> (\<forall>i. hslot parent i = (if m < i \<and> i \<le> n + 1 then Some (k_dparent k (h (i - 1))) else None))"

text \<open>The array after \<open>t\<close> swaps at slot \<open>m\<close>.\<close>

definition swapped :: "(int \<Rightarrow> nat) \<Rightarrow> int \<Rightarrow> int \<Rightarrow> int \<Rightarrow> int \<Rightarrow> nat option" where
  "swapped h m n t i = (if i = m then (if m + t \<le> n then Some (h (m + t)) else None)
     else if m < i \<and> i \<le> m + t then Some (h (i - 1))
     else if m + t < i \<and> i \<le> n then Some (h i) else None)"

lemma swap_round:
  assumes inv: "hd_inv k0 parent dinfo l" and m: "0 \<le> m" "m \<le> di_bend dinfo"
    and arr: "\<forall>i < length (hl_arr l). hl_arr l ! i = swapped h m n t (int i)"
    and len: "n + 1 < int (length (hl_arr l))" and t: "0 \<le> t" "m + t \<le> n"
    and home: "home_of k0 parent (h (m + t)) = Some (m + t + 1)"
    and mk: "di_bwh dinfo \<noteq> m" "di_bdiropq dinfo \<noteq> m"
  shows "\<exists>l'. hd_round parent dinfo m l = Some (m + t + 1 \<le> n, l') \<and> hd_inv k0 parent dinfo l'
     \<and> length (hl_arr l') = length (hl_arr l) \<and> (\<forall>i < length (hl_arr l'). hl_arr l' ! i = swapped h m n (t + 1) (int i))
     \<and> hl_bwh l' = hl_bwh l \<and> hl_bdiropq l' = hl_bdiropq l \<and> hl_kern l' = hl_kern l"
proof -
  let ?a = "hl_arr l" and ?j = "m + t + 1"
  have am: "?a ! nat m = Some (h (m + t))" using arr m t len by (simp add: swapped_def)
  have aj: "?a ! nat ?j = (if ?j \<le> n then Some (h ?j) else None)" using arr m t len by (simp add: swapped_def)
  have ln: "nat m < length ?a" "nat ?j < length ?a" using m t len by auto
  let ?b = "?a[nat ?j := Some (h (m + t)), nat m := ?a ! nat ?j]"
  have "counted ?b parent (hl_kern l) = counted ?a parent (hl_kern l)"
    using counted_swap [OF ln] am by simp
  then have iv: "hd_inv k0 parent dinfo (l\<lparr>hl_arr := ?b\<rparr>)" using inv by (simp add: hd_inv_def)
  have b: "?b ! i = swapped h m n (t + 1) (int i)" if "i < length ?a" for i
  proof -
    have ne: "nat m \<noteq> nat ?j" using m t by auto
    consider "i = nat m" | "i = nat ?j" | "i \<noteq> nat m" "i \<noteq> nat ?j" by blast
    then show ?thesis
    proof cases
      case 1
      then show ?thesis using aj ln m t by (simp add: swapped_def add.assoc)
    next
      case 2
      then show ?thesis using ne ln m t by (simp add: swapped_def)
    next
      case 3
      then have "?b ! i = swapped h m n t (int i)" "int i \<noteq> m" "int i \<noteq> ?j" using arr that by auto
      then show ?thesis by (auto simp: swapped_def)
    qed
  qed
  show ?thesis
    by (intro exI [of _ "l\<lparr>hl_arr := ?b\<rparr>"])
      (use hd_round_run [OF inv m am] home mk iv b t in \<open>simp add: aj Let_def\<close>)
qed

lemma swap_chain:
  assumes "hd_inv k0 parent dinfo l" and m: "0 \<le> m" "n = di_bend dinfo"
    and "\<forall>i < length (hl_arr l). hl_arr l ! i = swapped h m n t (int i)"
    and "n + 1 < int (length (hl_arr l))" and t: "0 \<le> t" "m + t \<le> n"
    and home: "\<And>i. m \<le> i \<Longrightarrow> i \<le> n \<Longrightarrow> home_of k0 parent (h i) = Some (i + 1)"
    and mk: "di_bwh dinfo \<noteq> m" "di_bdiropq dinfo \<noteq> m"
  shows "\<exists>l'. for_stay (hd_round parent dinfo) (\<lambda>_. n) m l = for_stay (hd_round parent dinfo) (\<lambda>_. n) (m + 1) l'
     \<and> hd_inv k0 parent dinfo l' \<and> length (hl_arr l') = length (hl_arr l)
     \<and> (\<forall>i < length (hl_arr l'). hl_arr l' ! i = swapped h m n (n - m + 1) (int i))
     \<and> hl_bwh l' = hl_bwh l \<and> hl_bdiropq l' = hl_bdiropq l \<and> hl_kern l' = hl_kern l"
  using assms(1,4,5,6,7)
proof (induction "nat (n - m - t)" arbitrary: t l)
  case 0
  then have t: "m + t = n" by simp
  have "home_of k0 parent (h (m + t)) = Some (m + t + 1)" "m \<le> di_bend dinfo" using home [of n] 0 t m by simp_all
  from swap_round [OF 0(2) m(1) this(2) 0(3,4,5,6) this(1) mk] obtain l' where
    "hd_round parent dinfo m l = Some (False, l')" "hd_inv k0 parent dinfo l'" "length (hl_arr l') = length (hl_arr l)"
    "\<forall>i < length (hl_arr l'). hl_arr l' ! i = swapped h m n (t + 1) (int i)"
    "hl_bwh l' = hl_bwh l" "hl_bdiropq l' = hl_bdiropq l" "hl_kern l' = hl_kern l" using t by auto
  moreover have "t + 1 = n - m + 1" using t by simp
  ultimately show ?case using 0 by (intro exI [of _ l']) (subst for_stay.simps, simp)
next
  case (Suc x)
  then have t: "m + t + 1 \<le> n" by simp
  have "home_of k0 parent (h (m + t)) = Some (m + t + 1)" "m \<le> di_bend dinfo" using home [of "m + t"] Suc m by simp_all
  from swap_round [OF Suc.prems(1) m(1) this(2) Suc.prems(2-5) this(1) mk] obtain u where
    u: "hd_round parent dinfo m l = Some (True, u)" "hd_inv k0 parent dinfo u" "length (hl_arr u) = length (hl_arr l)"
    "\<forall>i < length (hl_arr u). hl_arr u ! i = swapped h m n (t + 1) (int i)"
    "hl_bwh u = hl_bwh l" "hl_bdiropq u = hl_bdiropq l" "hl_kern u = hl_kern l" using t by auto
  have x: "x = nat (n - m - (t + 1))" "n + 1 < int (length (hl_arr u))" "0 \<le> t + 1" "m + (t + 1) \<le> n"
    using Suc u t by simp_all
  have "for_stay (hd_round parent dinfo) (\<lambda>_. n) m l = for_stay (hd_round parent dinfo) (\<lambda>_. n) m u"
    using u(1) t Suc.prems(4) by (subst for_stay.simps) simp
  with Suc.hyps(1) [OF x(1) u(2,4) x(2,3,4)] u show ?case by simp
qed

lemma shifted_loop:
  assumes inv: "hd_inv k0 parent dinfo l" and m: "0 \<le> m" "m \<le> n" "n = di_bend dinfo"
    and arr: "\<forall>i < length (hl_arr l). hl_arr l ! i = (if m \<le> int i \<and> int i \<le> n then Some (h (int i)) else None)"
    and len: "n + 1 < int (length (hl_arr l))"
    and home: "\<And>i. m \<le> i \<Longrightarrow> i \<le> n \<Longrightarrow> home_of k0 parent (h i) = Some (i + 1)"
    and mk: "di_bwh dinfo \<noteq> m" "di_bdiropq dinfo \<noteq> m"
  shows "\<exists>l'. for_stay (hd_round parent dinfo) (\<lambda>_. di_bend dinfo) m l = Some l'
     \<and> length (hl_arr l') = length (hl_arr l)
     \<and> (\<forall>i < length (hl_arr l'). hl_arr l' ! i = (if m < int i \<and> int i \<le> n + 1 then Some (h (int i - 1)) else None))
     \<and> hl_bwh l' = hl_bwh l \<and> hl_bdiropq l' = hl_bdiropq l \<and> hl_kern l' = hl_kern l"
proof -
  have "\<forall>i < length (hl_arr l). hl_arr l ! i = swapped h m n 0 (int i)" using arr m by (simp add: swapped_def)
  from swap_chain [OF inv m(1,3) this len _ _ home mk] m obtain u where
    u: "for_stay (hd_round parent dinfo) (\<lambda>_. n) m l = for_stay (hd_round parent dinfo) (\<lambda>_. n) (m + 1) u"
      "hd_inv k0 parent dinfo u" "length (hl_arr u) = length (hl_arr l)"
      "\<forall>i < length (hl_arr u). hl_arr u ! i = swapped h m n (n - m + 1) (int i)"
      "hl_bwh u = hl_bwh l" "hl_bdiropq u = hl_bdiropq l" "hl_kern u = hl_kern l" by auto
  have a: "\<forall>i < length (hl_arr u). hl_arr u ! i = (if m < int i \<and> int i \<le> n + 1 then Some (h (int i - 1)) else None)"
    using u(4) by (auto simp: swapped_def)
  have "\<exists>t. for_stay (hd_round parent dinfo) (\<lambda>_. n) (m + 1) u = Some t \<and> t = u"
  proof (rule for_stay_rule [where I = "\<lambda>j t. m < j \<and> t = u" and m = "\<lambda>j t. nat (n + 1 - j)"])
    fix j t assume j: "m < j \<and> t = u" "j \<le> n"
    then have x: "hl_arr u ! nat j = Some (h (j - 1))" "0 \<le> j" "j \<le> di_bend dinfo" using a u(3) len m by auto
    have "hd_round parent dinfo j u = Some (False, u)"
      using hd_round_run [OF u(2) x(2,3,1)] home [of "j - 1"] j by simp
    then show "\<exists>c v. hd_round parent dinfo j t = Some (c, v) \<and> (m < (if c then j else j + 1) \<and> v = u)
        \<and> nat (n + 1 - (if c then j else j + 1)) < nat (n + 1 - j)" using j by (intro exI [of _ False] exI [of _ u]) simp
  qed simp_all
  with u a m(3) show ?thesis by (intro exI [of _ u]) simp
qed

lemma kzrealloc_frame:
  "au_kzrealloc z xs a b k = Some (p, k') \<Longrightarrow> k_dinode k' = k_dinode k \<and> k_ok k' = k_ok k"
  by (auto simp: au_kzrealloc_def kmalloc_def kfree_def Let_def split: if_splits)

text \<open>Looking a directory up again when all its slots are filled changes nothing.\<close>

lemma lkup_dentry_filled:
  assumes d: "dtodi d = Some di" and len: "di_bend di < int (length (di_hdentry di))"
    and sl: "\<And>i. di_bstart di \<le> i \<Longrightarrow> i \<le> di_bend di \<Longrightarrow>
       \<exists>p. di_hdentry di ! nat i = Some p \<and> 0 < k_dcount k p \<and> k_dinode k p \<noteq> None"
    and r: "0 \<le> di_bstart di" "di_bstart di \<le> sbend sb"
    and tail: "dbtaildir parent = Some (di_bend di)"
    and name: "name \<noteq> []" "take AUFS_WH_LEN name \<noteq> AUFS_WH_PFX" "length name \<le> PATH_MAX - AUFS_WH_LEN"
    and mem: "k_ok k (k_alloc k)"
  shows "lkup_dentry vf sb parent d name (di_bstart di) S_IFDIR k
     = Some (di_bend di - di_bstart di + 1, d, kfree (snd (kmalloc k)))"
proof -
  let ?k = "snd (kmalloc k)" and ?b = "di_bstart di" and ?e = "di_bend di"
  have le: "?b \<le> ?e" using d by (auto simp: dtodi_def run_simps split: if_splits)
  have km: "k_dcount ?k = k_dcount k" "k_dinode ?k = k_dinode k" by (simp_all add: kmalloc_def)
  have at: "\<exists>p. au_h_dptr_i ?k d i = Some (Some p) \<and> k_dinode ?k p \<noteq> None" if "?b \<le> i" "i \<le> ?e" for i
    using sl [OF that] that d len r by (auto simp: au_h_dptr_i_def km)
  let ?l = "\<lambda>n. \<lparr>ll_dentry = d, ll_kern = ?k, ll_npos = n, ll_neg = (S_IFDIR = 0), ll_type = S_IFDIR, ll_err = None\<rparr>"
  have "\<exists>t. for_up (lkup_body vf sb parent name (AUFS_WH_PFX @ name)) ?b ?e (?l 0) = Some t \<and> t = ?l (?e + 1 - ?b)"
  proof (rule for_up_total [where I = "\<lambda>j t. t = ?l (j - ?b)"])
    fix j t assume j: "?b \<le> j" "j \<le> ?e" "t = ?l (j - ?b)"
    from at [OF j(1,2)] show "\<exists>u. lkup_body vf sb parent name (AUFS_WH_PFX @ name) j t = Some (True, u) \<and> u = ?l (j + 1 - ?b)"
      by (auto simp: lkup_body_def j(3))
  qed (use le in simp_all)
  moreover have "au_update_dbstart sb d ?k = Some (d, ?k)"
  proof -
    have "set_dbstart sb d ?b = Some d"
      using d r by (cases d) (auto simp: set_dbstart_def upd_di_def dtodi_def run_simps split: if_splits)
    then show ?thesis
      using at [of ?b] le d by (auto simp: au_update_dbstart_def dbstart_def dbend_def for_up_step dbstart_body_def)
  qed
  ultimately show ?thesis
    using r name mem tail le
    by (simp add: lkup_dentry_def au_alloc_whname_def au_free_whname_def Let_def kmalloc_def split: prod.split)
qed

text \<open>C8.
  The opaque mark does not follow its directory: the loop compares the mark with the index it stands
  at, but a directory that was swapped away from its slot is moved on from another one. Let a
  directory have hidden directories in all slots from \<open>m\<close> to \<open>n\<close>, the one at \<open>c\<close> marked as opaque, with
  another one above it. When a branch without this directory's parent is added on top of them, every
  hidden directory moves one slot down, but the mark stays at \<open>c\<close>. The listing now ends there, in
  front of the opaque directory, whose entries are lost.
\<close>

theorem au_refresh_hdentry_stale_opq:
  assumes ok: "refresh_base sb parent d k" and sh: "one_down parent d h m n k"
    and rng: "di_bstart (the_di d) = m" "di_bend (the_di d) = n"
      "di_bstart (the_di parent) = m + 1" "di_bend (the_di parent) = n + 1"
    and marks: "di_bwh (the_di d) = - 1" "di_bdiropq (the_di d) = c" "m < c" "c \<le> n" "sbr_is_whable sb c = Some True"
    and dirs: "d_imode d = Some dm" "S_ISDIR dm" "dbtaildir parent = Some (n + 1)"
    and pos: "\<And>i. m \<le> i \<Longrightarrow> i \<le> n \<Longrightarrow> k_dinode k (h i) \<noteq> None"
    and name: "name \<noteq> []" "take AUFS_WH_LEN name \<noteq> AUFS_WH_PFX" "length name \<le> PATH_MAX - AUFS_WH_LEN"
    and mem: "\<forall>i. k_ok k i"
  shows "\<exists>d' k'. au_refresh_hdentry vf sb parent d name S_IFDIR k = Some (n - m + 1, d', k')
    \<and> hslot d c = Some (h c) \<and> hslot d' (c + 1) = Some (h c)
    \<and> di_bdiropq (the_di d') = c \<and> dbtaildir d' = Some c"
proof -
  let ?d = "the_di d" and ?p = "the_di parent"
  have r: "sb_ok sb" "dtodi d = Some ?d" "0 \<le> m" "parent_ok parent" "n + 1 \<le> sbend sb"
    "di_generation ?p = si_generation sb" "\<not> AufsGenOlder (si_generation sb) (di_generation ?d)"
    using ok rng unfolding refresh_base_def by auto
  have pp: "dtodi parent = Some ?p" "in_range parent" "slots_inj parent" using r(4) by (auto simp: parent_ok_def)
  have mn: "m \<le> n" using marks by simp
  have sl: "hslot d i = (if m \<le> i \<and> i \<le> n then Some (h i) else None)"
    and ps: "hslot parent i = (if m < i \<and> i \<le> n + 1 then Some (k_dparent k (h (i - 1))) else None)" for i
    using sh by (simp_all add: one_down_def)
  have home: "home_of k parent (h i) = Some (i + 1)" if "m \<le> i" "i \<le> n" for i
    using home_of_iff [OF pp(2,3)] ps [of "i + 1"] that by simp
  obtain arr k1 where al: "au_kzrealloc None (di_hdentry ?d) (nat (di_bend ?d + 1)) (nat (sbend sb + 1)) k = Some (Some arr, k1)"
    and k1: "k_dcount k1 = k_dcount k"
    and arr: "\<forall>i < length arr. arr ! i = hslot d (int i)" "sbend sb < int (length arr)"
    and inv: "hd_inv k parent ?d \<lparr>hl_arr = arr, hl_bwh = di_bwh ?d, hl_bdiropq = di_bdiropq ?d, hl_kern = k1\<rparr>"
    using refresh_start [OF ok] mem r(3,5) mn by auto
  note kf = kzrealloc_frame [OF al]
  have cp: "0 < k_dcount k (h i)" if "m \<le> i" "i \<le> n" for i
  proof -
    have "hslot d i = Some (h i)" using sl that by simp
    from hslot_count [OF this] have "0 < count_list (di_hdentry ?d) (Some (h i))" .
    moreover have "int (count_list (di_hdentry ?d) (Some (h i)) + count_list (di_hdentry ?p) (Some (h i))) \<le> k_dcount k (h i)"
      using ok unfolding refresh_base_def counted_def by blast
    ultimately show ?thesis by linarith
  qed
  from shifted_loop [OF inv r(3) mn rng(2) [symmetric] _ _ home] r(3,5) arr marks sl obtain l where
    run: "for_stay (hd_round parent ?d) (\<lambda>_. di_bend ?d) m
        \<lparr>hl_arr = arr, hl_bwh = di_bwh ?d, hl_bdiropq = di_bdiropq ?d, hl_kern = k1\<rparr> = Some l"
    and l: "length (hl_arr l) = length arr"
      "\<forall>i < length (hl_arr l). hl_arr l ! i = (if m < int i \<and> int i \<le> n + 1 then Some (h (int i - 1)) else None)"
      "hl_bwh l = - 1" "hl_bdiropq l = c" "hl_kern l = k1" by auto
  have as: "aslot (hl_arr l) i = (if m < i \<and> i \<le> n + 1 then Some (h (i - 1)) else None)" for i
    using l(1,2) arr(2) r(3,5) by (auto simp: aslot_def)
  have used: "aslot (hl_arr l) (m + 1) \<noteq> None" "aslot (hl_arr l) (n + 1) \<noteq> None"
    and out: "\<And>i. aslot (hl_arr l) i \<noteq> None \<Longrightarrow> m + 1 \<le> i \<and> i \<le> n + 1"
    using mn by (auto simp: as split: if_splits)
  have "n + 1 < int (length (hl_arr l))" "0 \<le> n + 1" "0 \<le> m + 1" using l(1) arr(2) r(3,5) mn by simp_all
  from refresh_range [OF this(2,1,3) used(1) out, of "di_bstart ?d" "di_bend ?d"] used(2) obtain
    b: "scan_up (slot_used (hl_arr l)) 0 (n + 1) (di_bstart ?d) = Some (m + 1)"
    and e: "scan_down (slot_used (hl_arr l)) (n + 1) 0 (di_bend ?d) = Some (n + 1)"
    using out by (metis (no_types, lifting) antisym)
  have w: "kept_mark sb (- 1) = Some (- 1)" "kept_mark sb c = Some c"
    using marks r(3,5) by (simp_all add: kept_mark_def)
  let ?di = "?d\<lparr>di_bstart := m + 1, di_bend := n + 1, di_bwh := - 1, di_bdiropq := c, di_hdentry := hl_arr l\<rparr>"
  let ?d1 = "d\<lparr>d_fsdata := Some ?di\<rparr>" and ?k2 = "kfree (snd (kmalloc k1))"
  let ?d2 = "d\<lparr>d_fsdata := Some (?di\<lparr>di_generation := si_generation sb\<rparr>)\<rparr>"
  have t: "dtodi ?d1 = Some ?di" using mn marks by (simp add: dtodi_def)
  have "lkup_dentry vf sb parent ?d1 name (di_bstart ?di) S_IFDIR k1 = Some (di_bend ?di - di_bstart ?di + 1, ?d1, ?k2)"
  proof (rule lkup_dentry_filled [OF t])
    fix i assume i: "di_bstart ?di \<le> i" "i \<le> di_bend ?di"
    then have "hl_arr l ! nat i = Some (h (i - 1))" using l(1,2) arr(2) r(3,5) by simp
    moreover have "0 < k_dcount k1 (h (i - 1))" "k_dinode k1 (h (i - 1)) \<noteq> None"
      using cp [of "i - 1"] pos [of "i - 1"] i k1 kf by simp_all
    ultimately show "\<exists>p. di_hdentry ?di ! nat i = Some p \<and> 0 < k_dcount k1 p \<and> k_dinode k1 p \<noteq> None" by simp
  qed (use l(1) arr(2) r(3,5) mn dirs name mem kf in simp_all)
  moreover have "au_update_digen sb ?d1 = Some ?d2" using t by (simp add: au_update_digen_def upd_di_def)
  ultimately have "au_refresh_hdentry vf sb parent d name S_IFDIR k = Some (n - m + 1, ?d2, ?k2)"
    using r(2,5,6,7) pp(1) al run b e w l(3,4,5) rng mn
    by (simp add: au_refresh_hdentry_def au_digen_def dbend_def dbstart_def AufsGenOlder_def Let_def)
  moreover have "hslot ?d2 (c + 1) = aslot (hl_arr l) (c + 1)" by (simp add: hslot_def aslot_def)
  moreover have "dbtaildir ?d2 = Some c"
    using dirs marks mn r(3) by (simp add: dbtaildir_def dbtail_def dbend_def dbwh_def dbdiropq_def not_dir_def dtodi_def)
  ultimately show ?thesis using marks sl as by (intro exI [of _ ?d2] exI [of _ ?k2]) simp
qed

text \<open>A directory whose lower hidden directory 23 is opaque, after a branch was added at the top.\<close>

definition parent3 :: aufs_dentry where
  "parent3 = \<lparr>d_fsdata = Some \<lparr>di_generation = 1, di_bstart = 1, di_bend = 2, di_bwh = - 1,
     di_bdiropq = - 1, di_hdentry = [None, Some 2, Some 3], di_reval = 0\<rparr>, d_imode = Some 0x4000\<rparr>"

definition opaque_dentry :: aufs_dentry where
  "opaque_dentry = \<lparr>d_fsdata = Some \<lparr>di_generation = 0, di_bstart = 0, di_bend = 1, di_bwh = - 1,
     di_bdiropq = 1, di_hdentry = [Some 22, Some 23], di_reval = 0\<rparr>, d_imode = Some 0x4000\<rparr>"

definition kern_q :: kern where
  "kern_q = kern0\<lparr>k_dparent := (\<lambda>d. d - 20)\<rparr>"

theorem au_refresh_hdentry_stale_opq_witness:
  "\<exists>d k. au_refresh_hdentry vfs0 ((sb0 3)\<lparr>si_generation := 1\<rparr>) parent3 opaque_dentry [97] S_IFDIR kern_q = Some (2, d, k)
    \<and> hslot opaque_dentry 1 = Some 23 \<and> hslot d 2 = Some 23 \<and> di_bdiropq (the_di d) = 1 \<and> dbtaildir d = Some 1"
proof -
  let ?sb = "(sb0 3)\<lparr>si_generation := 1\<rparr>" and ?h = "\<lambda>i. 22 + nat i"
  have sl: "hslot opaque_dentry i = (if 0 \<le> i \<and> i \<le> 1 then Some (?h i) else None)"
    "hslot parent3 i = (if 0 < i \<and> i \<le> 1 + 1 then Some (k_dparent kern_q (?h (i - 1))) else None)" for i
    by (auto simp: hslot_def opaque_dentry_def parent3_def the_di_def kern_q_def nth_Cons' nat_diff_distrib)
  have di: "the_di opaque_dentry = \<lparr>di_generation = 0, di_bstart = 0, di_bend = 1, di_bwh = - 1,
      di_bdiropq = 1, di_hdentry = [Some 22, Some 23], di_reval = 0\<rparr>"
    "the_di parent3 = \<lparr>di_generation = 1, di_bstart = 1, di_bend = 2, di_bwh = - 1,
      di_bdiropq = - 1, di_hdentry = [None, Some 2, Some 3], di_reval = 0\<rparr>"
    by (simp_all add: opaque_dentry_def parent3_def the_di_def)
  have sh: "one_down parent3 opaque_dentry ?h 0 1 kern_q" using sl by (simp add: one_down_def)
  have "parent_ok parent3"
    unfolding parent_ok_def in_range_def slots_inj_def sl di by (auto simp: dtodi_def parent3_def kern_q_def split: if_splits)
  moreover have "counted [Some 22, Some 23] parent3 kern_q"
    unfolding counted_def di by (simp add: kern_q_def kern0_def)
  moreover have "AufsGenOlder 1 0 = False" by (simp add: AufsGenOlder_def AufsGenYounger_def)
  moreover have "sb_ok ?sb" using sb0_ok [of 3] by (simp add: sb_ok_def)
  ultimately have ok: "refresh_base ?sb parent3 opaque_dentry kern_q"
    unfolding refresh_base_def in_range_def sl di
    by (auto simp: dtodi_def opaque_dentry_def sb0_def sbend_def kern_q_def split: if_splits)
  have wh: "sbr_is_whable ?sb 1 = Some True"
    by (simp add: sbr_is_whable_def sbr_perm_def sbr_def stobr_def sbend_def sb0_def aget_def br_whable_def)
  have tail: "dbtaildir parent3 = Some (1 + 1)"
    by (simp add: dbtaildir_def dbtail_def dbend_def dbwh_def dbdiropq_def not_dir_def dtodi_def parent3_def S_ISDIR_def)
  have "\<forall>i. k_ok kern_q i" "\<And>i. k_dinode kern_q (?h i) \<noteq> None" by (simp_all add: kern_q_def kern0_def)
  from au_refresh_hdentry_stale_opq [OF ok sh _ _ _ _ _ _ _ _ wh _ _ tail this(2) _ _ _ this(1), of "0x4000" "[97]" vfs0]
  moreover have "d_imode opaque_dentry = Some 0x4000" "S_ISDIR 0x4000" by (simp_all add: opaque_dentry_def S_ISDIR_def)
  ultimately show ?thesis using di by (simp add: AUFS_WH_PFX_def AUFS_WH_LEN_def PATH_MAX_def)
qed

end
