(* ===== verification/Aufs_Refresh_Inode.thy ===== *)
theory Aufs_Refresh_Inode
  imports Aufs_Refresh
begin

text \<open>
  What the refresh of an inode, the revalidation of the hidden dentries and the release of
  a dentry do. The loop over the hidden inodes is the second provider of the interface of
  \<open>realign\<close>: a hidden inode belongs to the index of the branch with its id.
\<close>

section \<open>Where hidden inodes belong\<close>

definition brindex :: "aufs_sb \<Rightarrow> int \<Rightarrow> int option" where
  "brindex sb bid = (case find_brindex sb bid of None \<Rightarrow> None | Some r \<Rightarrow> if r < 0 then None else Some r)"

lemma find_brindex_brindex:
  assumes "sb_ok sb"
  shows "find_brindex sb bid = Some (case brindex sb bid of None \<Rightarrow> - 1 | Some r \<Rightarrow> r)"
    and "brindex sb bid = Some r \<Longrightarrow> 0 \<le> r \<and> r \<le> sbend sb"
  using find_brindex_spec [OF assms, of bid] by (auto simp: brindex_def sbend_def split: if_splits)

text \<open>The slots with their branch ids, empty where there is no inode.\<close>

definition hview :: "aufs_hinode list \<Rightarrow> aufs_hinode option list" where
  "hview a = map (\<lambda>p. if hi_inode p = None then None else Some p) a"

lemma hview_length [simp]: "length (hview a) = length a"
  by (simp add: hview_def)

lemma hview_nth: "i < length a \<Longrightarrow> hview a ! i = (if hi_inode (a ! i) = None then None else Some (a ! i))"
  by (simp add: hview_def)

lemma hview_update: "hview (a[i := p]) = (hview a)[i := if hi_inode p = None then None else Some p]"
  by (simp add: hview_def map_update)

definition icounted :: "aufs_hinode list \<Rightarrow> kern \<Rightarrow> bool" where
  "icounted a k \<longleftrightarrow> (\<forall>h. int (count_list (map hi_inode a) (Some h)) \<le> k_icount k h)"

definition within :: "aufs_hinode list \<Rightarrow> aufs_iinfo \<Rightarrow> bool" where
  "within a ii \<longleftrightarrow> (\<forall>i. i < length a \<longrightarrow> hi_inode (a ! i) \<noteq> None \<longrightarrow> ii_bstart ii \<le> int i \<and> int i \<le> ii_bend ii)"

section \<open>The loop over the slots\<close>

text \<open>What the loop leaves of the store beside the references of inodes.\<close>

definition same_attrs :: "kern \<Rightarrow> kern \<Rightarrow> bool" where
  "same_attrs k k' \<longleftrightarrow> k_imode k' = k_imode k \<and> k_dinode k' = k_dinode k \<and> k_dcount k' = k_dcount k"

lemma same_attrs_iput [simp]: "same_attrs k (iput p k') = same_attrs k k'"
  by (simp add: same_attrs_def)

definition hi_inv :: "aufs_sb \<Rightarrow> kern \<Rightarrow> hi_loop \<Rightarrow> bool" where
  "hi_inv sb k0 l \<longleftrightarrow> sb_ok sb \<and> ii_bend (il_ii l) < int (length (il_arr l))
     \<and> sbend sb < int (length (il_arr l)) \<and> 0 \<le> ii_bstart (il_ii l)
     \<and> ii_bstart (il_ii l) \<le> ii_bend (il_ii l)
     \<and> within (il_arr l) (il_ii l) \<and> icounted (il_arr l) (il_kern l)
     \<and> same_attrs k0 (il_kern l)"

lemma hi_round_run:
  assumes inv: "hi_inv sb k0 l" and i: "0 \<le> i" "i \<le> ii_bend (il_ii l)" and p: "hi_inode (il_arr l ! nat i) = Some h"
  shows "hi_round sb i l =
     (case brindex sb (hi_id (il_arr l ! nat i)) of
        None \<Rightarrow> Some (False, l\<lparr>il_arr := (il_arr l)[nat i := (il_arr l ! nat i)\<lparr>hi_inode := None\<rparr>],
                   il_update := il_update l + 1, il_kern := iput (Some h) (il_kern l)\<rparr>)
      | Some j \<Rightarrow> if j = i then Some (False, l)
          else Some (hi_inode (il_arr l ! nat j) \<noteq> None,
            l\<lparr>il_ii := (il_ii l)\<lparr>ii_bstart := min (ii_bstart (il_ii l)) j, ii_bend := max (ii_bend (il_ii l)) j\<rparr>,
              il_arr := (il_arr l)[nat j := il_arr l ! nat i, nat i := il_arr l ! nat j]\<rparr>))"
proof -
  have ok: "sb_ok sb" and len: "i < int (length (il_arr l))" "sbend sb < int (length (il_arr l))"
    using inv i by (auto simp: hi_inv_def)
  show ?thesis
  proof (cases "brindex sb (hi_id (il_arr l ! nat i))")
    case None
    then show ?thesis using i len p find_brindex_brindex(1) [OF ok, of "hi_id (il_arr l ! nat i)"]
      by (simp add: hi_round_def aufs_hiput_def do_free_hinotify_def Let_def)
  next
    case (Some j)
    then have "0 \<le> j" "j \<le> sbend sb" using find_brindex_brindex(2) [OF ok] by auto
    moreover have "(if ii_bend (if j < ii_bstart (il_ii l) then (il_ii l)\<lparr>ii_bstart := j\<rparr> else il_ii l) < j
        then (if j < ii_bstart (il_ii l) then (il_ii l)\<lparr>ii_bstart := j\<rparr> else il_ii l)\<lparr>ii_bend := j\<rparr>
        else (if j < ii_bstart (il_ii l) then (il_ii l)\<lparr>ii_bstart := j\<rparr> else il_ii l))
      = (il_ii l)\<lparr>ii_bstart := min (ii_bstart (il_ii l)) j, ii_bend := max (ii_bend (il_ii l)) j\<rparr>"
      by (cases "il_ii l") (auto simp: min_def max_def)
    ultimately show ?thesis using Some i len p find_brindex_brindex(1) [OF ok, of "hi_id (il_arr l ! nat i)"]
      by (simp add: hi_round_def Let_def)
  qed
qed

lemma icounted_swap:
  assumes "i < length a" "j < length a"
  shows "icounted (a[j := a ! i, i := a ! j]) k = icounted a k"
proof -
  have "mset (map hi_inode (a[j := a ! i, i := a ! j])) = mset (map hi_inode a)"
    using mset_swap [OF assms] by simp
  then have "count_list (map hi_inode (a[j := a ! i, i := a ! j])) x = count_list (map hi_inode a) x" for x
    by (metis count_mset)
  then show ?thesis by (simp add: icounted_def)
qed

lemma icounted_drop:
  assumes "i < length a" "hi_inode (a ! i) = Some h" "icounted a k"
  shows "icounted (a[i := (a ! i)\<lparr>hi_inode := None\<rparr>]) (iput (Some h) k)"
  unfolding icounted_def
proof
  fix q
  have m: "i < length (map hi_inode a)" "map hi_inode a ! i = Some h" using assms by simp_all
  then have "0 < count_list (map hi_inode a) (Some h)" by (rule count_list_pos)
  moreover have "int (count_list (map hi_inode a) (Some q)) \<le> k_icount k q" using assms(3) by (simp add: icounted_def)
  ultimately show "int (count_list (map hi_inode (a[i := (a ! i)\<lparr>hi_inode := None\<rparr>])) (Some q)) \<le> k_icount (iput (Some h) k) q"
    using m by (auto simp: map_update count_list_update [OF m(1)] iput_icount)
qed

lemma within_swap:
  assumes "within a ii" and "i < length a" "hi_inode (a ! i) \<noteq> None" "j < length a"
  shows "within (a[j := a ! i, i := a ! j]) (ii\<lparr>ii_bstart := min (ii_bstart ii) (int j), ii_bend := max (ii_bend ii) (int j)\<rparr>)"
  using assms by (fastforce simp: within_def nth_list_update)

lemma within_drop: "within a ii \<Longrightarrow> within (a[i := (a ! i)\<lparr>hi_inode := None\<rparr>]) ii"
  by (cases "i < length a") (auto simp: within_def nth_list_update split: if_splits)

interpretation hislots: realign "\<lambda>l. hview (il_arr l)" "\<lambda>l. ii_bend (il_ii l)" "\<lambda>p. brindex sb (hi_id p)"
    "\<lambda>p. the (hi_inode p)" "\<lambda>l. k_icount (il_kern l)" "hi_round sb" "hi_inv sb k0"
  for sb k0
proof
  fix l i
  assume inv: "hi_inv sb k0 l" and i: "0 \<le> i" "i \<le> ii_bend (il_ii l)"
  have len: "i < int (length (il_arr l))" "nat i < length (il_arr l)" using inv i by (auto simp: hi_inv_def)
  note v = hview_nth [OF len(2)]
  {
    assume home: "\<forall>x. hview (il_arr l) ! nat i = Some x \<longrightarrow> brindex sb (hi_id x) = Some i"
    have "hi_round sb i l = Some (False, l)"
    proof (cases "hi_inode (il_arr l ! nat i)")
      case None
      then show ?thesis using i len by (simp add: hi_round_def)
    next
      case (Some h)
      then show ?thesis using home v hi_round_run [OF inv i Some] by simp
    qed
    then show "\<exists>t. hi_round sb i l = Some (False, t) \<and> hi_inv sb k0 t \<and> hview (il_arr t) = hview (il_arr l)
        \<and> ii_bend (il_ii t) = ii_bend (il_ii l) \<and> k_icount (il_kern t) = k_icount (il_kern l)" using inv by simp
  next
    fix x assume x: "hview (il_arr l) ! nat i = Some x" "brindex sb (hi_id x) = None"
    then have xe: "x = il_arr l ! nat i" and "hi_inode x \<noteq> None" using v by (auto split: if_splits)
    then obtain h where h: "hi_inode (il_arr l ! nat i) = Some h" by auto
    have "icounted ((il_arr l)[nat i := (il_arr l ! nat i)\<lparr>hi_inode := None\<rparr>]) (iput (Some h) (il_kern l))"
      by (rule icounted_drop) (use len h inv in \<open>auto simp: hi_inv_def\<close>)
    moreover have "within ((il_arr l)[nat i := (il_arr l ! nat i)\<lparr>hi_inode := None\<rparr>]) (il_ii l)"
      using inv by (auto simp: hi_inv_def intro: within_drop)
    ultimately show "\<exists>t. hi_round sb i l = Some (False, t) \<and> hi_inv sb k0 t
        \<and> hview (il_arr t) = (hview (il_arr l))[nat i := None] \<and> ii_bend (il_ii t) = ii_bend (il_ii l)
        \<and> (\<forall>b. k_icount (il_kern t) b = k_icount (il_kern l) b - (if the (hi_inode x) = b then 1 else 0))"
      using inv x(2) xe h by (simp add: hi_round_run [OF inv i h] hi_inv_def iput_icount hview_update)
  next
    fix x j assume x: "hview (il_arr l) ! nat i = Some x" "brindex sb (hi_id x) = Some j" "j \<noteq> i"
    then have xe: "x = il_arr l ! nat i" and "hi_inode x \<noteq> None" using v by (auto split: if_splits)
    then obtain h where h: "hi_inode (il_arr l ! nat i) = Some h" by auto
    have j: "0 \<le> j" "j < int (length (il_arr l))" "nat j < length (il_arr l)"
      using find_brindex_brindex(2) [of sb "hi_id x" j] inv x(2) by (auto simp: hi_inv_def)
    let ?a = "(il_arr l)[nat j := il_arr l ! nat i, nat i := il_arr l ! nat j]"
    have "icounted ?a (il_kern l)"
      by (subst icounted_swap) (use len j inv in \<open>auto simp: hi_inv_def\<close>)
    moreover have "within ?a ((il_ii l)\<lparr>ii_bstart := min (ii_bstart (il_ii l)) j, ii_bend := max (ii_bend (il_ii l)) j\<rparr>)"
      using within_swap [of "il_arr l" "il_ii l" "nat i" "nat j"] inv h len j by (simp add: hi_inv_def)
    moreover have "hview ?a = (hview (il_arr l))[nat j := Some x, nat i := hview (il_arr l) ! nat j]"
      using h xe by (simp add: hview_update hview_nth [OF j(3)])
    ultimately show "0 \<le> j \<and> j < int (length (hview (il_arr l))) \<and>
       (\<exists>t. hi_round sb i l = Some (hview (il_arr l) ! nat j \<noteq> None, t) \<and> hi_inv sb k0 t
          \<and> hview (il_arr t) = (hview (il_arr l))[nat j := Some x, nat i := hview (il_arr l) ! nat j]
          \<and> ii_bend (il_ii l) \<le> ii_bend (il_ii t) \<and> k_icount (il_kern t) = k_icount (il_kern l))"
      using inv x(2,3) xe j by (simp add: hi_round_run [OF inv i h] hi_inv_def hview_nth [OF j(3)] min_le_iff_disj le_max_iff_disj)
  }
qed (simp add: hi_inv_def)

section \<open>Refreshing an inode\<close>

definition hid :: "aufs_inode \<Rightarrow> int \<Rightarrow> int" where
  "hid inode i = hi_id (the_hi inode ! nat i)"

lemma hrealloc_slots:
  assumes ok: "ii_ok inode" and lo: "0 \<le> ii_bstart (i_iinfo inode)" and "0 \<le> sbend sb" and "k_ok k (k_alloc k)"
    and z: "hi_inode z = None"
  shows "\<exists>arr k'. au_kzrealloc z (the_hi inode) (nat (ii_bend (i_iinfo inode) + 1)) (nat (sbend sb + 1)) k
      = Some (Some arr, k') \<and> same_attrs k k' \<and> k_icount k' = k_icount k
    \<and> ii_bend (i_iinfo inode) < int (length arr) \<and> sbend sb < int (length arr)
    \<and> (\<forall>i < length arr. hi_inode (arr ! i) = islot inode (int i) \<and> (islot inode (int i) \<noteq> None \<longrightarrow> arr ! i = the_hi inode ! i))
    \<and> (\<forall>i. islot inode i \<noteq> None \<longrightarrow> i < int (length arr))
    \<and> (\<forall>p. count_list (map hi_inode arr) (Some p) \<le> count_list (map hi_inode (the_hi inode)) (Some p))"
proof -
  let ?a = "the_hi inode" and ?e = "ii_bend (i_iinfo inode)"
  have r: "ii_bstart (i_iinfo inode) \<le> ?e" "?e < int (length ?a)"
    and out: "islot inode i \<noteq> None \<Longrightarrow> ii_bstart (i_iinfo inode) \<le> i \<and> i \<le> ?e" for i
    using ok by (auto simp: ii_ok_def)
  show ?thesis
  proof (cases "sbend sb \<le> ?e")
    case True
    then show ?thesis using assms r
      by (intro exI [of _ ?a] exI [of _ k]) (auto simp: au_kzrealloc_def islot_def same_attrs_def)
  next
    case False
    let ?n = "nat (?e + 1)" and ?m = "nat (sbend sb + 1)"
    let ?arr = "take ?n ?a @ replicate (?m - ?n) z"
    have n: "?n \<le> length ?a" "?n < ?m" using False assms r by auto
    have c: "count_list (map hi_inode ?arr) (Some p) \<le> count_list (map hi_inode ?a) (Some p)" for p
    proof -
      have "map hi_inode ?a = map hi_inode (take ?n ?a) @ map hi_inode (drop ?n ?a)"
        by (metis append_take_drop_id map_append)
      moreover have "count_list (map hi_inode (replicate m z)) (Some p) = 0" for m
        using z by (simp add: count_list_0_iff)
      ultimately show ?thesis by (simp only: map_append count_list_append)
    qed
    have s: "hi_inode (?arr ! i) = islot inode (int i) \<and> (islot inode (int i) \<noteq> None \<longrightarrow> ?arr ! i = ?a ! i)"
      if i: "i < length ?arr" for i
    proof (cases "i < ?n")
      case True
      then show ?thesis using n by (simp add: nth_append islot_def)
    next
      case False
      then have "islot inode (int i) = None" using out by force
      then show ?thesis using False i n z by (simp add: nth_append)
    qed
    have "islot inode i \<noteq> None \<longrightarrow> i < int (length ?arr)" for i using out n by force
    then show ?thesis using n s c assms False
      by (intro exI [of _ ?arr] exI [of _ "kfree (snd (kmalloc k))"])
        (auto simp: au_kzrealloc_def kmalloc_def kfree_def same_attrs_def)
  qed
qed

text \<open>Copying the attributes of an inode that is not a directory.\<close>

lemma au_cpup_attr_all_nondir:
  assumes ok: "ii_ok inode" and lo: "0 \<le> ii_bstart (i_iinfo inode)" and h: "islot inode (ii_bstart (i_iinfo inode)) = Some h"
    and c: "\<And>i h. islot inode i = Some h \<Longrightarrow> 0 < k_icount k h" and m: "k_imode k h \<noteq> 0" "\<not> S_ISDIR (k_imode k h)"
  shows "\<exists>inode'. au_cpup_attr_all k inode = Some inode' \<and> i_iinfo inode' = i_iinfo inode \<and> i_ino inode' = i_ino inode
    \<and> i_mode inode' = k_imode k h"
proof -
  have p: "au_h_iptr k j = Some (Some h)" if j: "i_iinfo j = i_iinfo inode" for j
  proof -
    have "ii_ok j" "islot j = islot inode" using ok j by (simp_all add: ii_ok_def islot_def the_hi_def fun_eq_iff)
    moreover have "ii_bstart (i_iinfo inode) \<le> ii_bend (i_iinfo inode)" using ok by (simp add: ii_ok_def)
    ultimately show ?thesis
      using au_h_iptr_i_ok [of j "ii_bstart (i_iinfo inode)" k] lo h c j by (simp add: au_h_iptr_def ibstart_def)
  qed
  show ?thesis using m
    by (simp add: au_cpup_attr_all_def au_cpup_attr_changable_def au_cpup_attr_timesizes_def au_cpup_attr_nlink_def p Let_def)
qed

text \<open>What a refresh of an inode that is not a directory relies on.\<close>

definition irefreshable :: "aufs_sb \<Rightarrow> aufs_inode \<Rightarrow> aufs_dentry \<Rightarrow> kern \<Rightarrow> bool" where
  "irefreshable sb inode dentry k \<longleftrightarrow> sb_ok sb \<and> ii_ok inode \<and> 0 \<le> ii_bstart (i_iinfo inode) \<and> 0 \<le> sbend sb
     \<and> icounted (the_hi inode) k \<and> \<not> S_ISDIR (i_mode inode)
     \<and> (\<forall>i h. islot inode i = Some h \<longrightarrow> k_imode k h \<noteq> 0 \<and> \<not> S_ISDIR (k_imode k h))
     \<and> (\<forall>i j. islot inode i \<noteq> None \<longrightarrow> islot inode j \<noteq> None \<longrightarrow> hid inode i = hid inode j \<longrightarrow> i = j)
     \<and> di_ok sb dentry k \<and> 0 \<le> di_bstart (the_di dentry)
     \<and> (\<forall>i p n. di_bstart (the_di dentry) \<le> i \<longrightarrow> i \<le> di_bend (the_di dentry) \<longrightarrow> hslot dentry i = Some p
          \<longrightarrow> k_dinode k p = Some n \<longrightarrow> (\<exists>j. islot inode j = Some n \<and> brindex sb (hid inode j) = Some i))"

text \<open>The loop from its start and what it leaves.\<close>

lemma irefresh_loop:
  assumes ok: "irefreshable sb inode dentry k" and mem: "k_ok k (k_alloc k)"
  shows "\<exists>arr k1 l. au_kzrealloc \<lparr>hi_inode = None, hi_id = 0, hi_notify = None\<rparr> (the_hi inode)
        (nat (ii_bend (i_iinfo inode) + 1)) (nat (sbend sb + 1)) k = Some (Some arr, k1)
    \<and> ii_bstart (i_iinfo inode) < int (length arr)
    \<and> for_stay (hi_round sb) (\<lambda>l. ii_bend (il_ii l)) (ii_bstart (i_iinfo inode))
        \<lparr>il_ii = i_iinfo inode, il_arr = arr, il_update = 0, il_kern = k1\<rparr> = Some l
    \<and> hi_inv sb k l
    \<and> (\<forall>j h. j < length (il_arr l) \<longrightarrow>
         (hi_inode (il_arr l ! j) = Some h \<longleftrightarrow> (\<exists>i. islot inode i = Some h \<and> brindex sb (hid inode i) = Some (int j))))
    \<and> (\<forall>h. k_icount (il_kern l) h = k_icount k h
          - int (card {i. islot inode (int i) = Some h \<and> brindex sb (hid inode (int i)) = None}))"
proof -
  let ?ii = "i_iinfo inode" and ?z = "\<lparr>hi_inode = None, hi_id = 0, hi_notify = None\<rparr>"
  have r: "sb_ok sb" "ii_ok inode" "0 \<le> ii_bstart ?ii" "0 \<le> sbend sb" "icounted (the_hi inode) k"
    and inj: "\<And>i j. islot inode i \<noteq> None \<Longrightarrow> islot inode j \<noteq> None \<Longrightarrow> hid inode i = hid inode j \<Longrightarrow> i = j"
    using ok unfolding irefreshable_def by blast+
  have rng: "ii_bstart ?ii \<le> ii_bend ?ii"
    "\<And>i. islot inode i \<noteq> None \<Longrightarrow> ii_bstart ?ii \<le> i \<and> i \<le> ii_bend ?ii"
    using r(2) by (auto simp: ii_ok_def)
  have z: "hi_inode ?z = None" by simp
  from hrealloc_slots [OF r(2-4) mem z] obtain arr k1 where
    al: "au_kzrealloc ?z (the_hi inode) (nat (ii_bend ?ii + 1)) (nat (sbend sb + 1)) k = Some (Some arr, k1)"
    and k1: "same_attrs k k1" "k_icount k1 = k_icount k"
    and arr: "ii_bend ?ii < int (length arr)" "sbend sb < int (length arr)"
      "\<And>i. i < length arr \<Longrightarrow> hi_inode (arr ! i) = islot inode (int i)"
      "\<And>i. i < length arr \<Longrightarrow> islot inode (int i) \<noteq> None \<Longrightarrow> arr ! i = the_hi inode ! i"
      "\<And>i. islot inode i \<noteq> None \<Longrightarrow> i < int (length arr)"
      "\<And>p. count_list (map hi_inode arr) (Some p) \<le> count_list (map hi_inode (the_hi inode)) (Some p)"
    by metis
  let ?l = "\<lparr>il_ii = ?ii, il_arr = arr, il_update = 0, il_kern = k1\<rparr>"
  have v: "hview arr ! i = Some x \<longleftrightarrow> islot inode (int i) \<noteq> None \<and> x = the_hi inode ! i" if "i < length arr" for i x
    using that arr(3,4) [OF that] by (auto simp: hview_nth)
  have set: "Some x \<in> set (hview arr) \<longleftrightarrow> (\<exists>i. islot inode i \<noteq> None \<and> x = the_hi inode ! nat i)" for x
  proof
    assume "Some x \<in> set (hview arr)"
    then obtain i where "i < length arr" "hview arr ! i = Some x" by (auto simp: in_set_conv_nth)
    then show "\<exists>i. islot inode i \<noteq> None \<and> x = the_hi inode ! nat i" using v by (intro exI [of _ "int i"]) auto
  next
    assume "\<exists>i. islot inode i \<noteq> None \<and> x = the_hi inode ! nat i"
    then obtain i where i: "islot inode i \<noteq> None" "x = the_hi inode ! nat i" by blast
    then have "0 \<le> i" "nat i < length arr" using arr(5) [OF i(1)] by (auto simp: islot_def split: if_splits)
    then show "Some x \<in> set (hview arr)" using v [of "nat i" x] i by (metis hview_length int_nat_eq nth_mem)
  qed
  have "int (count_list (map hi_inode arr) (Some p)) \<le> k_icount k p" for p
  proof -
    have "int (count_list (map hi_inode (the_hi inode)) (Some p)) \<le> k_icount k p" using r(5) by (simp add: icounted_def)
    then show ?thesis using arr(6) [of p] by linarith
  qed
  then have cnt: "icounted arr k1" using k1(2) by (simp add: icounted_def)
  have "within arr ?ii" using arr(3) rng(2) by (simp add: within_def)
  then have "hi_inv sb k ?l" using r arr(1,2) cnt k1 rng by (simp add: hi_inv_def)
  moreover have "distinct (keys (\<lambda>p. brindex sb (hi_id p)) (hview arr))"
  proof (rule keys_distinctI)
    fix i j x y assume ij: "i < j" "j < length (hview arr)" "hview arr ! i = Some x" "hview arr ! j = Some y"
      "brindex sb (hi_id x) \<noteq> None"
    have sl: "islot inode (int i) \<noteq> None" "x = the_hi inode ! i" "islot inode (int j) \<noteq> None" "y = the_hi inode ! j"
      using v [of i x] v [of j y] ij by auto
    have "hi_id x \<noteq> hi_id y" using inj [OF sl(1,3)] sl ij(1) by (auto simp: hid_def)
    then show "brindex sb (hi_id x) \<noteq> brindex sb (hi_id y)"
      using ij(5) find_brindex_spec [OF r(1), of "hi_id x"] find_brindex_spec [OF r(1), of "hi_id y"]
      by (auto simp: brindex_def split: if_splits)
  qed
  moreover have "hview arr ! j = None" if "j < length arr" "int j < ii_bstart ?ii \<or> ii_bend ?ii < int j" for j
  proof -
    have "islot inode (int j) = None" using rng(2) [of "int j"] that(2) by fastforce
    then show ?thesis using v [OF that(1)] by (cases "hview arr ! j") auto
  qed
  ultimately obtain l where run: "for_stay (hi_round sb) (\<lambda>l. ii_bend (il_ii l)) (ii_bstart ?ii) ?l = Some l"
    and l: "hi_inv sb k l" "length (il_arr l) = length arr"
      "\<And>j x. j < length arr \<Longrightarrow> (hview (il_arr l) ! j = Some x \<longleftrightarrow> Some x \<in> set (hview arr) \<and> brindex sb (hi_id x) = Some (int j))"
      "\<And>h. k_icount (il_kern l) h = k_icount k1 h
         - int (length (filter (lost (\<lambda>p. brindex sb (hi_id p)) (\<lambda>p. the (hi_inode p)) h) (hview arr)))"
    using hislots.realigned [of sb k ?l "ii_bstart ?ii"] r(3) rng(1) arr(1) by auto
  have "length (filter (lost (\<lambda>p. brindex sb (hi_id p)) (\<lambda>p. the (hi_inode p)) h) (hview arr))
      = card {i. islot inode (int i) = Some h \<and> brindex sb (hid inode (int i)) = None}" for h
  proof -
    have "(i < length arr \<and> lost (\<lambda>p. brindex sb (hi_id p)) (\<lambda>p. the (hi_inode p)) h (hview arr ! i))
        = (islot inode (int i) = Some h \<and> brindex sb (hid inode (int i)) = None)" for i
      using arr(3) [of i] arr(4) [of i] arr(5) [of "int i"] by (cases "islot inode (int i)") (auto simp: lost_def hview_nth hid_def)
    then show ?thesis by (simp add: length_filter_conv_card)
  qed
  moreover have "hi_inode (il_arr l ! j) = Some h \<longleftrightarrow> (\<exists>i. islot inode i = Some h \<and> brindex sb (hid inode i) = Some (int j))"
    if j: "j < length arr" for j h
  proof -
    have a: "islot inode i \<noteq> None \<Longrightarrow> hi_inode (the_hi inode ! nat i) = islot inode i" for i
      by (auto simp: islot_def split: if_splits)
    have "hi_inode (il_arr l ! j) = Some h \<longleftrightarrow> (\<exists>x. hview (il_arr l) ! j = Some x \<and> hi_inode x = Some h)"
      using j l(2) by (auto simp: hview_nth)
    also have "\<dots> \<longleftrightarrow> (\<exists>x. Some x \<in> set (hview arr) \<and> brindex sb (hi_id x) = Some (int j) \<and> hi_inode x = Some h)"
      using l(3) [OF j] by blast
    also have "\<dots> \<longleftrightarrow> (\<exists>i. islot inode i = Some h \<and> brindex sb (hid inode i) = Some (int j))"
      unfolding set hid_def using a by fastforce
    finally show ?thesis .
  qed
  ultimately show ?thesis
    using al run l(1,2,4) k1(2) rng arr(1) by (intro exI [of _ arr] exI [of _ k1] exI [of _ l]) simp
qed

text \<open>The hidden dentries bring no inode that is not there, so the second loop changes nothing.\<close>

lemma fill_nothing:
  assumes di: "di_ok sb dentry k" "0 \<le> di_bstart (the_di dentry)"
    and ii: "ii_ok (if_inode f)" "if_kern f = k" and cnt: "\<And>i h. islot (if_inode f) i = Some h \<Longrightarrow> 0 < k_icount k h"
    and ag: "\<And>i p n. di_bstart (the_di dentry) \<le> i \<Longrightarrow> i \<le> di_bend (the_di dentry) \<Longrightarrow> hslot dentry i = Some p
          \<Longrightarrow> k_dinode k p = Some n \<Longrightarrow> islot (if_inode f) i = Some n"
  shows "for_up (fill_round is_aufsd wrf dentry flags) (di_bstart (the_di dentry)) (di_bend (the_di dentry)) f = Some f"
proof -
  have "\<exists>t. for_up (fill_round is_aufsd wrf dentry flags) (di_bstart (the_di dentry)) (di_bend (the_di dentry)) f = Some t \<and> t = f"
  proof (rule for_up_total [where I = "\<lambda>_ t. t = f"])
    show "di_bstart (the_di dentry) \<le> di_bend (the_di dentry) + 1" using di_ok_ranges(2) [OF di(1)] by simp
    fix j t assume j: "di_bstart (the_di dentry) \<le> j" "j \<le> di_bend (the_di dentry)" and t: "t = f"
    have hd: "au_h_dptr_i k dentry j = Some (hslot dentry j)" by (rule au_h_dptr_i_ok [OF di(1) j(2,1)])
    have "fill_round is_aufsd wrf dentry flags j f = Some (True, f)"
    proof (cases "Option.bind (hslot dentry j) (k_dinode k)")
      case None
      then show ?thesis by (simp add: fill_round_def hd ii(2))
    next
      case (Some n)
      then obtain p where "hslot dentry j = Some p" "k_dinode k p = Some n" by (auto simp: bind_eq_Some_conv)
      then have n: "islot (if_inode f) j = Some n" by (rule ag [OF j])
      then have r: "ii_bstart (i_iinfo (if_inode f)) \<le> j" "j \<le> ii_bend (i_iinfo (if_inode f))" "0 \<le> j"
        using ii(1) by (auto simp: ii_ok_def islot_def split: if_splits)
      then have "au_h_iptr_i k (if_inode f) j = Some (Some n)"
        using au_h_iptr_i_ok [OF ii(1) r(3,2)] cnt n by simp
      then show ?thesis using Some r by (simp add: fill_round_def hd ii(2))
    qed
    then show "\<exists>u. fill_round is_aufsd wrf dentry flags j t = Some (True, u) \<and> u = f" using t by simp
  qed simp
  then show ?thesis by simp
qed

text \<open>
  The scans at the end: the first one finds the first slot in use, the second one stops
  above it, so it moves the end only when two slots are in use.
\<close>

lemma tight_range_run:
  assumes a: "ii_hinode ii = Some a" and e: "ii_bend ii < int (length a)" and w: "within a ii" and lo: "0 \<le> ii_bstart ii"
    and u: "m < length a" "hi_inode (a ! m) \<noteq> None"
  shows "\<exists>b e. tight_range ii = Some (ii\<lparr>ii_bstart := int b, ii_bend := e\<rparr>) \<and> b < length a \<and> hi_inode (a ! b) \<noteq> None
    \<and> e \<le> ii_bend ii \<and> (\<forall>i < length a. hi_inode (a ! i) \<noteq> None \<longrightarrow> b \<le> i \<and> int i \<le> e)
    \<and> (if \<forall>i < length a. hi_inode (a ! i) \<noteq> None \<longrightarrow> i = b then e = ii_bend ii
       else int b < e \<and> hi_inode (a ! nat e) \<noteq> None)"
proof -
  let ?u = "\<lambda>i. hi_inode (a ! nat i) \<noteq> None"
  have used: "hi_used a i = Some (?u i)" if "0 \<le> i" "i \<le> ii_bend ii" for i
    using that e by (simp add: hi_used_def)
  have m: "0 \<le> int m \<and> int m \<le> ii_bend ii \<and> ?u (int m)" using u w by (auto simp: within_def)
  have "\<exists>r. scan_up (hi_used a) 0 (ii_bend ii) (ii_bstart ii) = Some r \<and>
     (if \<exists>j. 0 \<le> j \<and> j \<le> ii_bend ii \<and> ?u j then 0 \<le> r \<and> r \<le> ii_bend ii \<and> ?u r \<and> (\<forall>j. 0 \<le> j \<longrightarrow> j < r \<longrightarrow> \<not> ?u j)
      else r = ii_bstart ii)"
    by (rule scan_up_least) (rule used)
  then obtain r where r: "scan_up (hi_used a) 0 (ii_bend ii) (ii_bstart ii) = Some r" "0 \<le> r" "r \<le> ii_bend ii" "?u r"
    "\<And>j. 0 \<le> j \<Longrightarrow> j < r \<Longrightarrow> \<not> ?u j" using m by (metis (lifting))
  have "\<exists>q. scan_down (hi_used a) (ii_bend ii) (r + 1) (ii_bend ii) = Some q \<and>
     (if \<exists>j. r + 1 \<le> j \<and> j \<le> ii_bend ii \<and> ?u j
      then r + 1 \<le> q \<and> q \<le> ii_bend ii \<and> ?u q \<and> (\<forall>j. q < j \<longrightarrow> j \<le> ii_bend ii \<longrightarrow> \<not> ?u j)
      else q = ii_bend ii)"
    by (rule scan_down_greatest) (rule used, use r(2) in auto)
  then obtain q where q: "scan_down (hi_used a) (ii_bend ii) (r + 1) (ii_bend ii) = Some q"
    "if \<exists>j. r + 1 \<le> j \<and> j \<le> ii_bend ii \<and> ?u j
      then r + 1 \<le> q \<and> q \<le> ii_bend ii \<and> ?u q \<and> (\<forall>j. q < j \<longrightarrow> j \<le> ii_bend ii \<longrightarrow> \<not> ?u j)
      else q = ii_bend ii" by blast
  then have rq: "r \<le> q" "q \<le> ii_bend ii" using r(3) by (auto split: if_splits)
  have run: "tight_range ii = Some (ii\<lparr>ii_bstart := int (nat r), ii_bend := q\<rparr>)"
    using a r q(1) rq by (simp add: tight_range_def)
  have all: "nat r \<le> i \<and> int i \<le> q" if i: "i < length a" "hi_inode (a ! i) \<noteq> None" for i
  proof -
    have b: "int i \<le> ii_bend ii" using w i by (auto simp: within_def)
    have 1: "\<not> int i < r" using r(5) [of "int i"] i(2) by auto
    have "int i \<le> q"
    proof (rule ccontr)
      assume "\<not> int i \<le> q"
      then have "int i > q" "r + 1 \<le> int i" using rq(1) by simp_all
      then show False using q(2) b i(2) by (auto split: if_splits)
    qed
    with 1 show ?thesis by simp
  qed
  have two: "if \<forall>i < length a. hi_inode (a ! i) \<noteq> None \<longrightarrow> i = nat r then q = ii_bend ii
       else int (nat r) < q \<and> hi_inode (a ! nat q) \<noteq> None"
  proof (cases "\<exists>j. r + 1 \<le> j \<and> j \<le> ii_bend ii \<and> ?u j")
    case True
    then obtain j where j: "r + 1 \<le> j" "j \<le> ii_bend ii" "?u j" by blast
    then have "nat j < length a" "nat j \<noteq> nat r" using e r(2) by auto
    then have "\<not> (\<forall>i < length a. hi_inode (a ! i) \<noteq> None \<longrightarrow> i = nat r)" using j(3) by blast
    then show ?thesis using True q(2) r(2) by auto
  next
    case False
    then have "\<forall>i < length a. hi_inode (a ! i) \<noteq> None \<longrightarrow> i = nat r"
    proof (intro allI impI)
      fix i assume i: "i < length a" "hi_inode (a ! i) \<noteq> None"
      then have "int i \<le> ii_bend ii" using w by (auto simp: within_def)
      then have "\<not> r + 1 \<le> int i" using False i(2) by auto
      then show "i = nat r" using all [OF i] r(2) by linarith
    qed
    then show ?thesis using q(2) False by auto
  qed
  show ?thesis using run all two r(2-4) rq e
    by (intro exI [of _ "nat r"] exI [of _ q]) (simp add: nat_less_iff)
qed

lemma ii_ok_within:
  assumes "ii_hinode (i_iinfo x) = Some a" and "ii_bstart (i_iinfo x) \<le> ii_bend (i_iinfo x)"
    and "ii_bend (i_iinfo x) < int (length a)" and "0 \<le> ii_bstart (i_iinfo x)" and w: "within a (i_iinfo x)"
  shows "ii_ok x"
proof -
  have t: "the_hi x = a" using assms(1) by (simp add: the_hi_def)
  have "ii_bstart (i_iinfo x) \<le> i \<and> i \<le> ii_bend (i_iinfo x)" if "islot x i \<noteq> None" for i
  proof -
    from that have "0 \<le> i" "nat i < length a" "hi_inode (a ! nat i) \<noteq> None"
      by (auto simp: islot_def t split: if_splits)
    then show ?thesis using w by (force simp: within_def)
  qed
  then show ?thesis using assms by (simp add: ii_ok_def t)
qed

lemma islot_arr: "ii_hinode (i_iinfo x) = Some a \<Longrightarrow>
    islot x i = (if 0 \<le> i \<and> i < int (length a) then hi_inode (a ! nat i) else None)"
  by (simp add: islot_def the_hi_def)

text \<open>Everything up to the narrowing of the range, and what holds then.\<close>

definition irefreshed :: "aufs_sb \<Rightarrow> aufs_inode \<Rightarrow> kern \<Rightarrow> aufs_inode \<Rightarrow> kern \<Rightarrow> bool" where
  "irefreshed sb inode k j k' \<longleftrightarrow> ii_ok j \<and> 0 \<le> ii_bstart (i_iinfo j)
    \<and> (\<forall>i h. islot j i = Some h \<longleftrightarrow> (\<exists>m. islot inode m = Some h \<and> brindex sb (hid inode m) = Some i))
    \<and> islot j (ii_bstart (i_iinfo j)) \<noteq> None
    \<and> (islot j (ii_bend (i_iinfo j)) = None \<longrightarrow> (\<forall>i. islot j i \<noteq> None \<longrightarrow> i = ii_bstart (i_iinfo j)))
    \<and> (\<forall>i h. islot j i = Some h \<longrightarrow> 0 < k_icount k' h) \<and> k_imode k' = k_imode k
    \<and> (\<forall>h. k_icount k' h = k_icount k h
          - int (card {i. islot inode (int i) = Some h \<and> brindex sb (hid inode (int i)) = None}))"

definition filled :: "aufs_inode \<Rightarrow> aufs_sb \<Rightarrow> hi_loop \<Rightarrow> hi_fill" where
  "filled inode sb l = \<lparr>if_err = 0, if_inode = inode\<lparr>i_iinfo := (il_ii l)\<lparr>ii_hinode := Some (il_arr l)\<rparr>\<rparr>,
     if_sb = sb, if_update = il_update l, if_kern = il_kern l\<rparr>"

lemma irefreshedI:
  assumes "i_iinfo j = ii" and "ii_ok j" and "0 \<le> ii_bstart ii"
    and "\<And>i h. islot j i = Some h \<longleftrightarrow> (\<exists>m. islot inode m = Some h \<and> brindex sb (hid inode m) = Some i)"
    and "islot j (ii_bstart ii) \<noteq> None"
    and "\<And>i. islot j (ii_bend ii) = None \<Longrightarrow> islot j i \<noteq> None \<Longrightarrow> i = ii_bstart ii"
    and "\<And>i h. islot j i = Some h \<Longrightarrow> 0 < k_icount k' h" and "k_imode k' = k_imode k"
    and "\<And>h. k_icount k' h = k_icount k h
          - int (card {i. islot inode (int i) = Some h \<and> brindex sb (hid inode (int i)) = None})"
  shows "irefreshed sb inode k j k'"
  unfolding irefreshed_def assms(1) using assms(2-9) by blast

lemma irefreshed_facts:
  assumes "irefreshed sb inode k j k'" and "i_iinfo j = ii"
  shows "ii_ok j" "0 \<le> ii_bstart ii"
    and "islot j i = Some h \<longleftrightarrow> (\<exists>m. islot inode m = Some h \<and> brindex sb (hid inode m) = Some i)"
    and "islot j (ii_bstart ii) \<noteq> None"
    and "islot j (ii_bend ii) = None \<longrightarrow> (\<forall>i. islot j i \<noteq> None \<longrightarrow> i = ii_bstart ii)"
    and "islot j i = Some h \<Longrightarrow> 0 < k_icount k' h" and "k_imode k' = k_imode k"
    and "k_icount k' h = k_icount k h
          - int (card {i. islot inode (int i) = Some h \<and> brindex sb (hid inode (int i)) = None})"
  using assms(1) unfolding irefreshed_def assms(2) by blast+

lemma irefresh_slots:
  assumes ok: "irefreshable sb inode dentry k" and mem: "k_ok k (k_alloc k)"
    and surv: "islot inode s = Some hs" "brindex sb (hid inode s) \<noteq> None"
  shows "\<exists>arr k1 l ii. au_kzrealloc \<lparr>hi_inode = None, hi_id = 0, hi_notify = None\<rparr> (the_hi inode)
        (nat (ii_bend (i_iinfo inode) + 1)) (nat (sbend sb + 1)) k = Some (Some arr, k1)
    \<and> ii_bstart (i_iinfo inode) < int (length arr)
    \<and> for_stay (hi_round sb) (\<lambda>l. ii_bend (il_ii l)) (ii_bstart (i_iinfo inode))
        \<lparr>il_ii = i_iinfo inode, il_arr = arr, il_update = 0, il_kern = k1\<rparr> = Some l
    \<and> (\<forall>fl. for_up (fill_round is_aufsd wrf dentry fl) (di_bstart (the_di dentry)) (di_bend (the_di dentry))
          (filled inode sb l) = Some (filled inode sb l))
    \<and> tight_range ((il_ii l)\<lparr>ii_hinode := Some (il_arr l)\<rparr>) = Some ii
    \<and> irefreshed sb inode k (inode\<lparr>i_iinfo := ii\<rparr>) (il_kern l)"
proof -
  let ?ii = "i_iinfo inode" and ?d = "the_di dentry"
  have r: "sb_ok sb" "ii_ok inode" "0 \<le> ii_bstart ?ii" "\<not> S_ISDIR (i_mode inode)"
    "di_ok sb dentry k" "0 \<le> di_bstart ?d"
    and md: "\<And>i h. islot inode i = Some h \<Longrightarrow> k_imode k h \<noteq> 0 \<and> \<not> S_ISDIR (k_imode k h)"
    and ag: "\<And>i p n. di_bstart ?d \<le> i \<Longrightarrow> i \<le> di_bend ?d \<Longrightarrow> hslot dentry i = Some p
          \<Longrightarrow> k_dinode k p = Some n \<Longrightarrow> \<exists>j. islot inode j = Some n \<and> brindex sb (hid inode j) = Some i"
    using ok unfolding irefreshable_def by blast+
  have hi: "ii_hinode ?ii = Some (the_hi inode)" using r(2) by (auto simp: ii_ok_def the_hi_def)
  obtain arr k1 l where al: "au_kzrealloc \<lparr>hi_inode = None, hi_id = 0, hi_notify = None\<rparr> (the_hi inode)
        (nat (ii_bend ?ii + 1)) (nat (sbend sb + 1)) k = Some (Some arr, k1)" "ii_bstart ?ii < int (length arr)"
    and run: "for_stay (hi_round sb) (\<lambda>l. ii_bend (il_ii l)) (ii_bstart ?ii)
        \<lparr>il_ii = ?ii, il_arr = arr, il_update = 0, il_kern = k1\<rparr> = Some l"
    and inv: "hi_inv sb k l"
    and sl: "\<And>j h. j < length (il_arr l) \<Longrightarrow>
         (hi_inode (il_arr l ! j) = Some h \<longleftrightarrow> (\<exists>i. islot inode i = Some h \<and> brindex sb (hid inode i) = Some (int j)))"
    and cnt: "\<And>h. k_icount (il_kern l) h = k_icount k h
          - int (card {i. islot inode (int i) = Some h \<and> brindex sb (hid inode (int i)) = None})"
    using irefresh_loop [OF ok mem] by blast
  have rl: "ii_bend (il_ii l) < int (length (il_arr l))" "sbend sb < int (length (il_arr l))" "0 \<le> ii_bstart (il_ii l)"
    "within (il_arr l) (il_ii l)" "icounted (il_arr l) (il_kern l)" "same_attrs k (il_kern l)"
    "ii_bstart (il_ii l) \<le> ii_bend (il_ii l)"
    using inv by (auto simp: hi_inv_def)
  let ?ii1 = "(il_ii l)\<lparr>ii_hinode := Some (il_arr l)\<rparr>"
  let ?i1 = "inode\<lparr>i_iinfo := ?ii1\<rparr>"
  have s1: "islot ?i1 i = (if 0 \<le> i \<and> i < int (length (il_arr l)) then hi_inode (il_arr l ! nat i) else None)" for i
    by (rule islot_arr) simp
  have slot: "islot ?i1 i = Some h \<longleftrightarrow> (\<exists>j. islot inode j = Some h \<and> brindex sb (hid inode j) = Some i)" for i h
  proof -
    have "0 \<le> i \<and> i < int (length (il_arr l))" if "brindex sb (hid inode j) = Some i" for j
      using find_brindex_brindex(2) [OF r(1) that] rl(2) by simp
    then show ?thesis using sl [of "nat i" h] by (auto simp: s1)
  qed
  have w1: "within (il_arr l) ?ii1" using rl(4) by (simp add: within_def)
  have ok1: "ii_ok ?i1" by (rule ii_ok_within [where a = "il_arr l"]) (use rl w1 in simp_all)
  have pos: "0 < k_icount (il_kern l) h" if "islot ?i1 i = Some h" for i h
  proof -
    have "0 < count_list (map hi_inode (il_arr l)) (Some h)"
      using that by (intro count_list_pos [of "nat i"]) (auto simp: s1 split: if_splits)
    moreover have "int (count_list (map hi_inode (il_arr l)) (Some h)) \<le> k_icount (il_kern l) h"
      using rl(5) by (simp add: icounted_def)
    ultimately show ?thesis by linarith
  qed
  let ?f = "filled inode sb l"
  have fill: "for_up (fill_round is_aufsd wrf dentry fl) (di_bstart ?d) (di_bend ?d) ?f = Some ?f" for fl
  proof (rule fill_nothing [where k = "il_kern l"])
    show "di_ok sb dentry (il_kern l)" using r(5) rl(6) by (simp add: di_ok_def same_attrs_def)
    fix i p n assume i: "di_bstart ?d \<le> i" "i \<le> di_bend ?d" "hslot dentry i = Some p" "k_dinode (il_kern l) p = Some n"
    then show "islot (if_inode ?f) i = Some n" using ag [OF i(1-3)] rl(6) slot by (simp add: same_attrs_def filled_def)
  qed (use r(6) ok1 pos in \<open>simp_all add: filled_def\<close>)
  obtain i0 where i0: "brindex sb (hid inode s) = Some i0" using surv(2) by blast
  then have u: "islot ?i1 i0 = Some hs" using slot surv(1) by blast
  then have u: "nat i0 < length (il_arr l)" "hi_inode (il_arr l ! nat i0) \<noteq> None" by (auto simp: s1 split: if_splits)
  obtain b e where tr: "tight_range ?ii1 = Some (?ii1\<lparr>ii_bstart := int b, ii_bend := e\<rparr>)" "b < length (il_arr l)"
    "hi_inode (il_arr l ! b) \<noteq> None" "e \<le> ii_bend ?ii1"
    "\<And>i. i < length (il_arr l) \<Longrightarrow> hi_inode (il_arr l ! i) \<noteq> None \<Longrightarrow> b \<le> i \<and> int i \<le> e"
    "if \<forall>i < length (il_arr l). hi_inode (il_arr l ! i) \<noteq> None \<longrightarrow> i = b then e = ii_bend ?ii1
       else int b < e \<and> hi_inode (il_arr l ! nat e) \<noteq> None"
    using tight_range_run [of ?ii1 "il_arr l" "nat i0"] rl w1 u by fastforce
  let ?ii2 = "?ii1\<lparr>ii_bstart := int b, ii_bend := e\<rparr>"
  let ?i2 = "inode\<lparr>i_iinfo := ?ii2\<rparr>"
  have s2: "islot ?i2 i = islot ?i1 i" for i
    unfolding s1 by (rule islot_arr) simp
  have be: "int b \<le> e" using tr(5) [OF tr(2,3)] by simp
  have ok2: "ii_ok ?i2"
    by (rule ii_ok_within [where a = "il_arr l"]) (use be tr(4,5) rl(1) in \<open>auto simp: within_def\<close>)
  have lone: "i = int b" if n: "islot ?i2 e = None" and i: "islot ?i2 i \<noteq> None" for i
  proof -
    have "0 \<le> e" "e < int (length (il_arr l))" using be tr(4) rl(1) by simp_all
    then have "\<not> hi_inode (il_arr l ! nat e) \<noteq> None" using n by (simp add: s2 s1)
    then have "\<forall>i < length (il_arr l). hi_inode (il_arr l ! i) \<noteq> None \<longrightarrow> i = b" using tr(6) by (auto split: if_splits)
    then have "nat i = b" "0 \<le> i" using i by (auto simp: s2 s1 split: if_splits)
    then show ?thesis by simp
  qed
  have "irefreshed sb inode k ?i2 (il_kern l)"
  proof (rule irefreshedI [where ii = ?ii2])
    show "islot ?i2 (ii_bstart ?ii2) \<noteq> None" using tr(2,3) by (simp add: s2 s1)
    show "islot ?i2 i = Some h \<longleftrightarrow> (\<exists>m. islot inode m = Some h \<and> brindex sb (hid inode m) = Some i)" for i h
      unfolding s2 by (rule slot)
    show "i = ii_bstart ?ii2" if "islot ?i2 (ii_bend ?ii2) = None" "islot ?i2 i \<noteq> None" for i
      using lone that by simp
    show "0 < k_icount (il_kern l) h" if "islot ?i2 i = Some h" for i h using that unfolding s2 by (rule pos)
  qed (use ok2 rl(6) cnt in \<open>simp_all add: same_attrs_def\<close>)
  then show ?thesis using al run fill tr(1) by blast
qed

text \<open>C7.
  Refreshing an inode that is not a directory: the loop ends; afterwards every hidden inode
  is at the index of the branch with its id, the ones of removed branches have been
  released once per slot and no other reference has changed, the range covers the slots
  in use and starts at the first one, and the inode is of the current generation. The
  end of the range is exact only when two slots are in use: with a single one left it stays
  where it was, beyond the slot in use and possibly beyond the branch table.
\<close>

theorem au_refresh_hinode_realigns:
  assumes ok: "irefreshable sb inode dentry k" and mem: "k_ok k (k_alloc k)"
    and surv: "islot inode s = Some hs" "brindex sb (hid inode s) \<noteq> None"
  shows "\<exists>inode' k'. au_refresh_hinode is_aufsd wrf sb inode dentry k = Some (0, inode', sb, k')
    \<and> (\<forall>i h. islot inode' i = Some h \<longleftrightarrow> (\<exists>j. islot inode j = Some h \<and> brindex sb (hid inode j) = Some i))
    \<and> (\<forall>h. k_icount k' h = k_icount k h
          - int (card {j. islot inode (int j) = Some h \<and> brindex sb (hid inode (int j)) = None}))
    \<and> ii_ok inode' \<and> islot inode' (ii_bstart (i_iinfo inode')) \<noteq> None
    \<and> (islot inode' (ii_bend (i_iinfo inode')) = None \<longrightarrow>
         (\<forall>i. islot inode' i \<noteq> None \<longrightarrow> i = ii_bstart (i_iinfo inode')))
    \<and> ii_generation (i_iinfo inode') = si_generation sb"
proof -
  let ?ii = "i_iinfo inode" and ?d = "the_di dentry"
  have r: "ii_ok inode" "0 \<le> ii_bstart ?ii" "\<not> S_ISDIR (i_mode inode)" "di_ok sb dentry k"
    and md: "\<And>i h. islot inode i = Some h \<Longrightarrow> k_imode k h \<noteq> 0 \<and> \<not> S_ISDIR (k_imode k h)"
    using ok unfolding irefreshable_def by blast+
  have hi: "ii_hinode ?ii = Some (the_hi inode)" using r(1) by (auto simp: ii_ok_def the_hi_def)
  from irefresh_slots [OF ok mem surv, of is_aufsd wrf] obtain arr k1 l ii where
    al: "au_kzrealloc \<lparr>hi_inode = None, hi_id = 0, hi_notify = None\<rparr> (the_hi inode)
        (nat (ii_bend ?ii + 1)) (nat (sbend sb + 1)) k = Some (Some arr, k1)" "ii_bstart ?ii < int (length arr)"
    and run: "for_stay (hi_round sb) (\<lambda>l. ii_bend (il_ii l)) (ii_bstart ?ii)
        \<lparr>il_ii = ?ii, il_arr = arr, il_update = 0, il_kern = k1\<rparr> = Some l"
    and fill: "\<And>fl. for_up (fill_round is_aufsd wrf dentry fl) (di_bstart ?d) (di_bend ?d) (filled inode sb l)
        = Some (filled inode sb l)"
    and tr: "tight_range ((il_ii l)\<lparr>ii_hinode := Some (il_arr l)\<rparr>) = Some ii"
    and rf: "irefreshed sb inode k (inode\<lparr>i_iinfo := ii\<rparr>) (il_kern l)" by blast
  let ?k = "il_kern l" and ?i2 = "inode\<lparr>i_iinfo := ii\<rparr>"
  have e2: "i_iinfo ?i2 = ii" by simp
  note f = irefreshed_facts [OF rf e2]
  obtain h where h: "islot ?i2 (ii_bstart ii) = Some h" using f(4) by blast
  then have "\<exists>i. islot inode i = Some h" using f(3) by blast
  then have "k_imode ?k h \<noteq> 0" "\<not> S_ISDIR (k_imode ?k h)" using md f(7) by auto
  then obtain i3 where i3: "au_cpup_attr_all ?k ?i2 = Some i3" "i_iinfo i3 = ii"
    using au_cpup_attr_all_nondir [of ?i2 h ?k] f(1,2,6) h by auto
  have "ii_bstart ii \<le> ii_bend ii" using f(1) by (simp add: ii_ok_def)
  then have hp: "au_h_iptr ?k ?i2 = Some (Some h)"
    using au_h_iptr_i_ok [OF f(1), of "ii_bstart ii" ?k] f(1,2,6) h by (simp add: au_h_iptr_def ibstart_def)
  let ?i4 = "if hi_inode (arr ! nat (ii_bstart ?ii)) \<noteq> Some h then i3 else ?i2"
  have same: "islot x = islot ?i2" "ii_ok x" if "i_iinfo x = ii" for x
    using that f(1) by (simp_all add: islot_def the_hi_def ii_ok_def fun_eq_iff)
  let ?i5 = "?i4\<lparr>i_iinfo := ii\<lparr>ii_generation := si_generation sb\<rparr>\<rparr>"
  have of3: "ii_of i3 = Some ii" "ii_of ?i2 = Some ii"
    using ii_of_ok [OF same(2) [OF i3(2)]] ii_of_ok [OF f(1)] i3(2) by simp_all
  have "au_refresh_hinode is_aufsd wrf sb inode dentry k = Some (0, ?i5, sb, ?k)"
    using r al run fill [unfolded filled_def] tr hi hp i3 of3
    by (simp add: au_refresh_hinode_def dbstart_def dbend_def au_update_iigen_def upd_ii_def Let_def)
  moreover have "islot ?i5 = islot ?i2" "ii_ok ?i5"
    using f(1) by (simp_all add: islot_def the_hi_def ii_ok_def fun_eq_iff)
  ultimately show ?thesis
    using f(3,4,5,8) by (intro exI [of _ ?i5] exI [of _ ?k]) (simp del: not_None_eq)
qed

text \<open>
  An inode of two branches, the first of which was removed: the table has one branch left,
  with the id of the second slot.
\<close>

definition old_inode :: aufs_inode where
  "old_inode = \<lparr>i_ino = 7, i_mode = 0x8000, i_nlink = 1, i_version = 0, i_attr = attr0, i_iinfo =
     \<lparr>ii_generation = 0, ii_bstart = 0, ii_bend = 1, ii_hinode =
        Some [\<lparr>hi_inode = Some 5, hi_id = 9, hi_notify = None\<rparr>, \<lparr>hi_inode = Some 6, hi_id = br_id (br_at (sb0 1) 0), hi_notify = None\<rparr>],
      ii_vdir = None\<rparr>\<rparr>"

definition one_dentry :: aufs_dentry where
  "one_dentry = \<lparr>d_fsdata = Some \<lparr>di_generation = 0, di_bstart = 0, di_bend = 0, di_bwh = - 1,
     di_bdiropq = - 1, di_hdentry = [Some 6], di_reval = 0\<rparr>, d_imode = Some 0x8000\<rparr>"

definition kern_r :: kern where
  "kern_r = kern0\<lparr>k_imode := (\<lambda>_. 0x8000)\<rparr>"

lemma old_inode_run:
  "map_option (\<lambda>(err, i, sb, k). (err, i_iinfo i, sbend sb))
     (au_refresh_hinode False (\<lambda>_. page_write) (sb0 1) old_inode one_dentry kern_r)
   = Some (0, \<lparr>ii_generation = 0, ii_bstart = 0, ii_bend = 1, ii_hinode =
        Some [\<lparr>hi_inode = Some 6, hi_id = 1, hi_notify = None\<rparr>, \<lparr>hi_inode = None, hi_id = 9, hi_notify = None\<rparr>],
      ii_vdir = None\<rparr>, 0)"
  by code_simp

lemma old_inode_slots:
  "islot old_inode i = (if i = 0 then Some 5 else if i = 1 then Some 6 else None)"
  "hid old_inode 0 = 9" "hid old_inode 1 = 1"
  by (auto simp: islot_def old_inode_def the_hi_def hid_def br_at_def sb0_def nth_Cons' split: if_splits)

text \<open>In this run the end of the range is left behind the branch table.\<close>

lemma au_refresh_hinode_stale_end:
  "\<exists>i sb k. au_refresh_hinode False (\<lambda>_. page_write) (sb0 1) old_inode one_dentry kern_r = Some (0, i, sb, k)
     \<and> islot i 0 = Some 6 \<and> islot i 1 = None \<and> sbend sb = 0 \<and> ii_bend (i_iinfo i) = 1"
proof -
  obtain i sb k where "au_refresh_hinode False (\<lambda>_. page_write) (sb0 1) old_inode one_dentry kern_r = Some (0, i, sb, k)"
    "i_iinfo i = \<lparr>ii_generation = 0, ii_bstart = 0, ii_bend = 1, ii_hinode =
        Some [\<lparr>hi_inode = Some 6, hi_id = 1, hi_notify = None\<rparr>, \<lparr>hi_inode = None, hi_id = 9, hi_notify = None\<rparr>],
      ii_vdir = None\<rparr>" "sbend sb = 0"
    using old_inode_run by auto
  then show ?thesis by (intro exI [of _ i] exI [of _ sb] exI [of _ k]) (simp add: islot_def the_hi_def)
qed

theorem au_refresh_hinode_realigns_witness:
  "\<exists>i k. au_refresh_hinode False (\<lambda>_. page_write) (sb0 1) old_inode one_dentry kern_r = Some (0, i, sb0 1, k)
     \<and> islot i 0 = Some 6 \<and> k_icount k 6 = 1"
proof -
  note sl = old_inode_slots
  have ri: "brindex (sb0 1) 9 = None" "brindex (sb0 1) 1 = Some 0"
    by code_simp+
  have hd: "hslot one_dentry i = (if i = 0 then Some 6 else None)" for i
    by (auto simp: hslot_def one_dentry_def the_di_def)
  have ag: "\<exists>j. islot old_inode j = Some n \<and> brindex (sb0 1) (hid old_inode j) = Some i"
    if "hslot one_dentry i = Some q" "k_dinode kern_r q = Some n" for i q n
    using that ri by (intro exI [of _ 1]) (auto simp: hd sl kern_r_def kern0_def split: if_splits)
  have "ii_ok old_inode" "icounted (the_hi old_inode) kern_r"
    by (auto simp: ii_ok_def sl icounted_def) (simp_all add: old_inode_def the_hi_def kern_r_def kern0_def)
  moreover have "di_ok (sb0 1) one_dentry kern_r" by (auto simp: di_ok_def one_dentry_def kern_r_def kern0_def)
  moreover have "sb_ok (sb0 1)" by (rule sb0_ok) simp
  ultimately have ok: "irefreshable (sb0 1) old_inode one_dentry kern_r"
    unfolding irefreshable_def using ag sl
    by (auto simp: kern_r_def kern0_def S_ISDIR_def one_dentry_def the_di_def split: if_splits)
      (simp_all add: old_inode_def)
  have "k_ok kern_r (k_alloc kern_r)" by (simp add: kern_r_def kern0_def)
  from au_refresh_hinode_realigns [OF ok this, of 1 6 False "\<lambda>_. page_write"] sl ri obtain i k where
    "au_refresh_hinode False (\<lambda>_. page_write) (sb0 1) old_inode one_dentry kern_r = Some (0, i, sb0 1, k)"
    "\<forall>j h. islot i j = Some h \<longleftrightarrow> (\<exists>m. islot old_inode m = Some h \<and> brindex (sb0 1) (hid old_inode m) = Some j)"
    "k_icount k 6 = k_icount kern_r 6
       - int (card {m. islot old_inode (int m) = Some 6 \<and> brindex (sb0 1) (hid old_inode (int m)) = None})" by auto
  moreover have "card {m. islot old_inode (int m) = Some 6 \<and> brindex (sb0 1) (hid old_inode (int m)) = None} = 0"
  proof -
    have "{m. islot old_inode (int m) = Some 6 \<and> brindex (sb0 1) (hid old_inode (int m)) = None} = {}"
      using ri sl by auto
    then show ?thesis by (simp only: card.empty)
  qed
  moreover have "k_icount kern_r 6 = 1" by (simp add: kern_r_def kern0_def)
  moreover have "\<exists>m. islot old_inode m = Some 6 \<and> brindex (sb0 1) (hid old_inode m) = Some 0"
    using ri sl by (intro exI [of _ 1]) simp
  ultimately show ?thesis by (intro exI [of _ i] exI [of _ k]) simp
qed

section \<open>Revalidating the hidden dentries\<close>

text \<open>
  A hidden dentry agrees with the aufs inode when its own filesystem finds it valid and,
  where users may change branches directly, when existence, type and inode are the same.
\<close>

definition agrees :: "(nat \<Rightarrow> bool option) \<Rightarrow> bool \<Rightarrow> aufs_inode option \<Rightarrow> kern \<Rightarrow> int \<Rightarrow> nat \<Rightarrow> bool" where
  "agrees reval udba inode k i h \<longleftrightarrow> reval h \<noteq> Some False \<and> (udba \<longrightarrow>
     (case inode of
        None \<Rightarrow> (case k_dinode k h of None \<Rightarrow> True | Some n \<Rightarrow> k_inlink k n = 0 \<and> k_imode k n AND S_IFMT = 0)
      | Some a \<Rightarrow> islot a i = k_dinode k h \<and> ii_bstart (i_iinfo a) \<le> i \<and> i \<le> ii_bend (i_iinfo a)
          \<and> (case k_dinode k h of
               None \<Rightarrow> i_nlink a \<le> 0 \<and> i_mode a AND S_IFMT = 0
             | Some n \<Rightarrow> (0 < i_nlink a \<longleftrightarrow> 0 < k_inlink k n) \<and> i_mode a AND S_IFMT = k_imode k n AND S_IFMT)))"

lemma reval_round_run:
  assumes di: "di_ok sb d k" and i: "di_bstart (the_di d) \<le> i" "i \<le> di_bend (the_di d)" "0 \<le> i"
    and ii: "\<And>a. inode = Some a \<Longrightarrow> ii_ok a \<and> (\<forall>i h. islot a i = Some h \<longrightarrow> 0 < k_icount k h)"
  shows "reval_round reval udba d inode k i err =
    (case hslot d i of None \<Rightarrow> Some (True, err)
     | Some h \<Rightarrow> Some (if agrees reval udba inode k i h then (True, err) else (False, - EINVAL)))"
proof (cases "hslot d i")
  case None
  then show ?thesis by (simp add: reval_round_def au_h_dptr_i_ok [OF di i(2,1)])
next
  case (Some h)
  show ?thesis
  proof (cases inode)
    case None
    then show ?thesis using Some
      by (auto simp: reval_round_def au_h_dptr_i_ok [OF di i(2,1)] agrees_def split: option.split)
  next
    case a: (Some a)
    have o: "ii_ok a" "\<And>h. islot a i = Some h \<Longrightarrow> 0 < k_icount k h" using ii [OF a] by auto
    have "ii_bstart (i_iinfo a) \<le> i \<Longrightarrow> i \<le> ii_bend (i_iinfo a) \<Longrightarrow> au_h_iptr_i k a i = Some (islot a i)"
      using au_h_iptr_i_ok [OF o(1) i(3)] o(2) by blast
    then show ?thesis using Some a o(1)
      by (auto simp: reval_round_def au_h_dptr_i_ok [OF di i(2,1)] agrees_def ibstart_def ibend_def not_le split: option.split)
  qed
qed

text \<open>C9.
  The revalidation of the hidden dentries accepts exactly when every hidden dentry it
  looks at agrees with the aufs inode: the first one of a file, and for a directory
  all down to the visible tail; it never crashes on well-formed infos.
\<close>

theorem hidden_d_revalidate_iff:
  assumes di: "di_ok sb d k" and b: "0 \<le> di_bstart (the_di d)"
    and ii: "\<forall>a. inode = Some a \<longrightarrow> ii_ok a \<and> 0 \<le> ii_bstart (i_iinfo a) \<and> (\<forall>i h. islot a i = Some h \<longrightarrow> 0 < k_icount k h)"
    and t: "(if \<exists>a. inode = Some a \<and> S_ISDIR (i_mode a) then dbtaildir d else dbstart d) = Some tail"
      "tail \<le> di_bend (the_di d)"
    and udba: "udba = (au_flag_test sb (AuFlag_UDBA_REVAL OR AuFlag_UDBA_INOTIFY) \<noteq> 0)"
  shows "hidden_d_revalidate reval sb d inode k = Some
    (if \<forall>i h. di_bstart (the_di d) \<le> i \<longrightarrow> i \<le> tail \<longrightarrow> hslot d i = Some h \<longrightarrow> agrees reval udba inode k i h
     then 0 else - EINVAL)"
proof -
  let ?s = "di_bstart (the_di d)"
  let ?ok = "\<lambda>i. \<forall>h. hslot d i = Some h \<longrightarrow> agrees reval udba inode k i h"
  have run: "reval_round reval udba d inode k i err = Some (if ?ok i then (True, err) else (False, - EINVAL))"
    if "?s \<le> i" "i \<le> tail" for i err
  proof -
    have "reval_round reval udba d inode k i err = (case hslot d i of None \<Rightarrow> Some (True, err)
     | Some h \<Rightarrow> Some (if agrees reval udba inode k i h then (True, err) else (False, - EINVAL)))"
      by (rule reval_round_run [OF di]) (use that t(2) b ii in auto)
    then show ?thesis by (cases "hslot d i") auto
  qed
  have "\<exists>r. for_up (reval_round reval udba d inode k) ?s tail 0 = Some r
      \<and> r = (if \<forall>i. ?s \<le> i \<longrightarrow> i \<le> tail \<longrightarrow> ?ok i then 0 else - EINVAL)"
  proof (cases "?s \<le> tail + 1")
    case True
    show ?thesis
    proof (rule for_up_rule [where I = "\<lambda>j (r::int). r = 0 \<and> (\<forall>i. ?s \<le> i \<longrightarrow> i < j \<longrightarrow> ?ok i)"])
      fix j and r :: int assume j: "?s \<le> j" "j \<le> tail" and I: "r = 0 \<and> (\<forall>i. ?s \<le> i \<longrightarrow> i < j \<longrightarrow> ?ok i)"
      show "\<exists>c u. reval_round reval udba d inode k j r = Some (c, u) \<and>
          (if c then u = 0 \<and> (\<forall>i. ?s \<le> i \<longrightarrow> i < j + 1 \<longrightarrow> ?ok i)
           else u = (if \<forall>i. ?s \<le> i \<longrightarrow> i \<le> tail \<longrightarrow> ?ok i then 0 else - EINVAL))"
      proof (cases "?ok j")
        case True
        then have "?ok i" if "?s \<le> i" "i < j + 1" for i using I that by (cases "i = j") auto
        then show ?thesis using True I run [OF j] by auto
      next
        case False
        then show ?thesis using run [OF j] j by auto
      qed
    qed (use True in auto)
  next
    case False
    then show ?thesis by auto
  qed
  moreover have "hidden_d_revalidate reval sb d inode k = for_up (reval_round reval udba d inode k) ?s tail 0"
  proof (cases inode)
    case None
    then show ?thesis using t(1) di by (simp add: hidden_d_revalidate_def udba dbstart_def Let_def)
  next
    case (Some a)
    then have a: "ii_ok a" "0 \<le> ii_bstart (i_iinfo a)" "\<forall>i h. islot a i = Some h \<longrightarrow> 0 < k_icount k h" using ii by auto
    have "\<exists>p. au_h_iptr k a = Some p"
      using au_h_iptr_i_ok [OF a(1,2)] a by (auto simp: au_h_iptr_def ibstart_def ii_ok_def)
    then show ?thesis using Some t(1) di
      by (auto simp: hidden_d_revalidate_def udba dbstart_def Let_def)
  qed
  ultimately show ?thesis by auto
qed

theorem hidden_d_revalidate_iff_witness:
  "hidden_d_revalidate (\<lambda>h. Some (h \<noteq> 6)) (sb0 1) one_dentry None kern_r = Some (- EINVAL)"
proof -
  have di: "di_ok (sb0 1) one_dentry kern_r" by (auto simp: di_ok_def one_dentry_def kern_r_def kern0_def)
  have s: "dbstart one_dentry = Some 0" "di_bstart (the_di one_dentry) = 0" "di_bend (the_di one_dentry) = 0"
      "hslot one_dentry 0 = Some 6"
    by (simp_all add: dbstart_def dtodi_def one_dentry_def the_di_def hslot_def)
  have "hidden_d_revalidate (\<lambda>h. Some (h \<noteq> 6)) (sb0 1) one_dentry None kern_r = Some
    (if \<forall>i h. 0 \<le> i \<longrightarrow> i \<le> (0::int) \<longrightarrow> hslot one_dentry i = Some h
          \<longrightarrow> agrees (\<lambda>h. Some (h \<noteq> 6)) (au_flag_test (sb0 1) (AuFlag_UDBA_REVAL OR AuFlag_UDBA_INOTIFY) \<noteq> 0) None kern_r i h
     then 0 else - EINVAL)"
    using hidden_d_revalidate_iff [OF di, where inode = None and tail = 0] s by simp
  moreover have "\<not> agrees (\<lambda>h. Some (h \<noteq> 6)) u None kern_r 0 6" for u by (simp add: agrees_def)
  ultimately show ?thesis using s(4) by auto
qed

section \<open>The release of a dentry\<close>

text \<open>
  The release of a dentry puts every hidden dentry of its range once per slot, up to and
  including the last one, and frees the array and the info structure.
\<close>

theorem aufs_d_release_balanced:
  assumes di: "d_fsdata d = Some di" and "di_bstart di \<le> di_bend di" and "di_bend di < int (length (di_hdentry di))"
    and b: "0 \<le> di_bstart di"
  shows "\<exists>k'. aufs_d_release d k = Some k' \<and> k_live k' = k_live k - 2
    \<and> (\<forall>p. k_dcount k' p = k_dcount k p
          - int (card {i. di_bstart di \<le> i \<and> i \<le> di_bend di \<and> hslot d i = Some p}))"
proof -
  have hs: "hslot d i = di_hdentry di ! nat i" if "0 \<le> i" "i \<le> di_bend di" for i
    using that assms by (simp add: hslot_def the_di_def)
  let ?I = "\<lambda>j (k' :: kern). k_live k' = k_live k \<and> (\<forall>p. k_dcount k' p = k_dcount k p
          - int (card {i. di_bstart di \<le> i \<and> i < j \<and> hslot d i = Some p}))"
  have "\<exists>k'. for_up (release_round (di_hdentry di)) (di_bstart di) (di_bend di) k = Some k' \<and> ?I (di_bend di + 1) k'"
  proof (rule for_up_total)
    have "{i. di_bstart di \<le> i \<and> i < di_bstart di \<and> hslot d i = Some p} = {}" for p by auto
    then show "?I (di_bstart di) k" by (simp only: card.empty) simp
    fix j and k' :: kern assume j: "di_bstart di \<le> j" "j \<le> di_bend di" and I: "?I j k'"
    have "release_round (di_hdentry di) j k' = Some (True, dput (hslot d j) k')"
      using j assms hs by (simp add: release_round_def)
    moreover have "?I (j + 1) (dput (hslot d j) k')"
      using I by (simp add: card_range_step [OF j(1)] dput_dcount del: zle_add1_eq_le)
    ultimately show "\<exists>u. release_round (di_hdentry di) j k' = Some (True, u) \<and> ?I (j + 1) u" by blast
  qed (use assms in simp)
  then obtain k' where "for_up (release_round (di_hdentry di)) (di_bstart di) (di_bend di) k = Some k'" "?I (di_bend di + 1) k'"
    by blast
  then show ?thesis using assms
    by (intro exI [of _ "kfree (kfree k')"]) (simp add: aufs_d_release_def kfree_def zle_add1_eq_le)
qed

theorem aufs_d_release_balanced_witness:
  "\<exists>k'. aufs_d_release dentry0 kern0 = Some k' \<and> k_live k' = - 2"
  using aufs_d_release_balanced [of dentry0 "the_di dentry0" kern0]
  by (auto simp: dentry0_def the_di_def kern0_def)

end
