(* ===== verification/Aufs_Cpup.thy ===== *)
theory Aufs_Cpup
  imports Aufs_Branch Aufs_Refresh
begin

text \<open>
  Copy-up (cpup.c): a file of a lower branch is made anew in a writable branch above it,
  with the missing parent directories. A failed copy is taken back. The operations of the
  hidden filesystem that only copy-up uses stand beside \<open>vfs\<close> in \<open>cpup_env\<close>.
\<close>

section \<open>The environment\<close>

text \<open>\<open>struct iattr\<close>, the request to change attributes.\<close>

record iattr =
  at_valid :: "32 word"
  at_mode :: "32 word"
  at_uid :: nat
  at_gid :: nat
  at_atime :: int
  at_mtime :: int

text \<open>
  \<open>ce_readlink\<close> gives the length, or an error, and the bytes stored; \<open>ce_cap\<close> is
  \<open>capable(CAP_MKNOD)\<close>. \<open>ce_xino\<close> writes to a table of inode numbers, the four functions behind
  it work on the files that are copied.
\<close>

record cpup_env =
  ce_vfs :: vfs
  ce_aufsd :: bool
  ce_cap :: bool
  ce_symlink :: "nat \<Rightarrow> nat \<Rightarrow> byte list \<Rightarrow> 32 word \<Rightarrow> kern \<Rightarrow> int \<times> kern"
  ce_mknod :: "nat \<Rightarrow> nat \<Rightarrow> 32 word \<Rightarrow> nat \<Rightarrow> kern \<Rightarrow> int \<times> kern"
  ce_notify :: "nat \<Rightarrow> iattr \<Rightarrow> kern \<Rightarrow> int \<times> kern"
  ce_readlink :: "nat \<Rightarrow> nat \<Rightarrow> kern \<Rightarrow> int \<times> byte list"
  ce_xino :: "nat \<Rightarrow> writef"
  ce_read :: readf
  ce_write :: writef
  ce_seek :: seekf
  ce_trunc :: truncf

text \<open>The work queue runs as root.\<close>

definition as_root :: "cpup_env \<Rightarrow> cpup_env" where
  "as_root E = E\<lparr>ce_vfs := (ce_vfs E)\<lparr>vf_fsuid := 0\<rparr>, ce_aufsd := True, ce_cap := True\<rparr>"

text \<open>
  What copy-up changes: the dentry, its inode, whether \<open>d_drop\<close> was called for it, the superblock
  and the store.
\<close>

record cpup_st =
  cp_dentry :: aufs_dentry
  cp_inode :: aufs_inode
  cp_dropped :: bool
  cp_sb :: aufs_sb
  cp_kern :: kern

definition h_at :: "cpup_st \<Rightarrow> int \<Rightarrow> nat option option" where
  "h_at st bindex = au_h_dptr_i (cp_kern st) (cp_dentry st) bindex"

section \<open>The times of the parent directory\<close>

text \<open>The aufs dentry of \<open>struct dtime\<close> only leads to the superblock and is left out.\<close>

record dtime =
  dt_h_dentry :: nat
  dt_atime :: int
  dt_mtime :: int

definition dtime_store :: "nat \<Rightarrow> kern \<Rightarrow> dtime option" where
  "dtime_store hidden_dentry k =
     do { inode \<leftarrow> k_dinode k hidden_dentry;
          Some \<lparr>dt_h_dentry = hidden_dentry, dt_atime = ia_atime (k_iattr k inode),
                dt_mtime = ia_mtime (k_iattr k inode)\<rparr> }"

definition ATTR_MODE :: "32 word" where "ATTR_MODE = 1"
definition ATTR_UID :: "32 word" where "ATTR_UID = 2"
definition ATTR_GID :: "32 word" where "ATTR_GID = 4"
definition ATTR_ATIME :: "32 word" where "ATTR_ATIME = 16"
definition ATTR_MTIME :: "32 word" where "ATTR_MTIME = 32"
definition ATTR_ATIME_SET :: "32 word" where "ATTR_ATIME_SET = 128"
definition ATTR_MTIME_SET :: "32 word" where "ATTR_MTIME_SET = 256"
definition ATTR_FORCE :: "32 word" where "ATTR_FORCE = 512"

text \<open>An error is only warned about. The fields that are not valid are not read.\<close>

definition dtime_revert :: "cpup_env \<Rightarrow> dtime \<Rightarrow> kern \<Rightarrow> kern" where
  "dtime_revert E dt k =
     snd (ce_notify E (dt_h_dentry dt)
       \<lparr>at_valid = ATTR_FORCE OR ATTR_MTIME OR ATTR_MTIME_SET OR ATTR_ATIME OR ATTR_ATIME_SET,
        at_mode = 0, at_uid = 0, at_gid = 0, at_atime = dt_atime dt, at_mtime = dt_mtime dt\<rparr> k)"

section \<open>Attributes and data\<close>

definition cpup_iattr :: "cpup_env \<Rightarrow> nat \<Rightarrow> nat \<Rightarrow> kern \<Rightarrow> (int \<times> kern) option" where
  "cpup_iattr E hidden_dst hidden_src k =
     do { hidden_idst \<leftarrow> k_dinode k hidden_dst;
          hidden_isrc \<leftarrow> k_dinode k hidden_src;
          let a = k_iattr k hidden_isrc;
          let (err, k) = ce_notify E hidden_dst
                \<lparr>at_valid = ATTR_FORCE OR ATTR_MODE OR ATTR_UID OR ATTR_GID OR ATTR_ATIME
                   OR ATTR_MTIME OR ATTR_ATIME_SET OR ATTR_MTIME_SET,
                 at_mode = k_imode k hidden_isrc, at_uid = ia_uid a, at_gid = ia_gid a,
                 at_atime = ia_atime a, at_mtime = ia_mtime a\<rparr> k;
          Some (err, if err = 0
                     then k\<lparr>k_iattr := (k_iattr k)(hidden_idst :=
                            (k_iattr k hidden_idst)\<lparr>ia_flags := ia_flags (k_iattr k hidden_isrc)\<rparr>)\<rparr>
                     else k) }"

definition O_CREAT :: "32 word" where "O_CREAT = 0x40"
definition O_WRONLY :: "32 word" where "O_WRONLY = 1"
definition O_LARGEFILE :: "32 word" where "O_LARGEFILE = 0x8000"
definition O_NOATIME :: "32 word" where "O_NOATIME = 0x40000"

text \<open>
  \<open>hidden_open\<close> of file.c. A failing \<open>dentry_open\<close> gives back the references it was handed.
\<close>

definition hidden_open ::
    "vfs \<Rightarrow> aufs_dentry \<Rightarrow> aufs_inode option \<Rightarrow> int \<Rightarrow> 32 word \<Rightarrow> aufs_sb \<Rightarrow> kern
       \<Rightarrow> ((int + nat) \<times> aufs_sb \<times> kern) option" where
  "hidden_open vf dentry inode bindex flags sb k =
     do { hd \<leftarrow> au_h_dptr_i k dentry bindex; hidden_dentry \<leftarrow> hd;
          _ \<leftarrow> k_dinode k hidden_dentry;
          br \<leftarrow> stobr sb bindex;
          let sb = br_get br sb;
          ro \<leftarrow> test_ro k sb bindex inode;
          let flags = (if ro \<noteq> 0 then au_file_roflags flags else flags) AND NOT O_CREAT;
          let mnt = br_mnt (s_br sb br);
          let (r, k) = vf_dentry_open vf hidden_dentry mnt flags (mntget mnt (dget hidden_dentry k));
          case r of
            Inr hidden_file \<Rightarrow> Some (Inr hidden_file, sb, k)
          | Inl err \<Rightarrow> Some (Inl err, br_put br sb, k) }"

definition sbr_put :: "aufs_sb \<Rightarrow> int \<Rightarrow> aufs_sb option" where
  "sbr_put sb bindex = map_option (\<lambda>br. br_put br sb) (stobr sb bindex)"

text \<open>One round of the loop over the two files; the label chooses what is released on an error.\<close>

definition open_one ::
    "cpup_env \<Rightarrow> int \<Rightarrow> 32 word \<Rightarrow> cpup_st \<Rightarrow> ((int + nat) \<times> cpup_st) option" where
  "open_one E bindex flags st =
     do { hd \<leftarrow> h_at st bindex; h \<leftarrow> hd; hidden_inode \<leftarrow> k_dinode (cp_kern st) h;
          _ \<leftarrow> debug_on (\<not> S_ISREG (k_imode (cp_kern st) hidden_inode));
          (r, sb, k) \<leftarrow> hidden_open (ce_vfs E) (cp_dentry st) (Some (cp_inode st)) bindex flags
                         (cp_sb st) (cp_kern st);
          Some (r, st\<lparr>cp_sb := sb, cp_kern := k\<rparr>) }"

definition put_one :: "nat \<Rightarrow> int \<Rightarrow> cpup_st \<Rightarrow> cpup_st option" where
  "put_one file bindex st =
     map_option (\<lambda>sb. st\<lparr>cp_sb := sb, cp_kern := fput file (cp_kern st)\<rparr>) (sbr_put (cp_sb st) bindex)"

text \<open>The second round with the copy behind the loop, and then the whole.\<close>

definition copy_to ::
    "cpup_env \<Rightarrow> int \<Rightarrow> nat \<Rightarrow> int \<Rightarrow> cpup_st \<Rightarrow> (int \<times> cpup_st) option" where
  "copy_to E bdst src len st =
     do { (r, st) \<leftarrow> open_one E bdst (O_WRONLY OR O_NOATIME OR O_LARGEFILE) st;
          case r of
            Inl err \<Rightarrow> Some (err, st)
          | Inr dst \<Rightarrow>
              do { (err, st) \<leftarrow>
                     (if k_fop (cp_kern st) dst = None then Some (- EINVAL, st)
                      else do { (err, sparse, k) \<leftarrow>
                                  au_copy_file (ce_read E) (ce_write E) (ce_seek E) (ce_trunc E)
                                    dst src (of_int len) False (cp_kern st);
                                Some (err, st\<lparr>cp_kern := k,
                                  cp_dropped := cp_dropped st \<or> (err = 0 \<and> sparse)\<rparr>) });
                   st \<leftarrow> put_one dst bdst st;
                   Some (err, st) } }"

definition cpup_regular ::
    "cpup_env \<Rightarrow> int \<Rightarrow> int \<Rightarrow> int \<Rightarrow> cpup_st \<Rightarrow> (int \<times> cpup_st) option" where
  "cpup_regular E bdst bsrc len st =
     do { _ \<leftarrow> debug_on (bsrc \<le> bdst);
          _ \<leftarrow> debug_on (len = 0);
          ro \<leftarrow> test_ro (cp_kern st) (cp_sb st) bdst (Some (cp_inode st));
          _ \<leftarrow> debug_on (ro \<noteq> 0);
          (r, st) \<leftarrow> open_one E bsrc (O_NOATIME OR O_LARGEFILE) st;
          case r of
            Inl err \<Rightarrow> Some (err, st)
          | Inr src \<Rightarrow>
              do { (err, st) \<leftarrow> (if k_fop (cp_kern st) src = None then Some (- EINVAL, st)
                                else copy_to E bdst src len st);
                   st \<leftarrow> put_one src bsrc st;
                   Some (err, st) } }"

section \<open>Making the entry\<close>

definition CPUP_DTIME :: "32 word" where "CPUP_DTIME = 1"
definition CPUP_LOCKED_GHDIR :: "32 word" where "CPUP_LOCKED_GHDIR = 2"
definition S_IWUSR :: "32 word" where "S_IWUSR = 0x80"

text \<open>The second argument is \<open>parent && IS_ROOT(parent)\<close>.\<close>

definition au_flags_cpup :: "32 word \<Rightarrow> bool \<Rightarrow> 32 word" where
  "au_flags_cpup init root = (if root then init OR CPUP_LOCKED_GHDIR else init)"

text \<open>The cases of the switch over the file type, with the new hidden dentry and its directory.\<close>

definition entry_reg ::
    "cpup_env \<Rightarrow> nat \<Rightarrow> nat \<Rightarrow> nat \<Rightarrow> int \<Rightarrow> int \<Rightarrow> int \<Rightarrow> cpup_st \<Rightarrow> (int \<times> cpup_st) option" where
  "entry_reg E hidden_dir hidden_dst hidden_inode bdst bsrc len st =
     (let mode = k_imode (cp_kern st) hidden_inode;
          (err, k) = vf_create (ce_vfs E) hidden_dir hidden_dst (mode OR S_IWUSR) (cp_kern st);
          st = st\<lparr>cp_kern := k\<rparr>
      in if err \<noteq> 0 then Some (err, st)
         else do { let l = int (ia_size (k_iattr k hidden_inode));
                   let len = (if len = - 1 \<or> l < len then l else len);
                   (err, st) \<leftarrow> (if len \<noteq> 0 then cpup_regular E bdst bsrc len st else Some (0, st));
                   if err = 0 then Some (0, st)
                   else let (rerr, k) = vf_unlink (ce_vfs E) hidden_dir hidden_dst (cp_kern st)
                        in Some (if rerr \<noteq> 0 then - EIO else err, st\<lparr>cp_kern := k\<rparr>) })"

definition entry_dir :: "cpup_env \<Rightarrow> nat \<Rightarrow> nat \<Rightarrow> 32 word \<Rightarrow> cpup_st \<Rightarrow> (int \<times> cpup_st) option" where
  "entry_dir E hidden_dir hidden_dst mode st =
     (let (err, k) = vf_mkdir (ce_vfs E) hidden_dir hidden_dst mode (cp_kern st);
          st = st\<lparr>cp_kern := k\<rparr>
      in if err \<noteq> 0 then Some (err, st)
         else do { inode \<leftarrow> au_cpup_attr_nlink k (cp_inode st); Some (0, st\<lparr>cp_inode := inode\<rparr>) })"

text \<open>
  The buffer of \<open>__getname\<close> has \<open>PATH_MAX\<close> bytes, and the terminating null goes behind the
  bytes read.
\<close>

definition entry_lnk :: "cpup_env \<Rightarrow> nat \<Rightarrow> nat \<Rightarrow> nat \<Rightarrow> 32 word \<Rightarrow> cpup_st \<Rightarrow> (int \<times> cpup_st) option" where
  "entry_lnk E hidden_dir hidden_dst hidden_src mode st =
     (let (ok, k) = kmalloc (cp_kern st)
      in if \<not> ok then Some (- ENOMEM, st\<lparr>cp_kern := k\<rparr>)
         else let (symlen, sym) = ce_readlink E hidden_src PATH_MAX k
              in if 0 < symlen
                 then do { _ \<leftarrow> debug_on (int PATH_MAX \<le> symlen);
                           let (err, k) = ce_symlink E hidden_dir hidden_dst (take (nat symlen) sym) mode k;
                           Some (err, st\<lparr>cp_kern := kfree k\<rparr>) }
                 else Some (symlen, st\<lparr>cp_kern := kfree k\<rparr>))"

definition entry_nod :: "cpup_env \<Rightarrow> nat \<Rightarrow> nat \<Rightarrow> nat \<Rightarrow> 32 word \<Rightarrow> cpup_st \<Rightarrow> (int \<times> cpup_st) option" where
  "entry_nod E hidden_dir hidden_dst hidden_inode mode st =
     (let (err, k) = ce_mknod E hidden_dir hidden_dst mode (ia_rdev (k_iattr (cp_kern st) hidden_inode))
                       (cp_kern st)
      in Some (err, st\<lparr>cp_kern := k\<rparr>))"

definition cpup_entry ::
    "cpup_env \<Rightarrow> int \<Rightarrow> int \<Rightarrow> int \<Rightarrow> 32 word \<Rightarrow> cpup_st \<Rightarrow> (int \<times> cpup_st) option" where
  "cpup_entry E bdst bsrc len flags st =
     do { ro \<leftarrow> test_ro (cp_kern st) (cp_sb st) bdst None;
          _ \<leftarrow> debug_on (bsrc \<le> bdst \<or> ro \<noteq> 0);
          hd \<leftarrow> h_at st bsrc; hidden_src \<leftarrow> hd; hidden_inode \<leftarrow> k_dinode (cp_kern st) hidden_src;
          hd \<leftarrow> h_at st bdst; hidden_dst \<leftarrow> hd;
          _ \<leftarrow> debug_on (k_dinode (cp_kern st) hidden_dst \<noteq> None);
          let hidden_parent = k_dparent (cp_kern st) hidden_dst;
          hidden_dir \<leftarrow> k_dinode (cp_kern st) hidden_parent;
          dt \<leftarrow> dtime_store hidden_parent (cp_kern st);
          let mode = k_imode (cp_kern st) hidden_inode;
          let ty = mode AND S_IFMT;
          (err, st) \<leftarrow>
            (if ty = 0x8000 then entry_reg E hidden_dir hidden_dst hidden_inode bdst bsrc len st
             else if ty = S_IFDIR then entry_dir E hidden_dir hidden_dst mode st
             else if ty = 0xA000 then entry_lnk E hidden_dir hidden_dst hidden_src mode st
             else if ty = 0x2000 \<or> ty = 0x6000
             then do { _ \<leftarrow> debug_on (\<not> ce_cap E); entry_nod E hidden_dir hidden_dst hidden_inode mode st }
             else if ty = 0x1000 \<or> ty = 0xC000
             then entry_nod E hidden_dir hidden_dst hidden_inode mode st
             else Some (- EIO, st));
          Some (err, if flags AND CPUP_DTIME \<noteq> 0
                     then st\<lparr>cp_kern := dtime_revert E dt (cp_kern st)\<rparr> else st) }"

section \<open>One file\<close>

text \<open>
  The inode has a hidden one on the target branch already: a link to it is made, found by its
  pseudo link.
\<close>

definition cpup_link ::
    "cpup_env \<Rightarrow> int \<Rightarrow> nat \<Rightarrow> nat \<Rightarrow> cpup_st \<Rightarrow> (int \<times> cpup_st) option" where
  "cpup_link E bdst hidden_dir hidden_dst st =
     do { (r, k) \<leftarrow> lkup_plink (ce_vfs E) (cp_sb st) bdst (cp_inode st) (cp_kern st);
          case r of
            Inl err \<Rightarrow> Some (err, st\<lparr>cp_kern := k\<rparr>)
          | Inr hidden_src \<Rightarrow>
              do { _ \<leftarrow> k_dinode k hidden_src;
                   let (err, k) = vf_link (ce_vfs E) hidden_src hidden_dir hidden_dst k;
                   Some (err, st\<lparr>cp_kern := dput (Some hidden_src) k\<rparr>) } }"

text \<open>A new entry is recorded in the inode; \<open>iaddr\<close> is the address of the inode.\<close>

definition cpup_done ::
    "cpup_env \<Rightarrow> nat \<Rightarrow> int \<Rightarrow> int \<Rightarrow> nat \<Rightarrow> nat \<Rightarrow> nat \<Rightarrow> cpup_st \<Rightarrow> (int \<times> cpup_st) option" where
  "cpup_done E iaddr bdst old_ibstart hidden_src hidden_dst dst_inode st =
     do { let isdir = S_ISDIR (k_imode (cp_kern st) dst_inode);
          inode \<leftarrow> (if bdst < old_ibstart then set_ibstart (cp_sb st) (cp_inode st) bdst
                    else Some (cp_inode st));
          (inode, sb, k) \<leftarrow> set_h_iptr (ce_aufsd E) (ce_xino E) inode bdst (Some dst_inode)
             (au_hi_flags (cp_sb st) isdir) (cp_sb st) (igrab dst_inode (cp_kern st));
          src_inode \<leftarrow> k_dinode k hidden_src;
          (sb, k) \<leftarrow>
            (if \<not> isdir \<and> 1 < k_inlink k src_inode \<and> au_flag_test sb AuFlag_PLINK \<noteq> 0
             then do { (_, sb, k) \<leftarrow> append_plink (ce_aufsd E) (ce_vfs E) (\<lambda>_. inode) iaddr hidden_dst bdst sb k;
                       Some (sb, k) }
             else Some (sb, k));
          Some (0, st\<lparr>cp_inode := inode, cp_sb := sb, cp_kern := k\<rparr>) }"

text \<open>A broken entry is removed, and the times of its directory are put back.\<close>

definition cpup_undo ::
    "cpup_env \<Rightarrow> nat \<Rightarrow> nat \<Rightarrow> bool \<Rightarrow> int \<Rightarrow> cpup_st \<Rightarrow> (int \<times> cpup_st) option" where
  "cpup_undo E hidden_dir hidden_dst isdir err st =
     do { dt \<leftarrow> dtime_store (k_dparent (cp_kern st) hidden_dst) (cp_kern st);
          let (rerr, k) = (if \<not> isdir then vf_unlink (ce_vfs E) hidden_dir hidden_dst (cp_kern st)
                           else vf_rmdir (ce_vfs E) hidden_dir hidden_dst (cp_kern st));
          Some (if rerr \<noteq> 0 then - EIO else err, st\<lparr>cp_kern := dtime_revert E dt k\<rparr>) }"

definition cpup_new ::
    "cpup_env \<Rightarrow> nat \<Rightarrow> int \<Rightarrow> int \<Rightarrow> int \<Rightarrow> 32 word \<Rightarrow> nat \<Rightarrow> nat \<Rightarrow> nat \<Rightarrow> cpup_st \<Rightarrow> (int \<times> cpup_st) option" where
  "cpup_new E iaddr bdst bsrc len flags hidden_dir hidden_src hidden_dst st =
     do { old_ibstart \<leftarrow> ibstart (cp_inode st);
          (err, st) \<leftarrow> cpup_entry E bdst bsrc len flags st;
          if err \<noteq> 0 then Some (err, st)
          else do { dst_inode \<leftarrow> k_dinode (cp_kern st) hidden_dst;
                    (err, k) \<leftarrow> cpup_iattr E hidden_dst hidden_src (cp_kern st);
                    let st = st\<lparr>cp_kern := k\<rparr>;
                    if err = 0
                    then cpup_done E iaddr bdst old_ibstart hidden_src hidden_dst dst_inode st
                    else cpup_undo E hidden_dir hidden_dst (S_ISDIR (k_imode k dst_inode)) err st } }"

definition cpup_single ::
    "cpup_env \<Rightarrow> nat \<Rightarrow> int \<Rightarrow> int \<Rightarrow> int \<Rightarrow> 32 word \<Rightarrow> cpup_st \<Rightarrow> (int \<times> cpup_st) option" where
  "cpup_single E iaddr bdst bsrc len flags st =
     do { _ \<leftarrow> debug_on (bsrc \<le> bdst);
          hd \<leftarrow> h_at st bdst; hidden_dst \<leftarrow> hd;
          _ \<leftarrow> debug_on (k_dinode (cp_kern st) hidden_dst \<noteq> None);
          hidden_dir \<leftarrow> k_dinode (cp_kern st) (k_dparent (cp_kern st) hidden_dst);
          hd \<leftarrow> h_at st bsrc; hidden_src \<leftarrow> hd;
          _ \<leftarrow> k_dinode (cp_kern st) hidden_src;
          dst_inode \<leftarrow> au_h_iptr_i (cp_kern st) (cp_inode st) bdst;
          case dst_inode of
            None \<Rightarrow> cpup_new E iaddr bdst bsrc len flags hidden_dir hidden_src hidden_dst st
          | Some di \<Rightarrow>
              if au_flag_test (cp_sb st) AuFlag_PLINK = 0 then Some (- EIO, st)
              else if k_inlink (cp_kern st) di \<noteq> 0 then cpup_link E bdst hidden_dir hidden_dst st
              else do { (inode, k) \<leftarrow> au_update_brange (ce_aufsd E) (ce_xino E) (cp_sb st) (cp_inode st)
                                       True (cp_kern st);
                        cpup_new E iaddr bdst bsrc len flags hidden_dir hidden_src hidden_dst
                          (st\<lparr>cp_inode := inode, cp_kern := k\<rparr>) } }"

definition sio_cpup_single ::
    "cpup_env \<Rightarrow> nat \<Rightarrow> int \<Rightarrow> int \<Rightarrow> int \<Rightarrow> 32 word \<Rightarrow> cpup_st \<Rightarrow> (int \<times> cpup_st) option" where
  "sio_cpup_single E iaddr bdst bsrc len flags st =
     do { hd \<leftarrow> h_at st bsrc; hidden_dentry \<leftarrow> hd; h_inode \<leftarrow> k_dinode (cp_kern st) hidden_dentry;
          let mode = k_imode (cp_kern st) h_inode AND S_IFMT;
          if (mode \<noteq> 0x2000 \<and> mode \<noteq> 0x6000) \<or> ce_cap E
          then cpup_single E iaddr bdst bsrc len flags st
          else au_wkq_wait (\<lambda>_. cpup_single (as_root E) iaddr bdst bsrc len flags st) }"

text \<open>
  \<open>cpup_simple\<close> takes the first hidden file below the target, and looks the name up for the
  target; \<open>parent\<close> and \<open>name\<close> are those of the dentry.
\<close>

definition cpup_source :: "int \<Rightarrow> cpup_st \<Rightarrow> int option" where
  "cpup_source bdst st =
     do { bend \<leftarrow> dbend (cp_dentry st);
          bsrc \<leftarrow> scan_up (\<lambda>i. map_option (\<lambda>h. h \<noteq> None) (h_at st i)) (bdst + 1) bend (max (bdst + 1) (bend + 1));
          hd \<leftarrow> h_at st bsrc;
          _ \<leftarrow> debug_on (hd = None);
          Some bsrc }"

definition cpup_simple ::
    "cpup_env \<Rightarrow> aufs_dentry \<Rightarrow> byte list \<Rightarrow> nat \<Rightarrow> int \<Rightarrow> int \<Rightarrow> 32 word \<Rightarrow> cpup_st \<Rightarrow> (int \<times> cpup_st) option" where
  "cpup_simple E parent name iaddr bdst len flags st =
     do { bstart \<leftarrow> dbstart (cp_dentry st);
          _ \<leftarrow> debug_on (\<not> S_ISDIR (i_mode (cp_inode st)) \<and> bstart < bdst);
          bsrc \<leftarrow> cpup_source bdst st;
          (err, dentry, k) \<leftarrow> lkup_neg (ce_vfs E) (cp_sb st) parent (cp_dentry st) name bdst (cp_kern st);
          let st = st\<lparr>cp_dentry := dentry, cp_kern := k\<rparr>;
          if err \<noteq> 0 then Some (err, st)
          else do { (err, st) \<leftarrow> cpup_single E iaddr bdst bsrc len flags st;
                    if err = 0 then Some (0, st)
                    else do { (dentry, k) \<leftarrow> set_h_dptr (cp_dentry st) bdst None (cp_kern st);
                              dentry \<leftarrow> set_dbstart (cp_sb st) dentry bsrc;
                              Some (err, st\<lparr>cp_dentry := dentry, cp_kern := k\<rparr>) } } }"

definition sio_cpup_simple ::
    "cpup_env \<Rightarrow> aufs_dentry \<Rightarrow> aufs_inode \<Rightarrow> byte list \<Rightarrow> nat \<Rightarrow> int \<Rightarrow> int \<Rightarrow> 32 word \<Rightarrow> cpup_st
       \<Rightarrow> (int \<times> cpup_st) option" where
  "sio_cpup_simple E parent dir name iaddr bdst len flags st =
     do { h \<leftarrow> au_h_iptr_i (cp_kern st) dir bdst; hidden_dir \<leftarrow> h;
          let mode = i_mode (cp_inode st) AND S_IFMT;
          if au_test_perm (vf_permission (ce_vfs E)) (vf_fsuid (ce_vfs E)) (cp_kern st) hidden_dir
               (MAY_EXEC OR MAY_WRITE) = 0
             \<and> \<not> ((mode = 0x2000 \<or> mode = 0x6000) \<and> \<not> ce_cap E)
          then cpup_simple E parent name iaddr bdst len flags st
          else au_wkq_wait (\<lambda>_. cpup_simple (as_root E) parent name iaddr bdst len flags st) }"

section \<open>The parent directories\<close>

text \<open>
  A path goes from a dentry up to the root; every node has its inode and the address of it.
\<close>

record cpup_node =
  cn_dentry :: aufs_dentry
  cn_inode :: aufs_inode
  cn_iaddr :: nat
  cn_name :: "byte list"

text \<open>
  The walk from a parent up to the first directory that the target branch has; the root is its own
  parent, so a root without it is never left.
\<close>

fun find_top :: "kern \<Rightarrow> int \<Rightarrow> cpup_node list \<Rightarrow> nat option" where
  "find_top k bdst [] = None"
| "find_top k bdst (n # ns) =
     do { hd \<leftarrow> au_h_dptr_i k (cn_dentry n) bdst;
          if hd \<noteq> None then Some 0 else map_option Suc (find_top k bdst ns) }"

text \<open>
  The dentry at \<open>i\<close> is copied up; \<open>au_update_dbstart\<close> first drops a negative dentry on the target.
\<close>

definition cpup_dir ::
    "cpup_env \<Rightarrow> int \<Rightarrow> nat \<Rightarrow> cpup_node list \<Rightarrow> aufs_sb \<Rightarrow> kern
       \<Rightarrow> (int \<times> cpup_node list \<times> aufs_sb \<times> kern) option" where
  "cpup_dir E bdst i path sb k =
     (if length path \<le> Suc i then None
      else do { let d = path ! i; let parent = path ! Suc i;
                hd \<leftarrow> au_h_dptr_i k (cn_dentry parent) bdst; hidden_parent \<leftarrow> hd;
                hd \<leftarrow> au_h_dptr_i k (cn_dentry d) bdst;
                if (case hd of None \<Rightarrow> False | Some h \<Rightarrow> k_dinode k h \<noteq> None)
                then Some (0, path, sb, k)
                else do { h_dir \<leftarrow> k_dinode k hidden_parent;
                  (dentry, k) \<leftarrow> (if hd \<noteq> None then au_update_dbstart sb (cn_dentry d) k
                                  else Some (cn_dentry d, k));
                  (err, st) \<leftarrow> sio_cpup_simple E (cn_dentry parent) (cn_inode parent) (cn_name d) (cn_iaddr d)
                     bdst (- 1) (au_flags_cpup CPUP_DTIME (length path = i + 2))
                     \<lparr>cp_dentry = dentry, cp_inode = cn_inode d, cp_dropped = False, cp_sb = sb, cp_kern = k\<rparr>;
                  Some (err, path[i := d\<lparr>cn_dentry := cp_dentry st, cn_inode := cp_inode st\<rparr>],
                        cp_sb st, cp_kern st) } })"

partial_function (option) cpup_dirs_loop ::
    "cpup_env \<Rightarrow> int \<Rightarrow> cpup_node list \<Rightarrow> aufs_sb \<Rightarrow> kern
       \<Rightarrow> (int \<times> cpup_node list \<times> aufs_sb \<times> kern) option" where
  "cpup_dirs_loop E bdst path sb k =
     do { hd \<leftarrow> au_h_dptr_i k (cn_dentry (path ! 1)) bdst;
          if hd \<noteq> None then Some (0, path, sb, k)
          else do { j \<leftarrow> find_top k bdst (drop 2 path);
                    (err, path, sb, k) \<leftarrow> cpup_dir E bdst (Suc j) path sb k;
                    if err \<noteq> 0 then Some (err, path, sb, k) else cpup_dirs_loop E bdst path sb k } }"

declare cpup_dirs_loop.simps [code]

definition cpup_dirs ::
    "cpup_env \<Rightarrow> int \<Rightarrow> cpup_node list \<Rightarrow> aufs_sb \<Rightarrow> kern
       \<Rightarrow> (int \<times> cpup_node list \<times> aufs_sb \<times> kern) option" where
  "cpup_dirs E bdst path sb k =
     do { ro \<leftarrow> test_ro k sb bdst None;
          _ \<leftarrow> debug_on (ro \<noteq> 0);
          if length path \<le> 2 then Some (0, path, sb, k) else cpup_dirs_loop E bdst path sb k }"

definition test_and_cpup_dirs ::
    "cpup_env \<Rightarrow> int \<Rightarrow> cpup_node list \<Rightarrow> aufs_sb \<Rightarrow> kern
       \<Rightarrow> (int \<times> cpup_node list \<times> aufs_sb \<times> kern) option" where
  "test_and_cpup_dirs E bdst path sb k =
     (if length path \<le> 1 then None
      else do { h \<leftarrow> au_h_iptr_i k (cn_inode (path ! 1)) bdst;
                if h \<noteq> None then Some (0, path, sb, k) else cpup_dirs E bdst path sb k })"

section \<open>A failed copy is taken back\<close>

text \<open>Nothing but \<open>cpup_simple\<close> changes the dentry.\<close>

lemma open_one_dentry: "open_one E b fl st = Some (r, st') \<Longrightarrow> cp_dentry st' = cp_dentry st"
  by (auto simp: open_one_def bind_Some_iff split: if_split_asm)

lemma put_one_dentry: "put_one f b st = Some st' \<Longrightarrow> cp_dentry st' = cp_dentry st"
  by (auto simp: put_one_def)

lemma copy_to_dentry:
  assumes "copy_to E bdst src len st = Some (err, st')" shows "cp_dentry st' = cp_dentry st"
proof -
  obtain r st1 where o: "open_one E bdst (O_WRONLY OR O_NOATIME OR O_LARGEFILE) st = Some (r, st1)"
    using assms by (auto simp: copy_to_def bind_Some_iff)
  with assms open_one_dentry [OF o] show ?thesis
    by (cases r) (auto simp: copy_to_def bind_Some_iff dest!: put_one_dentry split: if_split_asm)
qed

lemma cpup_regular_dentry:
  assumes "cpup_regular E bdst bsrc len st = Some (err, st')" shows "cp_dentry st' = cp_dentry st"
proof -
  obtain r st1 where o: "open_one E bsrc (O_NOATIME OR O_LARGEFILE) st = Some (r, st1)"
    using assms by (auto simp: cpup_regular_def bind_Some_iff split: if_split_asm)
  with assms open_one_dentry [OF o] show ?thesis
    by (cases r) (auto simp: cpup_regular_def bind_Some_iff dest!: put_one_dentry copy_to_dentry split: if_split_asm)
qed

lemma entry_dentry:
  "entry_reg E hh d i bdst bsrc len st = Some (err, st') \<Longrightarrow> cp_dentry st' = cp_dentry st"
  "entry_dir E hh d m st = Some (err, st') \<Longrightarrow> cp_dentry st' = cp_dentry st"
  "entry_lnk E hh d s m st = Some (err, st') \<Longrightarrow> cp_dentry st' = cp_dentry st"
  "entry_nod E hh d i m st = Some (err, st') \<Longrightarrow> cp_dentry st' = cp_dentry st"
  by (auto simp: entry_reg_def entry_dir_def entry_lnk_def entry_nod_def Let_def bind_Some_iff
      dest!: cpup_regular_dentry split: prod.split_asm if_split_asm)

lemma cpup_entry_dentry: "cpup_entry E bdst bsrc len fl st = Some (err, st') \<Longrightarrow> cp_dentry st' = cp_dentry st"
  unfolding cpup_entry_def Let_def bind_Some_iff
  by (elim exE conjE, clarsimp simp: bind_Some_iff split: if_split_asm) (drule entry_dentry, simp)+

lemma cpup_link_dentry:
  assumes "cpup_link E bdst hh d st = Some (err, st')" shows "cp_dentry st' = cp_dentry st"
proof -
  obtain r k where "lkup_plink (ce_vfs E) (cp_sb st) bdst (cp_inode st) (cp_kern st) = Some (r, k)"
    using assms by (auto simp: cpup_link_def bind_Some_iff)
  with assms show ?thesis
    by (cases r) (auto simp: cpup_link_def Let_def bind_Some_iff case_prod_beta)
qed

lemma cpup_parts_dentry:
  "cpup_done E ia bdst ob s d di st = Some (err, st') \<Longrightarrow> cp_dentry st' = cp_dentry st"
  "cpup_undo E hh d isd e st = Some (err, st') \<Longrightarrow> cp_dentry st' = cp_dentry st"
  by (auto simp: cpup_done_def cpup_undo_def Let_def bind_Some_iff case_prod_beta split: if_split_asm)

lemma cpup_new_dentry: "cpup_new E ia bdst bsrc len fl hh s d st = Some (err, st') \<Longrightarrow> cp_dentry st' = cp_dentry st"
  by (auto simp: cpup_new_def Let_def bind_Some_iff dest!: cpup_entry_dentry cpup_parts_dentry split: if_split_asm)

lemma cpup_single_dentry: "cpup_single E ia bdst bsrc len fl st = Some (err, st') \<Longrightarrow> cp_dentry st' = cp_dentry st"
  by (auto simp: cpup_single_def bind_Some_iff dest!: cpup_new_dentry cpup_link_dentry
      split: if_split_asm option.split_asm)

text \<open>The source is the first hidden file below the target.\<close>

lemma scan_up_first:
  "scan_up p i e d = Some r \<Longrightarrow> (r = d \<and> (\<forall>j. i \<le> j \<longrightarrow> j \<le> e \<longrightarrow> p j = Some False))
     \<or> (i \<le> r \<and> r \<le> e \<and> p r = Some True \<and> (\<forall>j. i \<le> j \<longrightarrow> j < r \<longrightarrow> p j = Some False))"
proof (induction p i e d rule: scan_up.induct)
  case (1 p i e d)
  show ?case
  proof (cases "i \<le> e \<and> p i = Some False")
    case True
    with "1.prems" have "scan_up p (i + 1) e d = Some r" by (subst (asm) scan_up.simps) simp
    with True "1.IH" [of False] have
      "(r = d \<and> (\<forall>j. i + 1 \<le> j \<longrightarrow> j \<le> e \<longrightarrow> p j = Some False))
       \<or> (i + 1 \<le> r \<and> r \<le> e \<and> p r = Some True \<and> (\<forall>j. i + 1 \<le> j \<longrightarrow> j < r \<longrightarrow> p j = Some False))" by simp
    moreover have "p j = Some False" if "i \<le> j" "i + 1 \<le> j \<Longrightarrow> p j = Some False" for j
      using that True by (cases "j = i") auto
    ultimately show ?thesis using True by auto
  next
    case False
    with "1.prems" show ?thesis
      by (subst (asm) scan_up.simps) (auto split: if_splits option.splits bool.splits)
  qed
qed

lemma cpup_source_first:
  assumes "cpup_source bdst st = Some bsrc"
  shows "bdst < bsrc" and "\<exists>h. h_at st bsrc = Some (Some h)"
    and "bdst < j \<Longrightarrow> j < bsrc \<Longrightarrow> j \<le> di_bend (the_di (cp_dentry st)) \<Longrightarrow> h_at st j = Some None"
proof -
  obtain bend h where b: "dbend (cp_dentry st) = Some bend" "h_at st bsrc = Some (Some h)"
    and s: "scan_up (\<lambda>i. map_option (\<lambda>h. h \<noteq> None) (h_at st i)) (bdst + 1) bend (max (bdst + 1) (bend + 1)) = Some bsrc"
    using assms by (auto simp: cpup_source_def bind_Some_iff split: if_split_asm)
  have bend: "bend = di_bend (the_di (cp_dentry st))"
    using b(1) by (auto simp: dbend_def dtodi_def bind_Some_iff the_di_def split: if_split_asm)
  show "\<exists>h. h_at st bsrc = Some (Some h)" using b(2) by blast
  show "bdst < bsrc" using scan_up_first [OF s] by auto
  show "h_at st j = Some None" if "bdst < j" "j < bsrc" "j \<le> di_bend (the_di (cp_dentry st))"
    using scan_up_first [OF s] that by (auto simp: bend)
qed

text \<open>An error of the lookup is not the null pointer.\<close>

definition lkup_errs :: "vfs \<Rightarrow> bool" where
  "lkup_errs vf \<longleftrightarrow> (\<forall>name parent k k'. vf_lookup vf name parent k \<noteq> (Inl 0, k'))"

text \<open>The slot of the target is filled and emptied again; the range ends as the code leaves it.\<close>

lemma lkup_neg_dentry:
  assumes "lkup_neg vf sb parent d name b k = Some (err, d', k')" and "dtodi d = Some di"
    and errs: "lkup_errs vf"
  shows "err \<noteq> 0 \<Longrightarrow> d' = d"
    and "err = 0 \<Longrightarrow> \<exists>h. aget (di_hdentry di) b = Some None \<and> d' = d\<lparr>d_fsdata := Some (di\<lparr>
       di_bstart := min b (di_bstart di), di_bend := max (di_bend di) b,
       di_hdentry := (di_hdentry di)[nat b := Some h]\<rparr>)\<rparr>"
proof -
  have di: "d_fsdata d = Some di" using assms(2) by (auto simp: dtodi_def bind_Some_iff split: if_split_asm)
  obtain hp r k1 where r: "sio_lkup_one vf name hp k = Some (r, k1)"
    and hp: "au_h_dptr_i k parent b = Some (Some hp)"
    using assms by (auto simp: lkup_neg_def bind_Some_iff split: if_split_asm)
  note run = assms(1) [unfolded lkup_neg_def hp]
  show "d' = d" if "err \<noteq> 0"
    using run r that by (cases r) (auto simp: bind_Some_iff split: if_split_asm)
  show "\<exists>h. aget (di_hdentry di) b = Some None \<and> d' = d\<lparr>d_fsdata := Some (di\<lparr>
       di_bstart := min b (di_bstart di), di_bend := max (di_bend di) b,
       di_hdentry := (di_hdentry di)[nat b := Some h]\<rparr>)\<rparr>" if e0: "err = 0"
  proof (cases r)
    case (Inl e)
    have "e \<noteq> 0" using r errs Inl
      by (auto simp: sio_lkup_one_def lkup_one_def lkup_errs_def au_wkq_wait_def bind_Some_iff split: if_split_asm)
    with run r e0 Inl show ?thesis by (auto simp: bind_Some_iff split: if_split_asm)
  next
    case (Inr h)
    have dt: "dtodi (d\<lparr>d_fsdata := Some x\<rparr>) = Some x" if "dtodi (d\<lparr>d_fsdata := Some x\<rparr>) \<noteq> None" for x
      using that by (auto simp: dtodi_def bind_Some_iff split: if_split_asm)
    have "do { bstart \<leftarrow> dbstart d;
               d \<leftarrow> (if b < bstart then set_dbstart sb d b else Some d);
               bend \<leftarrow> dbend d;
               d \<leftarrow> (if bend < b then set_dbend sb d b else Some d);
               (d, k) \<leftarrow> set_h_dptr d b (Some h) k1;
               Some (0, d, k) } = Some (0 :: int, d', k')"
      using run r e0 Inr by (auto simp: bind_Some_iff simp del: split_paired_Ex split: if_split_asm)
    then obtain d1 d2 e where
      1: "(if b < di_bstart di then set_dbstart sb d b else Some d) = Some d1"
      and 2: "dbend d1 = Some e" "(if e < b then set_dbend sb d1 b else Some d1) = Some d2"
      and 3: "set_h_dptr d2 b (Some h) k1 = Some (d', k')"
      using assms(2) unfolding bind_Some_iff dbstart_def by auto
    have d1: "d1 = d\<lparr>d_fsdata := Some (di\<lparr>di_bstart := min b (di_bstart di)\<rparr>)\<rparr>"
      using 1 assms(2) di by (auto simp: set_dbstart_def upd_di_def min_def bind_Some_iff split: if_split_asm)
    have e: "dtodi d1 = Some (di\<lparr>di_bstart := min b (di_bstart di)\<rparr>)" "e = di_bend di"
      using 2(1) dt [of "di\<lparr>di_bstart := min b (di_bstart di)\<rparr>"] by (auto simp: dbend_def d1)
    have d2: "d2 = d\<lparr>d_fsdata := Some (di\<lparr>di_bstart := min b (di_bstart di), di_bend := max (di_bend di) b\<rparr>)\<rparr>"
      using 2(2) e by (auto simp: set_dbend_def upd_di_def max_def bind_Some_iff d1 split: if_split_asm)
    obtain x arr where x: "dtodi d2 = Some x" "aget (di_hdentry x) b = Some None"
      "aset (di_hdentry x) b (Some h) = Some arr" "d' = d2\<lparr>d_fsdata := Some (x\<lparr>di_hdentry := arr\<rparr>)\<rparr>"
      using 3 by (auto simp: set_h_dptr_def bind_Some_iff split: if_split_asm)
    have "x = di\<lparr>di_bstart := min b (di_bstart di), di_bend := max (di_bend di) b\<rparr>"
      using x(1) by (auto simp: dtodi_def d2 bind_Some_iff split: if_split_asm)
    then show ?thesis using x(2-4) d2 by (auto simp: aset_Some_iff)
  qed
qed

text \<open>What is left when the copy fails behind the lookup, and in general.\<close>

lemma cpup_simple_undo:
  assumes run: "cpup_simple E parent name ia bdst len fl st = Some (err, st')" "err \<noteq> 0"
    and di: "dtodi (cp_dentry st) = Some di" and errs: "lkup_errs (ce_vfs E)"
    and neg: "lkup_neg (ce_vfs E) (cp_sb st) parent (cp_dentry st) name bdst (cp_kern st) = Some (0, d1, k1)"
  shows "\<exists>bsrc. cpup_source bdst st = Some bsrc
     \<and> cp_dentry st' = (cp_dentry st)\<lparr>d_fsdata := Some (di\<lparr>di_bstart := bsrc, di_bend := max (di_bend di) bdst\<rparr>)\<rparr>"
proof -
  from lkup_neg_dentry(2) [OF neg di errs] obtain h where h: "aget (di_hdentry di) bdst = Some None"
    "d1 = (cp_dentry st)\<lparr>d_fsdata := Some (di\<lparr>di_bstart := min bdst (di_bstart di),
       di_bend := max (di_bend di) bdst, di_hdentry := (di_hdentry di)[nat bdst := Some h]\<rparr>)\<rparr>" by blast
  obtain bsrc st2 d3 k3 d4 where src: "cpup_source bdst st = Some bsrc"
    and c: "cpup_single E ia bdst bsrc len fl (st\<lparr>cp_dentry := d1, cp_kern := k1\<rparr>) = Some (err, st2)"
    and s3: "set_h_dptr (cp_dentry st2) bdst None (cp_kern st2) = Some (d3, k3)"
    and s4: "set_dbstart (cp_sb st2) d3 bsrc = Some d4" and st': "st' = st2\<lparr>cp_dentry := d4, cp_kern := k3\<rparr>"
    using run neg by (auto simp: cpup_simple_def bind_Some_iff split: if_split_asm)
  have d2: "cp_dentry st2 = d1" using cpup_single_dentry [OF c] by simp
  let ?di = "di\<lparr>di_bstart := min bdst (di_bstart di), di_bend := max (di_bend di) bdst\<rparr>"
  have "d3 = (cp_dentry st)\<lparr>d_fsdata := Some ?di\<rparr>"
    using s3 h by (auto simp: d2 set_h_dptr_def dtodi_def bind_Some_iff aset_Some_iff aget_Some_iff list_update_same_conv
        split: if_split_asm)
  with s4 have "d4 = (cp_dentry st)\<lparr>d_fsdata := Some (di\<lparr>di_bstart := bsrc, di_bend := max (di_bend di) bdst\<rparr>)\<rparr>"
    by (auto simp: set_dbstart_def upd_di_def dtodi_def bind_Some_iff split: if_split_asm)
  with src show ?thesis by (simp add: st')
qed

lemma cpup_simple_failed:
  assumes run: "cpup_simple E parent name ia bdst len fl st = Some (err, st')" "err \<noteq> 0"
    and di: "dtodi (cp_dentry st) = Some di" and errs: "lkup_errs (ce_vfs E)"
  shows "cp_dentry st' = cp_dentry st \<or> (\<exists>bsrc. cpup_source bdst st = Some bsrc
     \<and> cp_dentry st' = (cp_dentry st)\<lparr>d_fsdata := Some (di\<lparr>di_bstart := bsrc, di_bend := max (di_bend di) bdst\<rparr>)\<rparr>)"
proof -
  obtain bsrc e1 d1 k1 where src: "cpup_source bdst st = Some bsrc"
    and neg: "lkup_neg (ce_vfs E) (cp_sb st) parent (cp_dentry st) name bdst (cp_kern st) = Some (e1, d1, k1)"
    using run(1) by (auto simp: cpup_simple_def bind_Some_iff split: if_split_asm)
  show ?thesis
  proof (cases "e1 = 0")
    case False
    with run(1) neg src lkup_neg_dentry(1) [OF neg di errs] show ?thesis
      by (auto simp: cpup_simple_def bind_Some_iff split: if_split_asm)
  next
    case True
    with cpup_simple_undo [OF run di errs] neg show ?thesis by blast
  qed
qed

lemma h_at_below:
  "dtodi (cp_dentry st) = Some di \<Longrightarrow> di_bstart di < 0 \<or> j < di_bstart di \<Longrightarrow> h_at st j = Some None"
  by (simp add: h_at_def au_h_dptr_i_def)

text \<open>C14.
  A copy-up that fails leaves the dentry as it was, when the target is above the dentry's own
  branches: the slot of the target is empty again and the range is the old one.
\<close>

theorem cpup_simple_undone:
  assumes run: "cpup_simple E parent name ia bdst len fl st = Some (err, st')" "err \<noteq> 0"
    and errs: "lkup_errs (ce_vfs E)" and di: "dtodi (cp_dentry st) = Some di"
    and up: "bdst < di_bstart di" and filled: "h_at st (di_bstart di) = Some (Some h)"
  shows "cp_dentry st' = cp_dentry st"
proof -
  have ends: "di_bstart di \<le> di_bend di" "d_fsdata (cp_dentry st) = Some di"
    using di by (auto simp: dtodi_def bind_Some_iff split: if_split_asm)
  have eq: "bsrc = di_bstart di" if src: "cpup_source bdst st = Some bsrc" for bsrc
  proof -
    have "\<not> bsrc < di_bstart di" using cpup_source_first(2) [OF src] h_at_below [OF di] by auto
    moreover have "\<not> di_bstart di < bsrc"
      using cpup_source_first(3) [OF src up] filled ends by (auto simp: the_di_def)
    ultimately show ?thesis by simp
  qed
  have same: "di\<lparr>di_bstart := di_bstart di, di_bend := max (di_bend di) bdst\<rparr> = di" using up ends by simp
  have id: "(cp_dentry st)\<lparr>d_fsdata := Some di\<rparr> = cp_dentry st" using ends by simp
  from cpup_simple_failed [OF run di errs] show ?thesis
  proof (elim disjE exE conjE)
    fix bsrc
    assume "cpup_source bdst st = Some bsrc"
    note eq [OF this]
    moreover assume "cp_dentry st' = (cp_dentry st)\<lparr>d_fsdata := Some (di\<lparr>di_bstart := bsrc, di_bend := max (di_bend di) bdst\<rparr>)\<rparr>"
    ultimately show ?thesis by (simp only: same id)
  qed
qed

text \<open>C15.
  A directory that begins above the target loses its upper hidden directories when the copy-up
  fails behind the lookup: the start of the range becomes the source, though the slots above are
  still filled, so they are not seen any more, and not released with the dentry.
\<close>

theorem cpup_simple_loses_upper:
  assumes run: "cpup_simple E parent name ia bdst len fl st = Some (err, st')" "err \<noteq> 0"
    and errs: "lkup_errs (ce_vfs E)" and di: "dtodi (cp_dentry st) = Some di"
    and neg: "lkup_neg (ce_vfs E) (cp_sb st) parent (cp_dentry st) name bdst (cp_kern st) = Some (0, d1, k1)"
    and top: "0 \<le> di_bstart di" "di_bstart di < bdst" "hslot (cp_dentry st) (di_bstart di) = Some h"
    and low: "bdst < j" "j \<le> di_bend di" "hslot (cp_dentry st) j = Some h'" and opq: "di_bdiropq di = - 1"
  shows "\<exists>di'. dtodi (cp_dentry st') = Some di' \<and> bdst < di_bstart di'
     \<and> hslot (cp_dentry st') (di_bstart di) = Some h
     \<and> au_h_dptr_i (cp_kern st') (cp_dentry st') (di_bstart di) = Some None"
proof -
  from cpup_simple_undo [OF run di errs neg] obtain bsrc where src: "cpup_source bdst st = Some bsrc"
    and d': "cp_dentry st' = (cp_dentry st)\<lparr>d_fsdata := Some (di\<lparr>di_bstart := bsrc, di_bend := max (di_bend di) bdst\<rparr>)\<rparr>"
    by blast
  have fs: "d_fsdata (cp_dentry st) = Some di"
    using di by (auto simp: dtodi_def bind_Some_iff split: if_split_asm)
  then have th: "the_di (cp_dentry st) = di" by (simp add: the_di_def)
  have "h_at st j \<noteq> Some None"
    using low top di th by (auto simp: h_at_def au_h_dptr_i_def hslot_def aget_def debug_on_def split: if_split_asm)
  then have "bsrc \<le> j"
    by (rule contrapos_np) (use cpup_source_first(3) [OF src low(1)] low(2) th in simp)
  then have "dtodi (cp_dentry st') = Some (di\<lparr>di_bstart := bsrc, di_bend := max (di_bend di) bdst\<rparr>)"
    using low opq by (simp add: d' dtodi_def)
  moreover note cpup_source_first(1) [OF src]
  ultimately show ?thesis
    using top th by (auto simp: au_h_dptr_i_def hslot_def d' split: if_split_asm)
qed

text \<open>
  A directory of branch 2, or of branches 0 and 2, is copied up and the hidden filesystem is full.
\<close>

definition E_full :: cpup_env where
  "E_full = \<lparr>ce_vfs = vfs0\<lparr>vf_mkdir := (\<lambda>_ _ _ k. (- 28, k))\<rparr>, ce_aufsd = False, ce_cap = False,
     ce_symlink = (\<lambda>_ _ _ _ k. (0, k)), ce_mknod = (\<lambda>_ _ _ _ k. (0, k)), ce_notify = (\<lambda>_ _ k. (0, k)),
     ce_readlink = (\<lambda>_ _ _. (0, [])), ce_xino = (\<lambda>_. page_write), ce_read = page_read,
     ce_write = page_write, ce_seek = page_seek, ce_trunc = page_trunc\<rparr>"

definition kern_c :: kern where "kern_c = kern_neg\<lparr>k_dparent := (\<lambda>d. d div 1000)\<rparr>"

definition dir_at :: "nat option list \<Rightarrow> int \<Rightarrow> int \<Rightarrow> aufs_dentry" where
  "dir_at h lo hi = (dentry_at h lo hi)\<lparr>d_imode := Some 0x4000\<rparr>"

definition inode_at :: "nat option list \<Rightarrow> int \<Rightarrow> int \<Rightarrow> aufs_inode" where
  "inode_at h lo hi = \<lparr>i_ino = 12, i_mode = 0x4000, i_nlink = 2, i_version = 0, i_attr = attr0, i_iinfo =
     \<lparr>ii_generation = 0, ii_bstart = lo, ii_bend = hi,
      ii_hinode = Some (map (\<lambda>h. \<lparr>hi_inode = h, hi_id = 0, hi_notify = None\<rparr>) h), ii_vdir = None\<rparr>\<rparr>"

definition cpup_at :: "nat option list \<Rightarrow> int \<Rightarrow> int \<Rightarrow> cpup_st" where
  "cpup_at h lo hi = \<lparr>cp_dentry = dir_at h lo hi, cp_inode = inode_at h lo hi, cp_dropped = False,
     cp_sb = sb0 3, cp_kern = kern_c\<rparr>"

definition all3 :: aufs_dentry where "all3 = dir_at [Some 1, Some 2, Some 3] 0 2"

lemma full_runs:
  "map_option fst (cpup_simple E_full all3 [97] 12 0 (- 1) CPUP_DTIME (cpup_at [None, None, Some 22] 2 2)) = Some (- 28)"
  "map_option fst (cpup_simple E_full all3 [97] 12 1 (- 1) CPUP_DTIME (cpup_at [Some 20, None, Some 22] 0 2)) = Some (- 28)"
  "map_option fst (lkup_neg (ce_vfs E_full) (sb0 3) all3 (dir_at [Some 20, None, Some 22] 0 2) [97] 1 kern_c) = Some 0"
  by code_simp+

lemma E_full_errs: "lkup_errs (ce_vfs E_full)"
  by (simp add: lkup_errs_def E_full_def vfs0_def)

lemma dir_at_di:
  "lo \<le> hi \<Longrightarrow> dtodi (dir_at h lo hi) = Some (the_di (dir_at h lo hi))"
  "the_di (dir_at h lo hi) = \<lparr>di_generation = 0, di_bstart = lo, di_bend = hi, di_bwh = - 1,
     di_bdiropq = - 1, di_hdentry = h, di_reval = 0\<rparr>"
  by (simp_all add: dir_at_def dentry_at_def dtodi_def the_di_def)

lemma cpup_at_fields: "cp_dentry (cpup_at h lo hi) = dir_at h lo hi" "cp_sb (cpup_at h lo hi) = sb0 3"
  "cp_kern (cpup_at h lo hi) = kern_c" by (simp_all add: cpup_at_def)

theorem cpup_simple_undone_witness:
  "\<exists>st'. cpup_simple E_full all3 [97] 12 0 (- 1) CPUP_DTIME (cpup_at [None, None, Some 22] 2 2) = Some (- 28, st')
     \<and> cp_dentry st' = dir_at [None, None, Some 22] 2 2"
proof -
  obtain st' where r: "cpup_simple E_full all3 [97] 12 0 (- 1) CPUP_DTIME (cpup_at [None, None, Some 22] 2 2)
      = Some (- 28, st')" using full_runs(1) by auto
  have "h_at (cpup_at [None, None, Some 22] 2 2) 2 = Some (Some 22)" by code_simp
  with cpup_simple_undone [OF r _ E_full_errs, of "the_di (dir_at [None, None, Some 22] 2 2)" 22] r
  show ?thesis by (auto simp: cpup_at_fields dir_at_di)
qed

theorem cpup_simple_loses_upper_witness:
  "\<exists>st' di'. cpup_simple E_full all3 [97] 12 1 (- 1) CPUP_DTIME (cpup_at [Some 20, None, Some 22] 0 2) = Some (- 28, st')
     \<and> dtodi (cp_dentry st') = Some di' \<and> 1 < di_bstart di' \<and> hslot (cp_dentry st') 0 = Some 20
     \<and> au_h_dptr_i (cp_kern st') (cp_dentry st') 0 = Some None"
proof -
  let ?d = "dir_at [Some 20, None, Some 22] 0 2"
  obtain st' where r: "cpup_simple E_full all3 [97] 12 1 (- 1) CPUP_DTIME (cpup_at [Some 20, None, Some 22] 0 2)
      = Some (- 28, st')" using full_runs(2) by auto
  obtain d1 k1 where n: "lkup_neg (ce_vfs E_full) (sb0 3) all3 ?d [97] 1 kern_c = Some (0, d1, k1)"
    using full_runs(3) by auto
  have s: "hslot ?d 0 = Some 20" "hslot ?d 2 = Some 22" by (simp_all add: hslot_def dir_at_di)
  from cpup_simple_loses_upper [OF r _ E_full_errs, of "the_di ?d" d1 k1 20 2 22] n s r
  show ?thesis by (auto simp: cpup_at_fields dir_at_di)
qed

end
