(* ===== verification/Aufs_Dir.thy ===== *)
theory Aufs_Dir
  imports Aufs_Cpup Aufs_Vdir_Copy
begin

text \<open>
  Directories (dir.c): opening and reopening the hidden directories of a file, syncing them, and
  the test that a directory is empty. \<open>test_empty\<close> decides whether the merge of the branches has
  no entry; an open that fails never closes what it has opened.
\<close>

section \<open>Opening\<close>

definition fileset :: "int \<Rightarrow> nat option \<Rightarrow> aufs_file \<times> aufs_sb \<times> kern \<Rightarrow> (bool \<times> (aufs_file \<times> aufs_sb \<times> kern)) option" where
  "fileset bindex val = (\<lambda>(file, sb, k). map_option (Pair True) (set_h_fptr file bindex val sb k))"

text \<open>One hidden directory; a null pointer in the dentry is passed over.\<close>

definition open_round ::
    "vfs \<Rightarrow> aufs_dentry \<Rightarrow> aufs_inode \<Rightarrow> 32 word \<Rightarrow> int \<Rightarrow> int \<times> aufs_file \<times> aufs_sb \<times> kern
       \<Rightarrow> (bool \<times> (int \<times> aufs_file \<times> aufs_sb \<times> kern)) option" where
  "open_round vf dentry inode flags bindex = (\<lambda>(err, file, sb, k).
     do { hd \<leftarrow> au_h_dptr_i k dentry bindex;
          if hd = None then Some (True, (err, file, sb, k))
          else do { (r, sb, k) \<leftarrow> hidden_open vf dentry (Some inode) bindex flags sb k;
                    case r of
                      Inr f \<Rightarrow> do { (file, sb, k) \<leftarrow> set_h_fptr file bindex (Some f) sb k;
                                   Some (True, (err, file, sb, k)) }
                    | Inl e \<Rightarrow> Some (e = 0, (e, file, sb, k)) } })"

text \<open>The loop that is to close the files runs while there is no error, behind an error.\<close>

definition close_all ::
    "int \<Rightarrow> int \<Rightarrow> aufs_file \<Rightarrow> aufs_sb \<Rightarrow> kern \<Rightarrow> (aufs_file \<times> aufs_sb \<times> kern) option" where
  "close_all err btail file sb k =
     do { bindex \<leftarrow> fbstart file;
          (file, sb, k) \<leftarrow> (if err = 0 then for_up fin_put bindex btail (file, sb, k)
                            else Some (file, sb, k));
          file \<leftarrow> set_fbstart sb file (- 1);
          file \<leftarrow> set_fbend sb file (- 1);
          Some (file, sb, k) }"

definition do_open_dir ::
    "vfs \<Rightarrow> aufs_dentry \<Rightarrow> aufs_inode \<Rightarrow> 32 word \<Rightarrow> aufs_file \<Rightarrow> aufs_sb \<Rightarrow> kern
       \<Rightarrow> (int \<times> aufs_file \<times> aufs_sb \<times> kern) option" where
  "do_open_dir vf dentry inode flags file sb k =
     do { _ \<leftarrow> debug_on (\<not> S_ISDIR (i_mode inode));
          file \<leftarrow> upd_fi (fi_u_update (\<lambda>_. Fi_vdir_cache None)) file;
          let file = file\<lparr>f_version := i_version inode\<rparr>;
          bindex \<leftarrow> dbstart dentry;
          file \<leftarrow> set_fbstart sb file bindex;
          btail \<leftarrow> dbtaildir dentry;
          file \<leftarrow> set_fbend sb file btail;
          (err, file, sb, k) \<leftarrow> for_up (open_round vf dentry inode flags) bindex btail (0, file, sb, k);
          if err = 0 then Some (0, file, sb, k)
          else do { (file, sb, k) \<leftarrow> close_all err btail file sb k; Some (err, file, sb, k) } }"

text \<open>
  \<open>reopen_dir\<close> closes what is outside of the range of the dentry and opens what is missing; the
  first error ends it.
\<close>

definition reopen_round ::
    "vfs \<Rightarrow> aufs_dentry \<Rightarrow> aufs_inode \<Rightarrow> 32 word \<Rightarrow> int \<Rightarrow> int \<times> aufs_file \<times> aufs_sb \<times> kern
       \<Rightarrow> (bool \<times> (int \<times> aufs_file \<times> aufs_sb \<times> kern)) option" where
  "reopen_round vf dentry inode flags bindex = (\<lambda>(err, file, sb, k).
     do { hd \<leftarrow> au_h_dptr_i k dentry bindex;
          case hd of
            None \<Rightarrow> Some (True, (err, file, sb, k))
          | Some h \<Rightarrow>
              do { hf \<leftarrow> au_h_fptr_i sb k file bindex;
                   case hf of
                     Some f \<Rightarrow> do { _ \<leftarrow> debug_on (k_fdentry k f \<noteq> h); Some (True, (err, file, sb, k)) }
                   | None \<Rightarrow>
                       do { (r, sb, k) \<leftarrow> hidden_open vf dentry (Some inode) bindex flags sb k;
                            case r of
                              Inr f \<Rightarrow> do { (file, sb, k) \<leftarrow> set_h_fptr file bindex (Some f) sb k;
                                           Some (True, (err, file, sb, k)) }
                            | Inl e \<Rightarrow> Some (False, (e, file, sb, k)) } } })"

text \<open>\<open>for (bindex = fbend(file); btail < bindex; bindex--)\<close>\<close>

function close_down ::
    "int \<Rightarrow> int \<Rightarrow> aufs_file \<times> aufs_sb \<times> kern \<Rightarrow> (aufs_file \<times> aufs_sb \<times> kern) option" where
  "close_down bindex btail s =
     (if btail < bindex
      then do { (_, s) \<leftarrow> fin_put bindex s; close_down (bindex - 1) btail s }
      else Some s)"
  by pat_completeness auto
termination
  by (relation "measure (\<lambda>(i, b, _). nat (i - b))") auto

declare close_down.simps [simp del]

definition reopen_dir ::
    "vfs \<Rightarrow> aufs_dentry \<Rightarrow> aufs_inode \<Rightarrow> 32 word \<Rightarrow> aufs_file \<Rightarrow> aufs_sb \<Rightarrow> kern
       \<Rightarrow> (int \<times> aufs_file \<times> aufs_sb \<times> kern) option" where
  "reopen_dir vf dentry inode flags file sb k =
     do { _ \<leftarrow> debug_on (\<not> S_ISDIR (i_mode inode));
          bstart \<leftarrow> dbstart dentry;
          fb \<leftarrow> fbstart file;
          (file, sb, k) \<leftarrow> for_up fin_put fb (bstart - 1) (file, sb, k);
          file \<leftarrow> set_fbstart sb file bstart;
          btail \<leftarrow> dbtaildir dentry;
          fe \<leftarrow> fbend file;
          (file, sb, k) \<leftarrow> close_down fe btail (file, sb, k);
          file \<leftarrow> set_fbend sb file btail;
          for_up (reopen_round vf dentry inode flags) bstart btail (0, file, sb, k) }"

text \<open>file.c: the common part of opening; \<open>u\<close> is what the recycled object holds in its union.\<close>

type_synonym openf = "aufs_file \<Rightarrow> aufs_sb \<Rightarrow> kern \<Rightarrow> (int \<times> aufs_file \<times> aufs_sb \<times> kern) option"

definition au_do_open ::
    "openf \<Rightarrow> aufs_dentry \<Rightarrow> aufs_inode \<Rightarrow> fi_union \<Rightarrow> aufs_file \<Rightarrow> aufs_sb \<Rightarrow> kern
       \<Rightarrow> (int \<times> aufs_file \<times> aufs_sb \<times> kern) option" where
  "au_do_open opn dentry dir u file sb k =
     do { (err, file, k) \<leftarrow> au_init_finfo sb dentry u file k;
          if err \<noteq> 0 then Some (err, file, sb, k)
          else do { bstart \<leftarrow> dbstart dentry;
                    h \<leftarrow> au_h_iptr_i k dir bstart; _ \<leftarrow> h;
                    (err, file, sb, k) \<leftarrow> opn file sb k;
                    if err = 0 then Some (0, file, sb, k)
                    else do { (file, sb, k) \<leftarrow> au_fin_finfo file sb k; Some (err, file, sb, k) } } }"

definition aufs_open_dir ::
    "vfs \<Rightarrow> aufs_dentry \<Rightarrow> aufs_inode \<Rightarrow> aufs_inode \<Rightarrow> 32 word \<Rightarrow> fi_union \<Rightarrow> aufs_file \<Rightarrow> aufs_sb \<Rightarrow> kern
       \<Rightarrow> (int \<times> aufs_file \<times> aufs_sb \<times> kern) option" where
  "aufs_open_dir vf dentry inode dir flags u file sb k =
     au_do_open (do_open_dir vf dentry inode flags) dentry dir u file sb k"

definition aufs_release_dir :: "aufs_file \<Rightarrow> aufs_sb \<Rightarrow> kern \<Rightarrow> (aufs_file \<times> aufs_sb \<times> kern) option" where
  "aufs_release_dir file sb k =
     do { c \<leftarrow> fvdir_cache file;
          k \<leftarrow> (case c of None \<Rightarrow> Some k | Some vdir \<Rightarrow> free_vdir vdir k);
          au_fin_finfo file sb k }"

section \<open>Syncing\<close>

text \<open>
  \<open>flush\<close> is \<open>filemap_fdatawrite\<close>, \<open>sync\<close> the \<open>fsync\<close> of the hidden inode, null when there is none.
\<close>

definition fsync_round ::
    "(nat \<Rightarrow> kern \<Rightarrow> int \<times> kern) \<Rightarrow> (nat \<Rightarrow> (nat \<Rightarrow> bool \<Rightarrow> kern \<Rightarrow> int \<times> kern) option) \<Rightarrow> aufs_sb \<Rightarrow> aufs_dentry
       \<Rightarrow> aufs_inode \<Rightarrow> bool \<Rightarrow> int \<Rightarrow> int \<times> kern \<Rightarrow> (bool \<times> (int \<times> kern)) option" where
  "fsync_round flush sync sb dentry inode datasync bindex = (\<lambda>(err, k).
     do { ro \<leftarrow> test_ro k sb bindex (Some inode);
          hd \<leftarrow> (if ro \<noteq> 0 then Some None else au_h_dptr_i k dentry bindex);
          case hd of
            None \<Rightarrow> Some (True, (err, k))
          | Some h \<Rightarrow>
              (case k_dinode k h of
                 None \<Rightarrow> Some (True, (err, k))
               | Some i \<Rightarrow>
                   let (err, k) = flush i k;
                       (err, k) = (if err = 0 then (case sync i of None \<Rightarrow> (err, k) | Some f \<Rightarrow> f h datasync k)
                                   else (err, k));
                       (err, k) = (if err = 0 then flush i k else (err, k))
                   in Some (err = 0, (err, k))) })"

definition fsync_dir ::
    "(nat \<Rightarrow> kern \<Rightarrow> int \<times> kern) \<Rightarrow> (nat \<Rightarrow> (nat \<Rightarrow> bool \<Rightarrow> kern \<Rightarrow> int \<times> kern) option) \<Rightarrow> aufs_sb \<Rightarrow> aufs_dentry
       \<Rightarrow> aufs_inode \<Rightarrow> bool \<Rightarrow> kern \<Rightarrow> (int \<times> kern) option" where
  "fsync_dir flush sync sb dentry inode datasync k =
     do { bend \<leftarrow> dbend dentry;
          bstart \<leftarrow> dbstart dentry;
          for_up (fsync_round flush sync sb dentry inode datasync) bstart bend (0, k) }"

section \<open>The test for an empty directory\<close>

record test_empty_arg =
  te_whlist :: "aufs_wh list list"
  te_whonly :: bool
  te_bindex :: int
  te_err :: int
  te_called :: int
  te_k :: kern

definition dots :: "byte list \<Rightarrow> bool" where
  "dots name \<longleftrightarrow> name = [46] \<or> name = [46, 46]"

definition test_empty_cb ::
    "(byte list \<Rightarrow> 32 word) \<Rightarrow> test_empty_arg \<Rightarrow> dirent \<Rightarrow> (int \<times> test_empty_arg) option" where
  "test_empty_cb fnh arg de =
     (let name = de_nm de;
          arg = arg\<lparr>te_err := 0, te_called := te_called arg + 1\<rparr>
      in if dots name then Some (0, arg)
         else do { arg \<leftarrow>
                (if length name \<le> AUFS_WH_LEN \<or> take AUFS_WH_LEN name \<noteq> AUFS_WH_PFX
                 then if te_whonly arg
                      then do { known \<leftarrow> test_known_wh fnh (te_whlist arg) name;
                                Some (if known then arg else arg\<lparr>te_err := - ENOTEMPTY\<rparr>) }
                      else Some arg
                 else do { let name = drop AUFS_WH_LEN name;
                           known \<leftarrow> test_known_wh fnh (te_whlist arg) name;
                           if known then Some arg
                           else do { (err, wl, k) \<leftarrow> append_wh fnh (te_whlist arg) name (te_bindex arg) (te_k arg);
                                     Some (arg\<lparr>te_err := err, te_whlist := wl, te_k := k\<rparr>) } });
              Some (te_err arg, arg) })"

type_synonym test_cb = "test_empty_arg \<Rightarrow> dirent \<Rightarrow> (int \<times> test_empty_arg) option"
type_synonym test_rd = "nat \<Rightarrow> test_cb \<Rightarrow> test_empty_arg \<Rightarrow> (int \<times> test_empty_arg) option"

partial_function (option) test_loop ::
    "test_rd \<Rightarrow> test_cb \<Rightarrow> nat \<Rightarrow> test_empty_arg \<Rightarrow> (int \<times> test_empty_arg) option" where
  "test_loop vrd cb hf arg =
     do { (err, arg) \<leftarrow> vrd hf cb (arg\<lparr>te_err := 0, te_called := 0\<rparr>);
          let err = (if 0 \<le> err then te_err arg else err);
          if err = 0 \<and> te_called arg \<noteq> 0 then test_loop vrd cb hf arg
          else Some (err, arg) }"

declare test_loop.simps [code]

definition O_DIRECTORY :: "32 word" where "O_DIRECTORY = 0x10000"
definition O_NONBLOCK :: "32 word" where "O_NONBLOCK = 0x800"

definition do_test_empty ::
    "(byte list \<Rightarrow> 32 word) \<Rightarrow> vfs \<Rightarrow> test_rd \<Rightarrow> aufs_dentry \<Rightarrow> aufs_inode \<Rightarrow> test_empty_arg \<Rightarrow> aufs_sb
       \<Rightarrow> (int \<times> test_empty_arg \<times> aufs_sb) option" where
  "do_test_empty fnh vf vrd dentry inode arg sb =
     do { (r, sb, k) \<leftarrow> hidden_open vf dentry (Some inode) (te_bindex arg)
                        (O_NONBLOCK OR O_DIRECTORY OR O_LARGEFILE) sb (te_k arg);
          let arg = arg\<lparr>te_k := k\<rparr>;
          case r of
            Inl err \<Rightarrow> Some (err, arg, sb)
          | Inr f \<Rightarrow>
              do { (err, arg) \<leftarrow> test_loop vrd (test_empty_cb fnh) f arg;
                   sb \<leftarrow> sbr_put sb (te_bindex arg);
                   Some (err, arg\<lparr>te_k := fput f (te_k arg)\<rparr>, sb) } }"

definition sio_test_empty ::
    "(byte list \<Rightarrow> 32 word) \<Rightarrow> vfs \<Rightarrow> test_rd \<Rightarrow> aufs_dentry \<Rightarrow> aufs_inode \<Rightarrow> test_empty_arg \<Rightarrow> aufs_sb
       \<Rightarrow> (int \<times> test_empty_arg \<times> aufs_sb) option" where
  "sio_test_empty fnh vf vrd dentry inode arg sb =
     do { hd \<leftarrow> au_h_dptr_i (te_k arg) dentry (te_bindex arg); h \<leftarrow> hd;
          hidden_inode \<leftarrow> k_dinode (te_k arg) h;
          _ \<leftarrow> debug_on (\<not> S_ISDIR (k_imode (te_k arg) hidden_inode));
          if au_test_perm (vf_permission vf) (vf_fsuid vf) (te_k arg) hidden_inode (MAY_EXEC OR MAY_READ) = 0
          then do_test_empty fnh vf vrd dentry inode arg sb
          else au_wkq_wait (\<lambda>_. do_test_empty fnh (vf\<lparr>vf_fsuid := 0\<rparr>) vrd dentry inode arg sb) }"

text \<open>One branch, with either of the two tests above.\<close>

type_synonym one_test = "test_empty_arg \<Rightarrow> aufs_sb \<Rightarrow> (int \<times> test_empty_arg \<times> aufs_sb) option"

definition test_round ::
    "one_test \<Rightarrow> aufs_dentry \<Rightarrow> int \<Rightarrow> int \<times> test_empty_arg \<times> aufs_sb
       \<Rightarrow> (bool \<times> (int \<times> test_empty_arg \<times> aufs_sb)) option" where
  "test_round test dentry bindex = (\<lambda>(err, arg, sb).
     do { hd \<leftarrow> au_h_dptr_i (te_k arg) dentry bindex;
          case Option.bind hd (k_dinode (te_k arg)) of
            None \<Rightarrow> Some (True, (err, arg, sb))
          | Some i \<Rightarrow>
              do { _ \<leftarrow> debug_on (\<not> S_ISDIR (k_imode (te_k arg) i));
                   (err, arg, sb) \<leftarrow> test (arg\<lparr>te_bindex := bindex\<rparr>) sb;
                   Some (err = 0, (err, arg, sb)) } })"

definition test_empty ::
    "(byte list \<Rightarrow> 32 word) \<Rightarrow> vfs \<Rightarrow> test_rd \<Rightarrow> aufs_dentry \<Rightarrow> aufs_inode \<Rightarrow> aufs_wh list list \<Rightarrow> aufs_sb \<Rightarrow> kern
       \<Rightarrow> (int \<times> aufs_wh list list \<times> aufs_sb \<times> kern) option" where
  "test_empty fnh vf vrd dentry inode whlist sb k =
     do { _ \<leftarrow> debug_on (\<not> S_ISDIR (i_mode inode));
          btail \<leftarrow> dbtaildir dentry;
          bstart \<leftarrow> dbstart dentry;
          (err, arg, sb) \<leftarrow> for_up (test_round (sio_test_empty fnh vf vrd dentry inode) dentry) bstart btail
             (0, \<lparr>te_whlist = whlist, te_whonly = True, te_bindex = 0, te_err = 0, te_called = 0, te_k = k\<rparr>, sb);
          Some (err, te_whlist arg, sb, te_k arg) }"

text \<open>
  A directory that is renamed may have entries in its first branch, but none of its own below: the
  whiteouts are collected from the first branch, the others are tested.
\<close>

definition au_test_empty_lower ::
    "(byte list \<Rightarrow> 32 word) \<Rightarrow> vfs \<Rightarrow> test_rd \<Rightarrow> aufs_dentry \<Rightarrow> aufs_inode \<Rightarrow> aufs_sb \<Rightarrow> kern
       \<Rightarrow> (int \<times> aufs_sb \<times> kern) option" where
  "au_test_empty_lower fnh vf vrd dentry inode sb k =
     do { _ \<leftarrow> debug_on (\<not> S_ISDIR (i_mode inode));
          let (r, k) = nhash_new k;
          case r of
            Inl err \<Rightarrow> Some (err, sb, k)
          | Inr whlist \<Rightarrow>
              do { bstart \<leftarrow> dbstart dentry;
                   (err, arg, sb) \<leftarrow> do_test_empty fnh vf vrd dentry inode
                     \<lparr>te_whlist = whlist, te_whonly = False, te_bindex = bstart, te_err = 0, te_called = 0, te_k = k\<rparr> sb;
                   (err, arg, sb) \<leftarrow>
                     (if err \<noteq> 0 then Some (err, arg, sb)
                      else do { btail \<leftarrow> dbtaildir dentry;
                                for_up (test_round (do_test_empty fnh vf vrd dentry inode) dentry) (bstart + 1) btail
                                  (0, arg\<lparr>te_whonly := True\<rparr>, sb) });
                   Some (err, sb, nhash_del (te_whlist arg) (te_k arg)) } }"

section \<open>An open that fails keeps its references\<close>

lemma br_get_put [simp]: "br_put b (br_get b sb) = sb"
  by (simp add: br_put_def br_get_def upd_br_def fun_eq_iff)

lemma hidden_open_sb:
  assumes "hidden_open vf d i b fl sb k = Some (r, sb', k')"
  shows "\<exists>a. stobr sb b = Some a \<and> sb' = (case r of Inl e \<Rightarrow> sb | Inr f \<Rightarrow> br_get a sb)"
proof -
  obtain h a ro where "au_h_dptr_i k d b = Some (Some h)" "stobr sb b = Some a"
    "test_ro k (br_get a sb) b i = Some ro"
    using assms by (auto simp: hidden_open_def bind_Some_iff Let_def)
  with assms show ?thesis
    by (auto simp: hidden_open_def bind_Some_iff Let_def split: prod.split_asm sum.split_asm)
qed

lemma set_h_fptr_fill:
  assumes "set_h_fptr file b (Some f) sb k = Some (file', sb', k')"
  shows "sb' = sb" and "fslot file' i = (if i = b then Some f else fslot file i)"
    and "fstart file' = fstart file"
  using assms
  by (auto simp: set_h_fptr_def bind_Some_iff ftofi_def hfile_at_def aget_Some_iff aset_Some_iff fslot_def the_hf_def
      fstart_def nth_list_update split: if_split_asm)

lemma stobr_get [simp]: "stobr (br_get a sb) b = stobr sb b"
  by (simp add: stobr_def br_get_def upd_br_def sbend_def)

lemma br_get_count: "br_count (s_br (br_get a sb) x) = br_count (s_br sb x) + (if x = a then 1 else 0)"
  by (simp add: br_get_def upd_br_def)

definition more_refs :: "aufs_sb \<Rightarrow> aufs_file \<times> aufs_sb \<times> kern \<Rightarrow> bool" where
  "more_refs sbi = (\<lambda>(file, sb, k). (\<forall>b. stobr sb b = stobr sbi b)
     \<and> (\<forall>a. br_count (s_br sbi a) \<le> br_count (s_br sb a))
     \<and> (\<forall>i f b. fslot file i = Some f \<longrightarrow> stobr sbi i = Some b \<longrightarrow> br_count (s_br sbi b) < br_count (s_br sb b)))"

lemma more_refsI:
  assumes "\<And>b. stobr sb b = stobr sbi b" and "\<And>a. br_count (s_br sbi a) \<le> br_count (s_br sb a)"
    and "\<And>i g b. fslot fi i = Some g \<Longrightarrow> stobr sbi i = Some b \<Longrightarrow> br_count (s_br sbi b) < br_count (s_br sb b)"
  shows "more_refs sbi (fi, sb, k)"
  using assms by (auto simp: more_refs_def)

lemma more_refsD:
  "more_refs sbi (fi, sb, k) \<Longrightarrow> fslot fi i = Some g \<Longrightarrow> stobr sbi i = Some b
     \<Longrightarrow> br_count (s_br sbi b) < br_count (s_br sb b)"
  by (auto simp: more_refs_def)

lemma open_round_refs:
  assumes "open_round vf d inode fl b (err, s) = Some (c, err', s')" and "more_refs sbi s"
  shows "more_refs sbi s'"
proof -
  obtain fi sb k where s: "s = (fi, sb, k)" by (cases s)
  obtain hd where hd: "au_h_dptr_i k d b = Some hd" using assms(1) by (auto simp: open_round_def s bind_Some_iff)
  show ?thesis
  proof (cases hd)
    case None
    with assms hd show ?thesis by (simp add: open_round_def s)
  next
    case (Some h)
    then obtain r sb1 k1 where o: "hidden_open vf d (Some inode) b fl sb k = Some (r, sb1, k1)"
      using assms(1) hd by (auto simp: open_round_def s bind_Some_iff)
    obtain a where a: "stobr sb b = Some a" "sb1 = (case r of Inl e \<Rightarrow> sb | Inr f \<Rightarrow> br_get a sb)"
      using hidden_open_sb [OF o] by blast
    show ?thesis
    proof (cases r)
      case (Inl e)
      with assms hd Some o a show ?thesis by (auto simp: open_round_def s more_refs_def)
    next
      case (Inr f)
      with assms(1) hd Some o obtain fi' sb2 k2 where
        f: "set_h_fptr fi b (Some f) sb1 k1 = Some (fi', sb2, k2)" "s' = (fi', sb2, k2)"
        by (auto simp: open_round_def s bind_Some_iff)
      have sb2: "sb2 = br_get a sb" using set_h_fptr_fill(1) [OF f(1)] a Inr by simp
      have "stobr sbi b = Some a" using a assms(2) by (simp add: more_refs_def s)
      then have "br_count (s_br sbi c) < br_count (s_br (br_get a sb) c)"
        if "fslot fi' i = Some g" "stobr sbi i = Some c" for i g c
        using that assms(2) by (cases "i = b")
          (fastforce simp: set_h_fptr_fill(2) [OF f(1)] more_refs_def s br_get_count)+
      moreover have "br_count (s_br sbi x) \<le> br_count (s_br (br_get a sb) x)" for x
        using assms(2) by (simp add: more_refs_def s br_get_count add_increasing2)
      ultimately show ?thesis using assms(2) unfolding f(2) sb2 by (intro more_refsI) (auto simp: more_refs_def s)
    qed
  qed
qed

lemma set_ends_slots:
  "set_fbstart sb file b = Some file' \<Longrightarrow> fslot file' i = fslot file i"
  "set_fbend sb file b = Some file' \<Longrightarrow> fslot file' i = fslot file i"
  "upd_fi (fi_u_update u) file = Some file' \<Longrightarrow> fslot file' i = fslot file i"
  by (auto simp: set_fbstart_def set_fbend_def upd_fi_def ftofi_def bind_Some_iff fslot_def the_hf_def
      split: if_split_asm)

lemma fslot_version [simp]: "fslot (f\<lparr>f_version := v\<rparr>) i = fslot f i"
  by (simp add: fslot_def the_hf_def)

text \<open>C13.
  When opening a directory fails at one of the branches, the hidden directories opened before are
  not closed: the loop for that runs only while there is no error. Their branches keep the
  references, which \<open>au_fin_finfo\<close> does not give back either, for the range is emptied.
\<close>

theorem do_open_dir_leaks:
  assumes run: "do_open_dir vf dentry inode flags file sb k = Some (err, file', sb', k')" "err \<noteq> 0"
    and new: "\<forall>i. fslot file i = None" and opened: "fslot file' i = Some f" "stobr sb i = Some b"
  shows "br_count (s_br sb b) < br_count (s_br sb' b)
     \<and> (\<exists>file''. au_fin_finfo file' sb' k' = Some (file'', sb', kfree (kfree k')))"
proof -
  let ?f = "\<lambda>file. file\<lparr>f_version := i_version inode\<rparr>"
  obtain f1 f2 f3 lo hi f4 sb4 k4 where
    1: "upd_fi (fi_u_update (\<lambda>_. Fi_vdir_cache None)) file = Some f1" "set_fbstart sb (?f f1) lo = Some f2"
      "set_fbend sb f2 hi = Some f3"
    and l: "for_up (open_round vf dentry inode flags) lo hi (0, f3, sb, k) = Some (err, f4, sb4, k4)"
    and c: "close_all err hi f4 sb4 k4 = Some (file', sb', k')"
    using run by (auto simp: do_open_dir_def bind_Some_iff Let_def split: if_split_asm)
  have "fslot f3 i = None" for i
    using set_ends_slots(3) [OF 1(1), of i] set_ends_slots(1) [OF 1(2), of i] set_ends_slots(2) [OF 1(3), of i] new
    by simp
  then have "more_refs sb (f3, sb, k)" by (simp add: more_refs_def)
  then have m: "more_refs sb (f4, sb4, k4)"
    using for_up_inv [OF l, of "\<lambda>_ t. more_refs sb (snd t)" "\<lambda>t. more_refs sb (snd t)"] open_round_refs [of vf dentry inode flags]
      l by (cases "lo \<le> hi + 1") (fastforce split: if_split_asm, auto simp: for_up_done)
  obtain f5 where e: "set_fbstart sb4 f4 (- 1) = Some f5" "set_fbend sb4 f5 (- 1) = Some file'" "sb' = sb4" "k' = k4"
    using c run(2) by (auto simp: close_all_def bind_Some_iff)
  have "fslot file' i = fslot f4 i"
    using set_ends_slots(1) [OF e(1)] set_ends_slots(2) [OF e(2)] by simp
  then have "br_count (s_br sb b) < br_count (s_br sb' b)" using more_refsD [OF m, of i f b] opened e(3) by simp
  moreover obtain x where x: "private_data file' = Some x" "fi_bstart x = - 1" "fi_bend x = - 1"
    using e(1,2) by (auto simp: set_fbstart_def set_fbend_def upd_fi_def ftofi_def bind_Some_iff split: if_split_asm)
  then have "ftofi file' = Some x" by (simp add: ftofi_def)
  with x have "au_fin_finfo file' sb' k' = Some (file', sb', kfree (kfree k'))"
    by (simp add: au_fin_finfo_def fbstart_def fbend_def)
  ultimately show ?thesis by blast
qed

text \<open>A directory of two branches; the second one cannot be opened.\<close>

definition vfs_part :: vfs where
  "vfs_part = vfs0\<lparr>vf_dentry_open := (\<lambda>d m _ k. if d = 21 then (Inl (- 23), mntput (Some m) (dput (Some d) k))
     else (Inr d, k\<lparr>k_fcount := (k_fcount k)(d := 1)\<rparr>))\<rparr>"

definition file_new :: aufs_file where
  "file_new = \<lparr>private_data = Some \<lparr>fi_generation = 0, fi_hfile = replicate 2 \<lparr>hf_file = None, hf_br = None\<rparr>,
     fi_bstart = - 1, fi_bend = - 1, fi_u = Fi_vdir_cache None\<rparr>, f_pos = 0, f_version = 0\<rparr>"

lemma part_run:
  "map_option (\<lambda>(err, f, _). (err, fslot f 0)) (do_open_dir vfs_part (dir_at [Some 20, Some 21] 0 1)
     (inode_at [Some 20, Some 21] 0 1) 0 file_new (sb0 2) kern0) = Some (- 23, Some 20)"
  by code_simp

theorem do_open_dir_leaks_witness:
  "\<exists>file' sb' k'. do_open_dir vfs_part (dir_at [Some 20, Some 21] 0 1) (inode_at [Some 20, Some 21] 0 1) 0
       file_new (sb0 2) kern0 = Some (- 23, file', sb', k')
     \<and> 0 < br_count (s_br sb' 0)"
proof -
  obtain file' sb' k' where r: "do_open_dir vfs_part (dir_at [Some 20, Some 21] 0 1)
      (inode_at [Some 20, Some 21] 0 1) 0 file_new (sb0 2) kern0 = Some (- 23, file', sb', k')"
    and f: "fslot file' 0 = Some 20"
    using part_run by auto
  have "\<forall>i. fslot file_new i = None" by (auto simp: fslot_def file_new_def the_hf_def)
  moreover have "stobr (sb0 2) 0 = Some 0" by code_simp
  ultimately show ?thesis using do_open_dir_leaks [OF r _ _ f, of 0] r by (auto simp: sb0_def)
qed

section \<open>What the test decides\<close>

text \<open>
  The documented behaviour of \<open>vfs_readdir\<close> for this filler, as \<open>readdir_ok\<close> states it for the
  other one: the entries behind the position are given to the filler until it refuses one. An
  opened directory starts at position 0.
\<close>

fun tfeed :: "nat \<Rightarrow> test_cb \<Rightarrow> dirent list \<Rightarrow> test_empty_arg \<Rightarrow> (int \<times> test_empty_arg) option" where
  "tfeed hf cb [] s = Some (0, s)"
| "tfeed hf cb (e # es) s =
     do { (r, s) \<leftarrow> cb s e;
          if r \<noteq> 0 then Some (0, s)
          else tfeed hf cb es (s\<lparr>te_k := set_fpos hf (k_fpos (te_k s) hf + 1) (te_k s)\<rparr>) }"

definition test_rd_ok :: "test_rd \<Rightarrow> (nat \<Rightarrow> dirent list) \<Rightarrow> bool" where
  "test_rd_ok vrd C \<longleftrightarrow>
     (\<forall>hf cb s. vrd hf cb s = tfeed hf cb (drop (unat (k_fpos (te_k s) hf)) (C hf)) s)"

definition dirs_open :: "vfs \<Rightarrow> (nat \<Rightarrow> nat) \<Rightarrow> bool" where
  "dirs_open vf fl \<longleftrightarrow> (\<forall>d m flags k. vf_dentry_open vf d m flags k =
     (Inr (fl d), k\<lparr>k_fcount := (k_fcount k)(fl d := k_fcount k (fl d) + 1), k_fpos := (k_fpos k)(fl d := 0)\<rparr>))"

text \<open>A branch in which no name and its whiteout stand together.\<close>

definition good_dir :: "dirent list \<Rightarrow> bool" where
  "good_dir es \<longleftrightarrow> length es < 2 ^ 64 \<and> (\<forall>e \<in> set es. length (de_nm e) \<le> 255
     \<and> (\<not> is_whname (de_nm e) \<longrightarrow> de_nm e \<notin> whited es))"

text \<open>What the test changes in the store; no dentry loses a reference.\<close>

definition tframe :: "kern \<Rightarrow> kern \<Rightarrow> bool" where
  "tframe k k' \<longleftrightarrow> k_ok k' = k_ok k \<and> k_dinode k' = k_dinode k \<and> k_imode k' = k_imode k \<and> k_icount k' = k_icount k
     \<and> k_iimmutable k' = k_iimmutable k \<and> k_srdonly k' = k_srdonly k \<and> k_msb k' = k_msb k
     \<and> (\<forall>d. k_dcount k d \<le> k_dcount k' d)"

lemma tframe_refl [simp]: "tframe k k"
  by (simp add: tframe_def)

lemma tframe_trans [trans]: "tframe k k' \<Longrightarrow> tframe k' k'' \<Longrightarrow> tframe k k''"
  by (force simp: tframe_def intro: order_trans)

lemma tframe_steps:
  "tframe k (set_fpos f p k)" "tframe k (kmem a l k)" "tframe k (fput f k)" "tframe k (mntget m (dget d k))"
  "tframe k (k\<lparr>k_fcount := fc, k_fpos := fp\<rparr>)"
  by (simp_all add: tframe_def set_fpos_def kmem_def ref_defs)

lemma tframe_ro:
  assumes "tframe k k'" shows "test_ro k' sb b i = test_ro k sb b i"
proof -
  have "br_rdonly k' br = br_rdonly k br" for br using assms by (simp add: tframe_def br_rdonly_def)
  moreover have "au_h_iptr_i k' j b = au_h_iptr_i k j b" for j using assms by (simp add: tframe_def au_h_iptr_i_def cong: option.case_cong)
  ultimately show ?thesis using assms by (simp add: test_ro_def tframe_def Let_def cong: option.case_cong if_cong)
qed

lemma tframe_dptr: "tframe k k' \<Longrightarrow> au_h_dptr_i k d b = Some h \<Longrightarrow> au_h_dptr_i k' d b = Some h"
  by (erule au_h_dptr_i_mono) (simp add: tframe_def)

lemma tframe_set_fpos [simp]: "tframe k (set_fpos f p k') = tframe k k'" and tframe_kmem [simp]: "tframe k (kmem a l k') = tframe k k'"
  and tframe_fput [simp]: "tframe k (fput f k') = tframe k k'"
  by (simp_all add: tframe_def set_fpos_def kmem_def ref_defs)

section \<open>One branch\<close>

text \<open>What the callback does to an entry, when \<open>W\<close> is known to be whited out.\<close>

lemma test_cb_dots: "dots (de_nm e) \<Longrightarrow> test_empty_cb fnh s e = Some (0, s\<lparr>te_err := 0, te_called := te_called s + 1\<rparr>)"
  by (simp add: test_empty_cb_def Let_def)

lemma test_cb_plain:
  assumes "\<not> dots (de_nm e)" "\<not> is_whname (de_nm e)" "te_whonly s" "wl_ok fnh (te_whlist s) W"
  shows "test_empty_cb fnh s e = Some (if de_nm e \<in> W then 0 else - ENOTEMPTY,
    s\<lparr>te_err := (if de_nm e \<in> W then 0 else - ENOTEMPTY), te_called := te_called s + 1\<rparr>)"
  using assms test_known_wh_ok [OF assms(4), of "de_nm e"]
  by (auto simp: test_empty_cb_def Let_def is_whname_def not_less)

lemma test_cb_wh:
  assumes "is_whname (de_nm e)" "length (de_nm e) \<le> 255" "wl_ok fnh (te_whlist s) W" "\<forall>i. k_ok (te_k s) i"
  shows "\<exists>wl k. test_empty_cb fnh s e
       = Some (0, s\<lparr>te_err := 0, te_called := te_called s + 1, te_whlist := wl, te_k := k\<rparr>)
     \<and> wl_ok fnh wl (insert (drop AUFS_WH_LEN (de_nm e)) W) \<and> tframe (te_k s) k \<and> k_fpos k = k_fpos (te_k s)"
proof -
  let ?n = "drop AUFS_WH_LEN (de_nm e)"
  have nd: "\<not> dots (de_nm e)" using assms(1) by (auto simp: dots_def is_whname_def AUFS_WH_LEN_def)
  have len: "length ?n \<le> 255" using assms(2) by simp
  from append_wh_ok [OF assms(3) len assms(4)] obtain w where
    w: "append_wh fnh (te_whlist s) ?n (te_bindex s) (te_k s)
        = Some (0, (te_whlist s)[au_name_hash fnh ?n := w # te_whlist s ! au_name_hash fnh ?n], kmem 1 1 (te_k s))"
      "wl_ok fnh ((te_whlist s)[au_name_hash fnh ?n := w # te_whlist s ! au_name_hash fnh ?n]) (insert ?n W)"
    by blast
  show ?thesis
  proof (cases "?n \<in> W")
    case True
    then have "test_empty_cb fnh s e = Some (0, s\<lparr>te_err := 0, te_called := te_called s + 1\<rparr>)"
      using assms(1) nd test_known_wh_ok [OF assms(3), of ?n]
      by (simp add: test_empty_cb_def Let_def is_whname_def)
    then show ?thesis using assms(3) True
      by (intro exI [of _ "te_whlist s"] exI [of _ "te_k s"]) (simp add: insert_absorb)
  next
    case False
    then have "test_empty_cb fnh s e = Some (0, s\<lparr>te_err := 0, te_called := te_called s + 1,
        te_whlist := (te_whlist s)[au_name_hash fnh ?n := w # te_whlist s ! au_name_hash fnh ?n],
        te_k := kmem 1 1 (te_k s)\<rparr>)"
      using assms(1) nd test_known_wh_ok [OF assms(3), of ?n] w(1)
      by (simp add: test_empty_cb_def Let_def is_whname_def)
    moreover have "k_fpos (kmem 1 1 (te_k s)) = k_fpos (te_k s)" by (simp add: kmem_def)
    ultimately show ?thesis using w(2) by (metis tframe_refl tframe_kmem)
  qed
qed

text \<open>The entries that count: neither whiteouts nor the directory and its parent.\<close>

definition real_names :: "dirent list \<Rightarrow> byte list set" where
  "real_names es = {n \<in> de_nm ` set es. \<not> is_whname n \<and> \<not> dots n}"

lemma tfeed_ok:
  assumes "W0 \<subseteq> W" and "W \<inter> real_names es \<subseteq> W0" and "\<forall>e \<in> set es. length (de_nm e) \<le> 255"
    and "real_names es \<inter> whited es \<subseteq> W0"
    and "wl_ok fnh (te_whlist s) W" "te_whonly s" "\<forall>i. k_ok (te_k s) i" "te_err s = 0"
  shows "\<exists>s'. tfeed hf (test_empty_cb fnh) es s = Some (0, s') \<and> tframe (te_k s) (te_k s')
     \<and> te_bindex s' = te_bindex s \<and> te_whonly s' \<and> te_called s \<le> te_called s'
     \<and> (if real_names es \<subseteq> W0
        then te_err s' = 0 \<and> te_called s' = te_called s + int (length es)
          \<and> wl_ok fnh (te_whlist s') (W \<union> whited es) \<and> k_fpos (te_k s') hf = k_fpos (te_k s) hf + of_nat (length es)
        else te_err s' = - ENOTEMPTY)"
  using assms
proof (induction es arbitrary: s W)
  case Nil
  then show ?case by (simp add: real_names_def whited_Nil)
next
  case (Cons e es)
  have rn: "real_names (e # es) = (if is_whname (de_nm e) \<or> dots (de_nm e) then real_names es
      else insert (de_nm e) (real_names es))" by (auto simp: real_names_def)
  have step: ?case
    if cb: "test_empty_cb fnh s e = Some (0, t)" and t: "te_err t = 0" "te_called t = te_called s + 1"
      "te_bindex t = te_bindex s" "te_whonly t" "tframe (te_k s) (te_k t)" "k_fpos (te_k t) = k_fpos (te_k s)"
    and W': "wl_ok fnh (te_whlist t) W'" "W' \<union> whited es = W \<union> whited (e # es)" "W0 \<subseteq> W'"
      "W' \<inter> real_names es \<subseteq> W0"
    and r: "real_names (e # es) \<subseteq> W0 \<longleftrightarrow> real_names es \<subseteq> W0" for t W'
  proof -
    let ?t = "t\<lparr>te_k := set_fpos hf (k_fpos (te_k t) hf + 1) (te_k t)\<rparr>"
    have 4: "real_names es \<inter> whited es \<subseteq> W0" using Cons.prems(4) by (auto simp: rn whited_Cons1 split: if_splits)
    have ok: "\<forall>i. k_ok (te_k ?t) i" using t(5) Cons.prems(7) by (simp add: tframe_def set_fpos_def)
    have k: "k_fpos (te_k ?t) hf = k_fpos (te_k s) hf + 1" by (simp add: set_fpos_def t(6))
    have "\<exists>s'. tfeed hf (test_empty_cb fnh) es ?t = Some (0, s') \<and> tframe (te_k ?t) (te_k s')
        \<and> te_bindex s' = te_bindex ?t \<and> te_whonly s' \<and> te_called ?t \<le> te_called s'
        \<and> (if real_names es \<subseteq> W0
           then te_err s' = 0 \<and> te_called s' = te_called ?t + int (length es)
             \<and> wl_ok fnh (te_whlist s') (W' \<union> whited es) \<and> k_fpos (te_k s') hf = k_fpos (te_k ?t) hf + of_nat (length es)
           else te_err s' = - ENOTEMPTY)"
      by (rule Cons.IH [OF W'(3,4) _ 4]) (use Cons.prems(3) W'(1) t ok in auto)
    then obtain s' where
      s': "tfeed hf (test_empty_cb fnh) es ?t = Some (0, s')" "tframe (te_k ?t) (te_k s')"
        "te_bindex s' = te_bindex s" "te_whonly s'" "te_called t \<le> te_called s'"
        "if real_names es \<subseteq> W0 then te_err s' = 0 \<and> te_called s' = te_called t + int (length es)
          \<and> wl_ok fnh (te_whlist s') (W' \<union> whited es) \<and> k_fpos (te_k s') hf = k_fpos (te_k ?t) hf + of_nat (length es)
         else te_err s' = - ENOTEMPTY" using t(3) by (auto simp del: if_split)
    have "tframe (te_k s) (te_k s')" using tframe_trans [OF _ s'(2)] t(5) by simp
    then show ?thesis using s'(1,3,4,5,6) cb t(1,2) r k
      by (intro exI [of _ s']) (simp add: add.assoc flip: W'(2))
  qed
  consider (d) "dots (de_nm e)" | (w) "is_whname (de_nm e)" "\<not> dots (de_nm e)"
    | (p) "\<not> dots (de_nm e)" "\<not> is_whname (de_nm e)" by blast
  then show ?case
  proof cases
    case d
    then have nw: "\<not> is_whname (de_nm e)" by (auto simp: dots_def is_whname_def AUFS_WH_LEN_def)
    show ?thesis
      by (rule step [OF test_cb_dots [OF d], where W' = W]) (use Cons.prems d nw in \<open>auto simp: rn whited_Cons1\<close>)
  next
    case w
    from test_cb_wh [OF w(1) _ Cons.prems(5,7)] Cons.prems(3) obtain wl k where
      c: "test_empty_cb fnh s e = Some (0, s\<lparr>te_err := 0, te_called := te_called s + 1, te_whlist := wl, te_k := k\<rparr>)"
      "wl_ok fnh wl (insert (drop AUFS_WH_LEN (de_nm e)) W)" "tframe (te_k s) k" "k_fpos k = k_fpos (te_k s)" by auto
    show ?thesis
      by (rule step [OF c(1), where W' = "insert (drop AUFS_WH_LEN (de_nm e)) W"])
        (use Cons.prems w c(2-4) in \<open>auto simp: rn whited_Cons1\<close>)
  next
    case p
    note cb = test_cb_plain [OF p Cons.prems(6,5)]
    show ?thesis
    proof (cases "de_nm e \<in> W")
      case True
      then have "de_nm e \<in> W0" using Cons.prems(2) p by (auto simp: rn)
      then show ?thesis
        by (intro step [OF cb [simplified True if_True], where W' = W]) (use Cons.prems p True in \<open>auto simp: rn whited_Cons1\<close>)
    next
      case False
      then have "de_nm e \<notin> W0" using Cons.prems(1) by auto
      then show ?thesis using cb False p Cons.prems(6) by (auto simp: rn)
    qed
  qed
qed

lemma test_loop_ok:
  assumes vrd: "test_rd_ok vrd C" and g: "good_dir (C hf)" and pos: "k_fpos (te_k s) hf = 0"
    and "wl_ok fnh (te_whlist s) W" "te_whonly s" "\<forall>i. k_ok (te_k s) i"
  shows "\<exists>s'. test_loop vrd (test_empty_cb fnh) hf s
       = Some (if real_names (C hf) \<subseteq> W then 0 else - ENOTEMPTY, s')
     \<and> tframe (te_k s) (te_k s') \<and> te_bindex s' = te_bindex s \<and> te_whonly s'
     \<and> (real_names (C hf) \<subseteq> W \<longrightarrow> wl_ok fnh (te_whlist s') (W \<union> whited (C hf)))"
proof -
  let ?s = "s\<lparr>te_err := 0, te_called := 0\<rparr>" and ?cb = "test_empty_cb fnh" and ?es = "C hf"
  have sep: "real_names ?es \<inter> whited ?es \<subseteq> W" "\<forall>e \<in> set ?es. length (de_nm e) \<le> 255" "length ?es < 2 ^ 64"
    using g by (auto simp: good_dir_def real_names_def)
  obtain s1 where s1: "tfeed hf ?cb ?es ?s = Some (0, s1)" "tframe (te_k ?s) (te_k s1)" "te_bindex s1 = te_bindex s"
    "te_whonly s1" "0 \<le> te_called s1"
    "if real_names ?es \<subseteq> W then te_err s1 = 0 \<and> te_called s1 = int (length ?es)
       \<and> wl_ok fnh (te_whlist s1) (W \<union> whited ?es) \<and> k_fpos (te_k s1) hf = of_nat (length ?es)
     else te_err s1 = - ENOTEMPTY"
    using tfeed_ok [of W W ?es fnh ?s hf] sep assms(4-6) pos by (auto simp del: if_split)
  have v1: "vrd hf ?cb ?s = Some (0, s1)" using vrd pos s1(1) by (simp add: test_rd_ok_def)
  show ?thesis
  proof (cases "real_names ?es \<subseteq> W")
    case False
    then show ?thesis using s1 v1 by (subst test_loop.simps) simp
  next
    case True
    then have f: "te_err s1 = 0" "te_called s1 = int (length ?es)" "wl_ok fnh (te_whlist s1) (W \<union> whited ?es)"
      "k_fpos (te_k s1) hf = of_nat (length ?es)" using s1(6) by simp_all
    have "unat (k_fpos (te_k s1) hf) = length ?es" using f(4) sep(3) by (simp add: unat_of_nat)
    then have "vrd hf ?cb (s1\<lparr>te_err := 0, te_called := 0\<rparr>) = Some (0, s1\<lparr>te_err := 0, te_called := 0\<rparr>)"
      using vrd by (simp add: test_rd_ok_def)
    then have 2: "test_loop vrd ?cb hf s1 = Some (0, s1\<lparr>te_err := 0, te_called := 0\<rparr>)"
      by (subst test_loop.simps) simp
    have "\<exists>s2. test_loop vrd ?cb hf s = Some (0, s2) \<and> te_k s2 = te_k s1 \<and> te_bindex s2 = te_bindex s1
        \<and> te_whonly s2 \<and> te_whlist s2 = te_whlist s1"
    proof (cases "?es = []")
      case True
      then show ?thesis using v1 f s1(4) by (subst test_loop.simps) simp
    next
      case False
      then show ?thesis using v1 f 2 s1(4) by (subst test_loop.simps) simp
    qed
    then show ?thesis using s1(2,3) f(3) True by fastforce
  qed
qed

lemma test_ro_get [simp]: "test_ro k (br_get a sb) b i = test_ro k sb b i"
proof -
  have "sbr (br_get a sb) b = map_option (\<lambda>x. (s_br (br_get a sb) x)) (stobr sb b)"
    by (simp add: sbr_def)
  moreover have "br_rdonly k (s_br (br_get a sb) x) = br_rdonly k (s_br sb x)" for x
    by (simp add: br_rdonly_def br_get_def upd_br_def)
  ultimately show ?thesis by (cases "stobr sb b") (simp_all add: test_ro_def sbr_def)
qed

text \<open>What the test needs of the branches of the directory, and what it reads in one of them.\<close>

definition testable :: "aufs_sb \<Rightarrow> aufs_dentry \<Rightarrow> aufs_inode \<Rightarrow> kern \<Rightarrow> int \<Rightarrow> bool" where
  "testable sb d inode k j \<longleftrightarrow> stobr sb j \<noteq> None \<and> test_ro k sb j (Some inode) \<noteq> None
     \<and> au_h_dptr_i k d j = Some (hslot d j)
     \<and> (\<forall>h i. hslot d j = Some h \<longrightarrow> k_dinode k h = Some i \<longrightarrow> S_ISDIR (k_imode k i))"

definition te_dir :: "(nat \<Rightarrow> dirent list) \<Rightarrow> (nat \<Rightarrow> nat) \<Rightarrow> kern \<Rightarrow> aufs_dentry \<Rightarrow> int \<Rightarrow> dirent list" where
  "te_dir C fl k d j = (case hslot d j of None \<Rightarrow> [] | Some h \<Rightarrow> if k_dinode k h = None then [] else C (fl h))"

lemma testable_mono: "testable sb d inode k j \<Longrightarrow> tframe k k' \<Longrightarrow> testable sb d inode k' j"
  using tframe_ro [of k k' sb j "Some inode"] tframe_dptr [of k k' d j]
  by (auto simp: testable_def tframe_def)

lemma do_test_empty_ok:
  assumes r: "testable sb d inode (te_k s) (te_bindex s)" and h: "hslot d (te_bindex s) = Some h" "k_dinode (te_k s) h = Some i"
    and env: "test_rd_ok vrd C" "dirs_open vf fl" "good_dir (C (fl h))"
    and s: "wl_ok fnh (te_whlist s) W" "te_whonly s" "\<forall>i. k_ok (te_k s) i"
  shows "\<exists>s'. do_test_empty fnh vf vrd d inode s sb
       = Some (if real_names (C (fl h)) \<subseteq> W then 0 else - ENOTEMPTY, s', sb)
     \<and> tframe (te_k s) (te_k s') \<and> te_whonly s'
     \<and> (real_names (C (fl h)) \<subseteq> W \<longrightarrow> wl_ok fnh (te_whlist s') (W \<union> whited (C (fl h))))"
proof -
  obtain a ro where a: "stobr sb (te_bindex s) = Some a" "test_ro (te_k s) sb (te_bindex s) (Some inode) = Some ro"
    and d: "au_h_dptr_i (te_k s) d (te_bindex s) = Some (Some h)"
    using r h(1) by (auto simp: testable_def)
  define k1 where "k1 = mntget (br_mnt (s_br (br_get a sb) a)) (dget h (te_k s))"
  define k2 where "k2 = k1\<lparr>k_fcount := (k_fcount k1)(fl h := k_fcount k1 (fl h) + 1), k_fpos := (k_fpos k1)(fl h := 0)\<rparr>"
  have o: "hidden_open vf d (Some inode) (te_bindex s) fgs sb (te_k s) = Some (Inr (fl h), br_get a sb, k2)" for fgs
    using a d h(2) env(2) by (simp add: hidden_open_def dirs_open_def Let_def k1_def k2_def)
  have f: "tframe (te_k s) k2"
    using tframe_trans [OF tframe_steps(4) tframe_steps(5)] unfolding k1_def k2_def by blast
  have ok2: "\<forall>i. k_ok k2 i" using f s(3) by (simp add: tframe_def)
  from test_loop_ok [OF env(1) env(3), of "s\<lparr>te_k := k2\<rparr>" fnh W] s ok2 obtain s1 where
    l: "test_loop vrd (test_empty_cb fnh) (fl h) (s\<lparr>te_k := k2\<rparr>)
        = Some (if real_names (C (fl h)) \<subseteq> W then 0 else - ENOTEMPTY, s1)"
      "tframe k2 (te_k s1)" "te_bindex s1 = te_bindex s" "te_whonly s1"
      "real_names (C (fl h)) \<subseteq> W \<longrightarrow> wl_ok fnh (te_whlist s1) (W \<union> whited (C (fl h)))"
    by (auto simp: k2_def simp del: if_split)
  have "do_test_empty fnh vf vrd d inode s sb
      = Some (if real_names (C (fl h)) \<subseteq> W then 0 else - ENOTEMPTY, s1\<lparr>te_k := fput (fl h) (te_k s1)\<rparr>, sb)"
    using o l(1,3) a by (simp add: do_test_empty_def sbr_put_def)
  moreover have "tframe (te_k s) (te_k s1)" by (rule tframe_trans [OF f l(2)])
  ultimately show ?thesis using l(4,5)
    by (intro exI [of _ "s1\<lparr>te_k := fput (fl h) (te_k s1)\<rparr>"]) simp
qed

lemma sio_test_empty_eq:
  assumes "testable sb d inode (te_k s) (te_bindex s)" "hslot d (te_bindex s) = Some h" "k_dinode (te_k s) h = Some i"
  shows "sio_test_empty fnh vf vrd d inode s sb = do_test_empty fnh vf vrd d inode s sb"
proof -
  have "do_test_empty fnh (vf\<lparr>vf_fsuid := u\<rparr>) vrd d inode s sb = do_test_empty fnh vf vrd d inode s sb" for u
    by (simp add: do_test_empty_def hidden_open_def)
  with assms show ?thesis by (simp add: sio_test_empty_def testable_def au_wkq_wait_def)
qed

section \<open>All branches\<close>

definition above_wh :: "(int \<Rightarrow> dirent list) \<Rightarrow> int \<Rightarrow> int \<Rightarrow> byte list set" where
  "above_wh T lo j = (\<Union>l\<in>{lo..<j}. whited (T l))"

lemma above_wh_next: "lo \<le> j \<Longrightarrow> above_wh T lo (j + 1) = above_wh T lo j \<union> whited (T j)"
proof -
  assume "lo \<le> j"
  then have "{lo..<j + 1} = insert j {lo..<j}" by auto
  then show ?thesis by (auto simp: above_wh_def)
qed

lemma shown_dots:
  "(\<forall>e \<in> set (shown K es). dots (de_nm e)) \<longleftrightarrow> real_names es \<subseteq> K"
  by (auto simp: shown_def real_names_def)

lemma merged_dots:
  assumes "\<And>n. \<not> dots n \<Longrightarrow> n \<in> K \<longleftrightarrow> n \<in> W"
  shows "(\<forall>e \<in> set (merged K (map T [i..e]))  . dots (de_nm e))
    \<longleftrightarrow> (\<forall>j. i \<le> j \<longrightarrow> j \<le> e \<longrightarrow> real_names (T j) \<subseteq> W \<union> above_wh T i j)"
  using assms
proof (induction "nat (e + 1 - i)" arbitrary: i K W)
  case 0
  then show ?case by auto
next
  case (Suc m)
  then have ie: "i \<le> e" by simp
  then have l: "[i..e] = i # [i + 1..e]" by (simp add: upto.simps)
  let ?K = "K \<union> de_nm ` set (shown K (T i)) \<union> whited (T i)"
  have iK: "real_names (T i) \<subseteq> K \<longleftrightarrow> real_names (T i) \<subseteq> W" using Suc.prems by (auto simp: real_names_def)
  have "{i..<j} = insert i {i + 1..<j}" if "i < j" for j using that by auto
  then have ab: "above_wh T i j = whited (T i) \<union> above_wh T (i + 1) j" if "i < j" for j
    using that by (auto simp: above_wh_def)
  have split: "(\<forall>j. i \<le> j \<longrightarrow> j \<le> e \<longrightarrow> P j) \<longleftrightarrow> P i \<and> (\<forall>j. i + 1 \<le> j \<longrightarrow> j \<le> e \<longrightarrow> P j)" for P
    using ie by (metis add1_zle_eq order_le_less)
  show ?case
  proof (cases "real_names (T i) \<subseteq> W")
    case False
    then have "\<not> (\<forall>e \<in> set (shown K (T i)). dots (de_nm e))" using iK by (simp add: shown_dots)
    moreover have "above_wh T i i = {}" by (simp add: above_wh_def)
    ultimately show ?thesis using False ie by (auto simp: l)
  next
    case True
    then have d: "\<forall>e \<in> set (shown K (T i)). dots (de_nm e)" using iK by (simp add: shown_dots)
    have "(\<forall>e \<in> set (merged ?K (map T [i + 1..e])). dots (de_nm e))
      \<longleftrightarrow> (\<forall>j. i + 1 \<le> j \<longrightarrow> j \<le> e \<longrightarrow> real_names (T j) \<subseteq> (W \<union> whited (T i)) \<union> above_wh T (i + 1) j)"
      using Suc.hyps(2) Suc.prems d by (intro Suc.hyps(1)) auto
    moreover have "above_wh T i i = {}" by (simp add: above_wh_def)
    ultimately show ?thesis using d True ab by (subst split) (auto simp: l Un_assoc)
  qed
qed

lemma test_round_ok:
  assumes t: "testable sb d inode (te_k s) j" and env: "test_rd_ok vrd C" "dirs_open vf fl"
    and g: "good_dir (te_dir C fl (te_k s) d j)"
    and s: "wl_ok fnh (te_whlist s) W" "te_whonly s" "\<forall>i. k_ok (te_k s) i"
  shows "\<exists>s'. test_round (sio_test_empty fnh vf vrd d inode) d j (0, s, sb)
       = Some (real_names (te_dir C fl (te_k s) d j) \<subseteq> W,
           if real_names (te_dir C fl (te_k s) d j) \<subseteq> W then 0 else - ENOTEMPTY, s', sb)
     \<and> tframe (te_k s) (te_k s') \<and> te_whonly s'
     \<and> (real_names (te_dir C fl (te_k s) d j) \<subseteq> W
          \<longrightarrow> wl_ok fnh (te_whlist s') (W \<union> whited (te_dir C fl (te_k s) d j)))"
proof (cases "Option.bind (hslot d j) (k_dinode (te_k s))")
  case None
  then have "te_dir C fl (te_k s) d j = []" by (auto simp: te_dir_def split: option.splits)
  with None t s show ?thesis
    by (intro exI [of _ s]) (simp add: test_round_def testable_def real_names_def whited_Nil)
next
  case (Some i)
  then obtain h where h: "hslot d j = Some h" "k_dinode (te_k s) h = Some i" by (auto simp: bind_Some_iff)
  let ?s = "s\<lparr>te_bindex := j\<rparr>"
  have T: "te_dir C fl (te_k s) d j = C (fl h)" using h by (simp add: te_dir_def)
  have t': "testable sb d inode (te_k ?s) (te_bindex ?s)" and h': "hslot d (te_bindex ?s) = Some h" using t h by simp_all
  from do_test_empty_ok [OF t' h' _ env, of i fnh W] h(2) g s obtain s1 where
    r: "do_test_empty fnh vf vrd d inode ?s sb = Some (if real_names (C (fl h)) \<subseteq> W then 0 else - ENOTEMPTY, s1, sb)"
      "tframe (te_k s) (te_k s1)" "te_whonly s1"
      "real_names (C (fl h)) \<subseteq> W \<longrightarrow> wl_ok fnh (te_whlist s1) (W \<union> whited (C (fl h)))"
    by (auto simp: T simp del: if_split)
  have "sio_test_empty fnh vf vrd d inode ?s sb = do_test_empty fnh vf vrd d inode ?s sb"
    by (rule sio_test_empty_eq [OF t' h']) (use h(2) in simp)
  with r t h show ?thesis unfolding T
    by (intro exI [of _ s1]) (auto simp: test_round_def testable_def)
qed

text \<open>C12.
  The test for emptiness ends, and decides whether the merge of the branches has an entry beside
  the directory itself and its parent, when memory and the hidden filesystems do not fail and no
  branch has a name together with its whiteout. No branch keeps a reference.
\<close>

theorem test_empty_decides:
  assumes env: "test_rd_ok vrd C" "dirs_open vf fl" and mem: "\<forall>i. k_ok k i" and dir: "S_ISDIR (i_mode inode)"
    and range: "dbstart d = Some lo" "dbtaildir d = Some hi" "lo \<le> hi + 1"
    and t: "\<forall>j. lo \<le> j \<longrightarrow> j \<le> hi \<longrightarrow> testable sb d inode k j \<and> good_dir (te_dir C fl k d j)"
  shows "\<exists>wl k'. test_empty fnh vf vrd d inode nhash_init sb k
    = Some (if \<forall>e \<in> set (merged {} (map (te_dir C fl k d) [lo..hi])). dots (de_nm e) then 0 else - ENOTEMPTY, wl, sb, k')"
proof -
  let ?T = "te_dir C fl k d" and ?f = "test_round (sio_test_empty fnh vf vrd d inode) d"
  let ?s = "\<lparr>te_whlist = nhash_init, te_whonly = True, te_bindex = 0, te_err = 0, te_called = 0, te_k = k\<rparr>"
  let ?ok = "\<lambda>j. real_names (?T j) \<subseteq> above_wh ?T lo j"
  let ?err = "if \<forall>e \<in> set (merged {} (map ?T [lo..hi])). dots (de_nm e) then 0 else - ENOTEMPTY"
  define I where "I = (\<lambda>(j :: int) (e :: int, s :: test_empty_arg, sb' :: aufs_sb). e = 0 \<and> sb' = sb \<and> tframe k (te_k s) \<and> te_whonly s
     \<and> wl_ok fnh (te_whlist s) (above_wh ?T lo j) \<and> (\<forall>i. lo \<le> i \<longrightarrow> i < j \<longrightarrow> ?ok i))"
  have all: "(\<forall>e \<in> set (merged {} (map ?T [lo..hi])). dots (de_nm e)) \<longleftrightarrow> (\<forall>j. lo \<le> j \<longrightarrow> j \<le> hi \<longrightarrow> ?ok j)"
    using merged_dots [of "{}" "{}" ?T lo hi] by simp
  have "\<exists>r. for_up ?f lo hi (0, ?s, sb) = Some r \<and> (\<exists>s. r = (?err, s, sb))"
  proof (rule for_up_rule [where I = I])
    show "I lo (0, ?s, sb)" using wl_ok_init [of fnh] by (simp add: I_def above_wh_def)
    show "lo \<le> hi + 1" by (rule range(3))
    show "\<exists>s. r = (?err, s, sb)" if "I (hi + 1) r" for r
      using that all by (cases r) (auto simp: I_def)
    show "\<exists>c u. ?f j r = Some (c, u) \<and> (if c then I (j + 1) u else \<exists>s. u = (?err, s, sb))"
      if j: "lo \<le> j" "j \<le> hi" "I j r" for j r
    proof -
      obtain s where r: "r = (0, s, sb)" and s: "tframe k (te_k s)" "te_whonly s"
        "wl_ok fnh (te_whlist s) (above_wh ?T lo j)" "\<forall>i. lo \<le> i \<longrightarrow> i < j \<longrightarrow> ?ok i"
        using j(3) by (cases r) (auto simp: I_def)
      have T: "te_dir C fl (te_k s) d j = ?T j"
        using s(1) by (simp add: te_dir_def tframe_def cong: option.case_cong if_cong)
      have tj: "testable sb d inode (te_k s) j" "good_dir (te_dir C fl (te_k s) d j)" "\<forall>i. k_ok (te_k s) i"
        using t j(1,2) testable_mono [OF _ s(1)] mem s(1) by (simp_all add: T tframe_def)
      obtain s' where s': "?f j r = Some (?ok j, if ?ok j then 0 else - ENOTEMPTY, s', sb)"
        "tframe (te_k s) (te_k s')" "te_whonly s'" "?ok j \<longrightarrow> wl_ok fnh (te_whlist s') (above_wh ?T lo j \<union> whited (?T j))"
        using test_round_ok [OF tj(1) env tj(2) s(3,2) tj(3)] unfolding T r by blast
      show ?thesis
      proof (cases "?ok j")
        case True
        have "?ok i" if "lo \<le> i" "i < j + 1" for i using s(4) that True by (cases "i = j") auto
        then have "I (j + 1) (0, s', sb)"
          using s'(2-4) True tframe_trans [OF s(1) s'(2)] above_wh_next [OF j(1)] by (simp add: I_def)
        with s'(1) True show ?thesis by (intro exI [of _ True] exI [of _ "(0, s', sb)"]) simp
      next
        case False
        then have "\<not> (\<forall>e \<in> set (merged {} (map ?T [lo..hi])). dots (de_nm e))" using all j(1,2) by blast
        then have "?err = - ENOTEMPTY" by (simp only: if_False)
        with s'(1) False show ?thesis
          by (intro exI [of _ False] exI [of _ "(- ENOTEMPTY, s', sb)"]) (simp del: if_split)
      qed
    qed
  qed
  then show ?thesis using dir range(1,2) by (auto simp: test_empty_def)
qed

text \<open>Two branches: the upper one has a whiteout of the only name of the lower one.\<close>

definition wh_of :: "nat \<Rightarrow> dirent list" where
  "wh_of f = (if f = 8 then [\<lparr>de_nm = [46], de_hino = 5, de_dtype = 4\<rparr>,
       \<lparr>de_nm = [46, 119, 104, 46, 98], de_hino = 6, de_dtype = 8\<rparr>]
     else if f = 9 then [\<lparr>de_nm = [98], de_hino = 7, de_dtype = 8\<rparr>] else [])"

definition wh_readdir :: test_rd where
  "wh_readdir hf cb s = tfeed hf cb (drop (unat (k_fpos (te_k s) hf)) (wh_of hf)) s"

definition vfs_dirs :: vfs where
  "vfs_dirs = vfs0\<lparr>vf_dentry_open := (\<lambda>d m _ k. (Inr d,
     k\<lparr>k_fcount := (k_fcount k)(d := k_fcount k d + 1), k_fpos := (k_fpos k)(d := 0)\<rparr>))\<rparr>"

theorem test_empty_decides_witness:
  "\<exists>wl k'. test_empty (\<lambda>_. 0) vfs_dirs wh_readdir (dir_at [Some 8, Some 9] 0 1) (inode_at [Some 8, Some 9] 0 1)
     nhash_init (sb0 2) kern0 = Some (0, wl, sb0 2, k')"
proof -
  let ?d = "dir_at [Some 8, Some 9] 0 1" and ?i = "inode_at [Some 8, Some 9] 0 1"
  have sl: "hslot ?d 0 = Some 8" "hslot ?d 1 = Some 9" by (simp_all add: hslot_def dir_at_di)
  have T: "te_dir wh_of (\<lambda>d. d) kern0 ?d 0 = wh_of 8" "te_dir wh_of (\<lambda>d. d) kern0 ?d 1 = wh_of 9"
    by (simp_all add: te_dir_def sl kern0_def)
  have w: "whited (wh_of 8) = {[98]}" "whited (wh_of 9) = {}"
    by (simp_all add: wh_of_def whited_Cons1 whited_Nil is_whname_def AUFS_WH_LEN_def AUFS_WH_PFX_def)
  have m: "\<forall>e \<in> set (merged {} (map (te_dir wh_of (\<lambda>d. d) kern0 ?d) [0..1])). dots (de_nm e)"
    by (simp add: upto.simps T w) (simp add: wh_of_def shown_def is_whname_def AUFS_WH_LEN_def AUFS_WH_PFX_def dots_def)
  have g: "good_dir (wh_of 8)" "good_dir (wh_of 9)"
    by (simp_all add: good_dir_def w) (simp_all add: wh_of_def is_whname_def AUFS_WH_LEN_def AUFS_WH_PFX_def)
  have "test_ro kern0 (sb0 2) 0 (Some ?i) \<noteq> None" "test_ro kern0 (sb0 2) 1 (Some ?i) \<noteq> None"
    "stobr (sb0 2) 0 \<noteq> None" "stobr (sb0 2) 1 \<noteq> None"
    "au_h_dptr_i kern0 ?d 0 = Some (Some 8)" "au_h_dptr_i kern0 ?d 1 = Some (Some 9)" by code_simp+
  then have tt: "testable (sb0 2) ?d ?i kern0 j" if "j = 0 \<or> j = 1" for j
    using that sl by (auto simp: testable_def kern0_def S_ISDIR_def)
  then have t: "\<forall>j. 0 \<le> j \<longrightarrow> j \<le> 1 \<longrightarrow> testable (sb0 2) ?d ?i kern0 j \<and> good_dir (te_dir wh_of (\<lambda>d. d) kern0 ?d j)"
  proof (intro allI impI)
    fix j :: int
    assume "0 \<le> j" "j \<le> 1"
    then consider "j = 0" | "j = 1" by linarith
    then show "testable (sb0 2) ?d ?i kern0 j \<and> good_dir (te_dir wh_of (\<lambda>d. d) kern0 ?d j)"
      using tt [of j] g T by cases auto
  qed
  have env: "test_rd_ok wh_readdir wh_of" "dirs_open vfs_dirs (\<lambda>d. d)"
    by (simp_all add: test_rd_ok_def wh_readdir_def dirs_open_def vfs_dirs_def)
  have "\<forall>i. k_ok kern0 i" "S_ISDIR (i_mode ?i)" "dbstart ?d = Some 0" "dbtaildir ?d = Some 1"
    by (simp_all add: kern0_def inode_at_def S_ISDIR_def) (code_simp+)
  with test_empty_decides [OF env _ _ _ _ _ t, of "\<lambda>_. 0"] m show ?thesis by simp
qed

end
