(* ===== verification/Aufs_Delete.thy ===== *)
theory Aufs_Delete
  imports Aufs_Dir
begin

text \<open>
  Removing a name (i_op_del.c, the end of whout.c): \<open>unlink\<close> and \<open>rmdir\<close>. A file of a read-only
  branch, or one that has others of its name below it, gets a whiteout. A directory
  is first renamed to a whiteouted name and then removed with the whiteouts in it, at once or in
  the work queue. What fails is taken back.
\<close>

section \<open>The state\<close>

text \<open>
  The dentry that is removed, the directory it is in and the path from there to the root; whether
  \<open>d_drop\<close> was called for the dentry, whether the renewal of a whiteout base was queued, and the
  static counter of the temporary names.
\<close>

record del_st =
  dl_node :: cpup_node
  dl_dir :: cpup_node
  dl_up :: "cpup_node list"
  dl_dropped :: bool
  dl_queued :: bool
  dl_cnt :: byte
  dl_sb :: aufs_sb
  dl_kern :: kern

abbreviation dl_dentry :: "del_st \<Rightarrow> aufs_dentry" where "dl_dentry st \<equiv> cn_dentry (dl_node st)"
abbreviation dl_inode :: "del_st \<Rightarrow> aufs_inode" where "dl_inode st \<equiv> cn_inode (dl_node st)"
abbreviation dl_parent :: "del_st \<Rightarrow> aufs_dentry" where "dl_parent st \<equiv> cn_dentry (dl_dir st)"

definition dl_put :: "aufs_dentry \<Rightarrow> aufs_sb \<Rightarrow> kern \<Rightarrow> del_st \<Rightarrow> del_st" where
  "dl_put dentry sb k st = st\<lparr>dl_node := (dl_node st)\<lparr>cn_dentry := dentry\<rparr>, dl_sb := sb, dl_kern := k\<rparr>"

definition dl_cpup_dirs :: "cpup_env \<Rightarrow> int \<Rightarrow> del_st \<Rightarrow> (int \<times> del_st) option" where
  "dl_cpup_dirs E bdst st =
     do { (err, path, sb, k) \<leftarrow> cpup_dirs E bdst (dl_node st # dl_dir st # dl_up st) (dl_sb st) (dl_kern st);
          case path of
            n # d # up \<Rightarrow> Some (err, st\<lparr>dl_node := n, dl_dir := d, dl_up := up, dl_sb := sb, dl_kern := k\<rparr>)
          | _ \<Rightarrow> None }"

section \<open>Is a whiteout needed\<close>

text \<open>The branch the removal happens on; a negative number is an error.\<close>

definition wr_dir_branch :: "int \<Rightarrow> del_st \<Rightarrow> int option" where
  "wr_dir_branch bcpup st =
     do { let inode = (if d_imode (dl_dentry st) = None then None else Some (dl_inode st));
          bstart \<leftarrow> dbstart (dl_dentry st);
          if bcpup < 0
          then do { ro \<leftarrow> test_ro (dl_kern st) (dl_sb st) bstart inode;
                    if ro \<noteq> 0 then find_rw_parent_br (dl_kern st) (dl_sb st) (dl_parent st) bstart
                    else Some bstart }
          else do { _ \<leftarrow> debug_on (bstart < bcpup);
                    ro \<leftarrow> test_ro (dl_kern st) (dl_sb st) bcpup inode;
                    _ \<leftarrow> debug_on (ro \<noteq> 0);
                    Some bcpup } }"

text \<open>
  The name is looked up below its first branch. The slots found are kept when there is something
  to hide.
\<close>

definition lkup_below :: "cpup_env \<Rightarrow> bool \<Rightarrow> int \<Rightarrow> del_st \<Rightarrow> (int \<times> del_st) option" where
  "lkup_below E isdir bstart st =
     do { let sb = dl_sb st; let dentry = dl_dentry st;
          old_bend \<leftarrow> dbend dentry;
          (bdiropq, dentry) \<leftarrow>
            (if isdir then do { bdiropq \<leftarrow> dbdiropq dentry; dentry \<leftarrow> set_dbdiropq sb dentry (- 1);
                                Some (bdiropq, dentry) }
             else Some (- 1, dentry));
          (need_wh, dentry, k) \<leftarrow>
            lkup_dentry (ce_vfs E) sb (dl_parent st) dentry (cn_name (dl_node st)) (bstart + 1) 0 (dl_kern st);
          dentry \<leftarrow> (if isdir then set_dbdiropq sb dentry bdiropq else Some dentry);
          if need_wh < 0 then Some (need_wh, dl_put dentry sb k st)
          else do { new_bend \<leftarrow> dbend dentry;
                    (dentry, k) \<leftarrow>
                      (if need_wh = 0 \<and> old_bend \<noteq> new_bend
                       then do { (dentry, k) \<leftarrow> set_h_dptr dentry new_bend None k;
                                 dentry \<leftarrow> set_dbend sb dentry old_bend;
                                 Some (dentry, k) }
                       else Some (dentry, k));
                    Some (need_wh, dl_put dentry sb k st) } }"

text \<open>The result is an error, 0, or positive when a whiteout is needed; then \<open>*bcpup\<close>.\<close>

definition wr_dir_need_wh :: "cpup_env \<Rightarrow> bool \<Rightarrow> int \<Rightarrow> del_st \<Rightarrow> (int \<times> int \<times> del_st) option" where
  "wr_dir_need_wh E isdir bcpup st =
     do { bstart \<leftarrow> dbstart (dl_dentry st);
          _ \<leftarrow> au_h_dptr (dl_kern st) (dl_dentry st);
          bcpup \<leftarrow> wr_dir_branch bcpup st;
          if bcpup < 0 then Some (bcpup, bcpup, st)
          else if bcpup \<noteq> bstart
          then do { (err, st) \<leftarrow> dl_cpup_dirs E bcpup st;
                    Some (if err \<noteq> 0 then err else 1, bcpup, st) }
          else do { (need_wh, st) \<leftarrow> lkup_below E isdir bstart st;
                    Some (need_wh, bcpup, st) } }"

text \<open>
  The pointer returned is an error, null when no whiteout is needed, or the whiteout; the times of
  the directory are stored before anything is changed in it.
\<close>

definition lock_hdir_create_wh ::
    "cpup_env \<Rightarrow> bool \<Rightarrow> int \<Rightarrow> del_st \<Rightarrow> ((int + nat option) \<times> int \<times> dtime option \<times> del_st) option" where
  "lock_hdir_create_wh E isdir bcpup st =
     do { (need_wh, bcpup, st) \<leftarrow> wr_dir_need_wh E isdir bcpup st;
          if need_wh < 0 then Some (Inl need_wh, bcpup, None, st)
          else do { hp \<leftarrow> au_h_dptr_i (dl_kern st) (dl_parent st) bcpup; hidden_parent \<leftarrow> hp;
                    dt \<leftarrow> dtime_store hidden_parent (dl_kern st);
                    if need_wh = 0 then Some (Inr None, bcpup, Some dt, st)
                    else do { (r, dentry, queued, sb, k) \<leftarrow>
                                simple_create_wh (ce_vfs E) (dl_dentry st) (cn_name (dl_node st)) bcpup hidden_parent
                                  (dl_sb st) (dl_kern st);
                              Some (map_sum id Some r, bcpup, Some dt,
                                (dl_put dentry sb k st)\<lparr>dl_queued := dl_queued st \<or> queued\<rparr>) } } }"

section \<open>Removing a renamed directory\<close>

definition rmdir_whtmp ::
    "vfs \<Rightarrow> nat \<Rightarrow> aufs_wh list list \<Rightarrow> int \<Rightarrow> aufs_inode \<Rightarrow> aufs_inode \<Rightarrow> kern
       \<Rightarrow> (int \<times> aufs_inode \<times> kern) option" where
  "rmdir_whtmp vf hidden_dentry whlist bindex dir inode k =
     do { hidden_dir \<leftarrow> k_dinode k (k_dparent k hidden_dentry);
          hi \<leftarrow> au_h_iptr_i k inode bindex;
          _ \<leftarrow> debug_on (k_dinode k hidden_dentry \<noteq> hi);
          hidden_inode \<leftarrow> hi;
          (err, k) \<leftarrow>
            (if au_test_perm (vf_permission vf) (vf_fsuid vf) k hidden_inode (MAY_EXEC OR MAY_WRITE) = 0
             then del_wh_children vf whlist hidden_dentry bindex k
             else au_wkq_wait (\<lambda>_. del_wh_children (vf\<lparr>vf_fsuid := 0\<rparr>) whlist hidden_dentry bindex k));
          let (err, k) = (if err = 0 then vf_rmdir vf hidden_dir hidden_dentry k else (err, k));
          if err \<noteq> 0 then Some (err, dir, k)
          else do { bstart \<leftarrow> ibstart dir;
                    if bstart \<noteq> bindex then Some (0, dir, k)
                    else do { dir \<leftarrow> au_cpup_attr_timesizes k dir;
                              Some (0, dir\<lparr>i_nlink := i_nlink dir - 1\<rparr>, k) } } }"

text \<open>The job of the work queue; its argument holds the addresses of the inodes.\<close>

record rmdir_whtmp_arg =
  ra_h_dentry :: nat
  ra_whlist :: "aufs_wh list list"
  ra_bindex :: int
  ra_dir :: nat
  ra_inode :: nat

definition do_rmdir_whtmp ::
    "vfs \<Rightarrow> rmdir_whtmp_arg \<Rightarrow> aufs_sb \<Rightarrow> (nat \<Rightarrow> aufs_inode) \<Rightarrow> kern
       \<Rightarrow> (int \<times> (nat \<Rightarrow> aufs_inode) \<times> kern) option" where
  "do_rmdir_whtmp vf a sb inodes k =
     do { ro \<leftarrow> test_ro k sb (ra_bindex a) None;
          (err, inodes, k) \<leftarrow>
            (if ro \<noteq> 0 then Some (ro, inodes, k)
             else do { _ \<leftarrow> k_dinode k (k_dparent k (ra_h_dentry a));
                       (err, dir, k) \<leftarrow> rmdir_whtmp vf (ra_h_dentry a) (ra_whlist a) (ra_bindex a)
                          (inodes (ra_dir a)) (inodes (ra_inode a)) k;
                       Some (err, inodes(ra_dir a := dir), k) });
          let k = nhash_fin (ra_whlist a) (dput (Some (ra_h_dentry a)) k);
          Some (err, inodes, kfree (iput (Some (ra_dir a)) (iput (Some (ra_inode a)) k))) }"

text \<open>The argument takes the whiteouts over; the last result is the list the caller is left with.\<close>

definition kick_rmdir_whtmp ::
    "nat \<Rightarrow> aufs_wh list list \<Rightarrow> int \<Rightarrow> nat \<Rightarrow> nat \<Rightarrow> kern \<Rightarrow> rmdir_whtmp_arg \<times> aufs_wh list list \<times> kern" where
  "kick_rmdir_whtmp hidden_dentry whlist bindex dir inode k =
     (let k = dget hidden_dentry k;
          (wl, whlist) = nhash_move nhash_init whlist;
          k = igrab inode (igrab dir k)
      in (\<lparr>ra_h_dentry = hidden_dentry, ra_whlist = wl, ra_bindex = bindex, ra_dir = dir, ra_inode = inode\<rparr>,
          whlist, k))"

text \<open>
  A positive result leaves the removal to the work queue. An error of the removal is ignored, the
  directory is whiteouted already.
\<close>

definition renwh_and_rmdir ::
    "cpup_env \<Rightarrow> int \<Rightarrow> aufs_wh list list \<Rightarrow> del_st \<Rightarrow> (int \<times> del_st) option" where
  "renwh_and_rmdir E bindex whlist st =
     do { (err, cnt, k) \<leftarrow> rename_whtmp (ce_vfs E) (dl_dentry st) bindex (dl_cnt st) (dl_kern st);
          let st = st\<lparr>dl_cnt := cnt, dl_kern := k\<rparr>;
          if err \<noteq> 0 then Some (err, st)
          else do { hd \<leftarrow> au_h_dptr_i k (dl_dentry st) bindex; hidden_dentry \<leftarrow> hd;
                    let dirwh = si_dirwh (dl_sb st);
                    if \<not> au_is_nfs k (k_dsb k hidden_dentry) \<and> (dirwh \<le> 1 \<or> is_longer_wh whlist bindex dirwh)
                    then Some (1, st)
                    else do { (_, dir, k) \<leftarrow>
                                rmdir_whtmp (ce_vfs E) hidden_dentry whlist bindex (cn_inode (dl_dir st)) (dl_inode st) k;
                              Some (0, st\<lparr>dl_dir := (dl_dir st)\<lparr>cn_inode := dir\<rparr>, dl_kern := k\<rparr>) } } }"

section \<open>The end of a removal\<close>

text \<open>\<open>lastref\<close> says that the caller holds the only reference to the dentry.\<close>

definition epilog :: "bool \<Rightarrow> int \<Rightarrow> del_st \<Rightarrow> del_st option" where
  "epilog lastref bindex st =
     do { let dir = cn_inode (dl_dir st);
          let inode = (dl_inode st)\<lparr>i_attr := (i_attr (dl_inode st))\<lparr>ia_ctime := ia_ctime (i_attr dir)\<rparr>\<rparr>;
          (dentry, k) \<leftarrow>
            (if lastref then do { bstart \<leftarrow> dbstart (dl_dentry st);
                               (dentry, k) \<leftarrow> set_h_dptr (dl_dentry st) bstart None (dl_kern st);
                               au_update_dbstart (dl_sb st) dentry k }
             else Some (dl_dentry st, dl_kern st));
          bstart \<leftarrow> ibstart dir;
          dir \<leftarrow> (if bstart = bindex then au_cpup_attr_timesizes k dir else Some dir);
          Some (st\<lparr>dl_node := (dl_node st)\<lparr>cn_dentry := dentry, cn_inode := inode\<rparr>,
                   dl_dir := (dl_dir st)\<lparr>cn_inode := dir\<lparr>i_version := i_version dir + 1\<rparr>\<rparr>,
                   dl_dropped := True, dl_kern := k\<rparr>) }"

definition do_revert :: "cpup_env \<Rightarrow> nat \<Rightarrow> int \<Rightarrow> dtime \<Rightarrow> del_st \<Rightarrow> (int \<times> del_st) option" where
  "do_revert E wh_dentry bwh dt st =
     do { hidden_dir \<leftarrow> k_dinode (dl_kern st) (k_dparent (dl_kern st) wh_dentry);
          (rerr, d, k) \<leftarrow> au_unlink_wh_dentry (ce_vfs E) (dl_sb st) hidden_dir wh_dentry (Some (dl_dentry st)) (dl_kern st);
          dentry \<leftarrow> d;
          if rerr \<noteq> 0 then Some (- EIO, dl_put dentry (dl_sb st) k st)
          else do { dentry \<leftarrow> set_dbwh (dl_sb st) dentry bwh;
                    Some (0, dl_put dentry (dl_sb st) (dtime_revert E dt k) st) } }"

text \<open>What both do when a step after the whiteout failed.\<close>

definition revert_wh :: "cpup_env \<Rightarrow> int \<Rightarrow> nat option \<Rightarrow> int \<Rightarrow> dtime \<Rightarrow> del_st \<Rightarrow> (int \<times> del_st) option" where
  "revert_wh E err wh_dentry bwh dt st =
     (case wh_dentry of
        None \<Rightarrow> Some (err, st)
      | Some wh \<Rightarrow> do { (rerr, st) \<leftarrow> do_revert E wh bwh dt st; Some (if rerr \<noteq> 0 then rerr else err, st) })"

text \<open>Above the file the whiteout alone is enough; it must be in the directory of that branch.\<close>

definition check_wh :: "int \<Rightarrow> nat option \<Rightarrow> del_st \<Rightarrow> unit option" where
  "check_wh bindex wh_dentry st =
     do { wh \<leftarrow> wh_dentry;
          let hidden_parent = k_dparent (dl_kern st) wh;
          hp \<leftarrow> au_h_dptr_i (dl_kern st) (dl_parent st) bindex;
          _ \<leftarrow> debug_on (hp \<noteq> Some hidden_parent);
          _ \<leftarrow> k_dinode (dl_kern st) hidden_parent;
          Some () }"

definition dl_dputs :: "nat option \<Rightarrow> nat \<Rightarrow> del_st \<Rightarrow> del_st" where
  "dl_dputs wh_dentry hidden_dentry st = st\<lparr>dl_kern := dput (Some hidden_dentry) (dput wh_dentry (dl_kern st))\<rparr>"

section \<open>The operations\<close>

definition unlink_rest ::
    "cpup_env \<Rightarrow> bool \<Rightarrow> int \<Rightarrow> int \<Rightarrow> int \<Rightarrow> nat option \<Rightarrow> dtime \<Rightarrow> del_st \<Rightarrow> (int \<times> del_st) option" where
  "unlink_rest E lastref bstart bwh bindex wh_dentry dt st =
     do { hd \<leftarrow> au_h_dptr (dl_kern st) (dl_dentry st); hidden_dentry \<leftarrow> hd;
          let k = dget hidden_dentry (dl_kern st);
          hidden_dir \<leftarrow> k_dinode k (k_dparent k hidden_dentry);
          (err, k) \<leftarrow> (if bindex = bstart then Some (vf_unlink (ce_vfs E) hidden_dir hidden_dentry k)
                      else do { _ \<leftarrow> check_wh bindex wh_dentry (st\<lparr>dl_kern := k\<rparr>); Some (0, k) });
          let st = st\<lparr>dl_kern := k\<rparr>;
          (err, st) \<leftarrow>
            (if err = 0
             then do { let inode = dl_inode st;
                       st \<leftarrow> epilog lastref bindex
                         (st\<lparr>dl_node := (dl_node st)\<lparr>cn_inode := inode\<lparr>i_nlink := i_nlink inode - 1\<rparr>\<rparr>\<rparr>);
                       Some (0, st) }
             else revert_wh E err wh_dentry bwh dt st);
          Some (err, dl_dputs wh_dentry hidden_dentry st) }"

definition aufs_unlink :: "cpup_env \<Rightarrow> bool \<Rightarrow> del_st \<Rightarrow> (int \<times> del_st) option" where
  "aufs_unlink E lastref st =
     (if d_imode (dl_dentry st) = None then Some (- ENOENT, st)
      else do { bstart \<leftarrow> dbstart (dl_dentry st);
                bwh \<leftarrow> dbwh (dl_dentry st);
                (r, bindex, dt, st) \<leftarrow> lock_hdir_create_wh E False (- 1) st;
                case r of
                  Inl err \<Rightarrow> Some (err, st)
                | Inr wh_dentry \<Rightarrow>
                    do { dt \<leftarrow> dt; unlink_rest E lastref bstart bwh bindex wh_dentry dt st } })"

text \<open>The third result of \<open>rmdir\<close> is the job that was queued, the fourth the list of whiteouts.\<close>

definition rmdir_rest ::
    "cpup_env \<Rightarrow> bool \<Rightarrow> int \<Rightarrow> int \<Rightarrow> int \<Rightarrow> nat option \<Rightarrow> dtime \<Rightarrow> aufs_wh list list \<Rightarrow> del_st
       \<Rightarrow> (int \<times> del_st \<times> rmdir_whtmp_arg option \<times> aufs_wh list list) option" where
  "rmdir_rest E lastref bstart bwh bindex wh_dentry dt whlist st =
     do { hd \<leftarrow> au_h_dptr (dl_kern st) (dl_dentry st); hidden_dentry \<leftarrow> hd;
          let k = dget hidden_dentry (dl_kern st);
          _ \<leftarrow> k_dinode k (k_dparent k hidden_dentry);
          let st = st\<lparr>dl_kern := k\<rparr>;
          (err, st) \<leftarrow> (if bindex = bstart then renwh_and_rmdir E bstart whlist st
                       else do { _ \<leftarrow> check_wh bindex wh_dentry st; Some (0, st) });
          if 0 \<le> err
          then do { dentry \<leftarrow> set_dbdiropq (dl_sb st) (dl_dentry st) (- 1);
                    let inode = (dl_inode st)\<lparr>i_nlink := 0\<rparr>;
                    st \<leftarrow> epilog lastref bindex (st\<lparr>dl_node := (dl_node st)\<lparr>cn_dentry := dentry, cn_inode := inode\<rparr>\<rparr>);
                    if err = 0 then Some (0, dl_dputs wh_dentry hidden_dentry st, None, whlist)
                    else let (a, whlist, k) = kick_rmdir_whtmp hidden_dentry whlist bstart
                               (cn_iaddr (dl_dir st)) (cn_iaddr (dl_node st)) (dl_kern st)
                         in Some (0, dl_dputs wh_dentry hidden_dentry (st\<lparr>dl_kern := k\<rparr>), Some a, whlist) }
          else do { (err, st) \<leftarrow> revert_wh E err wh_dentry bwh dt st;
                    Some (err, dl_dputs wh_dentry hidden_dentry st, None, whlist) } }"

definition aufs_rmdir ::
    "(byte list \<Rightarrow> 32 word) \<Rightarrow> test_rd \<Rightarrow> cpup_env \<Rightarrow> bool \<Rightarrow> del_st
       \<Rightarrow> (int \<times> del_st \<times> rmdir_whtmp_arg option) option" where
  "aufs_rmdir fnh vrd E lastref st =
     (if d_imode (dl_dentry st) = None then Some (- ENOENT, st, None)
      else let (r, k) = nhash_new (dl_kern st) in
        case r of
          Inl err \<Rightarrow> Some (err, st\<lparr>dl_kern := k\<rparr>, None)
        | Inr whlist \<Rightarrow>
            let (ok, k) = kmalloc k in
            if \<not> ok then Some (- ENOMEM, st\<lparr>dl_kern := nhash_del whlist k\<rparr>, None)
            else do { (err, whlist, sb, k) \<leftarrow>
                        test_empty fnh (ce_vfs E) vrd (dl_dentry st) (dl_inode st) whlist (dl_sb st) k;
                      let st = st\<lparr>dl_sb := sb, dl_kern := k\<rparr>;
                      (err, st, a, whlist) \<leftarrow>
                        (if err \<noteq> 0 then Some (err, st, None, whlist)
                         else do { bstart \<leftarrow> dbstart (dl_dentry st);
                                   bwh \<leftarrow> dbwh (dl_dentry st);
                                   (r, bindex, dt, st) \<leftarrow> lock_hdir_create_wh E True (- 1) st;
                                   case r of
                                     Inl err \<Rightarrow> Some (err, st, None, whlist)
                                   | Inr wh_dentry \<Rightarrow>
                                       do { dt \<leftarrow> dt;
                                            rmdir_rest E lastref bstart bwh bindex wh_dentry dt whlist st } });
                      let k = (if a = None then kfree (dl_kern st) else dl_kern st);
                      Some (err, st\<lparr>dl_kern := nhash_del whlist k\<rparr>, a) })"

end
