(* ===== verification/Aufs_Unlink.thy ===== *)
theory Aufs_Unlink
  imports Aufs_Delete
begin

text \<open>
  Unlinking a file (Aufs_Delete): it is all or nothing in the stacked view of the name, except on a
  branch \<open>rw+nolwh\<close>, whose whiteouts are never read; a directory below the file stops the kernel.
\<close>

section \<open>What the removal relies on\<close>

text \<open>
  The dentries outside of \<open>P\<close> keep their inodes and those their modes; \<open>undisturbed x\<close> also says that
  no reference is lost but one to the inode of \<open>x\<close>.
\<close>

definition same_files :: "(nat \<Rightarrow> bool) \<Rightarrow> kern \<Rightarrow> kern \<Rightarrow> bool" where
  "same_files P k k' \<longleftrightarrow> (\<forall>d. P d \<or> (k_dinode k' d = k_dinode k d
     \<and> (\<forall>i. k_dinode k d = Some i \<longrightarrow> k_imode k' i = k_imode k i)))"

definition undisturbed :: "nat \<Rightarrow> kern \<Rightarrow> kern \<Rightarrow> bool" where
  "undisturbed x k k' \<longleftrightarrow> same_files (\<lambda>d. d = x) k k' \<and> k_dparent k' = k_dparent k
     \<and> (\<forall>d. k_dcount k d \<le> k_dcount k' d)
     \<and> (\<forall>d i. d \<noteq> x \<longrightarrow> k_dinode k d = Some i \<longrightarrow> k_dinode k x \<noteq> Some i \<longrightarrow> k_icount k i \<le> k_icount k' i)"

text \<open>Creating, linking and removing change one name when they succeed and none when they fail.\<close>

definition file_ops :: "vfs \<Rightarrow> bool" where
  "file_ops vf \<longleftrightarrow>
     (\<forall>dir d m k e k'. vf_create vf dir d m k = (e, k') \<longrightarrow> undisturbed d k k'
        \<and> (if e = 0 then wh_code k' d = 1 else same_files (\<lambda>_. False) k k'))
     \<and> (\<forall>src dir d k e k'. vf_link vf src dir d k = (e, k') \<longrightarrow> undisturbed d k k'
        \<and> (if e = 0 then k_dinode k' d = k_dinode k src else same_files (\<lambda>_. False) k k'))
     \<and> (\<forall>dir d k e k'. vf_unlink vf dir d k = (e, k') \<longrightarrow> undisturbed d k k'
        \<and> (if e = 0 then k_dinode k' d = None else same_files (\<lambda>_. False) k k'))"

definition times_ops :: "cpup_env \<Rightarrow> bool" where
  "times_ops E \<longleftrightarrow> (\<forall>dt k. same_files (\<lambda>_. False) k (dtime_revert E dt k))"

lemma same_files_refl [simp]: "same_files P k k"
  by (simp add: same_files_def)

lemma same_files_trans: "same_files P k k' \<Longrightarrow> same_files P k' k'' \<Longrightarrow> same_files P k k''"
  unfolding same_files_def by metis

lemma same_files_weak: "same_files P k k' \<Longrightarrow> (\<And>d. P d \<Longrightarrow> Q d) \<Longrightarrow> same_files Q k k'"
  unfolding same_files_def by blast

lemma same_files_at: "same_files P k k' \<Longrightarrow> \<not> P d \<Longrightarrow> k_dinode k' d = k_dinode k d"
  "same_files P k k' \<Longrightarrow> \<not> P d \<Longrightarrow> k_dinode k d = Some i \<Longrightarrow> k_imode k' i = k_imode k i"
  unfolding same_files_def by blast+

lemma same_files_wh: "same_files P k k' \<Longrightarrow> \<not> P d \<Longrightarrow> wh_code k' d = wh_code k d"
  by (auto simp: wh_code_def same_files_at split: option.split)

lemma same_files_eq: "k_dinode k' = k_dinode k \<Longrightarrow> k_imode k' = k_imode k \<Longrightarrow> same_files P k k'"
  by (simp add: same_files_def)

lemma undisturbed_refl [simp]: "undisturbed x k k"
  by (simp add: undisturbed_def)

lemma undisturbed_eq:
  "k_dinode k' = k_dinode k \<Longrightarrow> k_imode k' = k_imode k \<Longrightarrow> k_dparent k' = k_dparent k \<Longrightarrow> k_icount k' = k_icount k
     \<Longrightarrow> (\<And>d. k_dcount k d \<le> k_dcount k' d) \<Longrightarrow> undisturbed x k k'"
  by (simp add: undisturbed_def same_files_eq)

lemma undisturbed_same: "undisturbed x k k' \<Longrightarrow> same_files (\<lambda>d. d = x) k k'"
  by (simp add: undisturbed_def)

text \<open>The names of all branches lead to different dentries.\<close>

definition apart :: "(nat \<Rightarrow> byte list \<Rightarrow> nat) \<Rightarrow> byte list \<Rightarrow> (int \<Rightarrow> nat option) \<Rightarrow> int \<Rightarrow> bool" where
  "apart child name hp btail \<longleftrightarrow> (\<forall>i j p q. 0 \<le> i \<longrightarrow> i \<le> btail \<longrightarrow> 0 \<le> j \<longrightarrow> j \<le> btail \<longrightarrow> hp i = Some p \<longrightarrow> hp j = Some q \<longrightarrow>
     child p name \<noteq> q \<and> child p (AUFS_WH_PFX @ name) \<noteq> q \<and> child p name \<noteq> child q (AUFS_WH_PFX @ name)
     \<and> child p name \<noteq> child (child q name) diropq_name
     \<and> child p (AUFS_WH_PFX @ name) \<noteq> child (child q name) diropq_name
     \<and> (i \<noteq> j \<longrightarrow> child p name \<noteq> child q name \<and> child p (AUFS_WH_PFX @ name) \<noteq> child q (AUFS_WH_PFX @ name)))"

lemma apartD:
  assumes "apart child name hp btail" "0 \<le> i" "i \<le> btail" "0 \<le> j" "j \<le> btail" "hp i = Some p" "hp j = Some q"
  shows "child p name \<noteq> q" "child p (AUFS_WH_PFX @ name) \<noteq> q" "child p name \<noteq> child q (AUFS_WH_PFX @ name)"
    and "child p name \<noteq> child (child q name) diropq_name" "child p (AUFS_WH_PFX @ name) \<noteq> child (child q name) diropq_name"
    and "i \<noteq> j \<Longrightarrow> child p name \<noteq> child q name"
    and "i \<noteq> j \<Longrightarrow> child p (AUFS_WH_PFX @ name) \<noteq> child q (AUFS_WH_PFX @ name)"
  using assms unfolding apart_def by blast+

section \<open>What is seen after a change\<close>

lemma view_cong:
  assumes "\<And>p. hp j = Some p \<Longrightarrow> k_dinode k' p = k_dinode k p \<and> (\<forall>i. k_dinode k p = Some i \<longrightarrow> k_imode k' i = k_imode k i)
      \<and> wh_code k' (child p (AUFS_WH_PFX @ name)) = wh_code k (child p (AUFS_WH_PFX @ name))
      \<and> k_dinode k' (child p name) = k_dinode k (child p name)
      \<and> (\<forall>i. k_dinode k (child p name) = Some i \<longrightarrow> k_imode k' i = k_imode k i)
      \<and> wh_code k' (child (child p name) diropq_name) = wh_code k (child (child p name) diropq_name)"
    and "br_perm (br_at sb' j) = br_perm (br_at sb j)"
  shows "view_at child sb' name k' hp j = view_at child sb name k hp j"
proof (cases "hp j")
  case None
  then show ?thesis by (simp add: view_at_def branch_view_def)
next
  case (Some p)
  note a = assms(1) [OF Some]
  show ?thesis
  proof (cases "k_dinode k p")
    case None
    then show ?thesis using a Some by (simp add: view_at_def branch_view_def)
  next
    case (Some dir)
    then show ?thesis using a \<open>hp j = Some p\<close> assms(2)
      by (cases "k_dinode k (child p name)") (auto simp: view_at_def branch_view_def)
  qed
qed

text \<open>What is passed over does not matter; a whiteout ends the search.\<close>

definition passed :: "view \<Rightarrow> bool" where
  "passed v \<longleftrightarrow> v = None \<or> v = Some (False, None)"

lemma layers_passed: "\<forall>x \<in> set xs. passed (snd x) \<Longrightarrow> layers ty (xs @ ys) = layers ty ys"
  by (induction xs) (auto simp: passed_def)

lemma layers_sub: "set (layers ty vs) \<subseteq> fst ` set vs"
  by (induction ty vs rule: layers.induct) auto

lemma layers_one:
  "layers 0 (xs @ (b, v) # ys) = [b] \<Longrightarrow> b \<notin> fst ` set xs \<Longrightarrow> b \<notin> fst ` set ys
     \<Longrightarrow> (\<forall>x \<in> set xs. passed (snd x)) \<and> (\<exists>mo. v = Some (False, Some mo))"
proof (induction xs)
  case Nil
  then show ?case using layers_sub [of 0 ys]
    by (cases "(0::32 word, (b, v) # ys)" rule: layers.cases) auto
next
  case (Cons x xs)
  then show ?case
    by (cases "(0::32 word, x # xs)" rule: layers.cases) (auto simp: passed_def split: if_splits)
qed

lemma upto_at: "0 \<le> c \<Longrightarrow> c \<le> e \<Longrightarrow> [0..e] = [0..c - 1] @ c # [c + 1..e]"
  using upto_split3 [of 0 c e] by simp

lemma layers_upto:
  assumes "layers 0 (map (\<lambda>j. (j, V j)) [0..e]) = [b]"
  shows "0 \<le> b \<and> b \<le> e \<and> (\<forall>j. 0 \<le> j \<longrightarrow> j < b \<longrightarrow> passed (V j)) \<and> (\<exists>mo. V b = Some (False, Some mo))"
proof -
  have b: "0 \<le> b" "b \<le> e" using layers_sub [of 0 "map (\<lambda>j. (j, V j)) [0..e]"] assms by auto
  have "layers 0 (map (\<lambda>j. (j, V j)) [0..b - 1] @ (b, V b) # map (\<lambda>j. (j, V j)) [b + 1..e]) = [b]"
    using assms upto_at [OF b] by simp
  from layers_one [OF this] have "(\<forall>j \<in> {0..b - 1}. passed (V j)) \<and> (\<exists>mo. V b = Some (False, Some mo))"
    by (auto simp: image_image)
  with b show ?thesis by auto
qed

lemma layers_skip:
  assumes "\<forall>j. 0 \<le> j \<longrightarrow> j < c \<longrightarrow> passed (V j)" and "0 \<le> c" "c \<le> e"
  shows "layers 0 (map (\<lambda>j. (j, V j)) [0..e]) = layers 0 ((c, V c) # map (\<lambda>j. (j, V j)) [c + 1..e])"
  using assms layers_passed [of "map (\<lambda>j. (j, V j)) [0..c - 1]" 0 "(c, V c) # map (\<lambda>j. (j, V j)) [c + 1..e]"]
  by (simp add: upto_at)

section \<open>The state before a removal\<close>

text \<open>
  The dentry \<open>d\<close> of a file with its one slot at \<open>b\<close>, in a directory whose slots \<open>hp\<close> are directories.
\<close>

definition del_base :: "(nat \<Rightarrow> byte list \<Rightarrow> nat) \<Rightarrow> (int \<Rightarrow> nat option) \<Rightarrow> int \<Rightarrow> int \<Rightarrow> aufs_dentry \<Rightarrow> byte list
    \<Rightarrow> aufs_dentry \<Rightarrow> aufs_sb \<Rightarrow> kern \<Rightarrow> bool" where
  "del_base child hp b btail d name parent sb k \<longleftrightarrow> sb_ok sb
     \<and> name \<noteq> [] \<and> take AUFS_WH_LEN name \<noteq> AUFS_WH_PFX \<and> length name \<le> PATH_MAX - AUFS_WH_LEN
     \<and> dbtaildir parent = Some btail \<and> 0 \<le> b \<and> b \<le> btail
     \<and> (\<forall>j. 0 \<le> j \<longrightarrow> j \<le> btail \<longrightarrow> lkup_at child sb parent d name k (hp j) j
          \<and> (\<forall>p. hp j = Some p \<longrightarrow> (\<exists>i. k_dinode k p = Some i \<and> S_ISDIR (k_imode k i))
               \<and> k_dparent k (child p name) = p \<and> k_dparent k (child p (AUFS_WH_PFX @ name)) = p))
     \<and> lk_dentry d (file_at child name hp) [b] (- 1) (- 1) = d \<and> hp b \<noteq> None
     \<and> k_dinode k (file_at child name hp b) \<noteq> None \<and> 0 < k_dcount k (file_at child name hp b)
     \<and> (\<forall>x. 0 \<le> k_dcount k x)
     \<and> not_dir d \<and> dir_fits d k (file_at child name hp b)
     \<and> (\<forall>j w. 0 \<le> j \<longrightarrow> j \<le> btail \<longrightarrow> br_wh (br_at sb j) = Some w \<longrightarrow> wh_code k w = 1)"

text \<open>No directory of the same name is below it.\<close>

definition del_ok :: "(nat \<Rightarrow> byte list \<Rightarrow> nat) \<Rightarrow> (int \<Rightarrow> nat option) \<Rightarrow> int \<Rightarrow> int \<Rightarrow> aufs_dentry \<Rightarrow> byte list
    \<Rightarrow> aufs_dentry \<Rightarrow> aufs_sb \<Rightarrow> kern \<Rightarrow> bool" where
  "del_ok child hp b btail d name parent sb k \<longleftrightarrow> del_base child hp b btail d name parent sb k
     \<and> (\<forall>j. b < j \<longrightarrow> j \<le> btail \<longrightarrow> hp j \<noteq> None \<longrightarrow> dir_fits d k (file_at child name hp j))"

lemma au_h_dptr_i_pos:
  assumes "au_h_dptr_i k d j = Some h" and "\<And>p. h = Some p \<Longrightarrow> 0 < k_dcount k' p"
  shows "au_h_dptr_i k' d j = Some h"
  using assms by (cases h; cases "dtodi d"; cases "aget (di_hdentry (the (dtodi d))) j")
    (auto simp: au_h_dptr_i_def split: if_splits)

lemma au_h_dptr_i_cnt: "au_h_dptr_i k d j = Some (Some p) \<Longrightarrow> 0 < k_dcount k p"
  by (auto simp: au_h_dptr_i_def run_simps split: if_splits)

lemma scan_views_nodir:
  assumes "\<forall>x \<in> set vs. \<forall>m opq wh. snd x = Some (wh, Some (m, opq)) \<longrightarrow> m AND S_IFMT \<noteq> S_IFDIR"
  shows "scan_views neg ty vs = (s, l, w, opq) \<Longrightarrow> opq = - 1"
  using assms by (induction neg ty vs arbitrary: s l w opq rule: scan_views.induct) (auto split: if_splits prod.splits)

lemma dgets_frame_more: "k_dparent (dgets ds k) = k_dparent k" "k_icount (dgets ds k) = k_icount k"
  by (induction ds arbitrary: k) (simp_all add: dget_def)

lemma del_baseD:
  assumes "del_base child hp b btail d name parent sb k"
  shows "sb_ok sb" "name \<noteq> []" "length name \<le> PATH_MAX - AUFS_WH_LEN" "0 \<le> b" "b \<le> btail"
    and "lk_dentry d (file_at child name hp) [b] (- 1) (- 1) = d" "hp b \<noteq> None" "0 < k_dcount k (file_at child name hp b)"
    and "\<And>x. 0 \<le> k_dcount k x"
    and "\<And>j. 0 \<le> j \<Longrightarrow> j \<le> btail \<Longrightarrow> lkup_at child sb parent d name k (hp j) j"
    and "\<And>j p. 0 \<le> j \<Longrightarrow> j \<le> btail \<Longrightarrow> hp j = Some p \<Longrightarrow> (\<exists>i. k_dinode k p = Some i \<and> S_ISDIR (k_imode k i))
        \<and> k_dparent k (child p name) = p \<and> k_dparent k (child p (AUFS_WH_PFX @ name)) = p"
    and "\<And>j w. 0 \<le> j \<Longrightarrow> j \<le> btail \<Longrightarrow> br_wh (br_at sb j) = Some w \<Longrightarrow> wh_code k w = 1"
    and "not_dir d" "dir_fits d k (file_at child name hp b)" "k_dinode k (file_at child name hp b) \<noteq> None"
  using assms unfolding del_base_def by blast+

lemma del_base_slot:
  assumes "del_base child hp b btail d name parent sb k"
  shows "dbstart d = Some b" "au_h_dptr k d = Some (Some (file_at child name hp b))" "dbwh d = Some (- 1)"
proof -
  let ?fl = "file_at child name hp"
  note o = del_baseD [OF assms]
  have t: "dtodi d = Some (lk_dinfo (the_di d) ?fl [b] (- 1) (- 1))"
    using lk_dtodi [of "[b]" "- 1" d ?fl "- 1"] o(6) by simp
  have l: "b < int (length (di_hdentry (the_di d)))" using o(10) [OF o(4,5)] by (simp add: lkup_at_def)
  show "dbstart d = Some b" "dbwh d = Some (- 1)" using t by (simp_all add: dbstart_def dbwh_def) (simp add: lk_dinfo_def)
  then show "au_h_dptr k d = Some (Some (?fl b))"
    using lk_slot [of "[b]" "- 1" b d k ?fl "- 1"] o l by (simp add: au_h_dptr_def)
qed

lemma del_okD: "del_ok child hp b btail d name parent sb k \<Longrightarrow> del_base child hp b btail d name parent sb k"
  "del_ok child hp b btail d name parent sb k \<Longrightarrow> b < j \<Longrightarrow> j \<le> btail \<Longrightarrow> hp j \<noteq> None
     \<Longrightarrow> dir_fits d k (file_at child name hp j)"
  unfolding del_ok_def by blast+

text \<open>The state of the lookup below the first branch: the slot of \<open>b\<close> holds a reference of its own.\<close>

definition below_kern :: "(nat \<Rightarrow> byte list \<Rightarrow> nat) \<Rightarrow> (int \<Rightarrow> nat option) \<Rightarrow> int \<Rightarrow> byte list \<Rightarrow> kern \<Rightarrow> kern" where
  "below_kern child hp b name k = dput (Some (file_at child name hp b)) (snd (kmalloc k))"

lemma below_kern_fields:
  "k_dinode (below_kern child hp b name k) = k_dinode k" "k_imode (below_kern child hp b name k) = k_imode k"
  "k_dparent (below_kern child hp b name k) = k_dparent k" "k_icount (below_kern child hp b name k) = k_icount k"
  "k_dcount (below_kern child hp b name k) x = k_dcount k x - (if x = file_at child name hp b then 1 else 0)"
  "dgets [file_at child name hp b] (below_kern child hp b name k) = snd (kmalloc k)"
  "view_at child sb name (below_kern child hp b name k) hp j = view_at child sb name k hp j"
proof -
  show e: "k_dinode (below_kern child hp b name k) = k_dinode k" "k_imode (below_kern child hp b name k) = k_imode k"
    "k_dparent (below_kern child hp b name k) = k_dparent k" "k_icount (below_kern child hp b name k) = k_icount k"
    by (simp_all add: below_kern_def kmalloc_def)
  show "k_dcount (below_kern child hp b name k) x = k_dcount k x - (if x = file_at child name hp b then 1 else 0)"
    by (auto simp: below_kern_def dput_dcount kmalloc_def)
  show "dgets [file_at child name hp b] (below_kern child hp b name k) = snd (kmalloc k)"
    by (simp add: below_kern_def ref_defs)
  show "view_at child sb name (below_kern child hp b name k) hp j = view_at child sb name k hp j"
    by (rule view_cong) (simp_all add: e wh_code_def cong: option.case_cong)
qed

lemma below_at:
  assumes ok: "del_base child hp b btail d name parent sb k" and ap: "apart child name hp btail"
    and j: "b + 1 \<le> j" "j \<le> btail"
  shows "lkup_at child sb parent d name (below_kern child hp b name k) (hp j) j"
proof -
  note o = del_baseD [OF ok]
  let ?k0 = "below_kern child hp b name k" and ?fl = "file_at child name hp"
  obtain pb where pb: "hp b = Some pb" using o(7) by blast
  have fb: "?fl b = child pb name" by (simp add: file_at_def pb)
  have l: "lkup_at child sb parent d name k (hp j) j" using o(10) o(4) j by simp
  have nq: "?fl b \<noteq> q" "child q name \<noteq> ?fl b" if "hp j = Some q" for q
  proof -
    show "?fl b \<noteq> q" unfolding fb by (rule apartD(1) [OF ap o(4,5) _ _ pb that]) (use j o(4) in auto)
    show "child q name \<noteq> ?fl b" unfolding fb by (rule apartD(6) [OF ap _ _ o(4,5) that pb]) (use j o(4) in auto)
  qed
  have whc: "wh_code ?k0 x = wh_code k x" for x by (simp add: wh_code_def below_kern_fields cong: option.case_cong)
  have "au_h_dptr_i ?k0 parent j = Some (hp j)"
  proof (rule au_h_dptr_i_pos)
    show lp: "au_h_dptr_i k parent j = Some (hp j)" using l by (simp add: lkup_at_def)
    fix q assume q: "hp j = Some q"
    with au_h_dptr_i_cnt [OF lp [unfolded q]] nq(1) [OF q] show "0 < k_dcount ?k0 q" by (simp add: below_kern_fields)
  qed
  then show ?thesis using l nq(2) by (simp add: lkup_at_def below_kern_fields whc)
qed

text \<open>What the lookup below the first branch finds.\<close>

lemma lkup_below_finds:
  assumes env: "lookup_env vf child" and ok: "del_ok child hp b btail d name parent sb k"
    and ap: "apart child name hp btail"
  defines "fl \<equiv> file_at child name hp"
  defines "vs \<equiv> map (\<lambda>j. (j, view_at child sb name k hp j)) [b + 1..btail]"
  shows "\<exists>n s w k'. lkup_dentry vf sb parent d name (b + 1) 0 k = Some (n, lk_dentry d fl (b # s) w (- 1), k')
     \<and> sorted_wrt (<) (b # s) \<and> set s \<subseteq> {b + 1..btail} \<and> (n < 0 \<longrightarrow> s = [] \<and> w = - 1)
     \<and> (n = 0 \<longrightarrow> layers 0 vs = [] \<and> length s \<le> 1)
     \<and> k_dinode k' = k_dinode k \<and> k_imode k' = k_imode k \<and> k_dparent k' = k_dparent k \<and> k_icount k' = k_icount k
     \<and> (\<forall>x. k_dcount k' x = k_dcount k x + int (count_list (map fl s) x))"
proof -
  note base = del_okD(1) [OF ok]
  note o = del_baseD [OF base, folded fl_def]
  have b: "0 \<le> b" "b \<le> btail" and cb: "0 < k_dcount k (fl b)" and d: "lk_dentry d fl [b] (- 1) (- 1) = d"
    and nd: "not_dir d" and nm: "take AUFS_WH_LEN name \<noteq> AUFS_WH_PFX" "dbtaildir parent = Some btail"
    using o base by (auto simp: del_base_def)
  have df0: "dir_fits d k (fl j)" if "b + 1 \<le> j" "j \<le> btail" "hp j \<noteq> None" for j
    using del_okD(2) [OF ok _ that(2,3)] that(1) by (simp add: fl_def)
  obtain r k1 where al: "au_alloc_whname name k = Some (r, k1)" and
    rk: "r = Inl (- ENOMEM) \<and> k1 = snd (kmalloc k) \<or> r = Inr (AUFS_WH_PFX @ name) \<and> k1 = snd (kmalloc k)"
    using o(2,3) by (cases "k_ok k (k_alloc k)") (auto simp: au_alloc_whname_def kmalloc_def)
  have k1: "k1 = snd (kmalloc k)" using rk by blast
  have k1f: "k_dinode k1 = k_dinode k" "k_imode k1 = k_imode k" "k_dparent k1 = k_dparent k"
    "k_icount k1 = k_icount k" "k_dcount k1 = k_dcount k"
    by (simp_all add: k1 kmalloc_def)
  show ?thesis
  proof (cases "r = Inl (- ENOMEM)")
    case True
    then show ?thesis using o(4) nm al d k1f
      by (intro exI [of _ "- ENOMEM"] exI [of _ "[]"] exI [of _ "- 1"] exI [of _ k1])
        (simp add: lkup_dentry_def)
  next
    case False
    with rk have r: "r = Inr (AUFS_WH_PFX @ name)" by simp
    define k0 where "k0 = below_kern child hp b name k"
    note k0 = below_kern_fields [where child = child and hp = hp and b = b and name = name and k = k, folded k0_def fl_def]
    have k0f: "k_dinode k0 = k_dinode k" "k_imode k0 = k_imode k" by (simp_all add: k0)
    note k0c = k0(5) and vw = k0(7)
    have dg: "dgets [fl b] k0 = k1" using k0(6) k1 by simp
    have at: "\<forall>j. b + 1 \<le> j \<longrightarrow> j \<le> btail \<longrightarrow> lkup_at child sb parent d name k0 (hp j) j"
      using below_at [OF base ap] by (simp add: k0_def)
    have df: "dir_fits d k0 (fl j)" if "b + 1 \<le> j" "j \<le> btail" "hp j \<noteq> None" for j
      using df0 [of j] that by (auto simp: dir_fits_def k0f)
    have nodir: "\<forall>x \<in> set vs. \<forall>m opq wh. snd x = Some (wh, Some (m, opq)) \<longrightarrow> m AND S_IFMT \<noteq> S_IFDIR"
    proof (intro ballI allI impI)
      fix x m opq wh assume "x \<in> set vs" "snd x = Some (wh, Some (m, opq))"
      then obtain j where j: "b + 1 \<le> j" "j \<le> btail" "view_at child sb name k hp j = Some (wh, Some (m, opq))"
        by (auto simp: vs_def)
      then obtain p where "hp j = Some p" by (auto simp: view_at_def branch_view_def split: option.splits)
      with j df0 [of j] nd show "m AND S_IFMT \<noteq> S_IFDIR"
        by (auto simp: view_at_def branch_view_def dir_fits_def fl_def file_at_def isdir_ifmt split: option.splits if_splits)
    qed
    obtain s l w opq where sc: "scan_views True 0 vs = (s, l, w, opq)" by (rule prod_cases4)
    have opq: "opq = - 1" by (rule scan_views_nodir [OF nodir sc])
    have sc0: "scan_views True 0 (map (\<lambda>j. (j, view_at child sb name k0 hp j)) [b + 1..btail]) = (s, l, w, - 1)"
      using sc opq by (simp add: vs_def vw)
    from lkup_loop_scan [OF fl_def [THEN meta_eq_to_obj_eq] env _ df at order_refl _ _ sc0, of "[b]" 0]
    obtain neg' ty' where loop: "for_up (lkup_body vf sb parent name (AUFS_WH_PFX @ name)) (b + 1) btail
        \<lparr>ll_dentry = d, ll_kern = k1, ll_npos = 0, ll_neg = True, ll_type = 0, ll_err = None\<rparr>
      = Some (lk_state d fl k0 (b # s) w (- 1) (int (length l)) neg' ty')"
      using o b dg by (auto simp: lk_state_def d)
    have sh: "s = l \<or> (\<exists>x wh. s = x # l \<and> (x, Some (wh, None)) \<in> set vs)"
      using scan_views_slots [OF sc] by blast
    have so: "set s \<subseteq> {b + 1..btail}" "sorted_wrt (<) s"
      using scan_views_sorted [OF sc] by (auto simp: vs_def comp_def)
    then have so': "sorted_wrt (<) (b # s)" by auto
    have cnt: "k_dcount (dgets (map fl (b # s)) k0) x = k_dcount k x + int (count_list (map fl s) x)" for x
      by (simp add: dgets_dcount dget_dcount k0c)
    have kf: "k_dparent (dgets ds k0) = k_dparent k" "k_icount (dgets ds k0) = k_icount k" for ds
      by (simp_all add: dgets_frame_more k0)
    have upd: "au_update_dbstart sb (lk_dentry d fl (b # s) w (- 1)) (dgets (map fl (b # s)) k0)
        = Some (lk_dentry d fl (b # s) w (- 1), dgets (map fl (b # s)) k0)" if "l \<noteq> []"
    proof -
      have inr: "\<forall>i \<in> set (b # s). i < int (length (di_hdentry (the_di d)))" "b \<le> sbend sb"
      proof -
        have "lkup_at child sb parent d name k (hp i) i" if "i \<in> set (b # s)" for i
          using that so b o by auto
        then show "\<forall>i \<in> set (b # s). i < int (length (di_hdentry (the_di d)))" "b \<le> sbend sb"
          by (auto simp: lkup_at_def sbend_def)
      qed
      have "for_up (dbstart_body sb) (hd (b # s)) (last (b # s)) (lk_from d fl b (b # s) w (- 1), dgets (map fl (b # s)) k0)
          = Some (lk_dentry d fl (b # s) w (- 1), dgets (map fl (b # s)) k0)"
        using inr so' b cb cnt [of "fl b"] o k0f by (intro lk_from_stop) (simp_all del: dgets.simps)
      then show ?thesis
        using lk_dtodi [OF so', of "- 1" d fl w] lk_from_hd [of "b # s" d fl w "- 1"]
        by (simp add: au_update_dbstart_def dbstart_def dbend_def del: dgets.simps)
          (simp add: lk_dinfo_def)
    qed
    show ?thesis
    proof (cases "l = []")
      case True
      then have "lkup_dentry vf sb parent d name (b + 1) 0 k
          = Some (0, lk_dentry d fl (b # s) w (- 1), au_free_whname (dgets (map fl (b # s)) k0))"
        using o(4) nm al r loop by (simp add: lkup_dentry_def lk_state_def)
      then show ?thesis using True so so' sh scan_views_layers [OF sc] cnt kf k0f
        by (auto simp: au_free_whname_def kfree_def simp del: dgets.simps)
    next
      case False
      then have "lkup_dentry vf sb parent d name (b + 1) 0 k
          = Some (int (length l), lk_dentry d fl (b # s) w (- 1), au_free_whname (dgets (map fl (b # s)) k0))"
        using o(4) nm al r loop upd by (simp add: lkup_dentry_def lk_state_def)
      then show ?thesis using False so so' cnt kf k0f
        by (auto simp: au_free_whname_def kfree_def simp del: dgets.simps)
    qed
  qed
qed

text \<open>A negative slot that was left below is taken back.\<close>

lemma drop_last_slot:
  assumes "b < x" "0 \<le> b" "x \<le> sbend sb" "x < int (length (di_hdentry (the_di d)))"
  shows "\<exists>d'. set_h_dptr (lk_dentry d fl [b, x] w (- 1)) x None k = Some (d', dput (Some (fl x)) k)
     \<and> set_dbend sb d' b = Some (lk_dentry d fl [b] w (- 1))"
proof -
  let ?D = "lk_dinfo (the_di d) fl [b, x] w (- 1)"
  define di where "di = ?D\<lparr>di_hdentry := (di_hdentry ?D)[nat x := None]\<rparr>"
  have "dtodi (lk_dentry d fl [b, x] w (- 1)) = Some ?D" by (rule lk_dtodi) (use assms in auto)
  then have 1: "set_h_dptr (lk_dentry d fl [b, x] w (- 1)) x None k = Some (d\<lparr>d_fsdata := Some di\<rparr>, dput (Some (fl x)) k)"
    using assms by (simp add: set_h_dptr_def di_def) (simp add: lk_dinfo_def lk_dentry_def)
  have t: "dtodi (d\<lparr>d_fsdata := Some di\<rparr>) = Some di"
    using assms by (simp add: dtodi_def di_def lk_dinfo_def)
  have "(map (\<lambda>i. if int i = b \<or> int i = x then Some (fl (int i)) else None) [0..<n])[nat x := None]
      = map (\<lambda>i. if int i = b then Some (fl (int i)) else None) [0..<n]" if "x < int n" for n
    using assms(1,2) that by (intro nth_equalityI) (auto simp: nth_list_update)
  from this [OF assms(4)] have "di\<lparr>di_bend := b\<rparr> = lk_dinfo (the_di d) fl [b] w (- 1)"
    by (simp add: di_def lk_dinfo_def)
  then have "set_dbend sb (d\<lparr>d_fsdata := Some di\<rparr>) b = Some (lk_dentry d fl [b] w (- 1))"
    using t assms by (simp add: set_dbend_def dbstart_def upd_di_def lk_dentry_def) (simp add: di_def lk_dinfo_def)
  with 1 show ?thesis by blast
qed

lemma lkup_below_spec:
  assumes env: "lookup_env (ce_vfs E) child" and ap: "apart child name hp btail"
    and ok: "del_ok child hp b btail (dl_dentry st) name (dl_parent st) (dl_sb st) (dl_kern st)"
    and nm: "cn_name (dl_node st) = name"
  defines "fl \<equiv> file_at child name hp"
  defines "vs \<equiv> map (\<lambda>j. (j, view_at child (dl_sb st) name (dl_kern st) hp j)) [b + 1..btail]"
  shows "\<exists>n s w k'. lkup_below E False b st = Some (n, dl_put (lk_dentry (dl_dentry st) fl (b # s) w (- 1)) (dl_sb st) k' st)
     \<and> sorted_wrt (<) (b # s) \<and> set s \<subseteq> {b + 1..btail} \<and> (n = 0 \<longrightarrow> s = [] \<and> layers 0 vs = [])
     \<and> k_dinode k' = k_dinode (dl_kern st) \<and> k_imode k' = k_imode (dl_kern st)
     \<and> k_dparent k' = k_dparent (dl_kern st) \<and> k_icount k' = k_icount (dl_kern st)
     \<and> (\<forall>x. k_dcount k' x = k_dcount (dl_kern st) x + int (count_list (map fl s) x))"
proof -
  let ?d = "dl_dentry st" and ?sb = "dl_sb st" and ?k = "dl_kern st"
  note o = del_baseD [OF del_okD(1) [OF ok], folded fl_def]
  note b = o(4,5) and d = o(6) and at = o(10)
  have be: "dbend ?d = Some b"
    using lk_dtodi [of "[b]" "- 1" ?d fl "- 1"] d by (simp add: dbend_def) (simp add: lk_dinfo_def)
  from lkup_below_finds [OF env ok ap, folded fl_def vs_def] obtain n s w k' where
    l: "lkup_dentry (ce_vfs E) ?sb (dl_parent st) ?d name (b + 1) 0 ?k = Some (n, lk_dentry ?d fl (b # s) w (- 1), k')"
    and so: "sorted_wrt (<) (b # s)" "set s \<subseteq> {b + 1..btail}"
    and n: "n < 0 \<longrightarrow> s = [] \<and> w = - 1" "n = 0 \<longrightarrow> layers 0 vs = [] \<and> length s \<le> 1"
    and k': "k_dinode k' = k_dinode ?k" "k_imode k' = k_imode ?k" "k_dparent k' = k_dparent ?k" "k_icount k' = k_icount ?k"
      "\<forall>x. k_dcount k' x = k_dcount ?k x + int (count_list (map fl s) x)"
    by blast
  have e: "dbend (lk_dentry ?d fl (b # s) w (- 1)) = Some (last (b # s))"
    using lk_dtodi [OF so(1), of "- 1" ?d fl w] by (simp add: dbend_def) (simp add: lk_dinfo_def)
  consider "n < 0" | "n > 0 \<or> (n = 0 \<and> s = [])" | x where "n = 0" "s = [x]"
    using n(2) by (cases s; cases "n = 0") (auto simp: neq_iff)
  then show ?thesis
  proof cases
    case 1
    then show ?thesis using l n(1) k' so be nm
      by (intro exI [of _ n] exI [of _ "[]"] exI [of _ "- 1"] exI [of _ k']) (simp add: lkup_below_def)
  next
    case 2
    then show ?thesis using l n(2) k' so be e nm
      by (intro exI [of _ n] exI [of _ s] exI [of _ w] exI [of _ k']) (auto simp: lkup_below_def)
  next
    case 3
    then have x: "b < x" "x \<le> sbend ?sb" "x < int (length (di_hdentry (the_di ?d)))"
      using so at [of x] b by (auto simp: lkup_at_def sbend_def)
    from drop_last_slot [OF x(1) b(1) x(2,3)] obtain d' where
      "set_h_dptr (lk_dentry ?d fl [b, x] w (- 1)) x None k' = Some (d', dput (Some (fl x)) k')"
      "set_dbend ?sb d' b = Some (lk_dentry ?d fl [b] w (- 1))" by blast
    then have "lkup_below E False b st = Some (0, dl_put (lk_dentry ?d fl [b] w (- 1)) ?sb (dput (Some (fl x)) k') st)"
      using 3 l be e nm x by (simp add: lkup_below_def)
    then show ?thesis using 3 n(2) k'
      by (intro exI [of _ 0] exI [of _ "[]"] exI [of _ w] exI [of _ "dput (Some (fl x)) k'"]) (auto simp: dput_dcount)
  qed
qed

section \<open>Making the whiteout\<close>

text \<open>Queueing the renewal of a whiteout base changes no permission.\<close>

definition same_perms :: "aufs_sb \<Rightarrow> aufs_sb \<Rightarrow> bool" where
  "same_perms sb sb' \<longleftrightarrow> si_branch sb' = si_branch sb \<and> si_bend sb' = si_bend sb
     \<and> (\<forall>j. br_perm (br_at sb' j) = br_perm (br_at sb j))"

lemma same_perms_refl [simp]: "same_perms sb sb" by (simp add: same_perms_def)

lemma same_perms_trans: "same_perms sb sb' \<Longrightarrow> same_perms sb' sb'' \<Longrightarrow> same_perms sb sb''"
  by (simp add: same_perms_def)

lemma kick_perms:
  assumes "kick_reinit_br_wh br sb k = (q, sb', k')"
  shows "same_perms sb sb'" "k_dinode k' = k_dinode k" "k_imode k' = k_imode k" "k_dparent k' = k_dparent k"
    "k_dcount k' = k_dcount k" "k_icount k' = k_icount k"
  using assms
  by (auto simp: kick_reinit_br_wh_def Let_def br_get_def kmalloc_def same_perms_def upd_br_def br_at_def
      split: if_split_asm)

lemma undisturbed_trans:
  assumes "undisturbed x k k'" "undisturbed x k' k''" "k_dinode k' x = k_dinode k x"
  shows "undisturbed x k k''"
  using assms same_files_trans [of "\<lambda>d. d = x" k k' k''] same_files_at(1) [of "\<lambda>d. d = x" k k']
  unfolding undisturbed_def by (metis order_trans)

lemma file_opsD:
  assumes "file_ops vf"
  shows "vf_create vf dir d m k = (e, k') \<Longrightarrow> undisturbed d k k' \<and> (if e = 0 then wh_code k' d = 1 else same_files (\<lambda>_. False) k k')"
    and "vf_link vf src dir d k = (e, k') \<Longrightarrow> undisturbed d k k' \<and> (if e = 0 then k_dinode k' d = k_dinode k src else same_files (\<lambda>_. False) k k')"
    and "vf_unlink vf dir d k = (e, k') \<Longrightarrow> undisturbed d k k' \<and> (if e = 0 then k_dinode k' d = None else same_files (\<lambda>_. False) k k')"
  using assms unfolding file_ops_def by blast+

lemma link_or_create_wh_spec:
  assumes ops: "file_ops vf" and sb: "sb_ok sb" "0 \<le> c" "c \<le> si_bend sb"
    and par: "k_dinode k (k_dparent k wh) \<noteq> None" and neg: "k_dinode k wh = None"
    and base: "\<And>w. br_wh (br_at sb c) = Some w \<Longrightarrow> wh_code k w = 1"
  shows "\<exists>err q sb' k'. link_or_create_wh vf wh c sb k = Some (err, q, sb', k') \<and> same_perms sb sb' \<and> undisturbed wh k k'
     \<and> (if err = 0 then wh_code k' wh = 1 else same_files (\<lambda>_. False) k k')"
proof -
  obtain dir where dir: "k_dinode k (k_dparent k wh) = Some dir" using par by blast
  have br: "stobr sb c = Some (the (si_branch sb ! nat c))" "s_br sb (the (si_branch sb ! nat c)) = br_at sb c"
    using sb by (simp_all add: br_at_def)
  show ?thesis
  proof (cases "br_wh (br_at sb c)")
    case None
    obtain e k' where "vf_create vf dir wh WH_MASK k = (e, k')" by (cases "vf_create vf dir wh WH_MASK k")
    then show ?thesis using file_opsD(1) [OF ops] None dir br by (auto simp: link_or_create_wh_def)
  next
    case (Some w)
    obtain e k1 where l: "vf_link vf w dir wh k = (e, k1)" by (cases "vf_link vf w dir wh k")
    note l1 = file_opsD(2) [OF ops l]
    obtain i where i: "k_dinode k w = Some i" "S_ISREG (k_imode k i)"
      using base [OF Some] by (auto simp: wh_code_def split: option.splits if_splits)
    have "w \<noteq> wh" using i neg by auto
    then have wi: "wh_code k1 wh = 1" if "e = 0"
      using that l1 i same_files_at(2) [OF undisturbed_same, of wh k k1 w i] by (auto simp: wh_code_def)
    show ?thesis
    proof (cases "e = - EMLINK")
      case False
      then show ?thesis using l l1 wi Some dir br by (auto simp: link_or_create_wh_def)
    next
      case True
      obtain q sb' k2 where kr: "kick_reinit_br_wh (the (si_branch sb ! nat c)) sb k1 = (q, sb', k2)" by (rule prod_cases3)
      obtain e' k3 where cr: "vf_create vf dir wh WH_MASK k2 = (e', k3)" by (cases "vf_create vf dir wh WH_MASK k2")
      have s1: "same_files (\<lambda>_. False) k k1" "undisturbed wh k k1" using l1 True by simp_all
      have s2: "same_files (\<lambda>_. False) k1 k2" "undisturbed wh k1 k2"
        using kick_perms [OF kr] by (auto intro!: same_files_eq undisturbed_eq)
      have s3: "undisturbed wh k2 k3" "if e' = 0 then wh_code k3 wh = 1 else same_files (\<lambda>_. False) k2 k3"
        using file_opsD(1) [OF ops cr] by simp_all
      have "undisturbed wh k k2" by (rule undisturbed_trans [OF s1(2) s2(2)]) (use s1 in \<open>simp add: same_files_def\<close>)
      then have "undisturbed wh k k3" by (rule undisturbed_trans [OF _ s3(1)]) (use s1 s2 in \<open>simp add: same_files_def\<close>)
      moreover have "e' = 0 \<or> same_files (\<lambda>_. False) k k3"
        using s3(2) same_files_trans [OF s1(1) same_files_trans [OF s2(1)]] by (auto split: if_splits)
      ultimately show ?thesis
        using l True Some dir br kr cr kick_perms(1) [OF kr] s3(2) by (auto simp: link_or_create_wh_def)
    qed
  qed
qed

text \<open>The whiteout is there and recorded, or nothing has changed.\<close>

lemma simple_create_wh_spec:
  assumes env: "lookup_env vf child" and ops: "file_ops vf" and sb: "sb_ok sb" "0 \<le> c" "c \<le> si_bend sb"
    and nm: "name \<noteq> []" "length name \<le> PATH_MAX - AUFS_WH_LEN"
    and wh: "wh = child p (AUFS_WH_PFX @ name)" "k_dparent k wh = p" "k_dinode k p \<noteq> None" "k_dinode k wh = None"
    and base: "\<And>w. br_wh (br_at sb c) = Some w \<Longrightarrow> wh_code k w = 1"
    and s: "sorted_wrt (<) s"
  shows "\<exists>r q d' sb' k'. simple_create_wh vf (lk_dentry d fl s w (- 1)) name c p sb k = Some (r, d', q, sb', k')
     \<and> same_perms sb sb' \<and> undisturbed wh k k'
     \<and> (r = Inr wh \<and> d' = lk_dentry d fl s c (- 1) \<and> wh_code k' wh = 1
        \<or> (\<exists>e. r = Inl e \<and> d' = lk_dentry d fl s w (- 1) \<and> e \<noteq> 0 \<and> same_files (\<lambda>_. False) k k'))"
proof (cases "k_ok k (k_alloc k)")
  case False
  then show ?thesis using nm wh(3)
    by (auto simp: simple_create_wh_def lkup_wh_def au_alloc_whname_def kmalloc_def intro!: undisturbed_eq same_files_eq)
next
  case True
  define k1 where "k1 = kfree (dget wh (snd (kmalloc k)))"
  have k1: "k_dinode k1 = k_dinode k" "k_imode k1 = k_imode k" "k_dparent k1 = k_dparent k" "k_icount k1 = k_icount k"
    "k_dcount k1 x = k_dcount k x + (if x = wh then 1 else 0)" for x
    by (auto simp: k1_def kfree_def kmalloc_def dget_def)
  have lw: "lkup_wh vf p name k = Some (Inr wh, k1)"
    using True nm wh env
    by (auto simp: lkup_wh_def au_alloc_whname_def k1_def lkup_one_def lookup_env_def au_free_whname_def kmalloc_def)
  have wc: "wh_code k1 x = wh_code k x" for x by (simp add: wh_code_def k1 cong: option.case_cong)
  have u1: "undisturbed wh k k1" "same_files P k k1" for P using k1 by (auto intro!: undisturbed_eq same_files_eq)
  from link_or_create_wh_spec [OF ops sb, of k1 wh] obtain err q sb' k' where
    l: "link_or_create_wh vf wh c sb k1 = Some (err, q, sb', k')" "same_perms sb sb'" "undisturbed wh k1 k'"
      "if err = 0 then wh_code k' wh = 1 else same_files (\<lambda>_. False) k1 k'"
    using base wh by (auto simp: k1 wc)
  show ?thesis
  proof (cases "err = 0")
    case e: True
    have "set_dbwh sb' (lk_dentry d fl s w (- 1)) c = Some (lk_dentry d fl s c (- 1))"
      by (rule lk_set_wh [OF s]) (use sb l(2) in \<open>simp add: same_perms_def sbend_def\<close>)
    then show ?thesis
      using e l lw wh k1 undisturbed_trans [OF u1(1) l(3)] by (simp add: simple_create_wh_def)
  next
    case False
    have "undisturbed wh k (dput (Some wh) k')"
    proof -
      have u: "undisturbed wh k k'" by (rule undisturbed_trans [OF u1(1) l(3)]) (simp add: k1)
      have "k_dcount k1 wh \<le> k_dcount k' wh" using l(3) by (simp add: undisturbed_def)
      with u show ?thesis
        by (auto simp: undisturbed_def dput_dcount k1 same_files_def)
    qed
    moreover have "same_files (\<lambda>_. False) k (dput (Some wh) k')"
      using l(4) False k1 by (simp add: same_files_def)
    ultimately show ?thesis using False l lw wh k1 by (simp add: simple_create_wh_def)
  qed
qed

section \<open>The end of a removal returns\<close>

lemma count_map_filter: "count_list (map f xs) y = length (filter (\<lambda>i. f i = y) xs)"
  by (induction xs) auto

lemma count_map_card: "distinct xs \<Longrightarrow> count_list (map f xs) y = card {i \<in> set xs. f i = y}"
  using distinct_card [of "filter (\<lambda>i. f i = y) xs"] by (simp add: count_map_filter)

lemma lk_count:
  assumes "sorted_wrt (<) s"
  shows "count_list (map (\<lambda>i. if int i \<in> set s then Some (fl (int i)) else None) [0..<n]) (Some x) \<le> count_list (map fl s) x"
proof -
  have ds: "distinct s" using assms strict_sorted_iff by blast
  have "card {i \<in> set [0..<n]. (if int i \<in> set s then Some (fl (int i)) else None) = Some x} \<le> card {i \<in> set s. fl i = x}"
    by (rule card_inj_on_le [where f = int]) (auto split: if_splits)
  then show ?thesis by (simp only: count_map_card [OF distinct_upt] count_map_card [OF ds])
qed

lemma lk_di_ok:
  assumes "sorted_wrt (<) (b # s)" "0 \<le> b" "\<forall>i \<in> set (b # s). i \<le> sbend sb \<and> i < int (length (di_hdentry (the_di d)))"
    and "\<And>x. int (count_list (map fl (b # s)) x) \<le> k_dcount k x"
  shows "di_ok sb (lk_dentry d fl (b # s) w (- 1)) k"
proof -
  have "last (b # s) \<in> set (b # s)" by (rule last_in_set) simp
  with assms(3) have l: "last (b # s) \<le> sbend sb" "last (b # s) < int (length (di_hdentry (the_di d)))" by blast+
  have b: "b \<le> last (b # s)" using sorted_hd_last(1) [OF assms(1) last_in_set] by simp
  have "int (count_list (di_hdentry (lk_dinfo (the_di d) fl (b # s) w (- 1))) (Some x)) \<le> k_dcount k x" for x
    using lk_count [OF assms(1), of fl "length (di_hdentry (the_di d))" x] assms(4) [of x]
    by (simp add: lk_dinfo_def)
  then show ?thesis using l b assms(2)
    by (simp add: di_ok_def) (simp add: lk_dinfo_def)
qed

lemma update_dbstart_returns:
  assumes ok: "di_ok sb d k" and lo: "0 \<le> di_bstart (the_di d)"
  shows "\<exists>d' k'. au_update_dbstart sb d k = Some (d', k')"
proof (cases "\<exists>n. di_bstart (the_di d) + int n \<le> di_bend (the_di d)
    \<and> (\<exists>p. hslot d (di_bstart (the_di d) + int n) = Some p \<and> k_dinode k p \<noteq> None)")
  case True
  define P where "P n \<longleftrightarrow> di_bstart (the_di d) + int n \<le> di_bend (the_di d)
    \<and> (\<exists>p. hslot d (di_bstart (the_di d) + int n) = Some p \<and> k_dinode k p \<noteq> None)" for n
  have "\<exists>n. P n" using True by (simp add: P_def)
  then obtain n where n: "P n" "\<And>m. m < n \<Longrightarrow> \<not> P m" using exists_least_iff [of P] by blast
  then obtain p where p: "hslot d (di_bstart (the_di d) + int n) = Some p" "k_dinode k p \<noteq> None"
    and le: "di_bstart (the_di d) + int n \<le> di_bend (the_di d)" by (auto simp: P_def)
  have "k_dinode k q = None" if "di_bstart (the_di d) \<le> i" "i < di_bstart (the_di d) + int n" "hslot d i = Some q" for i q
  proof (rule ccontr)
    assume "k_dinode k q \<noteq> None"
    then have "P (nat (i - di_bstart (the_di d)))" using that le by (auto simp: P_def)
    moreover have "nat (i - di_bstart (the_di d)) < n" using that by simp
    ultimately show False using n(2) by blast
  qed
  then show ?thesis using au_update_dbstart_first [OF ok lo _ le p] by auto
next
  case False
  have "k_dinode k q = None" if "di_bstart (the_di d) \<le> i" "i \<le> di_bend (the_di d)" "hslot d i = Some q" for i q
  proof (rule ccontr)
    assume q: "k_dinode k q \<noteq> None"
    have "di_bstart (the_di d) + int (nat (i - di_bstart (the_di d))) = i" using that by simp
    with that q False show False by metis
  qed
  then show ?thesis using au_update_dbstart_all_negative [OF ok lo] by blast
qed

lemma dbstart_body_frame:
  "dbstart_body sb j (d, k) = Some (c, d', k') \<Longrightarrow> k_dinode k' = k_dinode k \<and> k_imode k' = k_imode k \<and> k_icount k' = k_icount k"
  by (auto simp: dbstart_body_def run_simps set_h_dptr_def split: option.splits if_split_asm)

interpretation upd_frame: frame_rel "\<lambda>s t. k_dinode (snd t) = k_dinode (snd s) \<and> k_imode (snd t) = k_imode (snd s)
    \<and> k_icount (snd t) = k_icount (snd s)" for s :: "aufs_dentry \<times> kern"
  by unfold_locales auto

lemma update_dbstart_frame:
  assumes "au_update_dbstart sb d k = Some (d', k')"
  shows "k_dinode k' = k_dinode k \<and> k_imode k' = k_imode k \<and> k_icount k' = k_icount k"
proof -
  from assms obtain lo hi where l: "for_up (dbstart_body sb) lo hi (d, k) = Some (d', k')"
    by (auto simp: au_update_dbstart_def run_simps)
  have step: "k_dinode (snd u) = k_dinode (snd s) \<and> k_imode (snd u) = k_imode (snd s) \<and> k_icount (snd u) = k_icount (snd s)"
    if "dbstart_body sb j s = Some (c, u)" for j s c u
    using dbstart_body_frame [of sb j "fst s" "snd s" c "fst u" "snd u"] that by simp
  from upd_frame.for_up_frame [OF l step] show ?thesis by simp
qed

lemma au_h_iptr_iff:
  "au_h_iptr k i = Some (Some h) \<longleftrightarrow> (\<exists>b e hi. ibstart i = Some b \<and> ibend i = Some e \<and> 0 \<le> b \<and> b \<le> e
     \<and> hinode_at i b = Some hi \<and> hi_inode hi = Some h \<and> 0 < k_icount k h)"
  by (cases "ibstart i"; cases "ibend i"; cases "hinode_at i (the (ibstart i))")
    (auto simp: au_h_iptr_def au_h_iptr_i_def not_le not_less)

text \<open>The slots of the dentry \<open>d2\<close> start at \<open>b\<close>; \<open>bindex\<close> is the branch of the removal.\<close>

lemma epilog_spec:
  assumes ok: "di_ok (dl_sb st) (dl_dentry st) (dl_kern st)" and b: "0 \<le> di_bstart (the_di (dl_dentry st))"
    and dir: "ibstart (cn_inode (dl_dir st)) = Some bi"
      "bi = bindex \<Longrightarrow> \<exists>h. au_h_iptr (dl_kern st) (cn_inode (dl_dir st)) = Some (Some h)"
  shows "\<exists>st'. epilog lr bindex st = Some st' \<and> dl_sb st' = dl_sb st \<and> k_dinode (dl_kern st') = k_dinode (dl_kern st)
     \<and> k_imode (dl_kern st') = k_imode (dl_kern st)"
proof -
  let ?d = "dl_dentry st" and ?k = "dl_kern st" and ?dir = "cn_inode (dl_dir st)"
  define r where "r = (if lr then do { bstart \<leftarrow> dbstart ?d; (dentry, k) \<leftarrow> set_h_dptr ?d bstart None ?k;
       au_update_dbstart (dl_sb st) dentry k } else Some (?d, ?k))"
  have "\<exists>d' k'. r = Some (d', k') \<and> k_dinode k' = k_dinode ?k \<and> k_imode k' = k_imode ?k \<and> k_icount k' = k_icount ?k"
  proof (cases lr)
    case True
    from set_h_dptr_ok [OF ok b order_refl di_ok_ranges(2) [OF ok]] obtain d1 k1 where
      1: "set_h_dptr ?d (di_bstart (the_di ?d)) None ?k = Some (d1, k1)" "di_ok (dl_sb st) d1 k1"
        "di_bstart (the_di d1) = di_bstart (the_di ?d)" "k1 = dput (hslot ?d (di_bstart (the_di ?d))) ?k" by auto
    from update_dbstart_returns [OF 1(2)] 1(3) b obtain d2 k2 where
      2: "au_update_dbstart (dl_sb st) d1 k1 = Some (d2, k2)" by auto
    have "dbstart ?d = Some (di_bstart (the_di ?d))" using ok by (simp add: dbstart_def)
    then show ?thesis using True 1 2 update_dbstart_frame [OF 2] by (simp add: r_def)
  qed (simp add: r_def)
  then obtain d' k' where r: "r = Some (d', k')" and k': "k_dinode k' = k_dinode ?k" "k_imode k' = k_imode ?k"
    "k_icount k' = k_icount ?k" by blast
  have "\<exists>dir'. (if bi = bindex then au_cpup_attr_timesizes k' ?dir else Some ?dir) = Some dir'"
  proof (cases "bi = bindex")
    case True
    with dir obtain h where "au_h_iptr ?k ?dir = Some (Some h)" by blast
    then have "au_h_iptr k' ?dir = Some (Some h)"
      using k'(3) by (simp add: au_h_iptr_iff)
    with True show ?thesis by (simp add: au_cpup_attr_timesizes_def Let_def)
  qed simp
  with r k' dir(1) show ?thesis by (auto simp: epilog_def r_def [symmetric] Let_def)
qed

section \<open>Unlinking\<close>

lemma dl_put_simps [simp]:
  "dl_dentry (dl_put d sb k st) = d" "dl_sb (dl_put d sb k st) = sb" "dl_kern (dl_put d sb k st) = k"
  "dl_dir (dl_put d sb k st) = dl_dir st" "dl_inode (dl_put d sb k st) = dl_inode st"
  "cn_name (dl_node (dl_put d sb k st)) = cn_name (dl_node st)"
  by (simp_all add: dl_put_def)

lemma dl_put_same: "dl_put (dl_dentry st) (dl_sb st) (dl_kern st) st = st"
  by (simp add: dl_put_def)

lemma dl_dputs_simps [simp]: "dl_sb (dl_dputs wh h st) = dl_sb st"
  "k_dinode (dl_kern (dl_dputs wh h st)) = k_dinode (dl_kern st)" "k_imode (dl_kern (dl_dputs wh h st)) = k_imode (dl_kern st)"
  by (simp_all add: dl_dputs_def)

lemma do_revert_spec:
  assumes ops: "file_ops (ce_vfs E)" "times_ops E"
    and d: "dl_dentry st = lk_dentry d fl s w (- 1)" "sorted_wrt (<) s" "w \<noteq> - 1" "- 1 \<le> sbend (dl_sb st)"
    and wh: "wh_code (dl_kern st) x = 1" "k_dinode (dl_kern st) (k_dparent (dl_kern st) x) \<noteq> None"
  shows "\<exists>rerr st'. do_revert E x (- 1) dt st = Some (rerr, st') \<and> dl_sb st' = dl_sb st
     \<and> (rerr \<noteq> 0 \<longrightarrow> rerr = - EIO)
     \<and> (rerr = 0 \<longrightarrow> same_files (\<lambda>y. y = x) (dl_kern st) (dl_kern st') \<and> k_dinode (dl_kern st') x = None)"
proof -
  let ?k = "dl_kern st" and ?vf = "ce_vfs E"
  obtain dir where dir: "k_dinode ?k (k_dparent ?k x) = Some dir" using wh by blast
  obtain i where i: "k_dinode ?k x = Some i" "S_ISREG (k_imode ?k i)"
    using wh(1) by (auto simp: wh_code_def split: option.splits if_splits)
  obtain e k1 where u: "vf_unlink ?vf dir x ?k = (e, k1)" by (cases "vf_unlink ?vf dir x ?k")
  note u1 = file_opsD(3) [OF ops(1) u]
  have w: "dbwh (lk_dentry d fl s w (- 1)) = Some w"
    using lk_dtodi [OF d(2), of "- 1" d fl w] by (simp add: dbwh_def)
  note sw = lk_set_wh [OF d(2,4)]
  show ?thesis
  proof (cases "e = 0")
    case True
    have "same_files (\<lambda>y. y = x) ?k (dtime_revert E dt k1)"
      using u1 ops(2) by (intro same_files_trans [OF undisturbed_same, of x ?k k1])
        (auto simp: times_ops_def intro: same_files_weak)
    moreover have "k_dinode (dtime_revert E dt k1) x = None"
      using u1 True ops(2) by (simp add: times_ops_def same_files_def)
    ultimately show ?thesis using True dir i u w d sw
      by (simp add: do_revert_def au_unlink_wh_dentry_def)
  next
    case False
    then show ?thesis using dir i u w d by (simp add: do_revert_def au_unlink_wh_dentry_def)
  qed
qed

lemma undisturbed_iptr:
  assumes "undisturbed x k k'" "au_h_iptr k i = Some (Some h)" "k_dinode k x \<noteq> Some h" "q \<noteq> x" "k_dinode k q = Some h"
  shows "au_h_iptr k' i = Some (Some h)"
proof -
  have "k_icount k h \<le> k_icount k' h" using assms(1,3,4,5) unfolding undisturbed_def by blast
  with assms(2) show ?thesis by (auto simp: au_h_iptr_iff)
qed

text \<open>The rest of \<open>unlink\<close> behind the whiteout.\<close>

lemma unlink_rest_spec:
  assumes ops: "file_ops (ce_vfs E)" "times_ops E"
    and d: "dl_dentry st = lk_dentry d fl (b # s) w (- 1)" "sorted_wrt (<) (b # s)" "0 \<le> b"
      "\<forall>i \<in> set (b # s). i \<le> sbend (dl_sb st) \<and> i < int (length (di_hdentry (the_di d)))"
      "\<And>x. int (count_list (map fl (b # s)) x) \<le> k_dcount (dl_kern st) x"
    and par: "k_dinode (dl_kern st) (k_dparent (dl_kern st) (fl b)) \<noteq> None"
    and wh: "case wh of None \<Rightarrow> c = b | Some x \<Rightarrow> w = c \<and> c \<noteq> - 1 \<and> wh_code (dl_kern st) x = 1 \<and> x \<noteq> fl b
        \<and> k_dinode (dl_kern st) (k_dparent (dl_kern st) x) \<noteq> None
        \<and> (c \<noteq> b \<longrightarrow> au_h_dptr_i (dl_kern st) (dl_parent st) c = Some (Some (k_dparent (dl_kern st) x)))"
    and dir: "ibstart (cn_inode (dl_dir st)) = Some bi"
      "bi = c \<Longrightarrow> \<exists>h q. au_h_iptr (dl_kern st) (cn_inode (dl_dir st)) = Some (Some h)
         \<and> k_dinode (dl_kern st) (fl b) \<noteq> Some h \<and> q \<noteq> fl b \<and> k_dinode (dl_kern st) q = Some h"
  shows "\<exists>err st'. unlink_rest E lr b (- 1) c wh dt st = Some (err, st') \<and> dl_sb st' = dl_sb st
     \<and> (err = 0 \<longrightarrow> same_files (\<lambda>x. x = fl b) (dl_kern st) (dl_kern st') \<and> (c = b \<longrightarrow> k_dinode (dl_kern st') (fl b) = None)
          \<and> (c \<noteq> b \<longrightarrow> same_files (\<lambda>_. False) (dl_kern st) (dl_kern st')))
     \<and> (err \<noteq> 0 \<and> err \<noteq> - EIO \<longrightarrow> same_files (\<lambda>x. wh = Some x) (dl_kern st) (dl_kern st')
          \<and> (\<forall>x. wh = Some x \<longrightarrow> k_dinode (dl_kern st') x = None))"
proof -
  let ?k = "dl_kern st" and ?d = "dl_dentry st" and ?h = "fl b" and ?vf = "ce_vfs E"
  have pos: "0 < k_dcount ?k ?h" using d(5) [of ?h] by simp
  have slot: "au_h_dptr ?k ?d = Some (Some ?h)"
    using lk_slot [OF d(2), of "- 1" b d ?k fl w] lk_dtodi [OF d(2), of "- 1" d fl w] d(1,3,4) pos
    by (simp add: au_h_dptr_def dbstart_def) (simp add: lk_dinfo_def)
  define k1 where "k1 = dget ?h ?k"
  have k1: "k_dinode k1 = k_dinode ?k" "k_imode k1 = k_imode ?k" "k_dparent k1 = k_dparent ?k" "k_icount k1 = k_icount ?k"
    by (simp_all add: k1_def dget_def)
  have c1: "k_dcount ?k x \<le> k_dcount k1 x" for x by (simp add: k1_def dget_dcount)
  obtain hdir where hdir: "k_dinode ?k (k_dparent ?k ?h) = Some hdir" using par by blast
  define r where "r = (if c = b then Some (vf_unlink ?vf hdir ?h k1)
     else do { _ \<leftarrow> check_wh c wh (st\<lparr>dl_kern := k1\<rparr>); Some (0, k1) })"
  have "\<exists>e k2. r = Some (e, k2) \<and> undisturbed ?h k1 k2 \<and> (e = 0 \<and> c = b \<longrightarrow> k_dinode k2 ?h = None)
      \<and> (e \<noteq> 0 \<or> c \<noteq> b \<longrightarrow> same_files (\<lambda>_. False) k1 k2)"
  proof (cases "c = b")
    case True
    obtain e k2 where "vf_unlink ?vf hdir ?h k1 = (e, k2)" by (cases "vf_unlink ?vf hdir ?h k1")
    with file_opsD(3) [OF ops(1) this] True show ?thesis by (auto simp: r_def)
  next
    case False
    with wh obtain x where x: "wh = Some x" "au_h_dptr_i ?k (dl_parent st) c = Some (Some (k_dparent ?k x))"
      "k_dinode ?k (k_dparent ?k x) \<noteq> None" by (auto split: option.splits)
    have "au_h_dptr_i k1 (dl_parent st) c = Some (Some (k_dparent ?k x))"
      by (rule au_h_dptr_i_pos [OF x(2)]) (use au_h_dptr_i_cnt [OF x(2)] c1 in \<open>auto intro: less_le_trans\<close>)
    then have "check_wh c wh (st\<lparr>dl_kern := k1\<rparr>) = Some ()" using x k1 by (auto simp: check_wh_def)
    with False show ?thesis by (simp add: r_def)
  qed
  then obtain e k2 where r: "r = Some (e, k2)" and k2: "undisturbed ?h k1 k2" "e = 0 \<and> c = b \<longrightarrow> k_dinode k2 ?h = None"
    "e \<noteq> 0 \<or> c \<noteq> b \<longrightarrow> same_files (\<lambda>_. False) k1 k2" by blast
  have sf: "same_files (\<lambda>x. x = ?h) ?k k2" "e \<noteq> 0 \<or> c \<noteq> b \<longrightarrow> same_files (\<lambda>_. False) ?k k2"
    using undisturbed_same [OF k2(1)] k2(3) k1 by (simp_all add: same_files_def)
  have c2: "k_dcount ?k x \<le> k_dcount k2 x" for x using k2(1) c1 [of x] by (auto simp: undisturbed_def intro: order_trans)
  define st2 where "st2 = st\<lparr>dl_kern := k2\<rparr>"
  have rest: "unlink_rest E lr b (- 1) c wh dt st = do { (err, st) \<leftarrow>
            (if e = 0
             then do { st \<leftarrow> epilog lr c
                         (st2\<lparr>dl_node := (dl_node st)\<lparr>cn_inode := (dl_inode st)\<lparr>i_nlink := i_nlink (dl_inode st) - 1\<rparr>\<rparr>\<rparr>);
                       Some (0, st) }
             else revert_wh E e wh (- 1) dt st2);
          Some (err, dl_dputs wh ?h st) }"
    using slot hdir r [unfolded r_def] k1
    by (cases "c = b") (auto simp: unlink_rest_def k1_def [symmetric] st2_def Let_def bind_Some_iff)
  show ?thesis
  proof (cases "e = 0")
    case True
    let ?st = "st2\<lparr>dl_node := (dl_node st)\<lparr>cn_inode := (dl_inode st)\<lparr>i_nlink := i_nlink (dl_inode st) - 1\<rparr>\<rparr>\<rparr>"
    have "di_ok (dl_sb ?st) (dl_dentry ?st) (dl_kern ?st)"
      using lk_di_ok [OF d(2,3,4) order_trans [OF d(5) c2], where w = w] d(1) by (simp add: st2_def)
    moreover have "0 \<le> di_bstart (the_di (dl_dentry ?st))" using d(1,3) by (simp add: lk_dinfo_def)
    moreover have "\<exists>h. au_h_iptr (dl_kern ?st) (cn_inode (dl_dir ?st)) = Some (Some h)" if bc: "bi = c"
    proof -
      obtain h q where h: "au_h_iptr ?k (cn_inode (dl_dir st)) = Some (Some h)" "k_dinode ?k ?h \<noteq> Some h" "q \<noteq> ?h"
        "k_dinode ?k q = Some h" using dir(2) [OF bc] by blast
      then have "au_h_iptr k1 (cn_inode (dl_dir st)) = Some (Some h)" using k1 by (simp add: au_h_iptr_iff)
      from undisturbed_iptr [OF k2(1) this] h k1 show ?thesis by (auto simp: st2_def)
    qed
    ultimately obtain st' where "epilog lr c ?st = Some st'" "dl_sb st' = dl_sb ?st"
      "k_dinode (dl_kern st') = k_dinode (dl_kern ?st)" "k_imode (dl_kern st') = k_imode (dl_kern ?st)"
      using epilog_spec [of ?st bi c lr] dir(1) by (auto simp: st2_def)
    then show ?thesis using rest True sf k2(2) by (auto simp: st2_def same_files_def)
  next
    case False
    then have s2: "same_files (\<lambda>_. False) ?k k2" using sf by simp
    show ?thesis
    proof (cases wh)
      case None
      then show ?thesis using rest False s2 by (auto simp: revert_wh_def st2_def same_files_def)
    next
      case (Some x)
      have "k_dparent k2 = k_dparent ?k" using k2(1) k1 by (simp add: undisturbed_def)
      moreover have "sbend (dl_sb st) \<ge> - 1" using d(3,4) by auto
      ultimately obtain re st' where "do_revert E x (- 1) dt st2 = Some (re, st')" "dl_sb st' = dl_sb st2"
        "re \<noteq> 0 \<longrightarrow> re = - EIO"
        "re = 0 \<longrightarrow> same_files (\<lambda>y. y = x) (dl_kern st2) (dl_kern st') \<and> k_dinode (dl_kern st') x = None"
        using do_revert_spec [OF ops, of st2 d fl "b # s" w x dt] d(1,2) wh Some s2 same_files_wh [OF s2, of x]
        by (auto simp: st2_def same_files_def)
      then show ?thesis using rest False s2 Some
        by (auto simp: revert_wh_def st2_def same_files_def)
    qed
  qed
qed

text \<open>The branch is not below the first one, and writable when it is above.\<close>

lemma scan_up_range: "scan_up p i e d = Some r \<Longrightarrow> r = d \<or> (i \<le> r \<and> r \<le> e \<and> p r = Some True)"
proof (induction p i e d rule: scan_up.induct)
  case (1 p i e d)
  from 1(2) 1(1) [of False] show ?case
    by (auto simp: scan_up.simps [of p i e d] split: if_split_asm option.split_asm bool.split_asm)
qed

lemma scan_down_range: "scan_down p i e d = Some r \<Longrightarrow> r = d \<or> (e \<le> r \<and> r \<le> i \<and> p r = Some True)"
proof (induction p i e d rule: scan_down.induct)
  case (1 p i e d)
  from 1(2) 1(1) [of False] show ?case
    by (auto simp: scan_down.simps [of p i e d] split: if_split_asm option.split_asm bool.split_asm)
qed

lemma find_rw_parent_br_range:
  assumes "find_rw_parent_br k sb parent b = Some c" "0 \<le> c"
  shows "c \<le> b \<and> (\<exists>br. sbr sb c = Some br \<and> br_rdonly k br = 0)"
proof -
  define fit where "fit = (\<lambda>i. do { h \<leftarrow> au_h_dptr_i k parent i;
       if h = None then Some False else map_option (\<lambda>br. br_rdonly k br = 0) (sbr sb i) })"
  have fit: "\<exists>br. sbr sb i = Some br \<and> br_rdonly k br = 0" if "fit i = Some True" for i
    using that by (auto simp: fit_def run_simps split: if_split_asm)
  obtain e where e: "find_rw_parent k sb parent b = Some e" "if 0 \<le> e then c = e else find_rw_br k sb b = Some c"
    using assms(1) by (auto simp: find_rw_parent_br_def run_simps split: if_splits)
  show ?thesis
  proof (cases "0 \<le> e")
    case True
    have "do { ok \<leftarrow> fit b; if ok then Some b
         else do { bstart \<leftarrow> dbstart parent; scan_up fit bstart b (- EROFS) } } = Some e"
      using e(1) by (simp only: find_rw_parent_def Let_def fit_def)
    then consider "fit b = Some True" "e = b" | lo where "scan_up fit lo b (- EROFS) = Some e"
      by (auto simp: run_simps split: if_split_asm)
    then have "e \<le> b \<and> fit e = Some True"
      by cases (use True in \<open>auto dest: scan_up_range\<close>)
    with True e(2) fit [of e] show ?thesis by simp
  next
    case False
    then have "scan_down (\<lambda>i. map_option (\<lambda>br. br_rdonly k br = 0) (sbr sb i)) b 0 (- EROFS) = Some c"
      using e(2) by (simp add: find_rw_br_def)
    from scan_down_range [OF this] assms(2) show ?thesis by auto
  qed
qed

lemma wr_dir_branch_range:
  assumes "wr_dir_branch (- 1) st = Some c" "0 \<le> c" "dbstart (dl_dentry st) = Some b"
  shows "c \<le> b \<and> (c < b \<longrightarrow> (\<exists>br. sbr (dl_sb st) c = Some br \<and> br_rdonly (dl_kern st) br = 0))"
  using assms find_rw_parent_br_range [of "dl_kern st" "dl_sb st" "dl_parent st" b c]
  by (auto simp: wr_dir_branch_def run_simps split: if_splits)

lemma wr_dir_need_wh_spec:
  assumes env: "lookup_env (ce_vfs E) child" and ap: "apart child name hp btail"
    and ok: "del_ok child hp b btail (dl_dentry st) name (dl_parent st) (dl_sb st) (dl_kern st)"
    and nm: "cn_name (dl_node st) = name"
    and c: "wr_dir_branch (- 1) st = Some c" "0 \<le> c" "hp c \<noteq> None"
  defines "fl \<equiv> file_at child name hp"
  defines "vs \<equiv> map (\<lambda>j. (j, view_at child (dl_sb st) name (dl_kern st) hp j)) [b + 1..btail]"
  shows "c \<le> b \<and> (\<exists>n s w k'. wr_dir_need_wh E False (- 1) st
        = Some (n, c, dl_put (lk_dentry (dl_dentry st) fl (b # s) w (- 1)) (dl_sb st) k' st)
     \<and> sorted_wrt (<) (b # s) \<and> set s \<subseteq> {b + 1..btail} \<and> (n = 0 \<longrightarrow> s = [] \<and> c = b \<and> layers 0 vs = [])
     \<and> k_dinode k' = k_dinode (dl_kern st) \<and> k_imode k' = k_imode (dl_kern st)
     \<and> k_dparent k' = k_dparent (dl_kern st) \<and> k_icount k' = k_icount (dl_kern st)
     \<and> (\<forall>x. k_dcount k' x = k_dcount (dl_kern st) x + int (count_list (map fl s) x)))"
proof -
  note o = del_baseD [OF del_okD(1) [OF ok], folded fl_def] and sl = del_base_slot [OF del_okD(1) [OF ok], folded fl_def]
  have cb: "c \<le> b" "c < b \<longrightarrow> (\<exists>br. sbr (dl_sb st) c = Some br \<and> br_rdonly (dl_kern st) br = 0)"
    using wr_dir_branch_range [OF c(1,2) sl(1)] by blast+
  show ?thesis
  proof (cases "c = b")
    case True
    from lkup_below_spec [OF env ap ok nm, folded fl_def vs_def] obtain n s w k' where
      l: "lkup_below E False b st = Some (n, dl_put (lk_dentry (dl_dentry st) fl (b # s) w (- 1)) (dl_sb st) k' st)"
      and r: "sorted_wrt (<) (b # s)" "set s \<subseteq> {b + 1..btail}" "n = 0 \<longrightarrow> s = [] \<and> layers 0 vs = []"
        "k_dinode k' = k_dinode (dl_kern st)" "k_imode k' = k_imode (dl_kern st)" "k_dparent k' = k_dparent (dl_kern st)"
        "k_icount k' = k_icount (dl_kern st)"
        "\<forall>x. k_dcount k' x = k_dcount (dl_kern st) x + int (count_list (map fl s) x)" by blast
    have "wr_dir_need_wh E False (- 1) st
        = Some (n, c, dl_put (lk_dentry (dl_dentry st) fl (b # s) w (- 1)) (dl_sb st) k' st)"
      using l c sl True by (simp add: wr_dir_need_wh_def)
    with r True cb(1) show ?thesis
      by (intro conjI exI [of _ n] exI [of _ s] exI [of _ w] exI [of _ k']) simp_all
  next
    case False
    obtain p where p: "hp c = Some p" using c(3) by blast
    have at: "au_h_dptr_i (dl_kern st) (dl_parent st) c = Some (Some p)"
      using o(10) [of c] c(2) cb(1) o(5) p by (simp add: lkup_at_def)
    have "cpup_dirs E c (dl_node st # dl_dir st # dl_up st) (dl_sb st) (dl_kern st)
        = Some (0, dl_node st # dl_dir st # dl_up st, dl_sb st, dl_kern st)"
      using cb False at by (auto simp: cpup_dirs_def test_ro_def) (subst cpup_dirs_loop.simps, simp)
    then have "dl_cpup_dirs E c st = Some (0, st)" by (simp add: dl_cpup_dirs_def)
    then have "wr_dir_need_wh E False (- 1) st = Some (1, c, st)"
      using c sl False by (simp add: wr_dir_need_wh_def)
    moreover have "dl_put (lk_dentry (dl_dentry st) fl [b] (- 1) (- 1)) (dl_sb st) (dl_kern st) st = st"
      using o(6) dl_put_same [of st] by simp
    ultimately show ?thesis using cb
      by (intro conjI exI [of _ 1] exI [of _ "[]"] exI [of _ "- 1"] exI [of _ "dl_kern st"]) simp_all
  qed
qed

lemma lock_hdir_create_wh_spec:
  assumes env: "lookup_env (ce_vfs E) child" "file_ops (ce_vfs E)" and ap: "apart child name hp btail"
    and ok: "del_ok child hp b btail (dl_dentry st) name (dl_parent st) (dl_sb st) (dl_kern st)"
    and nm: "cn_name (dl_node st) = name"
    and c: "wr_dir_branch (- 1) st = Some c" "0 \<le> c" "hp c = Some p"
    and neg: "k_dinode (dl_kern st) (child p (AUFS_WH_PFX @ name)) = None"
  defines "fl \<equiv> file_at child name hp" and "wh \<equiv> child p (AUFS_WH_PFX @ name)"
  defines "vs \<equiv> map (\<lambda>j. (j, view_at child (dl_sb st) name (dl_kern st) hp j)) [b + 1..btail]"
  shows "c \<le> b \<and> (\<exists>r dt st2 s w. lock_hdir_create_wh E False (- 1) st = Some (r, c, dt, st2)
     \<and> dl_dir st2 = dl_dir st \<and> dl_dentry st2 = lk_dentry (dl_dentry st) fl (b # s) w (- 1)
     \<and> sorted_wrt (<) (b # s) \<and> set s \<subseteq> {b + 1..btail} \<and> same_perms (dl_sb st) (dl_sb st2)
     \<and> undisturbed wh (dl_kern st) (dl_kern st2)
     \<and> (\<forall>x. int (count_list (map fl (b # s)) x) \<le> k_dcount (dl_kern st2) x)
     \<and> ((\<exists>e. r = Inl e \<and> e \<noteq> 0 \<and> same_files (\<lambda>_. False) (dl_kern st) (dl_kern st2))
        \<or> (r = Inr None \<and> c = b \<and> layers 0 vs = [] \<and> dt \<noteq> None \<and> same_files (\<lambda>_. False) (dl_kern st) (dl_kern st2))
        \<or> (r = Inr (Some wh) \<and> dt \<noteq> None \<and> w = c \<and> wh_code (dl_kern st2) wh = 1)))"
proof -
  note o = del_baseD [OF del_okD(1) [OF ok], folded fl_def]
  let ?sb = "dl_sb st" and ?k = "dl_kern st" and ?d = "dl_dentry st"
  have cn: "hp c \<noteq> None" using c(3) by simp
  from wr_dir_need_wh_spec [OF env(1) ap ok nm c(1,2) cn, folded fl_def vs_def]
  obtain n s w k1 where cb: "c \<le> b" and
    n: "wr_dir_need_wh E False (- 1) st = Some (n, c, dl_put (lk_dentry ?d fl (b # s) w (- 1)) ?sb k1 st)"
      "n = 0 \<longrightarrow> s = [] \<and> c = b \<and> layers 0 vs = []"
    and so: "sorted_wrt (<) (b # s)" "set s \<subseteq> {b + 1..btail}"
    and k1: "k_dinode k1 = k_dinode ?k" "k_imode k1 = k_imode ?k" "k_dparent k1 = k_dparent ?k" "k_icount k1 = k_icount ?k"
      "\<forall>x. k_dcount k1 x = k_dcount ?k x + int (count_list (map fl s) x)"
    by blast
  have cnt: "int (count_list (map fl (b # s)) x) \<le> k_dcount k1 x" for x using k1(5) o(8) o(9) [of x] by auto
  have u1: "undisturbed wh ?k k1" and s1: "same_files (\<lambda>_. False) ?k k1"
    using k1 by (auto intro!: undisturbed_eq same_files_eq)
  define st1 where "st1 = dl_put (lk_dentry ?d fl (b # s) w (- 1)) ?sb k1 st"
  have st1: "dl_dir st1 = dl_dir st" "dl_dentry st1 = lk_dentry ?d fl (b # s) w (- 1)" "dl_sb st1 = ?sb" "dl_kern st1 = k1"
    "cn_name (dl_node st1) = name" by (simp_all add: st1_def nm)
  show ?thesis
  proof (cases "n < 0")
    case True
    then have "lock_hdir_create_wh E False (- 1) st = Some (Inl n, c, None, st1)"
      using n by (simp add: lock_hdir_create_wh_def st1_def)
    then show ?thesis using True cb so st1 u1 s1 cnt by (intro conjI exI [of _ "Inl n"] exI [of _ None] exI [of _ st1] exI [of _ s] exI [of _ w]) auto
  next
    case False
    have cr: "0 \<le> c" "c \<le> btail" using c cb o(5) by auto
    have at: "au_h_dptr_i k1 (dl_parent st1) c = Some (Some p)"
    proof (rule au_h_dptr_i_pos)
      show l: "au_h_dptr_i ?k (dl_parent st1) c = Some (Some p)"
        using o(10) [OF cr] c(3) by (simp add: lkup_at_def st1)
      show "0 < k_dcount k1 q" if "Some p = Some q" for q
        using au_h_dptr_i_cnt [OF l] k1(5) that by auto
    qed
    obtain i where i: "k_dinode k1 p = Some i" using o(11) [OF cr c(3)] k1 by auto
    then obtain dt where dt: "dtime_store p k1 = Some dt" by (simp add: dtime_store_def)
    have lk: "lock_hdir_create_wh E False (- 1) st = (if n = 0 then Some (Inr None, c, Some dt, st1)
        else do { (r, dentry, queued, sb, k) \<leftarrow>
                     simple_create_wh (ce_vfs E) (dl_dentry st1) name c p ?sb k1;
                  Some (map_sum id Some r, c, Some dt, (dl_put dentry sb k st1)\<lparr>dl_queued := dl_queued st1 \<or> queued\<rparr>) })"
      using False n at dt by (simp add: lock_hdir_create_wh_def st1_def [symmetric] st1)
    show ?thesis
    proof (cases "n = 0")
      case True
      then show ?thesis using lk n(2) cb so st1 u1 s1 cnt
        by (intro conjI exI [of _ "Inr None"] exI [of _ "Some dt"] exI [of _ st1] exI [of _ s] exI [of _ w]) auto
    next
      case False
      have csb: "c \<le> si_bend ?sb" using o(10) [OF cr] by (simp add: lkup_at_def)
      have base: "wh_code k1 v = 1" if "br_wh (br_at ?sb c) = Some v" for v
        using o(12) [OF cr that] k1 by (simp add: wh_code_def cong: option.case_cong)
      have par: "k_dparent k1 wh = p" "k_dinode k1 p \<noteq> None" "k_dinode k1 wh = None"
        using o(11) [OF cr c(3)] k1 neg i by (simp_all add: wh_def)
      from simple_create_wh_spec [OF env o(1) c(2) csb o(2,3) wh_def [THEN meta_eq_to_obj_eq] par base so(1), where d = ?d and fl = fl and w = w]
      obtain r q d' sb' k' where
        cw: "simple_create_wh (ce_vfs E) (lk_dentry ?d fl (b # s) w (- 1)) name c p ?sb k1 = Some (r, d', q, sb', k')"
        "same_perms ?sb sb'" "undisturbed wh k1 k'" and
        rr: "r = Inr wh \<and> d' = lk_dentry ?d fl (b # s) c (- 1) \<and> wh_code k' wh = 1
        \<or> (\<exists>e. r = Inl e \<and> d' = lk_dentry ?d fl (b # s) w (- 1) \<and> e \<noteq> 0 \<and> same_files (\<lambda>_. False) k1 k')" by blast
      define st2 where "st2 = (dl_put d' sb' k' st1)\<lparr>dl_queued := dl_queued st1 \<or> q\<rparr>"
      have st2: "dl_dir st2 = dl_dir st" "dl_dentry st2 = d'" "dl_sb st2 = sb'" "dl_kern st2 = k'"
        by (simp_all add: st2_def st1)
      have l2: "lock_hdir_create_wh E False (- 1) st = Some (map_sum id Some r, c, Some dt, st2)"
        using lk False cw by (simp add: st1 st2_def)
      have u2: "undisturbed wh ?k k'" by (rule undisturbed_trans [OF u1 cw(3)]) (simp add: k1)
      have cnt2: "int (count_list (map fl (b # s)) x) \<le> k_dcount k' x" for x
        using cnt [of x] cw(3) by (auto simp: undisturbed_def simp del: count_list.simps intro: order_trans)
      from rr show ?thesis
      proof
        assume r: "r = Inr wh \<and> d' = lk_dentry ?d fl (b # s) c (- 1) \<and> wh_code k' wh = 1"
        then show ?thesis using l2 cb so st2 u2 cw(2) cnt2
          by (intro conjI exI [of _ "Inr (Some wh)"] exI [of _ "Some dt"] exI [of _ st2] exI [of _ s] exI [of _ c])
            (auto simp del: count_list.simps)
      next
        assume "\<exists>e. r = Inl e \<and> d' = lk_dentry ?d fl (b # s) w (- 1) \<and> e \<noteq> 0 \<and> same_files (\<lambda>_. False) k1 k'"
        then obtain e where r: "r = Inl e" "d' = lk_dentry ?d fl (b # s) w (- 1)" "e \<noteq> 0" "same_files (\<lambda>_. False) k1 k'" by blast
        then show ?thesis using l2 cb so st2 u2 cw(2) cnt2 same_files_trans [OF s1 r(4)]
          by (intro conjI exI [of _ "Inl e"] exI [of _ "Some dt"] exI [of _ st2] exI [of _ s] exI [of _ w])
            (auto simp del: count_list.simps)
      qed
    qed
  qed
qed

text \<open>The views of the branches that are not touched.\<close>

lemma view_untouched:
  assumes ap: "apart child name hp btail" and perms: "same_perms sb sb'"
    and c: "0 \<le> c" "c \<le> btail" "hp c = Some p" and b: "0 \<le> b" "b \<le> btail" "hp b = Some q"
    and s: "same_files (\<lambda>x. x = child p (AUFS_WH_PFX @ name) \<or> x = child q name) k k'"
    and j: "0 \<le> j" "j \<le> btail" "j \<noteq> c" "j \<noteq> b"
  shows "view_at child sb' name k' hp j = view_at child sb name k hp j"
proof (rule view_cong)
  fix r assume r: "hp j = Some r"
  note a = apartD [OF ap c(1,2) j(1,2) c(3) r] apartD [OF ap b(1,2) j(1,2) b(3) r]
    apartD [OF ap j(1,2) c(1,2) r c(3)] apartD [OF ap j(1,2) b(1,2) r b(3)]
  let ?P = "\<lambda>x. x = child p (AUFS_WH_PFX @ name) \<or> x = child q name"
  have n: "\<not> ?P r" "\<not> ?P (child r (AUFS_WH_PFX @ name))" "\<not> ?P (child r name)" "\<not> ?P (child (child r name) diropq_name)"
    using a j(3,4) by metis+
  show "k_dinode k' r = k_dinode k r \<and> (\<forall>i. k_dinode k r = Some i \<longrightarrow> k_imode k' i = k_imode k i)
      \<and> wh_code k' (child r (AUFS_WH_PFX @ name)) = wh_code k (child r (AUFS_WH_PFX @ name))
      \<and> k_dinode k' (child r name) = k_dinode k (child r name)
      \<and> (\<forall>i. k_dinode k (child r name) = Some i \<longrightarrow> k_imode k' i = k_imode k i)
      \<and> wh_code k' (child (child r name) diropq_name) = wh_code k (child (child r name) diropq_name)"
    using same_files_at [OF s n(1)] same_files_wh [OF s n(2)] same_files_at [OF s n(3)] same_files_wh [OF s n(4)]
    by blast
qed (use perms in \<open>simp add: same_perms_def\<close>)

text \<open>The views when only the whiteout at \<open>c\<close> came and went.\<close>

lemma view_restored:
  assumes ap: "apart child name hp btail" and perms: "same_perms sb sb'"
    and c: "0 \<le> c" "c \<le> btail" "hp c = Some p"
    and s: "same_files (\<lambda>x. x = child p (AUFS_WH_PFX @ name)) k k'"
    and w: "wh_code k' (child p (AUFS_WH_PFX @ name)) = wh_code k (child p (AUFS_WH_PFX @ name))"
    and j: "0 \<le> j" "j \<le> btail"
  shows "view_at child sb' name k' hp j = view_at child sb name k hp j"
proof (rule view_cong)
  fix r assume r: "hp j = Some r"
  note a = apartD [OF ap c(1,2) j(1,2) c(3) r] apartD [OF ap j(1,2) c(1,2) r c(3)]
  let ?P = "\<lambda>x. x = child p (AUFS_WH_PFX @ name)"
  have n: "\<not> ?P r" "\<not> ?P (child r name)" "\<not> ?P (child (child r name) diropq_name)"
    using a by metis+
  have "wh_code k' (child r (AUFS_WH_PFX @ name)) = wh_code k (child r (AUFS_WH_PFX @ name))"
    using w same_files_wh [OF s] by (cases "?P (child r (AUFS_WH_PFX @ name))") auto
  then show "k_dinode k' r = k_dinode k r \<and> (\<forall>i. k_dinode k r = Some i \<longrightarrow> k_imode k' i = k_imode k i)
      \<and> wh_code k' (child r (AUFS_WH_PFX @ name)) = wh_code k (child r (AUFS_WH_PFX @ name))
      \<and> k_dinode k' (child r name) = k_dinode k (child r name)
      \<and> (\<forall>i. k_dinode k (child r name) = Some i \<longrightarrow> k_imode k' i = k_imode k i)
      \<and> wh_code k' (child (child r name) diropq_name) = wh_code k (child (child r name) diropq_name)"
    using same_files_at [OF s n(1)] same_files_at [OF s n(2)] same_files_wh [OF s n(3)]
    by blast
qed (use perms in \<open>simp add: same_perms_def\<close>)

lemma wh_code_none: "k_dinode k d = None \<longleftrightarrow> wh_code k d = 0"
  by (auto simp: wh_code_def split: option.splits)

text \<open>What holds of the branch the removal happens on.\<close>

lemma chosen_no_wh:
  assumes ok: "del_ok child hp b btail d name parent sb k"
    and cur: "layers 0 (map (\<lambda>j. (j, view_at child sb name k hp j)) [0..btail]) = [b]"
    and c: "0 \<le> c" "c \<le> b" "hp c = Some p" "br_whable (br_perm (br_at sb c))"
  shows "k_dinode k (child p (AUFS_WH_PFX @ name)) = None"
proof -
  note o = del_baseD [OF del_okD(1) [OF ok]]
  obtain dir where dir: "k_dinode k p = Some dir" "S_ISDIR (k_imode k dir)"
    using o(11) [OF c(1) _ c(3)] c(2) o(5) by auto
  have "\<exists>f. view_at child sb name k hp c = Some (False, f)"
  proof (cases "c = b")
    case False
    then have "passed (view_at child sb name k hp c)" using layers_upto [OF cur] c by auto
    then show ?thesis using dir c(3) by (auto simp: passed_def view_at_def branch_view_def)
  qed (use layers_upto [OF cur] in auto)
  then have "wh_code k (child p (AUFS_WH_PFX @ name)) \<noteq> 1"
    using dir c(3,4) by (auto simp: view_at_def branch_view_def)
  moreover have "0 \<le> wh_code k (child p (AUFS_WH_PFX @ name))"
    using o(10) [of c] c o(5) by (auto simp: lkup_at_def)
  ultimately show ?thesis by (auto simp: wh_code_def split: option.splits if_splits)
qed

text \<open>What a removal does to the hidden files, whether its branch reads whiteouts or not.\<close>

lemma aufs_unlink_outcome:
  assumes env: "lookup_env (ce_vfs E) child" "file_ops (ce_vfs E)" "times_ops E"
    and name: "cn_name (dl_node st) = name"
    and ok: "del_ok child hp b btail (dl_dentry st) name (dl_parent st) (dl_sb st) (dl_kern st)"
    and ap: "apart child name hp btail"
    and c: "wr_dir_branch (- 1) st = Some c" "0 \<le> c" "hp c = Some p" and q: "hp b = Some q"
    and neg: "k_dinode (dl_kern st) (child p (AUFS_WH_PFX @ name)) = None"
    and dir: "ibstart (cn_inode (dl_dir st)) = Some bi"
      "bi = c \<longrightarrow> au_h_iptr (dl_kern st) (cn_inode (dl_dir st)) = Some (k_dinode (dl_kern st) p)"
  defines "wh \<equiv> child p (AUFS_WH_PFX @ name)"
  shows "c \<le> b \<and> (\<exists>err st'. aufs_unlink E lastref st = Some (err, st') \<and> same_perms (dl_sb st) (dl_sb st')
     \<and> (err = 0 \<longrightarrow> same_files (\<lambda>x. x = wh \<or> x = child q name) (dl_kern st) (dl_kern st')
          \<and> (c = b \<longrightarrow> k_dinode (dl_kern st') (child q name) = None)
          \<and> (wh_code (dl_kern st') wh = 1
             \<or> c = b \<and> layers 0 (map (\<lambda>j. (j, view_at child (dl_sb st) name (dl_kern st) hp j)) [b + 1..btail]) = []
               \<and> k_dinode (dl_kern st') wh = None))
     \<and> (err \<noteq> 0 \<and> err \<noteq> - EIO \<longrightarrow> same_files (\<lambda>x. x = wh) (dl_kern st) (dl_kern st')
          \<and> k_dinode (dl_kern st') wh = None))"
proof -
  note o = del_baseD [OF del_okD(1) [OF ok]] and sl = del_base_slot [OF del_okD(1) [OF ok]]
  let ?k = "dl_kern st" and ?sb = "dl_sb st" and ?d = "dl_dentry st" and ?fl = "file_at child name hp"
  have pos: "d_imode ?d \<noteq> None" using o(13) by (auto simp: not_dir_def split: option.splits)
  have cb: "c \<le> b" using wr_dir_branch_range [OF c(1,2) sl(1)] by simp
  have cr: "c \<le> btail" using cb o(5) by simp
  from lock_hdir_create_wh_spec [OF env(1,2) ap ok name c neg, folded wh_def]
  obtain r dt st2 s w where
    l: "lock_hdir_create_wh E False (- 1) st = Some (r, c, dt, st2)" and
    l2: "dl_dir st2 = dl_dir st" "dl_dentry st2 = lk_dentry ?d ?fl (b # s) w (- 1)" and
    so: "sorted_wrt (<) (b # s)" "set s \<subseteq> {b + 1..btail}" and sp: "same_perms ?sb (dl_sb st2)" and
    u: "undisturbed wh ?k (dl_kern st2)" and
    cnt: "\<And>x. int (count_list (map ?fl (b # s)) x) \<le> k_dcount (dl_kern st2) x" and
    rr: "(\<exists>e. r = Inl e \<and> e \<noteq> 0 \<and> same_files (\<lambda>_. False) ?k (dl_kern st2))
      \<or> (r = Inr None \<and> c = b \<and> layers 0 (map (\<lambda>j. (j, view_at child ?sb name ?k hp j)) [b + 1..btail]) = []
          \<and> dt \<noteq> None \<and> same_files (\<lambda>_. False) ?k (dl_kern st2))
      \<or> (r = Inr (Some wh) \<and> dt \<noteq> None \<and> w = c \<and> wh_code (dl_kern st2) wh = 1)"
    by blast
  let ?k2 = "dl_kern st2"
  have s2: "same_files (\<lambda>x. x = wh) ?k ?k2" "k_dparent ?k2 = k_dparent ?k"
    using u by (simp_all add: undisturbed_def)
  have fb: "?fl b = child q name" by (simp add: file_at_def q)
  note ap1 = apartD [OF ap c(2) cr o(4,5) c(3) q] and ap2 = apartD [OF ap c(2) cr c(2) cr c(3) c(3)]
    and ap3 = apartD [OF ap o(4,5) c(2) cr q c(3)] and ap4 = apartD [OF ap o(4,5) o(4,5) q q]
  have ne: "wh \<noteq> p" "wh \<noteq> q" "?fl b \<noteq> wh" "?fl b \<noteq> p" "?fl b \<noteq> q"
    using ap1(2) ap2(2) ap3(1,3) ap4(1) by (auto simp: wh_def fb)
  obtain h where h: "k_dinode ?k p = Some h" "S_ISDIR (k_imode ?k h)" using o(11) [OF c(2) cr c(3)] by blast
  obtain hq where hq: "k_dinode ?k q = Some hq" using o(11) [OF o(4,5) q] by blast
  have par: "k_dparent ?k (?fl b) = q" "k_dparent ?k wh = p"
    using o(11) [OF o(4,5) q] o(11) [OF c(2) cr c(3)] by (simp_all add: fb wh_def)
  have k2: "k_dinode ?k2 p = Some h" "k_dinode ?k2 q = Some hq" "k_dinode ?k2 (?fl b) = k_dinode ?k (?fl b)"
    using same_files_at(1) [OF s2(1)] ne h(1) hq by auto
  have rng: "\<forall>i \<in> set (b # s). i \<le> sbend (dl_sb st2) \<and> i < int (length (di_hdentry (the_di ?d)))"
  proof
    fix i assume "i \<in> set (b # s)"
    then have "0 \<le> i" "i \<le> btail" using so(2) o(4,5) by auto
    from o(10) [OF this] show "i \<le> sbend (dl_sb st2) \<and> i < int (length (di_hdentry (the_di ?d)))"
      using sp by (simp add: lkup_at_def sbend_def same_perms_def)
  qed
  have dir2: "\<exists>h q. au_h_iptr ?k2 (cn_inode (dl_dir st2)) = Some (Some h)
       \<and> k_dinode ?k2 (?fl b) \<noteq> Some h \<and> q \<noteq> ?fl b \<and> k_dinode ?k2 q = Some h" if "bi = c"
  proof -
    have "au_h_iptr ?k (cn_inode (dl_dir st2)) = Some (Some h)" using dir(2) that h l2(1) by simp
    moreover have "k_dinode ?k wh \<noteq> Some h" using neg by (simp add: wh_def)
    ultimately have "au_h_iptr ?k2 (cn_inode (dl_dir st2)) = Some (Some h)"
      using ne(1) h(1) by (intro undisturbed_iptr [OF u, of _ h p]) auto
    moreover have "k_dinode ?k (?fl b) \<noteq> Some h" using o(13,14) h(2) by (auto simp: dir_fits_def)
    ultimately show ?thesis using k2 ne by metis
  qed
  have bi2: "ibstart (cn_inode (dl_dir st2)) = Some bi" using dir(1) l2(1) by simp
  have run: "aufs_unlink E lastref st = (case r of Inl err \<Rightarrow> Some (err, st2)
      | Inr w \<Rightarrow> do { dt \<leftarrow> dt; unlink_rest E lastref b (- 1) c w dt st2 })"
    using pos sl l by (auto simp: aufs_unlink_def)
  have whn: "k_dinode ?k wh = None" using neg by (simp add: wh_def)
  have keep: "same_files (\<lambda>x. x = wh) ?k k' \<and> k_dinode k' wh = None" if "same_files (\<lambda>_. False) ?k k'" for k'
    using that whn by (simp add: same_files_def)
  from rr consider
      (err) e where "r = Inl e" "e \<noteq> 0" "same_files (\<lambda>_. False) ?k ?k2"
    | (none) t where "r = Inr None" "c = b"
        "layers 0 (map (\<lambda>j. (j, view_at child ?sb name ?k hp j)) [b + 1..btail]) = []"
        "dt = Some t" "same_files (\<lambda>_. False) ?k ?k2"
    | (wh) t where "r = Inr (Some wh)" "dt = Some t" "w = c" "wh_code ?k2 wh = 1"
    by blast
  then show ?thesis
  proof cases
    case err
    with run sp cb keep [OF err(3)] show ?thesis by auto
  next
    case none
    from unlink_rest_spec [OF env(2,3) l2(2) so(1) o(4) rng cnt _ _ bi2 dir2, where wh = None and dt = t and lr = lastref]
    obtain e st' where e: "unlink_rest E lastref b (- 1) c None t st2 = Some (e, st')" "dl_sb st' = dl_sb st2"
      "e = 0 \<longrightarrow> same_files (\<lambda>x. x = ?fl b) ?k2 (dl_kern st') \<and> k_dinode (dl_kern st') (?fl b) = None"
      "e \<noteq> 0 \<and> e \<noteq> - EIO \<longrightarrow> same_files (\<lambda>_. False) ?k2 (dl_kern st')"
      using none(2) k2 par s2(2) by auto
    have "same_files (\<lambda>x. x = ?fl b) ?k (dl_kern st')" if "e = 0"
      by (rule same_files_trans [OF same_files_weak [OF none(5)]]) (use e(3) that in auto)
    then have "same_files (\<lambda>x. x = wh \<or> x = child q name) ?k (dl_kern st') \<and> k_dinode (dl_kern st') wh = None" if "e = 0"
      using that ne(3) whn same_files_at(1) [of "\<lambda>x. x = ?fl b" ?k "dl_kern st'" wh]
        same_files_weak [of "\<lambda>x. x = ?fl b" ?k "dl_kern st'" "\<lambda>x. x = wh \<or> x = child q name"] fb by simp
    moreover have "same_files (\<lambda>_. False) ?k (dl_kern st')" if "e \<noteq> 0" "e \<noteq> - EIO"
      using same_files_trans [OF none(5)] e(4) that by blast
    moreover have "same_perms ?sb (dl_sb st')" using sp e(2) by simp
    ultimately show ?thesis using run none e(1,3) cb keep fb by auto
  next
    case wh
    have cm: "c \<noteq> - 1" using c(2) by simp
    have at: "au_h_dptr_i ?k2 (dl_parent st2) c = Some (Some p)"
    proof (rule au_h_dptr_i_pos)
      show a: "au_h_dptr_i ?k (dl_parent st2) c = Some (Some p)"
        using o(10) [OF c(2) cr] c(3) l2(1) by (simp add: lkup_at_def)
      show "0 < k_dcount ?k2 x" if "Some p = Some x" for x
        using au_h_dptr_i_cnt [OF a] u that by (auto simp: undisturbed_def intro: less_le_trans)
    qed
    from unlink_rest_spec [OF env(2,3) l2(2) so(1) o(4) rng cnt _ _ bi2 dir2, where wh = "Some wh" and dt = t and lr = lastref]
    obtain e st' where e: "unlink_rest E lastref b (- 1) c (Some wh) t st2 = Some (e, st')" "dl_sb st' = dl_sb st2"
      "e = 0 \<longrightarrow> same_files (\<lambda>x. x = ?fl b) ?k2 (dl_kern st') \<and> (c = b \<longrightarrow> k_dinode (dl_kern st') (?fl b) = None)"
      "e \<noteq> 0 \<and> e \<noteq> - EIO \<longrightarrow> same_files (\<lambda>x. x = wh) ?k2 (dl_kern st') \<and> k_dinode (dl_kern st') wh = None"
      using wh k2 par s2(2) ne cm at same_files_weak [of "(=) wh" ?k2 _ "\<lambda>x. x = wh"] by auto
    have "same_files (\<lambda>x. x = wh \<or> x = child q name) ?k (dl_kern st') \<and> wh_code (dl_kern st') wh = 1" if "e = 0"
    proof
      have f2: "same_files (\<lambda>x. x = child q name) ?k2 (dl_kern st')" using e(3) that fb by simp
      show "same_files (\<lambda>x. x = wh \<or> x = child q name) ?k (dl_kern st')"
        by (rule same_files_trans [OF same_files_weak [OF s2(1)] same_files_weak [OF f2]]) auto
      show "wh_code (dl_kern st') wh = 1" using same_files_wh [OF f2, of wh] wh(4) ne(3) fb by auto
    qed
    moreover have "same_files (\<lambda>x. x = wh) ?k (dl_kern st') \<and> k_dinode (dl_kern st') wh = None" if "e \<noteq> 0" "e \<noteq> - EIO"
      using same_files_trans [OF s2(1)] e(4) that by blast
    moreover have "same_perms ?sb (dl_sb st')" using sp e(2) by simp
    ultimately show ?thesis using run wh e(1,3) cb fb by auto
  qed
qed

section \<open>Properties\<close>

text \<open>C3.
  Removing a file returns, and either the name is gone or nothing has changed. When \<open>unlink\<close>
  reports success no layer of the name is left in the stack of branches, whether the file itself,
  a whiteout, or both had to go: a lower file of the same name does not show through. When
  it reports an error other than \<open>-EIO\<close>, what every branch shows of the name is as before, so a
  whiteout that was made first has been removed again. The hypotheses: the hidden operations
  change one name or fail (\<open>file_ops\<close>), the dentry is up to date (its layers are its one
  slot), no directory has the same name at or below it, and the branch that is written to has the
  parent directory and reads whiteouts.
\<close>

theorem aufs_unlink_all_or_nothing:
  assumes env: "lookup_env (ce_vfs E) child" "file_ops (ce_vfs E)" "times_ops E"
    and name: "cn_name (dl_node st) = name"
    and ok: "del_ok child hp b btail (dl_dentry st) name (dl_parent st) (dl_sb st) (dl_kern st)"
    and ap: "apart child name hp btail"
    and cur: "layers 0 (map (\<lambda>j. (j, view_at child (dl_sb st) name (dl_kern st) hp j)) [0..btail]) = [b]"
    and c: "wr_dir_branch (- 1) st = Some c"
      "0 \<le> c \<longrightarrow> hp c \<noteq> None \<and> br_whable (br_perm (br_at (dl_sb st) c))"
    and dir: "ibstart (cn_inode (dl_dir st)) = Some bi"
      "bi = c \<and> 0 \<le> c \<longrightarrow> au_h_iptr (dl_kern st) (cn_inode (dl_dir st)) = Some (k_dinode (dl_kern st) (the (hp c)))"
  shows "\<exists>err st'. aufs_unlink E lastref st = Some (err, st')
     \<and> (err = 0 \<longrightarrow> layers 0 (map (\<lambda>j. (j, view_at child (dl_sb st') name (dl_kern st') hp j)) [0..btail]) = [])
     \<and> (err \<noteq> 0 \<and> err \<noteq> - EIO \<longrightarrow> (\<forall>j. 0 \<le> j \<longrightarrow> j \<le> btail \<longrightarrow>
          view_at child (dl_sb st') name (dl_kern st') hp j = view_at child (dl_sb st) name (dl_kern st) hp j))"
proof (cases "0 \<le> c")
  case False
  note sl = del_base_slot [OF del_okD(1) [OF ok]]
  have "d_imode (dl_dentry st) \<noteq> None" using del_baseD(13) [OF del_okD(1) [OF ok]] by (auto simp: not_dir_def split: option.splits)
  moreover have "lock_hdir_create_wh E False (- 1) st = Some (Inl c, c, None, st)"
    using sl c(1) False by (simp add: lock_hdir_create_wh_def wr_dir_need_wh_def)
  ultimately have "aufs_unlink E lastref st = Some (c, st)" using sl by (auto simp: aufs_unlink_def)
  with False show ?thesis by auto
next
  case True
  note o = del_baseD [OF del_okD(1) [OF ok]] and up = layers_upto [OF cur]
  let ?k = "dl_kern st" and ?sb = "dl_sb st" and ?V = "\<lambda>j. view_at child (dl_sb st) name (dl_kern st) hp j"
  obtain p where p: "hp c = Some p" and wa: "br_whable (br_perm (br_at ?sb c))" using c(2) True by blast
  obtain q where q: "hp b = Some q" using o(7) by blast
  have cb: "c \<le> b" using wr_dir_branch_range [OF c(1) True del_base_slot(1) [OF del_okD(1) [OF ok]]] by simp
  have cr: "c \<le> btail" using cb o(5) by simp
  note neg = chosen_no_wh [OF ok cur True cb p wa]
  define wh where "wh = child p (AUFS_WH_PFX @ name)"
  have "bi = c \<longrightarrow> au_h_iptr ?k (cn_inode (dl_dir st)) = Some (k_dinode ?k p)" using dir(2) True p by simp
  from aufs_unlink_outcome [OF env name ok ap c(1) True p q neg dir(1) this, folded wh_def, of lastref]
  obtain e st' where run: "aufs_unlink E lastref st = Some (e, st')" and sp: "same_perms ?sb (dl_sb st')"
    and e0: "e = 0 \<longrightarrow> same_files (\<lambda>x. x = wh \<or> x = child q name) ?k (dl_kern st')
          \<and> (c = b \<longrightarrow> k_dinode (dl_kern st') (child q name) = None)
          \<and> (wh_code (dl_kern st') wh = 1 \<or> c = b \<and> layers 0 (map (\<lambda>j. (j, ?V j)) [b + 1..btail]) = []
               \<and> k_dinode (dl_kern st') wh = None)"
    and e1: "e \<noteq> 0 \<and> e \<noteq> - EIO \<longrightarrow> same_files (\<lambda>x. x = wh) ?k (dl_kern st') \<and> k_dinode (dl_kern st') wh = None"
    by blast
  let ?W = "\<lambda>j. view_at child (dl_sb st') name (dl_kern st') hp j"
  have "layers 0 (map (\<lambda>j. (j, ?W j)) [0..btail]) = []" if "e = 0"
  proof -
    have sf: "same_files (\<lambda>x. x = wh \<or> x = child q name) ?k (dl_kern st')" using e0 that by blast
    have un: "?W j = ?V j" if "0 \<le> j" "j \<le> btail" "j \<noteq> c" "j \<noteq> b" for j
      by (rule view_untouched [OF ap sp True cr p o(4,5) q sf [unfolded wh_def] that])
    obtain h where h: "k_dinode ?k p = Some h" "S_ISDIR (k_imode ?k h)" using o(11) [OF True cr p] by blast
    have "wh \<noteq> p" "child q name \<noteq> p"
      using apartD(2) [OF ap True cr True cr p p] apartD(1) [OF ap o(4,5) True cr q p] by (auto simp: wh_def)
    then have kp: "k_dinode (dl_kern st') p = Some h" "k_imode (dl_kern st') h = k_imode ?k h"
      using same_files_at [OF sf, of p] h by auto
    have skip: "layers 0 (map (\<lambda>j. (j, ?W j)) [0..btail]) = layers 0 ((c, ?W c) # map (\<lambda>j. (j, ?W j)) [c + 1..btail])"
      by (rule layers_skip [OF _ True cr]) (use up un cb o(5) in auto)
    show ?thesis
    proof (cases "wh_code (dl_kern st') wh = 1")
      case True
      then have "\<exists>f. ?W c = Some (True, f)"
        using p h kp sp wa by (auto simp: view_at_def branch_view_def same_perms_def wh_def)
      with skip show ?thesis by auto
    next
      case False
      with e0 that have f: "c = b" "layers 0 (map (\<lambda>j. (j, ?V j)) [b + 1..btail]) = []" "k_dinode (dl_kern st') wh = None"
        "k_dinode (dl_kern st') (child q name) = None" by auto
      have "?W c = Some (False, None)"
        using f p q h kp False by (auto simp: view_at_def branch_view_def wh_def)
      moreover have "layers 0 (map (\<lambda>j. (j, ?W j)) [b + 1..btail]) = layers 0 (map (\<lambda>j. (j, ?V j)) [b + 1..btail])"
        by (intro arg_cong [where f = "layers 0"] map_cong refl) (use un o(4) f(1) in auto)
      ultimately show ?thesis using skip f(1,2) by simp
    qed
  qed
  moreover have "?W j = ?V j" if "0 \<le> j" "j \<le> btail" "e \<noteq> 0" "e \<noteq> - EIO" for j
    by (rule view_restored [OF ap sp True cr p _ _ that(1,2)])
      (use e1 that neg wh_code_none wh_def in \<open>metis+\<close>)
  ultimately show ?thesis using run by blast
qed

text \<open>C16.
  A branch that is mounted \<open>rw+nolwh\<close> is written to, but whiteouts are never looked for on it
  (\<open>br_whable\<close> leaves this permission out). So when a file of such a branch is removed and the
  name exists below, \<open>unlink\<close> makes the whiteout and reports success, and the layers of the name
  are then those of the branches below: the removed name is still there, with the content of
  the lower file.
\<close>

theorem aufs_unlink_nolwh_shows_lower:
  assumes env: "lookup_env (ce_vfs E) child" "file_ops (ce_vfs E)" "times_ops E"
    and name: "cn_name (dl_node st) = name"
    and ok: "del_ok child hp b btail (dl_dentry st) name (dl_parent st) (dl_sb st) (dl_kern st)"
    and ap: "apart child name hp btail"
    and cur: "layers 0 (map (\<lambda>j. (j, view_at child (dl_sb st) name (dl_kern st) hp j)) [0..btail]) = [b]"
    and c: "wr_dir_branch (- 1) st = Some b" "br_perm (br_at (dl_sb st) b) = AuBr_RWNoLinkWH"
    and neg: "k_dinode (dl_kern st) (child (the (hp b)) (AUFS_WH_PFX @ name)) = None"
    and dir: "ibstart (cn_inode (dl_dir st)) = Some bi"
      "bi = b \<longrightarrow> au_h_iptr (dl_kern st) (cn_inode (dl_dir st)) = Some (k_dinode (dl_kern st) (the (hp b)))"
  shows "\<exists>err st'. aufs_unlink E lastref st = Some (err, st')
     \<and> (err = 0 \<longrightarrow> layers 0 (map (\<lambda>j. (j, view_at child (dl_sb st') name (dl_kern st') hp j)) [0..btail])
          = layers 0 (map (\<lambda>j. (j, view_at child (dl_sb st) name (dl_kern st) hp j)) [b + 1..btail]))"
proof -
  note o = del_baseD [OF del_okD(1) [OF ok]] and up = layers_upto [OF cur]
  let ?k = "dl_kern st" and ?sb = "dl_sb st" and ?V = "\<lambda>j. view_at child (dl_sb st) name (dl_kern st) hp j"
  obtain q where q: "hp b = Some q" using o(7) by blast
  define wh where "wh = child q (AUFS_WH_PFX @ name)"
  from aufs_unlink_outcome [OF env name ok ap c(1) o(4) q q _ dir(1), folded wh_def, of lastref] neg dir(2) q
  obtain e st' where run: "aufs_unlink E lastref st = Some (e, st')" and sp: "same_perms ?sb (dl_sb st')"
    and e0: "e = 0 \<longrightarrow> same_files (\<lambda>x. x = wh \<or> x = child q name) ?k (dl_kern st')
          \<and> k_dinode (dl_kern st') (child q name) = None"
    by (auto simp: wh_def)
  let ?W = "\<lambda>j. view_at child (dl_sb st') name (dl_kern st') hp j"
  have "layers 0 (map (\<lambda>j. (j, ?W j)) [0..btail]) = layers 0 (map (\<lambda>j. (j, ?V j)) [b + 1..btail])" if "e = 0"
  proof -
    have sf: "same_files (\<lambda>x. x = wh \<or> x = child q name) ?k (dl_kern st')" using e0 that by blast
    have un: "?W j = ?V j" if "0 \<le> j" "j \<le> btail" "j \<noteq> b" for j
      by (rule view_untouched [OF ap sp o(4,5) q o(4,5) q sf [unfolded wh_def] that(1,2,3,3)])
    obtain h where h: "k_dinode ?k q = Some h" "S_ISDIR (k_imode ?k h)" using o(11) [OF o(4,5) q] by blast
    have "wh \<noteq> q" "child q name \<noteq> q" using apartD(1,2) [OF ap o(4,5) o(4,5) q q] by (auto simp: wh_def)
    then have kq: "k_dinode (dl_kern st') q = Some h" "k_imode (dl_kern st') h = k_imode ?k h"
      using same_files_at [OF sf, of q] h by auto
    have "?W b = Some (False, None)"
      using q h kq e0 that sp c(2) by (auto simp: view_at_def branch_view_def same_perms_def br_whable_def)
    moreover have "layers 0 (map (\<lambda>j. (j, ?W j)) [b + 1..btail]) = layers 0 (map (\<lambda>j. (j, ?V j)) [b + 1..btail])"
      by (intro arg_cong [where f = "layers 0"] map_cong refl) (use un o(4) in auto)
    moreover have "layers 0 (map (\<lambda>j. (j, ?W j)) [0..btail]) = layers 0 ((b, ?W b) # map (\<lambda>j. (j, ?W j)) [b + 1..btail])"
      by (rule layers_skip [OF _ o(4,5)]) (use up un o(5) in auto)
    ultimately show ?thesis by simp
  qed
  with run show ?thesis by blast
qed

section \<open>A file over a directory\<close>

lemma not_dir_crash: "not_dir d \<Longrightarrow> set_dbdiropq sb d b = None" "not_dir d \<Longrightarrow> dbdiropq d = None"
  by (cases "dbstart d"; cases "dbend d"; simp add: set_dbdiropq_def) (simp add: dbdiropq_def)

lemma lkup_body_dir_crash:
  assumes fl_def: "fl = file_at child name hp"
    and env: "lookup_env vf child" "sb_ok sb" and at: "lkup_at child sb parent d name k (hp j) j"
    and d: "not_dir d" and s: "sorted_wrt (<) s" "\<forall>x \<in> set s. 0 \<le> x \<and> x < j"
    and v: "view_at child sb name k hp j = Some (False, Some (m, opq))" "m AND S_IFMT = S_IFDIR"
  shows "lkup_body vf sb parent name (AUFS_WH_PFX @ name) j (lk_state d fl k s (- 1) (- 1) n neg 0) = None"
proof -
  let ?k = "dgets (map fl s) k" and ?D = "lk_dentry d fl s"
  from at have j: "0 \<le> j" "j \<le> si_bend sb" "j < int (length (di_hdentry (the_di d)))"
    and hp: "au_h_dptr_i k parent j = Some (hp j)" by (auto simp: lkup_at_def)
  have hp': "au_h_dptr_i ?k parent j = Some (hp j)"
    by (rule au_h_dptr_i_mono [OF hp]) (simp add: dgets_dcount)
  have nj: "j \<notin> set s" using s(2) by auto
  have own: "au_h_dptr_i ?k (?D (- 1) (- 1)) j = Some None"
    by (rule lk_empty_slot) (use s nj j in auto)
  obtain p dir i where p: "hp j = Some p" "k_dinode k p = Some dir" "S_ISDIR (k_imode k dir)"
    and i: "k_dinode k (fl j) = Some i" "S_ISDIR (k_imode k i)"
    and nw: "br_whable (br_perm (br_at sb j)) \<Longrightarrow> wh_code k (child p (AUFS_WH_PFX @ name)) \<noteq> 1"
    using v by (auto simp: view_at_def branch_view_def fl_def file_at_def isdir_ifmt split: option.splits if_splits)
  let ?wa = "br_whable (br_perm (br_at sb j))"
  have wa: "sbr_is_whable sb j = Some ?wa" using env(2) j by (simp add: sbr_is_whable_def)
  have fl: "fl j = child p name" by (simp add: fl_def file_at_def p)
  have codes: "wh_code k x = 0 \<or> wh_code k x = 1 \<or> wh_code k x < 0" for x
    by (auto simp: wh_code_def split: option.split)
  have w0: "wh_code k (child p (AUFS_WH_PFX @ name)) = 0" if ?wa
    using nw [OF that] codes [of "child p (AUFS_WH_PFX @ name)"] at p by (auto simp: lkup_at_def)
  have iw: "is_wh vf p (AUFS_WH_PFX @ name) False ?k = Some (0, ?k)" if ?wa
    using is_wh_env [OF env(1), of ?k p dir] p w0 [OF that] by simp
  have lk: "lkup_one vf name p ?k = (Inr (fl j), dget (fl j) ?k)"
    using env by (simp add: lkup_one_def lookup_env_def fl)
  have cnt: "0 \<le> k_dcount ?k (fl j)" using at p by (simp add: lkup_at_def dgets_dcount fl)
  have rec: "record_hidden sb (?D (- 1) (- 1)) j (fl j) (dget (fl j) ?k)
      = Some (lk_dentry d fl (s @ [j]) (- 1) (- 1), dget (fl j) ?k)"
    by (rule lk_record [OF s j(1)]) (use j cnt in \<open>simp_all add: sbend_def dget_dcount\<close>)
  have opq: "is_diropq vf (fl j) (dget (fl j) ?k) = Some (wh_code k (child (fl j) diropq_name), dget (fl j) ?k)"
    using is_diropq_env [OF env(1), of "dget (fl j) ?k" "fl j" i] i by simp
  have o0: "0 \<le> wh_code k (child (fl j) diropq_name)" using at p i by (simp add: lkup_at_def fl)
  have w: "dbwh (lk_dentry d fl (s @ [j]) (- 1) (- 1)) = Some (- 1)"
    using lk_dtodi [of "s @ [j]" "- 1" d fl "- 1"] s by (simp add: dbwh_def sorted_wrt_append)
  have nd: "not_dir (lk_dentry d fl (s @ [j]) (- 1) (- 1))" using d by simp
  have "do_lookup vf sb p (?D (- 1) (- 1)) name j (AUFS_WH_PFX @ name) neg 0 ?k
      = (if ?wa \<and> 0 < wh_code k (child (fl j) diropq_name) then None
         else Some (Inr (Some (fl j)), lk_dentry d fl (s @ [j]) (- 1) (- 1), dget (fl j) ?k))"
    using o0 p i wa iw lk rec opq not_dir_crash(1) [OF nd] by (cases ?wa) (auto simp: do_lookup_def)
  then show ?thesis
    using own hp' p i w not_dir_crash(2) [OF nd]
    by (auto simp: lkup_body_def lk_state_def isdir_ifmt Let_def)
qed

text \<open>C17.
  With debugging on, removing a file from its own writable branch stops the kernel when the
  first thing of that name in the branches below is a directory. \<open>wr_dir_need_wh\<close> looks the name up
  below with the dentry of the file and without a type, so \<open>lkup_dentry\<close> takes the directory for a
  layer and then asks for the opaque mark, which \<open>dbdiropq\<close> refuses for a dentry whose inode is
  no directory.
\<close>

theorem aufs_unlink_over_dir_crashes:
  assumes env: "lookup_env (ce_vfs E) child" and name: "cn_name (dl_node st) = name"
    and ok: "del_base child hp b btail (dl_dentry st) name (dl_parent st) (dl_sb st) (dl_kern st)"
    and ap: "apart child name hp btail" and c: "wr_dir_branch (- 1) st = Some b"
    and mem: "k_ok (dl_kern st) (k_alloc (dl_kern st))"
    and j: "b < j" "j \<le> btail"
      "view_at child (dl_sb st) name (dl_kern st) hp j = Some (False, Some (m, opq))" "m AND S_IFMT = S_IFDIR"
      "\<forall>i. b < i \<and> i < j \<longrightarrow> passed (view_at child (dl_sb st) name (dl_kern st) hp i)"
  shows "aufs_unlink E lastref st = None"
proof -
  let ?d = "dl_dentry st" and ?k = "dl_kern st" and ?sb = "dl_sb st" and ?p = "dl_parent st" and ?vf = "ce_vfs E"
  define fl where "fl = file_at child name hp"
  define k0 where "k0 = below_kern child hp b name ?k"
  note o = del_baseD [OF ok, folded fl_def] and sl = del_base_slot [OF ok, folded fl_def]
  have nm: "take AUFS_WH_LEN name \<noteq> AUFS_WH_PFX" "dbtaildir ?p = Some btail" using ok by (auto simp: del_base_def)
  note k0 = below_kern_fields [where child = child and hp = hp and b = b and name = name and k = ?k, folded k0_def fl_def]
  have at: "lkup_at child ?sb ?p ?d name k0 (hp i) i" if "b < i" "i \<le> btail" for i
    using below_at [OF ok ap, of i] that by (simp add: k0_def)
  define I where "I = (\<lambda>(i::int) t. \<exists>s neg. t = lk_state ?d fl k0 s (- 1) (- 1) 0 neg 0
      \<and> sorted_wrt (<) s \<and> (\<forall>x \<in> set s. 0 \<le> x \<and> x < i))"
  let ?f = "lkup_body ?vf ?sb ?p name (AUFS_WH_PFX @ name)"
  let ?start = "\<lparr>ll_dentry = ?d, ll_kern = snd (kmalloc ?k), ll_npos = 0, ll_neg = True, ll_type = 0, ll_err = None\<rparr>"
  have start: "I (b + 1) ?start"
    unfolding I_def using o(4,6) k0(6) by (intro exI [of _ "[b]"] exI [of _ True]) (simp add: lk_state_def)
  have step: "\<exists>u. ?f i t = Some (True, u) \<and> I (i + 1) u" if i: "b + 1 \<le> i" "i < j" "I i t" for i t
  proof -
    obtain s neg where t: "t = lk_state ?d fl k0 s (- 1) (- 1) 0 neg 0" "sorted_wrt (<) s" "\<forall>x \<in> set s. 0 \<le> x \<and> x < i"
      using i(3) by (auto simp: I_def)
    have pv: "passed (view_at child ?sb name k0 hp i)" using j(5) i k0(7) by simp
    then have df: "hp i \<noteq> None \<longrightarrow> dir_fits ?d k0 (fl i)"
      using o(11) [of i] i(1,2) j(2) o(4)
      by (auto simp: passed_def view_at_def branch_view_def fl_def file_at_def dir_fits_def k0 split: if_splits option.splits)
    have ai: "lkup_at child ?sb ?p ?d name k0 (hp i) i" using at i j(2) by simp
    have i0: "0 \<le> i" using i o(4) by simp
    have s': "sorted_wrt (<) (s @ [i])" "\<forall>x \<in> set (s @ [i]). 0 \<le> x \<and> x < i + 1"
      "\<forall>x \<in> set s. 0 \<le> x \<and> x < i + 1"
      using t(2,3) i0 by (auto simp: sorted_wrt_append)
    have I: "I (i + 1) (lk_state ?d fl k0 r (- 1) (- 1) 0 g 0)" if "r = s \<or> r = s @ [i]" for r g
      unfolding I_def using that s' t(2) by blast
    show ?thesis
      using lkup_body_view [OF fl_def env o(1) ai df t(2,3), of 0 neg 0] pv t(1) I by (auto simp: passed_def)
  qed
  from for_up_prefix [of I "b + 1" ?start j btail ?f, OF start _ _ step] j obtain t where
    t: "for_up ?f (b + 1) btail ?start = for_up ?f j btail t" "I j t" by auto
  then obtain s neg where s: "t = lk_state ?d fl k0 s (- 1) (- 1) 0 neg 0" "sorted_wrt (<) s" "\<forall>x \<in> set s. 0 \<le> x \<and> x < j"
    by (auto simp: I_def)
  have "?f j t = None"
    using lkup_body_dir_crash [OF fl_def env o(1) at [OF j(1,2)] o(13) s(2,3), of m opq 0 neg] j(3,4) k0(7) s(1) by simp
  then have loop: "for_up ?f (b + 1) btail ?start = None" using t j(2) by (simp add: for_up_step)
  have al: "au_alloc_whname name ?k = Some (Inr (AUFS_WH_PFX @ name), snd (kmalloc ?k))"
    using o(2,3) mem by (simp add: au_alloc_whname_def kmalloc_def)
  have "lkup_dentry ?vf ?sb ?p ?d name (b + 1) 0 ?k = None"
    using o(4) nm al loop by (simp add: lkup_dentry_def)
  then have "lkup_below E False b st = None" using name by (cases "dbend ?d") (simp_all add: lkup_below_def)
  then have "wr_dir_need_wh E False (- 1) st = None" using c sl o(4) by (simp add: wr_dir_need_wh_def)
  moreover have "d_imode ?d \<noteq> None" using o(13) by (auto simp: not_dir_def split: option.splits)
  ultimately show ?thesis using sl by (auto simp: aufs_unlink_def lock_hdir_create_wh_def)
qed

section \<open>Concrete removals\<close>

text \<open>
  Two branches with the directories 1 and 2, the lower one read-only; the name \<open>ab\<close> is a file in
  the upper one (12) and has the mode \<open>m\<close> in the lower one (22). A new whiteout gets the inode 70.
\<close>

definition child_u :: "nat \<Rightarrow> byte list \<Rightarrow> nat" where "child_u p n = 10 * p + length n"

definition kern_u :: "32 word \<Rightarrow> kern" where
  "kern_u m = kern0\<lparr>k_dinode := (\<lambda>d. if d = 1 \<or> d = 2 \<or> d = 12 \<or> d = 22 then Some d else None),
     k_dparent := (\<lambda>d. d div 10), k_imode := (\<lambda>i. if i < 10 then 0x4000 else if i = 22 then m else 0x8000)\<rparr>"

definition sb_u :: "br_perm \<Rightarrow> aufs_sb" where
  "sb_u perm = (sb0 2)\<lparr>s_br := (\<lambda>a. (s_br (sb0 2) a)\<lparr>br_perm := if a = 0 then perm else AuBr_RO\<rparr>)\<rparr>"

definition E_u :: cpup_env where
  "E_u = E_full\<lparr>ce_vfs := vfs0\<lparr>vf_lookup := (\<lambda>n p k. (Inr (child_u p n), dget (child_u p n) k)),
     vf_create := (\<lambda>_ d _ k. if S_ISREG (k_imode k 70)
     then (0, k\<lparr>k_dinode := (k_dinode k)(d := Some 70)\<rparr>) else (- 28, k))\<rparr>\<rparr>"

definition del_u :: "br_perm \<Rightarrow> 32 word \<Rightarrow> del_st" where
  "del_u perm m = \<lparr>dl_node = \<lparr>cn_dentry = (dentry_at [Some 12, None] 0 0)\<lparr>d_imode := Some 0x8000\<rparr>,
       cn_inode = (inode_at [Some 12, None] 0 0)\<lparr>i_mode := 0x8000\<rparr>, cn_iaddr = 12, cn_name = [97, 98]\<rparr>,
     dl_dir = \<lparr>cn_dentry = dir_at [Some 1, Some 2] 0 1, cn_inode = inode_at [Some 1, Some 2] 0 1, cn_iaddr = 11, cn_name = []\<rparr>,
     dl_up = [], dl_dropped = False, dl_queued = False, dl_cnt = 0, dl_sb = sb_u perm, dl_kern = kern_u m\<rparr>"

definition hp_u :: "int \<Rightarrow> nat option" where "hp_u j = Some (nat j + 1)"

lemma del_u_fields: "dl_sb (del_u perm m) = sb_u perm" "dl_kern (del_u perm m) = kern_u m"
  "cn_name (dl_node (del_u perm m)) = [97, 98]"
  by (simp_all add: del_u_def)

lemma E_u_env: "lookup_env (ce_vfs E_u) child_u" "file_ops (ce_vfs E_u)" "times_ops E_u"
proof -
  show "lookup_env (ce_vfs E_u) child_u" "times_ops E_u"
    by (simp_all add: E_u_def E_full_def vfs0_def lookup_env_def times_ops_def dtime_revert_def)
  show "file_ops (ce_vfs E_u)"
    by (auto simp: E_u_def vfs0_def file_ops_def undisturbed_def same_files_def wh_code_def)
qed

lemma two: "0 \<le> j \<and> j \<le> (1::int) \<longleftrightarrow> j = 0 \<or> j = 1" by auto

lemma apart_u: "apart child_u [97, 98] hp_u 1"
  unfolding apart_def
proof (intro allI impI)
  fix i j :: int and p q
  assume "0 \<le> i" "i \<le> 1" "0 \<le> j" "j \<le> 1" and h: "hp_u i = Some p" "hp_u j = Some q"
  then have "i = 0 \<or> i = 1" "j = 0 \<or> j = 1" by auto
  with h show "child_u p [97, 98] \<noteq> q \<and> child_u p (AUFS_WH_PFX @ [97, 98]) \<noteq> q
     \<and> child_u p [97, 98] \<noteq> child_u q (AUFS_WH_PFX @ [97, 98])
     \<and> child_u p [97, 98] \<noteq> child_u (child_u q [97, 98]) diropq_name
     \<and> child_u p (AUFS_WH_PFX @ [97, 98]) \<noteq> child_u (child_u q [97, 98]) diropq_name
     \<and> (i \<noteq> j \<longrightarrow> child_u p [97, 98] \<noteq> child_u q [97, 98]
        \<and> child_u p (AUFS_WH_PFX @ [97, 98]) \<noteq> child_u q (AUFS_WH_PFX @ [97, 98]))"
    by (auto simp: hp_u_def child_u_def AUFS_WH_PFX_def diropq_name_def)
qed

lemma views_u:
  "view_at child_u (sb_u AuBr_RW) [97, 98] (kern_u m) hp_u 0 = Some (False, Some (0x8000, False))"
  "view_at child_u (sb_u AuBr_RWNoLinkWH) [97, 98] (kern_u m) hp_u 0 = Some (False, Some (0x8000, False))"
  "view_at child_u (sb_u perm) [97, 98] (kern_u m) hp_u 1 = Some (False, Some (m, False))"
  by (simp_all add: view_at_def branch_view_def hp_u_def kern_u_def kern0_def child_u_def sb_u_def sb0_def br_at_def
      br_whable_def S_ISDIR_def wh_code_def AUFS_WH_PFX_def)

lemma del_base_u:
  "del_base child_u hp_u 0 1 (dl_dentry (del_u perm m)) [97, 98] (dl_parent (del_u perm m)) (sb_u perm) (kern_u m)"
proof -
  let ?d = "dl_dentry (del_u perm m)" and ?p = "dl_parent (del_u perm m)"
  have sb: "sb_ok (sb_u perm)" using sb0_ok [of 2] by (simp add: sb_ok_def sb_u_def)
  have at: "lkup_at child_u (sb_u perm) ?p ?d [97, 98] (kern_u m) (hp_u j) j
      \<and> (\<forall>p. hp_u j = Some p \<longrightarrow> (\<exists>i. k_dinode (kern_u m) p = Some i \<and> S_ISDIR (k_imode (kern_u m) i))
               \<and> k_dparent (kern_u m) (child_u p [97, 98]) = p \<and> k_dparent (kern_u m) (child_u p (AUFS_WH_PFX @ [97, 98])) = p)"
    if "0 \<le> j" "j \<le> 1" for j
  proof -
    from that have "j = 0 \<or> j = 1" by auto
    then show ?thesis
      by (auto simp: lkup_at_def del_u_def dir_at_def dentry_at_def the_di_def au_h_dptr_i_def dtodi_def hp_u_def kern_u_def
          kern0_def sb_u_def wh_code_def child_u_def AUFS_WH_PFX_def diropq_name_def S_ISDIR_def aget_def)
  qed
  have f: "file_at child_u [97, 98] hp_u 0 = 12" by (simp add: file_at_def hp_u_def child_u_def)
  have lk: "lk_dentry ?d (file_at child_u [97, 98] hp_u) [0] (- 1) (- 1) = ?d"
    by (simp add: lk_dentry_def lk_dinfo_def the_di_def del_u_def dentry_at_def file_at_def hp_u_def child_u_def upt_rec)
  have tl: "dbtaildir ?p = Some 1"
    by (simp add: del_u_def dir_at_def dentry_at_def dbtaildir_def dbtail_def dbend_def dbwh_def dbdiropq_def dtodi_def
        not_dir_def S_ISDIR_def)
  have nd: "not_dir ?d" by (simp add: del_u_def not_dir_def S_ISDIR_def)
  have nm: "[97, 98] \<noteq> ([] :: byte list)" "take AUFS_WH_LEN [97, 98] \<noteq> AUFS_WH_PFX"
    "length [97, 98 :: byte] \<le> PATH_MAX - AUFS_WH_LEN"
    by (simp_all add: AUFS_WH_LEN_def AUFS_WH_PFX_def PATH_MAX_def)
  have h0: "hp_u 0 \<noteq> None" "k_dinode (kern_u m) 12 \<noteq> None" "0 < k_dcount (kern_u m) 12" "\<forall>x. 0 \<le> k_dcount (kern_u m) x"
    "dir_fits ?d (kern_u m) 12"
    by (simp_all add: hp_u_def kern_u_def kern0_def dir_fits_def S_ISDIR_def)
  have nb: "\<forall>j w. 0 \<le> j \<longrightarrow> j \<le> 1 \<longrightarrow> br_wh (br_at (sb_u perm) j) = Some w \<longrightarrow> wh_code (kern_u m) w = 1"
    by (simp add: br_at_def sb_u_def sb0_def)
  show ?thesis
    unfolding del_base_def f using sb nm tl lk h0 nd nb at by (intro conjI allI impI) (assumption | simp)+
qed

lemma del_ok_u:
  "del_ok child_u hp_u 0 1 (dl_dentry (del_u perm 0x8000)) [97, 98] (dl_parent (del_u perm 0x8000)) (sb_u perm) (kern_u 0x8000)"
  unfolding del_ok_def using del_base_u
  by (auto simp: dir_fits_def file_at_def hp_u_def child_u_def kern_u_def kern0_def S_ISDIR_def)

lemma run_rw: "map_option fst (aufs_unlink E_u True (del_u AuBr_RW 0x8000)) = Some 0"
  by code_simp

lemma run_nolwh: "map_option fst (aufs_unlink E_u True (del_u AuBr_RWNoLinkWH 0x8000)) = Some 0"
  by code_simp

lemma branch_u:
  assumes "perm = AuBr_RW \<or> perm = AuBr_RWNoLinkWH"
  shows "wr_dir_branch (- 1) (del_u perm m) = Some 0"
  using assms
  by (auto simp: wr_dir_branch_def del_u_def dentry_at_def dbstart_def dtodi_def test_ro_def sbr_def stobr_def sb_u_def sb0_def
      sbend_def br_rdonly_def br_writable_def kern_u_def kern0_def inode_at_def au_h_iptr_i_def ibend_def ii_of_def itoii_def
      hinode_at_def)

lemma dir_u:
  "ibstart (cn_inode (dl_dir (del_u perm m))) = Some 0"
  "au_h_iptr (kern_u m) (cn_inode (dl_dir (del_u perm m))) = Some (k_dinode (kern_u m) 1)"
  by (simp_all add: del_u_def inode_at_def ibstart_def ibend_def ii_of_def itoii_def au_h_iptr_def au_h_iptr_i_def hinode_at_def
      kern_u_def kern0_def)

theorem aufs_unlink_all_or_nothing_witness:
  "\<exists>st'. aufs_unlink E_u True (del_u AuBr_RW 0x8000) = Some (0, st')
     \<and> layers 0 (map (\<lambda>j. (j, view_at child_u (dl_sb st') [97, 98] (dl_kern st') hp_u j)) [0..1]) = []"
proof -
  let ?st = "del_u AuBr_RW 0x8000"
  have l: "layers 0 (map (\<lambda>j. (j, view_at child_u (dl_sb ?st) [97, 98] (dl_kern ?st) hp_u j)) [0..1]) = [0]"
    using views_u by (simp add: del_u_fields upto.simps S_IFMT_def S_IFDIR_def)
  have w: "0 \<le> (0::int) \<longrightarrow> hp_u 0 \<noteq> None \<and> br_whable (br_perm (br_at (dl_sb ?st) 0))"
    by (simp add: hp_u_def del_u_fields sb_u_def sb0_def br_at_def br_whable_def)
  have d: "0 = (0::int) \<and> 0 \<le> (0::int) \<longrightarrow> au_h_iptr (dl_kern ?st) (cn_inode (dl_dir ?st)) = Some (k_dinode (dl_kern ?st) (the (hp_u 0)))"
    using dir_u(2) by (simp add: hp_u_def del_u_fields)
  have ok: "del_ok child_u hp_u 0 1 (dl_dentry ?st) [97, 98] (dl_parent ?st) (dl_sb ?st) (dl_kern ?st)"
    using del_ok_u by (simp add: del_u_fields)
  from aufs_unlink_all_or_nothing [OF E_u_env del_u_fields(3) ok apart_u l branch_u [of AuBr_RW] w dir_u(1) d, of True] run_rw
  show ?thesis by auto
qed

theorem aufs_unlink_nolwh_shows_lower_witness:
  "\<exists>st'. aufs_unlink E_u True (del_u AuBr_RWNoLinkWH 0x8000) = Some (0, st')
     \<and> layers 0 (map (\<lambda>j. (j, view_at child_u (dl_sb st') [97, 98] (dl_kern st') hp_u j)) [0..1]) = [1]"
proof -
  let ?st = "del_u AuBr_RWNoLinkWH 0x8000"
  have l: "layers 0 (map (\<lambda>j. (j, view_at child_u (dl_sb ?st) [97, 98] (dl_kern ?st) hp_u j)) [0..1]) = [0]"
    "layers 0 (map (\<lambda>j. (j, view_at child_u (dl_sb ?st) [97, 98] (dl_kern ?st) hp_u j)) [0 + 1..1]) = [1]"
    using views_u by (simp_all add: del_u_fields upto.simps S_IFMT_def S_IFDIR_def)
  have w: "br_perm (br_at (dl_sb ?st) 0) = AuBr_RWNoLinkWH" by (simp add: del_u_fields sb_u_def sb0_def br_at_def)
  have n: "k_dinode (dl_kern ?st) (child_u (the (hp_u 0)) (AUFS_WH_PFX @ [97, 98])) = None"
    by (simp add: del_u_fields kern_u_def hp_u_def child_u_def AUFS_WH_PFX_def)
  have d: "0 = (0::int) \<longrightarrow> au_h_iptr (dl_kern ?st) (cn_inode (dl_dir ?st)) = Some (k_dinode (dl_kern ?st) (the (hp_u 0)))"
    using dir_u(2) by (simp add: hp_u_def del_u_fields)
  have ok: "del_ok child_u hp_u 0 1 (dl_dentry ?st) [97, 98] (dl_parent ?st) (dl_sb ?st) (dl_kern ?st)"
    using del_ok_u by (simp add: del_u_fields)
  from aufs_unlink_nolwh_shows_lower [OF E_u_env del_u_fields(3) ok apart_u l(1) branch_u [of AuBr_RWNoLinkWH] w n dir_u(1) d, of True]
    run_nolwh l(2) show ?thesis by auto
qed

theorem aufs_unlink_over_dir_crashes_witness: "aufs_unlink E_u True (del_u AuBr_RW 0x4000) = None"
proof -
  let ?st = "del_u AuBr_RW 0x4000"
  have ok: "del_base child_u hp_u 0 1 (dl_dentry ?st) [97, 98] (dl_parent ?st) (dl_sb ?st) (dl_kern ?st)"
    using del_base_u by (simp add: del_u_fields)
  have v: "view_at child_u (dl_sb ?st) [97, 98] (dl_kern ?st) hp_u 1 = Some (False, Some (0x4000, False))"
    using views_u(3) by (simp add: del_u_fields)
  have m: "k_ok (dl_kern ?st) (k_alloc (dl_kern ?st))" by (simp add: del_u_fields kern_u_def kern0_def)
  show ?thesis
    by (rule aufs_unlink_over_dir_crashes [OF E_u_env(1) del_u_fields(3) ok apart_u branch_u [of AuBr_RW] m _ _ v])
      (auto simp: S_IFMT_def S_IFDIR_def)
qed

end
