(* ===== verification/Spec2Isabelle.thy ===== *)
theory Spec2Isabelle
  imports Aufs_Vdir_Copy Aufs_Lookup Aufs_Plink Aufs_Xino_Init Aufs_Mount Aufs_Refresh_Inode Aufs_Unlink
begin

text \<open>
  A verification development of aufs, a stackable unification file system for Linux
  (fs/aufs). Several directories of other file systems, the branches, are stacked and
  shown as one. Names of an upper branch hide those below; a whiteout, a file
  \<open>.wh.NAME\<close>, hides NAME in all lower branches; the opaque mark \<open>.wh..wh..opq\<close> hides the
  whole directory below. Everything a name leads to below aufs is called hidden.

  \<^bold>\<open>How the code is modelled.\<close> Definitions are translated function by function and keep the
  names of the C code. Structures are records (Aufs_Types); a pointer is an address, a
  pointer that may be null an option. The kernel objects behind the addresses, with their
  reference counts and the attributes the code reads, are one record \<open>kern\<close> that is passed
  and returned. An array is a list of the allocated elements. A function that can stop the
  kernel (\<open>DEBUG_ON\<close>, \<open>BUG\<close>, a null pointer, an access outside an array, a loop that does
  not end) returns an option, and \<open>None\<close> stands for that; the errors the code returns are
  negative numbers or the left side of a sum. So a theorem that ends in
  \<open>\<exists>y. f x = Some y\<close> also says that the code returns. Branch indexes are
  \<open>aufs_bindex_t\<close>, signed 8 bits (\<open>to_bindex\<close>); flags are 32-bit words, inode numbers and
  file positions 64-bit words. The configuration is the one of local.mk: at most 127
  branches, debugging on, no inotify, no delegation.

  \<^bold>\<open>What is a parameter.\<close> The hidden file systems (record \<open>vfs\<close> of Aufs_Whout: lookup,
  create, link, unlink, mkdir, open; \<open>cpup_env\<close> of Aufs_Cpup: attributes, symbolic links, devices;
  \<open>xino_env\<close> and the read and write functions of Aufs_Xino and Aufs_Misc), the filler of \<open>readdir\<close>, the kernel's option matcher (record \<open>parser\<close>), the
  loop device and the revalidation of a path. What a theorem relies on is a named
  hypothesis (\<open>lookup_env\<close>, \<open>open_env\<close>, \<open>open_errs\<close>, \<open>parser_ok\<close>, \<open>literal_ok\<close> and others), and its
  witness instantiates it.

  \<^bold>\<open>The theories.\<close>

  Aufs_Prelude: the crash convention, checked arrays, the shifts done with \<open>memmove\<close>, the
  loops \<open>scan_up\<close>, \<open>scan_down\<close> and \<open>for_up\<close> with their rules, and the locale \<open>frame_rel\<close>: what
  every round of a loop keeps, the loop keeps. Aufs_Types: records, store. Aufs_Bytes: memory
  as bytes.

  Aufs_Super (super.h, branch.h, sbinfo.c): mount flags, the branch table, branch ids, the
  search for a writable branch. \<open>new_br_id\<close> ends, since at most 127 of 255 ids are taken.

  Aufs_Slots is the interface of the info structures, the locale \<open>info_slots\<close>: an array of slots
  of which a range is in use, and an operation that empties a slot and gives its reference
  back; the sweep over the range is proved once. Aufs_Dinfo (dinfo.c, dentry.h), Aufs_Iinfo
  (iinfo.c, inode.h, parts of misc.c) and Aufs_Finfo (finfo.c, file.h) interpret it and get that
  every reference is given back exactly once.

  Aufs_Xino (xino.c, first half): the table of inode numbers, a file with one entry of eight
  bytes per hidden inode number; what is written is read back. Aufs_Xino_Init (second half):
  creating, sharing, moving and clearing the tables, with the reference counts of the files.

  Aufs_Misc (misc.c): reallocation, and the copy of a file with holes.

  Aufs_Vdir, Aufs_Vdir_Append (vdir.c, dir.h): the listing of a directory as 512-byte blocks of
  packed entries; \<open>append_de\<close> refines appending to a list. Aufs_Vdir_Read, Aufs_Vdir_Merge:
  reading a directory refines the merge of its branches. Aufs_Readdir: handing a listing out in
  pieces, resumed at any offset of a listing of up to \<open>2 ^ 22\<close> blocks. Aufs_Vdir_Copy: the copy an open file keeps; opening and
  listing in pieces delivers the merge.

  Aufs_Whout (whout.c): names, tests, creation and removal of whiteouts and opaque marks, the
  whiteout base of a branch and the job that renews it, temporary names.

  Aufs_Lookup (dentry.c): \<open>lkup_dentry\<close> refines the stacking rules, stated on the views of the
  branches.

  Aufs_Plink (plink.c): hard links over branches. An appended pseudo link is found; a branch
  that is dropped takes its hidden inodes and nothing else.

  Aufs_Attr (cpup.c, dir.c): attributes copied from hidden inodes, link counts of directories.

  Aufs_Realign: the locale \<open>realign\<close>, a loop that moves each element of an array to its home by
  swaps and drops those without one. It ends, everything kept stands at home, everything dropped
  is given back once. Aufs_Refresh (dentry.c, inode.c): after the branches changed,
  \<open>au_refresh_hdentry\<close> and \<open>au_refresh_hinode\<close> bring the slots of a dentry and of an inode to the
  new indexes; revalidation of a path; the release of a dentry. Aufs_Refresh_Inode holds the
  theorems on inodes. Both loops interpret \<open>realign\<close>.

  Aufs_Cpup (cpup.c, \<open>hidden_open\<close> of file.c): copying a file of any type to an upper branch, with
  its data, attributes and pseudo links, and the missing directories above it. The functions
  \<open>sio_cpup_*\<close> that may hand the work to a thread with root credentials set the flag \<open>as_root\<close>. A copy
  that fails is taken back. Aufs_Dir (dir.c, \<open>au_do_open\<close> of file.c): opening, reopening and releasing
  a directory; the tests for emptiness used by rmdir and rename, which decide whether the merge of
  Aufs_Vdir_Merge lists nothing but the dots.

  Aufs_Delete (i_op_del.c, end of whout.c): removing a name. A file of a read-only branch gets a
  whiteout in a writable branch above it; a name that shows something below it gets one in its own
  branch; a directory is renamed to a temporary name and removed with its whiteouts, at once or in
  the work queue. What fails is taken back. Aufs_Unlink: on the stacked view of Aufs_Lookup,
  \<open>aufs_unlink\<close> removes the name or leaves the union as it was, under hypotheses on the hidden file
  systems (\<open>file_ops\<close>, \<open>times_ops\<close>: an operation that fails changes nothing, one that succeeds changes
  its own entry).

  Aufs_Branch (branch.c): adding, removing and changing a branch. Aufs_Branch_Test: the test
  for overlap is the tree order, busy branches stay. Aufs_Branch_Tables, Aufs_Branch_Del: on the
  abstract state, three parallel lists, \<open>br_add\<close> is insertion and \<open>br_del\<close> removal, at one index.

  Aufs_Opts (opts.c, opts.h): the option tables, the parser and the execution of options.
  Aufs_Opts_Parse: the slots after a parse are well typed; two inputs that break it.
  Aufs_Mount_Frame, Aufs_Mount_Flags, Aufs_Mount: mounting, the composition of all the above
  operations of branches, tables and whiteout bases. A successful mount leaves exactly the flags the
  options name, and a branch has a table exactly when \<open>XINO\<close> is set. The frame relations
  \<open>quiet\<close>, \<open>calm\<close> and \<open>same_fr\<close> say what the parts leave alone and interpret \<open>frame_rel\<close>.

  \<^bold>\<open>Loops and bounds.\<close> Loops over branches are \<open>for_up\<close> and end by the range. Loops of the code
  without a bound (\<open>new_br_id\<close>, the walk to the root in \<open>do_is_overlap\<close>, the retries of
  \<open>do_xino_fwrite\<close>, the copy loop) are \<open>partial_function (option)\<close>, and the theorems on them prove
  that they return, under a hypothesis on the environment where the code needs one. The parser's
  loops end because \<open>strsep\<close> shortens the string; the swaps of a refresh, because each round drops an
  element, passes an index or brings one more element home. There is no fuel.

  \<^bold>\<open>Errors found.\<close> Some theorems state behaviour the code cannot mean: a write error lost in
  \<open>au_copy_file\<close>, and its copy one byte too long; an error lost in \<open>xino_set\<close>; far inode numbers
  that share a table entry; a branch made writable without a directory for pseudo links; the
  option array overrun by \<open>br=\<close>, and all options lost after an empty path; an opaque mark that does
  not follow its directory when a branch is added above it, and an inode range that ends beyond
  the branches; the upper directories lost by a dentry whose copy-up fails; the hidden files leaked
  by an open of a directory that fails; a name that shows up again after it was removed from a
  \<open>rw+nolwh\<close> branch; an assertion (debugging is on) that fails when a file above a directory is removed;
  a directory whose listing seems to end behind two gigabytes when its position has to be searched.

  \<^bold>\<open>Not modelled.\<close> Locks and the concurrency they guard: every operation is a step on the whole
  state; the asynchronous jobs, the renewal of a whiteout base and the removal of a renamed directory,
  are steps of their own. The inode operations that create, link, rename and change attributes
  (i_op.c, i_op_add.c, i_op_ren.c, rest of inode.c), the file operations apart from opening (rest of
  file.c, f_op.c), the entry points \<open>aufs_readdir\<close> and \<open>aufs_fsync_dir\<close> of dir.c and the superblock
  operations (super.c) are left. The work queue (wkq.c), the collection of dentries (dcsub.c) and the
  wrappers of VFS calls (vfsub.c) are kernel mechanics and appear as parameters. NFS export, sysfs
  and inotify (export.c, sysaufs.c, hinotify.c) are optional features; module.c and debug.c only
  register and print.
\<close>

end
